(* ===== verification/Prelude.thy ===== *)
theory Prelude
  imports Complex_Main
begin

text \<open>
  What the components share: Python dictionaries that keep their insertion order, the
  result type of fallible operations, small list lemmas, and the collections of facts
  the component proofs hand to the simplifier.

  Conventions of the whole development.
  \<^item> A Python \<open>dict\<close> is an association list with distinct keys: the iteration order of a
    Python dictionary is observable and several components rely on it.
  \<^item> An exception is the left summand of \<open>'e + 'a\<close>; every raise is a branch of the model.
  \<^item> A Python \<open>float\<close> is a \<open>real\<close>. Rounding is not modelled. Where the code tests for
    NaN or infinity, the component uses a datatype with those values.
\<close>

named_theorems dict_simps "laws of insertion-ordered dictionaries"
named_theorems error_splits "case splits on results"

subsection \<open>Results\<close>

definition bindE :: "'e + 'a \<Rightarrow> ('a \<Rightarrow> 'e + 'b) \<Rightarrow> 'e + 'b" where
  "bindE r f = (case r of Inl e \<Rightarrow> Inl e | Inr x \<Rightarrow> f x)"

lemma bindE_simps [simp]:
  "bindE (Inl e) f = Inl e"
  "bindE (Inr x) f = f x"
  by (simp_all add: bindE_def)

lemma bindE_Inr_iff: "bindE r f = Inr y \<longleftrightarrow> (\<exists>x. r = Inr x \<and> f x = Inr y)"
  by (cases r) simp_all

text \<open>A comprehension over a fallible function stops at the first error.\<close>

fun mapE :: "('a \<Rightarrow> 'e + 'b) \<Rightarrow> 'a list \<Rightarrow> 'e + 'b list" where
  "mapE f [] = Inr []"
| "mapE f (x # xs) = bindE (f x) (\<lambda>y. bindE (mapE f xs) (\<lambda>ys. Inr (y # ys)))"

lemma mapE_Inr_length: "mapE f xs = Inr ys \<Longrightarrow> length ys = length xs"
  by (induction xs arbitrary: ys) (auto simp: bindE_Inr_iff)

lemma mapE_Inr_iff:
  "mapE f xs = Inr ys \<longleftrightarrow> list_all2 (\<lambda>x y. f x = Inr y) xs ys"
proof (induction xs arbitrary: ys)
  case Nil
  then show ?case by auto
next
  case (Cons x xs)
  then show ?case by (cases ys) (auto simp: bindE_Inr_iff)
qed

lemma mapE_take: "mapE f xs = Inr ys \<Longrightarrow> mapE f (take n xs) = Inr (take n ys)"
proof (induction xs arbitrary: ys n)
  case (Cons x xs)
  then show ?case by (cases n) (auto simp: bindE_Inr_iff)
qed simp

lemma mapE_cong: "(\<And>x. x \<in> set xs \<Longrightarrow> f x = g x) \<Longrightarrow> mapE f xs = mapE g xs"
  by (induction xs) simp_all

lemma mapE_Inr_mem:
  "mapE f xs = Inr ys \<Longrightarrow> y \<in> set ys \<Longrightarrow> \<exists>x \<in> set xs. f x = Inr y"
  by (induction xs arbitrary: ys) (auto simp: bindE_Inr_iff)

text \<open>A loop over a fallible step.\<close>

fun foldE :: "('x \<Rightarrow> 'a \<Rightarrow> 'e + 'a) \<Rightarrow> 'x list \<Rightarrow> 'a \<Rightarrow> 'e + 'a" where
  "foldE f [] a = Inr a"
| "foldE f (x # xs) a = bindE (f x a) (foldE f xs)"

lemma foldE_Cons_Inr: "foldE f (x # xs) a = Inr c \<longleftrightarrow> (\<exists>b. f x a = Inr b \<and> foldE f xs b = Inr c)"
  by (simp add: bindE_Inr_iff)

text \<open>An invariant of a loop that does not raise.\<close>

lemma foldE_invariant:
  assumes "foldE f xs a = Inr b" "P a"
    and "\<And>x c d. x \<in> set xs \<Longrightarrow> P c \<Longrightarrow> f x c = Inr d \<Longrightarrow> P d"
  shows "P b"
  using assms
proof (induction xs arbitrary: a)
  case (Cons x xs)
  obtain c where c: "f x a = Inr c" "foldE f xs c = Inr b" using Cons.prems(1) by (auto simp: bindE_Inr_iff)
  have "P c" using Cons.prems(2,3) c(1) by auto
  then show ?case using Cons.IH [OF c(2)] Cons.prems(3) by auto
qed simp

lemma is_Inr_foldE:
  assumes "P a" "\<And>x c. x \<in> set xs \<Longrightarrow> P c \<Longrightarrow> \<exists>d. f x c = Inr d \<and> P d"
  shows "\<exists>b. foldE f xs a = Inr b \<and> P b"
  using assms
proof (induction xs arbitrary: a)
  case (Cons x xs)
  then obtain c where c: "f x a = Inr c" "P c" by (meson list.set_intros(1))
  then show ?case using Cons.IH [OF c(2)] Cons.prems(2) by auto
qed simp

text \<open>
  The exceptions the components raise. \<open>DatabaseError\<close> is the driver's error for a
  statement the database refuses.
\<close>

datatype py_error =
  ValueError | KeyError | RuntimeError | TypeError | IndexError | OverflowError | AssertionError
  | DatabaseError | LookupError | StopIteration | ZeroDivisionError

text \<open>An operation that does not raise.\<close>

definition is_Inr :: "'e + 'a \<Rightarrow> bool" where
  "is_Inr r \<longleftrightarrow> (\<exists>x. r = Inr x)"

lemma is_Inr_simps [simp]: "is_Inr (Inr x)" "\<not> is_Inr (Inl e)"
  by (simp_all add: is_Inr_def)

lemma is_InrE [elim]: "is_Inr r \<Longrightarrow> (\<And>x. r = Inr x \<Longrightarrow> P) \<Longrightarrow> P"
  by (auto simp: is_Inr_def)

lemma is_Inr_bindI: "is_Inr r \<Longrightarrow> (\<And>x. r = Inr x \<Longrightarrow> is_Inr (f x)) \<Longrightarrow> is_Inr (bindE r f)"
  by (auto simp: is_Inr_def)

lemma is_Inr_mapE: "(\<And>x. x \<in> set xs \<Longrightarrow> is_Inr (f x)) \<Longrightarrow> is_Inr (mapE f xs)"
proof (induction xs)
  case (Cons x xs)
  have "is_Inr (f x)" "is_Inr (mapE f xs)" using Cons by auto
  then show ?case by (simp add: is_Inr_bindI)
qed simp

subsection \<open>Strings\<close>

text \<open>\<open>sep.join(xs)\<close>\<close>

fun str_join :: "string \<Rightarrow> string list \<Rightarrow> string" where
  "str_join sep [] = []"
| "str_join sep [x] = x"
| "str_join sep (x # y # xs) = x @ sep @ str_join sep (y # xs)"

definition digit_char :: "int \<Rightarrow> char" where
  "digit_char n = char_of (48 + nat (n mod 10))"

text \<open>Decimal digits of a number below \<open>10 ^ k\<close>, padded with zeros to \<open>k\<close> places.\<close>

fun zero_pad :: "nat \<Rightarrow> int \<Rightarrow> string" where
  "zero_pad 0 n = []"
| "zero_pad (Suc k) n = zero_pad k (n div 10) @ [digit_char n]"

definition digit_val :: "char \<Rightarrow> int option" where
  "digit_val c = (let n = (of_char c :: nat) in if 48 \<le> n \<and> n \<le> 57 then Some (int n - 48) else None)"

fun parse_digits :: "int \<Rightarrow> string \<Rightarrow> int option" where
  "parse_digits acc [] = Some acc"
| "parse_digits acc (c # cs) =
     (case digit_val c of None \<Rightarrow> None | Some v \<Rightarrow> parse_digits (10 * acc + v) cs)"

lemma length_zero_pad [simp]: "length (zero_pad k n) = k"
  by (induction k arbitrary: n) auto

lemma digit_val_digit_char [simp]: "digit_val (digit_char n) = Some (n mod 10)"
proof -
  have r: "0 \<le> n mod 10" "n mod 10 < 10" by simp_all
  then have "nat (n mod 10) < 10" by (simp add: nat_less_iff)
  then have "(of_char (char_of (48 + nat (n mod 10)) :: char) :: nat) = 48 + nat (n mod 10)"
    by simp
  with r show ?thesis by (simp add: digit_char_def digit_val_def Let_def)
qed

lemma parse_digits_append:
  "parse_digits a (xs @ ys) = Option.bind (parse_digits a xs) (\<lambda>b. parse_digits b ys)"
  by (induction xs arbitrary: a) (auto split: option.splits)

lemma parse_zero_pad: "0 \<le> n \<Longrightarrow> n < 10 ^ k \<Longrightarrow> parse_digits a (zero_pad k n) = Some (a * 10 ^ k + n)"
proof (induction k arbitrary: n a)
  case (Suc k)
  have "n div 10 < 10 ^ k" using Suc.prems by (simp add: div_less_iff_less_mult mult.commute)
  then have "parse_digits a (zero_pad k (n div 10)) = Some (a * 10 ^ k + n div 10)"
    using Suc.prems by (intro Suc.IH) (auto simp: pos_imp_zdiv_nonneg_iff)
  then show ?case by (simp add: parse_digits_append algebra_simps)
qed simp

text \<open>
  \<open>s.strip()\<close>; \<open>s.upper()\<close>, \<open>c.isalnum()\<close> and \<open>s.startswith((p, ...))\<close> on ASCII text.
\<close>

definition is_space :: "char \<Rightarrow> bool" where
  "is_space c \<longleftrightarrow> (of_char c :: nat) \<in> {9, 10, 11, 12, 13, 28, 29, 30, 31, 32, 133, 160}"

definition strip :: "string \<Rightarrow> string" where
  "strip s = rev (dropWhile is_space (rev (dropWhile is_space s)))"

definition ord_of :: "char \<Rightarrow> nat" where
  "ord_of c = of_char c"

definition is_digit :: "char \<Rightarrow> bool" where
  "is_digit c \<longleftrightarrow> 48 \<le> ord_of c \<and> ord_of c \<le> 57"

definition is_upper :: "char \<Rightarrow> bool" where
  "is_upper c \<longleftrightarrow> 65 \<le> ord_of c \<and> ord_of c \<le> 90"

definition is_lower :: "char \<Rightarrow> bool" where
  "is_lower c \<longleftrightarrow> 97 \<le> ord_of c \<and> ord_of c \<le> 122"

definition is_alnum :: "char \<Rightarrow> bool" where
  "is_alnum c \<longleftrightarrow> is_digit c \<or> is_upper c \<or> is_lower c"

definition char_upper :: "char \<Rightarrow> char" where
  "char_upper c = (if is_lower c then char_of (ord_of c - 32) else c)"

definition str_upper :: "string \<Rightarrow> string" where
  "str_upper s = map char_upper s"

definition starts_with :: "string list \<Rightarrow> string \<Rightarrow> bool" where
  "starts_with ps s \<longleftrightarrow> list_ex (\<lambda>p. take (length p) s = p) ps"

text \<open>\<open>x or ''\<close>\<close>

definition text_or :: "string \<Rightarrow> string option \<Rightarrow> string" where
  "text_or d x = (case x of None \<Rightarrow> d | Some s \<Rightarrow> if s = [] then d else s)"

lemma strip_cons:
  assumes "s \<noteq> []" "\<not> is_space (hd s)" "\<not> is_space (last s)"
  shows "strip s = s"
proof -
  have "dropWhile is_space s = s" using assms(1,2) by (cases s) auto
  moreover have "dropWhile is_space (rev s) = rev s"
    using assms(1,3) by (cases "rev s") (auto simp: last_rev [symmetric] hd_rev)
  ultimately show ?thesis by (simp add: strip_def)
qed

lemma strip_ends: "strip s \<noteq> [] \<Longrightarrow> \<not> is_space (hd (strip s)) \<and> \<not> is_space (last (strip s))"
proof -
  let ?t = "rev (dropWhile is_space s)"
  assume n: "strip s \<noteq> []"
  then have u: "dropWhile is_space ?t \<noteq> []" by (simp add: strip_def)
  have "last (strip s) = hd (dropWhile is_space ?t)" using u by (simp add: strip_def last_rev)
  moreover have "hd (strip s) = hd (dropWhile is_space s)"
  proof -
    obtain us where "takeWhile is_space ?t @ dropWhile is_space ?t = ?t" by simp
    then have "last (dropWhile is_space ?t) = last ?t" using u by (metis last_appendR)
    moreover have "dropWhile is_space s \<noteq> []" using u by fastforce
    ultimately show ?thesis using u by (simp add: strip_def hd_rev last_rev)
  qed
  moreover have "dropWhile is_space s \<noteq> []" using u by fastforce
  ultimately show ?thesis using u by (simp add: hd_dropWhile)
qed

lemma strip_idem [simp]: "strip (strip s) = strip s"
proof (cases "strip s = []")
  case True
  then show ?thesis by (simp only:) (simp add: strip_def)
next
  case False
  then show ?thesis using strip_cons strip_ends by blast
qed

lemma ord_char_of: "n < 256 \<Longrightarrow> ord_of (char_of n) = n"
  by (simp add: ord_of_def)

lemma ord_of_inj: "ord_of c = ord_of d \<Longrightarrow> c = d"
  by (simp add: ord_of_def)

text \<open>Texts in the order of their bytes.\<close>

fun text_le :: "string \<Rightarrow> string \<Rightarrow> bool" where
  "text_le [] t = True"
| "text_le (c # s) [] = False"
| "text_le (c # s) (d # t) = (ord_of c < ord_of d \<or> (ord_of c = ord_of d \<and> text_le s t))"

definition text_max :: "string \<Rightarrow> string \<Rightarrow> string" where
  "text_max s t = (if text_le s t then t else s)"

lemma text_le_refl [simp]: "text_le s s"
  by (induction s) auto

lemma text_le_trans: "text_le s t \<Longrightarrow> text_le t u \<Longrightarrow> text_le s u"
proof (induction s t arbitrary: u rule: text_le.induct)
  case (3 c s d t)
  then show ?case by (cases u) auto
qed auto

lemma text_le_total: "text_le s t \<or> text_le t s"
  by (induction s t rule: text_le.induct) auto

lemma text_le_append:
  "length xs = length ys \<Longrightarrow>
   text_le (xs @ s) (ys @ t) \<longleftrightarrow> (if xs = ys then text_le s t else text_le xs ys)"
proof (induction xs ys rule: list_induct2)
  case (Cons x xs y ys)
  have "ord_of x = ord_of y \<longleftrightarrow> x = y" using ord_of_inj by blast
  then show ?case using Cons.IH by simp
qed simp

lemma text_le_antisym: "text_le s t \<Longrightarrow> text_le t s \<Longrightarrow> s = t"
proof (induction s t rule: text_le.induct)
  case (1 t)
  then show ?case by (cases t) auto
next
  case (3 c s d t)
  then have "ord_of c = ord_of d" "s = t" by auto
  then show ?case using ord_of_inj by blast
qed auto

text \<open>\<open>sorted(xs, key=...)\<close>, with the order of the keys: a stable insertion sort.\<close>

fun insort_by :: "('a \<Rightarrow> 'a \<Rightarrow> bool) \<Rightarrow> 'a \<Rightarrow> 'a list \<Rightarrow> 'a list" where
  "insort_by le x [] = [x]"
| "insort_by le x (y # ys) = (if le x y then x # y # ys else y # insort_by le x ys)"

definition sort_by :: "('a \<Rightarrow> 'a \<Rightarrow> bool) \<Rightarrow> 'a list \<Rightarrow> 'a list" where
  "sort_by le xs = foldr (insort_by le) xs []"

lemma set_insort_by [simp]: "set (insort_by le x xs) = insert x (set xs)"
  by (induction xs) auto

lemma set_sort_by [simp]: "set (sort_by le xs) = set xs"
  by (induction xs) (simp_all add: sort_by_def)

lemma length_insort_by [simp]: "length (insort_by le x xs) = Suc (length xs)"
  by (induction xs) auto

lemma length_sort_by [simp]: "length (sort_by le xs) = length xs"
  by (induction xs) (simp_all add: sort_by_def)

lemma distinct_insort_by [simp]: "distinct (insort_by le x xs) \<longleftrightarrow> x \<notin> set xs \<and> distinct xs"
  by (induction xs) auto

lemma distinct_sort_by [simp]: "distinct (sort_by le xs) \<longleftrightarrow> distinct xs"
  using set_sort_by [of le] by (induction xs) (simp_all add: sort_by_def)

lemma sorted_insort_by:
  assumes "\<And>x y. le x y \<or> le y x" "\<And>x y z. le x y \<Longrightarrow> le y z \<Longrightarrow> le x z" "sorted_wrt le xs"
  shows "sorted_wrt le (insort_by le x xs)"
  using assms(3)
proof (induction xs)
  case (Cons y ys)
  then show ?case using assms(1) [of x y] by (auto intro: assms(2))
qed simp

lemma sorted_sort_by:
  assumes "\<And>x y. le x y \<or> le y x" "\<And>x y z. le x y \<Longrightarrow> le y z \<Longrightarrow> le x z"
  shows "sorted_wrt le (sort_by le xs)"
proof (induction xs)
  case (Cons x xs)
  have "sorted_wrt le (insort_by le x (sort_by le xs))"
    by (rule sorted_insort_by) (fact assms(1), fact assms(2), fact Cons.IH)
  then show ?case by (simp add: sort_by_def)
qed (simp add: sort_by_def)

text \<open>Two distinct lists sorted by an order that separates their elements are equal.\<close>

lemma sorted_wrt_unique:
  assumes "sorted_wrt le xs" "sorted_wrt le ys" "set xs = set ys" "distinct xs" "distinct ys"
    and "\<And>x y. x \<in> set xs \<Longrightarrow> y \<in> set xs \<Longrightarrow> le x y \<Longrightarrow> le y x \<Longrightarrow> x = y"
  shows "xs = ys"
  using assms
proof (induction xs arbitrary: ys)
  case (Cons x xs)
  obtain y ys' where ys: "ys = y # ys'" using Cons.prems(3) by (cases ys) auto
  have "x = y"
  proof (rule ccontr)
    assume ne: "x \<noteq> y"
    then have "le x y" "le y x" using Cons.prems(1,2,3) ys by auto
    moreover have "y \<in> set (x # xs)" using Cons.prems(3) ys by simp
    ultimately show False using Cons.prems(6) [of x y] ne by simp
  qed
  moreover have "set xs = set ys'" using Cons.prems(3,4,5) ys \<open>x = y\<close> by (auto dest: insert_ident)
  ultimately show ?case using Cons.IH [of ys'] Cons.prems ys by simp
qed simp

lemma not_lower_upper: "\<not> is_lower (char_upper c)"
  by (auto simp: char_upper_def is_lower_def ord_char_of)

lemma str_upper_idem [simp]: "str_upper (str_upper s) = str_upper s"
  by (simp add: str_upper_def char_upper_def [of "char_upper c" for c] not_lower_upper comp_def)

lemma length_str_upper [simp]: "length (str_upper s) = length s"
  by (simp add: str_upper_def)

subsection \<open>Insertion-ordered dictionaries\<close>

type_synonym ('k, 'v) dict = "('k \<times> 'v) list"

abbreviation dict_get :: "('k, 'v) dict \<Rightarrow> 'k \<Rightarrow> 'v option" where
  "dict_get \<equiv> map_of"

abbreviation dict_keys :: "('k, 'v) dict \<Rightarrow> 'k list" where
  "dict_keys d \<equiv> map fst d"

abbreviation dict_ok :: "('k, 'v) dict \<Rightarrow> bool" where
  "dict_ok d \<equiv> distinct (map fst d)"

text \<open>\<open>d[k] = v\<close>: an existing key keeps its place, a new one goes to the end.\<close>

fun dict_set :: "'k \<Rightarrow> 'v \<Rightarrow> ('k, 'v) dict \<Rightarrow> ('k, 'v) dict" where
  "dict_set k v [] = [(k, v)]"
| "dict_set k v ((k', v') # d) =
     (if k = k' then (k, v) # d else (k', v') # dict_set k v d)"

text \<open>\<open>d.pop(k, None)\<close>\<close>

definition dict_pop :: "'k \<Rightarrow> ('k, 'v) dict \<Rightarrow> ('k, 'v) dict" where
  "dict_pop k d = filter (\<lambda>kv. fst kv \<noteq> k) d"

definition dict_get_default :: "('k, 'v) dict \<Rightarrow> 'k \<Rightarrow> 'v \<Rightarrow> 'v" where
  "dict_get_default d k v = (case dict_get d k of None \<Rightarrow> v | Some w \<Rightarrow> w)"

text \<open>\<open>d.update(e)\<close>\<close>

definition dict_update :: "('k, 'v) dict \<Rightarrow> ('k, 'v) dict \<Rightarrow> ('k, 'v) dict" where
  "dict_update d e = fold (\<lambda>(k, v). dict_set k v) e d"

lemma dict_get_set [simp, dict_simps]:
  "dict_get (dict_set k v d) = (dict_get d)(k \<mapsto> v)"
  by (induction d) (auto simp: fun_eq_iff)

lemma set_keys_dict_set [simp, dict_simps]:
  "fst ` set (dict_set k v d) = insert k (fst ` set d)"
proof (induction d)
  case (Cons kv d)
  then show ?case by (cases kv) auto
qed simp

lemma dict_ok_set [simp, intro]: "dict_ok d \<Longrightarrow> dict_ok (dict_set k v d)"
proof (induction d)
  case (Cons kv d)
  then show ?case
    using set_keys_dict_set [of k v d] by (cases kv) (auto simp: image_iff)
qed simp

lemma dict_keys_set_present:
  "k \<in> fst ` set d \<Longrightarrow> dict_keys (dict_set k v d) = dict_keys d"
proof (induction d)
  case (Cons kv d)
  then show ?case by (cases kv) auto
qed simp

lemma dict_keys_set_new:
  "k \<notin> fst ` set d \<Longrightarrow> dict_keys (dict_set k v d) = dict_keys d @ [k]"
proof (induction d)
  case (Cons kv d)
  then show ?case by (cases kv) auto
qed simp

lemma dict_get_pop [simp, dict_simps]:
  "dict_get (dict_pop k d) = (dict_get d)(k := None)"
  by (induction d) (auto simp: dict_pop_def fun_eq_iff)

lemma dict_ok_pop [simp, intro]: "dict_ok d \<Longrightarrow> dict_ok (dict_pop k d)"
  unfolding dict_pop_def by (rule distinct_map_filter)

lemma set_keys_dict_pop [simp, dict_simps]:
  "fst ` set (dict_pop k d) = fst ` set d - {k}"
  by (auto simp: dict_pop_def)

lemma dict_get_None_iff: "dict_get d k = None \<longleftrightarrow> k \<notin> fst ` set d"
  by (simp add: map_of_eq_None_iff)

lemma dict_get_in: "dict_get d k = Some v \<Longrightarrow> (k, v) \<in> set d"
  by (rule map_of_SomeD)

lemma dict_in_get: "dict_ok d \<Longrightarrow> (k, v) \<in> set d \<Longrightarrow> dict_get d k = Some v"
  by simp

lemma dict_ok_update [simp, intro]: "dict_ok d \<Longrightarrow> dict_ok (dict_update d e)"
  unfolding dict_update_def
  by (induction e arbitrary: d) auto

lemma dict_get_update: "dict_get (dict_update d e) = dict_get d ++ dict_get (rev e)"
  unfolding dict_update_def
  by (induction e arbitrary: d) (auto simp: fun_eq_iff map_add_def split: option.splits)

lemma set_keys_dict_update [simp, dict_simps]:
  "fst ` set (dict_update d e) = fst ` set d \<union> fst ` set e"
proof (induction e arbitrary: d)
  case (Cons kv e)
  then show ?case
    using set_keys_dict_set [of "fst kv" "snd kv" d] by (auto simp: dict_update_def case_prod_beta)
qed (simp add: dict_update_def)

text \<open>\<open>Counter\<close> and \<open>c[k] += 1\<close>.\<close>

type_synonym counter = "(string, nat) dict"

definition counter_inc :: "string \<Rightarrow> counter \<Rightarrow> counter" where
  "counter_inc k c = dict_set k (dict_get_default c k 0 + 1) c"

text \<open>\<open>{key(x): x for x in xs}\<close>: of two elements with one key the later one stays.\<close>

definition index_by :: "('a \<Rightarrow> 'k) \<Rightarrow> 'a list \<Rightarrow> ('k, 'a) dict" where
  "index_by key xs = fold (\<lambda>x. dict_set (key x) x) xs []"

lemma fold_dict_set_ok: "dict_ok d \<Longrightarrow> dict_ok (fold (\<lambda>x. dict_set (key x) x) xs d)"
  by (induction xs arbitrary: d) simp_all

lemma dict_ok_index_by [simp]: "dict_ok (index_by key xs)"
  by (simp add: index_by_def fold_dict_set_ok)

lemma index_by_snoc: "index_by key (xs @ [x]) = dict_set (key x) x (index_by key xs)"
  by (simp add: index_by_def)

lemma dict_get_index_by: "dict_get (index_by key xs) k = Some x \<Longrightarrow> x \<in> set xs \<and> key x = k"
  by (induction xs rule: rev_induct) (auto simp: index_by_snoc index_by_def [of key "[]"] split: if_splits)

lemma dict_set_new: "k \<notin> fst ` set d \<Longrightarrow> dict_set k v d = d @ [(k, v)]"
  by (induction d) auto

lemma index_by_distinct: "distinct (map key xs) \<Longrightarrow> index_by key xs = map (\<lambda>x. (key x, x)) xs"
proof (induction xs rule: rev_induct)
  case (snoc x xs)
  then show ?case by (simp add: index_by_snoc dict_set_new image_image)
qed (simp add: index_by_def)

lemma set_dict_set_subset: "set (dict_set k v d) \<subseteq> insert (k, v) (set d)"
proof (induction d)
  case (Cons kv d)
  then show ?case by (cases kv) auto
qed simp

lemma set_dict_update_subset: "set (dict_update d e) \<subseteq> set d \<union> set e"
proof (induction e arbitrary: d)
  case (Cons kv e)
  have "set (dict_update (dict_set (fst kv) (snd kv) d) e)
      \<subseteq> set (dict_set (fst kv) (snd kv) d) \<union> set e" by (rule Cons)
  then show ?case
    using set_dict_set_subset [of "fst kv" "snd kv" d] by (auto simp: dict_update_def case_prod_beta)
qed (simp add: dict_update_def)

lemma dict_keys_update_present:
  "fst ` set e \<subseteq> fst ` set d \<Longrightarrow> dict_keys (dict_update d e) = dict_keys d"
proof (induction e arbitrary: d)
  case (Cons kv e)
  obtain k v where kv: "kv = (k, v)" by (cases kv)
  have "dict_keys (dict_update (dict_set k v d) e) = dict_keys (dict_set k v d)"
    using Cons.prems by (intro Cons.IH) (auto simp: kv)
  moreover have "dict_keys (dict_set k v d) = dict_keys d"
    using Cons.prems by (intro dict_keys_set_present) (auto simp: kv)
  ultimately show ?case by (simp add: dict_update_def kv)
qed (simp add: dict_update_def)

lemma dict_eqI:
  assumes "dict_keys d = dict_keys e" "dict_ok d" "dict_get d = dict_get e"
  shows "d = e"
proof (rule nth_equalityI)
  show len: "length d = length e" using assms(1) by (metis length_map)
  fix i assume i: "i < length d"
  have k: "fst (d ! i) = fst (e ! i)" using assms(1) i len by (metis nth_map)
  have "dict_ok e" using assms(1,2) by simp
  then have "dict_get e (fst (e ! i)) = Some (snd (e ! i))" using i len by simp
  moreover have "dict_get d (fst (d ! i)) = Some (snd (d ! i))" using assms(2) i by simp
  ultimately show "d ! i = e ! i" using assms(3) k by (simp add: prod_eq_iff)
qed

text \<open>Writing the same entries twice is writing them once.\<close>

lemma dict_update_idem:
  assumes "dict_ok d"
  shows "dict_update (dict_update d e) e = dict_update d e"
proof (rule dict_eqI)
  show "dict_keys (dict_update (dict_update d e) e) = dict_keys (dict_update d e)"
    by (rule dict_keys_update_present) simp
  show "dict_ok (dict_update (dict_update d e) e)" using assms by (intro dict_ok_update)
  show "dict_get (dict_update (dict_update d e) e) = dict_get (dict_update d e)"
    by (auto simp: dict_get_update fun_eq_iff map_add_def split: option.splits)
qed

text \<open>A joined list determines its parts when no part holds the separator.\<close>

lemma str_join_inj:
  assumes "str_join [c] xs = str_join [c] ys" "length xs = length ys"
    and "\<And>x. x \<in> set xs \<union> set ys \<Longrightarrow> c \<notin> set x"
  shows "xs = ys"
  using assms
proof (induction xs arbitrary: ys)
  case (Cons x xs)
  then obtain y zs where ys: "ys = y # zs" by (cases ys) auto
  have tw: "takeWhile (\<lambda>d. d \<noteq> c) (a @ c # r) = a" if "c \<notin> set a" for a r
    using that by (induction a) auto
  show ?case
  proof (cases xs)
    case Nil
    then show ?thesis using Cons.prems ys by simp
  next
    case (Cons x' xs')
    then obtain z' zs' where zs: "zs = z' # zs'" using Cons.prems ys by (cases zs) auto
    have "x @ c # str_join [c] xs = y @ c # str_join [c] zs"
      using Cons.prems(1) Cons ys zs by simp
    moreover have "c \<notin> set x" "c \<notin> set y" using Cons.prems(3) ys by auto
    ultimately have "x = y" by (metis tw)
    then have "str_join [c] xs = str_join [c] zs"
      using \<open>x @ c # str_join [c] xs = y @ c # str_join [c] zs\<close> by simp
    then have "xs = zs" using Cons.prems ys by (intro Cons.IH) auto
    then show ?thesis using \<open>x = y\<close> ys by simp
  qed
qed simp

subsection \<open>Lists\<close>

text \<open>\<open>xs[a:b]\<close> for indices within the bounds the callers establish.\<close>

definition slice :: "nat \<Rightarrow> nat \<Rightarrow> 'a list \<Rightarrow> 'a list" where
  "slice a b xs = take (b - a) (drop a xs)"

lemma length_slice: "length (slice a b xs) = min (b - a) (length xs - a)"
  by (simp add: slice_def)

lemma slice_snoc:
  assumes "a \<le> b" "b < length xs"
  shows "slice a (Suc b) xs = slice a b xs @ [xs ! b]"
proof -
  have "Suc b - a = Suc (b - a)" using assms by simp
  moreover have "b - a < length (drop a xs)" using assms by simp
  ultimately show ?thesis
    using assms by (simp add: slice_def take_Suc_conv_app_nth)
qed

lemma slice_take: "b \<le> n \<Longrightarrow> slice a b (take n xs) = slice a b xs"
  by (simp add: slice_def drop_take min_def)

text \<open>\<open>xs[i]\<close>: a negative index counts from the end.\<close>

definition py_nth :: "'a list \<Rightarrow> int \<Rightarrow> py_error + 'a" where
  "py_nth xs i =
     (let n = int (length xs)
      in if 0 \<le> i \<and> i < n then Inr (xs ! nat i)
         else if - n \<le> i \<and> i < 0 then Inr (xs ! nat (n + i)) else Inl IndexError)"

text \<open>The elements of a sorted list up to a bound are a prefix of it.\<close>

lemma filter_sorted_take:
  "sorted (map f xs) \<Longrightarrow> filter (\<lambda>x. f x \<le> k) xs = take (length (filter (\<lambda>x. f x \<le> k) xs)) xs"
proof (induction xs)
  case (Cons x xs)
  show ?case
  proof (cases "f x \<le> k")
    case False
    then have "\<forall>y \<in> set xs. \<not> f y \<le> k" using Cons.prems by auto
    then show ?thesis using False by (simp add: filter_False)
  qed (use Cons in simp)
qed simp

text \<open>\<open>max(xs)\<close> and \<open>min(xs)\<close> of a nonempty list.\<close>

fun list_max :: "'a::linorder \<Rightarrow> 'a list \<Rightarrow> 'a" where
  "list_max x [] = x"
| "list_max x (y # ys) = list_max (max x y) ys"

fun list_min :: "'a::linorder \<Rightarrow> 'a list \<Rightarrow> 'a" where
  "list_min x [] = x"
| "list_min x (y # ys) = list_min (min x y) ys"

lemma list_max_ge: "y \<in> set (x # xs) \<Longrightarrow> y \<le> list_max x xs"
proof (induction xs arbitrary: x y)
  case (Cons z zs)
  have "max x z \<le> list_max (max x z) zs" using Cons.IH [of "max x z" "max x z"] by simp
  then show ?case using Cons by auto
qed simp

lemma list_max_in: "list_max x xs \<in> set (x # xs)"
proof (induction xs arbitrary: x)
  case (Cons z zs)
  show ?case using Cons.IH [of "max x z"] by (auto simp: max_def split: if_splits)
qed simp

lemma list_min_le: "y \<in> set (x # xs) \<Longrightarrow> list_min x xs \<le> y"
proof (induction xs arbitrary: x y)
  case (Cons z zs)
  have "list_min (min x z) zs \<le> min x z" using Cons.IH [of "min x z" "min x z"] by simp
  then show ?case using Cons by auto
qed simp

lemma list_min_in: "list_min x xs \<in> set (x # xs)"
proof (induction xs arbitrary: x)
  case (Cons z zs)
  show ?case using Cons.IH [of "min x z"] by (auto simp: min_def split: if_splits)
qed simp

lemma list_min_greatest: "(\<And>y. y \<in> set (x # xs) \<Longrightarrow> m \<le> y) \<Longrightarrow> m \<le> list_min x xs"
  using list_min_in [of x xs] by blast

lemma list_max_least: "(\<And>y. y \<in> set (x # xs) \<Longrightarrow> y \<le> m) \<Longrightarrow> list_max x xs \<le> m"
  using list_max_in [of x xs] by blast

subsection \<open>Rounding\<close>

text \<open>\<open>int(x)\<close> of a float and \<open>round(x, k)\<close>.\<close>

definition real_int :: "real \<Rightarrow> int" where
  "real_int x = (if x < 0 then \<lceil>x\<rceil> else \<lfloor>x\<rfloor>)"

definition half_even :: "real \<Rightarrow> int" where
  "half_even x =
     (let n = \<lfloor>x\<rfloor>; r = x - of_int n
      in if r < 1 / 2 then n else if r > 1 / 2 then n + 1 else if even n then n else n + 1)"

definition round_to :: "nat \<Rightarrow> real \<Rightarrow> real" where
  "round_to k x = of_int (half_even (x * 10 ^ k)) / 10 ^ k"

lemma half_even_of_int [simp]: "half_even (of_int n) = n"
  by (simp add: half_even_def)

lemma half_even_near: "\<lfloor>x\<rfloor> \<le> half_even x" "half_even x \<le> \<lfloor>x\<rfloor> + 1"
  by (simp_all add: half_even_def Let_def)

lemma half_even_mono:
  assumes "x \<le> y"
  shows "half_even x \<le> half_even y"
proof (cases "\<lfloor>x\<rfloor> = \<lfloor>y\<rfloor>")
  case True
  then show ?thesis using assms by (simp add: half_even_def Let_def)
next
  case False
  then have "\<lfloor>x\<rfloor> + 1 \<le> \<lfloor>y\<rfloor>" using floor_mono [OF assms] by simp
  then show ?thesis using half_even_near [of x] half_even_near [of y] by linarith
qed

lemma round_to_mono: "x \<le> y \<Longrightarrow> round_to k x \<le> round_to k y"
  by (simp add: round_to_def divide_right_mono half_even_mono)

lemma round_to_of_int: "round_to k (of_int n) = of_int n"
proof -
  have "half_even (of_int n * 10 ^ k) = n * 10 ^ k" using half_even_of_int [of "n * 10 ^ k"] by simp
  then show ?thesis by (simp add: round_to_def)
qed

end
