(* ===== verification/Calendar.thy ===== *)
theory Calendar
  imports Prelude
begin

text \<open>
  The part of Python's \<open>datetime\<close> module that the program uses: dates of the proleptic
  Gregorian calendar, their ordinals, weekdays and day arithmetic, and date-times as
  microseconds. \<open>fromordinal\<close> follows the library's own algorithm (cycles of 400, 100,
  4 and 1 years). A date-time is a number of microseconds counted so that day \<open>n\<close> of
  the ordinal count covers \<open>[n * day_us, (n + 1) * day_us)\<close>; all date-times of the model
  are in one time zone. The error Python raises outside the years 1 to 9999 is modelled
  in \<open>mk_date\<close> only; sums of dates and durations are unbounded.
\<close>

datatype date = Date (year: int) (month: int) (day: int)

definition is_leap :: "int \<Rightarrow> bool" where
  "is_leap y \<longleftrightarrow> y mod 4 = 0 \<and> (y mod 100 \<noteq> 0 \<or> y mod 400 = 0)"

definition days_before_year :: "int \<Rightarrow> int" where
  "days_before_year y = (y - 1) * 365 + (y - 1) div 4 - (y - 1) div 100 + (y - 1) div 400"

definition days_in_month :: "int \<Rightarrow> int \<Rightarrow> int" where
  "days_in_month y m =
     (if m = 2 then (if is_leap y then 29 else 28)
      else if m \<in> {4, 6, 9, 11} then 30 else 31)"

definition days_before_month :: "int \<Rightarrow> int \<Rightarrow> int" where
  "days_before_month y m =
     (if m \<le> 1 then 0 else if m = 2 then 31 else
      (if is_leap y then 1 else 0) +
      (if m = 3 then 59 else if m = 4 then 90 else if m = 5 then 120 else if m = 6 then 151
       else if m = 7 then 181 else if m = 8 then 212 else if m = 9 then 243
       else if m = 10 then 273 else if m = 11 then 304 else 334))"

definition days_in_year :: "int \<Rightarrow> int" where
  "days_in_year y = (if is_leap y then 366 else 365)"

definition valid_date :: "date \<Rightarrow> bool" where
  "valid_date d \<longleftrightarrow> 1 \<le> month d \<and> month d \<le> 12 \<and>
     1 \<le> day d \<and> day d \<le> days_in_month (year d) (month d)"

text \<open>The constructor \<open>date(y, m, d)\<close>: \<open>None\<close> is its \<open>ValueError\<close>.\<close>

definition mk_date :: "int \<Rightarrow> int \<Rightarrow> int \<Rightarrow> date option" where
  "mk_date y m d =
     (if 1 \<le> y \<and> y \<le> 9999 \<and> valid_date (Date y m d) then Some (Date y m d) else None)"

definition toordinal :: "date \<Rightarrow> int" where
  "toordinal d = days_before_year (year d) + days_before_month (year d) (month d) + day d"

text \<open>The month search of \<open>_ord2ymd\<close>: the estimate \<open>(n + 50) >> 5\<close>, corrected by at most one.\<close>

definition md_of_yday :: "int \<Rightarrow> int \<Rightarrow> int \<times> int" where
  "md_of_yday y n =
     (let m = (n + 50) div 32;
          m' = (if days_before_month y m > n then m - 1 else m)
      in (m', n - days_before_month y m' + 1))"

definition fromordinal :: "int \<Rightarrow> date" where
  "fromordinal ord =
     (let n = ord - 1;
          n400 = n div 146097; r400 = n mod 146097;
          n100 = r400 div 36524; r100 = r400 mod 36524;
          n4 = r100 div 1461; r4 = r100 mod 1461;
          n1 = r4 div 365; r1 = r4 mod 365;
          y = n400 * 400 + 1 + n100 * 100 + n4 * 4 + n1
      in if n1 = 4 \<or> n100 = 4 then Date (y - 1) 12 31
         else (case md_of_yday y r1 of (m, d) \<Rightarrow> Date y m d))"

text \<open>\<open>d + timedelta(days=n)\<close> and \<open>d.weekday()\<close> (Monday is 0).\<close>

definition add_days :: "date \<Rightarrow> int \<Rightarrow> date" where
  "add_days d n = fromordinal (toordinal d + n)"

definition weekday :: "date \<Rightarrow> int" where
  "weekday d = (toordinal d + 6) mod 7"

subsection \<open>Ordinals and dates are in bijection\<close>

lemma year_split:
  fixes y :: int
  obtains a b c e where "y - 1 = 400 * a + 100 * b + 4 * c + e"
    "0 \<le> b" "b \<le> 3" "0 \<le> c" "c \<le> 24" "0 \<le> e" "e \<le> 3"
proof -
  define z where "z = y - 1"
  define a where "a = z div 400"
  define r where "r = z mod 400"
  have z: "z = 400 * a + r" and r: "0 \<le> r" "r < 400"
    by (simp_all add: a_def r_def)
  define b where "b = r div 100"
  define s where "s = r mod 100"
  have rs: "r = 100 * b + s" and s: "0 \<le> s" "s < 100"
    by (simp_all add: b_def s_def)
  define c where "c = s div 4"
  define e where "e = s mod 4"
  have se: "s = 4 * c + e" and e: "0 \<le> e" "e < 4"
    by (simp_all add: c_def e_def)
  have "0 \<le> b" "b \<le> 3" using rs r s by linarith+
  moreover have "0 \<le> c" "c \<le> 24" using se s e by linarith+
  ultimately show ?thesis
    using that [of a b c e] z rs se e by (simp add: z_def)
qed

lemma div_mod_eqI:
  fixes n k q r :: int
  assumes "n = k * q + r" "0 \<le> r" "r < k"
  shows "n div k = q" and "n mod k = r"
  using assms int_div_pos_eq [of n k q r] int_mod_pos_eq [of n k q r] by auto

lemma mod_zero_iff:
  fixes n k q r :: int
  assumes "n = k * q + r" "1 \<le> r" "r \<le> k"
  shows "n mod k = 0 \<longleftrightarrow> r = k"
  using assms div_mod_eqI(2) [of n k q r] by (cases "r = k") auto

lemma year_parts:
  assumes "y - 1 = 400 * a + 100 * b + 4 * c + e"
    "0 \<le> b" "b \<le> 3" "0 \<le> c" "c \<le> 24" "0 \<le> e" "e \<le> (3::int)"
  shows "days_before_year y = 146097 * a + 36524 * b + 1461 * c + 365 * e"
    and "is_leap y \<longleftrightarrow> e = 3 \<and> (c \<noteq> 24 \<or> b = 3)"
proof -
  have d4: "(y - 1) div 4 = 100 * a + 25 * b + c"
    using assms by (intro div_mod_eqI(1) [where r = e]) auto
  have d100: "(y - 1) div 100 = 4 * a + b"
    using assms by (intro div_mod_eqI(1) [where r = "4 * c + e"]) auto
  have d400: "(y - 1) div 400 = a"
    using assms by (intro div_mod_eqI(1) [where r = "100 * b + 4 * c + e"]) auto
  show "days_before_year y = 146097 * a + 36524 * b + 1461 * c + 365 * e"
    unfolding days_before_year_def d4 d100 d400 using assms(1) by simp
  have y: "y = 400 * a + 100 * b + 4 * c + (e + 1)" using assms(1) by linarith
  have m4: "y mod 4 = 0 \<longleftrightarrow> e + 1 = 4"
    using y assms by (intro mod_zero_iff [where q = "100 * a + 25 * b + c"]) auto
  have m100: "y mod 100 = 0 \<longleftrightarrow> 4 * c + e + 1 = 100"
    using y assms by (intro mod_zero_iff [where q = "4 * a + b"]) auto
  have m400: "y mod 400 = 0 \<longleftrightarrow> 100 * b + 4 * c + e + 1 = 400"
    using y assms by (intro mod_zero_iff [where q = a]) auto
  show "is_leap y \<longleftrightarrow> e = 3 \<and> (c \<noteq> 24 \<or> b = 3)"
    unfolding is_leap_def m4 m100 m400 using assms(2-) by auto
qed

lemma month_cases:
  fixes m :: int
  assumes "1 \<le> m" "m \<le> 12"
  shows "m = 1 \<or> m = 2 \<or> m = 3 \<or> m = 4 \<or> m = 5 \<or> m = 6 \<or> m = 7 \<or> m = 8
    \<or> m = 9 \<or> m = 10 \<or> m = 11 \<or> m = 12"
  using assms by presburger

lemmas month_defs = days_before_month_def days_in_month_def days_in_year_def

lemma valid_yday:
  assumes "valid_date d"
  shows "0 \<le> days_before_month (year d) (month d) + day d - 1"
    and "days_before_month (year d) (month d) + day d - 1 < days_in_year (year d)"
  using assms month_cases [of "month d"]
  by (auto simp: valid_date_def month_defs split: if_splits)

lemma md_of_yday_correct:
  assumes "valid_date d"
  shows "md_of_yday (year d) (days_before_month (year d) (month d) + day d - 1) = (month d, day d)"
proof -
  define n where "n = days_before_month (year d) (month d) + day d - 1"
  have v: "1 \<le> month d" "month d \<le> 12" "1 \<le> day d" "day d \<le> days_in_month (year d) (month d)"
    using assms by (auto simp: valid_date_def)
  have est: "(n + 50) div 32 = month d \<or> (n + 50) div 32 = month d + 1
    \<and> n < days_before_month (year d) (month d + 1)"
    using month_cases [OF v(1,2)] v(3,4) unfolding n_def
    by (elim disjE) (auto simp: month_defs split: if_splits; presburger)+
  have low: "days_before_month (year d) (month d) \<le> n"
    using v(3) by (simp add: n_def)
  show ?thesis
    using est low unfolding md_of_yday_def Let_def n_def [symmetric]
    by (auto simp: n_def)
qed

lemma days_in_year_le: "days_in_year y \<le> 366"
  by (simp add: days_in_year_def)

theorem fromordinal_toordinal:
  assumes "valid_date d"
  shows "fromordinal (toordinal d) = d"
proof -
  obtain a b c e where y: "year d - 1 = 400 * a + 100 * b + 4 * c + e"
    and bd: "0 \<le> b" "b \<le> 3" "0 \<le> c" "c \<le> 24" "0 \<le> e" "e \<le> 3"
    using year_split .
  define r where "r = days_before_month (year d) (month d) + day d - 1"
  have r0: "0 \<le> r" and r1: "r < days_in_year (year d)"
    using valid_yday [OF assms] by (simp_all add: r_def)
  have n: "toordinal d - 1 = 146097 * a + 36524 * b + 1461 * c + 365 * e + r"
    unfolding toordinal_def year_parts(1) [OF y bd] r_def by simp
  have leap: "is_leap (year d) \<longleftrightarrow> e = 3 \<and> (c \<noteq> 24 \<or> b = 3)"
    by (rule year_parts(2) [OF y bd])
  have lt: "36524 * b + 1461 * c + 365 * e + r < 146097"
    using bd r1 leap by (auto simp: days_in_year_def split: if_splits)
  have n400: "(toordinal d - 1) div 146097 = a"
    and r400: "(toordinal d - 1) mod 146097 = 36524 * b + 1461 * c + 365 * e + r"
    using n lt bd r0
    by (auto intro!: div_mod_eqI [where q = a and r = "36524 * b + 1461 * c + 365 * e + r"])
  show ?thesis
  proof (cases "r = 365")
    case True
    then have e: "e = 3" and cb: "c \<noteq> 24 \<or> b = 3" and lp: "is_leap (year d)"
      using r1 leap by (auto simp: days_in_year_def split: if_splits)
    have last: "d = Date (year d) 12 31"
      using True assms lp month_cases [of "month d"]
      by (cases d) (auto simp: r_def valid_date_def month_defs split: if_splits)
    have r4: "r = 365" by (rule True)
    show ?thesis
    proof (cases "c = 24 \<and> b = 3")
      case True
      then have v: "36524 * b + 1461 * c + 365 * e + r = 146096"
        using e r4 by simp
      have "fromordinal (toordinal d) = Date (400 * a + 400) 12 31"
        unfolding fromordinal_def Let_def n400 r400 v by simp
      also have "400 * a + 400 = year d" using y True e by simp
      finally show ?thesis using last by simp
    next
      case False
      have n100: "(36524 * b + 1461 * c + 365 * e + r) div 36524 = b"
        and r100: "(36524 * b + 1461 * c + 365 * e + r) mod 36524 = 1461 * c + 1460"
        using False cb bd e r4
        by (auto intro!: div_mod_eqI [where q = b and r = "1461 * c + 1460"])
      have n4: "(1461 * c + 1460) div 1461 = c" and r4': "(1461 * c + 1460) mod 1461 = 1460"
        by auto
      have "fromordinal (toordinal d) = Date (400 * a + 1 + 100 * b + 4 * c + 4 - 1) 12 31"
        unfolding fromordinal_def Let_def n400 r400 n100 r100 n4 r4' by simp
      also have "400 * a + 1 + 100 * b + 4 * c + 4 - 1 = year d" using y e by simp
      finally show ?thesis using last by simp
    qed
  next
    case False
    then have r364: "r \<le> 364"
      using r1 days_in_year_le [of "year d"] by simp
    have n100: "(36524 * b + 1461 * c + 365 * e + r) div 36524 = b"
      and r100: "(36524 * b + 1461 * c + 365 * e + r) mod 36524 = 1461 * c + 365 * e + r"
      and n4: "(1461 * c + 365 * e + r) div 1461 = c"
      and r4: "(1461 * c + 365 * e + r) mod 1461 = 365 * e + r"
      and n1: "(365 * e + r) div 365 = e" and r1': "(365 * e + r) mod 365 = r"
      using bd r0 r364
      by (auto intro!: div_mod_eqI [where q = b and r = "1461 * c + 365 * e + r"]
          div_mod_eqI [where q = c and r = "365 * e + r"] div_mod_eqI [where q = e and r = r])
    have yr': "a * 400 + 1 + b * 100 + c * 4 + e = year d" using y by simp
    have ne: "e \<noteq> 4" "b \<noteq> 4" using bd by auto
    show ?thesis
      unfolding fromordinal_def Let_def n400 r400 n100 r100 n4 r4 n1 r1' yr'
      using md_of_yday_correct [OF assms] ne by (simp add: r_def)
  qed
qed

lemma md_of_yday_valid:
  assumes "0 \<le> n" "n < days_in_year y" "md_of_yday y n = (m, k)"
  shows "valid_date (Date y m k)" and "days_before_month y m + k - 1 = n"
proof -
  define q where "q = (n + 50) div 32"
  have "0 \<le> n" "n \<le> 365" using assms(1,2) days_in_year_le [of y] by auto
  then have "1 \<le> q" "q \<le> 12" unfolding q_def by auto
  have lo: "32 * q \<le> n + 50" and hi: "n + 50 < 32 * q + 32" unfolding q_def by auto
  show "valid_date (Date y m k)"
    using month_cases [OF \<open>1 \<le> q\<close> \<open>q \<le> 12\<close>] lo hi assms
    unfolding md_of_yday_def Let_def q_def [symmetric]
    by (elim disjE) (auto simp: month_defs valid_date_def split: if_splits)
  show "days_before_month y m + k - 1 = n"
    using assms(3) unfolding md_of_yday_def Let_def by auto
qed

lemma fromordinal_cases:
  obtains (leap_end) y where "fromordinal n = Date y 12 31" "is_leap y"
      "n = days_before_year y + 366"
  | (other) y r where "0 \<le> r" "r < days_in_year y" "n - 1 = days_before_year y + r"
      "fromordinal n = (case md_of_yday y r of (m, d) \<Rightarrow> Date y m d)"
proof -
  define a where "a = (n - 1) div 146097"
  define ra where "ra = (n - 1) mod 146097"
  define b where "b = ra div 36524"
  define rb where "rb = ra mod 36524"
  define c where "c = rb div 1461"
  define rc where "rc = rb mod 1461"
  define e where "e = rc div 365"
  define r where "r = rc mod 365"
  note ds = a_def ra_def b_def rb_def c_def rc_def e_def r_def
  have eqs: "n - 1 = 146097 * a + ra" "ra = 36524 * b + rb" "rb = 1461 * c + rc" "rc = 365 * e + r"
    and rng: "0 \<le> ra" "ra < 146097" "0 \<le> rb" "rb < 36524" "0 \<le> rc" "rc < 1461" "0 \<le> r" "r < 365"
    unfolding ds by simp_all
  have bd: "0 \<le> b" "b \<le> 4" "0 \<le> c" "c \<le> 24" "0 \<le> e" "e \<le> 4"
    using eqs rng by auto
  have F: "fromordinal n = (let y = a * 400 + 1 + b * 100 + c * 4 + e in
      if e = 4 \<or> b = 4 then Date (y - 1) 12 31
      else (case md_of_yday y r of (m, d) \<Rightarrow> Date y m d))"
    unfolding fromordinal_def Let_def ds by simp
  consider "b = 4" | "b \<noteq> 4" "e = 4" | "b \<noteq> 4" "e \<noteq> 4" by blast
  then show ?thesis
  proof cases
    case 1
    then have z: "rb = 0" "c = 0" "e = 0" using eqs rng bd by auto
    let ?y = "a * 400 + 400"
    have p: "?y - 1 = 400 * a + 100 * 3 + 4 * 24 + 3" by simp
    show ?thesis
      by (rule leap_end [of ?y]) (use 1 z F eqs rng year_parts [OF p] in auto)
  next
    case 2
    then have z: "r = 0" using eqs rng by auto
    have b3: "b \<le> 3" using 2 bd by simp
    let ?y = "a * 400 + 1 + b * 100 + c * 4 + 3"
    have p: "?y - 1 = 400 * a + 100 * b + 4 * c + 3" by simp
    have lp: "c \<noteq> 24 \<or> b = 3" using 2 eqs rng z b3 by auto
    show ?thesis
      by (rule leap_end [of ?y])
        (use 2 z lp F eqs bd b3 year_parts [OF p _ b3] in auto)
  next
    case 3
    then have b3: "b \<le> 3" and e3: "e \<le> 3" using bd by auto
    let ?y = "a * 400 + 1 + b * 100 + c * 4 + e"
    have p: "?y - 1 = 400 * a + 100 * b + 4 * c + e" by simp
    show ?thesis
      by (rule other [of r ?y])
        (use 3 F eqs rng bd year_parts(1) [OF p _ b3 _ _ _ e3] in \<open>auto simp: days_in_year_def Let_def\<close>)
  qed
qed

theorem valid_fromordinal: "valid_date (fromordinal n)"
proof (cases n rule: fromordinal_cases)
  case (leap_end y)
  then show ?thesis by (simp add: valid_date_def days_in_month_def)
next
  case (other y r)
  then show ?thesis
    using md_of_yday_valid(1) [of r y] by (auto split: prod.splits)
qed

theorem toordinal_fromordinal: "toordinal (fromordinal n) = n"
proof (cases n rule: fromordinal_cases)
  case (leap_end y)
  then show ?thesis by (simp add: toordinal_def days_before_month_def)
next
  case (other y r)
  then show ?thesis
    using md_of_yday_valid(2) [of r y] by (auto simp: toordinal_def split: prod.splits)
qed

subsection \<open>Day arithmetic\<close>

lemma toordinal_add_days [simp]: "toordinal (add_days d n) = toordinal d + n"
  by (simp add: add_days_def toordinal_fromordinal)

lemma valid_add_days [simp]: "valid_date (add_days d n)"
  by (simp add: add_days_def valid_fromordinal)

lemma add_days_add [simp]: "add_days (add_days d m) n = add_days d (m + n)"
  by (simp add: add_days_def toordinal_fromordinal add.assoc)

lemma add_days_0 [simp]: "valid_date d \<Longrightarrow> add_days d 0 = d"
  by (simp add: add_days_def fromordinal_toordinal)

lemma toordinal_inj: "valid_date d \<Longrightarrow> valid_date e \<Longrightarrow> toordinal d = toordinal e \<Longrightarrow> d = e"
  by (metis fromordinal_toordinal)

lemma weekday_range: "0 \<le> weekday d" "weekday d \<le> 6"
  by (simp_all add: weekday_def)

lemma weekday_add_days: "weekday (add_days d n) = (weekday d + n) mod 7"
  by (simp add: weekday_def mod_simps algebra_simps)

lemma add_days_in_month:
  assumes "valid_date d" "1 \<le> day d + n" "day d + n \<le> days_in_month (year d) (month d)"
  shows "add_days d n = Date (year d) (month d) (day d + n)"
proof -
  have v: "valid_date (Date (year d) (month d) (day d + n))"
    using assms by (simp add: valid_date_def)
  have "toordinal (Date (year d) (month d) (day d + n)) = toordinal d + n"
    by (simp add: toordinal_def)
  then show ?thesis
    using fromordinal_toordinal [OF v] by (simp add: add_days_def)
qed

subsection \<open>The order of dates is the order of their ordinals\<close>

instantiation date :: linorder
begin

definition less_eq_date :: "date \<Rightarrow> date \<Rightarrow> bool" where
  "d \<le> e \<longleftrightarrow> year d < year e \<or> year d = year e \<and>
     (month d < month e \<or> month d = month e \<and> day d \<le> day e)"

definition less_date :: "date \<Rightarrow> date \<Rightarrow> bool" where
  "d < e \<longleftrightarrow> year d < year e \<or> year d = year e \<and>
     (month d < month e \<or> month d = month e \<and> day d < day e)"

instance
  by standard (auto simp: less_eq_date_def less_date_def date.expand)

end

lemma div_pred:
  fixes y k :: int
  assumes "0 < k"
  shows "y div k - (y - 1) div k = (if y mod k = 0 then 1 else 0)"
proof (cases "y mod k = 0")
  case True
  then have "y - 1 = k * (y div k - 1) + (k - 1)"
    by (auto simp: algebra_simps)
  then have "(y - 1) div k = y div k - 1"
    by (rule div_mod_eqI(1)) (use assms in auto)
  with True show ?thesis by simp
next
  case False
  have "0 \<le> y mod k" "y mod k < k" using assms by auto
  then have "(y - 1) div k = y div k"
    by (intro div_mod_eqI(1) [where r = "y mod k - 1"]) (use False in auto)
  with False show ?thesis by simp
qed

lemma leap_arith:
  "(P400 \<Longrightarrow> P100) \<Longrightarrow> (P100 \<Longrightarrow> P4) \<Longrightarrow>
   365 + x + (if P4 then 1 else 0) - (if P100 then 1 else 0) + (if P400 then 1 else 0)
     = x + (if P4 \<and> (\<not> P100 \<or> P400) then 366 else (365::int))"
  by auto

lemma days_before_year_Suc: "days_before_year (y + 1) = days_before_year y + days_in_year y"
proof -
  have imp: "y mod 400 = 0 \<Longrightarrow> y mod 100 = 0" "y mod 100 = 0 \<Longrightarrow> y mod 4 = 0"
    using dvd_trans [of 100 400 y] dvd_trans [of 4 100 y] by (auto simp: mod_eq_0_iff_dvd)
  have eq: "days_before_year (y + 1) = 365 + days_before_year y + (y div 4 - (y - 1) div 4)
      - (y div 100 - (y - 1) div 100) + (y div 400 - (y - 1) div 400)"
    unfolding days_before_year_def by simp
  have d: "y div 4 - (y - 1) div 4 = (if y mod 4 = 0 then 1 else 0)"
    "y div 100 - (y - 1) div 100 = (if y mod 100 = 0 then 1 else 0)"
    "y div 400 - (y - 1) div 400 = (if y mod 400 = 0 then 1 else 0)"
    by (rule div_pred, simp)+
  show ?thesis
    unfolding eq d days_in_year_def is_leap_def by (rule leap_arith) (fact imp)+
qed

lemma days_before_year_mono: "y < z \<Longrightarrow> days_before_year y + days_in_year y \<le> days_before_year z"
proof (induction "nat (z - y)" arbitrary: z)
  case (Suc n)
  show ?case
  proof (cases "z = y + 1")
    case False
    then have "days_before_year y + days_in_year y \<le> days_before_year (z - 1)"
      using Suc by (intro Suc.hyps) auto
    moreover have "days_before_year z = days_before_year (z - 1) + days_in_year (z - 1)"
      using days_before_year_Suc [of "z - 1"] by simp
    moreover have "0 \<le> days_in_year (z - 1)" by (simp add: days_in_year_def)
    ultimately show ?thesis by linarith
  qed (simp add: days_before_year_Suc)
qed simp

lemma days_before_month_Suc:
  assumes "1 \<le> m" "m < 12"
  shows "days_before_month y (m + 1) = days_before_month y m + days_in_month y m"
proof -
  have "m \<le> 12" using assms by simp
  from month_cases [OF assms(1) this] show ?thesis
    using assms by (elim disjE) (auto simp: month_defs)
qed

lemma days_before_month_mono:
  assumes "1 \<le> m" "m < m'" "m' \<le> 12"
  shows "days_before_month y m + days_in_month y m \<le> days_before_month y m'"
  using assms
proof (induction "nat (m' - m)" arbitrary: m')
  case (Suc n)
  show ?case
  proof (cases "m' = m + 1")
    case True
    then show ?thesis using days_before_month_Suc [of m y] Suc.prems by simp
  next
    case False
    then have "days_before_month y m + days_in_month y m \<le> days_before_month y (m' - 1)"
      using Suc by (intro Suc.hyps) auto
    moreover have "days_before_month y m' = days_before_month y (m' - 1) + days_in_month y (m' - 1)"
      using days_before_month_Suc [of "m' - 1" y] Suc.prems by simp
    moreover have "0 \<le> days_in_month y (m' - 1)" by (simp add: days_in_month_def)
    ultimately show ?thesis by linarith
  qed
qed simp

lemma less_date_toordinal:
  assumes "valid_date d" "valid_date e" "d < e"
  shows "toordinal d < toordinal e"
proof -
  note yd = valid_yday [OF assms(1)] and ye = valid_yday [OF assms(2)]
  consider "year d < year e" | "year d = year e" "month d < month e"
    | "year d = year e" "month d = month e" "day d < day e"
    using assms(3) by (auto simp: less_date_def)
  then show ?thesis
  proof cases
    case 1
    then show ?thesis
      using days_before_year_mono [OF 1] yd ye by (simp add: toordinal_def)
  next
    case 2
    then show ?thesis
      using days_before_month_mono [of "month d" "month e" "year e"] assms(1,2)
      by (simp add: toordinal_def valid_date_def)
  next
    case 3
    then show ?thesis by (simp add: toordinal_def)
  qed
qed

theorem date_less_iff:
  "valid_date d \<Longrightarrow> valid_date e \<Longrightarrow> d < e \<longleftrightarrow> toordinal d < toordinal e"
  by (metis less_date_toordinal less_asym linorder_less_linear)

theorem date_le_iff:
  "valid_date d \<Longrightarrow> valid_date e \<Longrightarrow> d \<le> e \<longleftrightarrow> toordinal d \<le> toordinal e"
  by (metis date_less_iff not_less)

lemma year_add_days_range:
  assumes "valid_date d" "0 \<le> n" "n \<le> 31"
  shows "year (add_days d n) \<in> {year d, year d + 1}"
proof -
  let ?e = "add_days d n"
  have le: "d \<le> ?e" using assms by (simp add: date_le_iff)
  have "\<not> year d + 1 < year ?e"
  proof
    assume "year d + 1 < year ?e"
    from days_before_year_mono [OF this] show False
      using toordinal_add_days [of d n] valid_yday [OF assms(1)] valid_yday [of ?e] assms
        days_before_year_Suc [of "year d"]
      by (auto simp: toordinal_def days_in_year_def split: if_splits)
  qed
  then show ?thesis using le by (auto simp: less_eq_date_def)
qed

subsection \<open>ISO format\<close>

definition isoformat :: "date \<Rightarrow> string" where
  "isoformat d = zero_pad 4 (year d) @ ''-'' @ zero_pad 2 (month d) @ ''-'' @ zero_pad 2 (day d)"

text \<open>
  \<open>date.fromisoformat\<close> on the extended format \<open>YYYY-MM-DD\<close>, the only one the program
  writes; \<open>None\<close> is the \<open>ValueError\<close>.
\<close>

definition fromisoformat :: "string \<Rightarrow> date option" where
  "fromisoformat s =
     (if length s = 10 \<and> s ! 4 = CHR ''-'' \<and> s ! 7 = CHR ''-'' then
        (case (parse_digits 0 (take 4 s), parse_digits 0 (take 2 (drop 5 s)),
               parse_digits 0 (take 2 (drop 8 s))) of
           (Some y, Some m, Some d) \<Rightarrow> mk_date y m d
         | _ \<Rightarrow> None)
      else None)"

lemma nth_list_append: "length xs = n \<Longrightarrow> (xs @ y # ys) ! n = y"
  by (simp add: nth_append)

lemma isoformat_shape:
  "length (isoformat d) = 10" "isoformat d ! 4 = CHR ''-''" "isoformat d ! 7 = CHR ''-''"
  "take 4 (isoformat d) = zero_pad 4 (year d)"
  "take 2 (drop 5 (isoformat d)) = zero_pad 2 (month d)"
  "take 2 (drop 8 (isoformat d)) = zero_pad 2 (day d)"
proof -
  define a b c where "a = zero_pad 4 (year d)" and "b = zero_pad 2 (month d)"
    and "c = zero_pad 2 (day d)"
  have l: "length a = 4" "length b = 2" "length c = 2" by (simp_all add: a_def b_def c_def)
  have iso: "isoformat d = a @ CHR ''-'' # b @ CHR ''-'' # c"
    by (simp add: isoformat_def a_def b_def c_def)
  show "length (isoformat d) = 10" "isoformat d ! 4 = CHR ''-''" "isoformat d ! 7 = CHR ''-''"
    "take 4 (isoformat d) = zero_pad 4 (year d)"
    "take 2 (drop 5 (isoformat d)) = zero_pad 2 (month d)"
    "take 2 (drop 8 (isoformat d)) = zero_pad 2 (day d)"
    using l unfolding iso by (simp_all add: nth_append a_def b_def c_def)
qed

lemma fromisoformat_isoformat:
  assumes "valid_date d" "1 \<le> year d" "year d \<le> 9999"
  shows "fromisoformat (isoformat d) = Some d"
proof -
  have v: "1 \<le> month d" "month d < 100" "1 \<le> day d" "day d < 100"
    using assms by (auto simp: valid_date_def days_in_month_def split: if_splits)
  have "parse_digits 0 (zero_pad 4 (year d)) = Some (year d)"
    using parse_zero_pad [of "year d" 4 0] assms by simp
  moreover have "parse_digits 0 (zero_pad 2 (month d)) = Some (month d)"
    using parse_zero_pad [of "month d" 2 0] v by simp
  moreover have "parse_digits 0 (zero_pad 2 (day d)) = Some (day d)"
    using parse_zero_pad [of "day d" 2 0] v by simp
  ultimately show ?thesis
    using assms by (simp add: fromisoformat_def isoformat_shape mk_date_def)
qed

subsection \<open>Date-times\<close>

type_synonym datetime = int
type_synonym timedelta = int

definition day_us :: int where
  "day_us = 86400000000"

definition dt_weekday :: "datetime \<Rightarrow> int" where
  "dt_weekday t = (t div day_us + 6) mod 7"

definition time_of_day :: "datetime \<Rightarrow> int" where
  "time_of_day t = t mod day_us"

definition dt_date :: "datetime \<Rightarrow> date" where
  "dt_date t = fromordinal (t div day_us)"

lemma day_us_pos [simp]: "0 < day_us" "0 \<le> day_us" "day_us \<noteq> 0"
  by (simp_all add: day_us_def)

lemma time_of_day_add_days [simp]: "time_of_day (t + n * day_us) = time_of_day t"
  by (simp add: time_of_day_def)

lemma dt_weekday_add_days: "dt_weekday (t + n * day_us) = (dt_weekday t + n) mod 7"
proof -
  have "(t + n * day_us) div day_us = t div day_us + n"
    using day_us_pos by (simp add: day_us_def)
  then show ?thesis by (simp add: dt_weekday_def mod_simps algebra_simps)
qed

lemma dt_weekday_range: "0 \<le> dt_weekday t" "dt_weekday t \<le> 6"
  by (simp_all add: dt_weekday_def)

end
