(* ===== verification/Federal_Holidays.thy ===== *)
theory Federal_Holidays
  imports Calendar
begin

text \<open>
  \<open>src/us_federal_holidays.py\<close>, and \<open>nfci_release_date\<close> of
  \<open>src/workers/regime_composite.py\<close>, its only caller. The holiday functions return
  \<open>None\<close> where the \<open>date\<close> constructor raises. The set of a year's holidays is a list here:
  the code only tests membership in it.
\<close>

definition MONDAY :: int where "MONDAY = 0"
definition THURSDAY :: int where "THURSDAY = 3"
definition SUNDAY :: int where "SUNDAY = 6"
definition MLK_DAY_SINCE :: int where "MLK_DAY_SINCE = 1986"
definition JUNETEENTH_SINCE :: int where "JUNETEENTH_SINCE = 2021"

lemmas weekday_names = MONDAY_def THURSDAY_def SUNDAY_def

definition nth_weekday :: "int \<Rightarrow> int \<Rightarrow> int \<Rightarrow> int \<Rightarrow> date option" where
  "nth_weekday y m wd n =
     (case mk_date y m 1 of
        None \<Rightarrow> None
      | Some first \<Rightarrow>
          (let offset = (wd - weekday first) mod 7
           in Some (add_days first (offset + 7 * (n - 1)))))"

definition last_weekday :: "int \<Rightarrow> int \<Rightarrow> int \<Rightarrow> date option" where
  "last_weekday y m wd =
     (case (if m = 12 then mk_date (y + 1) 1 1 else mk_date y (m + 1) 1) of
        None \<Rightarrow> None
      | Some nxt \<Rightarrow>
          (let last = add_days nxt (-1)
           in Some (add_days last (- ((weekday last - wd) mod 7)))))"

definition observed :: "date \<Rightarrow> date" where
  "observed holiday = (if weekday holiday = SUNDAY then add_days holiday 1 else holiday)"

text \<open>The lists \<open>fixed\<close> and \<open>floating\<close> of \<open>federal_holidays\<close>, before the observance rule.\<close>

definition fixed_holidays :: "int \<Rightarrow> date option list" where
  "fixed_holidays y =
     [mk_date y 1 1, mk_date y 7 4, mk_date y 11 11, mk_date y 12 25] @
     (if y \<ge> JUNETEENTH_SINCE then [mk_date y 6 19] else [])"

definition floating_holidays :: "int \<Rightarrow> date option list" where
  "floating_holidays y =
     [nth_weekday y 2 MONDAY 3, last_weekday y 5 MONDAY, nth_weekday y 9 MONDAY 1,
      nth_weekday y 10 MONDAY 2, nth_weekday y 11 THURSDAY 4] @
     (if y \<ge> MLK_DAY_SINCE then [nth_weekday y 1 MONDAY 3] else [])"

definition federal_holidays :: "int \<Rightarrow> date list option" where
  "federal_holidays y =
     (case (those (fixed_holidays y), those (floating_holidays y)) of
        (Some fixed, Some floating) \<Rightarrow> Some (map observed fixed @ floating)
      | _ \<Rightarrow> None)"

definition is_federal_holiday :: "date \<Rightarrow> bool option" where
  "is_federal_holiday d = map_option (\<lambda>hs. d \<in> set hs) (federal_holidays (year d))"

subsection \<open>The rules pick the days they name\<close>

lemma mk_date_Some:
  "mk_date y m d = Some x \<longleftrightarrow> 1 \<le> y \<and> y \<le> 9999 \<and> valid_date (Date y m d) \<and> x = Date y m d"
  by (auto simp: mk_date_def)

lemma weekday_shift: "(w + (x mod 7 + 7 * k)) mod 7 = (w + x) mod (7::int)"
proof -
  have "(w + (x mod 7 + 7 * k)) mod 7 = (w + x mod 7 + 7 * k) mod 7" by (simp only: add.assoc)
  also have "\<dots> = (w + x mod 7) mod 7" by (rule mod_mult_self2)
  finally show ?thesis by (simp add: mod_add_right_eq)
qed

lemma nth_weekday_in_month:
  assumes "1 \<le> y" "y \<le> 9999" "1 \<le> m" "m \<le> 12" "1 \<le> n" "n \<le> 4" "0 \<le> wd" "wd \<le> 6"
  shows "\<exists>k. nth_weekday y m wd n = Some (Date y m k) \<and> 7 * (n - 1) + 1 \<le> k \<and> k \<le> 7 * n
    \<and> valid_date (Date y m k) \<and> weekday (Date y m k) = wd"
proof -
  let ?f = "Date y m 1"
  let ?o = "(wd - weekday ?f) mod 7 + 7 * (n - 1)"
  have dim: "28 \<le> days_in_month y m" by (simp add: days_in_month_def)
  have vf: "valid_date ?f" using assms dim by (simp add: valid_date_def)
  have o: "7 * (n - 1) \<le> ?o" "?o \<le> 7 * n - 1" using assms by auto
  have d: "add_days ?f ?o = Date y m (1 + ?o)"
    using add_days_in_month [OF vf, of ?o] o assms dim by auto
  have "weekday (add_days ?f ?o) = wd"
    unfolding weekday_add_days weekday_shift using assms by simp
  moreover have "valid_date (add_days ?f ?o)" by simp
  moreover have "nth_weekday y m wd n = Some (add_days ?f ?o)"
    unfolding nth_weekday_def mk_date_def using vf assms by (simp add: Let_def)
  ultimately show ?thesis
    unfolding d using o by (intro exI [of _ "1 + ?o"]) auto
qed

lemma last_weekday_in_month:
  assumes "1 \<le> y" "y \<le> 9999" "1 \<le> m" "m \<le> 11" "0 \<le> wd" "wd \<le> 6"
  shows "\<exists>k. last_weekday y m wd = Some (Date y m k) \<and> days_in_month y m - 6 \<le> k
    \<and> k \<le> days_in_month y m \<and> weekday (Date y m k) = wd"
proof -
  let ?n = "Date y (m + 1) 1" and ?l = "Date y m (days_in_month y m)"
  have dim: "28 \<le> days_in_month y j" for j by (simp add: days_in_month_def)
  have vn: "valid_date ?n" and vl: "valid_date ?l"
    using assms dim [of m] dim [of "m + 1"] by (simp_all add: valid_date_def)
  have "toordinal ?l = toordinal ?n - 1"
    using days_before_month_Suc [of m y] assms by (simp add: toordinal_def)
  then have l: "add_days ?n (-1) = ?l"
    by (metis add_uminus_conv_diff toordinal_add_days toordinal_inj valid_add_days vl)
  let ?o = "- ((weekday ?l - wd) mod 7)"
  have o: "-6 \<le> ?o" "?o \<le> 0" by auto
  have d: "add_days ?l ?o = Date y m (days_in_month y m + ?o)"
    using add_days_in_month [OF vl, of ?o] o dim [of m] by auto
  have "(weekday ?l + - ((weekday ?l - wd) mod 7)) mod 7 = wd mod 7"
    by (simp add: mod_simps)
  then have "weekday (add_days ?l ?o) = wd"
    unfolding weekday_add_days using assms by simp
  moreover have "last_weekday y m wd = Some (add_days ?l ?o)"
    unfolding last_weekday_def mk_date_def using vn assms l by (simp add: Let_def)
  ultimately show ?thesis
    unfolding d using o by (intro exI [of _ "days_in_month y m + ?o"]) auto
qed

text \<open>Two days of one month less than a week apart fall on different weekdays.\<close>

lemma weekday_unique:
  assumes "weekday (Date y m k) = weekday (Date y m k')" "\<bar>k - k'\<bar> \<le> 6"
  shows "k = k'"
proof -
  have "toordinal (Date y m k) + 6 - (toordinal (Date y m k') + 6) = k - k'"
    by (simp add: toordinal_def)
  moreover have "7 dvd (toordinal (Date y m k) + 6 - (toordinal (Date y m k') + 6))"
    using assms(1) unfolding weekday_def by (simp add: mod_eq_dvd_iff)
  ultimately have "7 dvd k - k'" by simp
  with assms(2) show ?thesis using dvd_imp_le_int [of "k - k'" 7] by fastforce
qed

lemma weekday_Suc:
  assumes "valid_date (Date y m k)"
  shows "weekday (Date y m (k + 1)) = (weekday (Date y m k) + 1) mod 7"
  by (simp add: weekday_def toordinal_def mod_simps algebra_simps)

lemma eq_observed:
  assumes "valid_date (Date y m k)" "k + 1 \<le> days_in_month y m"
  shows "d = observed (Date y m k) \<longleftrightarrow>
    (d = Date y m k \<and> weekday d \<noteq> SUNDAY) \<or> (d = Date y m (k + 1) \<and> weekday d = MONDAY)"
proof -
  have "add_days (Date y m k) 1 = Date y m (k + 1)"
    using add_days_in_month [OF assms(1), of 1] assms by (simp add: valid_date_def)
  moreover have "weekday (Date y m (k + 1)) = 0 \<longleftrightarrow> weekday (Date y m k) = 6"
    using weekday_Suc [OF assms(1)] weekday_range [of "Date y m k"]
      mod_zero_iff [of "weekday (Date y m k) + 1" 7 0 "weekday (Date y m k) + 1"] by auto
  ultimately show ?thesis
    by (auto simp: observed_def weekday_names)
qed

lemma eq_nth_weekday:
  assumes "1 \<le> y" "y \<le> 9999" "1 \<le> m" "m \<le> 12" "1 \<le> n" "n \<le> 4" "0 \<le> wd" "wd \<le> 6"
  obtains h where "nth_weekday y m wd n = Some h"
    "\<And>d. d = h \<longleftrightarrow> year d = y \<and> month d = m \<and> 7 * (n - 1) + 1 \<le> day d \<and> day d \<le> 7 * n
       \<and> weekday d = wd"
proof -
  obtain k where k: "nth_weekday y m wd n = Some (Date y m k)" "7 * (n - 1) + 1 \<le> k"
    "k \<le> 7 * n" "weekday (Date y m k) = wd"
    using nth_weekday_in_month [OF assms] by blast
  have "d = Date y m k \<longleftrightarrow> year d = y \<and> month d = m \<and> 7 * (n - 1) + 1 \<le> day d
      \<and> day d \<le> 7 * n \<and> weekday d = wd" for d
    using k weekday_unique [of y m "day d" k] by (cases d) (auto simp: abs_le_iff)
  with k(1) show ?thesis by (rule that)
qed

lemma eq_last_weekday:
  assumes "1 \<le> y" "y \<le> 9999" "1 \<le> m" "m \<le> 11" "0 \<le> wd" "wd \<le> 6"
  obtains h where "last_weekday y m wd = Some h"
    "\<And>d. d = h \<longleftrightarrow> year d = y \<and> month d = m \<and> days_in_month y m - 6 \<le> day d
       \<and> day d \<le> days_in_month y m \<and> weekday d = wd"
proof -
  obtain k where k: "last_weekday y m wd = Some (Date y m k)" "days_in_month y m - 6 \<le> k"
    "k \<le> days_in_month y m" "weekday (Date y m k) = wd"
    using last_weekday_in_month [OF assms] by blast
  have "d = Date y m k \<longleftrightarrow> year d = y \<and> month d = m \<and> days_in_month y m - 6 \<le> day d
      \<and> day d \<le> days_in_month y m \<and> weekday d = wd" for d
    using k weekday_unique [of y m "day d" k] by (cases d) (auto simp: abs_le_iff)
  with k(1) show ?thesis by (rule that)
qed

subsection \<open>The computed calendar is the statutory one\<close>

text \<open>
  The holidays as a condition on one day, without computing any other date: a fixed
  holiday that is not on a Sunday, the Monday after a fixed holiday on a Sunday, or the
  day of a week range of its month that falls on the right weekday.
\<close>

definition observed_on :: "int \<Rightarrow> int \<Rightarrow> date \<Rightarrow> bool" where
  "observed_on m k d \<longleftrightarrow>
     month d = m \<and> day d = k \<and> weekday d \<noteq> SUNDAY \<or>
     month d = m \<and> day d = k + 1 \<and> weekday d = MONDAY"

definition in_week :: "int \<Rightarrow> int \<Rightarrow> int \<Rightarrow> date \<Rightarrow> bool" where
  "in_week m k wd d \<longleftrightarrow> month d = m \<and> k \<le> day d \<and> day d \<le> k + 6 \<and> weekday d = wd"

definition statutory_holiday :: "date \<Rightarrow> bool" where
  "statutory_holiday d \<longleftrightarrow>
     observed_on 1 1 d \<or> observed_on 7 4 d \<or> observed_on 11 11 d \<or> observed_on 12 25 d \<or>
     JUNETEENTH_SINCE \<le> year d \<and> observed_on 6 19 d \<or>
     MLK_DAY_SINCE \<le> year d \<and> in_week 1 15 MONDAY d \<or>
     in_week 2 15 MONDAY d \<or> in_week 5 25 MONDAY d \<or> in_week 9 1 MONDAY d \<or>
     in_week 10 8 MONDAY d \<or> in_week 11 22 THURSDAY d"

lemma federal_holidays_mem:
  assumes "1 \<le> y" "y \<le> 9999"
  shows "\<exists>hs. federal_holidays y = Some hs \<and> (\<forall>d. d \<in> set hs \<longleftrightarrow> year d = y \<and> statutory_holiday d)"
proof -
  have v: "valid_date (Date y m k)" if "(m, k) \<in> {(1, 1), (7, 4), (11, 11), (12, 25), (6, 19)}" for m k
    using that by (auto simp: valid_date_def days_in_month_def)
  have mk: "mk_date y m k = Some (Date y m k)"
    if "(m, k) \<in> {(1, 1), (7, 4), (11, 11), (12, 25), (6, 19)}" for m k
    using v [OF that] assms by (simp add: mk_date_def)
  have ob: "d = observed (Date y m k) \<longleftrightarrow> year d = y \<and> observed_on m k d"
    if "(m, k) \<in> {(1, 1), (7, 4), (11, 11), (12, 25), (6, 19)}" for d m k
    using eq_observed [OF v [OF that], of d] that
    by (cases d) (auto simp: days_in_month_def observed_on_def)
  obtain w where w: "nth_weekday y 2 MONDAY 3 = Some w"
    "\<And>d. d = w \<longleftrightarrow> year d = y \<and> in_week 2 15 MONDAY d"
    using eq_nth_weekday [of y 2 3 MONDAY] assms by (auto simp: weekday_names in_week_def)
  obtain e where e: "last_weekday y 5 MONDAY = Some e"
    "\<And>d. d = e \<longleftrightarrow> year d = y \<and> in_week 5 25 MONDAY d"
    using eq_last_weekday [of y 5 MONDAY] assms
    by (auto simp: weekday_names days_in_month_def in_week_def)
  obtain l where l: "nth_weekday y 9 MONDAY 1 = Some l"
    "\<And>d. d = l \<longleftrightarrow> year d = y \<and> in_week 9 1 MONDAY d"
    using eq_nth_weekday [of y 9 1 MONDAY] assms by (auto simp: weekday_names in_week_def)
  obtain c where c: "nth_weekday y 10 MONDAY 2 = Some c"
    "\<And>d. d = c \<longleftrightarrow> year d = y \<and> in_week 10 8 MONDAY d"
    using eq_nth_weekday [of y 10 2 MONDAY] assms by (auto simp: weekday_names in_week_def)
  obtain t where t: "nth_weekday y 11 THURSDAY 4 = Some t"
    "\<And>d. d = t \<longleftrightarrow> year d = y \<and> in_week 11 22 THURSDAY d"
    using eq_nth_weekday [of y 11 4 THURSDAY] assms by (auto simp: weekday_names in_week_def)
  obtain k where k: "nth_weekday y 1 MONDAY 3 = Some k"
    "\<And>d. d = k \<longleftrightarrow> year d = y \<and> in_week 1 15 MONDAY d"
    using eq_nth_weekday [of y 1 3 MONDAY] assms by (auto simp: weekday_names in_week_def)
  define fixed where "fixed = [Date y 1 1, Date y 7 4, Date y 11 11, Date y 12 25] @
     (if y \<ge> JUNETEENTH_SINCE then [Date y 6 19] else [])"
  define floating where "floating = [w, e, l, c, t] @ (if y \<ge> MLK_DAY_SINCE then [k] else [])"
  have "those (fixed_holidays y) = Some fixed"
    unfolding fixed_holidays_def fixed_def by (simp add: mk)
  moreover have "those (floating_holidays y) = Some floating"
    unfolding floating_holidays_def floating_def by (simp add: w(1) e(1) l(1) c(1) t(1) k(1))
  ultimately have hs: "federal_holidays y = Some (map observed fixed @ floating)"
    by (simp add: federal_holidays_def)
  have "d \<in> set (map observed fixed @ floating) \<longleftrightarrow> year d = y \<and> statutory_holiday d" for d
    unfolding fixed_def floating_def statutory_holiday_def
    by (cases "year d = y"; cases "JUNETEENTH_SINCE \<le> y"; cases "MLK_DAY_SINCE \<le> y")
      (simp_all add: ob w(2) e(2) l(2) c(2) t(2) k(2), blast+)
  with hs show ?thesis by blast
qed

lemma is_federal_holiday_statutory:
  assumes "1 \<le> year d" "year d \<le> 9999"
  shows "is_federal_holiday d = Some (statutory_holiday d)"
  using federal_holidays_mem [OF assms] by (auto simp: is_federal_holiday_def)

subsection \<open>The NFCI release date\<close>

definition NFCI_REFERENCE_WEEKDAY :: int where "NFCI_REFERENCE_WEEKDAY = 4"
definition NFCI_RELEASE_WEEKDAY :: int where "NFCI_RELEASE_WEEKDAY = 2"

text \<open>\<open>any(is_federal_holiday(d) for d in ds)\<close> stops at the first hit.\<close>

fun any_federal_holiday :: "date list \<Rightarrow> bool option" where
  "any_federal_holiday [] = Some False"
| "any_federal_holiday (d # ds) =
     (case is_federal_holiday d of
        None \<Rightarrow> None
      | Some h \<Rightarrow> if h then Some True else any_federal_holiday ds)"

text \<open>The \<open>while\<close> loop at the end: \<open>None\<close> where it raises or does not stop.\<close>

partial_function (option) next_open_day :: "date \<Rightarrow> date option" where
  "next_open_day r =
     (if 5 \<le> weekday r then next_open_day (add_days r 1)
      else Option.bind (is_federal_holiday r)
             (\<lambda>h. if h then next_open_day (add_days r 1) else Some r))"

definition nfci_release_date :: "date \<Rightarrow> date option" where
  "nfci_release_date obs_date =
     (let friday = add_days obs_date ((NFCI_REFERENCE_WEEKDAY - weekday obs_date) mod 7);
          monday = add_days friday 3;
          wednesday = add_days monday NFCI_RELEASE_WEEKDAY
      in case any_federal_holiday (map (\<lambda>k. add_days monday k) [0, 1, 2]) of
           None \<Rightarrow> None
         | Some h \<Rightarrow> if \<not> h then Some wednesday else next_open_day (add_days wednesday 1))"

lemma statutory_thursday_isolated:
  assumes "valid_date d" "weekday d = 3" "statutory_holiday d" "1 \<le> k" "k \<le> 3"
  shows "\<not> statutory_holiday (add_days d (- k))"
proof (cases "month d = 1")
  case True
  then have d: "d = Date (year d) 1 1"
    using assms by (cases d) (auto simp: statutory_holiday_def observed_on_def in_week_def weekday_names)
  have v: "valid_date (Date (year d - 1) 12 (32 - k))"
    using assms by (simp add: valid_date_def days_in_month_def)
  have "toordinal (Date (year d - 1) 12 (32 - k)) = toordinal d - k"
    using days_before_year_Suc [of "year d - 1"]
    by (subst (2) d) (simp add: toordinal_def days_before_month_def days_in_year_def)
  then have "add_days d (- k) = Date (year d - 1) 12 (32 - k)"
    using toordinal_inj [OF v valid_add_days, of d "- k"] by simp
  then show ?thesis
    using assms by (auto simp: statutory_holiday_def observed_on_def in_week_def)
next
  case False
  then have cand: "(month d, day d) \<in> {(7, 4), (11, 11), (12, 25), (6, 19)} \<or>
      month d = 11 \<and> 22 \<le> day d \<and> day d \<le> 28"
    using assms by (auto simp: statutory_holiday_def observed_on_def in_week_def weekday_names)
  then have e: "add_days d (- k) = Date (year d) (month d) (day d - k)"
    using add_days_in_month [OF assms(1), of "- k"] assms by (auto simp: valid_date_def)
  have w: "weekday (add_days d (- k)) = 3 - k"
    using assms by (simp add: weekday_add_days)
  show ?thesis
    using cand w assms(4,5) unfolding e
    by (auto simp: statutory_holiday_def observed_on_def in_week_def weekday_names)
qed

lemma any_federal_holiday_statutory:
  assumes "\<And>d. d \<in> set ds \<Longrightarrow> 1 \<le> year d \<and> year d \<le> 9999"
  shows "any_federal_holiday ds = Some (\<exists>d \<in> set ds. statutory_holiday d)"
  using assms by (induction ds) (auto simp: is_federal_holiday_statutory)

lemma nfci_release_monday:
  assumes "valid_date d" "1 \<le> year d" "year d \<le> 9998"
    and "monday = add_days d ((4 - weekday d) mod 7 + 3)"
  shows "nfci_release_date d =
    Some (add_days monday (if \<exists>k \<in> {0, 1, 2}. statutory_holiday (add_days monday k) then 3 else 2))"
proof -
  let ?f = "(4 - weekday d) mod 7"
  have f: "0 \<le> ?f" "?f \<le> 6" by simp_all
  have yr: "1 \<le> year (add_days monday k) \<and> year (add_days monday k) \<le> 9999"
    if "0 \<le> k" "k \<le> 3" for k
  proof -
    have "add_days monday k = add_days d (?f + 3 + k)" by (simp add: assms(4))
    moreover have "year (add_days d (?f + 3 + k)) \<in> {year d, year d + 1}"
      by (rule year_add_days_range [OF assms(1)]) (use f that in auto)
    ultimately show ?thesis using assms(2,3) by auto
  qed
  have "(weekday d + (?f + 3)) mod 7 = ((weekday d + 3) + ?f) mod 7"
    by (simp only: add.commute add.left_commute add.assoc)
  also have "\<dots> = ((weekday d + 3) + (4 - weekday d)) mod 7"
    by (rule mod_add_right_eq)
  finally have mon: "weekday monday = 0"
    unfolding assms(4) weekday_add_days by simp
  have vm: "valid_date monday" by (simp add: assms(4))
  have any: "any_federal_holiday (map (\<lambda>k. add_days monday k) [0, 1, 2]) =
      Some (\<exists>k \<in> {0, 1, 2}. statutory_holiday (add_days monday k))"
    by (subst any_federal_holiday_statutory) (use yr in auto)
  have thu: "next_open_day (add_days monday 3) = Some (add_days monday 3)"
    if "k \<in> {0, 1, 2}" "statutory_holiday (add_days monday k)" for k
  proof -
    have w3: "weekday (add_days monday 3) = 3" by (simp add: weekday_add_days mon)
    have "\<not> statutory_holiday (add_days monday 3)"
    proof
      assume "statutory_holiday (add_days monday 3)"
      from statutory_thursday_isolated [OF _ w3 this, of "3 - k"] that
      show False by auto
    qed
    then show ?thesis
      using yr [of 3] w3 by (subst next_open_day.simps) (simp add: is_federal_holiday_statutory)
  qed
  have "nfci_release_date d =
      (case any_federal_holiday (map (\<lambda>k. add_days monday k) [0, 1, 2]) of
         None \<Rightarrow> None
       | Some h \<Rightarrow> if \<not> h then Some (add_days monday 2) else next_open_day (add_days monday 3))"
  proof -
    have m: "add_days (add_days d ?f) 3 = monday" by (simp add: assms(4))
    have t: "add_days (add_days monday 2) 1 = add_days monday 3" by simp
    show ?thesis
      unfolding nfci_release_date_def Let_def NFCI_REFERENCE_WEEKDAY_def NFCI_RELEASE_WEEKDAY_def m t
      by (rule refl)
  qed
  then show ?thesis unfolding any using thu by auto
qed

text \<open>The Mondays of two observations are the same or at least a week apart.\<close>

lemma week_step:
  fixes x y :: int
  assumes "x \<le> y"
  shows "x + (4 - (x + 6) mod 7) mod 7 = y + (4 - (y + 6) mod 7) mod 7
    \<or> x + (4 - (x + 6) mod 7) mod 7 + 7 \<le> y + (4 - (y + 6) mod 7) mod 7"
proof -
  have end_of: "\<exists>k. z + (4 - (z + 6) mod 7) mod 7 = 7 * k + 5 \<and> z \<le> 7 * k + 5 \<and> 7 * k + 5 \<le> z + 6" for z :: int
  proof -
    define r where "r = (z + 6) mod 7"
    define q where "q = (z + 6) div 7"
    have z: "z = 7 * q + r - 6" "0 \<le> r" "r < 7" by (simp_all add: r_def q_def)
    show ?thesis
    proof (cases "r \<le> 4")
      case True
      then have "(4 - r) mod 7 = 4 - r" using z by simp
      then show ?thesis using z True unfolding r_def [symmetric] by (intro exI [of _ "q - 1"]) simp
    next
      case False
      then have "(4 - r) mod 7 = 11 - r" using z by (intro div_mod_eqI(2) [where q = "- 1"]) auto
      then show ?thesis using z False unfolding r_def [symmetric] by (intro exI [of _ q]) simp
    qed
  qed
  obtain i j where ij: "x + (4 - (x + 6) mod 7) mod 7 = 7 * i + 5" "7 * i + 5 \<le> x + 6"
      "y + (4 - (y + 6) mod 7) mod 7 = 7 * j + 5" "y \<le> 7 * j + 5"
    using end_of [of x] end_of [of y] by blast
  have "i \<le> j" using ij(2,4) assms by linarith
  then show ?thesis unfolding ij(1,3) by (cases "i = j") simp_all
qed

text \<open>A later observation is never released before an earlier one.\<close>

lemma nfci_release_date_mono:
  assumes "valid_date d" "1 \<le> year d" "year d \<le> 9998" "valid_date e" "1 \<le> year e" "year e \<le> 9998"
    and "d \<le> e" "nfci_release_date d = Some r" "nfci_release_date e = Some s"
  shows "r \<le> s"
proof -
  let ?m = "\<lambda>x. add_days x ((4 - weekday x) mod 7 + 3)"
  obtain i where r: "r = add_days (?m d) i" "i = (if \<exists>k \<in> {0, 1, 2}. statutory_holiday (add_days (?m d) k) then 3 else 2)"
    using nfci_release_monday [OF assms(1-3) refl] assms(8) by simp
  obtain j where s: "s = add_days (?m e) j" "j = (if \<exists>k \<in> {0, 1, 2}. statutory_holiday (add_days (?m e) k) then 3 else 2)"
    using nfci_release_monday [OF assms(4-6) refl] assms(9) by simp
  have "toordinal d \<le> toordinal e" using less_date_toordinal [OF assms(1,4)] assms(7) by (cases "d = e") (simp_all add: less_imp_le)
  then consider "toordinal (?m d) = toordinal (?m e)" | "toordinal (?m d) + 7 \<le> toordinal (?m e)"
    using week_step [of "toordinal d" "toordinal e"] by (auto simp: weekday_def)
  then have "toordinal r \<le> toordinal s"
  proof cases
    case 1
    then have "?m d = ?m e" by (intro toordinal_inj) simp_all
    then show ?thesis using r s by simp
  next
    case 2
    then show ?thesis using r s by (auto split: if_splits)
  qed
  moreover have "valid_date r" "valid_date s" using r(1) s(1) by simp_all
  ultimately show ?thesis using less_date_toordinal [of s r] by (meson not_le)
qed

text \<open>
  C4: an NFCI observation of the week ending on the reference Friday is released on the
  Wednesday of the next week, and on the Thursday exactly when a federal holiday falls on
  the Monday, Tuesday or Wednesday of that week; the closing loop never moves the release
  past that Thursday, and the function raises nothing and stops.
\<close>

theorem nfci_release_date_rule:
  assumes "valid_date d" "1 \<le> year d" "year d \<le> 9998"
    and "monday = add_days d ((4 - weekday d) mod 7 + 3)"
  shows "nfci_release_date d =
    Some (add_days monday (if \<exists>k \<in> {0, 1, 2}. statutory_holiday (add_days monday k) then 3 else 2))"
  using assms by (rule nfci_release_monday)

theorem nfci_release_date_rule_witness:
  "nfci_release_date (Date 2025 11 7) = Some (Date 2025 11 13)"
proof -
  have "valid_date (Date 2025 11 7)" by code_simp
  moreover have "add_days (Date 2025 11 7) ((4 - weekday (Date 2025 11 7)) mod 7 + 3) = Date 2025 11 10"
    by code_simp
  moreover have "\<exists>k \<in> {0, 1, 2}. statutory_holiday (add_days (Date 2025 11 10) k)"
    by (rule bexI [of _ 1]) (code_simp, simp)
  moreover have "add_days (Date 2025 11 10) 3 = Date 2025 11 13" by code_simp
  ultimately show ?thesis
    using nfci_release_date_rule [of "Date 2025 11 7" "Date 2025 11 10"] by simp
qed

text \<open>
  C5: in every year of Python's calendar, \<open>federal_holidays\<close> is exactly the set of the
  statutory holidays of that year under the Federal Reserve's observance rule, so that
  \<open>is_federal_holiday\<close>, which looks only at the year of its argument, misses none.
\<close>

theorem federal_holidays_exact:
  assumes "1 \<le> y" "y \<le> 9999"
  shows "\<exists>hs. federal_holidays y = Some hs \<and> set hs = {d. year d = y \<and> statutory_holiday d} \<and>
    (\<forall>d. year d = y \<longrightarrow> is_federal_holiday d = Some (statutory_holiday d))"
proof -
  obtain hs where "federal_holidays y = Some hs"
    and "\<forall>d. d \<in> set hs \<longleftrightarrow> year d = y \<and> statutory_holiday d"
    using federal_holidays_mem [OF assms] by blast
  then show ?thesis by (auto simp: is_federal_holiday_def)
qed

theorem federal_holidays_exact_witness:
  "\<exists>hs. federal_holidays 2026 = Some hs \<and> Date 2026 11 26 \<in> set hs"
proof -
  have "statutory_holiday (Date 2026 11 26)" by code_simp
  then show ?thesis using federal_holidays_exact [of 2026] by auto
qed

end
