(* ===== verification/Quadrant_Axis.thy ===== *)
theory Quadrant_Axis
  imports Calendar
begin

text \<open>
  One axis of the quadrant model: \<open>src/quadrant_hysteresis.py\<close>, \<open>src/quadrant_staleness.py\<close>,
  \<open>src/quadrant_confidence.py\<close> and \<open>axis_score\<close> of \<open>src/quadrant_score.py\<close>. Signs are
  \<open>int option\<close> (\<open>None\<close> is the code's None); reasons and statuses are the code's strings.
  The standard normal distribution function of Python's \<open>statistics\<close> module is a parameter
  \<open>cdf\<close>; the lemmas that need it assume that it is monotone, at most 1, and 1/2 at 0.
\<close>

subsection \<open>Hysteresis\<close>

definition AXIS_ENTER :: real where "AXIS_ENTER = 25 / 100"
definition AXIS_EXIT :: real where "AXIS_EXIT = 10 / 100"

type_synonym hysteresis_result = "int option \<times> int option \<times> bool \<times> string option"

definition sign_of :: "real \<Rightarrow> int" where
  "sign_of score = (if score > 0 then 1 else -1)"

definition axis_hysteresis ::
  "int option \<Rightarrow> real \<Rightarrow> real \<Rightarrow> real \<Rightarrow> real \<Rightarrow> real \<Rightarrow> hysteresis_result" where
  "axis_hysteresis prev_sign score candidate_confidence enter exit' min_confidence =
     (let confident = candidate_confidence \<ge> min_confidence
      in case prev_sign of
           None \<Rightarrow>
             if \<bar>score\<bar> < enter then (None, None, True, Some ''init_below_enter'')
             else if \<not> confident then (None, None, True, Some ''init_low_confidence'')
             else (let sign = sign_of score in (Some sign, Some sign, False, Some ''init''))
         | Some h \<Rightarrow>
             (let signed_margin = of_int h * score
              in if signed_margin \<le> - enter then
                   (let new_sign = sign_of score
                    in if confident then (Some new_sign, Some new_sign, False, Some ''switch'')
                       else (Some new_sign, None, True, Some ''switch_low_confidence''))
                 else if signed_margin \<ge> exit' then
                   (if confident then (Some h, Some h, False, Some ''hold'')
                    else (Some h, None, True, Some ''hold_low_confidence''))
                 else (Some h, None, True, Some ''deadband'')))"

abbreviation internal_of :: "hysteresis_result \<Rightarrow> int option" where
  "internal_of r \<equiv> fst r"
abbreviation effective_of :: "hysteresis_result \<Rightarrow> int option" where
  "effective_of r \<equiv> fst (snd r)"
abbreviation pending_of :: "hysteresis_result \<Rightarrow> bool" where
  "pending_of r \<equiv> fst (snd (snd r))"
abbreviation reason_of :: "hysteresis_result \<Rightarrow> string option" where
  "reason_of r \<equiv> snd (snd (snd r))"

definition sign_ok :: "int option \<Rightarrow> bool" where
  "sign_ok s \<longleftrightarrow> s \<in> {None, Some 1, Some (-1)}"

lemma hysteresis_pending_iff:
  "pending_of (axis_hysteresis p s c en ex mc) \<longleftrightarrow> effective_of (axis_hysteresis p s c en ex mc) = None"
  by (auto simp: axis_hysteresis_def Let_def split: option.splits)

lemma hysteresis_effective:
  assumes "effective_of (axis_hysteresis p s c en ex mc) = Some e"
  shows "internal_of (axis_hysteresis p s c en ex mc) = Some e" and "mc \<le> c"
  using assms by (auto simp: axis_hysteresis_def Let_def split: option.splits if_splits)

lemma hysteresis_sign_ok:
  "sign_ok p \<Longrightarrow> sign_ok (internal_of (axis_hysteresis p s c en ex mc))"
  by (auto simp: axis_hysteresis_def sign_ok_def sign_of_def Let_def split: option.splits if_splits)

lemma hysteresis_confirmed: "internal_of (axis_hysteresis (Some h) s c en ex mc) \<noteq> None"
  by (simp add: axis_hysteresis_def Let_def)

lemma hysteresis_flip:
  assumes "sign_ok (Some h)" "0 < en"
    and "internal_of (axis_hysteresis (Some h) s c en ex mc) = Some h'" "h' \<noteq> h"
  shows "h' = - h \<and> en \<le> of_int h' * s"
  using assms by (auto simp: axis_hysteresis_def sign_ok_def sign_of_def Let_def split: if_splits)

lemma hysteresis_init:
  assumes "0 < en" "internal_of (axis_hysteresis None s c en ex mc) = Some h"
  shows "sign_ok (Some h) \<and> en \<le> of_int h * s"
  using assms by (auto simp: axis_hysteresis_def sign_ok_def sign_of_def Let_def split: if_splits)

text \<open>The daily run of one axis: the latched sign of one day is the next day's \<open>prev_sign\<close>.\<close>

fun hysteresis_run :: "real \<Rightarrow> real \<Rightarrow> real \<Rightarrow> int option \<Rightarrow> (real \<times> real) list \<Rightarrow> int option list" where
  "hysteresis_run en ex mc p [] = []"
| "hysteresis_run en ex mc p ((s, c) # xs) =
     (let p' = internal_of (axis_hysteresis p s c en ex mc)
      in p' # hysteresis_run en ex mc p' xs)"

fun sign_flips :: "int option \<Rightarrow> int option list \<Rightarrow> nat" where
  "sign_flips p [] = 0"
| "sign_flips p (q # qs) =
     (if p \<noteq> None \<and> q \<noteq> p then 1 else 0) + sign_flips q qs"

fun variation :: "real \<Rightarrow> real list \<Rightarrow> real" where
  "variation s [] = 0"
| "variation s (t # ts) = \<bar>t - s\<bar> + variation t ts"

lemma variation_nonneg: "0 \<le> variation s ts"
  by (induction ts arbitrary: s) auto

lemma flips_bound_confirmed:
  assumes "0 < en" "sign_ok (Some h)" "en \<le> of_int h * ref"
  shows "2 * en * real (sign_flips (Some h) (hysteresis_run en ex mc (Some h) xs))
    \<le> \<bar>s - ref\<bar> + variation s (map fst xs)"
  using assms(2,3)
proof (induction xs arbitrary: h ref s)
  case Nil
  then show ?case by simp
next
  case (Cons x xs)
  obtain t c where x: "x = (t, c)" by (cases x)
  let ?r = "axis_hysteresis (Some h) t c en ex mc"
  obtain h' where h': "internal_of ?r = Some h'"
    using hysteresis_confirmed [of h t c en ex mc] by auto
  have ok': "sign_ok (Some h')" using hysteresis_sign_ok [OF Cons.prems(1), of t c en ex mc] h' by simp
  show ?case
  proof (cases "h' = h")
    case True
    have "2 * en * real (sign_flips (Some h) (hysteresis_run en ex mc (Some h) xs))
        \<le> \<bar>t - ref\<bar> + variation t (map fst xs)"
      by (rule Cons.IH [OF Cons.prems])
    then show ?thesis using h' True x by (simp add: Let_def)
  next
    case False
    have fl: "h' = - h" "en \<le> of_int h' * t"
      using hysteresis_flip [OF Cons.prems(1) assms(1) h' False] by auto
    have ih: "2 * en * real (sign_flips (Some h') (hysteresis_run en ex mc (Some h') xs))
        \<le> \<bar>t - t\<bar> + variation t (map fst xs)"
      by (rule Cons.IH [OF ok' fl(2)])
    have "2 * en \<le> \<bar>t - ref\<bar>"
      using fl Cons.prems by (auto simp: sign_ok_def)
    then have "2 * en \<le> \<bar>s - ref\<bar> + \<bar>t - s\<bar>" by linarith
    then show ?thesis using ih h' False x by (simp add: Let_def algebra_simps)
  qed
qed

lemma flips_bound_init:
  assumes "0 < en"
  shows "2 * en * real (sign_flips None (hysteresis_run en ex mc None ((t, c) # xs)))
    \<le> variation t (map fst xs)"
proof (induction xs arbitrary: t c)
  case Nil
  then show ?case by (simp add: Let_def)
next
  case (Cons x xs)
  obtain u d where x: "x = (u, d)" by (cases x)
  show ?case
  proof (cases "internal_of (axis_hysteresis None t c en ex mc)")
    case None
    then show ?thesis using Cons.IH [of u d] x by (simp add: Let_def)
  next
    case (Some h)
    have "2 * en * real (sign_flips (Some h) (hysteresis_run en ex mc (Some h) (x # xs)))
        \<le> \<bar>t - t\<bar> + variation t (map fst (x # xs))"
      using hysteresis_init [OF assms Some] by (intro flips_bound_confirmed [OF assms]) auto
    then show ?thesis using Some by (simp add: Let_def)
  qed
qed

text \<open>
  C3: the latched sign cannot chatter. Over any run of scores and confidences the number
  of sign flips is at most the total movement of the score divided by twice the entry
  threshold: every flip needs a full swing across the band, whatever the exit threshold,
  the confidences and the minimum confidence are.
\<close>

theorem hysteresis_flips_bounded:
  assumes "0 < enter"
  shows "2 * enter * real (sign_flips None (hysteresis_run enter exit' min_conf None ((s, c) # xs)))
    \<le> variation s (map fst xs)"
  by (rule flips_bound_init [OF assms])

theorem hysteresis_flips_bounded_witness:
  "2 * AXIS_ENTER * real (sign_flips None
      (hysteresis_run AXIS_ENTER AXIS_EXIT (7 / 10) None ((1/2, 1) # [(-1/2, 1), (-1/10, 1), (1/2, 1)])))
    \<le> variation (1/2) (map fst [(-1/2, 1), (-1/10, 1), (1/2, 1 :: real)])"
proof -
  have "0 < AXIS_ENTER" by (simp add: AXIS_ENTER_def)
  then show ?thesis by (rule hysteresis_flips_bounded)
qed

text \<open>
  What one step of the hysteresis may publish. From a latched memory that is empty or
  a sign, the new memory is empty or a sign and is never lost once set; it changes only
  on a score of at least the entry threshold on the new side; the effective sign is
  present exactly when no transition is pending, and then it is the memory and the
  confidence reached the minimum.
\<close>

theorem axis_hysteresis_contract:
  assumes "sign_ok prev" "0 < enter"
  shows "let r = axis_hysteresis prev score conf enter exit' min_conf in
    sign_ok (internal_of r) \<and>
    (prev \<noteq> None \<longrightarrow> internal_of r \<noteq> None) \<and>
    (\<forall>h. internal_of r = Some h \<and> internal_of r \<noteq> prev \<longrightarrow> enter \<le> of_int h * score) \<and>
    (pending_of r \<longleftrightarrow> effective_of r = None) \<and>
    (\<forall>e. effective_of r = Some e \<longrightarrow> internal_of r = Some e \<and> min_conf \<le> conf)"
proof -
  let ?r = "axis_hysteresis prev score conf enter exit' min_conf"
  have "enter \<le> of_int h * score" if "internal_of ?r = Some h" "internal_of ?r \<noteq> prev" for h
  proof (cases prev)
    case None
    then show ?thesis using hysteresis_init [OF assms(2)] that by auto
  next
    case (Some k)
    then show ?thesis using hysteresis_flip [of k enter] assms that by auto
  qed
  moreover have "prev \<noteq> None \<longrightarrow> internal_of ?r \<noteq> None"
    using hysteresis_confirmed by (cases prev) auto
  moreover have "sign_ok (internal_of ?r)" by (rule hysteresis_sign_ok [OF assms(1)])
  moreover have "pending_of ?r \<longleftrightarrow> effective_of ?r = None" by (rule hysteresis_pending_iff)
  moreover have "internal_of ?r = Some e \<and> min_conf \<le> conf" if "effective_of ?r = Some e" for e
    using hysteresis_effective [OF that] by simp
  ultimately show ?thesis
    unfolding Let_def by (intro conjI allI impI) auto
qed

theorem axis_hysteresis_contract_witness:
  "axis_hysteresis (Some 1) (-1/2) (9/10) AXIS_ENTER AXIS_EXIT (7/10)
     = (Some (-1), Some (-1), False, Some ''switch'') \<and>
   sign_ok (internal_of (axis_hysteresis (Some 1) (-1/2) (9/10) AXIS_ENTER AXIS_EXIT (7/10)))"
proof -
  have "sign_ok (Some 1)" "0 < AXIS_ENTER" by (simp_all add: sign_ok_def AXIS_ENTER_def)
  from axis_hysteresis_contract [OF this, of "-1/2" "9/10" AXIS_EXIT "7/10"] show ?thesis
    by (simp add: Let_def axis_hysteresis_def sign_of_def AXIS_ENTER_def)
qed

subsection \<open>Business days, deadlines and staleness\<close>

text \<open>
  The loop of \<open>add_business_days\<close> with its two variables. It stops because a day that is
  not counted is a Saturday or a Sunday, and there are two of those in a row at most.
\<close>

function business_loop :: "int \<Rightarrow> datetime \<Rightarrow> int \<Rightarrow> datetime" where
  "business_loop n current added =
     (if added < n then
        (let current' = current + day_us
         in business_loop n current' (if dt_weekday current' < 5 then added + 1 else added))
      else current)"
  by pat_completeness auto
termination
proof (relation "measures [\<lambda>(n, t, k). nat (n - k), \<lambda>(n, t, k). nat (6 - dt_weekday t)]")
  fix n t k t'
  assume k: "k < (n::int)" and t': "t' = t + day_us"
  have w: "dt_weekday t' = (dt_weekday t + 1) mod 7"
    using dt_weekday_add_days [of t 1] t' by simp
  have "dt_weekday t < dt_weekday t'" if "\<not> dt_weekday t' < 5"
  proof -
    have "dt_weekday t \<noteq> 6" using w that by auto
    then have "(dt_weekday t + 1) mod 7 = dt_weekday t + 1"
      using dt_weekday_range [of t] by simp
    with w show ?thesis by simp
  qed
  then show "((n, t', if dt_weekday t' < 5 then k + 1 else k), n, t, k)
      \<in> measures [\<lambda>(n, t, k). nat (n - k), \<lambda>(n, t, k). nat (6 - dt_weekday t)]"
    using k dt_weekday_range [of t] dt_weekday_range [of t'] by auto
qed simp

declare business_loop.simps [simp del]

definition add_business_days :: "datetime \<Rightarrow> int \<Rightarrow> datetime" where
  "add_business_days start n = business_loop n start 0"

definition available_at_snapshot :: "datetime \<Rightarrow> datetime list \<Rightarrow> datetime" where
  "available_at_snapshot computed_at ats =
     (if ats = [] then computed_at else list_max computed_at ats)"

definition source_deadlines ::
  "datetime \<Rightarrow> datetime \<Rightarrow> timedelta \<Rightarrow> timedelta \<Rightarrow> timedelta \<Rightarrow> datetime \<times> datetime" where
  "source_deadlines last_available_at next_expected_release grace hard_max_age decay_window =
     (let soft = next_expected_release + grace;
          hard = min (last_available_at + hard_max_age) (soft + decay_window)
      in (soft, hard))"

definition source_expiry ::
  "datetime \<Rightarrow> datetime \<Rightarrow> timedelta \<Rightarrow> timedelta \<Rightarrow> timedelta \<Rightarrow> datetime" where
  "source_expiry la nr grace hard_max_age decay_window =
     snd (source_deadlines la nr grace hard_max_age decay_window)"

text \<open>\<open>None\<close> is the \<open>ValueError\<close> on an empty list of expiries.\<close>

definition compute_stale_after ::
  "datetime \<Rightarrow> datetime list \<Rightarrow> (datetime \<times> datetime \<times> datetime) option" where
  "compute_stale_after computed_at expiries =
     (case expiries of
        [] \<Rightarrow> None
      | e # es \<Rightarrow>
          (let data_stale_after = list_min e es;
               pipeline_stale_after = add_business_days computed_at 2
           in Some (data_stale_after, pipeline_stale_after,
                    min data_stale_after pipeline_stale_after)))"

text \<open>The business days among the \<open>k\<close> days after \<open>t\<close>.\<close>

definition business_days_in :: "datetime \<Rightarrow> nat \<Rightarrow> nat" where
  "business_days_in t k = card {i. 1 \<le> i \<and> i \<le> k \<and> dt_weekday (t + int i * day_us) < 5}"

lemma business_days_in_0 [simp]: "business_days_in t 0 = 0"
  by (simp add: business_days_in_def)

lemma business_days_in_Suc:
  "business_days_in t (Suc k) =
   (if dt_weekday (t + day_us) < 5 then 1 else 0) + business_days_in (t + day_us) k"
proof -
  let ?S = "{i. 1 \<le> i \<and> i \<le> k \<and> dt_weekday (t + day_us + int i * day_us) < 5}"
  have "{i. 1 \<le> i \<and> i \<le> Suc k \<and> dt_weekday (t + int i * day_us) < 5}
      = (if dt_weekday (t + day_us) < 5 then {1} else {}) \<union> Suc ` ?S" (is "?L = ?R")
  proof (intro set_eqI)
    fix i
    show "i \<in> ?L \<longleftrightarrow> i \<in> ?R"
    proof (cases i)
      case (Suc j)
      then show ?thesis
        by (cases j) (auto simp: image_iff algebra_simps)
    qed auto
  qed
  moreover have "finite ?S" by (rule finite_subset [of _ "{..k}"]) auto
  moreover have "1 \<notin> Suc ` ?S" by auto
  ultimately show ?thesis
    by (simp add: business_days_in_def card_image)
qed

lemma business_loop_spec:
  assumes "a \<le> n"
  shows "\<exists>k. business_loop n t a = t + int k * day_us \<and> int (business_days_in t k) = n - a \<and>
    (a < n \<longrightarrow> 0 < k \<and> dt_weekday (business_loop n t a) < 5)"
  using assms
proof (induction n t a rule: business_loop.induct)
  case (1 n t a)
  show ?case
  proof (cases "a < n")
    case False
    with 1 show ?thesis by (intro exI [of _ 0]) (simp add: business_loop.simps)
  next
    case True
    let ?t = "t + day_us" and ?a = "if dt_weekday (t + day_us) < 5 then a + 1 else a"
    have "?a \<le> n" using True by simp
    from "1.IH" [OF True refl this] obtain k where
      k: "business_loop n ?t ?a = ?t + int k * day_us" "int (business_days_in ?t k) = n - ?a"
        "?a < n \<longrightarrow> 0 < k \<and> dt_weekday (business_loop n ?t ?a) < 5" by blast
    have eq: "business_loop n t a = business_loop n ?t ?a"
      using True by (subst business_loop.simps) (simp add: Let_def)
    have "dt_weekday (business_loop n ?t ?a) < 5"
    proof (cases "?a < n")
      case True
      with k(3) show ?thesis by simp
    next
      case False
      then have "dt_weekday ?t < 5" using True by (auto split: if_splits)
      then show ?thesis using False by (simp add: business_loop.simps [of n ?t])
    qed
    then show ?thesis
      using k(1,2) True unfolding eq
      by (intro exI [of _ "Suc k"]) (auto simp: business_days_in_Suc algebra_simps)
  qed
qed

text \<open>
  \<open>add_business_days start n\<close> is a Monday-to-Friday day with the start's time of day,
  and exactly \<open>n\<close> of the days after the start up to it are Monday-to-Friday days.
\<close>

theorem add_business_days_count:
  assumes "1 \<le> n"
  shows "\<exists>k. add_business_days start n = start + int k * day_us \<and>
    int (business_days_in start k) = n \<and>
    dt_weekday (add_business_days start n) < 5 \<and>
    time_of_day (add_business_days start n) = time_of_day start"
proof -
  obtain k where k: "add_business_days start n = start + int k * day_us"
    "int (business_days_in start k) = n" "dt_weekday (add_business_days start n) < 5"
    using business_loop_spec [of 0 n start] assms by (auto simp: add_business_days_def)
  moreover have "time_of_day (add_business_days start n) = time_of_day start"
    unfolding k(1) by simp
  ultimately show ?thesis by blast
qed

text \<open>A Friday at noon (2026-07-17) plus two business days is Tuesday at noon.\<close>

theorem add_business_days_count_witness:
  "dt_weekday (add_business_days (toordinal (Date 2026 7 17) * day_us + 43200000000) 2) < 5"
  using add_business_days_count [of 2 "toordinal (Date 2026 7 17) * day_us + 43200000000"] by auto

lemma add_business_days_ge: "0 \<le> n \<Longrightarrow> start \<le> add_business_days start n"
  using business_loop_spec [of 0 n start] by (auto simp: add_business_days_def)

lemma available_at_snapshot_upper:
  "computed_at \<le> available_at_snapshot computed_at ats"
  "t \<in> set ats \<Longrightarrow> t \<le> available_at_snapshot computed_at ats"
  by (auto simp: available_at_snapshot_def intro: list_max_ge)

lemma compute_stale_after_Some:
  assumes "compute_stale_after computed_at es = Some (d, p, s)"
  shows "s = min d p" "d \<in> set es" "\<And>e. e \<in> set es \<Longrightarrow> s \<le> e"
    "p = add_business_days computed_at 2"
proof -
  obtain x xs where es: "es = x # xs"
    using assms by (cases es) (simp_all add: compute_stale_after_def)
  then have eq: "d = list_min x xs" "p = add_business_days computed_at 2" "s = min d p"
    using assms by (auto simp: compute_stale_after_def Let_def)
  then show "s = min d p" "p = add_business_days computed_at 2" by simp_all
  show "d \<in> set es" unfolding eq es by (rule list_min_in)
  show "s \<le> e" if "e \<in> set es" for e
    using list_min_le [of e x xs] that unfolding eq es by simp
qed

subsection \<open>Confidence\<close>

definition MIN_CANDIDATE_CONFIDENCE :: real where "MIN_CANDIDATE_CONFIDENCE = 70 / 100"
definition MIN_INPUT_COVERAGE :: real where "MIN_INPUT_COVERAGE = 80 / 100"
definition MIN_SOURCE_HEALTH :: real where "MIN_SOURCE_HEALTH = 90 / 100"
definition MIN_UNCERTAINTY_VINTAGES :: nat where "MIN_UNCERTAINTY_VINTAGES = 24"
definition Q_DATA_FLOOR :: real where "Q_DATA_FLOOR = 25 / 100"
definition MAD_SCALE :: real where "MAD_SCALE = 14826 / 10000"

text \<open>\<open>statistics.median\<close> of a nonempty list.\<close>

definition median :: "real list \<Rightarrow> real" where
  "median xs =
     (let data = sort xs; n = length data
      in if n mod 2 = 1 then data ! (n div 2)
         else (data ! (n div 2 - 1) + data ! (n div 2)) / 2)"

definition uncertainty_raw :: "real list \<Rightarrow> real \<Rightarrow> real option" where
  "uncertainty_raw score_history u_floor =
     (let distinct = sort (remdups score_history)
      in if length distinct < MIN_UNCERTAINTY_VINTAGES then None
         else (let med = median distinct;
                   mad = median (map (\<lambda>v. \<bar>v - med\<bar>) distinct)
               in Some (max (MAD_SCALE * mad) u_floor)))"

definition axis_confidence :: "(real \<Rightarrow> real) \<Rightarrow> real \<Rightarrow> real \<Rightarrow> real \<Rightarrow> real \<times> real" where
  "axis_confidence cdf score u_raw q_data =
     (let u_adj = u_raw / max q_data Q_DATA_FLOOR
      in if u_adj \<le> 0 then (1, u_adj) else (cdf (\<bar>score\<bar> / u_adj), u_adj))"

definition coverage_quality :: "(real \<times> bool \<times> real) list \<Rightarrow> real" where
  "coverage_quality items =
     (let total = (\<Sum>(w, valid, cov) \<leftarrow> items. \<bar>w\<bar>)
      in if total \<le> 0 then 0
         else (\<Sum>(w, valid, cov) \<leftarrow> items. \<bar>w\<bar> * (if valid then cov else 0)) / total)"

definition freshness_value :: "datetime \<Rightarrow> datetime \<Rightarrow> datetime \<Rightarrow> real" where
  "freshness_value now soft_deadline hard_deadline =
     (if now \<le> soft_deadline then 1
      else if now \<ge> hard_deadline then 0
      else (let span = hard_deadline - soft_deadline
            in if span \<le> 0 then 0
               else real_of_int (hard_deadline - now) / real_of_int span))"

text \<open>\<open>axis_freshness\<close> and \<open>source_health\<close> have the same body.\<close>

definition axis_freshness :: "(real \<times> real) list \<Rightarrow> real" where
  "axis_freshness items =
     (let total = (\<Sum>(w, f) \<leftarrow> items. \<bar>w\<bar>)
      in if total \<le> 0 then 0 else (\<Sum>(w, f) \<leftarrow> items. \<bar>w\<bar> * f) / total)"

definition source_health :: "(real \<times> real) list \<Rightarrow> real" where
  "source_health items =
     (let total = (\<Sum>(w, h) \<leftarrow> items. \<bar>w\<bar>)
      in if total \<le> 0 then 0 else (\<Sum>(w, h) \<leftarrow> items. \<bar>w\<bar> * h) / total)"

definition resolve_status :: "bool \<Rightarrow> real \<Rightarrow> bool \<Rightarrow> real \<Rightarrow> real \<Rightarrow> bool \<Rightarrow> string" where
  "resolve_status critical_structural_failure coverage critical_source_expired health
     candidate_confidence transition_pending =
     (if critical_structural_failure then ''invalid''
      else if coverage < MIN_INPUT_COVERAGE then ''unavailable''
      else if critical_source_expired then ''stale''
      else if health < MIN_SOURCE_HEALTH then ''low_confidence''
      else if candidate_confidence < MIN_CANDIDATE_CONFIDENCE then ''low_confidence''
      else if transition_pending then ''low_confidence''
      else ''valid'')"

lemma resolve_status_valid:
  "resolve_status f cov x h c p = ''valid'' \<longleftrightarrow>
     \<not> f \<and> MIN_INPUT_COVERAGE \<le> cov \<and> \<not> x \<and> MIN_SOURCE_HEALTH \<le> h \<and>
     MIN_CANDIDATE_CONFIDENCE \<le> c \<and> \<not> p"
  by (auto simp: resolve_status_def)

lemma resolve_status_range:
  "resolve_status f cov x h c p \<in> {''invalid'', ''unavailable'', ''stale'', ''low_confidence'', ''valid''}"
  by (simp add: resolve_status_def)

lemma weighted_mean_bounds:
  fixes items :: "('a \<times> real) list" and w :: "'a \<Rightarrow> real"
  assumes "\<And>a x. (a, x) \<in> set items \<Longrightarrow> lo \<le> x \<and> x \<le> hi" "\<And>a. 0 \<le> w a"
  shows "lo * (\<Sum>(a, x) \<leftarrow> items. w a) \<le> (\<Sum>(a, x) \<leftarrow> items. w a * x)"
    and "(\<Sum>(a, x) \<leftarrow> items. w a * x) \<le> hi * (\<Sum>(a, x) \<leftarrow> items. w a)"
proof -
  show "lo * (\<Sum>(a, x) \<leftarrow> items. w a) \<le> (\<Sum>(a, x) \<leftarrow> items. w a * x)"
    using assms(1)
  proof (induction items)
    case (Cons ax items)
    obtain a x where ax: "ax = (a, x)" by (cases ax)
    have "w a * lo \<le> w a * x" using Cons.prems [of a x] ax assms(2) by (intro mult_left_mono) auto
    moreover have "lo * (\<Sum>(a, x) \<leftarrow> items. w a) \<le> (\<Sum>(a, x) \<leftarrow> items. w a * x)"
      using Cons.prems by (intro Cons.IH) auto
    ultimately show ?case by (simp add: ax algebra_simps)
  qed simp
  show "(\<Sum>(a, x) \<leftarrow> items. w a * x) \<le> hi * (\<Sum>(a, x) \<leftarrow> items. w a)"
    using assms(1)
  proof (induction items)
    case (Cons ax items)
    obtain a x where ax: "ax = (a, x)" by (cases ax)
    have "w a * x \<le> w a * hi" using Cons.prems [of a x] ax assms(2) by (intro mult_left_mono) auto
    moreover have "(\<Sum>(a, x) \<leftarrow> items. w a * x) \<le> hi * (\<Sum>(a, x) \<leftarrow> items. w a)"
      using Cons.prems by (intro Cons.IH) auto
    ultimately show ?case by (simp add: ax algebra_simps)
  qed simp
qed

lemma axis_freshness_range:
  assumes "\<And>w f. (w, f) \<in> set items \<Longrightarrow> 0 \<le> f \<and> f \<le> 1"
  shows "0 \<le> axis_freshness items" and "axis_freshness items \<le> 1"
  using weighted_mean_bounds [of items 0 1 abs] assms
  by (auto simp: axis_freshness_def Let_def divide_le_eq_1 zero_le_divide_iff)

lemma freshness_value_range: "0 \<le> freshness_value t s h" "freshness_value t s h \<le> 1"
  by (auto simp: freshness_value_def Let_def divide_le_eq_1)

lemma freshness_value_antimono: "t \<le> t' \<Longrightarrow> freshness_value t' s h \<le> freshness_value t s h"
  by (auto simp: freshness_value_def Let_def divide_le_eq_1 divide_right_mono)

text \<open>
  The freshness of an axis decays and never recovers on its own. With the deadlines of
  its sources fixed, letting time pass can only lower the |w|-weighted freshness, which
  stays between 0 and 1; it is 1 while no source has passed its soft deadline (and some
  weight is nonzero).
\<close>

theorem axis_freshness_decays:
  assumes "now \<le> later"
  shows "let fresh = (\<lambda>t. axis_freshness (map (\<lambda>(w, s, h). (w, freshness_value t s h)) sources)) in
    0 \<le> fresh later \<and> fresh later \<le> fresh now \<and> fresh now \<le> 1 \<and>
    ((\<forall>(w, s, h) \<in> set sources. now \<le> s) \<and> (\<exists>(w, s, h) \<in> set sources. w \<noteq> 0) \<longrightarrow> fresh now = 1)"
proof -
  let ?items = "\<lambda>t. map (\<lambda>(w, s, h). (w, freshness_value t s h)) sources"
  let ?tot = "\<Sum>(w, s, h) \<leftarrow> sources. \<bar>w\<bar>"
  have tot: "(\<Sum>(w, f) \<leftarrow> ?items t. \<bar>w\<bar>) = ?tot" for t
    by (induction sources) auto
  have num: "(\<Sum>(w, f) \<leftarrow> ?items later. \<bar>w\<bar> * f) \<le> (\<Sum>(w, f) \<leftarrow> ?items now. \<bar>w\<bar> * f)"
    by (induction sources)
      (auto intro!: add_mono mult_left_mono freshness_value_antimono [OF assms])
  have mono: "axis_freshness (?items later) \<le> axis_freshness (?items now)"
    using num unfolding axis_freshness_def Let_def tot
    by (auto simp del: map_map intro: divide_right_mono)
  have range: "0 \<le> axis_freshness (?items t)" "axis_freshness (?items t) \<le> 1" for t
    by (rule axis_freshness_range; auto simp: freshness_value_range)+
  have one: "axis_freshness (?items now) = 1"
    if "\<forall>(w, s, h) \<in> set sources. now \<le> s" "\<exists>(w, s, h) \<in> set sources. w \<noteq> 0"
  proof -
    have "(\<Sum>(w, f) \<leftarrow> ?items now. \<bar>w\<bar> * f) = ?tot"
      using that(1) by (induction sources) (auto simp: freshness_value_def)
    moreover have "0 < ?tot"
    proof -
      note some = that(2)
      have nn: "0 \<le> (\<Sum>(w, s, h) \<leftarrow> xs. \<bar>w\<bar>)" for xs :: "(real \<times> int \<times> int) list"
        by (induction xs) auto
      have ge: "\<bar>w\<bar> \<le> (\<Sum>(w, s, h) \<leftarrow> xs. \<bar>w\<bar>)"
        if "(w, s, h) \<in> set xs" for w s h and xs :: "(real \<times> int \<times> int) list"
        using that
      proof (induction xs)
        case (Cons x xs)
        obtain v r g where x: "x = (v, r, g)" by (cases x)
        show ?case
        proof (cases "(w, s, h) = x")
          case True
          then show ?thesis using nn [of xs] x by (simp add: case_prod_beta')
        next
          case False
          then have "(w, s, h) \<in> set xs" using Cons.prems by simp
          then have "\<bar>w\<bar> \<le> (\<Sum>(w, s, h) \<leftarrow> xs. \<bar>w\<bar>)" by (rule Cons.IH)
          then show ?thesis using x by (simp add: add_increasing case_prod_beta')
        qed
      qed simp
      obtain w s h where "(w, s, h) \<in> set sources" "w \<noteq> 0" using some by auto
      with ge [of w s h sources] show ?thesis by simp
    qed
    ultimately show ?thesis unfolding axis_freshness_def Let_def tot by simp
  qed
  show ?thesis unfolding Let_def using mono range one by blast
qed

theorem axis_freshness_decays_witness:
  "axis_freshness (map (\<lambda>(w, s, h). (w, freshness_value 15 s h)) [(1, 10, 20)])
     \<le> axis_freshness (map (\<lambda>(w, s, h). (w, freshness_value 5 s h)) [(1, 10, 20)]) \<and>
   axis_freshness (map (\<lambda>(w, s, h). (w, freshness_value 5 s h)) [(1, 10, 20)]) = 1"
  using axis_freshness_decays [of 5 15 "[(1, 10, 20)]"] by (simp add: Let_def)

end
