(* ===== verification/Macro_Score.thy ===== *)
theory Macro_Score
  imports Quadrant_Axis "HOL-Library.Multiset" "HOL-Library.Char_ord" "HOL-Library.List_Lexorder"
begin

text \<open>
  From point-in-time vintages to an axis score: \<open>src/macro_pit.py\<close>,
  \<open>src/macro_transforms.py\<close>, \<open>src/quadrant_score.py\<close>, \<open>src/macro_sources.py\<close> and the
  scoring functions of \<open>src/workers/quadrant_macro.py\<close>. A series is an insertion-ordered
  dictionary from observation periods to values. Reals stand for floats, \<open>ln\<close> for
  \<open>math.log\<close>, which the code only applies to positive numbers.
\<close>

subsection \<open>Point-in-time reads\<close>

record vintage =
  v_series :: string
  v_period :: date
  v_value :: real
  v_available_at :: datetime

text \<open>
  \<open>DISTINCT ON (series_id, observation_period) ... ORDER BY ..., available_at DESC\<close>: of the
  rows of one period, the one that became available last. The query leaves the choice
  among equally late rows open; the model takes the first one stored.
\<close>

fun newest_vintage :: "vintage \<Rightarrow> vintage list \<Rightarrow> vintage" where
  "newest_vintage v [] = v"
| "newest_vintage v (w # ws) =
     newest_vintage (if v_available_at v < v_available_at w then w else v) ws"

definition pit_series :: "vintage list \<Rightarrow> string \<Rightarrow> datetime \<Rightarrow> (date, real) dict" where
  "pit_series rows sid decision_time =
     (let known = filter (\<lambda>v. v_series v = sid \<and> v_available_at v \<le> decision_time) rows
      in map (\<lambda>p. (p, case filter (\<lambda>v. v_period v = p) known of
                         v # vs \<Rightarrow> v_value (newest_vintage v vs)
                       | [] \<Rightarrow> 0))
           (sort (remdups (map v_period known))))"

definition latest_vintage_as_of ::
  "vintage list \<Rightarrow> string list \<Rightarrow> datetime \<Rightarrow> (string, (date, real) dict) dict" where
  "latest_vintage_as_of rows series_ids decision_time =
     dict_update [] (map (\<lambda>sid. (sid, pit_series rows sid decision_time)) series_ids)"

lemma newest_vintage_in: "newest_vintage v vs \<in> set (v # vs)"
proof (induction vs arbitrary: v)
  case (Cons w ws)
  show ?case using Cons.IH [of "if v_available_at v < v_available_at w then w else v"]
    by (auto split: if_splits)
qed simp

lemma newest_vintage_max: "w \<in> set (v # vs) \<Longrightarrow> v_available_at w \<le> v_available_at (newest_vintage v vs)"
proof (induction vs arbitrary: v w)
  case (Cons u us)
  let ?m = "if v_available_at v < v_available_at u then u else v"
  have "v_available_at ?m \<le> v_available_at (newest_vintage ?m us)" by (rule Cons.IH) simp
  then show ?case using Cons.prems Cons.IH [of w ?m] by (auto split: if_splits)
qed simp

lemma dict_get_map_pair:
  "dict_get (map (\<lambda>p. (p, f p)) ps) p = (if p \<in> set ps then Some (f p) else None)"
  by (induction ps) auto

definition known_rows :: "vintage list \<Rightarrow> string \<Rightarrow> datetime \<Rightarrow> date \<Rightarrow> vintage list" where
  "known_rows rows sid t p =
     filter (\<lambda>v. v_period v = p) (filter (\<lambda>v. v_series v = sid \<and> v_available_at v \<le> t) rows)"

lemma known_rows_iff:
  "v \<in> set (known_rows rows sid t p) \<longleftrightarrow>
     v \<in> set rows \<and> v_series v = sid \<and> v_period v = p \<and> v_available_at v \<le> t"
  by (auto simp: known_rows_def)

lemma dict_get_pit:
  "dict_get (pit_series rows sid t) p =
     (case known_rows rows sid t p of
        [] \<Rightarrow> None
      | v # vs \<Rightarrow> Some (v_value (newest_vintage v vs)))"
proof -
  have mem: "p \<in> v_period ` set (filter (\<lambda>v. v_series v = sid \<and> v_available_at v \<le> t) rows)
      \<longleftrightarrow> known_rows rows sid t p \<noteq> []"
    unfolding known_rows_def by (auto simp: filter_empty_conv)
  show ?thesis
    unfolding pit_series_def Let_def dict_get_map_pair set_sort set_remdups set_map mem
    by (cases "known_rows rows sid t p") (simp_all add: known_rows_def)
qed

lemma pit_None_iff:
  "dict_get (pit_series rows sid t) p = None \<longleftrightarrow> known_rows rows sid t p = []"
  by (simp add: dict_get_pit split: list.split)

lemma pit_SomeD:
  assumes "dict_get (pit_series rows sid t) p = Some x"
  shows "\<exists>v \<in> set (known_rows rows sid t p). v_value v = x \<and>
    (\<forall>w \<in> set (known_rows rows sid t p). v_available_at w \<le> v_available_at v)"
proof -
  obtain v vs where k: "known_rows rows sid t p = v # vs"
    using assms by (cases "known_rows rows sid t p") (simp_all add: dict_get_pit)
  then have "v_value (newest_vintage v vs) = x" using assms by (simp add: dict_get_pit)
  then show ?thesis
    using newest_vintage_in [of v vs] newest_vintage_max [of _ v vs] k by metis
qed

lemma pit_series_dict [simp]: "dict_ok (pit_series rows sid t)"
  by (simp add: pit_series_def Let_def o_def)

lemma pit_series_known:
  "pit_series (filter (\<lambda>v. v_available_at v \<le> horizon) rows) sid t = pit_series rows sid t"
  if "t \<le> horizon"
proof -
  have "filter (\<lambda>v. v_series v = sid \<and> v_available_at v \<le> t)
          (filter (\<lambda>v. v_available_at v \<le> horizon) rows)
      = filter (\<lambda>v. v_series v = sid \<and> v_available_at v \<le> t) rows"
    using that by (induction rows) auto
  then show ?thesis by (simp add: pit_series_def)
qed

lemma latest_vintage_known:
  "t \<le> horizon \<Longrightarrow>
   latest_vintage_as_of (filter (\<lambda>v. v_available_at v \<le> horizon) rows) ids t
     = latest_vintage_as_of rows ids t"
  by (simp add: latest_vintage_as_of_def pit_series_known)

subsection \<open>Economic transforms\<close>

definition Z_CLIP :: real where "Z_CLIP = 4"

function month_wrap :: "int \<Rightarrow> int \<Rightarrow> int \<times> int" where
  "month_wrap y m = (if m \<le> 0 then month_wrap (y - 1) (m + 12) else (y, m))"
  by pat_completeness auto
termination by (relation "measure (\<lambda>(y, m). nat (1 - m))") auto

declare month_wrap.simps [simp del]

text \<open>\<open>None\<close> inside the result is the code's None, \<open>Inl ValueError\<close> a date before year 1.\<close>

definition shift_months :: "date list \<Rightarrow> nat \<Rightarrow> int \<Rightarrow> py_error + date option" where
  "shift_months periods idx back =
     (let target = periods ! idx;
          (y, m) = month_wrap (year target) (month target - back)
      in case mk_date y m 1 of
           None \<Rightarrow> Inl ValueError
         | Some cand \<Rightarrow> Inr (if cand \<in> set periods then Some cand else None))"

text \<open>
  The loop every branch of \<open>economic_transform\<close> runs: the periods in order, a period
  without a value dropped. \<open>f i t\<close> is the body for the period \<open>t\<close> at index \<open>i\<close>.
\<close>

definition transform_loop ::
  "(nat \<Rightarrow> date \<Rightarrow> py_error + real option) \<Rightarrow> date list \<Rightarrow> py_error + (date, real) dict" where
  "transform_loop f periods =
     bindE (mapE (\<lambda>(i, t). bindE (f i t) (\<lambda>v. Inr (t, v))) (enumerate 0 periods))
       (\<lambda>ps. Inr (concat (map (\<lambda>(t, v). case v of None \<Rightarrow> [] | Some x \<Rightarrow> [(t, x)]) ps)))"

text \<open>\<open>series[p]\<close> for a period \<open>p\<close> of the series: every period looked up below is a key.\<close>

abbreviation value_at :: "(date, real) dict \<Rightarrow> date \<Rightarrow> real" where
  "value_at series p \<equiv> dict_get_default series p 0"

definition mean3 :: "(date, real) dict \<Rightarrow> date list \<Rightarrow> nat \<Rightarrow> real" where
  "mean3 series periods i =
     (value_at series (periods ! (i - 2)) + value_at series (periods ! (i - 1))
      + value_at series (periods ! i)) / 3"

definition log_3m3m_ann :: "(date, real) dict \<Rightarrow> date list \<Rightarrow> nat \<Rightarrow> date \<Rightarrow> py_error + real option" where
  "log_3m3m_ann series periods i t =
     (if i < 5 then Inr None
      else (let mr = mean3 series periods i; mp = mean3 series periods (i - 3)
            in Inr (if mr > 0 \<and> mp > 0 then Some (4 * (ln mr - ln mp)) else None)))"

definition log_qoq_saar :: "(date, real) dict \<Rightarrow> date list \<Rightarrow> nat \<Rightarrow> date \<Rightarrow> py_error + real option" where
  "log_qoq_saar series periods i t =
     bindE (shift_months periods i 3) (\<lambda>prev. case prev of
       None \<Rightarrow> Inr None
     | Some p \<Rightarrow>
         (let xt = value_at series t; xp = value_at series p
          in Inr (if xt > 0 \<and> xp > 0 then Some (4 * (ln xt - ln xp)) else None)))"

definition mean3_gap_neutral ::
  "real \<Rightarrow> (date, real) dict \<Rightarrow> date list \<Rightarrow> nat \<Rightarrow> date \<Rightarrow> py_error + real option" where
  "mean3_gap_neutral neutral_level series periods i t =
     Inr (if i < 2 then None else Some (mean3 series periods i - neutral_level))"

definition delta_3m_level :: "(date, real) dict \<Rightarrow> date list \<Rightarrow> nat \<Rightarrow> date \<Rightarrow> py_error + real option" where
  "delta_3m_level series periods i t =
     bindE (shift_months periods i 3) (\<lambda>prev. Inr (case prev of
       None \<Rightarrow> None
     | Some p \<Rightarrow> Some (value_at series t - value_at series p)))"

definition yoy_change :: "(date, real) dict \<Rightarrow> date list \<Rightarrow> nat \<Rightarrow> date \<Rightarrow> py_error + real option" where
  "yoy_change series periods i t =
     bindE (shift_months periods i 12) (\<lambda>prev12. Inr (case prev12 of
       None \<Rightarrow> None
     | Some p \<Rightarrow> if value_at series p \<noteq> 0
                 then Some (value_at series t / value_at series p - 1) else None))"

definition delta_3m_yoy :: "(date, real) dict \<Rightarrow> date list \<Rightarrow> nat \<Rightarrow> date \<Rightarrow> py_error + real option" where
  "delta_3m_yoy yoy yperiods i t =
     Inr (if i \<ge> 3 then Some (value_at yoy t - value_at yoy (yperiods ! (i - 3))) else None)"

definition ann3m_minus_yoy :: "(date, real) dict \<Rightarrow> date list \<Rightarrow> nat \<Rightarrow> date \<Rightarrow> py_error + real option" where
  "ann3m_minus_yoy series periods i t =
     bindE (shift_months periods i 3) (\<lambda>p3. bindE (shift_months periods i 12) (\<lambda>p12.
       case (p3, p12) of
         (Some q3, Some q12) \<Rightarrow>
           (let xt = value_at series t; x3 = value_at series q3; x12 = value_at series q12
            in Inr (if xt > 0 \<and> x3 > 0 \<and> x12 > 0
                    then Some (4 * (ln xt - ln x3) - (ln xt - ln x12)) else None))
       | _ \<Rightarrow> Inr None))"

definition economic_transform ::
  "string \<Rightarrow> (date, real) dict \<Rightarrow> real option \<Rightarrow> py_error + (date, real) dict" where
  "economic_transform transform_id series neutral_level =
     (let periods = sort (dict_keys series)
      in if transform_id = ''log_3m3m_ann_v1'' then
           transform_loop (log_3m3m_ann series periods) periods
         else if transform_id = ''log_qoq_saar_v1'' then
           transform_loop (log_qoq_saar series periods) periods
         else if transform_id = ''mean3_gap_neutral_v1'' then
           (case neutral_level of
              None \<Rightarrow> Inl ValueError
            | Some nl \<Rightarrow> transform_loop (mean3_gap_neutral nl series periods) periods)
         else if transform_id = ''delta_3m_level_v1'' then
           transform_loop (delta_3m_level series periods) periods
         else if transform_id = ''delta_3m_yoy_v1'' then
           bindE (transform_loop (yoy_change series periods) periods)
             (\<lambda>yoy. let yperiods = sort (dict_keys yoy)
                     in transform_loop (delta_3m_yoy yoy yperiods) yperiods)
         else if transform_id = ''ann3m_minus_yoy_v1'' then
           transform_loop (ann3m_minus_yoy series periods) periods
         else Inl ValueError)"

subsection \<open>Standardization\<close>

definition robust_z :: "real list \<Rightarrow> real option" where
  "robust_z values =
     (if length values < 2 then None
      else (let med = median values;
                mad = median (map (\<lambda>v. \<bar>v - med\<bar>) values)
            in if mad > 0 then Some (MAD_SCALE * mad) else None))"

definition standardize :: "string \<Rightarrow> real list \<Rightarrow> real \<Rightarrow> py_error + real option" where
  "standardize standardizer_id history_distinct current =
     (if standardizer_id \<noteq> ''robust_z_10y_distinct_vintages_v1'' then Inl ValueError
      else (let distinct = sort (remdups history_distinct)
            in case robust_z distinct of
                 None \<Rightarrow> Inr None
               | Some scale \<Rightarrow>
                   (let med = median distinct; z = (current - med) / scale
                    in Inr (Some (max (- Z_CLIP) (min Z_CLIP z))))))"

subsection \<open>The source registry\<close>

record macro_source_spec =
  source_id :: string
  series_id :: string
  axis :: string
  family :: string
  economic_transform_id :: string
  standardizer_id :: string
  direction :: int
  neutral_level :: "real option"
  weight :: real
  cadence :: string
  release_calendar_id :: "string option"
  revision_policy :: string
  grace_period :: timedelta
  hard_max_age :: timedelta
  critical :: bool
  minimum_valid_observations :: int
  source_spec_version :: string

definition STD_ID :: string where "STD_ID = ''robust_z_10y_distinct_vintages_v1''"

text \<open>The helper \<open>_macro\<close> with its defaults: no call of the registry overrides them.\<close>

definition macro_spec :: "string \<Rightarrow> string \<Rightarrow> string \<Rightarrow> real \<Rightarrow> string \<Rightarrow> macro_source_spec" where
  "macro_spec sid ax fam w econ =
     \<lparr> source_id = ''alfred:'' @ sid, series_id = sid, axis = ax, family = fam,
       economic_transform_id = econ, standardizer_id = STD_ID,
       direction = 1, neutral_level = None, weight = w,
       cadence = ''monthly'', release_calendar_id = None, revision_policy = ''vintage'',
       grace_period = 7 * day_us, hard_max_age = 45 * day_us,
       critical = True, minimum_valid_observations = 24,
       source_spec_version = ''macro_quadrant_us_v1.0'' \<rparr>"

definition SEED_SOURCES :: "macro_source_spec list" where
  "SEED_SOURCES =
     [macro_spec ''INDPRO'' ''growth'' ''activity_production'' (25/100) ''log_3m3m_ann_v1'',
      macro_spec ''PCEC96'' ''growth'' ''real_consumption'' (25/100) ''log_3m3m_ann_v1'',
      macro_spec ''PAYEMS'' ''growth'' ''labor'' (25/100) ''log_3m3m_ann_v1'',
      macro_spec ''ACOGNO'' ''growth'' ''new_orders_leading'' (25/100) ''log_3m3m_ann_v1'',
      macro_spec ''CPILFESL'' ''inflation'' ''core_inflation'' (30/100) ''ann3m_minus_yoy_v1'',
      macro_spec ''PPIFIS'' ''inflation'' ''upstream_prices'' (25/100) ''ann3m_minus_yoy_v1'',
      macro_spec ''AHETPI'' ''inflation'' ''wages'' (25/100) ''ann3m_minus_yoy_v1'',
      macro_spec ''MICH'' ''inflation'' ''inflation_expectations'' (20/100) ''delta_3m_level_v1'']"

definition axis_specs :: "string \<Rightarrow> macro_source_spec list" where
  "axis_specs ax = filter (\<lambda>s. axis s = ax) SEED_SOURCES"

definition axis_weights :: "string \<Rightarrow> py_error + (string, real) dict" where
  "axis_weights ax =
     (let specs = axis_specs ax;
          total = (\<Sum>s \<leftarrow> specs. \<bar>weight s\<bar>)
      in if total \<le> 0 then Inl ValueError
         else Inr (dict_update [] (map (\<lambda>s. (series_id s, weight s / total)) specs)))"

subsection \<open>Axis scores\<close>

definition standardization_window ::
  "(date, real) dict \<Rightarrow> date \<Rightarrow> int \<Rightarrow> py_error + date list" where
  "standardization_window transformed as_of window_years =
     (case mk_date (year as_of - window_years) (month as_of) 1 of
        None \<Rightarrow> Inl ValueError
      | Some cutoff \<Rightarrow> Inr (filter (\<lambda>p. cutoff \<le> p \<and> p \<le> as_of) (dict_keys transformed)))"

definition standardized_latest ::
  "macro_source_spec \<Rightarrow> (date, real) dict \<Rightarrow> date \<Rightarrow> int \<Rightarrow> py_error + real option" where
  "standardized_latest spec series as_of window_years =
     bindE (economic_transform (economic_transform_id spec) series (neutral_level spec))
       (\<lambda>transformed. bindE (standardization_window transformed as_of window_years)
         (\<lambda>eligible. case eligible of
            [] \<Rightarrow> Inr None
          | e # es \<Rightarrow>
              (let latest_period = list_max e es;
                   history = map (value_at transformed) eligible
               in standardize (standardizer_id spec) history (value_at transformed latest_period))))"

text \<open>The available series with their z and weight, as the comprehension keeps them.\<close>

definition available_series ::
  "(string, real) dict \<Rightarrow> (string, real option) dict \<Rightarrow> (string \<times> real \<times> real) list" where
  "available_series weights z_by_series =
     concat (map (\<lambda>(sid, z). case (z, dict_get weights sid) of
       (Some x, Some w) \<Rightarrow> [(sid, x, w)] | _ \<Rightarrow> []) z_by_series)"

text \<open>
  \<open>axis_score\<close>: \<open>available\<close> keeps the series with a z and a weight, in the order of
  \<open>z_by_series\<close>; the loop accumulates the score in that order.
\<close>

definition axis_score ::
  "(string, real) dict \<Rightarrow> (string, real option) dict \<Rightarrow> real option \<times> (string, real) dict" where
  "axis_score weights z_by_series =
     (let available = available_series weights z_by_series;
          total = (\<Sum>(sid, x, w) \<leftarrow> available. \<bar>w\<bar>)
      in if total \<le> 0 then (None, [])
         else (let (score, contributions) =
                 fold (\<lambda>(sid, x, w) (score, contribs).
                         let contrib = (w / total) * x
                         in (score + contrib, dict_set sid contrib contribs))
                   available (0, [])
               in (Some score, contributions)))"

subsection \<open>Units do not matter\<close>

lemma sort_map_strict_mono:
  fixes f :: "'a::linorder \<Rightarrow> 'b::linorder"
  assumes "strict_mono f"
  shows "sort (map f xs) = map f (sort xs)"
proof (rule properties_for_sort)
  show "mset (map f (sort xs)) = mset (map f xs)" by simp
  show "sorted (map f (sort xs))"
    using assms by (auto simp: sorted_map strict_mono_less_eq intro: sorted_wrt_mono_rel [of _ "(\<le>)"])
qed

lemma strict_mono_affine: "0 < a \<Longrightarrow> strict_mono (\<lambda>x::real. a * x + b)"
  by (rule strict_monoI) simp

lemma median_affine:
  assumes "0 < a" "xs \<noteq> []"
  shows "median (map (\<lambda>x. a * x + b) xs) = a * median xs + b"
proof -
  have "0 < length xs" using assms by simp
  then have "length xs div 2 < length xs" "length xs div 2 - 1 < length xs" by linarith+
  then show ?thesis
    unfolding median_def Let_def sort_map_strict_mono [OF strict_mono_affine [OF assms(1)]]
    by (simp add: add_divide_distrib distrib_left)
qed

lemma sort_remdups_affine:
  fixes a b :: real
  assumes "0 < a"
  shows "sort (remdups (map (\<lambda>x. a * x + b) xs)) = map (\<lambda>x. a * x + b) (sort (remdups xs))"
proof -
  have "remdups (map (\<lambda>x. a * x + b) xs) = map (\<lambda>x. a * x + b) (remdups xs)"
    using assms by (induction xs) auto
  then show ?thesis by (simp add: sort_map_strict_mono [OF strict_mono_affine [OF assms]])
qed

lemma robust_z_affine:
  assumes "0 < a"
  shows "robust_z (map (\<lambda>x. a * x + b) xs) = map_option (\<lambda>s. a * s) (robust_z xs)"
proof (cases "length xs < 2")
  case False
  then have ne: "xs \<noteq> []" by auto
  let ?dev = "map (\<lambda>v. \<bar>v - median xs\<bar>) xs"
  have "map (\<lambda>v. \<bar>v - median (map (\<lambda>x. a * x + b) xs)\<bar>) (map (\<lambda>x. a * x + b) xs)
      = map (\<lambda>x. a * x + 0) ?dev"
  proof -
    have "\<bar>a * v + b - (a * median xs + b)\<bar> = a * \<bar>v - median xs\<bar>" for v
      using assms by (simp add: abs_mult flip: right_diff_distrib)
    then show ?thesis by (simp add: median_affine [OF assms ne])
  qed
  moreover have "median (map (\<lambda>x. a * x + 0) ?dev) = a * median ?dev + 0"
    by (rule median_affine) (use assms ne in simp_all)
  ultimately have "median (map (\<lambda>v. \<bar>v - median (map (\<lambda>x. a * x + b) xs)\<bar>) (map (\<lambda>x. a * x + b) xs))
      = a * median ?dev"
    by (simp only: add_0_right)
  then show ?thesis
    using False assms by (simp add: robust_z_def Let_def zero_less_mult_iff)
qed (simp add: robust_z_def)

lemma robust_z_pos: "robust_z xs = Some s \<Longrightarrow> 0 < s \<and> xs \<noteq> []"
  by (auto simp: robust_z_def Let_def MAD_SCALE_def split: if_splits)

lemma standardize_affine:
  assumes "0 < a"
  shows "standardize sid (map (\<lambda>x. a * x + b) h) (a * cur + b) = standardize sid h cur"
proof (cases "robust_z (sort (remdups h))")
  case None
  then show ?thesis by (simp add: standardize_def sort_remdups_affine [OF assms] robust_z_affine [OF assms])
next
  case (Some s)
  note p = robust_z_pos [OF Some]
  have "(a * cur + b - (a * median (sort (remdups h)) + b)) / (a * s)
      = (cur - median (sort (remdups h))) / s"
    using assms p by (simp add: field_simps)
  then show ?thesis
    using Some p assms
    by (simp add: standardize_def sort_remdups_affine [OF assms] robust_z_affine [OF assms]
      median_affine [OF assms] Let_def)
qed

lemma standardize_range:
  "standardize sid h cur = Inr (Some z) \<Longrightarrow> \<bar>z\<bar> \<le> 4"
  by (auto simp: standardize_def Let_def Z_CLIP_def split: if_splits option.splits)

definition rescale :: "real \<Rightarrow> ('k, real) dict \<Rightarrow> ('k, real) dict" where
  "rescale c series = map (\<lambda>(p, x). (p, c * x)) series"

lemma keys_rescale [simp]: "dict_keys (rescale c series) = dict_keys series"
  by (simp add: rescale_def case_prod_beta')

lemma value_at_rescale [simp]:
  "dict_get_default (rescale c series) p 0 = c * dict_get_default series p (0::real)"
proof -
  have "dict_get (rescale c series) p = map_option ((*) c) (dict_get series p)"
    by (induction series) (auto simp: rescale_def)
  then show ?thesis by (simp add: dict_get_default_def split: option.split)
qed

lemma mean3_rescale: "mean3 (rescale c series) periods i = c * mean3 series periods i"
  by (simp add: mean3_def algebra_simps)

text \<open>Each log transform is unchanged, the level difference is multiplied.\<close>

lemma transforms_rescale:
  assumes "0 < c"
  shows "log_3m3m_ann (rescale c series) = log_3m3m_ann series"
    and "log_qoq_saar (rescale c series) = log_qoq_saar series"
    and "yoy_change (rescale c series) = yoy_change series"
    and "ann3m_minus_yoy (rescale c series) = ann3m_minus_yoy series"
    and "delta_3m_level (rescale c series) periods i t
      = bindE (delta_3m_level series periods i t) (\<lambda>v. Inr (map_option ((*) c) v))"
  using assms
  by (auto simp: fun_eq_iff log_3m3m_ann_def log_qoq_saar_def yoy_change_def ann3m_minus_yoy_def
      delta_3m_level_def mean3_rescale bindE_def ln_mult zero_less_mult_iff Let_def right_diff_distrib
      split: sum.split option.split)

lemma transform_loop_map:
  assumes "\<And>i t. g i t = bindE (f i t) (\<lambda>v. Inr (map_option ((*) c) v))"
  shows "transform_loop g periods = bindE (transform_loop f periods) (\<lambda>d. Inr (rescale c d))"
proof -
  have "transform_loop g periods = bindE (transform_loop f periods) (\<lambda>d. Inr (rescale c d))" for periods
  proof -
    have "bindE (mapE (\<lambda>(i, t). bindE (g i t) (\<lambda>v. Inr (t, v))) its) (\<lambda>ps.
            Inr (concat (map (\<lambda>(t, v). case v of None \<Rightarrow> [] | Some x \<Rightarrow> [(t, x)]) ps)))
        = bindE (bindE (mapE (\<lambda>(i, t). bindE (f i t) (\<lambda>v. Inr (t, v))) its) (\<lambda>ps.
            Inr (concat (map (\<lambda>(t, v). case v of None \<Rightarrow> [] | Some x \<Rightarrow> [(t, x)]) ps))))
          (\<lambda>d. Inr (rescale c d))" for its
    proof (induction its)
      case (Cons it its)
      obtain i t where it: "it = (i, t)" by (cases it)
      show ?case using Cons.IH
        by (auto simp: it assms bindE_def rescale_def split: sum.splits option.splits)
    qed (simp add: rescale_def)
    then show ?thesis by (simp add: transform_loop_def)
  qed
  then show ?thesis .
qed

definition unit_free :: "string set" where
  "unit_free = {''log_3m3m_ann_v1'', ''log_qoq_saar_v1'', ''delta_3m_level_v1'',
     ''delta_3m_yoy_v1'', ''ann3m_minus_yoy_v1''}"

lemma economic_transform_rescale:
  assumes "0 < c" "tid \<in> unit_free"
  shows "\<exists>a > 0. economic_transform tid (rescale c series) nl
    = bindE (economic_transform tid series nl) (\<lambda>d. Inr (rescale a d))"
proof (cases "tid = ''delta_3m_level_v1''")
  case True
  have "transform_loop (delta_3m_level (rescale c series) ps) qs
      = bindE (transform_loop (delta_3m_level series ps) qs) (\<lambda>d. Inr (rescale c d))" for ps qs
    by (rule transform_loop_map) (rule transforms_rescale(5) [OF assms(1)])
  then show ?thesis
    using True assms(1) by (intro exI [of _ c]) (simp add: economic_transform_def Let_def)
next
  case False
  have one: "rescale 1 d = d" for d :: "(date, real) dict" by (simp add: rescale_def)
  have "bindE r (\<lambda>d. Inr (rescale 1 d)) = r" for r :: "py_error + (date, real) dict"
    by (cases r) (simp_all add: one)
  then show ?thesis
    using False assms
    by (intro exI [of _ 1])
      (auto simp: unit_free_def economic_transform_def Let_def transforms_rescale)
qed

lemma standardized_latest_rescale:
  assumes "0 < c" "economic_transform_id spec \<in> unit_free"
  shows "standardized_latest spec (rescale c series) as_of w = standardized_latest spec series as_of w"
proof -
  obtain a where a: "0 < a" and eq: "economic_transform (economic_transform_id spec) (rescale c series) (neutral_level spec)
    = bindE (economic_transform (economic_transform_id spec) series (neutral_level spec))
        (\<lambda>d. Inr (rescale a d))"
    using economic_transform_rescale [OF assms] by blast
  have st: "standardize sid (map (\<lambda>p. a * f p) ps) (a * x) = standardize sid (map f ps) x"
    for sid x ps and f :: "date \<Rightarrow> real"
    using standardize_affine [OF a, of sid 0 "map f ps" x] by (simp add: o_def)
  have st': "standardize sid (a * y # map (\<lambda>p. a * f p) ps) (a * x) = standardize sid (y # map f ps) x"
    for sid x y ps and f :: "date \<Rightarrow> real"
    using standardize_affine [OF a, of sid 0 "y # map f ps" x] by (simp add: o_def)
  show ?thesis
    unfolding standardized_latest_def eq
    by (auto simp: bindE_def standardization_window_def Let_def st' split: sum.split option.split list.split)
qed

text \<open>
  The z-score of a macro series does not depend on its unit or base year. Multiplying
  every value of the series by one positive factor leaves \<open>standardized_latest\<close> unchanged,
  errors and missing values included, for every seed source and for all transforms except
  the gap to a fixed neutral level.
\<close>

theorem standardized_latest_unit_free:
  assumes "0 < c" "economic_transform_id spec \<in> unit_free \<or> spec \<in> set SEED_SOURCES"
  shows "standardized_latest spec (rescale c series) as_of window_years
    = standardized_latest spec series as_of window_years"
proof -
  have "economic_transform_id spec \<in> unit_free"
    using assms(2) by (auto simp: SEED_SOURCES_def macro_spec_def unit_free_def)
  then show ?thesis by (rule standardized_latest_rescale [OF assms(1)])
qed

theorem standardized_latest_unit_free_witness:
  "standardized_latest (macro_spec ''MICH'' ''inflation'' ''x'' 1 ''delta_3m_level_v1'')
     (rescale 100 [(Date 2024 1 1, 3), (Date 2024 4 1, 4), (Date 2024 7 1, 4)]) (Date 2024 7 15) 10
   = standardized_latest (macro_spec ''MICH'' ''inflation'' ''x'' 1 ''delta_3m_level_v1'')
     [(Date 2024 1 1, 3), (Date 2024 4 1, 4), (Date 2024 7 1, 4)] (Date 2024 7 15) 10"
  by (rule standardized_latest_unit_free) (simp_all add: macro_spec_def unit_free_def)

subsection \<open>The weighted score\<close>

lemma available_series_mem:
  "(sid, x, w) \<in> set (available_series weights zs) \<longleftrightarrow>
     (sid, Some x) \<in> set zs \<and> dict_get weights sid = Some w"
  by (force simp: available_series_def split: option.splits)

lemma available_series_distinct:
  "dict_ok zs \<Longrightarrow> distinct (map fst (available_series weights zs))"
proof (induction zs)
  case (Cons sz zs)
  then show ?case
    by (cases sz)
      (auto simp: available_series_def image_iff split: option.splits prod.splits; force)
qed (simp add: available_series_def)

lemma score_fold:
  fixes total :: real
  assumes "distinct (map fst av)" "\<And>sid. sid \<in> fst ` set av \<Longrightarrow> sid \<notin> fst ` set cs"
  shows "fold (\<lambda>(sid, x, w) (score, contribs).
            let contrib = (w / total) * x in (score + contrib, dict_set sid contrib contribs)) av (s, cs)
    = (s + (\<Sum>(sid, x, w) \<leftarrow> av. (w / total) * x), cs @ map (\<lambda>(sid, x, w). (sid, (w / total) * x)) av)"
  using assms
proof (induction av arbitrary: s cs)
  case (Cons a av)
  obtain sid x w where a: "a = (sid, x, w)" by (cases a)
  have new: "dict_set k v cs = cs @ [(k, v)]" if "k \<notin> fst ` set cs" for k and v :: real
    using that by (induction cs) auto
  have "sid \<notin> fst ` set cs" using Cons.prems a by auto
  then show ?case
    using Cons.IH [of "cs @ [(sid, w / total * x)]" "s + w / total * x"] Cons.prems
    by (force simp: a Let_def new)
qed simp

lemma axis_score_eq:
  assumes "dict_ok zs"
  shows "axis_score weights zs =
    (let av = available_series weights zs; total = (\<Sum>(sid, x, w) \<leftarrow> av. \<bar>w\<bar>)
     in if total \<le> 0 then (None, [])
        else (Some (\<Sum>(sid, x, w) \<leftarrow> av. (w / total) * x),
              map (\<lambda>(sid, x, w). (sid, (w / total) * x)) av))"
proof -
  have "distinct (map fst (available_series weights zs))"
    by (rule available_series_distinct [OF assms])
  from score_fold [OF this, where cs = "[]" and s = 0] show ?thesis
    unfolding axis_score_def Let_def by simp
qed

lemma weighted_sum_bound:
  fixes av :: "('k \<times> real \<times> real) list" and tot :: real
  assumes "\<And>k x w. (k, x, w) \<in> set av \<Longrightarrow> \<bar>x\<bar> \<le> B" "0 < tot"
  shows "\<bar>\<Sum>(k, x, w) \<leftarrow> av. (w / tot) * x\<bar> \<le> B * ((\<Sum>(k, x, w) \<leftarrow> av. \<bar>w\<bar>) / tot)"
  using assms(1)
proof (induction av)
  case (Cons a av)
  obtain k x w where a: "a = (k, x, w)" by (cases a)
  have x: "\<bar>x\<bar> \<le> B" using Cons.prems [of k x w] a by simp
  then have "\<bar>w\<bar> * \<bar>x\<bar> \<le> \<bar>w\<bar> * B" by (intro mult_left_mono) auto
  then have "\<bar>(w / tot) * x\<bar> \<le> B * (\<bar>w\<bar> / tot)"
    using assms(2) by (simp add: abs_mult divide_right_mono mult.commute)
  moreover have "\<bar>\<Sum>(k, x, w) \<leftarrow> av. (w / tot) * x\<bar> \<le> B * ((\<Sum>(k, x, w) \<leftarrow> av. \<bar>w\<bar>) / tot)"
    using Cons.prems by (intro Cons.IH) auto
  ultimately have "\<bar>(w / tot) * x\<bar> + \<bar>\<Sum>(k, x, w) \<leftarrow> av. (w / tot) * x\<bar>
      \<le> B * ((\<Sum>(k, x, w) \<leftarrow> a # av. \<bar>w\<bar>) / tot)"
    by (simp add: a add_divide_distrib distrib_left)
  then show ?case
    using abs_triangle_ineq [of "(w / tot) * x" "\<Sum>(k, x, w) \<leftarrow> av. (w / tot) * x"]
    by (simp add: a del: times_divide_eq_left)
qed simp

text \<open>
  The axis score is a weighted mean of the available z-scores. It exists exactly when
  some available series has a nonzero weight; then it is the sum of the reported
  contributions, one per available series in order, and a bound on every z bounds it: a
  missing series never shrinks or inflates the score.
\<close>

theorem axis_score_weighted_mean:
  assumes "dict_ok zs" "\<And>sid z. (sid, Some z) \<in> set zs \<Longrightarrow> \<bar>z\<bar> \<le> B"
  shows "case axis_score weights zs of
    (None, cs) \<Rightarrow> cs = [] \<and> (\<forall>sid x w. (sid, Some x) \<in> set zs \<and> dict_get weights sid = Some w \<longrightarrow> w = 0)
  | (Some s, cs) \<Rightarrow> \<bar>s\<bar> \<le> B \<and> s = sum_list (map snd cs) \<and>
      dict_keys cs = filter (\<lambda>sid. dict_get weights sid \<noteq> None)
        (map fst (filter (\<lambda>(sid, z). z \<noteq> None) zs))"
proof -
  let ?av = "available_series weights zs"
  let ?total = "\<Sum>(sid, x, w) \<leftarrow> ?av. \<bar>w\<bar>"
  note eq = axis_score_eq [OF assms(1), of weights, unfolded Let_def]
  have keys: "map fst ?av = filter (\<lambda>sid. dict_get weights sid \<noteq> None)
        (map fst (filter (\<lambda>(sid, z). z \<noteq> None) zs))"
    by (induction zs) (auto simp: available_series_def split: option.splits)
  show ?thesis
  proof (cases "?total \<le> 0")
    case True
    have nn: "0 \<le> (\<Sum>(sid, x, w) \<leftarrow> av. \<bar>w\<bar>)" for av :: "(string \<times> real \<times> real) list"
      by (induction av) auto
    have "w = 0" if "(sid, x, w) \<in> set av" "(\<Sum>(sid, x, w) \<leftarrow> av. \<bar>w\<bar>) \<le> 0"
      for sid x w and av :: "(string \<times> real \<times> real) list"
      using that
    proof (induction av)
      case (Cons a av)
      then show ?case
        using nn [of av] by (cases a) (auto simp: add_nonneg_eq_0_iff)
    qed simp
    then have "\<forall>sid x w. (sid, Some x) \<in> set zs \<and> dict_get weights sid = Some w \<longrightarrow> w = 0"
      using True available_series_mem by blast
    then show ?thesis unfolding eq using True by simp
  next
    case False
    then have pos: "0 < ?total" by simp
    have "\<bar>\<Sum>(k, x, w) \<leftarrow> ?av. (w / ?total) * x\<bar> \<le> B * (?total / ?total)"
      by (rule weighted_sum_bound [OF _ pos]) (auto simp: available_series_mem intro: assms(2))
    then have b: "\<bar>\<Sum>(k, x, w) \<leftarrow> ?av. (w / ?total) * x\<bar> \<le> B" using pos by simp
    have snds: "(\<Sum>(k, x, w) \<leftarrow> ?av. (w / ?total) * x)
        = sum_list (map snd (map (\<lambda>(sid, x, w). (sid, (w / ?total) * x)) ?av))"
      by (simp add: o_def case_prod_beta')
    have fsts: "map fst (map (\<lambda>(sid, x, w). (sid, (w / ?total) * x)) ?av) = map fst ?av"
      by (simp add: o_def case_prod_beta')
    show ?thesis
      unfolding eq using False b by (simp only: if_False prod.case option.case snds fsts keys simp_thms)
  qed
qed

theorem axis_score_weighted_mean_witness:
  "axis_score [(''A'', 1/4), (''B'', 3/4)] [(''B'', Some 2), (''A'', None)] = (Some 2, [(''B'', 2)])
   \<and> (2::real) = sum_list (map snd [(''B'', 2 :: real)])"
proof -
  have eq: "axis_score [(''A'', 1/4), (''B'', 3/4)] [(''B'', Some 2), (''A'', None)]
      = (Some 2, [(''B'', 2)])"
    by (simp add: axis_score_def available_series_def Let_def)
  show ?thesis
    using axis_score_weighted_mean [of "[(''B'', Some 2), (''A'', None)]" 2 "[(''A'', 1/4), (''B'', 3/4)]"]
    unfolding eq by simp
qed

end
