(* ===== verification/Quadrant_Snapshot.thy ===== *)
theory Quadrant_Snapshot
  imports Quadrant_Axis
begin

text \<open>
  The snapshot both quadrant workers emit: \<open>src/quadrant_snapshot.py\<close> and
  \<open>src/quadrant_assemble.py\<close>, with the CHECK constraints of
  \<open>schemas/regime_quadrant_snapshot.sql\<close> as the specification of a storable row, and the
  two tables the snapshot is written to as the state. \<open>uuid5\<close> (of the fixed namespace) and
  the normal distribution function \<open>cdf\<close> are parameters.
\<close>

subsection \<open>Records\<close>

record axis_diagnostics =
  d_score :: "real option"
  d_sign :: "int option"
  d_internal_sign :: "int option"
  d_candidate_confidence :: "real option"
  d_margin :: "real option"
  d_uncertainty_raw :: "real option"
  d_uncertainty_adjusted :: "real option"

record quadrant_snapshot =
  snapshot_id :: string
  previous_snapshot_id :: "string option"
  quadrant :: "string option"
  candidate_quadrant :: "string option"
  candidate_confidence :: "real option"
  growth :: axis_diagnostics
  inflation :: axis_diagnostics
  s_coverage_quality :: real
  s_freshness_quality :: real
  s_source_health_quality :: real
  transition_pending :: bool
  transition_reason :: "string option"
  as_of :: date
  available_at :: datetime
  computed_at :: datetime
  data_stale_after :: datetime
  pipeline_stale_after :: datetime
  stale_after :: datetime
  status_at_compute :: string
  model_version :: string
  confidence_model_version :: string
  confidence_method :: string
  source_vintage_hash :: string

text \<open>The arguments of \<open>build_snapshot\<close> for one axis, and all of them.\<close>

record axis_input =
  in_score :: "real option"
  in_history :: "real list"
  in_prev_sign :: "int option"
  in_coverage :: real
  in_freshness :: real
  in_health :: real
  in_u_floor :: real

record snapshot_input =
  in_as_of :: date
  in_computed_at :: datetime
  in_previous_snapshot_id :: "string option"
  in_growth :: axis_input
  in_inflation :: axis_input
  input_available_ats :: "datetime list"
  critical_expiries :: "datetime list"
  in_model_version :: string
  in_confidence_method :: string
  in_source_vintage_hash :: string
  critical_structural_failure :: bool
  in_confidence_model_version :: string

subsection \<open>Identity and read-side status\<close>

definition snapshot_key :: "string \<Rightarrow> date \<Rightarrow> string \<Rightarrow> string option \<Rightarrow> string" where
  "snapshot_key mv d h prev =
     str_join ''|'' [mv, isoformat d, h,
       case prev of None \<Rightarrow> ''GENESIS'' | Some p \<Rightarrow> if p = [] then ''GENESIS'' else p]"

definition make_snapshot_id ::
  "(string \<Rightarrow> string) \<Rightarrow> string \<Rightarrow> date \<Rightarrow> string \<Rightarrow> string option \<Rightarrow> string" where
  "make_snapshot_id uuid5 mv d h prev = uuid5 (snapshot_key mv d h prev)"

definition effective_status :: "quadrant_snapshot \<Rightarrow> datetime \<Rightarrow> string" where
  "effective_status s now =
     (if status_at_compute s = ''valid'' \<and> now \<ge> stale_after s then ''stale''
      else status_at_compute s)"

subsection \<open>Assembling one snapshot\<close>

definition quadrant_by_signs :: "((int \<times> int), string) dict" where
  "quadrant_by_signs =
     [((1, -1), ''recovery''), ((1, 1), ''expansion''),
      ((-1, 1), ''slowdown''), ((-1, -1), ''contraction'')]"

definition quadrant_from_signs :: "int option \<Rightarrow> int option \<Rightarrow> py_error + string option" where
  "quadrant_from_signs growth_sign inflation_sign =
     (case (growth_sign, inflation_sign) of
        (Some g, Some i) \<Rightarrow>
          (case dict_get quadrant_by_signs (g, i) of
             None \<Rightarrow> Inl KeyError | Some q \<Rightarrow> Inr (Some q))
      | _ \<Rightarrow> Inr None)"

definition classify_axis ::
  "(real \<Rightarrow> real) \<Rightarrow> axis_input \<Rightarrow> axis_diagnostics \<times> bool \<times> string option \<times> real" where
  "classify_axis cdf x =
     (let q_data = min (min (in_coverage x) (in_freshness x)) (in_health x)
      in case in_score x of
           None \<Rightarrow>
             (\<lparr> d_score = None, d_sign = None, d_internal_sign = in_prev_sign x,
                d_candidate_confidence = None, d_margin = None,
                d_uncertainty_raw = None, d_uncertainty_adjusted = None \<rparr>,
              True, Some ''no_score'', q_data)
         | Some score \<Rightarrow>
             (case uncertainty_raw (in_history x) (in_u_floor x) of
                None \<Rightarrow>
                  (\<lparr> d_score = Some score, d_sign = None, d_internal_sign = in_prev_sign x,
                     d_candidate_confidence = None, d_margin = None,
                     d_uncertainty_raw = None, d_uncertainty_adjusted = None \<rparr>,
                   True, Some ''insufficient_vintages'', q_data)
              | Some u_raw \<Rightarrow>
                  (let (confidence, u_adj) = axis_confidence cdf score u_raw q_data;
                       (internal_sign, effective_sign, pending, reason) =
                         axis_hysteresis (in_prev_sign x) score confidence
                           AXIS_ENTER AXIS_EXIT MIN_CANDIDATE_CONFIDENCE;
                       margin = (case in_prev_sign x of
                                   None \<Rightarrow> \<bar>score\<bar> | Some h \<Rightarrow> of_int h * score)
                   in (\<lparr> d_score = Some score, d_sign = effective_sign,
                         d_internal_sign = internal_sign,
                         d_candidate_confidence = Some confidence, d_margin = Some margin,
                         d_uncertainty_raw = Some u_raw, d_uncertainty_adjusted = Some u_adj \<rparr>,
                       pending, reason, q_data))))"

definition candidate_sign :: "real option \<Rightarrow> int option" where
  "candidate_sign score = map_option (\<lambda>s. if s > 0 then 1 else -1) score"

definition reason_bits :: "string option list \<Rightarrow> string list" where
  "reason_bits rs =
     concat (map (\<lambda>r. case r of
       None \<Rightarrow> [] | Some s \<Rightarrow> if s = ''init'' \<or> s = ''hold'' then [] else [s]) rs)"

text \<open>\<open>min\<close> of the confidences that are not None, or None.\<close>

definition min_confidence_of :: "real option list \<Rightarrow> real option" where
  "min_confidence_of cs =
     (case concat (map (\<lambda>c. case c of None \<Rightarrow> [] | Some x \<Rightarrow> [x]) cs) of
        [] \<Rightarrow> None | x # xs \<Rightarrow> Some (list_min x xs))"

text \<open>
  The status the row stores with its consumable quadrant: a compute-time stale becomes
  low confidence, and a valid status without a quadrant is demoted.
\<close>

definition publish_status :: "string \<Rightarrow> string option \<Rightarrow> string \<times> string option" where
  "publish_status status0 consumable_quadrant =
     (let status = (if status0 = ''stale'' then ''low_confidence'' else status0)
      in if status = ''valid'' then
           (case consumable_quadrant of
              None \<Rightarrow> (''low_confidence'', None)
            | Some q \<Rightarrow> (status, Some q))
         else (status, None))"

definition build_snapshot ::
  "(string \<Rightarrow> string) \<Rightarrow> (real \<Rightarrow> real) \<Rightarrow> snapshot_input \<Rightarrow> py_error + quadrant_snapshot" where
  "build_snapshot uuid5 cdf a =
     (let (g_diag, g_pending, g_reason, g_q) = classify_axis cdf (in_growth a);
          (i_diag, i_pending, i_reason, i_q) = classify_axis cdf (in_inflation a);
          pending = (g_pending \<or> i_pending);
          bits = reason_bits [g_reason, i_reason];
          reason = (if bits = [] then None else Some (str_join '','' bits))
      in bindE (quadrant_from_signs (candidate_sign (in_score (in_growth a)))
                  (candidate_sign (in_score (in_inflation a)))) (\<lambda>cand.
         bindE (quadrant_from_signs (d_sign g_diag) (d_sign i_diag)) (\<lambda>consumable.
         let cov = min (in_coverage (in_growth a)) (in_coverage (in_inflation a));
             fresh = min (in_freshness (in_growth a)) (in_freshness (in_inflation a));
             health = min (in_health (in_growth a)) (in_health (in_inflation a));
             critical_source_expired = (fresh \<le> 0);
             confidence = min_confidence_of
               [d_candidate_confidence g_diag, d_candidate_confidence i_diag];
             avail = available_at_snapshot (in_computed_at a) (input_available_ats a)
         in case compute_stale_after (in_computed_at a) (critical_expiries a) of
              None \<Rightarrow> Inl ValueError
            | Some (data_stale, pipeline_stale, stale) \<Rightarrow>
                (let status0 = resolve_status (critical_structural_failure a) cov
                       critical_source_expired health
                       (case confidence of None \<Rightarrow> 0 | Some c \<Rightarrow> c) pending;
                     (status, quad) = publish_status status0 consumable
                 in Inr \<lparr> snapshot_id = make_snapshot_id uuid5 (in_model_version a) (in_as_of a)
                            (in_source_vintage_hash a) (in_previous_snapshot_id a),
                          previous_snapshot_id = in_previous_snapshot_id a,
                          quadrant = quad,
                          candidate_quadrant = cand,
                          candidate_confidence =
                            (if status \<in> {''unavailable'', ''invalid''} then None else confidence),
                          growth = g_diag, inflation = i_diag,
                          s_coverage_quality = cov,
                          s_freshness_quality = fresh,
                          s_source_health_quality = health,
                          transition_pending = pending,
                          transition_reason = reason,
                          as_of = in_as_of a, available_at = avail,
                          computed_at = in_computed_at a,
                          data_stale_after = data_stale,
                          pipeline_stale_after = pipeline_stale,
                          stale_after = stale,
                          status_at_compute = status,
                          model_version = in_model_version a,
                          confidence_model_version = in_confidence_model_version a,
                          confidence_method = in_confidence_method a,
                          source_vintage_hash = in_source_vintage_hash a \<rparr>))))"

subsection \<open>The row constraints of the table\<close>

definition STATUSES :: "string list" where
  "STATUSES = [''valid'', ''low_confidence'', ''unavailable'', ''invalid'']"
definition QUADRANTS :: "string list" where
  "QUADRANTS = [''recovery'', ''expansion'', ''slowdown'', ''contraction'']"

text \<open>A date compares with a timestamp as its midnight.\<close>

definition midnight :: "date \<Rightarrow> datetime" where
  "midnight d = toordinal d * day_us"

definition ck_domains :: "quadrant_snapshot \<Rightarrow> bool" where
  "ck_domains s \<longleftrightarrow>
     status_at_compute s \<in> set STATUSES \<and>
     (\<forall>q. quadrant s = Some q \<longrightarrow> q \<in> set QUADRANTS) \<and>
     (\<forall>q. candidate_quadrant s = Some q \<longrightarrow> q \<in> set QUADRANTS)"

definition ck_valid_coherence :: "quadrant_snapshot \<Rightarrow> bool" where
  "ck_valid_coherence s \<longleftrightarrow>
     status_at_compute s = ''valid'' \<and> quadrant s \<noteq> None \<and> candidate_quadrant s \<noteq> None \<and>
       (\<exists>c. candidate_confidence s = Some c \<and> 70 / 100 \<le> c) \<and> \<not> transition_pending s \<or>
     status_at_compute s \<noteq> ''valid'' \<and> quadrant s = None"

definition ck_no_confidence :: "quadrant_snapshot \<Rightarrow> bool" where
  "ck_no_confidence s \<longleftrightarrow>
     status_at_compute s \<notin> {''unavailable'', ''invalid''} \<or> candidate_confidence s = None"

definition ck_ranges :: "quadrant_snapshot \<Rightarrow> bool" where
  "ck_ranges s \<longleftrightarrow>
     0 \<le> s_coverage_quality s \<and> s_coverage_quality s \<le> 1 \<and>
     0 \<le> s_freshness_quality s \<and> s_freshness_quality s \<le> 1 \<and>
     0 \<le> s_source_health_quality s \<and> s_source_health_quality s \<le> 1"

definition ck_times :: "quadrant_snapshot \<Rightarrow> bool" where
  "ck_times s \<longleftrightarrow>
     stale_after s \<le> data_stale_after s \<and> stale_after s \<le> pipeline_stale_after s \<and>
     available_at s \<le> computed_at s \<and> midnight (as_of s) \<le> available_at s"

definition ck_nonempty :: "quadrant_snapshot \<Rightarrow> bool" where
  "ck_nonempty s \<longleftrightarrow> 0 < length (model_version s) \<and> 0 < length (source_vintage_hash s)"

definition snapshot_checks :: "quadrant_snapshot \<Rightarrow> bool" where
  "snapshot_checks s \<longleftrightarrow> ck_domains s \<and> ck_valid_coherence s \<and> ck_no_confidence s \<and>
     ck_ranges s \<and> ck_times s \<and> ck_nonempty s"

subsection \<open>One axis\<close>

abbreviation diag_of :: "axis_diagnostics \<times> bool \<times> string option \<times> real \<Rightarrow> axis_diagnostics" where
  "diag_of r \<equiv> fst r"
abbreviation axis_pending :: "axis_diagnostics \<times> bool \<times> string option \<times> real \<Rightarrow> bool" where
  "axis_pending r \<equiv> fst (snd r)"

lemma classify_cases:
  obtains (no_score) "in_score x = None" "d_sign (diag_of (classify_axis cdf x)) = None"
      "d_internal_sign (diag_of (classify_axis cdf x)) = in_prev_sign x"
      "d_candidate_confidence (diag_of (classify_axis cdf x)) = None" "axis_pending (classify_axis cdf x)"
  | (few_vintages) s where "in_score x = Some s" "uncertainty_raw (in_history x) (in_u_floor x) = None"
      "d_sign (diag_of (classify_axis cdf x)) = None"
      "d_internal_sign (diag_of (classify_axis cdf x)) = in_prev_sign x"
      "d_candidate_confidence (diag_of (classify_axis cdf x)) = None" "axis_pending (classify_axis cdf x)"
  | (scored) s u where "in_score x = Some s" "uncertainty_raw (in_history x) (in_u_floor x) = Some u"
      "let q = min (min (in_coverage x) (in_freshness x)) (in_health x);
           c = fst (axis_confidence cdf s u q);
           h = axis_hysteresis (in_prev_sign x) s c AXIS_ENTER AXIS_EXIT MIN_CANDIDATE_CONFIDENCE
       in d_sign (diag_of (classify_axis cdf x)) = effective_of h \<and>
          d_internal_sign (diag_of (classify_axis cdf x)) = internal_of h \<and>
          d_candidate_confidence (diag_of (classify_axis cdf x)) = Some c \<and>
          axis_pending (classify_axis cdf x) = pending_of h"
  by (cases "in_score x"; cases "uncertainty_raw (in_history x) (in_u_floor x)")
    (auto simp: classify_axis_def Let_def case_prod_beta)

lemma classify_pending_iff:
  "axis_pending (classify_axis cdf x) \<longleftrightarrow> d_sign (diag_of (classify_axis cdf x)) = None"
  by - (rule classify_cases [of x cdf]; auto simp: Let_def hysteresis_pending_iff)

lemma classify_scored:
  assumes "d_sign (diag_of (classify_axis cdf x)) = Some e"
  shows "\<exists>s c. in_score x = Some s \<and>
    d_candidate_confidence (diag_of (classify_axis cdf x)) = Some c \<and>
    d_sign (diag_of (classify_axis cdf x)) = effective_of
      (axis_hysteresis (in_prev_sign x) s c AXIS_ENTER AXIS_EXIT MIN_CANDIDATE_CONFIDENCE) \<and>
    d_internal_sign (diag_of (classify_axis cdf x)) = internal_of
      (axis_hysteresis (in_prev_sign x) s c AXIS_ENTER AXIS_EXIT MIN_CANDIDATE_CONFIDENCE)"
  using assms by - (rule classify_cases [of x cdf]; simp add: Let_def)

lemma classify_sign:
  assumes "d_sign (diag_of (classify_axis cdf x)) = Some e"
  shows "d_internal_sign (diag_of (classify_axis cdf x)) = Some e"
    and "in_score x \<noteq> None"
    and "\<exists>c. d_candidate_confidence (diag_of (classify_axis cdf x)) = Some c \<and>
      MIN_CANDIDATE_CONFIDENCE \<le> c"
  using classify_scored [OF assms] hysteresis_effective assms by fastforce+

lemma classify_internal_ok:
  "sign_ok (in_prev_sign x) \<Longrightarrow> sign_ok (d_internal_sign (diag_of (classify_axis cdf x)))"
  by - (rule classify_cases [of x cdf]; auto simp: Let_def hysteresis_sign_ok)

lemma classify_sign_ok:
  assumes "sign_ok (in_prev_sign x)"
  shows "sign_ok (d_sign (diag_of (classify_axis cdf x)))"
proof (cases "d_sign (diag_of (classify_axis cdf x))")
  case (Some e)
  then show ?thesis
    using classify_internal_ok [OF assms, of cdf] classify_sign(1) [OF Some] by simp
qed (simp add: sign_ok_def)

lemma quadrant_from_signs_ok:
  assumes "sign_ok g" "sign_ok i"
  obtains q where "quadrant_from_signs g i = Inr q" "q = None \<longleftrightarrow> g = None \<or> i = None"
    "\<And>x. q = Some x \<Longrightarrow> x \<in> set QUADRANTS"
  using assms
  by (auto simp: sign_ok_def quadrant_from_signs_def quadrant_by_signs_def QUADRANTS_def)

lemma candidate_sign_ok: "sign_ok (candidate_sign s)" "candidate_sign s = None \<longleftrightarrow> s = None"
  by (auto simp: candidate_sign_def sign_ok_def)

lemma min_confidence_both:
  "min_confidence_of [Some a, Some b] = Some (min a b)"
  by (simp add: min_confidence_of_def)

lemma publish_status_cases:
  assumes "status0 \<in> {''invalid'', ''unavailable'', ''stale'', ''low_confidence'', ''valid''}"
    and "status0 = ''valid'' \<Longrightarrow> q \<noteq> None"
  shows "fst (publish_status status0 q) \<in> set STATUSES"
    and "fst (publish_status status0 q) = ''valid'' \<longleftrightarrow> status0 = ''valid''"
    and "snd (publish_status status0 q) = (if status0 = ''valid'' then q else None)"
  using assms by (auto simp: publish_status_def Let_def STATUSES_def split: option.split)

subsection \<open>What a built snapshot is\<close>

definition raw_status :: "(real \<Rightarrow> real) \<Rightarrow> snapshot_input \<Rightarrow> string" where
  "raw_status cdf a =
     resolve_status (critical_structural_failure a)
       (min (in_coverage (in_growth a)) (in_coverage (in_inflation a)))
       (min (in_freshness (in_growth a)) (in_freshness (in_inflation a)) \<le> 0)
       (min (in_health (in_growth a)) (in_health (in_inflation a)))
       (case min_confidence_of
               [d_candidate_confidence (diag_of (classify_axis cdf (in_growth a))),
                d_candidate_confidence (diag_of (classify_axis cdf (in_inflation a)))] of
          None \<Rightarrow> 0 | Some c \<Rightarrow> c)
       (axis_pending (classify_axis cdf (in_growth a)) \<or>
        axis_pending (classify_axis cdf (in_inflation a)))"

lemma raw_status_valid_signs:
  assumes "raw_status cdf a = ''valid''"
  obtains g i where "d_sign (diag_of (classify_axis cdf (in_growth a))) = Some g"
    "d_sign (diag_of (classify_axis cdf (in_inflation a))) = Some i"
proof -
  have "\<not> axis_pending (classify_axis cdf (in_growth a))"
    "\<not> axis_pending (classify_axis cdf (in_inflation a))"
    using assms by (auto simp: raw_status_def resolve_status_valid)
  then show thesis using that unfolding classify_pending_iff by blast
qed

definition input_ok :: "snapshot_input \<Rightarrow> bool" where
  "input_ok a \<longleftrightarrow>
     sign_ok (in_prev_sign (in_growth a)) \<and> sign_ok (in_prev_sign (in_inflation a)) \<and>
     critical_expiries a \<noteq> []"

lemma build_snapshot_ok:
  assumes "input_ok a"
  obtains s q cand where "build_snapshot uuid5 cdf a = Inr s"
    "status_at_compute s = fst (publish_status (raw_status cdf a) q)"
    "quadrant s = snd (publish_status (raw_status cdf a) q)"
    "quadrant_from_signs (d_sign (growth s)) (d_sign (inflation s)) = Inr q"
    "quadrant_from_signs (candidate_sign (in_score (in_growth a)))
       (candidate_sign (in_score (in_inflation a))) = Inr (candidate_quadrant s)"
    "growth s = diag_of (classify_axis cdf (in_growth a))"
    "inflation s = diag_of (classify_axis cdf (in_inflation a))"
    "transition_pending s \<longleftrightarrow> axis_pending (classify_axis cdf (in_growth a)) \<or>
        axis_pending (classify_axis cdf (in_inflation a))"
    "candidate_confidence s = (if status_at_compute s \<in> {''unavailable'', ''invalid''} then None
       else min_confidence_of [d_candidate_confidence (growth s), d_candidate_confidence (inflation s)])"
    "s_coverage_quality s = min (in_coverage (in_growth a)) (in_coverage (in_inflation a))"
    "s_freshness_quality s = min (in_freshness (in_growth a)) (in_freshness (in_inflation a))"
    "s_source_health_quality s = min (in_health (in_growth a)) (in_health (in_inflation a))"
    "available_at s = available_at_snapshot (in_computed_at a) (input_available_ats a)"
    "compute_stale_after (in_computed_at a) (critical_expiries a)
       = Some (data_stale_after s, pipeline_stale_after s, stale_after s)"
    "as_of s = in_as_of a" "computed_at s = in_computed_at a"
    "model_version s = in_model_version a" "source_vintage_hash s = in_source_vintage_hash a"
    "previous_snapshot_id s = in_previous_snapshot_id a"
    "snapshot_id s = make_snapshot_id uuid5 (in_model_version a) (in_as_of a)
       (in_source_vintage_hash a) (in_previous_snapshot_id a)"
proof -
  obtain g gp gr gq where g: "classify_axis cdf (in_growth a) = (g, gp, gr, gq)"
    by (metis prod.exhaust)
  obtain i ip ir iq where i: "classify_axis cdf (in_inflation a) = (i, ip, ir, iq)"
    by (metis prod.exhaust)
  have so: "sign_ok (d_sign g)" "sign_ok (d_sign i)"
    using classify_sign_ok [of "in_growth a" cdf] classify_sign_ok [of "in_inflation a" cdf] assms
    by (simp_all add: g i input_ok_def)
  obtain q where q: "quadrant_from_signs (d_sign g) (d_sign i) = Inr q"
    using quadrant_from_signs_ok [OF so] by blast
  obtain cand where cand: "quadrant_from_signs (candidate_sign (in_score (in_growth a)))
       (candidate_sign (in_score (in_inflation a))) = Inr cand"
    using quadrant_from_signs_ok [OF candidate_sign_ok(1) candidate_sign_ok(1)] by blast
  obtain e es where es: "critical_expiries a = e # es"
    using assms by (cases "critical_expiries a") (auto simp: input_ok_def)
  then obtain d p st where st: "compute_stale_after (in_computed_at a) (critical_expiries a) = Some (d, p, st)"
    by (simp add: compute_stale_after_def Let_def)
  obtain status quad where pub: "publish_status (raw_status cdf a) q = (status, quad)"
    by (metis prod.exhaust)
  note raw = pub [unfolded raw_status_def g i prod.sel]
  show thesis
    by (rule that [where q = q], simp add: build_snapshot_def g i q cand st pub raw Let_def)
      (simp_all add: g i q cand st pub)
qed

lemma build_snapshot_passes:
  assumes "input_ok a" "build_snapshot uuid5 cdf a = Inr s0"
    and "\<forall>x \<in> {in_growth a, in_inflation a}.
      in_coverage x \<in> {0..1} \<and> in_freshness x \<in> {0..1} \<and> in_health x \<in> {0..1}"
    and "\<forall>t \<in> set (input_available_ats a). t \<le> in_computed_at a"
    and "midnight (in_as_of a) \<le> in_computed_at a"
    and "in_model_version a \<noteq> []" "in_source_vintage_hash a \<noteq> []"
  shows "snapshot_checks s0"
proof (rule build_snapshot_ok [OF assms(1), of uuid5 cdf])
  fix s q
  assume s: "build_snapshot uuid5 cdf a = Inr s"
    and status: "status_at_compute s = fst (publish_status (raw_status cdf a) q)"
    and quad: "quadrant s = snd (publish_status (raw_status cdf a) q)"
    and q: "quadrant_from_signs (d_sign (growth s)) (d_sign (inflation s)) = Inr q"
    and cand: "quadrant_from_signs (candidate_sign (in_score (in_growth a)))
       (candidate_sign (in_score (in_inflation a))) = Inr (candidate_quadrant s)"
    and gs: "growth s = diag_of (classify_axis cdf (in_growth a))"
    and isd: "inflation s = diag_of (classify_axis cdf (in_inflation a))"
    and pend: "transition_pending s \<longleftrightarrow> axis_pending (classify_axis cdf (in_growth a)) \<or>
        axis_pending (classify_axis cdf (in_inflation a))"
    and conf: "candidate_confidence s = (if status_at_compute s \<in> {''unavailable'', ''invalid''} then None
       else min_confidence_of [d_candidate_confidence (growth s), d_candidate_confidence (inflation s)])"
    and quals: "s_coverage_quality s = min (in_coverage (in_growth a)) (in_coverage (in_inflation a))"
      "s_freshness_quality s = min (in_freshness (in_growth a)) (in_freshness (in_inflation a))"
      "s_source_health_quality s = min (in_health (in_growth a)) (in_health (in_inflation a))"
    and avail: "available_at s = available_at_snapshot (in_computed_at a) (input_available_ats a)"
    and stale: "compute_stale_after (in_computed_at a) (critical_expiries a)
       = Some (data_stale_after s, pipeline_stale_after s, stale_after s)"
    and copied: "as_of s = in_as_of a" "computed_at s = in_computed_at a"
      "model_version s = in_model_version a" "source_vintage_hash s = in_source_vintage_hash a"
  have so: "sign_ok (d_sign (growth s))" "sign_ok (d_sign (inflation s))"
    using assms(1) by (simp_all add: gs isd input_ok_def classify_sign_ok)
  have qd: "q = None \<longleftrightarrow> d_sign (growth s) = None \<or> d_sign (inflation s) = None"
    "q = Some x \<Longrightarrow> x \<in> set QUADRANTS" for x
    using quadrant_from_signs_ok [OF so] q by (metis sum.inject(2))+
  have cd: "candidate_quadrant s = None \<longleftrightarrow> in_score (in_growth a) = None \<or> in_score (in_inflation a) = None"
    "candidate_quadrant s = Some x \<Longrightarrow> x \<in> set QUADRANTS" for x
    using quadrant_from_signs_ok [OF candidate_sign_ok(1) candidate_sign_ok(1)] cand
      candidate_sign_ok(2) by (metis sum.inject(2))+
  have vq: "q \<noteq> None" if "raw_status cdf a = ''valid''"
    using raw_status_valid_signs [OF that] qd(1) by (metis gs isd option.distinct(1))
  have range: "raw_status cdf a \<in> {''invalid'', ''unavailable'', ''stale'', ''low_confidence'', ''valid''}"
    unfolding raw_status_def by (rule resolve_status_range)
  note pub = publish_status_cases [OF range vq, folded status quad]
  have "ck_domains s"
    using pub(1,3) qd(2) cd(2) by (auto simp: ck_domains_def split: if_splits)
  moreover have "ck_valid_coherence s"
  proof (cases "raw_status cdf a = ''valid''")
    case True
    then obtain g i where sg: "d_sign (growth s) = Some g" "d_sign (inflation s) = Some i"
      using raw_status_valid_signs by (metis gs isd)
    obtain cg ci where c: "d_candidate_confidence (growth s) = Some cg" "MIN_CANDIDATE_CONFIDENCE \<le> cg"
      "d_candidate_confidence (inflation s) = Some ci" "MIN_CANDIDATE_CONFIDENCE \<le> ci"
      using classify_sign(3) [of cdf "in_growth a" g] classify_sign(3) [of cdf "in_inflation a" i] sg
      by (auto simp: gs isd)
    have "in_score (in_growth a) \<noteq> None" "in_score (in_inflation a) \<noteq> None"
      using classify_sign(2) sg by (metis gs isd)+
    then have "candidate_quadrant s \<noteq> None" using cd(1) by simp
    moreover have "\<not> transition_pending s" using sg by (simp add: pend classify_pending_iff gs isd)
    moreover have "candidate_confidence s = Some (min cg ci)"
      using pub(2) True by (simp add: conf c min_confidence_both)
    ultimately show ?thesis
      using True pub(2,3) vq c(2,4) by (simp add: ck_valid_coherence_def MIN_CANDIDATE_CONFIDENCE_def)
  qed (use pub in \<open>simp add: ck_valid_coherence_def\<close>)
  moreover have "ck_no_confidence s" by (simp add: ck_no_confidence_def conf)
  moreover have "ck_ranges s" using assms(3) by (auto simp: ck_ranges_def quals)
  moreover have "ck_times s"
  proof -
    have "available_at_snapshot (in_computed_at a) (input_available_ats a) \<le> in_computed_at a"
      using assms(4) by (auto simp: available_at_snapshot_def intro!: list_max_least)
    then have "available_at s = in_computed_at a"
      using available_at_snapshot_upper(1) avail by (metis order_antisym)
    then show ?thesis
      using compute_stale_after_Some(1) [OF stale] assms(5) by (simp add: ck_times_def copied)
  qed
  moreover have "ck_nonempty s" using assms(6,7) by (simp add: ck_nonempty_def copied)
  ultimately show ?thesis using s assms(2) by (simp add: snapshot_checks_def)
qed

text \<open>
  Every snapshot the assembler produces can be stored. From latched signs that are
  empty or a sign, quality readings between 0 and 1, at least one critical expiry, inputs
  that were available by the time of the computation and a date not after it, the assembler
  raises nothing and its row passes every CHECK constraint of the table: the status domain,
  valid exactly when a consumable quadrant is there, the confidence floor of a valid row, no
  confidence on an unavailable one, the ordering of the staleness horizons.
\<close>

theorem build_snapshot_storable:
  assumes "input_ok a"
    and "\<forall>x \<in> {in_growth a, in_inflation a}.
      in_coverage x \<in> {0..1} \<and> in_freshness x \<in> {0..1} \<and> in_health x \<in> {0..1}"
    and "\<forall>t \<in> set (input_available_ats a). t \<le> in_computed_at a"
    and "midnight (in_as_of a) \<le> in_computed_at a"
    and "in_model_version a \<noteq> []" "in_source_vintage_hash a \<noteq> []"
  shows "\<exists>s. build_snapshot uuid5 cdf a = Inr s \<and> snapshot_checks s"
proof -
  obtain s where "build_snapshot uuid5 cdf a = Inr s"
    using build_snapshot_ok [OF assms(1)] by metis
  with build_snapshot_passes [OF assms(1) _ assms(2-6)] show ?thesis by blast
qed

theorem build_snapshot_storable_witness:
  "\<exists>s. build_snapshot (\<lambda>k. ''id'') (\<lambda>x. 1)
     \<lparr> in_as_of = Date 2026 7 17, in_computed_at = midnight (Date 2026 7 17) + 3600000000,
       in_previous_snapshot_id = None,
       in_growth = \<lparr> in_score = Some (1/2), in_history = [], in_prev_sign = Some 1,
         in_coverage = 1, in_freshness = 1, in_health = 1, in_u_floor = 1/4 \<rparr>,
       in_inflation = \<lparr> in_score = Some (1/2), in_history = [], in_prev_sign = None,
         in_coverage = 1, in_freshness = 1, in_health = 1, in_u_floor = 1/4 \<rparr>,
       input_available_ats = [midnight (Date 2026 7 17)], critical_expiries = [0],
       in_model_version = ''m'', in_confidence_method = ''c'', in_source_vintage_hash = ''h'',
       critical_structural_failure = False, in_confidence_model_version = ''v'' \<rparr> = Inr s
     \<and> snapshot_checks s"
  by (rule build_snapshot_storable) (simp_all add: input_ok_def sign_ok_def)

subsection \<open>The tables and the latched chain\<close>

text \<open>
  \<open>regime_quadrant_snapshot\<close> and \<open>regime_quadrant_indicator_audit\<close>, the second by its
  key \<open>(snapshot_id, axis, series_id)\<close> with the z-score, the only column the worker fills.
\<close>

record quadrant_db =
  snapshots :: "quadrant_snapshot list"
  audit :: "(string \<times> string \<times> string, real) dict"

text \<open>
  \<open>ORDER BY as_of DESC, available_at DESC LIMIT 1\<close>. The query leaves the choice among
  equal rows open; the model takes the first one stored.
\<close>

fun newest_row :: "quadrant_snapshot \<Rightarrow> quadrant_snapshot list \<Rightarrow> quadrant_snapshot" where
  "newest_row r [] = r"
| "newest_row r (q # qs) =
     newest_row (if as_of r < as_of q \<or> as_of r = as_of q \<and> available_at r < available_at q
                 then q else r) qs"

definition load_previous_snapshot ::
  "quadrant_db \<Rightarrow> string \<Rightarrow> date \<Rightarrow> (string \<times> int option \<times> int option) option" where
  "load_previous_snapshot db mv d =
     (case filter (\<lambda>r. model_version r = mv \<and> as_of r < d) (snapshots db) of
        [] \<Rightarrow> None
      | r # rs \<Rightarrow> (let row = newest_row r rs
                   in Some (snapshot_id row, d_internal_sign (growth row),
                            d_internal_sign (inflation row))))"

definition audit_records ::
  "string \<Rightarrow> (string, (string, real) dict) dict \<Rightarrow> (string \<times> string \<times> string, real) dict" where
  "audit_records sid contributions_by_axis =
     concat (map (\<lambda>(axis, contribs). map (\<lambda>(series, z). ((sid, axis, series), z)) contribs)
       contributions_by_axis)"

text \<open>\<open>INSERT ... ON CONFLICT (snapshot_id) DO UPDATE\<close> of every other column.\<close>

fun upsert_row :: "quadrant_snapshot \<Rightarrow> quadrant_snapshot list \<Rightarrow> quadrant_snapshot list" where
  "upsert_row s [] = [s]"
| "upsert_row s (r # rs) = (if snapshot_id r = snapshot_id s then s # rs else r # upsert_row s rs)"

definition version_key :: "quadrant_snapshot \<Rightarrow> string \<times> date \<times> string \<times> string option" where
  "version_key s = (model_version s, as_of s, source_vintage_hash s, previous_snapshot_id s)"

text \<open>
  The transaction of \<open>upsert_snapshot\<close>. The database refuses a row that fails a CHECK or
  whose version key another row already has; nothing is written then.
\<close>

definition upsert_snapshot ::
  "quadrant_db \<Rightarrow> quadrant_snapshot \<Rightarrow> (string \<times> string \<times> string, real) dict \<Rightarrow>
   py_error + quadrant_db" where
  "upsert_snapshot db s audit_rows =
     (if \<not> snapshot_checks s \<or>
         (\<exists>r \<in> set (snapshots db). snapshot_id r \<noteq> snapshot_id s \<and> version_key r = version_key s)
      then Inl DatabaseError
      else Inr (db\<lparr> snapshots := upsert_row s (snapshots db),
                    audit := dict_update (audit db) audit_rows \<rparr>))"

text \<open>
  The part the workers' \<open>run\<close> functions share: resume the latched chain from the
  snapshot strictly before the date, build, and upsert with the contributions of both axes.
\<close>

definition resume_input :: "quadrant_db \<Rightarrow> snapshot_input \<Rightarrow> snapshot_input" where
  "resume_input db a =
     (let prev = load_previous_snapshot db (in_model_version a) (in_as_of a);
          (prev_id, g_prev_sign, i_prev_sign) =
            (case prev of None \<Rightarrow> (None, None, None) | Some (i, g, f) \<Rightarrow> (Some i, g, f))
      in a\<lparr> in_previous_snapshot_id := prev_id,
            in_growth := (in_growth a)\<lparr> in_prev_sign := g_prev_sign \<rparr>,
            in_inflation := (in_inflation a)\<lparr> in_prev_sign := i_prev_sign \<rparr> \<rparr>)"

definition resume_and_store ::
  "(string \<Rightarrow> string) \<Rightarrow> (real \<Rightarrow> real) \<Rightarrow> snapshot_input \<Rightarrow> (string, real) dict \<Rightarrow>
   (string, real) dict \<Rightarrow> quadrant_db \<Rightarrow> py_error + quadrant_db \<times> quadrant_snapshot" where
  "resume_and_store uuid5 cdf a g_contrib i_contrib db =
     bindE (build_snapshot uuid5 cdf (resume_input db a)) (\<lambda>snap.
     bindE (upsert_snapshot db snap
              (audit_records (snapshot_id snap) [(''growth'', g_contrib), (''inflation'', i_contrib)]))
       (\<lambda>db'. Inr (db', snap)))"

text \<open>The rows a run for the date \<open>d\<close> of a model may read.\<close>

definition past_rows :: "string \<Rightarrow> date \<Rightarrow> quadrant_db \<Rightarrow> quadrant_snapshot list" where
  "past_rows mv d db = filter (\<lambda>r. model_version r = mv \<and> as_of r < d) (snapshots db)"

lemma load_previous_past:
  "past_rows mv d db = past_rows mv d db' \<Longrightarrow>
   load_previous_snapshot db mv d = load_previous_snapshot db' mv d"
  by (simp add: load_previous_snapshot_def past_rows_def)

lemma resume_input_past:
  "past_rows (in_model_version a) (in_as_of a) db = past_rows (in_model_version a) (in_as_of a) db' \<Longrightarrow>
   resume_input db a = resume_input db' a"
  unfolding resume_input_def using load_previous_past by metis

lemma newest_row_in: "newest_row r rs \<in> set (r # rs)"
proof (induction rs arbitrary: r)
  case (Cons q qs)
  show ?case
    using Cons.IH [of "if as_of r < as_of q \<or> as_of r = as_of q \<and> available_at r < available_at q
                 then q else r"] by (auto split: if_splits)
qed simp

lemma newest_row_max: "x \<in> set (r # rs) \<Longrightarrow> as_of x \<le> as_of (newest_row r rs)"
proof (induction rs arbitrary: r x)
  case (Cons q qs)
  let ?m = "if as_of r < as_of q \<or> as_of r = as_of q \<and> available_at r < available_at q then q else r"
  have "as_of ?m \<le> as_of (newest_row ?m qs)" by (rule Cons.IH) simp
  then show ?case using Cons.prems Cons.IH [of x ?m] by (auto split: if_splits)
qed simp

lemma load_previous_SomeD:
  assumes "load_previous_snapshot db mv d = Some (i, g, f)"
  obtains r where "r \<in> set (snapshots db)" "model_version r = mv" "as_of r < d"
    "snapshot_id r = i" "d_internal_sign (growth r) = g" "d_internal_sign (inflation r) = f"
    "\<And>q. q \<in> set (snapshots db) \<Longrightarrow> model_version q = mv \<Longrightarrow> as_of q < d \<Longrightarrow> as_of q \<le> as_of r"
proof -
  obtain q qs where q: "filter (\<lambda>r. model_version r = mv \<and> as_of r < d) (snapshots db) = q # qs"
    using assms by (auto simp: load_previous_snapshot_def split: list.splits)
  have in_rows: "x \<in> set (q # qs) \<longleftrightarrow> x \<in> set (snapshots db) \<and> model_version x = mv \<and> as_of x < d" for x
    using arg_cong [OF q, of set] by auto
  show thesis
    using newest_row_in [of q qs] newest_row_max [of _ q qs] in_rows assms
    by (intro that [of "newest_row q qs"]) (auto simp: load_previous_snapshot_def q Let_def)
qed

lemma set_upsert_row:
  "distinct (map snapshot_id rs) \<Longrightarrow>
   set (upsert_row s rs) = insert s {r \<in> set rs. snapshot_id r \<noteq> snapshot_id s}"
  by (induction rs) (auto simp: image_iff)

lemma ids_upsert_row: "snapshot_id ` set (upsert_row s rs) = insert (snapshot_id s) (snapshot_id ` set rs)"
  by (induction rs) auto

lemma distinct_upsert_row:
  "distinct (map snapshot_id rs) \<Longrightarrow> distinct (map snapshot_id (upsert_row s rs))"
  by (induction rs) (auto simp: ids_upsert_row)

lemma upsert_row_ids_present:
  "snapshot_id s \<in> snapshot_id ` set rs \<Longrightarrow>
   map snapshot_id (upsert_row s rs) = map snapshot_id rs"
  by (induction rs) auto

lemma upsert_row_again: "upsert_row s (upsert_row s rs) = upsert_row s rs"
  by (induction rs) auto

lemma upsert_row_twice:
  "snapshot_id t = snapshot_id s \<Longrightarrow> upsert_row t (upsert_row s rs) = upsert_row t rs"
  by (induction rs) auto

lemma filter_upsert_row:
  assumes "distinct (map snapshot_id rs)" "\<not> P s"
    and "\<And>r. r \<in> set rs \<Longrightarrow> snapshot_id r = snapshot_id s \<Longrightarrow> \<not> P r"
  shows "filter P (upsert_row s rs) = filter P rs"
  using assms by (induction rs) auto

subsection \<open>Invariant of the chain\<close>

definition python_date :: "date \<Rightarrow> bool" where
  "python_date d \<longleftrightarrow> valid_date d \<and> 1 \<le> year d \<and> year d \<le> 9999"

definition no_pipe :: "string \<Rightarrow> bool" where
  "no_pipe s \<longleftrightarrow> CHR ''|'' \<notin> set s"

text \<open>What the code relies on of \<open>uuid5\<close>: the text form of a UUID, 36 hexadecimal digits and dashes.\<close>

definition uuid_text :: "(string \<Rightarrow> string) \<Rightarrow> bool" where
  "uuid_text uuid5 \<longleftrightarrow> (\<forall>k. length (uuid5 k) = 36 \<and> no_pipe (uuid5 k))"

definition id_ok :: "string option \<Rightarrow> bool" where
  "id_ok p \<longleftrightarrow> (\<forall>x. p = Some x \<longrightarrow> length x = 36 \<and> no_pipe x)"

lemma zero_pad_no_pipe: "no_pipe (zero_pad k n)"
proof (induction k arbitrary: n)
  case (Suc k)
  have "digit_char n \<noteq> CHR ''|''"
  proof
    assume "digit_char n = CHR ''|''"
    then have "digit_val (CHR ''|'') = Some (n mod 10)" by (metis digit_val_digit_char)
    then show False by (simp add: digit_val_def)
  qed
  then show ?case using Suc by (auto simp: no_pipe_def)
qed (simp add: no_pipe_def)

lemma isoformat_no_pipe: "no_pipe (isoformat d)"
  using zero_pad_no_pipe by (simp add: isoformat_def no_pipe_def)

lemma isoformat_inj:
  "python_date d \<Longrightarrow> python_date e \<Longrightarrow> isoformat d = isoformat e \<Longrightarrow> d = e"
  by (metis fromisoformat_isoformat option.inject python_date_def)

lemma snapshot_key_inj:
  assumes "snapshot_key mv d h p = snapshot_key mv' d' h' p'"
    and "no_pipe mv" "no_pipe mv'" "no_pipe h" "no_pipe h'" "python_date d" "python_date d'"
    and "id_ok p" "id_ok p'"
  shows "mv = mv' \<and> d = d' \<and> h = h' \<and> p = p'"
proof -
  let ?last = "\<lambda>p. case p of None \<Rightarrow> ''GENESIS'' | Some q \<Rightarrow> if q = [] then ''GENESIS'' else q"
  have np: "no_pipe (?last q)" if "id_ok q" for q :: "string option"
    using that by (cases q) (auto simp: id_ok_def no_pipe_def)
  have "[mv, isoformat d, h, ?last p] = [mv', isoformat d', h', ?last p']"
    using assms np [OF assms(8)] np [OF assms(9)] isoformat_no_pipe [of d] isoformat_no_pipe [of d']
    unfolding snapshot_key_def by (intro str_join_inj [where c = "CHR ''|''"]) (auto simp: no_pipe_def)
  then have eq: "mv = mv'" "isoformat d = isoformat d'" "h = h'" "?last p = ?last p'" by simp_all
  have "p = p'"
    using eq(4) assms(8,9) by (cases p; cases p') (auto simp: id_ok_def split: if_splits)
  then show ?thesis using eq isoformat_inj assms(6,7) by blast
qed

definition row_key :: "quadrant_snapshot \<Rightarrow> string" where
  "row_key s = snapshot_key (model_version s) (as_of s) (source_vintage_hash s) (previous_snapshot_id s)"

definition row_ok :: "(string \<Rightarrow> string) \<Rightarrow> quadrant_snapshot set \<Rightarrow> quadrant_snapshot \<Rightarrow> bool" where
  "row_ok uuid5 rows s \<longleftrightarrow>
     snapshot_checks s \<and> python_date (as_of s) \<and> no_pipe (model_version s) \<and>
     no_pipe (source_vintage_hash s) \<and> snapshot_id s = uuid5 (row_key s) \<and>
     sign_ok (d_internal_sign (growth s)) \<and> sign_ok (d_internal_sign (inflation s)) \<and>
     (\<forall>p. previous_snapshot_id s = Some p \<longrightarrow>
        (\<exists>r \<in> rows. snapshot_id r = p \<and> model_version r = model_version s \<and> as_of r < as_of s))"

definition chain_ok :: "(string \<Rightarrow> string) \<Rightarrow> quadrant_db \<Rightarrow> bool" where
  "chain_ok uuid5 db \<longleftrightarrow> distinct (map snapshot_id (snapshots db)) \<and>
     (\<forall>s \<in> set (snapshots db). row_ok uuid5 (set (snapshots db)) s)"

text \<open>What a worker hands to \<open>resume_and_store\<close>.\<close>

definition run_input_ok :: "snapshot_input \<Rightarrow> bool" where
  "run_input_ok a \<longleftrightarrow>
     python_date (in_as_of a) \<and> no_pipe (in_model_version a) \<and> no_pipe (in_source_vintage_hash a) \<and>
     in_model_version a \<noteq> [] \<and> in_source_vintage_hash a \<noteq> [] \<and> critical_expiries a \<noteq> [] \<and>
     (\<forall>x \<in> {in_growth a, in_inflation a}.
       in_coverage x \<in> {0..1} \<and> in_freshness x \<in> {0..1} \<and> in_health x \<in> {0..1}) \<and>
     (\<forall>t \<in> set (input_available_ats a). t \<le> in_computed_at a) \<and>
     midnight (in_as_of a) \<le> in_computed_at a"

definition input_key :: "quadrant_db \<Rightarrow> snapshot_input \<Rightarrow> string" where
  "input_key db a = snapshot_key (in_model_version a) (in_as_of a) (in_source_vintage_hash a)
     (in_previous_snapshot_id (resume_input db a))"

text \<open>No stored row has the new row's identifier under another key.\<close>

definition no_collision :: "(string \<Rightarrow> string) \<Rightarrow> quadrant_db \<Rightarrow> snapshot_input \<Rightarrow> bool" where
  "no_collision uuid5 db a \<longleftrightarrow>
     (\<forall>r \<in> set (snapshots db). uuid5 (row_key r) = uuid5 (input_key db a) \<longrightarrow>
        row_key r = input_key db a)"

lemma resume_input_fields:
  "in_as_of (resume_input db a) = in_as_of a" "in_model_version (resume_input db a) = in_model_version a"
  "in_source_vintage_hash (resume_input db a) = in_source_vintage_hash a"
  "in_computed_at (resume_input db a) = in_computed_at a"
  "critical_expiries (resume_input db a) = critical_expiries a"
  "input_available_ats (resume_input db a) = input_available_ats a"
  "in_coverage (in_growth (resume_input db a)) = in_coverage (in_growth a)"
  "in_coverage (in_inflation (resume_input db a)) = in_coverage (in_inflation a)"
  "in_freshness (in_growth (resume_input db a)) = in_freshness (in_growth a)"
  "in_freshness (in_inflation (resume_input db a)) = in_freshness (in_inflation a)"
  "in_health (in_growth (resume_input db a)) = in_health (in_growth a)"
  "in_health (in_inflation (resume_input db a)) = in_health (in_inflation a)"
  by (simp_all add: resume_input_def Let_def case_prod_beta')

lemma chain_ok_ids:
  assumes "chain_ok uuid5 db" "uuid_text uuid5" "r \<in> set (snapshots db)"
  shows "length (snapshot_id r) = 36 \<and> no_pipe (snapshot_id r)" and "id_ok (previous_snapshot_id r)"
proof -
  have "row_ok uuid5 (set (snapshots db)) q" if "q \<in> set (snapshots db)" for q
    using assms(1) that by (simp add: chain_ok_def)
  then have ids: "length (snapshot_id q) = 36 \<and> no_pipe (snapshot_id q)"
    if "q \<in> set (snapshots db)" for q
    using assms(2) that by (simp add: row_ok_def uuid_text_def)
  show "length (snapshot_id r) = 36 \<and> no_pipe (snapshot_id r)" by (rule ids [OF assms(3)])
  show "id_ok (previous_snapshot_id r)"
    using assms(1,3) ids unfolding chain_ok_def row_ok_def id_ok_def by metis
qed

lemma resume_input_prev:
  assumes "chain_ok uuid5 db" "uuid_text uuid5"
  shows "sign_ok (in_prev_sign (in_growth (resume_input db a)))"
    and "sign_ok (in_prev_sign (in_inflation (resume_input db a)))"
    and "id_ok (in_previous_snapshot_id (resume_input db a))"
    and "in_previous_snapshot_id (resume_input db a) = Some p \<Longrightarrow>
      \<exists>r \<in> set (snapshots db). snapshot_id r = p \<and> model_version r = in_model_version a \<and>
        as_of r < in_as_of a"
proof -
  have main: "sign_ok (in_prev_sign (in_growth (resume_input db a))) \<and>
    sign_ok (in_prev_sign (in_inflation (resume_input db a))) \<and>
    id_ok (in_previous_snapshot_id (resume_input db a)) \<and>
    (in_previous_snapshot_id (resume_input db a) = Some p \<longrightarrow>
      (\<exists>r \<in> set (snapshots db). snapshot_id r = p \<and> model_version r = in_model_version a \<and>
        as_of r < in_as_of a))" for p
  proof (cases "load_previous_snapshot db (in_model_version a) (in_as_of a)")
    case None
    then show ?thesis by (simp add: resume_input_def sign_ok_def id_ok_def)
  next
    case (Some t)
    obtain i g f where t: "t = (i, g, f)" by (cases t)
    show ?thesis
    proof (rule load_previous_SomeD [OF Some [unfolded t]])
      fix r assume r: "r \<in> set (snapshots db)" "model_version r = in_model_version a"
        "as_of r < in_as_of a" "snapshot_id r = i" "d_internal_sign (growth r) = g"
        "d_internal_sign (inflation r) = f"
      then have "sign_ok g" "sign_ok f"
        using assms(1) by (auto simp: chain_ok_def row_ok_def)
      moreover have "id_ok (Some i)"
        using chain_ok_ids(1) [OF assms r(1)] r(4) by (simp add: id_ok_def)
      ultimately show ?thesis
        using r by (auto simp: resume_input_def Some t)
    qed
  qed
  from main show "sign_ok (in_prev_sign (in_growth (resume_input db a)))"
    "sign_ok (in_prev_sign (in_inflation (resume_input db a)))"
    "id_ok (in_previous_snapshot_id (resume_input db a))" by simp_all
  show "in_previous_snapshot_id (resume_input db a) = Some p \<Longrightarrow>
      \<exists>r \<in> set (snapshots db). snapshot_id r = p \<and> model_version r = in_model_version a \<and>
        as_of r < in_as_of a" using main [of p] by simp
qed

lemma resume_and_store_step:
  assumes "uuid_text uuid5" "chain_ok uuid5 db" "run_input_ok a" "no_collision uuid5 db a"
  obtains s db' where "resume_and_store uuid5 cdf a gc ic db = Inr (db', s)" "chain_ok uuid5 db'"
    "build_snapshot uuid5 cdf (resume_input db a) = Inr s"
    "snapshots db' = upsert_row s (snapshots db)"
    "audit db' = dict_update (audit db) (audit_records (snapshot_id s) [(''growth'', gc), (''inflation'', ic)])"
    "model_version s = in_model_version a" "as_of s = in_as_of a" "row_key s = input_key db a"
    "snapshot_id s = uuid5 (row_key s)"
    "\<And>r. r \<in> set (snapshots db) \<Longrightarrow> snapshot_id r = snapshot_id s \<Longrightarrow> version_key r = version_key s"
proof -
  let ?a = "resume_input db a"
  note wf = assms(3)[unfolded run_input_ok_def]
  note prev = resume_input_prev [OF assms(2,1), of a]
  have ok: "input_ok ?a" using prev wf by (simp add: input_ok_def resume_input_fields)
  show thesis
  proof (rule build_snapshot_ok [OF ok, of uuid5 cdf])
    fix s assume s: "build_snapshot uuid5 cdf ?a = Inr s"
      and g: "growth s = diag_of (classify_axis cdf (in_growth ?a))"
      and i: "inflation s = diag_of (classify_axis cdf (in_inflation ?a))"
      and f: "as_of s = in_as_of ?a" "model_version s = in_model_version ?a"
        "source_vintage_hash s = in_source_vintage_hash ?a"
        "previous_snapshot_id s = in_previous_snapshot_id ?a"
      and id: "snapshot_id s = make_snapshot_id uuid5 (in_model_version ?a) (in_as_of ?a)
          (in_source_vintage_hash ?a) (in_previous_snapshot_id ?a)"
    note f' = f [unfolded resume_input_fields]
    have checks: "snapshot_checks s"
      using wf by (intro build_snapshot_passes [OF ok s]) (simp_all add: resume_input_fields)
    have key: "row_key s = input_key db a" by (simp add: row_key_def input_key_def f')
    have sid: "snapshot_id s = uuid5 (row_key s)"
      by (simp add: id make_snapshot_id_def row_key_def f)
    have signs: "sign_ok (d_internal_sign (growth s))" "sign_ok (d_internal_sign (inflation s))"
      using prev by (simp_all add: g i classify_internal_ok)
    have row: "row_ok uuid5 (set (snapshots db)) s"
      using checks wf signs sid prev(4) f' by (simp add: row_ok_def)
    have rows: "row_ok uuid5 (set (snapshots db)) r" if "r \<in> set (snapshots db)" for r
      using assms(2) that by (simp add: chain_ok_def)
    have inj: "version_key r = version_key s"
      if "r \<in> set (snapshots db)" "row_key r = row_key s" for r
    proof -
      have "model_version r = model_version s \<and> as_of r = as_of s \<and>
        source_vintage_hash r = source_vintage_hash s \<and>
        previous_snapshot_id r = previous_snapshot_id s"
        using rows [OF that(1)] row chain_ok_ids(2) [OF assms(2,1) that(1)] prev(3) f'
        by (intro snapshot_key_inj [OF that(2) [unfolded row_key_def]]) (simp_all add: row_ok_def)
      then show ?thesis by (simp add: version_key_def)
    qed
    have same: "version_key r = version_key s"
      if "r \<in> set (snapshots db)" "snapshot_id r = snapshot_id s" for r
    proof (rule inj [OF that(1)])
      have "uuid5 (row_key r) = uuid5 (input_key db a)"
        using rows [OF that(1)] that(2) sid key by (simp add: row_ok_def)
      then show "row_key r = row_key s"
        using assms(4) that(1) key by (simp add: no_collision_def)
    qed
    have unique: "\<not> (\<exists>r \<in> set (snapshots db). snapshot_id r \<noteq> snapshot_id s \<and> version_key r = version_key s)"
      using rows sid by (auto simp: version_key_def row_ok_def row_key_def)
    define db' where "db' = db\<lparr> snapshots := upsert_row s (snapshots db),
      audit := dict_update (audit db)
        (audit_records (snapshot_id s) [(''growth'', gc), (''inflation'', ic)]) \<rparr>"
    have run: "resume_and_store uuid5 cdf a gc ic db = Inr (db', s)"
      using checks unique by (simp add: resume_and_store_def s upsert_snapshot_def db'_def)
    have set': "set (snapshots db') = insert s {r \<in> set (snapshots db). snapshot_id r \<noteq> snapshot_id s}"
      using assms(2) by (simp add: db'_def set_upsert_row chain_ok_def)
    have keep: "\<exists>r' \<in> set (snapshots db'). snapshot_id r' = snapshot_id r \<and>
        model_version r' = model_version r \<and> as_of r' = as_of r" if "r \<in> set (snapshots db)" for r
      using same [OF that] that by (cases "snapshot_id r = snapshot_id s") (auto simp: set' version_key_def)
    have lift: "row_ok uuid5 (set (snapshots db')) q" if "row_ok uuid5 (set (snapshots db)) q" for q
      using that keep unfolding row_ok_def by metis
    have "distinct (map snapshot_id (snapshots db'))"
      using assms(2) by (simp add: db'_def distinct_upsert_row chain_ok_def)
    moreover have "\<forall>q \<in> set (snapshots db'). row_ok uuid5 (set (snapshots db')) q"
      using lift [OF row] lift [OF rows] unfolding set' by auto
    ultimately have "chain_ok uuid5 db'" by (simp add: chain_ok_def)
    then show thesis
      using that [of db' s] run s sid key same f' by (simp add: db'_def)
  qed
qed

text \<open>Runs of the workers, in any order of dates, from the empty tables.\<close>

inductive quadrant_reachable ::
  "(string \<Rightarrow> string) \<Rightarrow> (real \<Rightarrow> real) \<Rightarrow> quadrant_db \<Rightarrow> bool" for uuid5 cdf where
  genesis: "quadrant_reachable uuid5 cdf \<lparr> snapshots = [], audit = [] \<rparr>"
| run: "quadrant_reachable uuid5 cdf db \<Longrightarrow> run_input_ok a \<Longrightarrow> no_collision uuid5 db a \<Longrightarrow>
    resume_and_store uuid5 cdf a gc ic db = Inr (db', s) \<Longrightarrow> quadrant_reachable uuid5 cdf db'"

inductive_cases quadrant_reachableE: "quadrant_reachable uuid5 cdf db"

lemma reachable_chain_ok:
  assumes "uuid_text uuid5" "quadrant_reachable uuid5 cdf db"
  shows "chain_ok uuid5 db"
  using assms(2)
proof induction
  case genesis
  show ?case by (simp add: chain_ok_def)
next
  case (run db a gc ic db' s)
  then show ?case
    using resume_and_store_step [OF assms(1) run.IH run(2,3), of cdf gc ic] by (metis Inr_inject Pair_inject)
qed

text \<open>
  C1: whatever runs of the quadrant workers filled the tables, in whatever order of dates,
  backfills included: snapshot identifiers are unique, every row passes the table's
  constraints and carries the identifier of its own model, date, hash and predecessor, its
  latched signs are empty or a sign, and its predecessor, when it has one, is a stored row
  of the same model with a strictly earlier date. So a latched chain never loops and never
  reaches into the future.
\<close>

theorem latched_chain_invariant:
  assumes "uuid_text uuid5" "quadrant_reachable uuid5 cdf db"
  shows "distinct (map snapshot_id (snapshots db)) \<and>
    (\<forall>s \<in> set (snapshots db). snapshot_checks s \<and>
       snapshot_id s = make_snapshot_id uuid5 (model_version s) (as_of s)
         (source_vintage_hash s) (previous_snapshot_id s) \<and>
       d_internal_sign (growth s) \<in> {None, Some 1, Some (-1)} \<and>
       d_internal_sign (inflation s) \<in> {None, Some 1, Some (-1)} \<and>
       (\<forall>p. previous_snapshot_id s = Some p \<longrightarrow>
         (\<exists>r \<in> set (snapshots db). snapshot_id r = p \<and> model_version r = model_version s \<and>
            as_of r < as_of s)))"
  using reachable_chain_ok [OF assms]
  unfolding chain_ok_def row_ok_def row_key_def make_snapshot_id_def sign_ok_def
  by (intro conjI ballI) blast+

text \<open>
  A run always succeeds on reachable tables and running a date again is idempotent.
  The second run of the same date, model and input hash finds the same predecessor and
  writes the same snapshot identifier: no row is added and no other row changes, whatever
  else differs in its inputs; with equal inputs nothing changes at all.
\<close>

theorem rerun_idempotent:
  assumes "uuid_text uuid5" "quadrant_reachable uuid5 cdf db"
    and "run_input_ok a" "no_collision uuid5 db a"
    and "run_input_ok a'" "in_model_version a' = in_model_version a" "in_as_of a' = in_as_of a"
      "in_source_vintage_hash a' = in_source_vintage_hash a"
  shows "\<exists>db1 s1 db2 s2.
    resume_and_store uuid5 cdf a gc ic db = Inr (db1, s1) \<and>
    resume_and_store uuid5 cdf a' gc' ic' db1 = Inr (db2, s2) \<and>
    snapshot_id s2 = snapshot_id s1 \<and> previous_snapshot_id s2 = previous_snapshot_id s1 \<and>
    map snapshot_id (snapshots db2) = map snapshot_id (snapshots db1) \<and>
    (\<forall>r. snapshot_id r \<noteq> snapshot_id s1 \<longrightarrow> (r \<in> set (snapshots db2) \<longleftrightarrow> r \<in> set (snapshots db1))) \<and>
    (a' = a \<and> gc' = gc \<and> ic' = ic \<and> dict_ok (audit db) \<longrightarrow> db2 = db1 \<and> s2 = s1)"
proof -
  have chain: "chain_ok uuid5 db" by (rule reachable_chain_ok [OF assms(1,2)])
  obtain s1 db1 where r1: "resume_and_store uuid5 cdf a gc ic db = Inr (db1, s1)"
    and c1: "chain_ok uuid5 db1" and b1: "build_snapshot uuid5 cdf (resume_input db a) = Inr s1"
    and rows1: "snapshots db1 = upsert_row s1 (snapshots db)"
    and au1: "audit db1 = dict_update (audit db) (audit_records (snapshot_id s1) [(''growth'', gc), (''inflation'', ic)])"
    and f1: "model_version s1 = in_model_version a" "as_of s1 = in_as_of a"
    and k1: "row_key s1 = input_key db a" "snapshot_id s1 = uuid5 (row_key s1)"
    and same1: "\<And>r. r \<in> set (snapshots db) \<Longrightarrow> snapshot_id r = snapshot_id s1 \<Longrightarrow> version_key r = version_key s1"
    using resume_and_store_step [OF assms(1) chain assms(3,4), of cdf gc ic] by metis
  have past: "past_rows mv (in_as_of a) db1 = past_rows mv (in_as_of a) db" for mv
    unfolding past_rows_def rows1
  proof (rule filter_upsert_row)
    show "distinct (map snapshot_id (snapshots db))" using chain by (simp add: chain_ok_def)
    show "\<not> (model_version s1 = mv \<and> as_of s1 < in_as_of a)" using f1 by simp
    show "\<not> (model_version r = mv \<and> as_of r < in_as_of a)"
      if "r \<in> set (snapshots db)" "snapshot_id r = snapshot_id s1" for r
      using same1 [OF that] f1 by (simp add: version_key_def)
  qed
  have prev: "in_previous_snapshot_id (resume_input db1 a') = in_previous_snapshot_id (resume_input db a)"
    using load_previous_past [OF past, of "in_model_version a"] assms(6,7)
    by (simp add: resume_input_def Let_def case_prod_beta')
  have key: "input_key db1 a' = row_key s1"
    by (simp add: k1(1) input_key_def prev assms(6-8))
  have nc: "no_collision uuid5 db1 a'"
    unfolding no_collision_def
  proof (intro ballI impI)
    fix r assume r: "r \<in> set (snapshots db1)" and eq: "uuid5 (row_key r) = uuid5 (input_key db1 a')"
    have "r = s1 \<or> r \<in> set (snapshots db)"
      using r chain by (auto simp: rows1 set_upsert_row chain_ok_def)
    then show "row_key r = input_key db1 a'"
      using assms(4) eq by (auto simp: key k1(1) no_collision_def)
  qed
  obtain s2 db2 where r2: "resume_and_store uuid5 cdf a' gc' ic' db1 = Inr (db2, s2)"
    and b2: "build_snapshot uuid5 cdf (resume_input db1 a') = Inr s2"
    and rows2: "snapshots db2 = upsert_row s2 (snapshots db1)"
    and au2: "audit db2 = dict_update (audit db1) (audit_records (snapshot_id s2) [(''growth'', gc'), (''inflation'', ic')])"
    and k2: "row_key s2 = input_key db1 a'" "snapshot_id s2 = uuid5 (row_key s2)"
    and same2: "\<And>r. r \<in> set (snapshots db1) \<Longrightarrow> snapshot_id r = snapshot_id s2 \<Longrightarrow> version_key r = version_key s2"
    using resume_and_store_step [OF assms(1) c1 assms(5) nc, of cdf gc' ic'] by metis
  have id: "snapshot_id s2 = snapshot_id s1" using k1(2) k2 key by simp
  have mem: "s1 \<in> set (snapshots db1)" using chain by (simp add: rows1 set_upsert_row chain_ok_def)
  have vk: "version_key s2 = version_key s1" using same2 [OF mem] id by simp
  have "map snapshot_id (snapshots db2) = map snapshot_id (snapshots db1)"
    unfolding rows2 using mem id by (intro upsert_row_ids_present) (simp add: image_iff, metis)
  moreover have "r \<in> set (snapshots db2) \<longleftrightarrow> r \<in> set (snapshots db1)"
    if "snapshot_id r \<noteq> snapshot_id s1" for r
    using c1 that id by (auto simp: rows2 set_upsert_row chain_ok_def)
  moreover have "a' = a \<and> gc' = gc \<and> ic' = ic \<and> dict_ok (audit db) \<longrightarrow> db2 = db1 \<and> s2 = s1"
  proof
    assume "a' = a \<and> gc' = gc \<and> ic' = ic \<and> dict_ok (audit db)"
    then have eq: "a' = a" "gc' = gc" "ic' = ic" "dict_ok (audit db)" by simp_all
    have "resume_input db1 a = resume_input db a" by (rule resume_input_past [OF past])
    then have s: "s2 = s1" using b1 b2 eq by simp
    then show "db2 = db1 \<and> s2 = s1"
      using rows1 rows2 au1 au2 eq by (simp add: upsert_row_again dict_update_idem)
  qed
  moreover have "previous_snapshot_id s2 = previous_snapshot_id s1"
    using vk by (simp add: version_key_def)
  ultimately show ?thesis using r1 r2 id by blast
qed

text \<open>
  No look-ahead. The snapshot of a run for a date depends on the stored rows of its
  model strictly before that date and on nothing else in the tables: two reachable states
  that agree on those give the same snapshot, whatever later rows or other models hold.
\<close>

theorem run_no_look_ahead:
  assumes "past_rows (in_model_version a) (in_as_of a) db = past_rows (in_model_version a) (in_as_of a) db'"
    and "resume_and_store uuid5 cdf a gc ic db = Inr (db1, s)"
    and "resume_and_store uuid5 cdf a gc' ic' db' = Inr (db1', s')"
  shows "s' = s"
  using assms(2,3) resume_input_past [OF assms(1)]
  by (auto simp: resume_and_store_def bindE_Inr_iff)

text \<open>A run of 2026-07-17 on the empty tables, as input of the witnesses.\<close>

definition sample_axis :: "axis_input" where
  "sample_axis = \<lparr> in_score = Some (1/2), in_history = [], in_prev_sign = None,
     in_coverage = 1, in_freshness = 1, in_health = 1, in_u_floor = 1/4 \<rparr>"

definition sample_input :: "snapshot_input" where
  "sample_input =
     \<lparr> in_as_of = Date 2026 7 17, in_computed_at = midnight (Date 2026 7 17) + 3600000000,
       in_previous_snapshot_id = None, in_growth = sample_axis, in_inflation = sample_axis,
       input_available_ats = [midnight (Date 2026 7 17)], critical_expiries = [0],
       in_model_version = ''m'', in_confidence_method = ''c'', in_source_vintage_hash = ''h'',
       critical_structural_failure = False, in_confidence_model_version = ''v'' \<rparr>"

definition sample_uuid5 :: "string \<Rightarrow> string" where
  "sample_uuid5 k = replicate 36 CHR ''a''"

lemma sample_ok:
  "uuid_text sample_uuid5" "run_input_ok sample_input"
  "no_collision sample_uuid5 \<lparr> snapshots = [], audit = [] \<rparr> sample_input"
  by (simp_all add: uuid_text_def no_pipe_def sample_uuid5_def run_input_ok_def sample_input_def
      sample_axis_def python_date_def valid_date_def days_in_month_def no_collision_def)

theorem rerun_idempotent_witness:
  "\<exists>db1 s1. resume_and_store sample_uuid5 (\<lambda>x. 1) sample_input [] []
      \<lparr> snapshots = [], audit = [] \<rparr> = Inr (db1, s1) \<and>
    resume_and_store sample_uuid5 (\<lambda>x. 1) sample_input [] [] db1 = Inr (db1, s1)"
  using rerun_idempotent [OF sample_ok(1) quadrant_reachable.genesis sample_ok(2,3) sample_ok(2)
      refl refl refl, of "\<lambda>x. 1" "[]" "[]" "[]" "[]"] by auto

theorem latched_chain_invariant_witness:
  "\<exists>db s. quadrant_reachable sample_uuid5 (\<lambda>x. 1) db \<and> s \<in> set (snapshots db) \<and> snapshot_checks s"
proof -
  have "chain_ok sample_uuid5 \<lparr> snapshots = [], audit = [] \<rparr>" by (simp add: chain_ok_def)
  from resume_and_store_step [OF sample_ok(1) this sample_ok(2,3)] obtain s db' where
    r: "resume_and_store sample_uuid5 (\<lambda>x. 1) sample_input [] [] \<lparr> snapshots = [], audit = [] \<rparr> = Inr (db', s)"
    and rows: "snapshots db' = upsert_row s []" by (metis select_convs(1))
  have "quadrant_reachable sample_uuid5 (\<lambda>x. 1) db'"
    by (rule quadrant_reachable.run [OF quadrant_reachable.genesis sample_ok(2,3) r])
  then show ?thesis
    using latched_chain_invariant [OF sample_ok(1), of "\<lambda>x. 1" db'] rows by auto
qed

theorem run_no_look_ahead_witness:
  "\<exists>db1 s db2. resume_and_store sample_uuid5 (\<lambda>x. 1) sample_input [] [] \<lparr> snapshots = [], audit = [] \<rparr>
      = Inr (db1, s) \<and> snapshots db1 = [s] \<and>
    resume_and_store sample_uuid5 (\<lambda>x. 1) sample_input [(''X'', 1)] [] db1 = Inr (db2, s)"
proof -
  let ?db = "\<lparr> snapshots = [], audit = [] \<rparr>"
  have "chain_ok sample_uuid5 ?db" by (simp add: chain_ok_def)
  from resume_and_store_step [OF sample_ok(1) this sample_ok(2,3)] obtain s db1 where
    r1: "resume_and_store sample_uuid5 (\<lambda>x. 1) sample_input [] [] ?db = Inr (db1, s)"
    and c1: "chain_ok sample_uuid5 db1" and rows: "snapshots db1 = [s]"
    and f: "as_of s = in_as_of sample_input" "row_key s = input_key ?db sample_input"
    by (metis select_convs(1) upsert_row.simps(1))
  have past: "past_rows mv (in_as_of sample_input) db1 = past_rows mv (in_as_of sample_input) ?db" for mv
    using f by (simp add: past_rows_def rows)
  have "input_key db1 sample_input = input_key ?db sample_input"
    unfolding input_key_def resume_input_past [OF past] ..
  then have "no_collision sample_uuid5 db1 sample_input"
    using f by (simp add: no_collision_def rows)
  from resume_and_store_step [OF sample_ok(1) c1 sample_ok(2) this] obtain s2 db2 where
    r2: "resume_and_store sample_uuid5 (\<lambda>x. 1) sample_input [(''X'', 1)] [] db1 = Inr (db2, s2)"
    by metis
  have "s2 = s" by (rule run_no_look_ahead [OF past [symmetric] r1 r2])
  then show ?thesis using r1 r2 rows by blast
qed

end
