(* ===== verification/Price_Series.thy ===== *)
theory Price_Series
  imports Calendar
begin

text \<open>
  Price histories as the price clients return them: pairs of a date and a close that may be
  missing. Shared by the market workers. The two states of the regime detectors, the strings
  \<open>risk_on\<close> and \<open>risk_off\<close> of the code, are a datatype.
\<close>

type_synonym price_history = "(date \<times> real option) list"

definition positive_prices :: "price_history \<Rightarrow> (date, real) dict" where
  "positive_prices xs =
     dict_update [] (concat (map (\<lambda>(d, v). case v of
       None \<Rightarrow> [] | Some x \<Rightarrow> if x > 0 then [(d, x)] else []) xs))"

text \<open>The part of a history up to a day.\<close>

definition until_day :: "date \<Rightarrow> price_history \<Rightarrow> price_history" where
  "until_day d xs = filter (\<lambda>p. fst p \<le> d) xs"

datatype risk = Risk_on | Risk_off

lemma risk_cases: "r \<noteq> Risk_off \<longleftrightarrow> r = Risk_on" "r \<noteq> Risk_on \<longleftrightarrow> r = Risk_off"
  by (cases r; simp)+

text \<open>Prices of days up to a day are looked up alike in the history up to that day.\<close>

lemma positive_prices_get:
  "dict_get (positive_prices xs) d = dict_get (rev (concat (map (\<lambda>(d, v). case v of
       None \<Rightarrow> [] | Some x \<Rightarrow> if x > 0 then [(d, x)] else []) xs))) d"
  by (simp add: positive_prices_def dict_get_update)

lemma positive_prices_until:
  assumes "P d"
  shows "dict_get (positive_prices (filter (\<lambda>p. P (fst p)) xs)) d = dict_get (positive_prices xs) d"
proof -
  have "dict_get (rev (concat (map (\<lambda>(d, v). case v of None \<Rightarrow> [] | Some x \<Rightarrow> if x > 0 then [(d, x)] else [])
        (filter (\<lambda>p. P (fst p)) xs)))) d
      = dict_get (rev (concat (map (\<lambda>(d, v). case v of None \<Rightarrow> [] | Some x \<Rightarrow> if x > (0::real) then [(d, x)] else []) xs))) d"
    using assms by (induction xs) (auto simp: map_add_def split: option.splits)
  then show ?thesis by (simp only: positive_prices_get)
qed

end
