(* ===== verification/Quadrant_Workers.thy ===== *)
theory Quadrant_Workers
  imports Macro_Score Quadrant_Snapshot Price_Series
begin

text \<open>
  The two workers that write quadrant snapshots: \<open>src/workers/quadrant_market.py\<close> (scores
  from market proxies) and \<open>src/workers/quadrant_macro.py\<close> (scores from the point-in-time
  vintage store). Prices and vintages are the inputs of the model; the advisory lock is the
  flag \<open>got\<close>; the SHA-256 of the canonical payload is a parameter.
\<close>

subsection \<open>Market-implied scores\<close>

definition MARKET_MODEL_VERSION :: string where "MARKET_MODEL_VERSION = ''market_implied_quadrant_v0''"
definition MARKET_CONFIDENCE_METHOD :: string where
  "MARKET_CONFIDENCE_METHOD = ''rolling_score_mad_252bd_v1''"
definition WINDOW :: nat where "WINDOW = 126"
definition HISTORY_BD :: nat where "HISTORY_BD = 252"
definition U_FLOOR_SEED :: real where "U_FLOOR_SEED = 25 / 100"

definition window_return :: "real list \<Rightarrow> nat \<Rightarrow> real option" where
  "window_return levels_desc look =
     (if length levels_desc \<le> look then None
      else (let now = levels_desc ! 0; past = levels_desc ! look
            in if past > 0 then Some (now / past - 1) else None))"

definition rolling_score_history :: "real list \<Rightarrow> nat \<Rightarrow> nat \<Rightarrow> real list" where
  "rolling_score_history levels_desc look span_days =
     concat (map (\<lambda>offset. case window_return (drop offset levels_desc) look of
       None \<Rightarrow> [] | Some r \<Rightarrow> [r]) [0..<span_days])"

text \<open>
  The loop over the SPY days: SPY is the spine, TIP and IEF are carried forward. The
  state is \<open>(last_ief, last_tip, spy_levels, be_levels)\<close>, the lists oldest first.
\<close>

fun level_step ::
  "(date, real) dict \<Rightarrow> (date, real) dict \<Rightarrow> date \<times> real option \<Rightarrow>
   real option \<times> real option \<times> real list \<times> real option list \<Rightarrow>
   real option \<times> real option \<times> real list \<times> real option list" where
  "level_step ief_by tip_by (d, px) (last_ief, last_tip, spy_levels, be_levels) =
     (case px of
        None \<Rightarrow> (last_ief, last_tip, spy_levels, be_levels)
      | Some p \<Rightarrow>
          if p \<le> 0 then (last_ief, last_tip, spy_levels, be_levels)
          else (let last_ief' = (case dict_get ief_by d of None \<Rightarrow> last_ief | Some x \<Rightarrow> Some x);
                    last_tip' = (case dict_get tip_by d of None \<Rightarrow> last_tip | Some x \<Rightarrow> Some x);
                    be = (case (last_tip', last_ief') of
                            (Some t, Some i) \<Rightarrow> if i > 0 then Some (t / i) else None
                          | _ \<Rightarrow> None)
                in (last_ief', last_tip', spy_levels @ [p], be_levels @ [be])))"

definition fetch_levels ::
  "price_history \<Rightarrow> price_history \<Rightarrow> price_history \<Rightarrow> py_error + real list \<times> real option list" where
  "fetch_levels spy ief tip =
     (if spy = [] then Inl RuntimeError
      else (let (_, _, spy_levels, be_levels) =
              fold (level_step (positive_prices ief) (positive_prices tip)) (sort_key fst spy)
                (None, None, [], [])
            in Inr (rev spy_levels, rev be_levels)))"

text \<open>\<open>x or 0\<close>\<close>

definition or_zero :: "real option \<Rightarrow> real" where
  "or_zero x = (case x of None \<Rightarrow> 0 | Some v \<Rightarrow> v)"

definition market_input ::
  "(real \<Rightarrow> real \<Rightarrow> string \<Rightarrow> string) \<Rightarrow> date \<Rightarrow> datetime \<Rightarrow> real list \<Rightarrow> real option list \<Rightarrow>
   snapshot_input" where
  "market_input vhash d now spy_desc be_desc =
     (let be_clean = concat (map (\<lambda>b. case b of None \<Rightarrow> [] | Some x \<Rightarrow> [x]) be_desc);
          g_score = window_return spy_desc WINDOW;
          i_score = (if length be_clean > WINDOW then window_return be_clean WINDOW else None);
          g_ok = (if g_score \<noteq> None then 1 else 0);
          i_ok = (if i_score \<noteq> None then 1 else 0)
      in \<lparr> in_as_of = d, in_computed_at = now, in_previous_snapshot_id = None,
           in_growth = \<lparr> in_score = g_score,
             in_history = rolling_score_history spy_desc WINDOW HISTORY_BD, in_prev_sign = None,
             in_coverage = g_ok, in_freshness = 1, in_health = g_ok, in_u_floor = U_FLOOR_SEED \<rparr>,
           in_inflation = \<lparr> in_score = i_score,
             in_history = rolling_score_history be_clean WINDOW HISTORY_BD, in_prev_sign = None,
             in_coverage = i_ok, in_freshness = 1, in_health = i_ok, in_u_floor = U_FLOOR_SEED \<rparr>,
           input_available_ats = [now],
           critical_expiries = [source_expiry now (add_business_days now 1) 0 (3 * day_us) 0],
           in_model_version = MARKET_MODEL_VERSION,
           in_confidence_method = MARKET_CONFIDENCE_METHOD,
           in_source_vintage_hash = vhash (or_zero g_score) (or_zero i_score) (isoformat d),
           critical_structural_failure = False,
           in_confidence_model_version = ''confidence_v1.0'' \<rparr>)"

definition single_contribution :: "string \<Rightarrow> real option \<Rightarrow> (string, real) dict" where
  "single_contribution name score = (case score of None \<Rightarrow> [] | Some s \<Rightarrow> [(name, s)])"

text \<open>What the market run computes before it touches the tables: the input and the contributions.\<close>

definition market_run_input ::
  "(real \<Rightarrow> real \<Rightarrow> string \<Rightarrow> string) \<Rightarrow> date option \<Rightarrow> datetime \<Rightarrow>
   price_history \<times> price_history \<times> price_history \<Rightarrow>
   py_error + snapshot_input \<times> (string, real) dict \<times> (string, real) dict" where
  "market_run_input vhash calc_date now prices =
     (let d = (case calc_date of None \<Rightarrow> dt_date now | Some c \<Rightarrow> c);
          (spy, ief, tip) = prices
      in bindE (fetch_levels spy ief tip) (\<lambda>(spy_desc, be_desc).
           let a = market_input vhash d now spy_desc be_desc
           in Inr (a, single_contribution ''SPY_126d'' (in_score (in_growth a)),
                   single_contribution ''TIP_IEF_126d'' (in_score (in_inflation a)))))"

text \<open>\<open>None\<close> in the result is the run that found the lock busy.\<close>

definition market_run ::
  "(string \<Rightarrow> string) \<Rightarrow> (real \<Rightarrow> real) \<Rightarrow> (real \<Rightarrow> real \<Rightarrow> string \<Rightarrow> string) \<Rightarrow> bool \<Rightarrow>
   date option \<Rightarrow> datetime \<Rightarrow> price_history \<times> price_history \<times> price_history \<Rightarrow> quadrant_db \<Rightarrow>
   py_error + quadrant_db \<times> quadrant_snapshot option" where
  "market_run uuid5 cdf vhash got calc_date now prices db =
     (if \<not> got then Inr (db, None)
      else bindE (market_run_input vhash calc_date now prices) (\<lambda>(a, gc, ic).
           bindE (resume_and_store uuid5 cdf a gc ic db) (\<lambda>(db', s). Inr (db', Some s))))"

subsection \<open>Provenance\<close>

text \<open>The values the payload of \<open>_vintage_hash\<close> is made of, and their canonical form.\<close>

datatype pval = PNone | PInt int | PFloat real | PStr string | PTuple "pval list"
  | PDict "(string \<times> pval) list"

fun canonical :: "pval \<Rightarrow> pval" where
  "canonical (PDict d) =
     PTuple (map (\<lambda>(k, v). PTuple [PStr k, v]) (sort_key fst (map (\<lambda>(k, v). (k, canonical v)) d)))"
| "canonical (PTuple xs) = PTuple (map canonical xs)"
| "canonical v = v"

definition float_opt :: "real option \<Rightarrow> pval" where
  "float_opt x = (case x of None \<Rightarrow> PNone | Some v \<Rightarrow> PFloat v)"

definition vintage_payload ::
  "(string, real option) dict \<Rightarrow> (string, real option) dict \<Rightarrow> date \<Rightarrow>
   (string, int) dict \<Rightarrow> (string, int) dict \<Rightarrow> (string \<times> pval) list \<Rightarrow> pval" where
  "vintage_payload g_z i_z d g_counts i_counts confidence_inputs =
     canonical (PTuple [PDict (map (\<lambda>(k, z). (k, float_opt z)) g_z),
       PDict (map (\<lambda>(k, z). (k, float_opt z)) i_z),
       PStr (isoformat d),
       PDict (map (\<lambda>(k, n). (k, PInt n)) g_counts),
       PDict (map (\<lambda>(k, n). (k, PInt n)) i_counts),
       PTuple (map (\<lambda>(label, v). PTuple [PStr label, v]) confidence_inputs)])"

subsection \<open>Macro scores\<close>

definition MACRO_MODEL_VERSION :: string where "MACRO_MODEL_VERSION = ''macro_quadrant_us_v1.1''"
definition MACRO_CONFIDENCE_METHOD :: string where
  "MACRO_CONFIDENCE_METHOD = ''rolling_score_mad_distinct_vintages_v1''"
definition SCORE_HISTORY_VINTAGES :: nat where "SCORE_HISTORY_VINTAGES = 36"
definition FRESHNESS_DECAY_WINDOW :: timedelta where "FRESHNESS_DECAY_WINDOW = 14 * day_us"
definition STANDARDIZATION_WINDOW_YEARS :: int where "STANDARDIZATION_WINDOW_YEARS = 10"

definition valid_history_count ::
  "macro_source_spec \<Rightarrow> (date, real) dict \<Rightarrow> date \<Rightarrow> int \<Rightarrow> py_error + int" where
  "valid_history_count spec series d window_years =
     bindE (economic_transform (economic_transform_id spec) series (neutral_level spec))
       (\<lambda>transformed. bindE (standardization_window transformed d window_years)
         (\<lambda>eligible. Inr (int (length eligible))))"

record axis_result =
  ar_score :: "real option"
  ar_contributions :: "(string, real) dict"
  ar_z :: "(string, real option) dict"
  ar_available_ats :: "datetime list"
  ar_expiries :: "datetime list"
  ar_counts :: "(string, int) dict"

text \<open>The body of the loop of \<open>_score_axis\<close> for one source.\<close>

definition score_source ::
  "(string, (date, real) dict) dict \<Rightarrow> date \<Rightarrow> macro_source_spec \<Rightarrow>
   py_error + string \<times> real option \<times> int" where
  "score_source pit d spec =
     (let series = dict_get_default pit (series_id spec) []
      in bindE (standardized_latest spec series d STANDARDIZATION_WINDOW_YEARS) (\<lambda>z.
         bindE (valid_history_count spec series d STANDARDIZATION_WINDOW_YEARS) (\<lambda>n.
           Inr (series_id spec, map_option (\<lambda>x. x * of_int (direction spec)) z, n))))"

definition score_axis :: "vintage list \<Rightarrow> string \<Rightarrow> datetime \<Rightarrow> py_error + axis_result" where
  "score_axis vintages ax decision_time =
     bindE (axis_weights ax) (\<lambda>weights.
     let specs = axis_specs ax;
         pit = latest_vintage_as_of vintages (map series_id specs) decision_time
     in bindE (mapE (score_source pit (dt_date decision_time)) specs) (\<lambda>rs.
        let z_by_series = dict_update [] (map (\<lambda>(k, z, n). (k, z)) rs);
            counts = dict_update [] (map (\<lambda>(k, z, n). (k, n)) rs);
            (score, contributions) = axis_score weights z_by_series;
            expiries = map (\<lambda>s. source_expiry decision_time (decision_time + 30 * day_us)
                               (grace_period s) (hard_max_age s) FRESHNESS_DECAY_WINDOW)
                         (filter critical specs)
        in Inr \<lparr> ar_score = score, ar_contributions = contributions, ar_z = z_by_series,
                 ar_available_ats = [decision_time], ar_expiries = expiries,
                 ar_counts = counts \<rparr>))"

text \<open>\<open>None\<close> for the counts is the argument's default: no history factor.\<close>

definition history_factor :: "(string, int) dict option \<Rightarrow> macro_source_spec \<Rightarrow> real" where
  "history_factor history_counts s =
     (case history_counts of
        None \<Rightarrow> 1
      | Some counts \<Rightarrow>
          if minimum_valid_observations s > 0
          then min 1 (of_int (dict_get_default counts (series_id s) 0)
                      / of_int (minimum_valid_observations s))
          else 1)"

definition macro_coverage ::
  "(string, real option) dict \<Rightarrow> macro_source_spec list \<Rightarrow> (string, int) dict option \<Rightarrow> real" where
  "macro_coverage z_by_series specs history_counts =
     (let total = (\<Sum>s \<leftarrow> specs. \<bar>weight s\<bar>)
      in if total \<le> 0 then 0
         else (\<Sum>s \<leftarrow> specs.
                 if dict_get_default z_by_series (series_id s) None = None then 0
                 else \<bar>weight s\<bar> * history_factor history_counts s) / total)"

definition score_history :: "vintage list \<Rightarrow> string \<Rightarrow> datetime \<Rightarrow> py_error + real list" where
  "score_history vintages ax decision_time =
     bindE (mapE (\<lambda>k. score_axis vintages ax (decision_time - 30 * (int k + 1) * day_us))
              [0..<SCORE_HISTORY_VINTAGES])
       (\<lambda>rs. Inr (concat (map (\<lambda>r. case ar_score r of None \<Rightarrow> [] | Some s \<Rightarrow> [s]) rs)))"

definition macro_axis_input ::
  "axis_result \<Rightarrow> real list \<Rightarrow> macro_source_spec list \<Rightarrow> axis_input" where
  "macro_axis_input r history specs =
     \<lparr> in_score = ar_score r, in_history = history, in_prev_sign = None,
       in_coverage = macro_coverage (ar_z r) specs (Some (ar_counts r)),
       in_freshness = 1, in_health = (if ar_score r \<noteq> None then 1 else 0),
       in_u_floor = U_FLOOR_SEED \<rparr>"

definition macro_input ::
  "(pval \<Rightarrow> string) \<Rightarrow> datetime \<Rightarrow> axis_result \<Rightarrow> axis_result \<Rightarrow> real list \<Rightarrow> real list \<Rightarrow>
   snapshot_input" where
  "macro_input sha decision_time g i g_hist i_hist =
     (let d = dt_date decision_time
      in \<lparr> in_as_of = d, in_computed_at = decision_time, in_previous_snapshot_id = None,
           in_growth = macro_axis_input g g_hist (axis_specs ''growth''),
           in_inflation = macro_axis_input i i_hist (axis_specs ''inflation''),
           input_available_ats = ar_available_ats g @ ar_available_ats i,
           critical_expiries = ar_expiries g @ ar_expiries i,
           in_model_version = MACRO_MODEL_VERSION,
           in_confidence_method = MACRO_CONFIDENCE_METHOD,
           in_source_vintage_hash = sha (vintage_payload (ar_z g) (ar_z i) d (ar_counts g) (ar_counts i)
             [(''growth_history'', PTuple (map PFloat g_hist)),
              (''inflation_history'', PTuple (map PFloat i_hist))]),
           critical_structural_failure = False,
           in_confidence_model_version = ''confidence_v1.0'' \<rparr>)"

definition require_critical_expiries :: "datetime list \<Rightarrow> py_error + unit" where
  "require_critical_expiries es = (if es = [] then Inl ValueError else Inr ())"

definition macro_run_input ::
  "(pval \<Rightarrow> string) \<Rightarrow> datetime \<Rightarrow> vintage list \<Rightarrow>
   py_error + snapshot_input \<times> (string, real) dict \<times> (string, real) dict" where
  "macro_run_input sha decision_time vintages =
     bindE (score_axis vintages ''growth'' decision_time) (\<lambda>g.
     bindE (score_axis vintages ''inflation'' decision_time) (\<lambda>i.
     bindE (score_history vintages ''growth'' decision_time) (\<lambda>g_hist.
     bindE (score_history vintages ''inflation'' decision_time) (\<lambda>i_hist.
     bindE (require_critical_expiries (ar_expiries g @ ar_expiries i)) (\<lambda>_.
       Inr (macro_input sha decision_time g i g_hist i_hist,
            ar_contributions g, ar_contributions i))))))"

definition macro_run ::
  "(string \<Rightarrow> string) \<Rightarrow> (real \<Rightarrow> real) \<Rightarrow> (pval \<Rightarrow> string) \<Rightarrow> bool \<Rightarrow> datetime \<Rightarrow> vintage list \<Rightarrow>
   quadrant_db \<Rightarrow> py_error + quadrant_db \<times> quadrant_snapshot option" where
  "macro_run uuid5 cdf sha got decision_time vintages db =
     (if \<not> got then Inr (db, None)
      else bindE (macro_run_input sha decision_time vintages) (\<lambda>(a, gc, ic).
           bindE (resume_and_store uuid5 cdf a gc ic db) (\<lambda>(db', s). Inr (db', Some s))))"

subsection \<open>Point in time\<close>

lemma score_axis_known:
  "t \<le> horizon \<Longrightarrow>
   score_axis (filter (\<lambda>v. v_available_at v \<le> horizon) vintages) ax t = score_axis vintages ax t"
  by (simp add: score_axis_def latest_vintage_known)

lemma score_history_known:
  assumes "t \<le> horizon"
  shows "score_history (filter (\<lambda>v. v_available_at v \<le> horizon) vintages) ax t = score_history vintages ax t"
proof -
  have "score_axis (filter (\<lambda>v. v_available_at v \<le> horizon) vintages) ax (t - 30 * (int k + 1) * day_us)
      = score_axis vintages ax (t - 30 * (int k + 1) * day_us)" for k
  proof (rule score_axis_known)
    have "0 \<le> 30 * (int k + 1) * day_us" by simp
    then show "t - 30 * (int k + 1) * day_us \<le> horizon" using assms by linarith
  qed
  then show ?thesis by (simp add: score_history_def)
qed

text \<open>
  The macro run is point in time. Its whole result, the scores, the walk-back history,
  the coverage, the identifier and the stored rows, depends only on the vintages available
  by the decision time: a vintage published later changes nothing.
\<close>

theorem macro_run_point_in_time:
  "macro_run uuid5 cdf sha got t (filter (\<lambda>v. v_available_at v \<le> t) vintages) db
     = macro_run uuid5 cdf sha got t vintages db"
  by (simp add: macro_run_def macro_run_input_def score_axis_known score_history_known)

subsection \<open>Coverage\<close>

lemma history_factor_range:
  assumes "\<And>k n. (k, n) \<in> set counts \<Longrightarrow> 0 \<le> n"
  shows "0 \<le> history_factor (Some counts) s" "history_factor (Some counts) s \<le> 1"
proof -
  have "0 \<le> dict_get_default counts (series_id s) 0"
    using assms by (auto simp: dict_get_default_def split: option.split dest!: dict_get_in)
  then show "0 \<le> history_factor (Some counts) s" "history_factor (Some counts) s \<le> 1"
    by (auto simp: history_factor_def)
qed

definition source_share :: "(string, real option) dict \<Rightarrow> (string, int) dict \<Rightarrow> macro_source_spec \<Rightarrow> real" where
  "source_share z counts s =
     (if dict_get_default z (series_id s) None = None then 0 else history_factor (Some counts) s)"

lemma macro_coverage_share:
  "macro_coverage z specs (Some counts) =
     (let total = (\<Sum>s \<leftarrow> specs. \<bar>weight s\<bar>)
      in if total \<le> 0 then 0 else (\<Sum>s \<leftarrow> specs. \<bar>weight s\<bar> * source_share z counts s) / total)"
  unfolding macro_coverage_def source_share_def Let_def
  by (intro if_cong refl arg_cong2 [where f = "(/)"] arg_cong [where f = sum_list] map_cong) auto

lemma weighted_share_sum:
  fixes w f :: "'a \<Rightarrow> real"
  assumes "\<And>x. x \<in> set xs \<Longrightarrow> 0 \<le> f x \<and> f x \<le> 1"
  shows "0 \<le> (\<Sum>x \<leftarrow> xs. \<bar>w x\<bar> * f x)" "(\<Sum>x \<leftarrow> xs. \<bar>w x\<bar> * f x) \<le> (\<Sum>x \<leftarrow> xs. \<bar>w x\<bar>)"
    and "(\<Sum>x \<leftarrow> xs. \<bar>w x\<bar> * f x) = (\<Sum>x \<leftarrow> xs. \<bar>w x\<bar>) \<longleftrightarrow> (\<forall>x \<in> set xs. w x = 0 \<or> f x = 1)"
proof -
  have le: "\<bar>w x\<bar> * f x \<le> \<bar>w x\<bar>" if "x \<in> set xs" for x
    using assms [OF that] by (simp add: mult_left_le)
  show "0 \<le> (\<Sum>x \<leftarrow> xs. \<bar>w x\<bar> * f x)"
    using assms by (intro sum_list_nonneg) auto
  show "(\<Sum>x \<leftarrow> xs. \<bar>w x\<bar> * f x) \<le> (\<Sum>x \<leftarrow> xs. \<bar>w x\<bar>)"
    using le by (intro sum_list_mono) auto
  show "(\<Sum>x \<leftarrow> xs. \<bar>w x\<bar> * f x) = (\<Sum>x \<leftarrow> xs. \<bar>w x\<bar>) \<longleftrightarrow> (\<forall>x \<in> set xs. w x = 0 \<or> f x = 1)"
    using assms le
  proof (induction xs)
    case (Cons x xs)
    have "(\<Sum>x \<leftarrow> xs. \<bar>w x\<bar> * f x) \<le> (\<Sum>x \<leftarrow> xs. \<bar>w x\<bar>)"
      using Cons.prems(2) by (intro sum_list_mono) auto
    moreover have "\<bar>w x\<bar> * f x \<le> \<bar>w x\<bar>" using Cons.prems(2) by simp
    ultimately have "(\<Sum>x \<leftarrow> x # xs. \<bar>w x\<bar> * f x) = (\<Sum>x \<leftarrow> x # xs. \<bar>w x\<bar>) \<longleftrightarrow>
        \<bar>w x\<bar> * f x = \<bar>w x\<bar> \<and> (\<Sum>x \<leftarrow> xs. \<bar>w x\<bar> * f x) = (\<Sum>x \<leftarrow> xs. \<bar>w x\<bar>)"
      by (simp only: list.map sum_list.Cons) linarith
    moreover have "\<bar>w x\<bar> * f x = \<bar>w x\<bar> \<longleftrightarrow> w x = 0 \<or> f x = 1" by auto
    moreover have "(\<Sum>x \<leftarrow> xs. \<bar>w x\<bar> * f x) = (\<Sum>x \<leftarrow> xs. \<bar>w x\<bar>) \<longleftrightarrow> (\<forall>x \<in> set xs. w x = 0 \<or> f x = 1)"
      using Cons.prems by (intro Cons.IH) auto
    ultimately show ?case by simp
  qed simp
qed

lemma seed_total: "(\<Sum>s \<leftarrow> axis_specs ''growth''. \<bar>weight s\<bar>) = 1"
    "(\<Sum>s \<leftarrow> axis_specs ''inflation''. \<bar>weight s\<bar>) = 1"
  by (simp_all add: axis_specs_def SEED_SOURCES_def macro_spec_def)

lemma seed_weight_pos: "s \<in> set SEED_SOURCES \<Longrightarrow> weight s \<noteq> 0 \<and> minimum_valid_observations s = 24"
  by (auto simp: SEED_SOURCES_def macro_spec_def)

lemma macro_coverage_range:
  assumes "\<And>k n. (k, n) \<in> set counts \<Longrightarrow> 0 \<le> n"
  shows "0 \<le> macro_coverage z specs (Some counts)" "macro_coverage z specs (Some counts) \<le> 1"
proof -
  have r: "0 \<le> source_share z counts s \<and> source_share z counts s \<le> 1" for s
    using history_factor_range [OF assms] by (simp add: source_share_def)
  show "0 \<le> macro_coverage z specs (Some counts)" "macro_coverage z specs (Some counts) \<le> 1"
    using weighted_share_sum(1,2) [of specs "source_share z counts" weight] r
    by (auto simp: macro_coverage_share Let_def divide_le_eq_1)
qed

text \<open>
  The coverage of a seed axis is between 0 and 1 and it is full exactly when every
  source of the axis has a current z-score and at least 24 valid periods: a missing source
  or a short history always lowers it.
\<close>

theorem macro_coverage_full_iff:
  assumes "ax = ''growth'' \<or> ax = ''inflation''" "\<And>k n. (k, n) \<in> set counts \<Longrightarrow> 0 \<le> n"
  shows "let c = macro_coverage z (axis_specs ax) (Some counts) in 0 \<le> c \<and> c \<le> 1 \<and>
    (c = 1 \<longleftrightarrow> (\<forall>s \<in> set (axis_specs ax). dict_get_default z (series_id s) None \<noteq> None \<and>
       24 \<le> dict_get_default counts (series_id s) 0))"
proof -
  have r: "0 \<le> source_share z counts s \<and> source_share z counts s \<le> 1" for s
    using history_factor_range [OF assms(2)] by (simp add: source_share_def)
  have one: "source_share z counts s = 1 \<longleftrightarrow> dict_get_default z (series_id s) None \<noteq> None \<and>
      24 \<le> dict_get_default counts (series_id s) 0" if "s \<in> set (axis_specs ax)" for s
  proof -
    have "minimum_valid_observations s = 24"
      using that seed_weight_pos by (auto simp: axis_specs_def)
    then show ?thesis by (auto simp: source_share_def history_factor_def min_def)
  qed
  have tot: "(\<Sum>s \<leftarrow> axis_specs ax. \<bar>weight s\<bar>) = 1" using assms(1) seed_total by auto
  have "macro_coverage z (axis_specs ax) (Some counts) = 1 \<longleftrightarrow>
      (\<forall>s \<in> set (axis_specs ax). weight s = 0 \<or> source_share z counts s = 1)"
    using weighted_share_sum(3) [of "axis_specs ax" "source_share z counts" weight] r tot
    by (simp add: macro_coverage_share)
  then have "macro_coverage z (axis_specs ax) (Some counts) = 1 \<longleftrightarrow>
      (\<forall>s \<in> set (axis_specs ax). source_share z counts s = 1)"
    using seed_weight_pos by (auto simp: axis_specs_def)
  then show ?thesis
    using macro_coverage_range [OF assms(2)] one by (simp add: Let_def)
qed

theorem macro_coverage_full_iff_witness:
  "macro_coverage [(''INDPRO'', Some 1)] (axis_specs ''growth'') (Some [(''INDPRO'', 12)]) < 1"
  using macro_coverage_full_iff [of "''growth''" "[(''INDPRO'', 12)]" "[(''INDPRO'', Some 1)]"]
  by (auto simp: Let_def axis_specs_def SEED_SOURCES_def macro_spec_def dict_get_default_def)

subsection \<open>Provenance binds the inputs\<close>

lemma sorted_dict_unique:
  assumes "dict_ok d" "dict_ok e"
  shows "sort_key fst d = sort_key fst e \<longleftrightarrow> dict_get d = (dict_get e :: (string \<Rightarrow> 'a option))"
proof
  assume "sort_key fst d = sort_key fst e"
  then have "set d = set e" by (metis set_sort)
  then show "dict_get d = dict_get e" using assms by (simp add: map_of_inject_set)
next
  assume "dict_get d = dict_get e"
  then have "set d = set e" using assms by (simp add: map_of_inject_set)
  then show "sort_key fst d = sort_key fst e"
    using assms by (intro map_sorted_distinct_set_unique [where f = fst])
      (auto simp: inj_on_def distinct_map eq_key_imp_eq_value)
qed

lemma canonical_dict_eq_iff:
  assumes "dict_ok d" "dict_ok e" "inj f" "\<And>v. canonical (f v) = f v"
  shows "canonical (PDict (map (\<lambda>(k, v). (k, f v)) d)) = canonical (PDict (map (\<lambda>(k, v). (k, f v)) e))
    \<longleftrightarrow> dict_get d = dict_get e"
proof -
  have c: "map (\<lambda>(k, v). (k, canonical v)) (map (\<lambda>(k, v). (k, f v)) d) = map (\<lambda>(k, v). (k, f v)) d"
    for d :: "(string \<times> 'a) list"
    by (simp add: assms(4) o_def case_prod_beta')
  have inj: "inj (\<lambda>(k, v). PTuple [PStr k, v])" by (auto simp: inj_on_def)
  have ok: "dict_ok (map (\<lambda>(k, v). (k, f v)) d)" if "dict_ok d" for d :: "(string \<times> 'a) list"
    using that by (simp add: o_def case_prod_beta')
  have g: "dict_get (map (\<lambda>(k, v). (k, f v)) d) = (\<lambda>k. map_option f (dict_get d k))"
    for d :: "(string \<times> 'a) list"
    by (induction d) auto
  have "canonical (PDict (map (\<lambda>(k, v). (k, f v)) d)) = canonical (PDict (map (\<lambda>(k, v). (k, f v)) e))
      \<longleftrightarrow> sort_key fst (map (\<lambda>(k, v). (k, f v)) d) = sort_key fst (map (\<lambda>(k, v). (k, f v)) e)"
    by (simp only: canonical.simps c pval.inject inj_map_eq_map [OF inj])
  also have "\<dots> \<longleftrightarrow> (\<lambda>k. map_option f (dict_get d k)) = (\<lambda>k. map_option f (dict_get e k))"
    using sorted_dict_unique [OF ok [OF assms(1)] ok [OF assms(2)]] by (simp only: g)
  also have "\<dots> \<longleftrightarrow> dict_get d = dict_get e"
    using option.inj_map [OF assms(3)] by (auto simp: fun_eq_iff inj_eq)
  finally show ?thesis .
qed

lemma float_opt_canonical [simp]: "canonical (float_opt z) = float_opt z" "inj float_opt"
  by (auto simp: float_opt_def inj_on_def split: option.splits)

text \<open>
  The canonical payload hashed into a snapshot's provenance is exactly its inputs. Two
  payloads are equal if and only if both z-maps, both history-count maps (as maps, whatever
  the order of their entries), the date and both score histories are equal.
\<close>

theorem vintage_payload_eq_iff:
  assumes "dict_ok gz" "dict_ok gz'" "dict_ok iz" "dict_ok iz'"
    and "dict_ok gn" "dict_ok gn'" "dict_ok n" "dict_ok n'"
    and "python_date d" "python_date d'"
  shows "vintage_payload gz iz d gn n [(''growth_history'', PTuple (map PFloat gh)), (''inflation_history'', PTuple (map PFloat ih))]
      = vintage_payload gz' iz' d' gn' n' [(''growth_history'', PTuple (map PFloat gh')), (''inflation_history'', PTuple (map PFloat ih'))]
    \<longleftrightarrow> dict_get gz = dict_get gz' \<and> dict_get iz = dict_get iz' \<and> d = d' \<and>
        dict_get gn = dict_get gn' \<and> dict_get n = dict_get n' \<and> gh = gh' \<and> ih = ih'"
proof -
  have pi: "inj PInt" "inj PFloat" by (auto simp: inj_on_def)
  have cf: "map (canonical \<circ> PFloat) h = map PFloat h" for h by simp
  have "isoformat d = isoformat d' \<longleftrightarrow> d = d'" using isoformat_inj assms(9,10) by auto
  then show ?thesis
    unfolding vintage_payload_def
    using canonical_dict_eq_iff [OF assms(1,2) float_opt_canonical(2,1)]
      canonical_dict_eq_iff [OF assms(3,4) float_opt_canonical(2,1)]
      canonical_dict_eq_iff [OF assms(5,6) pi(1)] canonical_dict_eq_iff [OF assms(7,8) pi(1)]
    by (simp del: canonical.simps(1) add: cf inj_map_eq_map [OF pi(2)])
qed

theorem vintage_payload_eq_iff_witness:
  "vintage_payload [(''A'', Some 1), (''B'', None)] [] (Date 2026 7 17) [(''A'', 24)] []
      [(''growth_history'', PTuple (map PFloat [1])), (''inflation_history'', PTuple (map PFloat []))]
   = vintage_payload [(''B'', None), (''A'', Some 1)] [] (Date 2026 7 17) [(''A'', 24)] []
      [(''growth_history'', PTuple (map PFloat [1])), (''inflation_history'', PTuple (map PFloat []))]"
  by (subst vintage_payload_eq_iff)
    (auto simp: python_date_def valid_date_def days_in_month_def)

subsection \<open>The macro scores are total\<close>

definition period_ok :: "date \<Rightarrow> bool" where
  "period_ok d \<longleftrightarrow> valid_date d \<and> 2 \<le> year d \<and> year d \<le> 9999"

lemma shift_months_total:
  assumes "period_ok (periods ! idx)" "0 \<le> back" "back \<le> 12"
  shows "is_Inr (shift_months periods idx back)"
proof -
  let ?d = "periods ! idx"
  have m: "1 \<le> month ?d" "month ?d \<le> 12" "2 \<le> year ?d" "year ?d \<le> 9999"
    using assms(1) by (auto simp: period_ok_def valid_date_def)
  obtain y mm where w: "month_wrap (year ?d) (month ?d - back) = (y, mm)" by (metis prod.exhaust)
  have "1 \<le> mm \<and> mm \<le> 12 \<and> 1 \<le> y \<and> y \<le> 9999"
  proof (cases "month ?d - back \<le> 0")
    case True
    then have "month_wrap (year ?d) (month ?d - back) = (year ?d - 1, month ?d - back + 12)"
      using m assms(3) by (simp add: month_wrap.simps [of _ "month ?d - back"] month_wrap.simps [of _ "month ?d - back + 12"])
    then show ?thesis using w True m assms by auto
  next
    case False
    then have "month_wrap (year ?d) (month ?d - back) = (year ?d, month ?d - back)"
      by (simp add: month_wrap.simps)
    then show ?thesis using w False m assms by auto
  qed
  then have "mk_date y mm 1 = Some (Date y mm 1)"
    by (auto simp: mk_date_def valid_date_def days_in_month_def)
  then show ?thesis by (simp add: shift_months_def w)
qed

lemma transform_loop_total:
  assumes "\<And>i. i < length periods \<Longrightarrow> is_Inr (f i (periods ! i))"
  shows "is_Inr (transform_loop f periods)"
  unfolding transform_loop_def
proof (intro is_Inr_bindI is_Inr_mapE)
  fix it assume "it \<in> set (enumerate 0 periods)"
  then have "fst it < length periods" "periods ! fst it = snd it"
    by (simp_all add: in_set_enumerate_eq)
  then show "is_Inr (case it of (i, t) \<Rightarrow> bindE (f i t) (\<lambda>v. Inr (t, v)))"
    using assms [of "fst it"] by (simp add: case_prod_beta is_Inr_bindI)
qed simp

lemma seed_transforms:
  "s \<in> set SEED_SOURCES \<Longrightarrow> economic_transform_id s \<in>
     {''log_3m3m_ann_v1'', ''ann3m_minus_yoy_v1'', ''delta_3m_level_v1''} \<and>
     standardizer_id s = STD_ID \<and> critical s"
  by (auto simp: SEED_SOURCES_def macro_spec_def)

lemma economic_transform_total:
  assumes "tid \<in> {''log_3m3m_ann_v1'', ''ann3m_minus_yoy_v1'', ''delta_3m_level_v1''}"
    and "\<And>p. p \<in> fst ` set series \<Longrightarrow> period_ok p"
  shows "is_Inr (economic_transform tid series nl)"
proof -
  let ?ps = "sort (dict_keys series)"
  have ok: "period_ok (?ps ! i)" if "i < length ?ps" for i
    using assms(2) nth_mem [OF that] by (auto simp: image_iff)
  have a: "is_Inr (transform_loop (log_3m3m_ann series ?ps) ?ps)"
    by (rule transform_loop_total) (simp add: log_3m3m_ann_def Let_def)
  have b: "is_Inr (transform_loop (ann3m_minus_yoy series ?ps) ?ps)"
    by (intro transform_loop_total, unfold ann3m_minus_yoy_def)
      (intro is_Inr_bindI shift_months_total ok; simp split: option.split add: Let_def)
  have c: "is_Inr (transform_loop (delta_3m_level series ?ps) ?ps)"
    by (intro transform_loop_total, unfold delta_3m_level_def)
      (intro is_Inr_bindI shift_months_total ok; simp)
  show ?thesis using assms(1) a b c by (auto simp: economic_transform_def Let_def)
qed

lemma standardization_window_total:
  "11 \<le> year d \<Longrightarrow> python_date d \<Longrightarrow> is_Inr (standardization_window tr d 10)"
  by (auto simp: standardization_window_def python_date_def mk_date_def valid_date_def
      days_in_month_def is_Inr_def)

lemma standardize_total: "is_Inr (standardize STD_ID h x)"
  by (simp add: standardize_def STD_ID_def Let_def split: option.split)

lemma score_source_total:
  assumes "s \<in> set SEED_SOURCES" "11 \<le> year d" "python_date d"
    and "\<And>sid ser p. (sid, ser) \<in> set pit \<Longrightarrow> p \<in> fst ` set ser \<Longrightarrow> period_ok p"
  shows "is_Inr (score_source pit d s)"
proof -
  let ?ser = "dict_get_default pit (series_id s) []"
  have ser: "period_ok p" if "p \<in> fst ` set ?ser" for p
  proof (cases "dict_get pit (series_id s)")
    case (Some ser)
    then show ?thesis using assms(4) [OF dict_get_in [OF Some]] that by (simp add: dict_get_default_def)
  qed (use that in \<open>simp add: dict_get_default_def\<close>)
  note t = seed_transforms [OF assms(1)]
  have e: "is_Inr (economic_transform (economic_transform_id s) ?ser (neutral_level s))"
    using t by (intro economic_transform_total ser) auto
  have "is_Inr (standardized_latest s ?ser d STANDARDIZATION_WINDOW_YEARS)"
    using t unfolding standardized_latest_def STANDARDIZATION_WINDOW_YEARS_def
    by (intro is_Inr_bindI e standardization_window_total assms(2,3))
      (simp split: list.split add: Let_def standardize_total)
  moreover have "is_Inr (valid_history_count s ?ser d STANDARDIZATION_WINDOW_YEARS)"
    unfolding valid_history_count_def STANDARDIZATION_WINDOW_YEARS_def
    by (intro is_Inr_bindI e standardization_window_total assms(2,3)) simp
  ultimately show ?thesis
    unfolding score_source_def Let_def by (intro is_Inr_bindI) simp_all
qed

lemma latest_vintage_periods:
  assumes "\<And>v. v \<in> set vintages \<Longrightarrow> period_ok (v_period v)"
    and "(sid, ser) \<in> set (latest_vintage_as_of vintages ids t)" "p \<in> fst ` set ser"
  shows "period_ok p"
proof -
  have "(sid, ser) \<in> set (map (\<lambda>sid. (sid, pit_series vintages sid t)) ids)"
    using assms(2) set_dict_update_subset [of "[]"] unfolding latest_vintage_as_of_def by fastforce
  then have "ser = pit_series vintages sid t" by auto
  then show ?thesis using assms(1,3) by (auto simp: pit_series_def Let_def image_iff)
qed

lemma axis_specs_seed: "s \<in> set (axis_specs ax) \<Longrightarrow> s \<in> set SEED_SOURCES"
  by (simp add: axis_specs_def)

lemma score_axis_total:
  assumes "ax \<in> {''growth'', ''inflation''}" "11 \<le> year (dt_date t)" "python_date (dt_date t)"
    and "\<And>v. v \<in> set vintages \<Longrightarrow> period_ok (v_period v)"
  obtains r where "score_axis vintages ax t = Inr r" "ar_available_ats r = [t]" "ar_expiries r \<noteq> []"
    "\<And>k n. (k, n) \<in> set (ar_counts r) \<Longrightarrow> 0 \<le> n"
proof -
  let ?specs = "axis_specs ax" and ?pit = "latest_vintage_as_of vintages (map series_id (axis_specs ax)) t"
  have ne: "?specs \<noteq> []"
    using assms(1) by (auto simp: axis_specs_def SEED_SOURCES_def macro_spec_def)
  obtain w where w: "axis_weights ax = Inr w"
    using assms(1) seed_total by (auto simp: axis_weights_def Let_def)
  have "is_Inr (mapE (score_source ?pit (dt_date t)) ?specs)"
    using latest_vintage_periods [OF assms(4)]
    by (intro is_Inr_mapE score_source_total axis_specs_seed assms(2,3)) auto
  then obtain rs where rs: "mapE (score_source ?pit (dt_date t)) ?specs = Inr rs"
    by (auto simp: is_Inr_def)
  have crit: "filter critical ?specs = ?specs"
    using seed_transforms axis_specs_seed by (auto simp: filter_id_conv)
  have pos: "0 \<le> n" if mem: "(k, z, n) \<in> set rs" for k z n
  proof -
    obtain s where "score_source ?pit (dt_date t) s = Inr (k, z, n)"
      using mapE_Inr_mem [OF rs mem] by blast
    then show ?thesis by (auto simp: score_source_def Let_def bindE_Inr_iff valid_history_count_def)
  qed
  have in_upd: "kv \<in> set xs" if "kv \<in> set (dict_update [] xs)" for kv and xs :: "(string \<times> int) list"
    using that set_dict_update_subset [of "[]" xs] by auto
  obtain sc cs where sc: "axis_score w (dict_update [] (map (\<lambda>(k, z, n). (k, z)) rs)) = (sc, cs)"
    by (metis prod.exhaust)
  show thesis
  proof (rule that)
    show "score_axis vintages ax t = Inr \<lparr> ar_score = sc, ar_contributions = cs,
        ar_z = dict_update [] (map (\<lambda>(k, z, n). (k, z)) rs), ar_available_ats = [t],
        ar_expiries = map (\<lambda>s. source_expiry t (t + 30 * day_us)
                               (grace_period s) (hard_max_age s) FRESHNESS_DECAY_WINDOW) ?specs,
        ar_counts = dict_update [] (map (\<lambda>(k, z, n). (k, n)) rs) \<rparr>"
      by (simp add: score_axis_def w rs sc crit)
  qed (use ne pos in \<open>auto dest!: in_upd\<close>)
qed

subsection \<open>Both workers on shared tables\<close>

text \<open>What the workers rely on of the digest: a nonempty hexadecimal text.\<close>

definition hex_digest :: "('a \<Rightarrow> string) \<Rightarrow> bool" where
  "hex_digest sha \<longleftrightarrow> (\<forall>x. sha x \<noteq> [] \<and> no_pipe (sha x))"

lemma midnight_le: "midnight (dt_date t) \<le> t"
  by (simp add: midnight_def dt_date_def toordinal_fromordinal day_us_def)

lemma modern_dates:
  assumes "2000 \<le> year (dt_date t)" "year (dt_date t) \<le> 9999" "0 \<le> n" "n \<le> 1080"
  shows "11 \<le> year (dt_date (t - n * day_us))" "python_date (dt_date (t - n * day_us))"
proof -
  let ?d = "dt_date t" and ?e = "dt_date (t - n * day_us)"
  have "(t + (- n) * day_us) div day_us = t div day_us + (- n)"
    by (rule div_mult_self1 [THEN trans]) simp_all
  then have eq: "?e = add_days ?d (- n)"
    by (simp add: dt_date_def add_days_def toordinal_fromordinal)
  have v: "valid_date ?d" "valid_date ?e" by (simp_all add: dt_date_def valid_fromordinal)
  have "?e \<le> ?d" using v assms(3) by (simp add: date_le_iff eq)
  moreover have "Date 11 1 1 \<le> ?e"
  proof -
    have v1: "valid_date (Date 2000 1 1)" "valid_date (Date 11 1 1)"
      by (simp_all add: valid_date_def days_in_month_def)
    have "Date 2000 1 1 \<le> ?d" using assms(1) v(1) by (auto simp: less_eq_date_def valid_date_def)
    then have "toordinal (Date 2000 1 1) \<le> toordinal ?d" using v v1 by (simp add: date_le_iff)
    moreover have "toordinal (Date 11 1 1) + 1080 \<le> toordinal (Date 2000 1 1)"
      by (simp add: toordinal_def days_before_year_def days_before_month_def)
    ultimately have "toordinal (Date 11 1 1) \<le> toordinal ?e" using assms(4) by (simp add: eq)
    then show ?thesis using v(2) v1(2) by (simp add: date_le_iff)
  qed
  ultimately show "11 \<le> year ?e" "python_date ?e"
    using v(2) assms(2) by (auto simp: less_eq_date_def python_date_def)
qed

lemma macro_run_input_ok:
  assumes "hex_digest sha" "2000 \<le> year (dt_date t)" "year (dt_date t) \<le> 9999"
    and "\<And>v. v \<in> set vintages \<Longrightarrow> period_ok (v_period v)"
  obtains a gc ic where "macro_run_input sha t vintages = Inr (a, gc, ic)" "run_input_ok a"
    "in_model_version a = MACRO_MODEL_VERSION" "in_as_of a = dt_date t"
proof -
  note dates = modern_dates [OF assms(2,3)]
  have now: "11 \<le> year (dt_date t)" "python_date (dt_date t)" using dates [of 0] by simp_all
  have total: "\<exists>r. score_axis vintages ax t = Inr r \<and> ar_available_ats r = [t] \<and> ar_expiries r \<noteq> [] \<and>
      (\<forall>k n. (k, n) \<in> set (ar_counts r) \<longrightarrow> 0 \<le> n)" if ax: "ax \<in> {''growth'', ''inflation''}" for ax
    by (rule score_axis_total [OF ax now assms(4), where vintages = vintages]) blast+
  obtain g where g: "score_axis vintages ''growth'' t = Inr g" "ar_available_ats g = [t]"
    "ar_expiries g \<noteq> []" "\<And>k n. (k, n) \<in> set (ar_counts g) \<Longrightarrow> 0 \<le> n"
    using total [of "''growth''"] by blast
  obtain i where i: "score_axis vintages ''inflation'' t = Inr i" "ar_available_ats i = [t]"
    "\<And>k n. (k, n) \<in> set (ar_counts i) \<Longrightarrow> 0 \<le> n"
    using total [of "''inflation''"] by blast
  have hist: "is_Inr (score_history vintages ax t)" if ax: "ax \<in> {''growth'', ''inflation''}" for ax
    unfolding score_history_def
  proof (intro is_Inr_bindI is_Inr_mapE)
    fix k assume "k \<in> set [0..<SCORE_HISTORY_VINTAGES]"
    then have k: "0 \<le> 30 * (int k + 1)" "30 * (int k + 1) \<le> 1080"
      by (auto simp: SCORE_HISTORY_VINTAGES_def)
    show "is_Inr (score_axis vintages ax (t - 30 * (int k + 1) * day_us))"
      using score_axis_total [OF ax dates [OF k] assms(4), where vintages = vintages]
      by (metis is_Inr_simps(1))
  qed simp
  obtain gh where gh: "score_history vintages ''growth'' t = Inr gh" using hist by blast
  obtain ih where ih: "score_history vintages ''inflation'' t = Inr ih" using hist by blast
  let ?a = "macro_input sha t g i gh ih"
  have cov: "0 \<le> macro_coverage (ar_z g) specs (Some (ar_counts g))"
    "macro_coverage (ar_z g) specs (Some (ar_counts g)) \<le> 1"
    "0 \<le> macro_coverage (ar_z i) specs (Some (ar_counts i))"
    "macro_coverage (ar_z i) specs (Some (ar_counts i)) \<le> 1" for specs
    by (rule macro_coverage_range, erule g(4) i(3))+
  have "run_input_ok ?a"
    using assms(1) now g(2,3) i(2) cov
    by (auto simp: run_input_ok_def macro_input_def macro_axis_input_def Let_def hex_digest_def
        MACRO_MODEL_VERSION_def no_pipe_def midnight_le)
  moreover have "macro_run_input sha t vintages = Inr (?a, ar_contributions g, ar_contributions i)"
    using g(3) by (simp add: macro_run_input_def g(1) i(1) gh ih require_critical_expiries_def)
  ultimately show thesis
    using that by (simp add: macro_input_def Let_def)
qed

lemma market_run_input_ok:
  assumes "\<And>g i d. vhash g i d \<noteq> [] \<and> no_pipe (vhash g i d)"
    and "python_date d" "midnight d \<le> now" "spy \<noteq> []"
  obtains a gc ic where "market_run_input vhash (Some d) now (spy, ief, tip) = Inr (a, gc, ic)"
    "run_input_ok a" "in_model_version a = MARKET_MODEL_VERSION" "in_as_of a = d"
proof -
  obtain sp be where f: "fetch_levels spy ief tip = Inr (sp, be)"
    using assms(4) by (cases "fetch_levels spy ief tip") (auto simp: fetch_levels_def Let_def case_prod_beta)
  have "run_input_ok (market_input vhash d now sp be)"
    using assms by (auto simp: run_input_ok_def market_input_def Let_def MARKET_MODEL_VERSION_def no_pipe_def)
  then show thesis
    using that by (simp add: market_run_input_def f market_input_def Let_def)
qed

lemma other_streams_kept:
  assumes "uuid_text uuid5" "chain_ok uuid5 db" "run_input_ok a" "no_collision uuid5 db a"
    and "resume_and_store uuid5 cdf a gc ic db = Inr (db', s)"
  shows "filter (\<lambda>r. model_version r \<noteq> in_model_version a) (snapshots db')
    = filter (\<lambda>r. model_version r \<noteq> in_model_version a) (snapshots db)"
    and "s \<in> set (snapshots db')"
proof -
  obtain s' db'' where r: "resume_and_store uuid5 cdf a gc ic db = Inr (db'', s')"
    and rows: "snapshots db'' = upsert_row s' (snapshots db)"
    and mv: "model_version s' = in_model_version a"
    and same: "\<And>r. r \<in> set (snapshots db) \<Longrightarrow> snapshot_id r = snapshot_id s' \<Longrightarrow> version_key r = version_key s'"
    using resume_and_store_step [OF assms(1-4), of cdf gc ic] by metis
  have eq: "db'' = db'" "s' = s" using r assms(5) by simp_all
  have d: "distinct (map snapshot_id (snapshots db))" using assms(2) by (simp add: chain_ok_def)
  show "filter (\<lambda>r. model_version r \<noteq> in_model_version a) (snapshots db')
    = filter (\<lambda>r. model_version r \<noteq> in_model_version a) (snapshots db)"
    using filter_upsert_row [OF d, of "\<lambda>r. model_version r \<noteq> in_model_version a" s] mv same rows eq
    by (auto simp: version_key_def)
  show "s \<in> set (snapshots db')" using rows eq d by (simp add: set_upsert_row)
qed

text \<open>
  C2: the official run never fails and never touches the challenger. On tables any runs
  produced, for a decision time from the year 2000 on and vintages with valid periods, the
  macro run raises nothing, even with no vintage at all: it stores a snapshot of its own
  model for the decision date, the tables stay reachable, and the rows of every other
  model are left as they were.
\<close>

theorem macro_run_total:
  assumes "uuid_text uuid5" "hex_digest sha" "quadrant_reachable uuid5 cdf db"
    and "2000 \<le> year (dt_date t)" "year (dt_date t) \<le> 9999"
    and "\<And>v. v \<in> set vintages \<Longrightarrow> period_ok (v_period v)"
    and "\<And>a gc ic. macro_run_input sha t vintages = Inr (a, gc, ic) \<Longrightarrow> no_collision uuid5 db a"
  shows "\<exists>db' s. macro_run uuid5 cdf sha True t vintages db = Inr (db', Some s) \<and>
    quadrant_reachable uuid5 cdf db' \<and> s \<in> set (snapshots db') \<and>
    model_version s = MACRO_MODEL_VERSION \<and> as_of s = dt_date t \<and>
    filter (\<lambda>r. model_version r \<noteq> MACRO_MODEL_VERSION) (snapshots db')
      = filter (\<lambda>r. model_version r \<noteq> MACRO_MODEL_VERSION) (snapshots db)"
proof -
  obtain a gc ic where a: "macro_run_input sha t vintages = Inr (a, gc, ic)" "run_input_ok a"
    "in_model_version a = MACRO_MODEL_VERSION" "in_as_of a = dt_date t"
    by (rule macro_run_input_ok [OF assms(2,4,5,6)])
  note chain = reachable_chain_ok [OF assms(1,3)] and nc = assms(7) [OF a(1)]
  obtain s db' where r: "resume_and_store uuid5 cdf a gc ic db = Inr (db', s)"
    "model_version s = in_model_version a" "as_of s = in_as_of a"
    using resume_and_store_step [OF assms(1) chain a(2) nc, of cdf gc ic] by metis
  have "macro_run uuid5 cdf sha True t vintages db = Inr (db', Some s)"
    by (simp add: macro_run_def a(1) r(1))
  moreover have "quadrant_reachable uuid5 cdf db'"
    by (rule quadrant_reachable.run [OF assms(3) a(2) nc r(1)])
  ultimately show ?thesis
    using other_streams_kept [OF assms(1) chain a(2) nc r(1)] r a(3,4) by auto
qed

theorem macro_run_total_witness:
  "\<exists>db' s. macro_run sample_uuid5 (\<lambda>x. 1) (\<lambda>p. ''ab'') True (midnight (Date 2026 7 17)) []
     \<lparr> snapshots = [], audit = [] \<rparr> = Inr (db', Some s) \<and> s \<in> set (snapshots db')"
proof -
  have d: "dt_date (midnight (Date 2026 7 17)) = Date 2026 7 17"
    by (simp add: dt_date_def midnight_def fromordinal_toordinal valid_date_def days_in_month_def)
  have h: "hex_digest (\<lambda>p. ''ab'')" by (simp add: hex_digest_def no_pipe_def)
  show ?thesis
    using macro_run_total [OF sample_ok(1) h quadrant_reachable.genesis,
        where t = "midnight (Date 2026 7 17)" and vintages = "[]" and cdf = "\<lambda>x. 1"]
    by (auto simp: d no_collision_def)
qed

text \<open>
  The challenger run stores a market snapshot and leaves every other stream alone. On
  tables any runs produced, for a date that is not in the future and a nonempty SPY
  history, the run raises nothing whatever the three histories hold, missing and
  non-positive prices included, and every row of another model is left as it was.
\<close>

theorem market_run_total:
  assumes "uuid_text uuid5" "\<And>g i d. vhash g i d \<noteq> [] \<and> no_pipe (vhash g i d)"
    and "quadrant_reachable uuid5 cdf db" "python_date d" "midnight d \<le> now" "spy \<noteq> []"
    and "\<And>a gc ic. market_run_input vhash (Some d) now (spy, ief, tip) = Inr (a, gc, ic)
      \<Longrightarrow> no_collision uuid5 db a"
  shows "\<exists>db' s. market_run uuid5 cdf vhash True (Some d) now (spy, ief, tip) db = Inr (db', Some s) \<and>
    quadrant_reachable uuid5 cdf db' \<and> s \<in> set (snapshots db') \<and>
    model_version s = MARKET_MODEL_VERSION \<and> as_of s = d \<and>
    filter (\<lambda>r. model_version r \<noteq> MARKET_MODEL_VERSION) (snapshots db')
      = filter (\<lambda>r. model_version r \<noteq> MARKET_MODEL_VERSION) (snapshots db)"
proof -
  obtain a gc ic where a: "market_run_input vhash (Some d) now (spy, ief, tip) = Inr (a, gc, ic)"
    "run_input_ok a" "in_model_version a = MARKET_MODEL_VERSION" "in_as_of a = d"
    by (rule market_run_input_ok [OF assms(2,4-6)])
  note chain = reachable_chain_ok [OF assms(1,3)] and nc = assms(7) [OF a(1)]
  obtain s db' where r: "resume_and_store uuid5 cdf a gc ic db = Inr (db', s)"
    "model_version s = in_model_version a" "as_of s = in_as_of a"
    using resume_and_store_step [OF assms(1) chain a(2) nc, of cdf gc ic] by metis
  have "market_run uuid5 cdf vhash True (Some d) now (spy, ief, tip) db = Inr (db', Some s)"
    by (simp add: market_run_def a(1) r(1))
  moreover have "quadrant_reachable uuid5 cdf db'"
    by (rule quadrant_reachable.run [OF assms(3) a(2) nc r(1)])
  ultimately show ?thesis
    using other_streams_kept [OF assms(1) chain a(2) nc r(1)] r a(3,4) by auto
qed

theorem market_run_total_witness:
  "\<exists>db' s. market_run sample_uuid5 (\<lambda>x. 1) (\<lambda>g i d. ''ab'') True (Some (Date 2026 7 17))
      (midnight (Date 2026 7 17) + 1) ([(Date 2026 7 17, Some 100), (Date 2026 7 16, None)], [], [])
     \<lparr> snapshots = [], audit = [] \<rparr> = Inr (db', Some s) \<and> as_of s = Date 2026 7 17"
proof -
  have d: "python_date (Date 2026 7 17)"
    by (simp add: python_date_def valid_date_def days_in_month_def)
  show ?thesis
    using market_run_total [OF sample_ok(1) _ quadrant_reachable.genesis d,
        where vhash = "\<lambda>g i d. ''ab''" and cdf = "\<lambda>x. 1" and ief = "[]" and tip = "[]"
          and spy = "[(Date 2026 7 17, Some 100), (Date 2026 7 16, None)]"
          and now = "midnight (Date 2026 7 17) + 1"]
    by (auto simp: no_pipe_def no_collision_def)
qed

end
