(* ===== verification/Daily_Chain.thy ===== *)
theory Daily_Chain
  imports Calendar
begin

text \<open>
  The engine of the daily publication chain, \<open>src/bonds/daily_chain.py\<close>: stage outcomes
  and their classification, bounded retries, checkpoints, the promotion ledger, and the
  compensation of a failed run.

  The world the stages act on is the type parameter \<open>'w\<close>; the engine sees it through the
  two functions it is given, \<open>snapshot_pointers\<close> and \<open>restore_pointer\<close>. The tables of the
  chain (runs, stage runs, promotions) are the record \<open>chain_db\<close>. Product names,
  publication identifiers and run identifiers are strings. Timestamps and the sleeping
  itself are left out; the sequence of attempts that slept is kept.
\<close>

subsection \<open>Values\<close>

datatype jval = JNull | JBool bool | JInt int | JNum real | JStr string
  | JList "jval list" | JObj "(string \<times> jval) list"

datatype stage_status = SUCCEEDED | SKIPPED | FAILED

fun status_value :: "stage_status \<Rightarrow> string" where
  "status_value SUCCEEDED = ''succeeded''"
| "status_value SKIPPED = ''skipped''"
| "status_value FAILED = ''failed''"

record stage_outcome =
  oc_status :: stage_status
  oc_detail :: "(string, jval) dict"
  oc_reason :: "string option"
  oc_classification :: "string option"
  oc_watermarks :: "jval option"

text \<open>
  The constructors \<open>StageOutcome.succeeded\<close>, \<open>skipped\<close> and \<open>failed\<close>. Their keyword
  arguments are a dictionary; a keyword that is also a parameter name is a \<open>TypeError\<close>.
\<close>

definition outcome_succeeded :: "(string, jval) dict \<Rightarrow> stage_outcome" where
  "outcome_succeeded detail =
     \<lparr> oc_status = SUCCEEDED, oc_detail = dict_pop ''watermarks'' detail, oc_reason = None,
       oc_classification = None, oc_watermarks = dict_get detail ''watermarks'' \<rparr>"

definition outcome_skipped :: "string \<Rightarrow> (string, jval) dict \<Rightarrow> py_error + stage_outcome" where
  "outcome_skipped reason detail =
     (if ''reason'' \<in> set (dict_keys detail) then Inl TypeError
      else Inr \<lparr> oc_status = SKIPPED, oc_detail = dict_pop ''watermarks'' detail,
                 oc_reason = Some reason, oc_classification = None,
                 oc_watermarks = dict_get detail ''watermarks'' \<rparr>)"

definition outcome_failed ::
  "string \<Rightarrow> string \<Rightarrow> (string, jval) dict \<Rightarrow> py_error + stage_outcome" where
  "outcome_failed reason classification detail =
     (if ''reason'' \<in> set (dict_keys detail) \<or> ''classification'' \<in> set (dict_keys detail)
      then Inl TypeError
      else Inr \<lparr> oc_status = FAILED, oc_detail = dict_pop ''watermarks'' detail,
                 oc_reason = Some reason, oc_classification = Some classification,
                 oc_watermarks = dict_get detail ''watermarks'' \<rparr>)"

definition STAGE_ORDER :: "string list" where
  "STAGE_ORDER = [''ingest'', ''pit_update'', ''materialize'', ''mixed_build'', ''validate'',
     ''promote'', ''refresh'', ''probe'']"

definition ALLOWED_SKIP_REASONS :: "string list" where
  "ALLOWED_SKIP_REASONS = [''dark_no_source'', ''input_unchanged'']"

definition DARK_STATES :: "string list" where
  "DARK_STATES = [''no_source'', ''no_observations'', ''no_securities'',
     ''no_effective_filings'', ''no_effective_facts'']"

definition SUCCESS_STATES :: "string list" where
  "SUCCESS_STATES = [''ok'', ''ready'', ''current'']"

subsection \<open>Exceptions and their classification\<close>

text \<open>
  An exception with its \<open>__cause__\<close>, \<open>__context__\<close> and \<open>__suppress_context__\<close>. The class
  tag holds what the classifier tests with \<open>isinstance\<close>. The chain of a value of this type
  is finite, so the code's guard against a cycle never fires on it.
\<close>

datatype exn_class = TransientStage | TerminalStage | PsycopgConnection | OtherException

datatype exn = Exn (exn_kind: exn_class) (exn_type: string) (exn_message: string)
  (exn_cause: "exn option") (exn_context: "exn option") (exn_suppress: bool)

definition default_classify_exception :: "exn \<Rightarrow> string" where
  "default_classify_exception e =
     (case exn_kind e of
        TransientStage \<Rightarrow> ''transient''
      | TerminalStage \<Rightarrow> ''terminal''
      | PsycopgConnection \<Rightarrow> ''transient''
      | OtherException \<Rightarrow> ''terminal'')"

definition MAX_ERROR_CHAIN :: nat where "MAX_ERROR_CHAIN = 8"
definition MAX_ERROR_MESSAGE :: nat where "MAX_ERROR_MESSAGE = 500"

text \<open>The next exception of a chain with the link's name, in both loops of the code.\<close>

definition next_exn :: "exn \<Rightarrow> (exn \<times> string) option" where
  "next_exn e =
     (case exn_cause e of
        Some c \<Rightarrow> Some (c, ''cause'')
      | None \<Rightarrow>
          (case exn_context e of
             Some c \<Rightarrow> if exn_suppress e then None else Some (c, ''context'')
           | None \<Rightarrow> None))"

record error_link =
  el_type :: string
  el_message :: string
  el_link :: string

fun error_links :: "nat \<Rightarrow> exn \<Rightarrow> string \<Rightarrow> error_link list" where
  "error_links 0 e link = []"
| "error_links (Suc n) e link =
     \<lparr> el_type = exn_type e, el_message = take MAX_ERROR_MESSAGE (strip (exn_message e)),
       el_link = link \<rparr> #
     (case next_exn e of None \<Rightarrow> [] | Some (e', link') \<Rightarrow> error_links n e' link')"

definition error_chain :: "exn \<Rightarrow> error_link list" where
  "error_chain e = error_links MAX_ERROR_CHAIN e ''raised''"

definition link_text :: "error_link \<Rightarrow> string" where
  "link_text l = (if el_message l = [] then el_type l else el_message l)"

definition failure_reason :: "error_link list \<Rightarrow> string" where
  "failure_reason chain =
     (if chain = [] then []
      else (let root_text = link_text (last chain); raised = hd chain
            in if length chain = 1 then root_text
               else root_text @ '' [surfaced as '' @ el_type raised @ '': '' @ link_text raised @ '']''))"

fun exn_chain :: "nat \<Rightarrow> exn \<Rightarrow> exn list" where
  "exn_chain 0 e = []"
| "exn_chain (Suc n) e =
     e # (case next_exn e of None \<Rightarrow> [] | Some (e', link) \<Rightarrow> exn_chain n e')"

definition classify_chain :: "(exn \<Rightarrow> string) \<Rightarrow> exn \<Rightarrow> string" where
  "classify_chain classify_exception e =
     (let classifications = map classify_exception (exn_chain MAX_ERROR_CHAIN e)
      in if ''terminal'' \<in> set classifications then ''terminal'' else ''transient'')"

text \<open>\<open>error_chain=chain\<close> in the detail of the failed outcome.\<close>

definition chain_json :: "error_link list \<Rightarrow> jval" where
  "chain_json chain = JList (map (\<lambda>l. JObj [(''type'', JStr (el_type l)),
     (''message'', JStr (el_message l)), (''link'', JStr (el_link l))]) chain)"

text \<open>A worker's result dictionary. \<open>str(result.get("state") or result.get("status") or "")\<close>.\<close>

fun truthy :: "jval \<Rightarrow> bool" where
  "truthy JNull = False"
| "truthy (JBool b) = b"
| "truthy (JInt n) = (n \<noteq> 0)"
| "truthy (JNum r) = (r \<noteq> 0)"
| "truthy (JStr s) = (s \<noteq> [])"
| "truthy (JList xs) = (xs \<noteq> [])"
| "truthy (JObj xs) = (xs \<noteq> [])"

text \<open>The text of a value that is not a string matches none of the states the code knows.\<close>

definition worker_state :: "(jval \<Rightarrow> string) \<Rightarrow> (string, jval) dict \<Rightarrow> string" where
  "worker_state py_str result =
     (let v = dict_get_default result ''state'' JNull;
          v' = (if truthy v then v else dict_get_default result ''status'' JNull);
          v'' = (if truthy v' then v' else JStr [])
      in case v'' of JStr s \<Rightarrow> s | _ \<Rightarrow> py_str v'')"

definition is_scalar :: "jval \<Rightarrow> bool" where
  "is_scalar v = (case v of JList _ \<Rightarrow> False | JObj _ \<Rightarrow> False | _ \<Rightarrow> True)"

definition result_detail :: "(jval \<Rightarrow> string) \<Rightarrow> (string, jval) dict \<Rightarrow> (string, jval) dict" where
  "result_detail py_str result =
     fold (\<lambda>(key, v) out. if key = ''state'' \<or> key = ''status'' then out
                          else if is_scalar v then dict_set key v out else out)
       result [(''worker_state'', JStr (worker_state py_str result))]"

text \<open>The exception the code builds; its message is \<open>msg\<close>.\<close>

definition simple_exn :: "exn_class \<Rightarrow> string \<Rightarrow> string \<Rightarrow> exn" where
  "simple_exn k ty msg = Exn k ty msg None None False"

definition type_error :: exn where
  "type_error = simple_exn OtherException ''TypeError'' ''got multiple values for argument''"

definition classify_worker_result ::
  "(jval \<Rightarrow> string) \<Rightarrow> (string, jval) dict \<Rightarrow> exn + stage_outcome" where
  "classify_worker_result py_str result =
     (let state = worker_state py_str result
      in if state \<in> set SUCCESS_STATES then Inr (outcome_succeeded (result_detail py_str result))
         else if state \<in> set DARK_STATES then
           (case outcome_skipped ''dark_no_source'' (result_detail py_str result) of
              Inl _ \<Rightarrow> Inl type_error | Inr oc \<Rightarrow> Inr oc)
         else if state = ''locked'' then
           Inl (simple_exn TransientStage ''TransientStageError''
                  (''sub-worker locked: '' @ py_str (JObj result)))
         else if state = ''failed'' then
           Inl (simple_exn TerminalStage ''TerminalStageError''
                  (''sub-worker failed: '' @ py_str (JObj result)))
         else Inl (simple_exn TerminalStage ''TerminalStageError''
                  (''unrecognised worker result: '' @ py_str (JObj result))))"

definition default_backoff :: "nat \<Rightarrow> real \<Rightarrow> real \<Rightarrow> real" where
  "default_backoff attempt base cap = min cap (base * 2 ^ (attempt - 1))"

subsection \<open>Running one stage\<close>

text \<open>
  A stage unit sees its context and the world and either raises or returns an outcome; what
  it did to the world before raising stays. The connection and the connection string of the
  context are the world.
\<close>

record stage_context =
  cx_source_day :: date
  cx_run_id :: string
  cx_chain :: string
  cx_code_revision :: string
  cx_config_version :: string
  cx_attempt :: nat

record 'w stage =
  stage_name :: string
  stage_run :: "stage_context \<Rightarrow> 'w \<Rightarrow> 'w \<times> (exn + stage_outcome)"
  stage_required :: bool

definition reconcile_skip :: "bool \<Rightarrow> stage_outcome \<Rightarrow> py_error + stage_outcome" where
  "reconcile_skip required oc =
     (if oc_status oc = SKIPPED \<and> oc_reason oc \<notin> Some ` set ALLOWED_SKIP_REASONS \<and> required
      then if ''original_reason'' \<in> set (dict_keys (oc_detail oc)) then Inl TypeError
           else outcome_failed ''required_stage_skipped'' ''terminal''
             ((''original_reason'', case oc_reason oc of None \<Rightarrow> JNull | Some r \<Rightarrow> JStr r)
              # oc_detail oc)
      else Inr oc)"

definition exception_outcome :: "(exn \<Rightarrow> string) \<Rightarrow> exn \<Rightarrow> stage_outcome" where
  "exception_outcome classify e =
     (let chain = error_chain e; reason = failure_reason chain
      in \<lparr> oc_status = FAILED, oc_detail = [(''error_chain'', chain_json chain)],
           oc_reason = Some (if reason = [] then exn_type e else reason),
           oc_classification = Some (classify_chain classify e), oc_watermarks = None \<rparr>)"

definition retry_wanted :: "stage_outcome \<Rightarrow> bool" where
  "retry_wanted oc \<longleftrightarrow> oc_status oc = FAILED \<and> oc_classification oc = Some ''transient''"

text \<open>
  The loop of \<open>_run_stage\<close> with \<open>left\<close> attempts left. The middle component lists the
  attempts after which the loop slept; the argument of \<open>backoff\<close> is that attempt.
\<close>

fun attempts_loop ::
  "(exn \<Rightarrow> string) \<Rightarrow> 'w stage \<Rightarrow> stage_context \<Rightarrow> nat \<Rightarrow> nat \<Rightarrow> 'w \<Rightarrow>
   'w \<times> nat list \<times> (py_error + stage_outcome \<times> nat)" where
  "attempts_loop classify st cx 0 attempt w = (w, [], Inl AssertionError)"
| "attempts_loop classify st cx (Suc left) attempt w =
     (let (w', r) = stage_run st (cx\<lparr> cx_attempt := attempt \<rparr>) w
      in case (case r of
                 Inl e \<Rightarrow> Inr (exception_outcome classify e)
               | Inr oc \<Rightarrow> reconcile_skip (stage_required st) oc) of
           Inl err \<Rightarrow> (w', [], Inl err)
         | Inr oc \<Rightarrow>
             if retry_wanted oc \<and> left > 0 then
               (let (w'', slept, res) = attempts_loop classify st cx left (attempt + 1) w'
                in (w'', attempt # slept, res))
             else (w', [], Inr (oc, attempt)))"

definition run_stage ::
  "(exn \<Rightarrow> string) \<Rightarrow> nat \<Rightarrow> 'w stage \<Rightarrow> stage_context \<Rightarrow> 'w \<Rightarrow>
   'w \<times> nat list \<times> (py_error + stage_outcome \<times> nat)" where
  "run_stage classify max_attempts st cx w = attempts_loop classify st cx max_attempts 1 w"

subsection \<open>The tables of the chain\<close>

record stage_row =
  sr_order :: nat
  sr_status :: string
  sr_reason :: "string option"
  sr_classification :: "string option"
  sr_attempts :: nat
  sr_detail :: "(string, jval) dict"
  sr_watermarks :: "jval option"

record promotion =
  pm_run :: "string option"
  pm_product :: string
  pm_action :: string
  pm_publication :: "string option"
  pm_previous :: "string option"

text \<open>One product a run made current: the pre-run pointer, the latest one, the stage.\<close>

record advance =
  adv_previous :: "string option"
  adv_current :: "string option"
  adv_stage :: string

record stage_record =
  st_stage :: string
  st_order :: nat
  st_status :: string
  st_reason :: "string option"
  st_classification :: "string option"
  st_attempts :: nat
  st_detail :: "(string, jval) dict"
  st_watermarks :: "jval option"
  st_resumed :: bool

record freshness =
  fr_source_day :: date
  fr_threshold_days :: "int option"
  fr_lags :: "(string, int) dict"
  fr_max_lag :: "int option"
  fr_stale_sources :: "string list"

datatype watermark = WDate date | WStr string | WOther

record summary =
  sm_run_id :: string
  sm_chain :: string
  sm_source_day :: date
  sm_code_revision :: string
  sm_config_version :: string
  sm_status :: string
  sm_promoted :: "(string \<times> advance) list"
  sm_compensations :: "(string \<times> advance) list"
  sm_compensation_failures :: "(string \<times> advance \<times> string) list"
  sm_watermarks :: "(string, watermark) dict"
  sm_freshness :: freshness
  sm_staleness_alert :: "string option"
  sm_stages :: "stage_record list"
  sm_skips :: "(string \<times> string option) list"
  sm_failures :: "(string \<times> string option \<times> string option) list"
  sm_alert :: "string option"

record run_row =
  rr_chain :: string
  rr_source_day :: date
  rr_code_revision :: string
  rr_config_version :: string
  rr_status :: string
  rr_watermarks :: "(string, watermark) dict"
  rr_summary :: "summary option"

record chain_db =
  db_runs :: "(string, run_row) dict"
  db_stages :: "((string \<times> string), stage_row) dict"
  db_promotions :: "promotion list"

definition chain_run_id_for ::
  "(string \<Rightarrow> string) \<Rightarrow> string \<Rightarrow> date \<Rightarrow> string \<Rightarrow> string \<Rightarrow> string" where
  "chain_run_id_for uuid5 chain source_day code_revision config_version =
     uuid5 (chain @ ''|'' @ isoformat source_day @ ''|'' @ code_revision @ ''|'' @ config_version)"

definition open_run :: "string \<Rightarrow> run_row \<Rightarrow> chain_db \<Rightarrow> chain_db" where
  "open_run run_id fresh db =
     db\<lparr> db_runs := dict_set run_id
       (case dict_get (db_runs db) run_id of
          None \<Rightarrow> fresh
        | Some old \<Rightarrow> old\<lparr> rr_status := ''running'', rr_watermarks := rr_watermarks fresh,
                         rr_summary := None \<rparr>) (db_runs db) \<rparr>"

definition finish_run :: "string \<Rightarrow> string \<Rightarrow> summary \<Rightarrow> chain_db \<Rightarrow> chain_db" where
  "finish_run run_id status s db =
     db\<lparr> db_runs := (case dict_get (db_runs db) run_id of
       None \<Rightarrow> db_runs db
     | Some old \<Rightarrow> dict_set run_id (old\<lparr> rr_status := status, rr_summary := Some s \<rparr>) (db_runs db)) \<rparr>"

definition load_stage_run :: "chain_db \<Rightarrow> string \<Rightarrow> string \<Rightarrow> stage_row option" where
  "load_stage_run db run_id stage = dict_get (db_stages db) (run_id, stage)"

definition record_stage :: "string \<Rightarrow> string \<Rightarrow> nat \<Rightarrow> stage_outcome \<Rightarrow> nat \<Rightarrow> chain_db \<Rightarrow> chain_db" where
  "record_stage run_id stage order oc attempts db =
     db\<lparr> db_stages := dict_set (run_id, stage)
       \<lparr> sr_order = order, sr_status = status_value (oc_status oc), sr_reason = oc_reason oc,
         sr_classification = oc_classification oc, sr_attempts = attempts,
         sr_detail = oc_detail oc,
         sr_watermarks = (case oc_watermarks oc of
           None \<Rightarrow> None | Some v \<Rightarrow> if truthy v then Some v else None) \<rparr> (db_stages db) \<rparr>"

definition record_promotion ::
  "string option \<Rightarrow> string \<Rightarrow> string \<Rightarrow> string option \<Rightarrow> string option \<Rightarrow> chain_db \<Rightarrow> chain_db" where
  "record_promotion run_id action product publication_id previous db =
     db\<lparr> db_promotions := db_promotions db @
       [\<lparr> pm_run = run_id, pm_product = product, pm_action = action,
          pm_publication = publication_id, pm_previous = previous \<rparr>] \<rparr>"

text \<open>The loop of \<open>_load_run_promotions\<close> over the run's ledger rows in order.\<close>

definition net_step :: "promotion \<Rightarrow> (string, advance) dict \<Rightarrow> (string, advance) dict" where
  "net_step p net =
     (if pm_action p = ''promote'' then
        (case dict_get net (pm_product p) of
           Some a \<Rightarrow> dict_set (pm_product p) (a\<lparr> adv_current := pm_publication p \<rparr>) net
         | None \<Rightarrow> dict_set (pm_product p)
             \<lparr> adv_previous = pm_previous p, adv_current = pm_publication p,
               adv_stage = ''recovered'' \<rparr> net)
      else if pm_action p = ''rollback'' then dict_pop (pm_product p) net
      else net)"

definition load_run_promotions :: "chain_db \<Rightarrow> string \<Rightarrow> (string, advance) dict" where
  "load_run_promotions db run_id =
     fold net_step (filter (\<lambda>p. pm_run p = Some run_id) (db_promotions db)) []"

subsection \<open>Freshness\<close>

definition as_date :: "watermark \<Rightarrow> date option" where
  "as_date v = (case v of
     WDate d \<Rightarrow> Some d
   | WStr s \<Rightarrow> if s = [] then None else fromisoformat (take 10 s)
   | WOther \<Rightarrow> None)"

definition source_lags :: "date \<Rightarrow> (string, watermark) dict \<Rightarrow> (string, int) dict" where
  "source_lags source_day watermarks =
     concat (map (\<lambda>(source, v). case as_date v of
       None \<Rightarrow> [] | Some d \<Rightarrow> [(source, toordinal source_day - toordinal d)]) watermarks)"

text \<open>\<open>sort_names\<close> is \<open>sorted\<close> on the source names.\<close>

definition freshness_of ::
  "(string list \<Rightarrow> string list) \<Rightarrow> date \<Rightarrow> (string, watermark) dict \<Rightarrow> int option \<Rightarrow> freshness" where
  "freshness_of sort_names source_day watermarks threshold_days =
     (let lags = source_lags source_day watermarks;
          stale = map fst (filter (\<lambda>(source, lag).
            case threshold_days of None \<Rightarrow> False | Some t \<Rightarrow> lag \<ge> t) lags)
      in \<lparr> fr_source_day = source_day, fr_threshold_days = threshold_days, fr_lags = lags,
           fr_max_lag = (case map snd lags of [] \<Rightarrow> None | x # xs \<Rightarrow> Some (list_max x xs)),
           fr_stale_sources = sort_names stale \<rparr>)"

text \<open>\<open>show_int\<close> is \<open>str\<close> of an integer, \<open>show_opt\<close> of an integer or None.\<close>

definition staleness_alert ::
  "(int \<Rightarrow> string) \<Rightarrow> (int option \<Rightarrow> string) \<Rightarrow> string \<Rightarrow> date \<Rightarrow> freshness \<Rightarrow> string option" where
  "staleness_alert show_int show_opt chain source_day f =
     (let stale = fr_stale_sources f
      in if stale = [] then None
         else Some (''['' @ chain @ ''] run for '' @ isoformat source_day @ '' STALE INPUT: '' @
           show_int (int (length stale)) @ '' source(s) at/over '' @ show_opt (fr_threshold_days f) @
           ''d ['' @ str_join '', '' stale @ '']; max lag '' @ show_opt (fr_max_lag f) @ ''d''))"

subsection \<open>The run of one source day\<close>

text \<open>What a run is given besides the tables and the world.\<close>

record 'w chain_env =
  env_stages :: "'w stage list"
  env_code_revision :: string
  env_config_version :: string
  env_chain :: string
  env_watermarks_for :: "'w \<Rightarrow> date \<Rightarrow> (string, watermark) dict"
  env_pointers :: "(('w \<Rightarrow> (string, string) dict) \<times>
    (string \<Rightarrow> string option \<Rightarrow> 'w \<Rightarrow> string + 'w)) option"
  env_max_attempts :: nat
  env_classify :: "exn \<Rightarrow> string"
  env_threshold :: "int option"
  env_uuid5 :: "string \<Rightarrow> string"
  env_show_int :: "int \<Rightarrow> string"
  env_show_opt :: "int option \<Rightarrow> string"
  env_sort_names :: "string list \<Rightarrow> string list"

definition env_run_id :: "'w chain_env \<Rightarrow> date \<Rightarrow> string" where
  "env_run_id env source_day = chain_run_id_for (env_uuid5 env) (env_chain env) source_day
     (env_code_revision env) (env_config_version env)"

definition day_context :: "'w chain_env \<Rightarrow> date \<Rightarrow> stage_context" where
  "day_context env source_day =
     \<lparr> cx_source_day = source_day, cx_run_id = env_run_id env source_day, cx_chain = env_chain env,
       cx_code_revision = env_code_revision env, cx_config_version = env_config_version env,
       cx_attempt = 1 \<rparr>"

lemma day_context_run_id [simp]: "cx_run_id (day_context env d) = env_run_id env d"
  by (simp add: day_context_def)

definition resumed_record :: "string \<Rightarrow> nat \<Rightarrow> stage_row \<Rightarrow> stage_record" where
  "resumed_record name order cp =
     \<lparr> st_stage = name, st_order = order, st_status = sr_status cp, st_reason = sr_reason cp,
       st_classification = sr_classification cp, st_attempts = sr_attempts cp,
       st_detail = sr_detail cp,
       st_watermarks = (case sr_watermarks cp of
         None \<Rightarrow> None | Some v \<Rightarrow> if truthy v then Some v else None),
       st_resumed = True \<rparr>"

definition outcome_record :: "string \<Rightarrow> nat \<Rightarrow> stage_outcome \<Rightarrow> nat \<Rightarrow> stage_record" where
  "outcome_record name order oc attempts =
     \<lparr> st_stage = name, st_order = order, st_status = status_value (oc_status oc),
       st_reason = oc_reason oc, st_classification = oc_classification oc,
       st_attempts = attempts, st_detail = oc_detail oc,
       st_watermarks = (case oc_watermarks oc of
         None \<Rightarrow> None | Some v \<Rightarrow> if truthy v then Some v else None),
       st_resumed = False \<rparr>"

text \<open>The variables the loop over the stages changes.\<close>

record 'w loop_state =
  ls_world :: 'w
  ls_db :: chain_db
  ls_advanced :: "(string, advance) dict"
  ls_last_seen :: "(string, string) dict"
  ls_records :: "stage_record list"

text \<open>The pointer diff after a stage that succeeded, one product at a time.\<close>

definition diff_step ::
  "string \<Rightarrow> string \<Rightarrow> (string, string option) dict \<Rightarrow> (string, string) dict \<Rightarrow>
   string \<times> string \<Rightarrow> (string, advance) dict \<times> chain_db \<Rightarrow> (string, advance) dict \<times> chain_db" where
  "diff_step run_id stage baseline last_seen kv acc =
     (let (product, pub_id) = kv; (advanced, db) = acc
      in if dict_get last_seen product = Some pub_id then acc
         else (let previous = (case dict_get advanced product of
                     Some a \<Rightarrow> adv_previous a
                   | None \<Rightarrow> dict_get_default baseline product None)
               in (dict_set product \<lparr> adv_previous = previous, adv_current = Some pub_id,
                                     adv_stage = stage \<rparr> advanced,
                   record_promotion (Some run_id) ''promote'' product (Some pub_id) previous db)))"

definition track_stage ::
  "('w \<Rightarrow> (string, string) dict) \<Rightarrow> string \<Rightarrow> string \<Rightarrow> (string, string option) dict \<Rightarrow>
   'w loop_state \<Rightarrow> 'w loop_state" where
  "track_stage snapshot run_id stage baseline st =
     (let after = snapshot (ls_world st);
          (advanced, db) = fold (diff_step run_id stage baseline (ls_last_seen st)) after
            (ls_advanced st, ls_db st)
      in st\<lparr> ls_advanced := advanced, ls_db := db, ls_last_seen := after \<rparr>)"

definition checkpoint_done :: "stage_row option \<Rightarrow> bool" where
  "checkpoint_done cp =
     (case cp of None \<Rightarrow> False | Some r \<Rightarrow> sr_status r \<in> {''succeeded'', ''skipped''})"

text \<open>The body of the loop for a stage without a terminal checkpoint; the flag is \<open>failed\<close>.\<close>

definition execute_stage ::
  "'w chain_env \<Rightarrow> stage_context \<Rightarrow> (string, string option) dict \<Rightarrow> nat \<Rightarrow> 'w stage \<Rightarrow> 'w loop_state \<Rightarrow>
   'w loop_state \<times> (py_error + bool)" where
  "execute_stage env cx baseline order stage st =
     (case run_stage (env_classify env) (env_max_attempts env) stage cx (ls_world st) of
        (w, slept, Inl err) \<Rightarrow> (st\<lparr> ls_world := w \<rparr>, Inl err)
      | (w, slept, Inr (oc, attempts)) \<Rightarrow>
          (let st1 = st\<lparr> ls_world := w,
                 ls_db := record_stage (cx_run_id cx) (stage_name stage) order oc attempts (ls_db st),
                 ls_records := ls_records st @ [outcome_record (stage_name stage) order oc attempts] \<rparr>;
               st2 = (case env_pointers env of
                        Some (snapshot, restore) \<Rightarrow>
                          if oc_status oc = SUCCEEDED
                          then track_stage snapshot (cx_run_id cx) (stage_name stage) baseline st1 else st1
                      | None \<Rightarrow> st1)
           in (st2, Inr (oc_status oc = FAILED))))"

text \<open>\<open>prior\<close> is the checkpoints read before the loop.\<close>

fun stage_loop ::
  "'w chain_env \<Rightarrow> stage_context \<Rightarrow> (string \<Rightarrow> stage_row option) \<Rightarrow> (string, string option) dict \<Rightarrow> nat \<Rightarrow>
   'w stage list \<Rightarrow> 'w loop_state \<Rightarrow> 'w loop_state \<times> (py_error + bool)" where
  "stage_loop env cx prior baseline order [] st = (st, Inr False)"
| "stage_loop env cx prior baseline order (stage # rest) st =
     (if checkpoint_done (prior (stage_name stage)) then
        stage_loop env cx prior baseline (order + 1) rest
          (st\<lparr> ls_records := ls_records st @
             [resumed_record (stage_name stage) order (the (prior (stage_name stage)))] \<rparr>)
      else (case execute_stage env cx baseline order stage st of
              (st', Inl err) \<Rightarrow> (st', Inl err)
            | (st', Inr True) \<Rightarrow> (st', Inr True)
            | (st', Inr False) \<Rightarrow> stage_loop env cx prior baseline (order + 1) rest st'))"

subsection \<open>Compensation\<close>

record 'w comp_state =
  cp_world :: 'w
  cp_db :: chain_db
  cp_done :: "(string \<times> advance) list"
  cp_failed :: "(string \<times> advance \<times> string) list"
  cp_reset_stages :: "string list"
  cp_reset_all :: bool

definition compensate_step ::
  "(string \<Rightarrow> string option \<Rightarrow> 'w \<Rightarrow> string + 'w) \<Rightarrow> string \<Rightarrow> string \<times> advance \<Rightarrow> 'w comp_state \<Rightarrow>
   'w comp_state" where
  "compensate_step restore run_id pa c =
     (let (product, info) = pa
      in case restore product (adv_previous info) (cp_world c) of
           Inl err \<Rightarrow> c\<lparr> cp_failed := cp_failed c @ [(product, info, err)] \<rparr>
         | Inr w \<Rightarrow>
             c\<lparr> cp_world := w,
                cp_db := record_promotion (Some run_id) ''rollback'' product (adv_previous info)
                  (adv_current info) (cp_db c),
                cp_done := cp_done c @ [(product, info)],
                cp_reset_stages := (if adv_stage info = ''recovered'' then cp_reset_stages c
                                    else adv_stage info # cp_reset_stages c),
                cp_reset_all := (cp_reset_all c \<or> adv_stage info = ''recovered'') \<rparr>)"

definition delete_stage_rows :: "(string \<Rightarrow> bool) \<Rightarrow> string \<Rightarrow> chain_db \<Rightarrow> chain_db" where
  "delete_stage_rows which run_id db =
     db\<lparr> db_stages := filter (\<lambda>((r, s), row). \<not> (r = run_id \<and> which s)) (db_stages db) \<rparr>"

definition compensate ::
  "(string \<Rightarrow> string option \<Rightarrow> 'w \<Rightarrow> string + 'w) \<Rightarrow> string \<Rightarrow> (string, advance) dict \<Rightarrow> 'w \<Rightarrow>
   chain_db \<Rightarrow> 'w comp_state" where
  "compensate restore run_id advanced w db =
     (let c = fold (compensate_step restore run_id) advanced
            \<lparr> cp_world = w, cp_db = db, cp_done = [], cp_failed = [], cp_reset_stages = [],
              cp_reset_all = False \<rparr>
      in if cp_reset_all c then c\<lparr> cp_db := delete_stage_rows (\<lambda>s. True) run_id (cp_db c) \<rparr>
         else c\<lparr> cp_db := delete_stage_rows (\<lambda>s. s \<in> set (cp_reset_stages c)) run_id (cp_db c) \<rparr>)"

subsection \<open>Summary and alert\<close>

text \<open>The dash the code prints before \<open>MANUAL\<close> and \<open>no product\<close> is written as a hyphen.\<close>

definition alert_line ::
  "(int \<Rightarrow> string) \<Rightarrow> string \<Rightarrow> date \<Rightarrow> string \<Rightarrow> (string \<times> string option \<times> string option) list \<Rightarrow>
   (string \<times> string option) list \<Rightarrow> string list \<Rightarrow> string list \<Rightarrow> string option" where
  "alert_line show_int chain source_day status failures skips compensated comp_failed =
     (let tag = ''['' @ chain @ ''] run for '' @ isoformat source_day;
          text = (\<lambda>x. case x of None \<Rightarrow> ''None'' | Some t \<Rightarrow> t)
      in if status = ''failed'' then
           (let (stage, reason, classification) =
                  (case failures of [] \<Rightarrow> (''?'', Some ''?'', None) | f # fs \<Rightarrow> f);
                line = tag @ '' FAILED at stage '' @ stage @ '' ('' @ text classification @ '': '' @
                  text reason @ '')''
            in if comp_failed \<noteq> [] then
                 Some (line @ ''; COMPENSATION FAILED for '' @ show_int (int (length comp_failed)) @
                   '' product(s) ['' @ str_join '', '' comp_failed @ ''] - MANUAL rollback required'')
               else if compensated \<noteq> [] then
                 Some (line @ ''; '' @ show_int (int (length compensated)) @
                   '' product(s) auto-rolled back to prior current ['' @ str_join '', '' compensated @
                   ''] - no product advanced'')
               else Some line)
         else (let dark = filter (\<lambda>(s, r). r = Some ''dark_no_source'') skips
               in if dark \<noteq> [] then
                    Some (tag @ '' completed in DARK mode ('' @ show_int (int (length dark)) @
                      '' stage(s) had no authorized source): nothing promoted'')
                  else None))"

definition build_summary ::
  "'w chain_env \<Rightarrow> string \<Rightarrow> date \<Rightarrow> string \<Rightarrow> (string, watermark) dict \<Rightarrow> stage_record list \<Rightarrow>
   (string \<times> advance) list \<Rightarrow> (string \<times> advance) list \<Rightarrow> (string \<times> advance \<times> string) list \<Rightarrow> summary" where
  "build_summary env run_id source_day status watermarks stage_records promoted comps comp_failures =
     (let failures = map (\<lambda>s. (st_stage s, st_reason s, st_classification s))
            (filter (\<lambda>s. st_status s = ''failed'') stage_records);
          skips = map (\<lambda>s. (st_stage s, st_reason s))
            (filter (\<lambda>s. st_status s = ''skipped'') stage_records);
          fresh = freshness_of (env_sort_names env) source_day watermarks (env_threshold env)
      in \<lparr> sm_run_id = run_id, sm_chain = env_chain env, sm_source_day = source_day,
           sm_code_revision = env_code_revision env, sm_config_version = env_config_version env,
           sm_status = status, sm_promoted = promoted, sm_compensations = comps,
           sm_compensation_failures = comp_failures, sm_watermarks = watermarks,
           sm_freshness = fresh,
           sm_staleness_alert = staleness_alert (env_show_int env) (env_show_opt env)
             (env_chain env) source_day fresh,
           sm_stages = stage_records, sm_skips = skips, sm_failures = failures,
           sm_alert = alert_line (env_show_int env) (env_chain env) source_day status failures skips
             (map fst comps) (map fst comp_failures) \<rparr>)"

subsection \<open>One day and the whole chain\<close>

definition prepare_loop ::
  "'w chain_env \<Rightarrow> string \<Rightarrow> 'w \<Rightarrow> chain_db \<Rightarrow> (string, string option) dict \<times> 'w loop_state" where
  "prepare_loop env run_id w db =
     (case env_pointers env of
        None \<Rightarrow> ([], \<lparr> ls_world = w, ls_db = db, ls_advanced = [], ls_last_seen = [], ls_records = [] \<rparr>)
      | Some (snapshot, restore) \<Rightarrow>
          (let ledger_advanced = load_run_promotions db run_id;
               baseline = fold (\<lambda>(product, info). dict_set product (adv_previous info)) ledger_advanced
                 (map (\<lambda>(p, v). (p, Some v)) (snapshot w))
           in (baseline, \<lparr> ls_world = w, ls_db = db, ls_advanced = ledger_advanced,
                           ls_last_seen = snapshot w, ls_records = [] \<rparr>)))"

definition finish_day ::
  "'w chain_env \<Rightarrow> string \<Rightarrow> date \<Rightarrow> (string, watermark) dict \<Rightarrow> 'w loop_state \<Rightarrow> bool \<Rightarrow>
   'w \<times> chain_db \<times> summary" where
  "finish_day env run_id source_day watermarks st failed =
     (let (w, db, comps, comp_failures) =
            (case env_pointers env of
               Some (snapshot, restore) \<Rightarrow>
                 if failed \<and> ls_advanced st \<noteq> [] then
                   (let c = compensate restore run_id (ls_advanced st) (ls_world st) (ls_db st)
                    in (cp_world c, cp_db c, cp_done c, cp_failed c))
                 else (ls_world st, ls_db st, [], [])
             | None \<Rightarrow> (ls_world st, ls_db st, [], []));
          status = (if failed then ''failed'' else ''completed'');
          promoted = (if failed then [] else ls_advanced st);
          s = build_summary env run_id source_day status watermarks (ls_records st) promoted comps
                comp_failures
      in (w, finish_run run_id status s db, s))"

text \<open>The stored summary of a completed run, if the run is one.\<close>

definition completed_summary :: "chain_db \<Rightarrow> string \<Rightarrow> summary option" where
  "completed_summary db run_id =
     (case dict_get (db_runs db) run_id of
        None \<Rightarrow> None
      | Some row \<Rightarrow> if rr_status row = ''completed'' then rr_summary row else None)"

definition run_one_day ::
  "'w chain_env \<Rightarrow> date \<Rightarrow> 'w \<times> chain_db \<Rightarrow> ('w \<times> chain_db) \<times> (py_error + summary)" where
  "run_one_day env source_day wdb =
     (let (w, db) = wdb; run_id = env_run_id env source_day
      in case completed_summary db run_id of
           Some s \<Rightarrow> ((w, db), Inr s)
         | None \<Rightarrow>
             (let watermarks = env_watermarks_for env w source_day;
                  db1 = open_run run_id
                    \<lparr> rr_chain = env_chain env, rr_source_day = source_day,
                      rr_code_revision = env_code_revision env,
                      rr_config_version = env_config_version env, rr_status = ''running'',
                      rr_watermarks = watermarks, rr_summary = None \<rparr> db;
                  prior = load_stage_run db1 run_id;
                  (baseline, st0) = prepare_loop env run_id w db1
              in case stage_loop env (day_context env source_day) prior baseline 0 (env_stages env) st0 of
                   (st, Inl err) \<Rightarrow> ((ls_world st, ls_db st), Inl err)
                 | (st, Inr failed) \<Rightarrow>
                     (let (w', db', s) = finish_day env run_id source_day watermarks st failed
                      in ((w', db'), Inr s))))"

fun run_days ::
  "'w chain_env \<Rightarrow> date list \<Rightarrow> 'w \<times> chain_db \<Rightarrow> ('w \<times> chain_db) \<times> (py_error + summary list)" where
  "run_days env [] s = (s, Inr [])"
| "run_days env (d # ds) s =
     (case run_one_day env d s of
        (s', Inl err) \<Rightarrow> (s', Inl err)
      | (s', Inr sm) \<Rightarrow>
          (case run_days env ds s' of
             (s'', Inl err) \<Rightarrow> (s'', Inl err)
           | (s'', Inr sms) \<Rightarrow> (s'', Inr (sm # sms))))"

definition run_chain ::
  "'w chain_env \<Rightarrow> date list \<Rightarrow> 'w \<times> chain_db \<Rightarrow> ('w \<times> chain_db) \<times> (py_error + summary list)" where
  "run_chain env source_days s = run_days env (sort source_days) s"

subsection \<open>Pointer rollback by hand\<close>

definition promote_derived ::
  "('w \<Rightarrow> (string, string) dict) \<Rightarrow> (string \<Rightarrow> string \<Rightarrow> 'w \<Rightarrow> exn + 'w) \<Rightarrow> string \<Rightarrow> string \<Rightarrow>
   string option \<Rightarrow> 'w \<times> chain_db \<Rightarrow> exn + ('w \<times> chain_db) \<times> string option" where
  "promote_derived pointers set_current product pub_id run_id wdb =
     (let (w, db) = wdb; previous = dict_get (pointers w) product
      in bindE (set_current product pub_id w) (\<lambda>w'.
           Inr ((w', record_promotion run_id ''promote'' product (Some pub_id) previous db), previous)))"

definition rollback_pointer ::
  "(string \<Rightarrow> string \<Rightarrow> 'w \<Rightarrow> exn + 'w) \<Rightarrow> string \<Rightarrow> string option \<Rightarrow> 'w \<times> chain_db \<Rightarrow>
   exn + ('w \<times> chain_db) \<times> string option \<times> string" where
  "rollback_pointer set_older product run_id wdb =
     (let (w, db) = wdb
      in case filter (\<lambda>p. pm_product p = product \<and> pm_action p = ''promote'') (rev (db_promotions db)) of
           [] \<Rightarrow> Inl (simple_exn TerminalStage ''TerminalStageError'' ''no promotion history'')
         | row # _ \<Rightarrow>
             (case pm_previous row of
                None \<Rightarrow> Inl (simple_exn TerminalStage ''TerminalStageError'' ''no prior pointer'')
              | Some restore_to \<Rightarrow>
                  bindE (set_older product restore_to w) (\<lambda>w'.
                    Inr ((w', record_promotion run_id ''rollback'' product (Some restore_to)
                                (pm_publication row) db), pm_publication row, restore_to))))"

subsection \<open>Exceptions: the cause leads, any terminal link decides\<close>

lemma error_links_types:
  "map el_type (error_links n e link) = map exn_type (exn_chain n e)"
  by (induction n e arbitrary: link rule: exn_chain.induct) (auto split: option.split)

lemma error_links_messages:
  "map el_message (error_links n e link)
     = map (\<lambda>x. take MAX_ERROR_MESSAGE (strip (exn_message x))) (exn_chain n e)"
  by (induction n e arbitrary: link rule: exn_chain.induct) (auto split: option.split)

lemma exn_chain_ne: "0 < n \<Longrightarrow> exn_chain n e \<noteq> []"
  by (cases n) auto

definition exn_text :: "exn \<Rightarrow> string" where
  "exn_text e = (let m = take MAX_ERROR_MESSAGE (strip (exn_message e)) in if m = [] then exn_type e else m)"

lemma link_texts: "map link_text (error_chain e) = map exn_text (exn_chain MAX_ERROR_CHAIN e)"
proof -
  have "map link_text ls = map (\<lambda>(t, m). if m = [] then t else m) (zip (map el_type ls) (map el_message ls))" for ls
    by (induction ls) (auto simp: link_text_def)
  then have "map link_text (error_chain e) = map (\<lambda>(t, m). if m = [] then t else m)
      (zip (map exn_type (exn_chain MAX_ERROR_CHAIN e))
        (map (\<lambda>x. take MAX_ERROR_MESSAGE (strip (exn_message x))) (exn_chain MAX_ERROR_CHAIN e)))"
    by (simp only: error_chain_def error_links_types error_links_messages)
  also have "\<dots> = map exn_text (exn_chain MAX_ERROR_CHAIN e)"
    by (simp add: zip_map_map exn_text_def Let_def zip_same_conv_map o_def cong: map_cong)
  finally show ?thesis .
qed

text \<open>
  The reason of a failed stage leads with the root cause. It begins with the text of the
  last exception of the recorded chain, which is that exception's stripped message or its
  type name, and it is exactly that text when nothing masked the failure.
\<close>

theorem failure_reason_leads_with_root:
  "let chain = exn_chain MAX_ERROR_CHAIN e; reason = failure_reason (error_chain e) in
     chain \<noteq> [] \<and> (\<exists>rest. reason = exn_text (last chain) @ rest \<and> (length chain = 1 \<longrightarrow> rest = []))
     \<and> hd chain = e"
proof -
  let ?chain = "exn_chain MAX_ERROR_CHAIN e"
  have ne: "?chain \<noteq> []" by (simp add: MAX_ERROR_CHAIN_def exn_chain_ne)
  have len: "length (error_chain e) = length ?chain"
    using arg_cong [OF link_texts [of e], of length] by simp
  then have ne': "error_chain e \<noteq> []" using ne by auto
  have "link_text (last (error_chain e)) = exn_text (last ?chain)"
    using arg_cong [OF link_texts [of e], of last] ne ne' by (simp add: last_map)
  moreover have "hd ?chain = e" by (simp add: MAX_ERROR_CHAIN_def eval_nat_numeral)
  ultimately show ?thesis
    using ne ne' len by (auto simp: failure_reason_def Let_def)
qed

theorem failure_reason_leads_with_root_witness:
  "failure_reason (error_chain (Exn OtherException ''InFailedSqlTransaction'' ''aborted''
      (Some (Exn TerminalStage ''CoverageError'' '' 3 rows short '' None None False)) None False))
    = ''3 rows short [surfaced as InFailedSqlTransaction: aborted]''"
proof -
  let ?e = "Exn OtherException ''InFailedSqlTransaction'' ''aborted''
      (Some (Exn TerminalStage ''CoverageError'' '' 3 rows short '' None None False)) None False"
  show ?thesis
    using failure_reason_leads_with_root [of ?e]
    by (simp add: error_chain_def MAX_ERROR_CHAIN_def MAX_ERROR_MESSAGE_def failure_reason_def
        next_exn_def strip_def is_space_def link_text_def Let_def eval_nat_numeral)
qed

text \<open>
  Classification is fail closed over the recorded links. A failure is retried only if
  none of the first eight exceptions of its chain classifies as terminal.
\<close>

theorem classify_chain_transient_iff:
  "classify_chain classify e = ''transient'' \<longleftrightarrow>
     (\<forall>x \<in> set (exn_chain MAX_ERROR_CHAIN e). classify x \<noteq> ''terminal'')"
  by (auto simp: classify_chain_def Let_def image_iff)

theorem classify_chain_transient_iff_witness:
  "classify_chain default_classify_exception
     (Exn PsycopgConnection ''OperationalError'' ''closed'' None
       (Some (Exn TerminalStage ''CoverageError'' ''gap'' None None False)) False) \<noteq> ''transient''"
  unfolding classify_chain_transient_iff
  by (simp add: MAX_ERROR_CHAIN_def eval_nat_numeral next_exn_def default_classify_exception_def)

subsection \<open>Retries are bounded\<close>

lemma attempts_loop_spec:
  assumes "attempts_loop classify st cx left attempt w = (w', slept, Inr (oc, used))"
  shows "attempt \<le> used \<and> used < attempt + left \<and> slept = [attempt..<used] \<and>
    (retry_wanted oc \<longrightarrow> used + 1 = attempt + left)"
  using assms
proof (induction classify st cx left attempt w arbitrary: slept rule: attempts_loop.induct)
  case (2 classify st cx left attempt w)
  show ?case
  proof (cases "stage_run st (cx\<lparr> cx_attempt := attempt \<rparr>) w")
    case (Pair w1 r)
    let ?o = "case r of Inl e \<Rightarrow> Inr (exception_outcome classify e) | Inr oc \<Rightarrow> reconcile_skip (stage_required st) oc"
    show ?thesis
    proof (cases ?o)
      case (Inl err)
      then show ?thesis using "2.prems" Pair by (auto split: sum.splits)
    next
      case (Inr oc1)
      show ?thesis
      proof (cases "retry_wanted oc1 \<and> left > 0")
        case True
        obtain w2 sl res where rec: "attempts_loop classify st cx left (attempt + 1) w1 = (w2, sl, res)"
          by (metis prod.exhaust)
        have eq: "w' = w2" "slept = attempt # sl" "res = Inr (oc, used)"
          using "2.prems" Pair Inr True rec by (auto split: sum.splits)
        have "attempt + 1 \<le> used \<and> used < attempt + 1 + left \<and> sl = [attempt + 1..<used] \<and>
            (retry_wanted oc \<longrightarrow> used + 1 = attempt + 1 + left)"
          using "2.IH" [OF Pair [symmetric] refl Inr True] rec eq by (metis)
        then show ?thesis using eq by (auto simp: upt_conv_Cons)
      next
        case False
        then show ?thesis using "2.prems" Pair Inr by (auto split: sum.splits)
      qed
    qed
  qed
qed simp

text \<open>
  A stage runs at least once and at most \<open>max_attempts\<close> times, it sleeps exactly after
  every attempt but the last, and if its final outcome is still a transient failure then
  all attempts were used.
\<close>

theorem run_stage_bounded:
  assumes "run_stage classify max_attempts st cx w = (w', slept, Inr (oc, used))"
  shows "1 \<le> used \<and> used \<le> max_attempts \<and> slept = [1..<used] \<and>
    (retry_wanted oc \<longrightarrow> used = max_attempts)"
  using attempts_loop_spec [OF assms [unfolded run_stage_def]] by auto

definition flaky_stage :: "nat stage" where
  "flaky_stage = \<lparr> stage_name = ''ingest'',
     stage_run = (\<lambda>cx w. if cx_attempt cx < 3
        then (w, Inl (simple_exn TransientStage ''TransientStageError'' ''blip''))
        else (w + 1, Inr (outcome_succeeded []))), stage_required = True \<rparr>"

lemma flaky_run: "run_stage default_classify_exception 3 flaky_stage cx 0
    = (1, [1, 2], Inr (outcome_succeeded [], 3))"
  by (simp add: run_stage_def flaky_stage_def eval_nat_numeral simple_exn_def exception_outcome_def
      retry_wanted_def classify_chain_def MAX_ERROR_CHAIN_def next_exn_def
      default_classify_exception_def reconcile_skip_def outcome_succeeded_def Let_def)

definition demo_cx :: stage_context where
  "demo_cx = \<lparr> cx_source_day = Date 2026 7 17, cx_run_id = ''run'', cx_chain = ''chain'',
     cx_code_revision = ''rev'', cx_config_version = ''v1'', cx_attempt = 1 \<rparr>"

theorem run_stage_bounded_witness:
  "\<exists>w' slept oc used. run_stage default_classify_exception 3 flaky_stage demo_cx 0 = (w', slept, Inr (oc, used))
     \<and> used \<le> 3 \<and> slept = [1..<used]"
  using run_stage_bounded [OF flaky_run] flaky_run by blast

subsection \<open>The ledger and the advances\<close>

definition pointers_of :: "(string, advance) dict \<Rightarrow> (string \<times> string option \<times> string option) list" where
  "pointers_of d = map (\<lambda>(p, a). (p, adv_previous a, adv_current a)) d"

lemma keys_pointers_of [simp]: "map fst (pointers_of d) = map fst d"
  by (simp add: pointers_of_def o_def case_prod_beta')

lemma get_pointers_of:
  "dict_get (pointers_of d) p = map_option (\<lambda>a. (adv_previous a, adv_current a)) (dict_get d p)"
  by (induction d) (auto simp: pointers_of_def)

lemma pointers_of_set:
  "pointers_of (dict_set p a d) = dict_set p (adv_previous a, adv_current a) (pointers_of d)"
  by (induction d) (auto simp: pointers_of_def)

lemma pointers_of_pop: "pointers_of (dict_pop p d) = dict_pop p (pointers_of d)"
  by (induction d) (auto simp: pointers_of_def dict_pop_def)

lemma load_record_promotion:
  "load_run_promotions (record_promotion (Some r) act p pub prev db) run_id =
     (if r = run_id then net_step \<lparr> pm_run = Some r, pm_product = p, pm_action = act,
        pm_publication = pub, pm_previous = prev \<rparr> (load_run_promotions db run_id)
      else load_run_promotions db run_id)"
  by (simp add: load_run_promotions_def record_promotion_def)

lemma load_same_promotions:
  "db_promotions db = db_promotions db' \<Longrightarrow> load_run_promotions db = load_run_promotions db'"
  by (simp add: load_run_promotions_def fun_eq_iff)

lemma load_run_promotions_ok: "dict_ok (load_run_promotions db run_id)"
proof -
  have "dict_ok (fold net_step ps d)" if "dict_ok d" for ps d
    using that
  proof (induction ps arbitrary: d)
    case (Cons p ps)
    have "dict_ok (net_step p d)"
      using Cons.prems by (auto simp: net_step_def split: option.split)
    then show ?case using Cons.IH by simp
  qed simp
  then show ?thesis by (simp add: load_run_promotions_def)
qed

lemma db_fields [simp]:
  "db_promotions (record_stage run_id stg order oc n db) = db_promotions db"
  "db_runs (record_stage run_id stg order oc n db) = db_runs db"
  "db_promotions (open_run run_id row db) = db_promotions db"
  "db_promotions (finish_run run_id status sm db) = db_promotions db"
  "db_promotions (delete_stage_rows P run_id db) = db_promotions db"
  "db_runs (delete_stage_rows P run_id db) = db_runs db"
  "db_runs (record_promotion r act p pub prev db) = db_runs db"
  by (simp_all add: record_stage_def open_run_def finish_run_def delete_stage_rows_def
      record_promotion_def)

text \<open>The advances a run tracks are the ledger's net promotions, up to the stage label.\<close>

definition ledger_agrees :: "string \<Rightarrow> (string, advance) dict \<Rightarrow> chain_db \<Rightarrow> bool" where
  "ledger_agrees run_id advanced db \<longleftrightarrow>
     dict_ok advanced \<and> pointers_of (load_run_promotions db run_id) = pointers_of advanced"

lemma diff_step_agrees:
  assumes "ledger_agrees run_id adv db" "diff_step run_id stg baseline ls kv (adv, db) = (adv', db')"
  shows "ledger_agrees run_id adv' db'" "db_runs db' = db_runs db"
proof -
  obtain p v where kv: "kv = (p, v)" by (cases kv)
  show "db_runs db' = db_runs db"
    using assms(2) by (auto simp: diff_step_def kv Let_def split: if_splits)
  show "ledger_agrees run_id adv' db'"
  proof (cases "dict_get ls p = Some v")
    case True
    then show ?thesis using assms by (simp add: diff_step_def kv)
  next
    case False
    let ?net = "load_run_promotions db run_id"
    have po: "pointers_of ?net = pointers_of adv" and ok: "dict_ok adv"
      using assms(1) by (simp_all add: ledger_agrees_def)
    have g: "map_option (\<lambda>a. (adv_previous a, adv_current a)) (dict_get ?net p)
        = map_option (\<lambda>a. (adv_previous a, adv_current a)) (dict_get adv p)"
      using po by (metis get_pointers_of)
    have adv': "adv' = dict_set p \<lparr> adv_previous = (case dict_get adv p of
          Some a \<Rightarrow> adv_previous a | None \<Rightarrow> dict_get_default baseline p None),
          adv_current = Some v, adv_stage = stg \<rparr> adv"
      and db': "db' = record_promotion (Some run_id) ''promote'' p (Some v)
        (case dict_get adv p of Some a \<Rightarrow> adv_previous a | None \<Rightarrow> dict_get_default baseline p None) db"
      using assms(2) False by (auto simp: diff_step_def kv Let_def)
    have "pointers_of (load_run_promotions db' run_id) = pointers_of adv'"
      using g po unfolding adv' db' load_record_promotion
      by (auto simp: net_step_def pointers_of_set split: option.splits)
    then show ?thesis using ok by (simp add: ledger_agrees_def adv')
  qed
qed

lemma fold_diff_agrees:
  assumes "ledger_agrees run_id adv db" "fold (diff_step run_id stg baseline ls) kvs (adv, db) = (adv', db')"
  shows "ledger_agrees run_id adv' db' \<and> db_runs db' = db_runs db"
  using assms
proof (induction kvs arbitrary: adv db)
  case (Cons kv kvs)
  obtain a1 d1 where st: "diff_step run_id stg baseline ls kv (adv, db) = (a1, d1)" by (metis prod.exhaust)
  note one = diff_step_agrees [OF Cons.prems(1) st]
  have "fold (diff_step run_id stg baseline ls) kvs (a1, d1) = (adv', db')"
    using Cons.prems(2) st by simp
  from Cons.IH [OF one(1) this] show ?case using one(2) by simp
qed simp

lemma execute_stage_db:
  assumes "execute_stage env cx baseline order stg st = (st', r)"
    and "env_pointers env \<noteq> None \<Longrightarrow> ledger_agrees (cx_run_id cx) (ls_advanced st) (ls_db st)"
  shows "db_runs (ls_db st') = db_runs (ls_db st)"
    and "env_pointers env \<noteq> None \<Longrightarrow> ledger_agrees (cx_run_id cx) (ls_advanced st') (ls_db st')"
proof -
  obtain w sl res where rs: "run_stage (env_classify env) (env_max_attempts env) stg cx (ls_world st) = (w, sl, res)"
    by (metis prod.exhaust)
  have main: "db_runs (ls_db st') = db_runs (ls_db st) \<and>
    (env_pointers env \<noteq> None \<longrightarrow> ledger_agrees (cx_run_id cx) (ls_advanced st') (ls_db st'))"
  proof (cases res)
    case (Inl err)
    then show ?thesis using assms rs by (auto simp: execute_stage_def)
  next
    case (Inr oa)
    obtain oc n where oa: "oa = (oc, n)" by (cases oa)
    let ?st1 = "st\<lparr> ls_world := w,
       ls_db := record_stage (cx_run_id cx) (stage_name stg) order oc n (ls_db st),
       ls_records := ls_records st @ [outcome_record (stage_name stg) order oc n] \<rparr>"
    have agree1: "ledger_agrees (cx_run_id cx) (ls_advanced st) (record_stage (cx_run_id cx) (stage_name stg) order oc n (ls_db st))"
      if "env_pointers env \<noteq> None"
      using assms(2) [OF that] load_same_promotions [OF db_fields(1)]
      by (simp add: ledger_agrees_def)
    show ?thesis
    proof (cases "env_pointers env")
      case None
      then show ?thesis using assms(1) rs Inr oa by (auto simp: execute_stage_def Let_def)
    next
      case (Some sr)
      obtain snap rest where sr: "sr = (snap, rest)" by (cases sr)
      show ?thesis
      proof (cases "oc_status oc = SUCCEEDED")
        case False
        then show ?thesis using assms(1) rs Inr oa Some sr agree1
          by (auto simp: execute_stage_def Let_def)
      next
        case True
        have st': "st' = track_stage snap (cx_run_id cx) (stage_name stg) baseline ?st1"
          using assms(1) rs Inr oa Some sr True by (auto simp: execute_stage_def Let_def)
        obtain a d where f: "fold (diff_step (cx_run_id cx) (stage_name stg) baseline (ls_last_seen st)) (snap w)
            (ls_advanced st, record_stage (cx_run_id cx) (stage_name stg) order oc n (ls_db st)) = (a, d)"
          by (metis prod.exhaust)
        have "ls_advanced st' = a \<and> ls_db st' = d" by (simp add: st' track_stage_def f)
        then show ?thesis using fold_diff_agrees [OF agree1 f] Some by simp
      qed
    qed
  qed
  then show "db_runs (ls_db st') = db_runs (ls_db st)"
    "env_pointers env \<noteq> None \<Longrightarrow> ledger_agrees (cx_run_id cx) (ls_advanced st') (ls_db st')" by blast+
qed

lemma stage_loop_db:
  assumes "stage_loop env cx prior baseline order stages st = (st', r)"
    and "env_pointers env \<noteq> None \<Longrightarrow> ledger_agrees (cx_run_id cx) (ls_advanced st) (ls_db st)"
  shows "db_runs (ls_db st') = db_runs (ls_db st) \<and>
    (env_pointers env \<noteq> None \<longrightarrow> ledger_agrees (cx_run_id cx) (ls_advanced st') (ls_db st'))"
  using assms
proof (induction stages arbitrary: order st)
  case (Cons stg stages)
  show ?case
  proof (cases "checkpoint_done (prior (stage_name stg))")
    case True
    let ?st = "st\<lparr> ls_records := ls_records st @
       [resumed_record (stage_name stg) order (the (prior (stage_name stg)))] \<rparr>"
    have "stage_loop env cx prior baseline (order + 1) stages ?st = (st', r)"
      using Cons.prems(1) True by simp
    from Cons.IH [OF this] Cons.prems(2) show ?thesis by simp
  next
    case False
    obtain st1 r1 where ex: "execute_stage env cx baseline order stg st = (st1, r1)"
      by (metis prod.exhaust)
    note one = execute_stage_db [OF ex Cons.prems(2)]
    show ?thesis
    proof (cases "r1 = Inr False")
      case True
      then have "stage_loop env cx prior baseline (order + 1) stages st1 = (st', r)"
        using Cons.prems(1) False ex by simp
      from Cons.IH [OF this one(2)] one(1) show ?thesis by simp
    next
      case nf: False
      then have "st' = st1"
        using Cons.prems(1) False ex by (auto split: sum.splits bool.splits)
      then show ?thesis using one by simp
    qed
  qed
qed simp

lemma compensate_fold_ledger:
  assumes "pointers_of (load_run_promotions (cp_db c) run_id) = F @ pointers_of adv"
    and "distinct (map fst (F @ pointers_of adv))"
    and "map (\<lambda>(p, a, e). (p, adv_previous a, adv_current a)) (cp_failed c) = F"
  shows "let c' = fold (compensate_step restore run_id) adv c in
    pointers_of (load_run_promotions (cp_db c') run_id)
      = map (\<lambda>(p, a, e). (p, adv_previous a, adv_current a)) (cp_failed c') \<and>
    db_runs (cp_db c') = db_runs (cp_db c)"
  using assms
proof (induction adv arbitrary: c F)
  case (Cons pa adv)
  obtain p a where pa: "pa = (p, a)" by (cases pa)
  let ?c = "compensate_step restore run_id (p, a) c"
  show ?case
  proof (cases "restore p (adv_previous a) (cp_world c)")
    case (Inl err)
    then have c: "cp_db ?c = cp_db c" "cp_failed ?c = cp_failed c @ [(p, a, err)]"
      by (simp_all add: compensate_step_def)
    have "let c' = fold (compensate_step restore run_id) adv ?c in
      pointers_of (load_run_promotions (cp_db c') run_id)
        = map (\<lambda>(p, a, e). (p, adv_previous a, adv_current a)) (cp_failed c') \<and>
      db_runs (cp_db c') = db_runs (cp_db ?c)"
      using Cons.prems
      by (intro Cons.IH [where F = "F @ [(p, adv_previous a, adv_current a)]"])
        (auto simp: c pa pointers_of_def)
    then show ?thesis by (simp add: pa c)
  next
    case (Inr w)
    then have c: "cp_db ?c = record_promotion (Some run_id) ''rollback'' p (adv_previous a) (adv_current a) (cp_db c)"
      "cp_failed ?c = cp_failed c"
      by (simp_all add: compensate_step_def)
    have pop: "dict_pop p (F @ (p, x) # G) = F @ G"
      if "distinct (map fst (F @ (p, x) # G))" for x and F G :: "(string \<times> string option \<times> string option) list"
    proof -
      have "p \<notin> fst ` set F" "p \<notin> fst ` set G" using that by auto
      then have "filter (\<lambda>kv. fst kv \<noteq> p) F = F" "filter (\<lambda>kv. fst kv \<noteq> p) G = G"
        by (auto simp: filter_id_conv)
      then show ?thesis by (simp add: dict_pop_def)
    qed
    have "pointers_of (load_run_promotions (cp_db ?c) run_id)
        = dict_pop p (pointers_of (load_run_promotions (cp_db c) run_id))"
      by (simp add: c load_record_promotion net_step_def pointers_of_pop)
    also have "\<dots> = F @ pointers_of adv"
      using Cons.prems(1,2) pop [of F "(adv_previous a, adv_current a)" "pointers_of adv"]
      by (simp add: pa pointers_of_def)
    finally have l: "pointers_of (load_run_promotions (cp_db ?c) run_id) = F @ pointers_of adv" .
    have "let c' = fold (compensate_step restore run_id) adv ?c in
      pointers_of (load_run_promotions (cp_db c') run_id)
        = map (\<lambda>(p, a, e). (p, adv_previous a, adv_current a)) (cp_failed c') \<and>
      db_runs (cp_db c') = db_runs (cp_db ?c)"
      using Cons.prems by (intro Cons.IH [OF l]) (auto simp: c pa pointers_of_def)
    then show ?thesis by (simp add: pa c)
  qed
qed (simp add: pointers_of_def)

subsection \<open>The interface of the pointer store\<close>

text \<open>
  What the engine relies on of the two functions it is given: the snapshot is a dictionary,
  and a restore that succeeds sets the pointer of its product, or clears it, moves no other
  pointer and keeps the store well formed (\<open>good\<close>).
\<close>

locale pointer_store =
  fixes snapshot :: "'w \<Rightarrow> (string, string) dict"
    and restore :: "string \<Rightarrow> string option \<Rightarrow> 'w \<Rightarrow> string + 'w"
    and good :: "'w \<Rightarrow> bool"
  assumes snapshot_dict: "dict_ok (snapshot w)"
    and restore_sets: "good w \<Longrightarrow> restore p v w = Inr w' \<Longrightarrow>
      dict_get (snapshot w') = (dict_get (snapshot w))(p := v)"
    and restore_good: "good w \<Longrightarrow> restore p v w = Inr w' \<Longrightarrow> good w'"
begin

lemma restore_all:
  assumes "dict_ok adv" "cp_failed (fold (compensate_step restore run_id) adv c) = []"
    and "good (cp_world c)"
  shows "dict_get (snapshot (cp_world (fold (compensate_step restore run_id) adv c)))
    = (\<lambda>p. case dict_get adv p of Some a \<Rightarrow> adv_previous a
                                | None \<Rightarrow> dict_get (snapshot (cp_world c)) p)"
  using assms
proof (induction adv arbitrary: c)
  case (Cons pa adv)
  obtain p a where pa: "pa = (p, a)" by (cases pa)
  let ?c = "compensate_step restore run_id (p, a) c"
  have grow: "\<exists>xs. cp_failed (fold (compensate_step restore run_id) ys d) = cp_failed d @ xs" for ys d
  proof (induction ys arbitrary: d)
    case (Cons y ys)
    have "\<exists>xs. cp_failed (compensate_step restore run_id y d) = cp_failed d @ xs"
      by (auto simp: compensate_step_def split: prod.split sum.split)
    then show ?case using Cons by (metis append.assoc fold_simps(2))
  qed simp
  have "cp_failed ?c = []"
    using Cons.prems(2) grow [of adv ?c] by (auto simp: pa)
  then obtain w where w: "restore p (adv_previous a) (cp_world c) = Inr w"
    by (cases "restore p (adv_previous a) (cp_world c)") (auto simp: compensate_step_def)
  then have cw: "cp_world ?c = w" by (simp add: compensate_step_def)
  have ok: "dict_ok adv" "p \<notin> fst ` set adv" using Cons.prems(1) by (auto simp: pa)
  have "dict_get (snapshot (cp_world (fold (compensate_step restore run_id) adv ?c)))
    = (\<lambda>q. case dict_get adv q of Some a \<Rightarrow> adv_previous a
                                | None \<Rightarrow> dict_get (snapshot (cp_world ?c)) q)"
    using Cons.prems restore_good [OF Cons.prems(3) w] by (intro Cons.IH ok) (simp_all add: pa cw)
  then show ?case
    using ok(2) restore_sets [OF Cons.prems(3) w]
    by (auto simp: pa cw fun_eq_iff dict_get_None_iff [symmetric] split: option.split)
qed simp

end

subsection \<open>What the loop tracks\<close>

text \<open>
  A stage whose executions move pointers only when they succeed, and never drop one. The
  worker's stages promote publications and never clear a pointer.
\<close>

definition moves_only_on_success ::
  "'w chain_env \<Rightarrow> stage_context \<Rightarrow> ('w \<Rightarrow> (string, string) dict) \<Rightarrow> ('w \<Rightarrow> bool) \<Rightarrow>
   'w stage \<Rightarrow> bool" where
  "moves_only_on_success env cx snapshot good st \<longleftrightarrow>
     (\<forall>w w' slept oc n. good w \<longrightarrow>
        run_stage (env_classify env) (env_max_attempts env) st cx w = (w', slept, Inr (oc, n)) \<longrightarrow>
        good w' \<and>
        (if oc_status oc = SUCCEEDED
         then dom (dict_get (snapshot w)) \<subseteq> dom (dict_get (snapshot w'))
         else dict_get (snapshot w') = dict_get (snapshot w)))"

definition baseline_of :: "(string, string option) dict \<Rightarrow> string \<Rightarrow> string option" where
  "baseline_of baseline p = dict_get_default baseline p None"

text \<open>
  The loop invariant: an advanced product remembers its pre-run pointer, every other
  product still has it.
\<close>

definition tracked :: "(string, string option) dict \<Rightarrow> (string, advance) dict \<Rightarrow> (string, string) dict \<Rightarrow> bool" where
  "tracked baseline advanced seen \<longleftrightarrow>
     (\<forall>p. case dict_get advanced p of
        Some a \<Rightarrow> adv_previous a = baseline_of baseline p
      | None \<Rightarrow> dict_get seen p = baseline_of baseline p)"

lemma fold_diff_tracked:
  assumes "fold (diff_step run_id stg baseline ls) kvs (adv, db) = (adv', db')" "distinct (map fst kvs)"
    and "\<And>p a. dict_get adv p = Some a \<Longrightarrow> adv_previous a = baseline_of baseline p"
  shows "(\<forall>p a. dict_get adv' p = Some a \<longrightarrow> adv_previous a = baseline_of baseline p) \<and>
    (\<forall>p. dict_get adv' p = None \<longrightarrow> dict_get adv p = None \<and>
       (\<forall>v. dict_get kvs p = Some v \<longrightarrow> dict_get ls p = Some v))"
  using assms
proof (induction kvs arbitrary: adv db)
  case (Cons kv kvs)
  obtain p v where kv: "kv = (p, v)" by (cases kv)
  obtain a1 d1 where st: "diff_step run_id stg baseline ls kv (adv, db) = (a1, d1)" by (metis prod.exhaust)
  have p1: "adv_previous a = baseline_of baseline q" if "dict_get a1 q = Some a" for q a
    using st that Cons.prems(3)
    by (auto simp: diff_step_def kv Let_def baseline_of_def split: if_splits option.splits)
  have p2: "dict_get a1 q = None \<Longrightarrow> dict_get adv q = None"
    and p3: "dict_get a1 p = None \<Longrightarrow> dict_get ls p = Some v" for q
    using st by (auto simp: diff_step_def kv Let_def split: if_splits)
  have "fold (diff_step run_id stg baseline ls) kvs (a1, d1) = (adv', db')"
    using Cons.prems(1) st by simp
  from Cons.IH [OF this _ p1] Cons.prems(2) p2 p3 show ?case
    by (auto simp: kv)
qed (simp add: dict_get_None_iff)

lemma execute_stage_tracked:
  assumes "execute_stage env cx baseline order stg st = (st', Inr failed)"
    and "env_pointers env = Some (snapshot, restore)" "\<And>w. dict_ok (snapshot w)"
    and "moves_only_on_success env cx snapshot good stg"
    and "tracked baseline (ls_advanced st) (ls_last_seen st)"
    and "dict_get (snapshot (ls_world st)) = dict_get (ls_last_seen st)" "good (ls_world st)"
  shows "tracked baseline (ls_advanced st') (ls_last_seen st') \<and>
    dict_get (snapshot (ls_world st')) = dict_get (ls_last_seen st') \<and> good (ls_world st')"
proof -
  obtain w sl res where rs: "run_stage (env_classify env) (env_max_attempts env) stg cx (ls_world st) = (w, sl, res)"
    by (metis prod.exhaust)
  obtain oc n where res: "res = Inr (oc, n)"
    using assms(1) rs by (cases res) (auto simp: execute_stage_def)
  note quiet = assms(4)[unfolded moves_only_on_success_def, rule_format, OF assms(7) rs [unfolded res]]
  let ?st1 = "st\<lparr> ls_world := w,
     ls_db := record_stage (cx_run_id cx) (stage_name stg) order oc n (ls_db st),
     ls_records := ls_records st @ [outcome_record (stage_name stg) order oc n] \<rparr>"
  show ?thesis
  proof (cases "oc_status oc = SUCCEEDED")
    case False
    then have "st' = ?st1" using assms(1,2) rs res by (auto simp: execute_stage_def Let_def)
    then show ?thesis using assms(5,6) quiet False by simp
  next
    case True
    then have st': "st' = track_stage snapshot (cx_run_id cx) (stage_name stg) baseline ?st1"
      using assms(1,2) rs res by (auto simp: execute_stage_def Let_def)
    obtain a d where f: "fold (diff_step (cx_run_id cx) (stage_name stg) baseline (ls_last_seen st)) (snapshot w)
        (ls_advanced st, record_stage (cx_run_id cx) (stage_name stg) order oc n (ls_db st)) = (a, d)"
      by (metis prod.exhaust)
    have eq: "ls_advanced st' = a" "ls_last_seen st' = snapshot w" "ls_world st' = w"
      by (simp_all add: st' track_stage_def f)
    have prev: "adv_previous b = baseline_of baseline q" if "dict_get (ls_advanced st) q = Some b" for q b
      using assms(5) that by (auto simp: tracked_def split: option.splits dest!: spec [of _ q])
    note fold = fold_diff_tracked [OF f assms(3) prev]
    have "tracked baseline a (snapshot w)"
      unfolding tracked_def
    proof
      fix p
      show "case dict_get a p of Some b \<Rightarrow> adv_previous b = baseline_of baseline p
          | None \<Rightarrow> dict_get (snapshot w) p = baseline_of baseline p"
      proof (cases "dict_get a p")
        case None
        then have n: "dict_get (ls_advanced st) p = None"
          "dict_get (snapshot w) p = Some v \<Longrightarrow> dict_get (ls_last_seen st) p = Some v" for v
          using fold by blast+
        have b: "dict_get (ls_last_seen st) p = baseline_of baseline p"
          using assms(5) n(1) by (auto simp: tracked_def split: option.splits dest!: spec [of _ p])
        have "dict_get (snapshot w) p = dict_get (ls_last_seen st) p"
        proof (cases "dict_get (snapshot w) p")
          case none: None
          have "dom (dict_get (ls_last_seen st)) \<subseteq> dom (dict_get (snapshot w))"
            using quiet True assms(6) by simp
          then have "dict_get (ls_last_seen st) p = None" using none by blast
          then show ?thesis using none by simp
        qed (use n(2) in simp)
        then show ?thesis using None b by simp
      qed (use fold in auto)
    qed
    then show ?thesis using quiet by (simp add: eq)
  qed
qed

lemma stage_loop_tracked:
  assumes "stage_loop env cx prior baseline order stages st = (st', Inr failed)"
    and "env_pointers env = Some (snapshot, restore)" "\<And>w. dict_ok (snapshot w)"
    and "\<And>stg. stg \<in> set stages \<Longrightarrow> moves_only_on_success env cx snapshot good stg"
    and "tracked baseline (ls_advanced st) (ls_last_seen st)"
    and "dict_get (snapshot (ls_world st)) = dict_get (ls_last_seen st)" "good (ls_world st)"
  shows "tracked baseline (ls_advanced st') (ls_last_seen st') \<and>
    dict_get (snapshot (ls_world st')) = dict_get (ls_last_seen st') \<and> good (ls_world st')"
  using assms(1,4-)
proof (induction stages arbitrary: order st)
  case (Cons stg stages)
  show ?case
  proof (cases "checkpoint_done (prior (stage_name stg))")
    case True
    let ?st = "st\<lparr> ls_records := ls_records st @
       [resumed_record (stage_name stg) order (the (prior (stage_name stg)))] \<rparr>"
    have "stage_loop env cx prior baseline (order + 1) stages ?st = (st', Inr failed)"
      using Cons.prems(1) True by simp
    from Cons.IH [OF this] Cons.prems show ?thesis by simp
  next
    case False
    obtain st1 r1 where ex: "execute_stage env cx baseline order stg st = (st1, r1)"
      by (metis prod.exhaust)
    obtain b where b: "r1 = Inr b"
      using Cons.prems(1) False ex by (cases r1) auto
    note one = execute_stage_tracked [OF ex [unfolded b] assms(2,3) Cons.prems(2) Cons.prems(3-5)]
    show ?thesis
    proof (cases b)
      case True
      then have "st' = st1" using Cons.prems(1) False ex b by simp
      then show ?thesis using one by simp
    next
      case nf: False
      then have "stage_loop env cx prior baseline (order + 1) stages st1 = (st', Inr failed)"
        using Cons.prems(1) False ex b by simp
      from Cons.IH [OF this Cons.prems(2)] one show ?thesis by simp
    qed
  qed
qed simp

subsection \<open>A failed run restores the pointers\<close>

lemma fold_set_keys_ok: "dict_ok d \<Longrightarrow> dict_ok (fold (\<lambda>(k, v). dict_set k (f v)) xs d)"
proof (induction xs arbitrary: d)
  case (Cons x xs)
  have "dict_ok (dict_set (fst x) (f (snd x)) d)" using Cons.prems by (rule dict_ok_set)
  then show ?case using Cons.IH by (simp add: case_prod_beta)
qed simp

lemma fold_set_get:
  assumes "dict_ok xs"
  shows "dict_get (fold (\<lambda>(k, v). dict_set k (f v)) xs d) p
    = (case dict_get xs p of Some v \<Rightarrow> Some (f v) | None \<Rightarrow> dict_get d p)"
  using assms
proof (induction xs arbitrary: d)
  case (Cons x xs)
  obtain k v where x: "x = (k, v)" by (cases x)
  have "dict_get xs k = None" using Cons.prems by (simp add: x dict_get_None_iff)
  then show ?case using Cons by (auto simp: x split: option.split)
qed simp

definition pre_run_pointer ::
  "('w \<Rightarrow> (string, string) dict) \<Rightarrow> string \<Rightarrow> chain_db \<Rightarrow> 'w \<Rightarrow> string \<Rightarrow> string option" where
  "pre_run_pointer snapshot run_id db w p =
     (case dict_get (load_run_promotions db run_id) p of
        Some a \<Rightarrow> adv_previous a
      | None \<Rightarrow> dict_get (snapshot w) p)"

lemma prepare_loop_tracked:
  assumes "prepare_loop env run_id w db = (baseline, st)" "env_pointers env = Some (snapshot, restore)"
    "dict_ok (snapshot w)"
  shows "baseline_of baseline = pre_run_pointer snapshot run_id db w"
    "tracked baseline (ls_advanced st) (ls_last_seen st)"
    "dict_get (snapshot (ls_world st)) = dict_get (ls_last_seen st)"
    "ls_db st = db" "ls_advanced st = load_run_promotions db run_id" "ls_world st = w"
    "ls_records st = []"
proof -
  let ?net = "load_run_promotions db run_id"
  have b: "baseline = fold (\<lambda>(product, info). dict_set product (adv_previous info)) ?net
      (map (\<lambda>(p, v). (p, Some v)) (snapshot w))"
    and st: "st = \<lparr> ls_world = w, ls_db = db, ls_advanced = ?net, ls_last_seen = snapshot w,
      ls_records = [] \<rparr>"
    using assms(1,2) by (auto simp: prepare_loop_def Let_def)
  have m: "dict_get (map (\<lambda>(p, v). (p, Some v)) d) p = map_option Some (dict_get d p)"
    for d :: "(string, string) dict" and p
    by (induction d) auto
  show bp: "baseline_of baseline = pre_run_pointer snapshot run_id db w"
    by (auto simp: fun_eq_iff baseline_of_def dict_get_default_def pre_run_pointer_def b
        fold_set_get [OF load_run_promotions_ok] m split: option.split)
  show "tracked baseline (ls_advanced st) (ls_last_seen st)"
    by (auto simp: tracked_def bp st pre_run_pointer_def split: option.split)
  show "dict_get (snapshot (ls_world st)) = dict_get (ls_last_seen st)" "ls_db st = db"
    "ls_advanced st = ?net" "ls_world st = w" "ls_records st = []" by (simp_all add: st)
qed

lemma run_one_day_Inr:
  assumes "run_one_day env d (w, db) = ((w', db'), Inr sm)"
    and "completed_summary db (env_run_id env d) = None"
  obtains fresh baseline st0 st failed where
    "fresh = open_run (env_run_id env d)
                    \<lparr> rr_chain = env_chain env, rr_source_day = d,
                      rr_code_revision = env_code_revision env,
                      rr_config_version = env_config_version env, rr_status = ''running'',
                      rr_watermarks = env_watermarks_for env w d, rr_summary = None \<rparr> db"
    "prepare_loop env (env_run_id env d) w fresh = (baseline, st0)"
    "stage_loop env (day_context env d) (load_stage_run fresh (env_run_id env d)) baseline 0
       (env_stages env) st0 = (st, Inr failed)"
    "finish_day env (env_run_id env d) d (env_watermarks_for env w d) st failed = (w', db', sm)"
  using assms by (auto simp: run_one_day_def Let_def split: prod.splits sum.splits)

lemma finish_day_summary:
  assumes "finish_day env run_id d wm st failed = (w', db', sm)"
  shows "sm_status sm = (if failed then ''failed'' else ''completed'')"
    "sm_stages sm = ls_records st" "sm_run_id sm = run_id"
  using assms by (auto simp: finish_day_def Let_def build_summary_def split: option.splits if_splits)

text \<open>The guarantee of the compensation, for any pointer store.\<close>

lemma failed_run_restores:
  assumes "pointer_store snapshot restore good" "env_pointers env = Some (snapshot, restore)"
    and "\<And>stg. stg \<in> set (env_stages env) \<Longrightarrow> moves_only_on_success env (day_context env d) snapshot good stg"
    and "run_one_day env d (w, db) = ((w', db'), Inr sm)"
    and "completed_summary db (env_run_id env d) = None"
    and "sm_status sm = ''failed''" "sm_compensation_failures sm = []" "good w"
  shows "dict_get (snapshot w') = pre_run_pointer snapshot (env_run_id env d) db w"
proof -
  have ok: "dict_ok (snapshot v)" for v
    using assms(1) by (rule pointer_store.snapshot_dict)
  obtain fresh baseline st0 st failed where run:
    "fresh = open_run (env_run_id env d)
                    \<lparr> rr_chain = env_chain env, rr_source_day = d,
                      rr_code_revision = env_code_revision env,
                      rr_config_version = env_config_version env, rr_status = ''running'',
                      rr_watermarks = env_watermarks_for env w d, rr_summary = None \<rparr> db"
    "prepare_loop env (env_run_id env d) w fresh = (baseline, st0)"
    "stage_loop env (day_context env d) (load_stage_run fresh (env_run_id env d)) baseline 0
       (env_stages env) st0 = (st, Inr failed)"
    "finish_day env (env_run_id env d) d (env_watermarks_for env w d) st failed = (w', db', sm)"
    using run_one_day_Inr [OF assms(4,5)] by metis
  have failed: "failed" using finish_day_summary(1) [OF run(4)] assms(6) by (auto split: if_splits)
  note prep = prepare_loop_tracked [OF run(2) assms(2) ok]
  note loop = stage_loop_tracked [OF run(3) assms(2) ok assms(3) prep(2,3) assms(8) [folded prep(6)]]
  have agree: "ledger_agrees (env_run_id env d) (ls_advanced st0) (ls_db st0)"
    by (simp add: ledger_agrees_def prep(4,5) load_run_promotions_ok)
  have okadv: "dict_ok (ls_advanced st)"
    using stage_loop_db [OF run(3)] agree assms(2) by (simp add: ledger_agrees_def)
  have base: "baseline_of baseline = pre_run_pointer snapshot (env_run_id env d) db w"
  proof -
    have "load_run_promotions fresh = load_run_promotions db"
      by (rule load_same_promotions) (simp add: run(1))
    then show ?thesis by (simp add: prep(1) pre_run_pointer_def fun_eq_iff)
  qed
  have pt: "dict_get (ls_advanced st) p = Some a \<Longrightarrow> adv_previous a = baseline_of baseline p"
    "dict_get (ls_advanced st) p = None \<Longrightarrow> dict_get (snapshot (ls_world st)) p = baseline_of baseline p" for p a
    using loop by (auto simp: tracked_def split: option.splits dest: spec [of _ p])
  show ?thesis
  proof (cases "ls_advanced st = []")
    case True
    then have "w' = ls_world st"
      using run(4) assms(2) by (auto simp: finish_day_def Let_def)
    then show ?thesis using pt(2) True base by (auto simp: fun_eq_iff)
  next
    case False
    let ?init = "\<lparr> cp_world = ls_world st, cp_db = ls_db st, cp_done = [], cp_failed = [],
       cp_reset_stages = [], cp_reset_all = False \<rparr>"
    let ?c = "fold (compensate_step restore (env_run_id env d)) (ls_advanced st) ?init"
    have w': "w' = cp_world ?c" and "sm_compensation_failures sm = cp_failed ?c"
      using run(4) assms(2) failed False
      by (auto simp: finish_day_def Let_def compensate_def build_summary_def split: if_splits)
    then have "cp_failed ?c = []" using assms(7) by simp
    from pointer_store.restore_all [OF assms(1) okadv this] loop w'
    have "dict_get (snapshot w') = (\<lambda>p. case dict_get (ls_advanced st) p of
        Some a \<Rightarrow> adv_previous a | None \<Rightarrow> dict_get (snapshot (ls_world st)) p)"
      by (simp only: comp_state.select_convs)
    then show ?thesis using pt base by (auto simp: fun_eq_iff split: option.split)
  qed
qed

text \<open>
  The ledger and the summary tell the same story. After a run that executed with pointer
  tracking, the run's net promotions in the ledger are exactly the promotions its summary
  reports when it completed, and exactly the products whose compensation failed when it
  failed, each with the same previous and current publication and in the same order.
\<close>

theorem ledger_matches_summary:
  assumes "env_pointers env = Some (snapshot, restore)" "\<And>v. dict_ok (snapshot v)"
    and "run_one_day env d (w, db) = ((w', db'), Inr sm)"
    and "completed_summary db (env_run_id env d) = None"
  shows "pointers_of (load_run_promotions db' (env_run_id env d)) =
    (if sm_status sm = ''completed'' then pointers_of (sm_promoted sm)
     else map (\<lambda>(p, a, e). (p, adv_previous a, adv_current a)) (sm_compensation_failures sm))"
proof -
  let ?id = "env_run_id env d"
  obtain fresh baseline st0 st failed where run:
    "fresh = open_run (env_run_id env d)
                    \<lparr> rr_chain = env_chain env, rr_source_day = d,
                      rr_code_revision = env_code_revision env,
                      rr_config_version = env_config_version env, rr_status = ''running'',
                      rr_watermarks = env_watermarks_for env w d, rr_summary = None \<rparr> db"
    "prepare_loop env (env_run_id env d) w fresh = (baseline, st0)"
    "stage_loop env (day_context env d) (load_stage_run fresh (env_run_id env d)) baseline 0
       (env_stages env) st0 = (st, Inr failed)"
    "finish_day env (env_run_id env d) d (env_watermarks_for env w d) st failed = (w', db', sm)"
    using run_one_day_Inr [OF assms(3,4)] by metis
  note prep = prepare_loop_tracked [OF run(2) assms(1,2)]
  have agree0: "ledger_agrees ?id (ls_advanced st0) (ls_db st0)"
    by (simp add: ledger_agrees_def prep(4,5) load_run_promotions_ok)
  have agree: "ledger_agrees ?id (ls_advanced st) (ls_db st)"
    using stage_loop_db [OF run(3)] agree0 assms(1) by simp
  let ?init = "\<lparr> cp_world = ls_world st, cp_db = ls_db st, cp_done = [], cp_failed = [],
     cp_reset_stages = [], cp_reset_all = False \<rparr>"
  let ?c = "fold (compensate_step restore ?id) (ls_advanced st) ?init"
  have comp: "pointers_of (load_run_promotions (cp_db ?c) ?id)
      = map (\<lambda>(p, a, e). (p, adv_previous a, adv_current a)) (cp_failed ?c)"
    using compensate_fold_ledger [where c = ?init and F = "[]" and adv = "ls_advanced st" and run_id = ?id
        and restore = restore] agree
    by (simp add: ledger_agrees_def Let_def)
  have del: "load_run_promotions (delete_stage_rows P r x) = load_run_promotions x"
    and fin: "load_run_promotions (finish_run r s2 m x) = load_run_promotions x" for P r x s2 m
    by (rule load_same_promotions, simp)+
  show ?thesis
  proof (cases failed)
    case False
    then have "db' = finish_run ?id ''completed'' sm (ls_db st)" "sm_promoted sm = ls_advanced st"
      "sm_status sm = ''completed''"
      using run(4) assms(1) by (auto simp: finish_day_def Let_def build_summary_def)
    then show ?thesis using agree by (simp add: fin ledger_agrees_def)
  next
    case True
    have st: "sm_status sm = ''failed''" using finish_day_summary(1) [OF run(4)] True by simp
    show ?thesis
    proof (cases "ls_advanced st = []")
      case empty: True
      then have "db' = finish_run ?id ''failed'' sm (ls_db st)" "sm_compensation_failures sm = []"
        using run(4) assms(1) True by (auto simp: finish_day_def Let_def build_summary_def)
      then show ?thesis using agree empty st by (simp add: fin ledger_agrees_def pointers_of_def)
    next
      case ne: False
      have "load_run_promotions db' = load_run_promotions (cp_db ?c)"
        "sm_compensation_failures sm = cp_failed ?c"
        using run(4) assms(1) True ne
        by (auto simp: finish_day_def Let_def build_summary_def compensate_def fin del split: if_splits)
      then show ?thesis using comp st by simp
    qed
  qed
qed

subsection \<open>Replay, resumption and the summary\<close>

lemma run_one_day_completed:
  assumes "env_pointers env \<noteq> None \<longrightarrow> (\<forall>v. dict_ok (fst (the (env_pointers env)) v))"
    and "run_one_day env d (w, db) = ((w', db'), Inr sm)" "sm_status sm = ''completed''"
    and "completed_summary db (env_run_id env d) = None"
  shows "completed_summary db' (env_run_id env d) = Some sm"
proof -
  let ?id = "env_run_id env d"
  obtain fresh baseline st0 st failed where run:
    "fresh = open_run (env_run_id env d)
                    \<lparr> rr_chain = env_chain env, rr_source_day = d,
                      rr_code_revision = env_code_revision env,
                      rr_config_version = env_config_version env, rr_status = ''running'',
                      rr_watermarks = env_watermarks_for env w d, rr_summary = None \<rparr> db"
    "prepare_loop env (env_run_id env d) w fresh = (baseline, st0)"
    "stage_loop env (day_context env d) (load_stage_run fresh (env_run_id env d)) baseline 0
       (env_stages env) st0 = (st, Inr failed)"
    "finish_day env (env_run_id env d) d (env_watermarks_for env w d) st failed = (w', db', sm)"
    using run_one_day_Inr [OF assms(2,4)] by metis
  have nf: "\<not> failed" using finish_day_summary(1) [OF run(4)] assms(3) by (auto split: if_splits)
  have db': "db' = finish_run ?id ''completed'' sm (ls_db st)"
    using run(4) nf by (auto simp: finish_day_def Let_def split: option.splits prod.splits)
  have agree0: "env_pointers env \<noteq> None \<Longrightarrow> ledger_agrees ?id (ls_advanced st0) (ls_db st0)"
    and d0: "ls_db st0 = fresh"
  proof -
    show "ls_db st0 = fresh"
      using run(2) by (auto simp: prepare_loop_def Let_def split: option.splits)
    show "ledger_agrees ?id (ls_advanced st0) (ls_db st0)" if "env_pointers env \<noteq> None"
    proof -
      obtain sn re where sr: "env_pointers env = Some (sn, re)" using \<open>env_pointers env \<noteq> None\<close> by auto
      have "dict_ok (sn w)" using assms(1) sr by simp
      from prepare_loop_tracked [OF run(2) sr this] show ?thesis
        by (simp add: ledger_agrees_def load_run_promotions_ok)
    qed
  qed
  have "db_runs (ls_db st) = db_runs fresh"
    using stage_loop_db [OF run(3), unfolded day_context_run_id, OF agree0] d0 by simp
  moreover have "dict_get (db_runs fresh) ?id \<noteq> None"
    by (simp add: run(1) open_run_def)
  ultimately obtain row where "dict_get (db_runs (ls_db st)) ?id = Some row" by auto
  then show ?thesis by (simp add: db' finish_run_def completed_summary_def)
qed

text \<open>
  Replay is a no-op. Once a run completed, running the same day with the same code
  revision and configuration again returns the same summary and changes nothing, neither in
  the tables nor in the world, whatever the stages would do.
\<close>

theorem completed_run_replays:
  assumes "env_pointers env \<noteq> None \<longrightarrow> (\<forall>v. dict_ok (fst (the (env_pointers env)) v))"
    and "run_one_day env d (w, db) = ((w', db'), Inr sm)" "sm_status sm = ''completed''"
    and "completed_summary db (env_run_id env d) = None"
    and "env_run_id env2 d = env_run_id env d"
  shows "run_one_day env2 d (w2, db') = ((w2, db'), Inr sm)"
  using run_one_day_completed [OF assms(1-4)] assms(5) by (simp add: run_one_day_def Let_def)

text \<open>Two environments that differ only in what checkpointed stages would do.\<close>

definition same_but_done :: "(string \<Rightarrow> stage_row option) \<Rightarrow> 'w stage \<Rightarrow> 'w stage \<Rightarrow> bool" where
  "same_but_done prior s t \<longleftrightarrow> stage_name s = stage_name t \<and>
     (s = t \<or> checkpoint_done (prior (stage_name s)))"

lemma stage_loop_skips_done:
  assumes "list_all2 (same_but_done prior) stages stages'"
  shows "stage_loop env cx prior baseline order stages st
    = stage_loop env cx prior baseline order stages' st"
  using assms
proof (induction arbitrary: order st rule: list_all2_induct)
  case (Cons s ss t ts)
  show ?case
  proof (cases "checkpoint_done (prior (stage_name s))")
    case True
    then show ?thesis using Cons by (simp add: same_but_done_def)
  next
    case False
    then have "s = t" using Cons.hyps by (simp add: same_but_done_def)
    then show ?thesis using False Cons.IH by (simp split: prod.split sum.split bool.split)
  qed
qed simp

lemma stage_loop_env:
  "stage_loop (env\<lparr> env_stages := xs \<rparr>) cx prior baseline order stages st
     = stage_loop env cx prior baseline order stages st"
  by (induction stages arbitrary: order st)
    (auto simp: execute_stage_def split: prod.split sum.split bool.split)

text \<open>
  A restart never executes a stage again whose checkpoint is terminal. Replacing the work
  of every stage with a succeeded or skipped checkpoint of this run by anything else changes
  nothing in the outcome of the day.
\<close>

theorem restart_skips_checkpointed_stages:
  assumes "list_all2 (same_but_done (load_stage_run db (env_run_id env d))) (env_stages env) stages'"
  shows "run_one_day (env\<lparr> env_stages := stages' \<rparr>) d (w, db) = run_one_day env d (w, db)"
proof -
  let ?env = "env\<lparr> env_stages := stages' \<rparr>"
  have id: "env_run_id ?env d = env_run_id env d" by (simp add: env_run_id_def)
  have cx: "day_context ?env d = day_context env d" by (simp add: day_context_def id)
  have ls: "load_stage_run (open_run r row db) r = load_stage_run db r" for r row
    by (simp add: load_stage_run_def open_run_def fun_eq_iff)
  have fin: "finish_day ?env r d wm st f = finish_day env r d wm st f" for r wm st f
    by (simp add: finish_day_def build_summary_def Let_def)
  have prep: "prepare_loop ?env r w x = prepare_loop env r w x" for r x
    by (simp add: prepare_loop_def)
  have loop: "stage_loop env cx (load_stage_run db (env_run_id env d)) b n stages' st
      = stage_loop env cx (load_stage_run db (env_run_id env d)) b n (env_stages env) st" for cx b n st
    by (rule stage_loop_skips_done [OF assms, symmetric])
  show ?thesis
    by (cases "completed_summary db (env_run_id env d)")
      (simp_all add: run_one_day_def id cx fin prep ls stage_loop_env loop Let_def)
qed

text \<open>The records of a loop: the stages in order up to the first failure.\<close>

lemma stage_loop_records:
  assumes "stage_loop env cx prior baseline order stages st = (st', Inr failed)"
  shows "\<exists>n recs. ls_records st' = ls_records st @ recs \<and> map st_stage recs = map stage_name (take n stages) \<and>
    (failed \<longrightarrow> recs \<noteq> [] \<and> st_status (last recs) = ''failed'' \<and> (\<forall>r \<in> set (butlast recs). st_status r \<noteq> ''failed'')) \<and>
    (\<not> failed \<longrightarrow> n = length stages \<and> (\<forall>r \<in> set recs. st_status r \<noteq> ''failed''))"
  using assms
proof (induction stages arbitrary: order st)
  case (Cons stg stages)
  have key: "\<exists>n recs. ls_records st' = ls_records st @ recs \<and>
      map st_stage recs = map stage_name (take n (stg # stages)) \<and>
      (failed \<longrightarrow> recs \<noteq> [] \<and> st_status (last recs) = ''failed'' \<and> (\<forall>r \<in> set (butlast recs). st_status r \<noteq> ''failed'')) \<and>
      (\<not> failed \<longrightarrow> n = length (stg # stages) \<and> (\<forall>r \<in> set recs. st_status r \<noteq> ''failed''))"
    if r: "ls_records st1 = ls_records st @ [rec]" "st_stage rec = stage_name stg" "st_status rec \<noteq> ''failed''"
      and loop: "stage_loop env cx prior baseline (order + 1) stages st1 = (st', Inr failed)" for st1 rec
  proof -
    from Cons.IH [OF loop] obtain n recs where ih:
      "ls_records st' = ls_records st1 @ recs" "map st_stage recs = map stage_name (take n stages)"
      "failed \<longrightarrow> recs \<noteq> [] \<and> st_status (last recs) = ''failed'' \<and> (\<forall>r \<in> set (butlast recs). st_status r \<noteq> ''failed'')"
      "\<not> failed \<longrightarrow> n = length stages \<and> (\<forall>r \<in> set recs. st_status r \<noteq> ''failed'')" by blast
    show ?thesis
      using ih r by (intro exI [of _ "Suc n"] exI [of _ "rec # recs"]) auto
  qed
  show ?case
  proof (cases "checkpoint_done (prior (stage_name stg))")
    case True
    then show ?thesis
      using Cons.prems
      by (intro key [of _ "resumed_record (stage_name stg) order (the (prior (stage_name stg)))"])
        (auto simp: resumed_record_def checkpoint_done_def split: option.splits)
  next
    case False
    obtain st1 r1 where ex: "execute_stage env cx baseline order stg st = (st1, r1)"
      by (metis prod.exhaust)
    then obtain b where b: "r1 = Inr b" using Cons.prems False by (cases r1) auto
    obtain w sl oc n where rs: "run_stage (env_classify env) (env_max_attempts env) stg cx (ls_world st)
        = (w, sl, Inr (oc, n))"
      using ex b by (auto simp: execute_stage_def split: prod.splits sum.splits)
    have rec: "ls_records st1 = ls_records st @ [outcome_record (stage_name stg) order oc n]"
      "b \<longleftrightarrow> oc_status oc = FAILED"
      using ex b rs by (auto simp: execute_stage_def Let_def track_stage_def split: option.splits if_splits prod.splits)
    have stv: "st_status (outcome_record (stage_name stg) order oc n) = ''failed'' \<longleftrightarrow> b"
      by (cases "oc_status oc") (simp_all add: outcome_record_def rec(2))
    show ?thesis
    proof (cases b)
      case True
      then have "st' = st1" "failed" using Cons.prems False ex b by auto
      then show ?thesis
        using rec stv True
        by (intro exI [of _ 1] exI [of _ "[outcome_record (stage_name stg) order oc n]"])
          (simp add: outcome_record_def)
    next
      case nb: False
      then show ?thesis
        using Cons.prems False ex b rec stv
        by (intro key [OF rec(1)]) (auto simp: outcome_record_def)
    qed
  qed
qed (auto intro: exI [of _ 0])

text \<open>
  The summary of an executed run is truthful. Its stage records are a prefix of the
  configured stages in order; the run is failed exactly when the last record is a failure,
  and then it is the only one; a completed run has a record of every stage and no failure; a
  failed run reports nothing as promoted.
\<close>

theorem summary_truthful:
  assumes "run_one_day env d (w, db) = ((w', db'), Inr sm)"
    and "completed_summary db (env_run_id env d) = None"
  shows "(\<exists>n. map st_stage (sm_stages sm) = map stage_name (take n (env_stages env)) \<and>
      (sm_status sm = ''completed'' \<longrightarrow> n = length (env_stages env))) \<and>
    (sm_status sm = ''completed'' \<and> sm_failures sm = [] \<and> sm_compensations sm = [] \<or>
     sm_status sm = ''failed'' \<and> sm_promoted sm = [] \<and> sm_stages sm \<noteq> [] \<and>
       map fst (sm_failures sm) = [st_stage (last (sm_stages sm))])"
proof -
  obtain fresh baseline st0 st failed where run:
    "fresh = open_run (env_run_id env d)
                    \<lparr> rr_chain = env_chain env, rr_source_day = d,
                      rr_code_revision = env_code_revision env,
                      rr_config_version = env_config_version env, rr_status = ''running'',
                      rr_watermarks = env_watermarks_for env w d, rr_summary = None \<rparr> db"
    "prepare_loop env (env_run_id env d) w fresh = (baseline, st0)"
    "stage_loop env (day_context env d) (load_stage_run fresh (env_run_id env d)) baseline 0
       (env_stages env) st0 = (st, Inr failed)"
    "finish_day env (env_run_id env d) d (env_watermarks_for env w d) st failed = (w', db', sm)"
    using run_one_day_Inr [OF assms] by metis
  have "ls_records st0 = []"
    using run(2) by (auto simp: prepare_loop_def Let_def split: option.splits)
  with stage_loop_records [OF run(3)] obtain n where recs:
    "map st_stage (ls_records st) = map stage_name (take n (env_stages env))"
    "failed \<longrightarrow> ls_records st \<noteq> [] \<and> st_status (last (ls_records st)) = ''failed'' \<and>
       (\<forall>r \<in> set (butlast (ls_records st)). st_status r \<noteq> ''failed'')"
    "\<not> failed \<longrightarrow> n = length (env_stages env) \<and> (\<forall>r \<in> set (ls_records st). st_status r \<noteq> ''failed'')"
    by auto
  have fl: "filter (\<lambda>s. st_status s = ''failed'') rs = (if failed then [last rs] else [])"
    if "failed \<longrightarrow> rs \<noteq> [] \<and> st_status (last rs) = ''failed'' \<and>
          (\<forall>r \<in> set (butlast rs). st_status r \<noteq> ''failed'')"
      "\<not> failed \<longrightarrow> (\<forall>r \<in> set rs. st_status r \<noteq> ''failed'')" for rs
  proof (cases failed)
    case True
    then have "rs \<noteq> []" using that by simp
    then have "rs = butlast rs @ [last rs]" by simp
    then obtain ys y where rs: "rs = ys @ [y]" by blast
    then show ?thesis using that True by (simp add: filter_empty_conv)
  qed (use that in \<open>simp add: filter_empty_conv\<close>)
  have f: "map fst (sm_failures sm) = (if failed then [st_stage (last (ls_records st))] else [])"
    using run(4) fl [of "ls_records st"] recs
    by (auto simp: finish_day_def Let_def build_summary_def split: option.splits prod.splits if_splits)
  have p: "failed \<Longrightarrow> sm_promoted sm = []" "\<not> failed \<Longrightarrow> sm_compensations sm = []"
    using run(4) by (auto simp: finish_day_def Let_def build_summary_def split: option.splits prod.splits if_splits)
  show ?thesis
    using finish_day_summary [OF run(4)] recs f p by (cases failed) auto
qed

subsection \<open>What compensation does not reach\<close>


subsection \<open>A run to try the theorems on\<close>

text \<open>A store of one pointer, of the product \<open>P\<close>.\<close>

definition one_snapshot :: "string option \<Rightarrow> (string, string) dict" where
  "one_snapshot w = (case w of None \<Rightarrow> [] | Some v \<Rightarrow> [(''P'', v)])"

definition one_restore :: "string \<Rightarrow> string option \<Rightarrow> string option \<Rightarrow> string + string option" where
  "one_restore p v w =
     (if p = ''P'' then Inr v else if v = None then Inr w else Inl ''no such product'')"

lemma one_store: "pointer_store one_snapshot one_restore (\<lambda>w. True)"
  by unfold_locales (auto simp: one_snapshot_def one_restore_def fun_eq_iff split: option.splits if_splits)

definition promoting_stage :: "string option stage" where
  "promoting_stage = \<lparr> stage_name = ''pit_update'',
     stage_run = (\<lambda>cx w. (Some ''B'', Inr (outcome_succeeded []))), stage_required = True \<rparr>"

definition failing_stage :: "string option stage" where
  "failing_stage = \<lparr> stage_name = ''refresh'',
     stage_run = (\<lambda>cx w. (w, Inl (simple_exn TerminalStage ''CoverageError'' ''gap''))),
     stage_required = True \<rparr>"

text \<open>Two workers in one stage: the first promotes, the second fails.\<close>

definition half_done_stage :: "string option stage" where
  "half_done_stage = \<lparr> stage_name = ''pit_update'',
     stage_run = (\<lambda>cx w. (Some ''B'', Inl (simple_exn TerminalStage ''CoverageError'' ''gap''))),
     stage_required = True \<rparr>"

definition demo_env :: "string option stage list \<Rightarrow> string option chain_env" where
  "demo_env stages = \<lparr> env_stages = stages, env_code_revision = ''rev'', env_config_version = ''v1'',
     env_chain = ''bond_daily_publication'', env_watermarks_for = (\<lambda>w d. []),
     env_pointers = Some (one_snapshot, one_restore), env_max_attempts = 3,
     env_classify = default_classify_exception, env_threshold = None, env_uuid5 = (\<lambda>k. k),
     env_show_int = (\<lambda>n. ''n''), env_show_opt = (\<lambda>n. ''n''), env_sort_names = (\<lambda>xs. xs) \<rparr>"

definition empty_db :: chain_db where
  "empty_db = \<lparr> db_runs = [], db_stages = [], db_promotions = [] \<rparr>"

lemmas demo_defs = demo_env_def promoting_stage_def failing_stage_def half_done_stage_def
  empty_db_def run_stage_def eval_nat_numeral outcome_succeeded_def reconcile_skip_def
  exception_outcome_def retry_wanted_def classify_chain_def MAX_ERROR_CHAIN_def next_exn_def
  default_classify_exception_def simple_exn_def completed_summary_def load_run_promotions_def
  load_stage_run_def checkpoint_done_def

lemma demo_outcomes:
  "run_stage default_classify_exception 3 promoting_stage cx w = (Some ''B'', [], Inr (outcome_succeeded [], 1))"
  "\<exists>oc. run_stage default_classify_exception 3 failing_stage cx w = (w, [], Inr (oc, 1)) \<and> oc_status oc = FAILED"
  "\<exists>oc. run_stage default_classify_exception 3 half_done_stage cx w = (Some ''B'', [], Inr (oc, 1)) \<and> oc_status oc = FAILED"
  by (simp_all add: demo_defs Let_def)


definition demo_id :: "date \<Rightarrow> string" where
  "demo_id d = env_run_id (demo_env []) d"

lemma demo_env_fields [simp]:
  "env_pointers (demo_env ss) = Some (one_snapshot, one_restore)" "env_stages (demo_env ss) = ss"
  "env_max_attempts (demo_env ss) = 3" "env_classify (demo_env ss) = default_classify_exception"
  "env_run_id (demo_env ss) d = demo_id d"
  by (simp_all add: demo_env_def env_run_id_def demo_id_def)

lemma empty_db_simps [simp]:
  "completed_summary empty_db r = None" "load_run_promotions empty_db r = []"
  "db_promotions empty_db = []" "db_stages empty_db = []" "db_runs empty_db = []"
  by (simp_all add: empty_db_def completed_summary_def load_run_promotions_def)

lemma demo_names [simp]:
  "stage_name promoting_stage = ''pit_update''" "stage_name failing_stage = ''refresh''"
  by (simp_all add: promoting_stage_def failing_stage_def)

lemma demo_prepare:
  assumes "load_run_promotions db r = []"
  shows "prepare_loop (demo_env ss) r w db
    = (map (\<lambda>(p, v). (p, Some v)) (one_snapshot w),
       \<lparr> ls_world = w, ls_db = db, ls_advanced = [], ls_last_seen = one_snapshot w, ls_records = [] \<rparr>)"
  by (simp add: prepare_loop_def assms)

lemma demo_promote:
  assumes "ls_advanced st = []" "ls_last_seen st = one_snapshot (Some ''A'')"
  shows "\<exists>st'. execute_stage (demo_env ss) cx [(''P'', Some ''A'')] n promoting_stage st = (st', Inr False) \<and>
    ls_world st' = Some ''B'' \<and>
    ls_advanced st' = [(''P'', \<lparr> adv_previous = Some ''A'', adv_current = Some ''B'', adv_stage = ''pit_update'' \<rparr>)]"
  using assms
  by (simp add: execute_stage_def demo_outcomes outcome_succeeded_def track_stage_def
      one_snapshot_def diff_step_def dict_get_default_def Let_def)

lemma demo_fail:
  "\<exists>st'. execute_stage (demo_env ss) cx b n failing_stage st = (st', Inr True) \<and>
    ls_world st' = ls_world st \<and> ls_advanced st' = ls_advanced st"
proof -
  obtain oc where oc: "run_stage default_classify_exception 3 failing_stage cx (ls_world st) = (ls_world st, [], Inr (oc, 1))"
    "oc_status oc = FAILED" using demo_outcomes(2) by blast
  then show ?thesis by (simp add: execute_stage_def Let_def)
qed

lemma demo_prior: "load_stage_run (open_run r row empty_db) q s = None" "load_run_promotions (open_run r row empty_db) q = []"
  by (simp_all add: load_stage_run_def open_run_def load_run_promotions_def)

lemma demo_failed_run:
  "\<exists>db' sm. run_one_day (demo_env [promoting_stage, failing_stage]) d (Some ''A'', empty_db)
      = ((Some ''A'', db'), Inr sm) \<and> sm_status sm = ''failed'' \<and> sm_compensation_failures sm = []"
proof -
  let ?env = "demo_env [promoting_stage, failing_stage]" and ?id = "demo_id d"
    and ?cx = "day_context (demo_env [promoting_stage, failing_stage]) d"
  let ?row = "\<lparr> rr_chain = env_chain ?env, rr_source_day = d, rr_code_revision = env_code_revision ?env,
     rr_config_version = env_config_version ?env, rr_status = ''running'',
     rr_watermarks = env_watermarks_for ?env (Some ''A'') d, rr_summary = None \<rparr>"
  let ?db = "open_run ?id ?row empty_db"
  let ?st = "\<lparr> ls_world = Some ''A'', ls_db = ?db, ls_advanced = [], ls_last_seen = one_snapshot (Some ''A''), ls_records = [] \<rparr>"
  have prep: "prepare_loop ?env ?id (Some ''A'') ?db = ([(''P'', Some ''A'')], ?st)"
    by (subst demo_prepare) (simp_all add: demo_prior one_snapshot_def)
  obtain st1 where e1: "execute_stage ?env ?cx [(''P'', Some ''A'')] 0 promoting_stage ?st = (st1, Inr False)"
    and s1: "ls_world st1 = Some ''B''" "ls_advanced st1
      = [(''P'', \<lparr> adv_previous = Some ''A'', adv_current = Some ''B'', adv_stage = ''pit_update'' \<rparr>)]"
    using demo_promote [of ?st] by fastforce
  obtain st2 where e2: "execute_stage ?env ?cx [(''P'', Some ''A'')] 1 failing_stage st1 = (st2, Inr True)"
    and s2: "ls_world st2 = ls_world st1" "ls_advanced st2 = ls_advanced st1"
    using demo_fail by blast
  have loop: "stage_loop ?env ?cx (load_stage_run ?db ?id) [(''P'', Some ''A'')] 0
      [promoting_stage, failing_stage] ?st = (st2, Inr True)"
    using e1 e2 by (simp add: demo_prior checkpoint_done_def)
  obtain db' sm where "finish_day ?env ?id d (env_watermarks_for ?env (Some ''A'') d) st2 True = (Some ''A'', db', sm)"
    "sm_status sm = ''failed''" "sm_compensation_failures sm = []"
    by (simp add: finish_day_def s1 s2 compensate_def compensate_step_def one_restore_def
        build_summary_def Let_def)
  then show ?thesis
    using loop by (simp add: run_one_day_def prep Let_def)
qed

theorem ledger_matches_summary_witness:
  "\<exists>db' sm. run_one_day (demo_env [promoting_stage, failing_stage]) (Date 2026 7 17) (Some ''A'', empty_db)
      = ((Some ''A'', db'), Inr sm) \<and>
     pointers_of (load_run_promotions db' (demo_id (Date 2026 7 17))) = []"
proof -
  let ?env = "demo_env [promoting_stage, failing_stage]"
  obtain db' sm where r: "run_one_day ?env (Date 2026 7 17) (Some ''A'', empty_db) = ((Some ''A'', db'), Inr sm)"
    "sm_status sm = ''failed''" "sm_compensation_failures sm = []"
    using demo_failed_run by blast
  have ok: "dict_ok (one_snapshot v)" for v by (simp add: one_snapshot_def split: option.split)
  show ?thesis
    using ledger_matches_summary [OF demo_env_fields(1) ok r(1)] r by auto
qed

theorem summary_truthful_witness:
  "\<exists>db' sm. run_one_day (demo_env [promoting_stage, failing_stage]) (Date 2026 7 17) (Some ''A'', empty_db)
      = ((Some ''A'', db'), Inr sm) \<and> sm_promoted sm = [] \<and>
     map fst (sm_failures sm) = [st_stage (last (sm_stages sm))]"
proof -
  let ?env = "demo_env [promoting_stage, failing_stage]"
  obtain db' sm where r: "run_one_day ?env (Date 2026 7 17) (Some ''A'', empty_db) = ((Some ''A'', db'), Inr sm)"
    "sm_status sm = ''failed''" "sm_compensation_failures sm = []"
    using demo_failed_run by blast
  show ?thesis using summary_truthful [OF r(1)] r by auto
qed

lemma demo_completed_run:
  "\<exists>db' sm. run_one_day (demo_env []) d (Some ''A'', empty_db) = ((Some ''A'', db'), Inr sm) \<and>
     sm_status sm = ''completed''"
  by (simp add: run_one_day_def demo_prepare demo_prior finish_day_def build_summary_def Let_def)

theorem completed_run_replays_witness:
  "\<exists>db' sm. run_one_day (demo_env []) (Date 2026 7 17) (Some ''A'', empty_db) = ((Some ''A'', db'), Inr sm) \<and>
     run_one_day (demo_env [promoting_stage]) (Date 2026 7 17) (Some ''Z'', db') = ((Some ''Z'', db'), Inr sm)"
proof -
  obtain db' sm where r: "run_one_day (demo_env []) (Date 2026 7 17) (Some ''A'', empty_db) = ((Some ''A'', db'), Inr sm)"
    "sm_status sm = ''completed''"
    using demo_completed_run by blast
  have ok: "env_pointers (demo_env []) \<noteq> None \<longrightarrow> (\<forall>v. dict_ok (fst (the (env_pointers (demo_env []))) v))"
    by (simp add: one_snapshot_def split: option.split)
  have id: "env_run_id (demo_env [promoting_stage]) (Date 2026 7 17) = env_run_id (demo_env []) (Date 2026 7 17)"
    by simp
  show ?thesis
    using completed_run_replays [OF ok r empty_db_simps(1) id] r by blast
qed

theorem restart_skips_checkpointed_stages_witness:
  "let db = record_stage (demo_id (Date 2026 7 17)) ''pit_update'' 0 (outcome_succeeded []) 1 empty_db in
     run_one_day (demo_env [half_done_stage]) (Date 2026 7 17) (Some ''A'', db)
       = run_one_day (demo_env [promoting_stage]) (Date 2026 7 17) (Some ''A'', db)"
proof -
  let ?db = "record_stage (demo_id (Date 2026 7 17)) ''pit_update'' 0 (outcome_succeeded []) 1 empty_db"
  have "list_all2 (same_but_done (load_stage_run ?db (env_run_id (demo_env [promoting_stage]) (Date 2026 7 17))))
      (env_stages (demo_env [promoting_stage])) [half_done_stage]"
    by (simp add: same_but_done_def half_done_stage_def checkpoint_done_def load_stage_run_def
        record_stage_def outcome_succeeded_def)
  from restart_skips_checkpointed_stages [OF this] show ?thesis
    by (simp add: demo_env_def)
qed

text \<open>
  The alert of a completed run does not look at what was promoted. As soon as one stage
  was skipped for want of a source, the alert of the completed run ends in \<open>nothing promoted\<close>,
  whatever the summary lists as promoted.
\<close>

theorem dark_alert_ignores_promotions:
  assumes "run_one_day env d (w, db) = ((w', db'), Inr sm)"
    and "completed_summary db (env_run_id env d) = None"
    and "sm_status sm = ''completed''" "(stg, Some ''dark_no_source'') \<in> set (sm_skips sm)"
  shows "sm_alert sm = Some (''['' @ env_chain env @ ''] run for '' @ isoformat d @
    '' completed in DARK mode ('' @
    env_show_int env (int (length (filter (\<lambda>s. snd s = Some ''dark_no_source'') (sm_skips sm)))) @
    '' stage(s) had no authorized source): nothing promoted'')"
proof -
  obtain baseline st0 st failed where
    fin: "finish_day env (env_run_id env d) d (env_watermarks_for env w d) st failed = (w', db', sm)"
    using run_one_day_Inr [OF assms(1,2)] by metis
  have nf: "\<not> failed" using finish_day_summary(1) [OF fin] assms(3) by (auto split: if_splits)
  have eq: "filter (\<lambda>(s, r). r = Some ''dark_no_source'') xs
      = filter (\<lambda>s. snd s = Some ''dark_no_source'') xs" for xs :: "(string \<times> string option) list"
    by (rule filter_cong) auto
  have "sm_alert sm = alert_line (env_show_int env) (env_chain env) d ''completed'' (sm_failures sm)
      (sm_skips sm) (map fst (sm_compensations sm)) (map fst (sm_compensation_failures sm))"
    using fin nf by (auto simp: finish_day_def build_summary_def Let_def split: option.splits)
  moreover have "filter (\<lambda>s. snd s = Some ''dark_no_source'') (sm_skips sm) \<noteq> []"
    using assms(4) by (force simp: filter_empty_conv)
  ultimately show ?thesis by (simp add: alert_line_def eq Let_def)
qed

text \<open>A chain whose first stage has no source and whose second one promotes.\<close>

definition dark_stage :: "string option stage" where
  "dark_stage = \<lparr> stage_name = ''ingest'',
     stage_run = (\<lambda>cx w. case outcome_skipped ''dark_no_source'' [] of
        Inl e \<Rightarrow> (w, Inl type_error) | Inr oc \<Rightarrow> (w, Inr oc)), stage_required = True \<rparr>"

lemma dark_run:
  "\<exists>oc. run_stage default_classify_exception 3 dark_stage cx w = (w, [], Inr (oc, 1)) \<and>
     oc_status oc = SKIPPED \<and> oc_reason oc = Some ''dark_no_source''"
  by (simp add: run_stage_def eval_nat_numeral dark_stage_def outcome_skipped_def reconcile_skip_def
      retry_wanted_def ALLOWED_SKIP_REASONS_def)

lemma demo_half_dark_run:
  "\<exists>db' sm. run_one_day (demo_env [dark_stage, promoting_stage]) d (Some ''A'', empty_db)
      = ((Some ''B'', db'), Inr sm) \<and> sm_status sm = ''completed'' \<and>
     (''ingest'', Some ''dark_no_source'') \<in> set (sm_skips sm) \<and> map fst (sm_promoted sm) = [''P'']"
proof -
  let ?env = "demo_env [dark_stage, promoting_stage]" and ?id = "demo_id d"
    and ?cx = "day_context (demo_env [dark_stage, promoting_stage]) d"
  let ?row = "\<lparr> rr_chain = env_chain ?env, rr_source_day = d, rr_code_revision = env_code_revision ?env,
     rr_config_version = env_config_version ?env, rr_status = ''running'',
     rr_watermarks = env_watermarks_for ?env (Some ''A'') d, rr_summary = None \<rparr>"
  let ?db = "open_run ?id ?row empty_db"
  let ?st = "\<lparr> ls_world = Some ''A'', ls_db = ?db, ls_advanced = [], ls_last_seen = one_snapshot (Some ''A''), ls_records = [] \<rparr>"
  have prep: "prepare_loop ?env ?id (Some ''A'') ?db = ([(''P'', Some ''A'')], ?st)"
    by (subst demo_prepare) (simp_all add: demo_prior one_snapshot_def)
  obtain oc where oc: "run_stage default_classify_exception 3 dark_stage ?cx (Some ''A'') = (Some ''A'', [], Inr (oc, 1))"
    "oc_status oc = SKIPPED" "oc_reason oc = Some ''dark_no_source''" using dark_run by blast
  let ?st1 = "?st\<lparr> ls_db := record_stage ?id ''ingest'' 0 oc 1 ?db,
     ls_records := [outcome_record ''ingest'' 0 oc 1] \<rparr>"
  have e1: "execute_stage ?env ?cx [(''P'', Some ''A'')] 0 dark_stage ?st = (?st1, Inr False)"
    by (simp add: execute_stage_def oc dark_stage_def [THEN arg_cong [where f = stage_name]] Let_def)
  obtain st2 where e2: "execute_stage ?env ?cx [(''P'', Some ''A'')] 1 promoting_stage ?st1 = (st2, Inr False)"
    and s2: "ls_world st2 = Some ''B''" "ls_advanced st2
      = [(''P'', \<lparr> adv_previous = Some ''A'', adv_current = Some ''B'', adv_stage = ''pit_update'' \<rparr>)]"
    "ls_records st2 = ls_records ?st1 @ [outcome_record ''pit_update'' 1 (outcome_succeeded []) 1]"
    by (simp add: execute_stage_def demo_outcomes outcome_succeeded_def track_stage_def
        one_snapshot_def diff_step_def dict_get_default_def Let_def)
  have loop: "stage_loop ?env ?cx (load_stage_run ?db ?id) [(''P'', Some ''A'')] 0
      [dark_stage, promoting_stage] ?st = (st2, Inr False)"
    using e1 e2 by (simp add: demo_prior checkpoint_done_def)
  obtain db' sm where "finish_day ?env ?id d (env_watermarks_for ?env (Some ''A'') d) st2 False = (Some ''B'', db', sm)"
    "sm_status sm = ''completed''" "sm_promoted sm = ls_advanced st2"
    "sm_skips sm = [(''ingest'', Some ''dark_no_source'')]"
    by (simp add: finish_day_def s2 build_summary_def outcome_record_def oc outcome_succeeded_def Let_def)
  then show ?thesis
    using loop by (simp add: run_one_day_def prep s2 Let_def)
qed

theorem dark_alert_ignores_promotions_witness:
  "\<exists>db' sm. run_one_day (demo_env [dark_stage, promoting_stage]) (Date 2026 7 17) (Some ''A'', empty_db)
      = ((Some ''B'', db'), Inr sm) \<and> map fst (sm_promoted sm) = [''P''] \<and>
     (\<exists>t. sm_alert sm = Some (t @ '' stage(s) had no authorized source): nothing promoted''))"
proof -
  obtain db' sm where r: "run_one_day (demo_env [dark_stage, promoting_stage]) (Date 2026 7 17) (Some ''A'', empty_db)
      = ((Some ''B'', db'), Inr sm)" "sm_status sm = ''completed''"
    "(''ingest'', Some ''dark_no_source'') \<in> set (sm_skips sm)" "map fst (sm_promoted sm) = [''P'']"
    using demo_half_dark_run [of "Date 2026 7 17"] by (elim exE conjE)
  from dark_alert_ignores_promotions [OF r(1) empty_db_simps(1) r(2,3)]
  obtain t where t: "sm_alert sm = Some (t @ '' stage(s) had no authorized source): nothing promoted'')"
    by (metis append.assoc)
  show ?thesis by (intro exI conjI, rule r(1), rule r(4), rule t)
qed

end
