(* ===== verification/Effective_Matviews.thy ===== *)
theory Effective_Matviews
  imports Calendar
begin

text \<open>
  The cache over the effective-selection views, \<open>src/sec_effective_matviews.py\<close>: the
  registry, the source signature, the freshness test, the choice of the relation to read
  and the refresh. A refresh is also modelled as the three statements it consists of, so
  that ingestion runs may land between them.

  A validated ingestion run carries the rows it landed, of type \<open>'r\<close>. What a view selects
  from the validated runs of its family is the parameter \<open>view_dates\<close>; it stands for the
  dates of the view's watermark column. That the view depends on these runs alone is what
  the module's documentation relies on.
\<close>

record 'r validated_run =
  vr_family :: string
  vr_validated_at :: int
  vr_rows :: "'r list"

record matview_entry =
  mv_name :: string
  mv_view :: string
  mv_family :: string
  mv_column :: string

definition REGISTRY :: "matview_entry list" where
  "REGISTRY =
     [\<lparr> mv_name = ''ncen_effective_filings_mv'', mv_view = ''ncen_effective_filings'',
        mv_family = ''ncen'', mv_column = ''effective_date'' \<rparr>,
      \<lparr> mv_name = ''rr1_effective_fact_calendar_mv'', mv_view = ''rr1_effective_facts'',
        mv_family = ''rr1'', mv_column = ''effective_date'' \<rparr>]"

definition by_view :: "string \<Rightarrow> matview_entry option" where
  "by_view view = find (\<lambda>e. mv_view e = view) REGISTRY"

text \<open>
  The database as the module sees it. A table that does not exist is None or has no entry; a
  materialized view created \<open>WITH NO DATA\<close> has the content None.
\<close>

type_synonym signature = "int \<times> int option"

record 'r mv_world =
  mw_runs :: "'r validated_run list option"
  mw_state :: "(string, signature) dict option"
  mw_matviews :: "(string, date list option) dict"
  mw_tables :: "(string, date list) dict"
  mw_views :: "string list"

definition relation_exists :: "'r mv_world \<Rightarrow> string \<Rightarrow> bool" where
  "relation_exists w relation \<longleftrightarrow> relation \<in> set (dict_keys (mw_matviews w)) \<or>
     relation \<in> set (dict_keys (mw_tables w)) \<or> relation \<in> set (mw_views w)"

definition is_populated :: "'r mv_world \<Rightarrow> string \<Rightarrow> bool" where
  "is_populated w matview = (case dict_get (mw_matviews w) matview of
     Some (Some rows) \<Rightarrow> True | _ \<Rightarrow> False)"

definition max_of :: "'a::linorder list \<Rightarrow> 'a option" where
  "max_of xs = (case xs of [] \<Rightarrow> None | y # ys \<Rightarrow> Some (list_max y ys))"

definition family_runs :: "string \<Rightarrow> 'r validated_run list \<Rightarrow> 'r validated_run list" where
  "family_runs family runs = filter (\<lambda>r. vr_family r = family) runs"

definition runs_signature :: "'r validated_run list \<Rightarrow> signature" where
  "runs_signature runs = (int (length runs), max_of (map vr_validated_at runs))"

definition source_signature :: "'r mv_world \<Rightarrow> string \<Rightarrow> signature" where
  "source_signature w family =
     (case mw_runs w of
        None \<Rightarrow> (0, None)
      | Some runs \<Rightarrow> runs_signature (family_runs family runs))"

definition recorded_signature :: "'r mv_world \<Rightarrow> string \<Rightarrow> signature option" where
  "recorded_signature w matview =
     (case mw_state w of None \<Rightarrow> None | Some rows \<Rightarrow> dict_get rows matview)"

definition is_fresh :: "'r mv_world \<Rightarrow> matview_entry \<Rightarrow> bool" where
  "is_fresh w entry =
     (if \<not> is_populated w (mv_name entry) then False
      else case recorded_signature w (mv_name entry) of
             None \<Rightarrow> False
           | Some recorded \<Rightarrow> recorded = source_signature w (mv_family entry))"

text \<open>A probe that fails resolves to the view; the model's reads do not fail.\<close>

definition resolve_relation :: "'r mv_world \<Rightarrow> string \<Rightarrow> string" where
  "resolve_relation w view =
     (case by_view view of
        None \<Rightarrow> view
      | Some entry \<Rightarrow> if is_fresh w entry then mv_name entry else view)"

definition live_runs :: "'r mv_world \<Rightarrow> 'r validated_run list" where
  "live_runs w = (case mw_runs w of None \<Rightarrow> [] | Some runs \<Rightarrow> runs)"

text \<open>The values of the watermark column of a relation.\<close>

definition column_dates ::
  "(string \<Rightarrow> 'r validated_run list \<Rightarrow> date list) \<Rightarrow> 'r mv_world \<Rightarrow> string \<Rightarrow> date list" where
  "column_dates view_dates w relation =
     (case by_view relation of
        Some entry \<Rightarrow> view_dates relation (family_runs (mv_family entry) (live_runs w))
      | None \<Rightarrow>
          (case dict_get (mw_matviews w) relation of
             Some (Some rows) \<Rightarrow> rows
           | _ \<Rightarrow> (case dict_get (mw_tables w) relation of Some rows \<Rightarrow> rows | None \<Rightarrow> [])))"

definition watermark_of ::
  "(string \<Rightarrow> 'r validated_run list \<Rightarrow> date list) \<Rightarrow> 'r mv_world \<Rightarrow> string \<Rightarrow> date option" where
  "watermark_of view_dates w relation =
     max_of (column_dates view_dates w (resolve_relation w relation))"

subsection \<open>The refresh\<close>

text \<open>
  The N-CEN matview mirrors its view; the RR1 one groups it by date. The statements of a
  refresh: read the signature, fill the matview, record the signature.
\<close>

definition matview_rows :: "matview_entry \<Rightarrow> date list \<Rightarrow> date list" where
  "matview_rows entry dates =
     (if mv_view entry = ''rr1_effective_facts'' then remdups dates else dates)"

definition fill_matview ::
  "(string \<Rightarrow> 'r validated_run list \<Rightarrow> date list) \<Rightarrow> matview_entry \<Rightarrow> 'r mv_world \<Rightarrow> 'r mv_world" where
  "fill_matview view_dates entry w =
     w\<lparr> mw_matviews := dict_set (mv_name entry)
       (Some (matview_rows entry (column_dates view_dates w (mv_view entry)))) (mw_matviews w) \<rparr>"

definition record_signature :: "matview_entry \<Rightarrow> signature \<Rightarrow> 'r mv_world \<Rightarrow> 'r mv_world" where
  "record_signature entry sig w =
     w\<lparr> mw_state := map_option (dict_set (mv_name entry) sig) (mw_state w) \<rparr>"

datatype refresh_report =
    LockBusy | NotInstalled | Absent string | Fresh string
  | Refreshed string bool int
  | RefreshFailed string string

text \<open>\<open>refuses\<close> is the error of the refresh statement, for instance a missing privilege.\<close>

definition refresh_one ::
  "(string \<Rightarrow> 'r validated_run list \<Rightarrow> date list) \<Rightarrow> (string \<Rightarrow> string option) \<Rightarrow> matview_entry \<Rightarrow>
   'r mv_world \<Rightarrow> 'r mv_world \<times> refresh_report" where
  "refresh_one view_dates refuses entry w =
     (let sig = source_signature w (mv_family entry);
          populated = is_populated w (mv_name entry)
      in case refuses (mv_name entry) of
           Some err \<Rightarrow> (w, RefreshFailed (mv_name entry) err)
         | None \<Rightarrow>
             (let w1 = fill_matview view_dates entry w;
                  row_count = int (length (column_dates view_dates w1 (mv_name entry)))
              in (record_signature entry sig w1, Refreshed (mv_name entry) populated row_count)))"

fun refresh_entries ::
  "(string \<Rightarrow> 'r validated_run list \<Rightarrow> date list) \<Rightarrow> (string \<Rightarrow> string option) \<Rightarrow> bool \<Rightarrow>
   string set option \<Rightarrow> matview_entry list \<Rightarrow> 'r mv_world \<Rightarrow> 'r mv_world \<times> refresh_report list" where
  "refresh_entries view_dates refuses force wanted [] w = (w, [])"
| "refresh_entries view_dates refuses force wanted (entry # entries) w =
     (if (case wanted of None \<Rightarrow> False | Some ns \<Rightarrow> mv_name entry \<notin> ns)
      then refresh_entries view_dates refuses force wanted entries w
      else (let (w1, report) =
                  (if \<not> relation_exists w (mv_name entry) then (w, Absent (mv_name entry))
                   else if \<not> force \<and> is_fresh w entry then (w, Fresh (mv_name entry))
                   else refresh_one view_dates refuses entry w);
                (w2, reports) = refresh_entries view_dates refuses force wanted entries w1
            in (w2, report # reports)))"

definition refresh_stale ::
  "(string \<Rightarrow> 'r validated_run list \<Rightarrow> date list) \<Rightarrow> (string \<Rightarrow> string option) \<Rightarrow> bool \<Rightarrow> bool \<Rightarrow>
   string set option \<Rightarrow> 'r mv_world \<Rightarrow> 'r mv_world \<times> refresh_report list" where
  "refresh_stale view_dates refuses acquired force only w =
     (if \<not> acquired then (w, [LockBusy])
      else if mw_state w = None then (w, [NotInstalled])
      else refresh_entries view_dates refuses force only REGISTRY w)"

subsection \<open>Refreshes with ingestion in between\<close>

text \<open>
  A refresh in progress holds the signature it read and whether it has filled the matview.
  A step lands a validated run, installs the migration, performs one statement of a refresh,
  or abandons one.
\<close>

type_synonym refresher = "matview_entry \<times> signature \<times> bool"

inductive mv_step ::
  "(string \<Rightarrow> 'r validated_run list \<Rightarrow> date list) \<Rightarrow> 'r mv_world \<times> refresher list \<Rightarrow>
   'r mv_world \<times> refresher list \<Rightarrow> bool"
  for view_dates :: "string \<Rightarrow> 'r validated_run list \<Rightarrow> date list" where
  land: "mw_runs w = Some runs \<Longrightarrow>
    mv_step view_dates (w, ps) (w\<lparr> mw_runs := Some (runs @ [r]) \<rparr>, ps)"
| install: "mw_state w = None \<Longrightarrow>
    mv_step view_dates (w, ps) (w\<lparr> mw_state := Some [] \<rparr>, ps)"
| read_signature: "entry \<in> set REGISTRY \<Longrightarrow>
    mv_step view_dates (w, ps) (w, (entry, source_signature w (mv_family entry), False) # ps)"
| fill: "ps = ps1 @ (entry, sig, False) # ps2 \<Longrightarrow>
    mv_step view_dates (w, ps)
      (fill_matview view_dates entry w, ps1 @ (entry, sig, True) # ps2)"
| store: "ps = ps1 @ (entry, sig, True) # ps2 \<Longrightarrow>
    mv_step view_dates (w, ps) (record_signature entry sig w, ps1 @ ps2)"
| abandon: "ps = ps1 @ p # ps2 \<Longrightarrow> mv_step view_dates (w, ps) (w, ps1 @ ps2)"

text \<open>Before the migration no signature is recorded; whatever the matviews hold.\<close>

inductive mv_reachable ::
  "(string \<Rightarrow> 'r validated_run list \<Rightarrow> date list) \<Rightarrow> 'r mv_world \<times> refresher list \<Rightarrow> bool"
  for view_dates :: "string \<Rightarrow> 'r validated_run list \<Rightarrow> date list" where
  start: "mw_state w = None \<Longrightarrow> mv_reachable view_dates (w, [])"
| step: "mv_reachable view_dates s \<Longrightarrow> mv_step view_dates s s' \<Longrightarrow> mv_reachable view_dates s'"

subsection \<open>A fresh matview equals its view\<close>

lemma max_of_set:
  assumes "set xs = set ys"
  shows "max_of xs = max_of ys"
proof (cases xs)
  case Nil
  then show ?thesis using assms by simp
next
  case (Cons x xs')
  then obtain y ys' where ys: "ys = y # ys'" using assms by (cases ys) auto
  have s: "set (x # xs') = set (y # ys')" using assms Cons ys by simp
  have "list_max x xs' \<le> list_max y ys'"
    using list_max_in [of x xs'] list_max_ge s by blast
  moreover have "list_max y ys' \<le> list_max x xs'"
    using list_max_in [of y ys'] list_max_ge s by blast
  ultimately show ?thesis by (simp add: max_of_def Cons ys)
qed

lemma registry_cases: "entry \<in> set REGISTRY \<Longrightarrow> by_view (mv_view entry) = Some entry \<and> by_view (mv_name entry) = None"
  unfolding REGISTRY_def by_view_def by (simp, elim disjE) simp_all

lemma registry_names: "e \<in> set REGISTRY \<Longrightarrow> f \<in> set REGISTRY \<Longrightarrow> mv_name e = mv_name f \<Longrightarrow> e = f"
  unfolding REGISTRY_def by (simp, elim disjE) simp_all

lemma by_view_registry: "by_view view = Some entry \<Longrightarrow> entry \<in> set REGISTRY \<and> mv_view entry = view"
  unfolding by_view_def by (auto simp: find_Some_iff)

lemma signature_count: "fst (source_signature w family) = int (length (family_runs family (live_runs w)))"
  by (simp add: source_signature_def live_runs_def runs_signature_def family_runs_def split: option.split)

text \<open>The content a refresh gives when the first \<open>n\<close> runs have landed.\<close>

definition content_at ::
  "(string \<Rightarrow> 'r validated_run list \<Rightarrow> date list) \<Rightarrow> matview_entry \<Rightarrow> 'r validated_run list \<Rightarrow> nat \<Rightarrow> date list" where
  "content_at view_dates entry runs n =
     matview_rows entry (view_dates (mv_view entry) (family_runs (mv_family entry) (take n runs)))"

text \<open>The matview holds what the view held when at least \<open>k\<close> runs of the family had landed.\<close>

definition holds_since ::
  "(string \<Rightarrow> 'r validated_run list \<Rightarrow> date list) \<Rightarrow> matview_entry \<Rightarrow> 'r mv_world \<Rightarrow> int \<Rightarrow> bool" where
  "holds_since view_dates entry w k \<longleftrightarrow>
     (\<exists>n. dict_get (mw_matviews w) (mv_name entry) = Some (Some (content_at view_dates entry (live_runs w) n)) \<and>
          n \<le> length (live_runs w) \<and>
          k \<le> int (length (family_runs (mv_family entry) (take n (live_runs w)))))"

definition recorded_ok ::
  "(string \<Rightarrow> 'r validated_run list \<Rightarrow> date list) \<Rightarrow> 'r mv_world \<Rightarrow> bool" where
  "recorded_ok view_dates w \<longleftrightarrow>
     (\<forall>entry sig. entry \<in> set REGISTRY \<longrightarrow> recorded_signature w (mv_name entry) = Some sig \<longrightarrow>
        holds_since view_dates entry w (fst sig))"

fun refresher_ok ::
  "(string \<Rightarrow> 'r validated_run list \<Rightarrow> date list) \<Rightarrow> 'r mv_world \<Rightarrow> refresher \<Rightarrow> bool" where
  "refresher_ok view_dates w (entry, sig, filled) \<longleftrightarrow> entry \<in> set REGISTRY \<and>
     (if filled then holds_since view_dates entry w (fst sig)
      else fst sig \<le> int (length (family_runs (mv_family entry) (live_runs w))))"

definition mv_invariant ::
  "(string \<Rightarrow> 'r validated_run list \<Rightarrow> date list) \<Rightarrow> 'r mv_world \<times> refresher list \<Rightarrow> bool" where
  "mv_invariant view_dates s \<longleftrightarrow> recorded_ok view_dates (fst s) \<and>
     list_all (refresher_ok view_dates (fst s)) (snd s)"

lemma holds_since_land:
  assumes "holds_since view_dates entry w k" "mw_runs w = Some runs"
  shows "holds_since view_dates entry (w\<lparr> mw_runs := Some (runs @ [r]) \<rparr>) k"
proof -
  obtain n where n: "dict_get (mw_matviews w) (mv_name entry) = Some (Some (content_at view_dates entry runs n))"
    "n \<le> length runs" "k \<le> int (length (family_runs (mv_family entry) (take n runs)))"
    using assms by (auto simp: holds_since_def live_runs_def)
  then show ?thesis
    by (auto simp: holds_since_def live_runs_def content_at_def intro: exI [of _ n])
qed

lemma family_runs_snoc:
  "length (family_runs f (xs @ [r])) \<ge> length (family_runs f xs)"
  by (simp add: family_runs_def)

lemma holds_since_fill:
  assumes "entry \<in> set REGISTRY" "k \<le> int (length (family_runs (mv_family entry) (live_runs w)))"
  shows "holds_since view_dates entry (fill_matview view_dates entry w) k"
  unfolding holds_since_def
  using assms registry_cases [OF assms(1)]
  by (intro exI [of _ "length (live_runs w)"])
    (simp add: fill_matview_def content_at_def column_dates_def live_runs_def)

lemma holds_since_count:
  assumes "holds_since view_dates entry w k"
  shows "k \<le> int (length (family_runs (mv_family entry) (live_runs w)))"
proof -
  obtain n where "k \<le> int (length (family_runs (mv_family entry) (take n (live_runs w))))"
    using assms by (auto simp: holds_since_def)
  moreover have "length (family_runs f (take n xs)) \<le> length (family_runs f xs)" for f and xs :: "'a validated_run list"
    unfolding family_runs_def by (metis append_take_drop_id filter_append le_add1 length_append)
  ultimately show ?thesis by (meson of_nat_mono order_trans)
qed

text \<open>Filling a matview again keeps what was known of every matview.\<close>

lemma holds_since_refill:
  assumes "holds_since view_dates e w k" "entry \<in> set REGISTRY" "e \<in> set REGISTRY"
  shows "holds_since view_dates e (fill_matview view_dates entry w) k"
proof (cases "e = entry")
  case True
  then show ?thesis using holds_since_fill holds_since_count [OF assms(1)] assms(2) by blast
next
  case False
  then have "mv_name e \<noteq> mv_name entry" using registry_names assms(2,3) by blast
  then show ?thesis using assms(1) by (simp add: holds_since_def fill_matview_def live_runs_def)
qed

lemma holds_since_unchanged:
  assumes "mw_matviews w' = mw_matviews w" "mw_runs w' = mw_runs w"
  shows "holds_since view_dates e w' k = holds_since view_dates e w k"
  using assms by (simp add: holds_since_def live_runs_def)

lemma recorded_okD:
  "recorded_ok view_dates w \<Longrightarrow> entry \<in> set REGISTRY \<Longrightarrow>
   recorded_signature w (mv_name entry) = Some sig \<Longrightarrow> holds_since view_dates entry w (fst sig)"
  unfolding recorded_ok_def by blast

text \<open>A step that keeps what is known of every matview and of the live runs.\<close>

lemma refresher_ok_mono:
  assumes "refresher_ok view_dates w p"
    and "\<And>e k. e \<in> set REGISTRY \<Longrightarrow> holds_since view_dates e w k \<Longrightarrow> holds_since view_dates e w' k"
    and "\<And>f. length (family_runs f (live_runs w)) \<le> length (family_runs f (live_runs w'))"
  shows "refresher_ok view_dates w' p"
proof -
  obtain e sig b where p: "p = (e, sig, b)" by (metis prod.exhaust)
  have "int (length (family_runs (mv_family e) (live_runs w))) \<le> int (length (family_runs (mv_family e) (live_runs w')))"
    using assms(3) by simp
  then show ?thesis using assms(1,2) p by (auto split: if_splits)
qed

lemma invariant_mono:
  assumes "mv_invariant view_dates (w, ps)"
    and "\<And>e k. e \<in> set REGISTRY \<Longrightarrow> holds_since view_dates e w k \<Longrightarrow> holds_since view_dates e w' k"
    and "\<And>f. length (family_runs f (live_runs w)) \<le> length (family_runs f (live_runs w'))"
    and "\<And>n. recorded_signature w' n = recorded_signature w n"
  shows "mv_invariant view_dates (w', ps)"
proof -
  have "recorded_ok view_dates w'" using assms(1,2,4) by (simp add: mv_invariant_def recorded_ok_def)
  moreover have "list_all (refresher_ok view_dates w') ps"
    using assms(1) refresher_ok_mono [OF _ assms(2,3)]
    by (auto simp: mv_invariant_def list_all_iff)
  ultimately show ?thesis by (simp add: mv_invariant_def)
qed

lemma mv_invariant_step:
  assumes "mv_step view_dates s s'" "mv_invariant view_dates s"
  shows "mv_invariant view_dates s'"
  using assms
proof (induction rule: mv_step.induct)
  case (land w runs ps r)
  show ?case
  proof (rule invariant_mono [OF land.prems])
    show "holds_since view_dates e (w\<lparr> mw_runs := Some (runs @ [r]) \<rparr>) k" if "holds_since view_dates e w k" for e k
      using that land.hyps by (rule holds_since_land)
  qed (simp_all add: live_runs_def land.hyps family_runs_snoc recorded_signature_def)
next
  case (install w ps)
  show ?case
    by (rule invariant_mono [OF install.prems])
      (simp_all add: recorded_signature_def install.hyps holds_since_def live_runs_def)
next
  case (read_signature entry w ps)
  then show ?case by (simp add: mv_invariant_def signature_count)
next
  case (fill ps ps1 entry sig ps2 w)
  then have e: "entry \<in> set REGISTRY" "fst sig \<le> int (length (family_runs (mv_family entry) (live_runs w)))"
    by (simp_all add: mv_invariant_def)
  have "mv_invariant view_dates (fill_matview view_dates entry w, ps1 @ ps2)"
  proof (rule invariant_mono)
    show "mv_invariant view_dates (w, ps1 @ ps2)" using fill by (simp add: mv_invariant_def)
    show "holds_since view_dates f (fill_matview view_dates entry w) k"
      if "f \<in> set REGISTRY" "holds_since view_dates f w k" for f k
      using that(2) e(1) that(1) by (rule holds_since_refill)
  qed (simp_all add: live_runs_def fill_matview_def recorded_signature_def)
  then show ?case using holds_since_fill [OF e] e(1) by (simp add: mv_invariant_def)
next
  case (store ps ps1 entry sig ps2 w)
  then have e: "entry \<in> set REGISTRY" "holds_since view_dates entry w (fst sig)"
    and rest: "recorded_ok view_dates w" "list_all (refresher_ok view_dates w) (ps1 @ ps2)"
    by (simp_all add: mv_invariant_def)
  let ?w = "record_signature entry sig w"
  have u: "holds_since view_dates f ?w k = holds_since view_dates f w k" for f k
    by (rule holds_since_unchanged) (simp_all add: record_signature_def)
  have "recorded_ok view_dates ?w"
    unfolding recorded_ok_def
  proof (intro allI impI)
    fix f sg
    assume f: "f \<in> set REGISTRY" "recorded_signature ?w (mv_name f) = Some sg"
    show "holds_since view_dates f ?w (fst sg)"
    proof (cases "f = entry")
      case True
      then have "sg = sig" using f(2)
        by (auto simp: recorded_signature_def record_signature_def split: option.splits)
      then show ?thesis using e(2) True u by simp
    next
      case False
      then have "mv_name f \<noteq> mv_name entry" using registry_names f(1) e(1) by blast
      then have "recorded_signature w (mv_name f) = Some sg" using f(2)
        by (auto simp: recorded_signature_def record_signature_def split: option.splits)
      from recorded_okD [OF rest(1) f(1) this] show ?thesis by (simp only: u)
    qed
  qed
  moreover have "live_runs ?w = live_runs w" by (simp add: record_signature_def live_runs_def)
  then have "refresher_ok view_dates ?w p = refresher_ok view_dates w p" for p
    using u by (cases p rule: prod_cases3) simp
  then have "list_all (refresher_ok view_dates ?w) (ps1 @ ps2)" using rest(2) by (simp add: list_all_iff)
  ultimately show ?case by (simp add: mv_invariant_def)
next
  case (abandon ps ps1 p ps2 w)
  then show ?case by (simp add: mv_invariant_def)
qed

lemma mv_invariant_reachable: "mv_reachable view_dates s \<Longrightarrow> mv_invariant view_dates s"
proof (induction rule: mv_reachable.induct)
  case (start w)
  then show ?case by (simp add: mv_invariant_def recorded_ok_def recorded_signature_def)
qed (rule mv_invariant_step)

text \<open>A prefix of the runs with as many runs of the family has the same ones.\<close>

lemma family_runs_prefix:
  assumes "length (family_runs f xs) \<le> length (family_runs f (take n xs))"
  shows "family_runs f (take n xs) = family_runs f xs"
proof -
  have "family_runs f xs = family_runs f (take n xs) @ family_runs f (drop n xs)"
    by (simp add: family_runs_def flip: filter_append)
  moreover from this have "length (family_runs f (drop n xs)) = 0"
    using assms by (simp only: length_append)
  ultimately show ?thesis by simp
qed

lemma fresh_content:
  assumes "mv_invariant view_dates (w, ps)" "entry \<in> set REGISTRY" "is_fresh w entry"
  shows "dict_get (mw_matviews w) (mv_name entry)
    = Some (Some (matview_rows entry (column_dates view_dates w (mv_view entry))))"
proof -
  have "recorded_signature w (mv_name entry) = Some (source_signature w (mv_family entry))"
    using assms(3) by (auto simp: is_fresh_def split: if_splits option.splits)
  then have "holds_since view_dates entry w (fst (source_signature w (mv_family entry)))"
    using assms(1,2) by (intro recorded_okD) (simp_all add: mv_invariant_def)
  then show ?thesis
    using registry_cases [OF assms(2)]
    by (auto simp: holds_since_def content_at_def column_dates_def signature_count dest: family_runs_prefix)
qed

lemma cached_watermark:
  assumes "mv_reachable view_dates (w, ps)"
  shows "watermark_of view_dates w relation = max_of (column_dates view_dates w relation)"
proof (cases "by_view relation")
  case None
  then show ?thesis by (simp add: watermark_of_def resolve_relation_def)
next
  case (Some entry)
  note e = by_view_registry [OF Some]
  show ?thesis
  proof (cases "is_fresh w entry")
    case True
    note fc = fresh_content [OF mv_invariant_reachable [OF assms] _ True]
    have "column_dates view_dates w (mv_name entry) = matview_rows entry (column_dates view_dates w relation)"
      using fc e registry_cases [of entry] by (simp add: column_dates_def)
    moreover have "max_of (matview_rows entry xs) = max_of xs" for xs
      by (rule max_of_set) (simp add: matview_rows_def)
    ultimately show ?thesis
      using True Some by (simp add: watermark_of_def resolve_relation_def)
  next
    case False
    then show ?thesis using Some by (simp add: watermark_of_def resolve_relation_def)
  qed
qed

text \<open>
  C7: the cache never answers stale. However refreshes and landings of validated runs
  interleave, and whichever refresh is abandoned half way, the watermark read through the
  chosen relation is the watermark of the view itself.
\<close>

theorem cached_watermark_is_the_views:
  assumes "mv_reachable view_dates (w, ps)"
  shows "watermark_of view_dates w relation = max_of (column_dates view_dates w relation)"
  using assms by (rule cached_watermark)

theorem cached_watermark_is_the_views_witness:
  "let w = \<lparr> mw_runs = Some [], mw_state = None, mw_matviews = [(''ncen_effective_filings_mv'', None)],
         mw_tables = [], mw_views = [''ncen_effective_filings''] \<rparr> :: date mv_world;
       dates = (\<lambda>view runs. concat (map vr_rows runs));
       e = hd REGISTRY; r = \<lparr> vr_family = ''ncen'', vr_validated_at = 5, vr_rows = [Date 2026 7 17] \<rparr>;
       w1 = w\<lparr> mw_state := Some [] \<rparr>;
       w2 = record_signature e (source_signature w1 (mv_family e)) (fill_matview dates e w1);
       w3 = w2\<lparr> mw_runs := Some [r] \<rparr>
   in is_fresh w2 e \<and> \<not> is_fresh w3 e \<and>
      watermark_of dates w3 ''ncen_effective_filings'' = Some (Date 2026 7 17)"
proof -
  let ?w = "\<lparr> mw_runs = Some [], mw_state = None, mw_matviews = [(''ncen_effective_filings_mv'', None)],
         mw_tables = [], mw_views = [''ncen_effective_filings''] \<rparr> :: date mv_world"
  let ?dates = "\<lambda>(view :: string) runs. concat (map (vr_rows :: date validated_run \<Rightarrow> date list) runs)"
  let ?e = "hd REGISTRY"
  let ?r = "\<lparr> vr_family = ''ncen'', vr_validated_at = 5, vr_rows = [Date 2026 7 17] \<rparr>"
  let ?w1 = "?w\<lparr> mw_state := Some [] \<rparr>"
  let ?sig = "source_signature ?w1 (mv_family ?e)"
  let ?w2 = "record_signature ?e ?sig (fill_matview ?dates ?e ?w1)"
  let ?w3 = "?w2\<lparr> mw_runs := Some ([] @ [?r]) \<rparr>"
  note sig = source_signature_def runs_signature_def family_runs_def max_of_def
  note steps = mv_step.intros mv_reachable.intros(2)
  have "mv_reachable ?dates (?w, [])" by (rule mv_reachable.start) simp
  then have "mv_reachable ?dates (?w1, [])" by (rule mv_reachable.step) (rule mv_step.install, simp)
  then have "mv_reachable ?dates (?w1, [(?e, ?sig, False)])"
    by (rule mv_reachable.step) (rule mv_step.read_signature, simp add: REGISTRY_def)
  then have "mv_reachable ?dates (fill_matview ?dates ?e ?w1, [] @ (?e, ?sig, True) # [])"
    by (rule mv_reachable.step) (rule mv_step.fill, simp)
  then have "mv_reachable ?dates (?w2, [] @ [])"
    by (rule mv_reachable.step) (rule mv_step.store, simp)
  then have "mv_reachable ?dates (?w3, [] @ [])"
    by (rule mv_reachable.step) (rule mv_step.land, simp add: record_signature_def fill_matview_def)
  from cached_watermark_is_the_views [OF this, of "''ncen_effective_filings''"]
  have wm: "watermark_of ?dates ?w3 ''ncen_effective_filings'' = Some (Date 2026 7 17)"
    by (simp add: column_dates_def by_view_def REGISTRY_def live_runs_def family_runs_def max_of_def)
  have "is_fresh ?w2 ?e" "\<not> is_fresh ?w3 ?e"
    by (simp_all add: is_fresh_def is_populated_def recorded_signature_def record_signature_def
        fill_matview_def sig REGISTRY_def)
  then show ?thesis using wm by (simp add: Let_def)
qed

subsection \<open>A refresh makes every matview fresh\<close>

text \<open>What one refresh keeps of the other entries.\<close>

lemma refresh_one_world:
  assumes "refuses (mv_name entry) = None"
  shows "fst (refresh_one view_dates refuses entry w)
    = record_signature entry (source_signature w (mv_family entry)) (fill_matview view_dates entry w)"
  using assms by (simp add: refresh_one_def Let_def)

lemma refresh_one_fresh:
  assumes "mw_state w \<noteq> None" "refuses (mv_name entry) = None"
  shows "is_fresh (fst (refresh_one view_dates refuses entry w)) entry"
  using assms
  by (auto simp: refresh_one_world is_fresh_def is_populated_def recorded_signature_def
      record_signature_def fill_matview_def source_signature_def)

lemma refresh_one_keeps_fresh:
  assumes "is_fresh w e" "mv_name e \<noteq> mv_name entry" "refuses (mv_name entry) = None"
  shows "is_fresh (fst (refresh_one view_dates refuses entry w)) e"
  using assms
  by (auto simp: refresh_one_world is_fresh_def is_populated_def recorded_signature_def
      record_signature_def fill_matview_def source_signature_def split: option.splits if_splits)

lemma refresh_one_relations:
  assumes "refuses (mv_name entry) = None" "relation_exists w (mv_name entry)"
  shows "relation_exists (fst (refresh_one view_dates refuses entry w)) n \<longleftrightarrow>
      relation_exists w n \<or> n = mv_name entry"
    and "mw_state (fst (refresh_one view_dates refuses entry w)) = None \<longleftrightarrow> mw_state w = None"
    and "mw_runs (fst (refresh_one view_dates refuses entry w)) = mw_runs w"
  using assms
  by (auto simp: refresh_one_world relation_exists_def record_signature_def fill_matview_def)

lemma refresh_entries_fresh:
  assumes "\<And>n. refuses n = None" "mw_state w \<noteq> None" "distinct (map mv_name entries)"
    and "refresh_entries view_dates refuses force None entries w = (w', reports)"
  shows "(\<forall>e \<in> set entries. relation_exists w (mv_name e) \<longrightarrow> is_fresh w' e) \<and>
    (\<forall>e. mv_name e \<notin> mv_name ` set entries \<longrightarrow> is_fresh w e \<longrightarrow> is_fresh w' e)"
  using assms(2-)
proof (induction entries arbitrary: w reports)
  case (Cons entry entries)
  let ?one = "if \<not> relation_exists w (mv_name entry) then (w, Absent (mv_name entry))
                   else if \<not> force \<and> is_fresh w entry then (w, Fresh (mv_name entry))
                   else refresh_one view_dates refuses entry w"
  obtain w1 rep where one: "?one = (w1, rep)" by (metis prod.exhaust)
  obtain reps where rest: "refresh_entries view_dates refuses force None entries w1 = (w', reps)"
    using Cons.prems(3) one by (auto simp: Let_def split: prod.splits)
  have w1: "w1 = w \<or> relation_exists w (mv_name entry) \<and> w1 = fst (refresh_one view_dates refuses entry w)"
    using one by (auto split: if_splits)
  note r = refresh_one_relations [where refuses = refuses, OF assms(1)]
  have st: "mw_state w1 \<noteq> None" using w1 Cons.prems(1) r(2) by metis
  have fe: "relation_exists w (mv_name entry) \<Longrightarrow> is_fresh w1 entry"
    using one refresh_one_fresh [OF Cons.prems(1), of refuses entry view_dates] assms(1)
    by (auto split: if_splits)
  have keep: "is_fresh w e \<Longrightarrow> mv_name e \<noteq> mv_name entry \<Longrightarrow> is_fresh w1 e" for e
    using w1 refresh_one_keeps_fresh assms(1) by blast
  have ex: "relation_exists w n \<Longrightarrow> relation_exists w1 n" for n
    using w1 r(1) by blast
  have "distinct (map mv_name entries)" "mv_name entry \<notin> mv_name ` set entries"
    using Cons.prems(2) by auto
  with Cons.IH [OF st _ rest] fe keep ex show ?case by auto
qed simp

text \<open>
  C8: a refresh that is not refused leaves no stale cache behind. When the refresher holds the
  lock, the state table is installed and no statement is refused, every registered matview
  that exists is fresh afterwards, so the next reads go through the cache.
\<close>

theorem refresh_stale_makes_fresh:
  assumes "\<And>n. refuses n = None" "mw_state w \<noteq> None"
    and "refresh_stale view_dates refuses True force None w = (w', reports)"
    and "entry \<in> set REGISTRY" "relation_exists w (mv_name entry)"
  shows "is_fresh w' entry \<and> resolve_relation w' (mv_view entry) = mv_name entry"
proof -
  have "refresh_entries view_dates refuses force None REGISTRY w = (w', reports)"
    using assms(2,3) by (auto simp: refresh_stale_def)
  moreover have "distinct (map mv_name REGISTRY)" by (simp add: REGISTRY_def)
  ultimately have "is_fresh w' entry"
    using refresh_entries_fresh [where refuses = refuses, OF assms(1,2)] assms(4,5) by blast
  then show ?thesis using registry_cases [OF assms(4)] by (simp add: resolve_relation_def)
qed

theorem refresh_stale_makes_fresh_witness:
  "resolve_relation (fst (refresh_stale (\<lambda>view runs. concat (map vr_rows runs)) (\<lambda>n. None) True False None
     \<lparr> mw_runs = Some [\<lparr> vr_family = ''rr1'', vr_validated_at = 5, vr_rows = [Date 2026 7 17] \<rparr>],
       mw_state = Some [], mw_matviews = [(''rr1_effective_fact_calendar_mv'', None)],
       mw_tables = [], mw_views = [] \<rparr>)) ''rr1_effective_facts'' = ''rr1_effective_fact_calendar_mv''"
proof -
  let ?dates = "\<lambda>(view :: string) runs. concat (map (vr_rows :: date validated_run \<Rightarrow> date list) runs)"
  let ?w = "\<lparr> mw_runs = Some [\<lparr> vr_family = ''rr1'', vr_validated_at = 5, vr_rows = [Date 2026 7 17] \<rparr>],
       mw_state = Some [], mw_matviews = [(''rr1_effective_fact_calendar_mv'', None)],
       mw_tables = [], mw_views = [] \<rparr>"
  let ?e = "REGISTRY ! 1"
  obtain w' reports where r: "refresh_stale ?dates (\<lambda>n. None) True False None ?w = (w', reports)"
    by (metis prod.exhaust)
  have h: "mw_state ?w \<noteq> None" "?e \<in> set REGISTRY" "relation_exists ?w (mv_name ?e)"
    by (simp_all add: REGISTRY_def relation_exists_def)
  have "resolve_relation w' (mv_view ?e) = mv_name ?e"
    using refresh_stale_makes_fresh [OF refl h(1) r h(2,3)] by blast
  then show ?thesis using r by (simp add: REGISTRY_def)
qed

end
