(* ===== verification/Compensation.thy ===== *)
theory Compensation
  imports Daily_Chain
begin

text \<open>
  When the compensation of the daily chain is complete. The interface \<open>pointer_store\<close> of the
  engine is extended by what it takes for every restore to succeed, and the guarantee is
  proved once for any store with these laws: a failed run whose stages move pointers only
  when they succeed leaves no compensation failure and every pointer where it was.
\<close>

subsection \<open>Stages that behave\<close>

text \<open>
  One attempt of a stage keeps the store well formed and everything restorable that was; it
  moves pointers only when it succeeds, and never drops one.
\<close>

definition lawful ::
  "('w \<Rightarrow> (string, string) dict) \<Rightarrow> ('w \<Rightarrow> bool) \<Rightarrow> ('w \<Rightarrow> string \<Rightarrow> string option \<Rightarrow> bool) \<Rightarrow>
   stage_context \<Rightarrow> 'w stage \<Rightarrow> bool" where
  "lawful snapshot good restorable cx st \<longleftrightarrow>
     (\<forall>n w w' r. good w \<longrightarrow> stage_run st (cx\<lparr> cx_attempt := n \<rparr>) w = (w', r) \<longrightarrow>
        good w' \<and> (\<forall>p v. restorable w p v \<longrightarrow> restorable w' p v) \<and>
        (if \<exists>oc. r = Inr oc \<and> oc_status oc = SUCCEEDED
         then dom (dict_get (snapshot w)) \<subseteq> dom (dict_get (snapshot w'))
         else dict_get (snapshot w') = dict_get (snapshot w)))"

lemma reconcile_skip_succeeded:
  assumes "reconcile_skip required oc = Inr oc'"
  shows "oc_status oc' = SUCCEEDED \<longleftrightarrow> oc_status oc = SUCCEEDED"
  using assms by (auto simp: reconcile_skip_def outcome_failed_def split: if_splits)

lemma lawful_attempts:
  assumes "attempts_loop classify st cx left attempt w = (w', slept, res)"
    and "lawful snapshot good restorable cx st" "good w"
  shows "good w' \<and> (\<forall>p v. restorable w p v \<longrightarrow> restorable w' p v) \<and>
    (\<forall>oc n. res = Inr (oc, n) \<longrightarrow>
       (if oc_status oc = SUCCEEDED then dom (dict_get (snapshot w)) \<subseteq> dom (dict_get (snapshot w'))
        else dict_get (snapshot w') = dict_get (snapshot w)))"
  using assms(1,3)
proof (induction left arbitrary: attempt w slept)
  case (Suc left)
  obtain w1 r where r: "stage_run st (cx\<lparr> cx_attempt := attempt \<rparr>) w = (w1, r)" by (metis prod.exhaust)
  have one: "good w1 \<and> (\<forall>p v. restorable w p v \<longrightarrow> restorable w1 p v) \<and>
      (if \<exists>oc. r = Inr oc \<and> oc_status oc = SUCCEEDED
       then dom (dict_get (snapshot w)) \<subseteq> dom (dict_get (snapshot w1))
       else dict_get (snapshot w1) = dict_get (snapshot w))"
    using assms(2) Suc.prems(2) r unfolding lawful_def by blast
  let ?o = "case r of Inl e \<Rightarrow> Inr (exception_outcome classify e) | Inr oc \<Rightarrow> reconcile_skip (stage_required st) oc"
  show ?case
  proof (cases ?o)
    case (Inl err)
    then show ?thesis using Suc.prems(1) r one by (auto split: sum.splits)
  next
    case (Inr oc1)
    have succ: "oc_status oc1 = SUCCEEDED \<longleftrightarrow> (\<exists>oc. r = Inr oc \<and> oc_status oc = SUCCEEDED)"
      using Inr reconcile_skip_succeeded by (auto simp: exception_outcome_def Let_def split: sum.splits)
    show ?thesis
    proof (cases "retry_wanted oc1 \<and> left > 0")
      case True
      then have nf: "\<not> (\<exists>oc. r = Inr oc \<and> oc_status oc = SUCCEEDED)" using succ by (auto simp: retry_wanted_def)
      obtain w2 sl res2 where rec: "attempts_loop classify st cx left (attempt + 1) w1 = (w2, sl, res2)"
        by (metis prod.exhaust)
      have eq: "w' = w2" "res = res2" using Suc.prems(1) r Inr True rec by (auto split: sum.splits)
      have s1: "dict_get (snapshot w1) = dict_get (snapshot w)" using one nf by simp
      from Suc.IH [OF rec [folded eq]] one have ih: "good w' \<and> (\<forall>p v. restorable w1 p v \<longrightarrow> restorable w' p v) \<and>
        (\<forall>oc n. res = Inr (oc, n) \<longrightarrow>
           (if oc_status oc = SUCCEEDED then dom (dict_get (snapshot w1)) \<subseteq> dom (dict_get (snapshot w'))
            else dict_get (snapshot w') = dict_get (snapshot w1)))" by blast
      show ?thesis using ih one unfolding s1 by blast
    next
      case False
      then have "w' = w1" "\<exists>n. res = Inr (oc1, n)" using Suc.prems(1) r Inr by (auto split: sum.splits)
      then show ?thesis using one succ by (auto split: if_splits)
    qed
  qed
qed simp

lemma lawful_moves_only:
  assumes "lawful snapshot good restorable cx st"
  shows "moves_only_on_success env cx snapshot good st"
  unfolding moves_only_on_success_def run_stage_def
  using lawful_attempts [OF _ assms] by (metis (no_types, lifting))

lemma fold_diff_keys:
  assumes "fold (diff_step run_id stg baseline ls) kvs (adv, db) = (adv', db')"
  shows "fst ` set adv' \<subseteq> fst ` set adv \<union> fst ` set kvs"
  using assms
proof (induction kvs arbitrary: adv db)
  case (Cons kv kvs)
  obtain a1 d1 where st: "diff_step run_id stg baseline ls kv (adv, db) = (a1, d1)" by (metis prod.exhaust)
  have "fst ` set a1 \<subseteq> insert (fst kv) (fst ` set adv)"
    using st set_keys_dict_set [of "fst kv" _ adv]
    by (cases kv) (auto simp del: set_keys_dict_set simp: diff_step_def Let_def split: if_splits)
  moreover have "fst ` set adv' \<subseteq> fst ` set a1 \<union> fst ` set kvs"
    using Cons.IH [of a1 d1] Cons.prems st by simp
  ultimately show ?case by (simp only: list.set image_insert) blast
qed simp

subsection \<open>A store whose restores succeed\<close>

text \<open>
  \<open>restorable w p v\<close>: the pointer of \<open>p\<close> can be set to \<open>v\<close>, or cleared. Whatever is current
  can be restored and cleared, and a restore makes nothing unrestorable.
\<close>

locale complete_pointer_store = pointer_store snapshot restore good
  for snapshot :: "'w \<Rightarrow> (string, string) dict"
    and restore :: "string \<Rightarrow> string option \<Rightarrow> 'w \<Rightarrow> string + 'w"
    and good :: "'w \<Rightarrow> bool" +
  fixes restorable :: "'w \<Rightarrow> string \<Rightarrow> string option \<Rightarrow> bool"
  assumes restore_total: "good w \<Longrightarrow> restorable w p v \<Longrightarrow> \<exists>w'. restore p v w = Inr w'"
    and restorable_kept: "good w \<Longrightarrow> restore p v w = Inr w' \<Longrightarrow> restorable w q u \<Longrightarrow> restorable w' q u"
    and restorable_current: "good w \<Longrightarrow> dict_get (snapshot w) p = Some i \<Longrightarrow> restorable w p (Some i)"
    and restorable_clear: "good w \<Longrightarrow> dict_get (snapshot w) p = Some i \<Longrightarrow> restorable w p None"
begin

lemma compensation_total:
  assumes "good (cp_world c)" "cp_failed c = []"
    and "\<And>p a. (p, a) \<in> set adv \<Longrightarrow> restorable (cp_world c) p (adv_previous a)"
  shows "cp_failed (fold (compensate_step restore run_id) adv c) = []"
  using assms
proof (induction adv arbitrary: c)
  case (Cons pa adv)
  obtain p a where pa: "pa = (p, a)" by (cases pa)
  obtain w where w: "restore p (adv_previous a) (cp_world c) = Inr w"
    using restore_total [OF Cons.prems(1) Cons.prems(3) [of p a]] pa by auto
  let ?c = "compensate_step restore run_id pa c"
  have c: "cp_world ?c = w" "cp_failed ?c = []" using w Cons.prems(2) by (simp_all add: compensate_step_def pa)
  have "good w" by (rule restore_good [OF Cons.prems(1) w])
  then show ?case
    using Cons.IH [of ?c] c Cons.prems(3) restorable_kept [OF Cons.prems(1) w] by auto
qed simp

lemma execute_stage_restorable:
  assumes "execute_stage env cx baseline order stg st = (st', r)"
    and "env_pointers env = Some (snapshot, restore)" "lawful snapshot good restorable cx stg"
    and "good (ls_world st)" "\<And>p. p \<in> fst ` set (ls_advanced st) \<Longrightarrow> restorable (ls_world st) p None"
  shows "good (ls_world st') \<and> (\<forall>p v. restorable (ls_world st) p v \<longrightarrow> restorable (ls_world st') p v) \<and>
    (\<forall>p \<in> fst ` set (ls_advanced st'). restorable (ls_world st') p None)"
proof -
  obtain w sl res where rs: "run_stage (env_classify env) (env_max_attempts env) stg cx (ls_world st) = (w, sl, res)"
    by (metis prod.exhaust)
  note law = lawful_attempts [OF rs [unfolded run_stage_def] assms(3,4)]
  have keep: "\<forall>p \<in> fst ` set (ls_advanced st). restorable w p None" using law assms(5) by blast
  show ?thesis
  proof (cases "\<exists>oc n. res = Inr (oc, n) \<and> oc_status oc = SUCCEEDED")
    case False
    then have "ls_world st' = w \<and> ls_advanced st' = ls_advanced st"
      using assms(1,2) rs by (auto simp: execute_stage_def Let_def split: sum.splits prod.splits)
    then show ?thesis using law keep by simp
  next
    case True
    then obtain oc n where res: "res = Inr (oc, n)" "oc_status oc = SUCCEEDED" by blast
    let ?db = "record_stage (cx_run_id cx) (stage_name stg) order oc n (ls_db st)"
    obtain a d where f: "fold (diff_step (cx_run_id cx) (stage_name stg) baseline (ls_last_seen st)) (snapshot w)
        (ls_advanced st, ?db) = (a, d)" by (metis prod.exhaust)
    have eq: "ls_world st' = w" "ls_advanced st' = a"
      using assms(1,2) rs res f by (auto simp: execute_stage_def Let_def track_stage_def)
    have "restorable w p None" if "p \<in> fst ` set a" for p
    proof (cases "p \<in> fst ` set (ls_advanced st)")
      case False
      then have "p \<in> fst ` set (snapshot w)" using fold_diff_keys [OF f] that by blast
      then obtain i where "dict_get (snapshot w) p = Some i"
        by (metis dict_get_None_iff option.exhaust)
      then show ?thesis using restorable_clear law by blast
    qed (use keep in blast)
    then show ?thesis using law eq by simp
  qed
qed

lemma stage_loop_restorable:
  assumes "stage_loop env cx prior baseline order stages st = (st', r)"
    and "env_pointers env = Some (snapshot, restore)"
    and "\<And>stg. stg \<in> set stages \<Longrightarrow> lawful snapshot good restorable cx stg"
    and "good (ls_world st)" "\<And>p. p \<in> fst ` set (ls_advanced st) \<Longrightarrow> restorable (ls_world st) p None"
  shows "good (ls_world st') \<and> (\<forall>p v. restorable (ls_world st) p v \<longrightarrow> restorable (ls_world st') p v) \<and>
    (\<forall>p \<in> fst ` set (ls_advanced st'). restorable (ls_world st') p None)"
  using assms(1,3-)
proof (induction stages arbitrary: order st)
  case (Cons stg stages)
  show ?case
  proof (cases "checkpoint_done (prior (stage_name stg))")
    case True
    let ?st = "st\<lparr> ls_records := ls_records st @
       [resumed_record (stage_name stg) order (the (prior (stage_name stg)))] \<rparr>"
    have "stage_loop env cx prior baseline (order + 1) stages ?st = (st', r)"
      using Cons.prems(1) True by simp
    from Cons.IH [OF this] Cons.prems show ?thesis by simp
  next
    case False
    obtain st1 r1 where ex: "execute_stage env cx baseline order stg st = (st1, r1)"
      by (metis prod.exhaust)
    note one = execute_stage_restorable [OF ex assms(2) Cons.prems(2) Cons.prems(3,4), simplified]
    show ?thesis
    proof (cases "r1 = Inr False")
      case True
      then have "stage_loop env cx prior baseline (order + 1) stages st1 = (st', r)"
        using Cons.prems(1) False ex by simp
      moreover have "p \<in> fst ` set (ls_advanced st1) \<Longrightarrow> restorable (ls_world st1) p None" for p
        using one by auto
      ultimately show ?thesis using Cons.IH [of "order + 1" st1] Cons.prems(2) one by auto
    next
      case nf: False
      then have "st' = st1" using Cons.prems(1) False ex by (auto split: sum.splits bool.splits)
      then show ?thesis using one by simp
    qed
  qed
qed simp

text \<open>The guarantee. \<open>ledger_restorable\<close> is about what a crashed attempt of the run promoted.\<close>

lemma failed_run_compensates:
  assumes "env_pointers env = Some (snapshot, restore)"
    and law: "\<And>stg. stg \<in> set (env_stages env) \<Longrightarrow> lawful snapshot good restorable (day_context env d) stg"
    and run: "run_one_day env d (w, db) = ((w', db'), Inr sm)"
    and fresh_run: "completed_summary db (env_run_id env d) = None"
    and failed: "sm_status sm = ''failed''" and "good w"
    and ledger: "\<And>p a. dict_get (load_run_promotions db (env_run_id env d)) p = Some a \<Longrightarrow>
      restorable w p (adv_previous a) \<and> restorable w p None"
  shows "sm_compensation_failures sm = [] \<and>
    dict_get (snapshot w') = pre_run_pointer snapshot (env_run_id env d) db w"
proof -
  let ?id = "env_run_id env d"
  have store: "pointer_store snapshot restore good" by (rule pointer_store_axioms)
  have moves: "stg \<in> set (env_stages env) \<Longrightarrow> moves_only_on_success env (day_context env d) snapshot good stg" for stg
    using law by (rule lawful_moves_only)
  obtain fresh baseline st0 st b where r:
    "fresh = open_run ?id
                    \<lparr> rr_chain = env_chain env, rr_source_day = d,
                      rr_code_revision = env_code_revision env,
                      rr_config_version = env_config_version env, rr_status = ''running'',
                      rr_watermarks = env_watermarks_for env w d, rr_summary = None \<rparr> db"
    "prepare_loop env ?id w fresh = (baseline, st0)"
    "stage_loop env (day_context env d) (load_stage_run fresh ?id) baseline 0 (env_stages env) st0 = (st, Inr b)"
    "finish_day env ?id d (env_watermarks_for env w d) st b = (w', db', sm)"
    using run_one_day_Inr [OF run fresh_run] by metis
  have b: b using finish_day_summary(1) [OF r(4)] failed by (auto split: if_splits)
  note prep = prepare_loop_tracked [OF r(2) assms(1) snapshot_dict]
  have net: "load_run_promotions fresh = load_run_promotions db" by (rule load_same_promotions) (simp add: r(1))
  note loop = stage_loop_tracked [OF r(3) assms(1) snapshot_dict moves prep(2,3) assms(6) [folded prep(6)]]
  have g0: "good (ls_world st0)" using assms(6) prep(6) by simp
  have a0: "restorable (ls_world st0) p None" if p: "p \<in> fst ` set (ls_advanced st0)" for p
  proof -
    obtain a where "dict_get (load_run_promotions db ?id) p = Some a"
      using p unfolding prep(5) net by (metis dict_get_None_iff option.exhaust)
    then show ?thesis using ledger prep(6) by blast
  qed
  note rest = stage_loop_restorable [OF r(3) assms(1) law g0 a0]
  have base: "restorable w p (Some i)" if "baseline_of baseline p = Some i" for p i
    using that ledger restorable_current [OF assms(6)] unfolding prep(1) net
    by (auto simp: pre_run_pointer_def net split: option.splits) metis+
  have okadv: "dict_ok (ls_advanced st)"
  proof -
    have "ledger_agrees ?id (ls_advanced st0) (ls_db st0)"
      by (simp add: ledger_agrees_def prep(4,5) load_run_promotions_ok)
    then show ?thesis using stage_loop_db [OF r(3)] assms(1) by (simp add: ledger_agrees_def)
  qed
  have prev: "restorable (ls_world st) p (adv_previous a)" if pa: "(p, a) \<in> set (ls_advanced st)" for p a
  proof -
    have "dict_get (ls_advanced st) p = Some a" using okadv pa by simp
    then have "adv_previous a = baseline_of baseline p"
      using loop by (auto simp: tracked_def split: option.splits dest: spec [of _ p])
    moreover have "restorable (ls_world st) p None" using rest pa by force
    moreover have "restorable (ls_world st) p (Some i)" if "baseline_of baseline p = Some i" for i
      using base [OF that] rest prep(6) by simp
    ultimately show ?thesis by (cases "baseline_of baseline p") auto
  qed
  have "sm_compensation_failures sm = []"
  proof (cases "ls_advanced st = []")
    case True
    then show ?thesis using r(4) assms(1) by (auto simp: finish_day_def Let_def build_summary_def)
  next
    case False
    let ?c = "fold (compensate_step restore ?id) (ls_advanced st)
       \<lparr> cp_world = ls_world st, cp_db = ls_db st, cp_done = [], cp_failed = [], cp_reset_stages = [], cp_reset_all = False \<rparr>"
    have "sm_compensation_failures sm = cp_failed ?c"
      using r(4) assms(1) b False
      by (auto simp: finish_day_def Let_def compensate_def build_summary_def split: if_splits)
    also have "\<dots> = []" using rest prev by (intro compensation_total) auto
    finally show ?thesis .
  qed
  then show ?thesis
    using failed_run_restores [OF store assms(1) moves run fresh_run failed _ assms(6)] by blast
qed

end

end
