(* ===== verification/Chain_Worker.thy ===== *)
theory Chain_Worker
  imports Compensation Effective_Matviews
begin

text \<open>
  The worker of the daily publication chain, \<open>src/workers/daily_publication_chain.py\<close>, over
  the tables it moves pointers in: the derived publications with their current pointers
  (\<open>schemas/sec_derived_publications.sql\<close>) and the mixed publications with their active
  pointer (\<open>schemas/mixed_quant_v1.sql\<close>, \<open>src/quant_data/publication.py\<close>). The workers the
  stages call are functions on the world; what they return is classified by the engine.

  A statement the database refuses is the left summand, with its message; the connection
  then rolls the block back, so the world does not change.
\<close>

subsection \<open>The publication tables\<close>

datatype lifecycle = Prepared | Validated

record derived_publication =
  dp_product :: string
  dp_state :: lifecycle
  dp_as_of :: "date option"

datatype quant_status = Building | Ready | Active | Superseded

fun quant_status_text :: "quant_status \<Rightarrow> string" where
  "quant_status_text Building = ''building''"
| "quant_status_text Ready = ''ready''"
| "quant_status_text Active = ''active''"
| "quant_status_text Superseded = ''superseded''"

text \<open>\<open>qp_activated\<close> is whether \<open>activated_at\<close> is set.\<close>

record quant_publication =
  qp_product :: string
  qp_as_of :: date
  qp_code_revision :: string
  qp_config_version :: string
  qp_status :: quant_status
  qp_activated :: bool

text \<open>
  The world of the chain: the relations that exist, the derived publications by identifier,
  the current pointers by product, the mixed publications, the active pointers, the cached
  views, and the rest of the database.
\<close>

record ('x, 'r) pub_world =
  pw_relations :: "string list"
  pw_derived :: "(string, derived_publication) dict"
  pw_pointers :: "(string, string) dict"
  pw_quant :: "(string, quant_publication) dict"
  pw_active :: "(string, string) dict"
  pw_cache :: "'r mv_world"
  pw_other :: 'x

definition to_regclass :: "('x, 'r) pub_world \<Rightarrow> string \<Rightarrow> bool" where
  "to_regclass w table \<longleftrightarrow> table \<in> set (pw_relations w)"

subsection \<open>Current pointers of derived publications\<close>

definition sec_derived_publication_is_validated ::
  "('x, 'r) pub_world \<Rightarrow> string \<Rightarrow> string option \<Rightarrow> bool" where
  "sec_derived_publication_is_validated w pub_id expected_product =
     (case dict_get (pw_derived w) pub_id of
        None \<Rightarrow> False
      | Some p \<Rightarrow> dp_state p = Validated \<and>
          (case expected_product of None \<Rightarrow> True | Some e \<Rightarrow> dp_product p = e))"

definition sec_derived_publication_as_of :: "('x, 'r) pub_world \<Rightarrow> string \<Rightarrow> date option" where
  "sec_derived_publication_as_of w pub_id =
     (case dict_get (pw_derived w) pub_id of None \<Rightarrow> None | Some p \<Rightarrow> dp_as_of p)"

text \<open>The current and the target data date, when the move would go backward.\<close>

definition derived_regression ::
  "('x, 'r) pub_world \<Rightarrow> string \<Rightarrow> string \<Rightarrow> (date \<times> date) option" where
  "derived_regression w product pub_id =
     (case dict_get (pw_pointers w) product of
        None \<Rightarrow> None
      | Some current \<Rightarrow>
          if current = pub_id then None
          else (case (sec_derived_publication_as_of w current, sec_derived_publication_as_of w pub_id) of
                  (Some c, Some t) \<Rightarrow> if t < c then Some (c, t) else None
                | _ \<Rightarrow> None))"

definition sec_set_current_derived_publication ::
  "string \<Rightarrow> string \<Rightarrow> bool \<Rightarrow> ('x, 'r) pub_world \<Rightarrow> string + ('x, 'r) pub_world" where
  "sec_set_current_derived_publication product pub_id allow w =
     (if \<not> sec_derived_publication_is_validated w pub_id (Some product) then
        Inl ''current pointer requires a validated publication for its product''
      else case (if allow then None else derived_regression w product pub_id) of
             Some (c, t) \<Rightarrow> Inl (''current pointer for '' @ product @ '' would regress from as_of '' @
               isoformat c @ '' to as_of '' @ isoformat t)
           | None \<Rightarrow>
               if list_ex (\<lambda>(q, i). q \<noteq> product \<and> i = pub_id) (pw_pointers w)
               then Inl ''duplicate key value violates unique constraint''
               else Inr (w\<lparr> pw_pointers := dict_set product pub_id (pw_pointers w) \<rparr>))"

subsection \<open>Mixed publications\<close>

definition PRODUCT :: string where "PRODUCT = ''mixed_quant_v1''"

text \<open>The CHECK of the table on \<open>status\<close> and \<open>activated_at\<close>.\<close>

definition lifecycle_ok :: "quant_publication \<Rightarrow> bool" where
  "lifecycle_ok q \<longleftrightarrow> (qp_status q = Active) = qp_activated q \<or> qp_status q = Superseded"

definition update_quant ::
  "(string \<Rightarrow> quant_publication \<Rightarrow> quant_publication) \<Rightarrow> ('x, 'r) pub_world \<Rightarrow>
   string + ('x, 'r) pub_world" where
  "update_quant f w =
     (let rows = map (\<lambda>(i, q). (i, f i q)) (pw_quant w)
      in if list_all (\<lambda>(i, q). lifecycle_ok q) rows then Inr (w\<lparr> pw_quant := rows \<rparr>)
         else Inl ''new row violates check constraint'')"

definition publication_id_for :: "(string \<Rightarrow> string) \<Rightarrow> string \<Rightarrow> date \<Rightarrow> string \<Rightarrow> string \<Rightarrow> string" where
  "publication_id_for uuid5 product as_of code_revision config_version =
     uuid5 (product @ ''|'' @ isoformat as_of @ ''|'' @ code_revision @ ''|'' @ config_version)"

definition same_build :: "string \<Rightarrow> date \<Rightarrow> string \<Rightarrow> string \<Rightarrow> quant_publication \<Rightarrow> bool" where
  "same_build product as_of code_revision config_version q \<longleftrightarrow> qp_product q = product \<and>
     qp_as_of q = as_of \<and> qp_code_revision q = code_revision \<and> qp_config_version q = config_version"

text \<open>The build's identity has at most one row, so the first match is the row fetched.\<close>

definition open_publication ::
  "(string \<Rightarrow> string) \<Rightarrow> string \<Rightarrow> date \<Rightarrow> string \<Rightarrow> string \<Rightarrow> ('x, 'r) pub_world \<Rightarrow>
   string + string \<times> ('x, 'r) pub_world" where
  "open_publication uuid5 product as_of code_revision config_version w =
     (let publication_id = publication_id_for uuid5 product as_of code_revision config_version
      in case find (\<lambda>(i, q). same_build product as_of code_revision config_version q) (pw_quant w) of
           Some (existing_id, q) \<Rightarrow>
             if qp_status q \<noteq> Building \<and> qp_status q \<noteq> Ready
             then Inl (''publication '' @ existing_id @ '' is '' @ quant_status_text (qp_status q) @
                         ''; cannot reopen a frozen build'')
             else bindE (update_quant (\<lambda>i r. if i = existing_id then r\<lparr> qp_status := Building \<rparr> else r) w)
                    (\<lambda>w'. Inr (existing_id, w'))
         | None \<Rightarrow>
             if publication_id \<in> set (dict_keys (pw_quant w)) then Inl ''duplicate key value violates unique constraint''
             else if product = [] \<or> code_revision = [] \<or> config_version = [] then Inl ''new row violates check constraint''
             else Inr (publication_id, w\<lparr> pw_quant := pw_quant w @ [(publication_id,
                  \<lparr> qp_product = product, qp_as_of = as_of, qp_code_revision = code_revision,
                    qp_config_version = config_version, qp_status = Building, qp_activated = False \<rparr>)] \<rparr>))"

definition mark_ready :: "string \<Rightarrow> ('x, 'r) pub_world \<Rightarrow> string + ('x, 'r) pub_world" where
  "mark_ready publication_id w =
     update_quant (\<lambda>i q. if i = publication_id \<and> (qp_status q = Building \<or> qp_status q = Ready)
                         then q\<lparr> qp_status := Ready \<rparr> else q) w"

text \<open>The data date of the active publication of the product, when it is another one.\<close>

definition quant_regression :: "('x, 'r) pub_world \<Rightarrow> string \<Rightarrow> string \<Rightarrow> date \<Rightarrow> date option" where
  "quant_regression w product pub_id as_of =
     (case dict_get (pw_active w) product of
        None \<Rightarrow> None
      | Some a \<Rightarrow>
          if a = pub_id then None
          else (case dict_get (pw_quant w) a of
                  None \<Rightarrow> None
                | Some q \<Rightarrow> if as_of < qp_as_of q then Some (qp_as_of q) else None))"

definition retire :: "string \<Rightarrow> string \<Rightarrow> string \<Rightarrow> quant_publication \<Rightarrow> quant_publication" where
  "retire product pub_id i q =
     (if qp_product q = product \<and> qp_status q = Active \<and> i \<noteq> pub_id
      then q\<lparr> qp_status := Superseded \<rparr> else q)"

definition activate :: "string \<Rightarrow> string \<Rightarrow> quant_publication \<Rightarrow> quant_publication" where
  "activate pub_id i q =
     (if i = pub_id \<and> qp_status q \<noteq> Active
      then q\<lparr> qp_status := Active, qp_activated := True \<rparr> else q)"

definition promote_quant_publication ::
  "string \<Rightarrow> string \<Rightarrow> bool \<Rightarrow> ('x, 'r) pub_world \<Rightarrow> string + ('x, 'r) pub_world" where
  "promote_quant_publication product pub_id allow w =
     (case dict_get (pw_quant w) pub_id of
        None \<Rightarrow> Inl (''publication '' @ pub_id @ '' is not a '' @ product @ '' publication'')
      | Some q \<Rightarrow>
          if qp_product q \<noteq> product then
            Inl (''publication '' @ pub_id @ '' is not a '' @ product @ '' publication'')
          else if qp_status q \<noteq> Ready \<and> qp_status q \<noteq> Active then
            Inl (''publication '' @ pub_id @ '' must be ready before promotion (is '' @
              quant_status_text (qp_status q) @ '')'')
          else (case (if allow then None else quant_regression w product pub_id (qp_as_of q)) of
                  Some a \<Rightarrow> Inl (''active pointer for '' @ product @ '' would regress from as_of '' @
                    isoformat a @ '' to as_of '' @ isoformat (qp_as_of q))
                | None \<Rightarrow>
                    bindE (update_quant (retire product pub_id) w) (\<lambda>w1.
                    bindE (update_quant (activate pub_id) w1) (\<lambda>w2.
                      if list_ex (\<lambda>(p, i). p \<noteq> product \<and> i = pub_id) (pw_active w2)
                      then Inl ''duplicate key value violates unique constraint''
                      else Inr (w2\<lparr> pw_active := dict_set product pub_id (pw_active w2) \<rparr>)))))"

subsection \<open>Reading and restoring the pointers\<close>

definition snapshot_pointers :: "('x, 'r) pub_world \<Rightarrow> (string, string) dict" where
  "snapshot_pointers w =
     dict_update
       (dict_update [] (if to_regclass w ''sec_derived_current_pointers'' then pw_pointers w else []))
       (if to_regclass w ''active_quant_publication_v1'' then pw_active w else [])"

definition restore_derived ::
  "string \<Rightarrow> string option \<Rightarrow> ('x, 'r) pub_world \<Rightarrow> string + ('x, 'r) pub_world" where
  "restore_derived product prior w =
     (if \<not> to_regclass w ''sec_derived_current_pointers'' then Inl ''relation does not exist''
      else case prior of
             Some p \<Rightarrow> sec_set_current_derived_publication product p True w
           | None \<Rightarrow> Inr (w\<lparr> pw_pointers := dict_pop product (pw_pointers w) \<rparr>))"

definition back_to_ready :: "(string \<Rightarrow> quant_publication \<Rightarrow> bool) \<Rightarrow> string \<Rightarrow> quant_publication \<Rightarrow> quant_publication" where
  "back_to_ready which i q =
     (if which i q then q\<lparr> qp_status := Ready, qp_activated := False \<rparr> else q)"

definition restore_mixed ::
  "string \<Rightarrow> string option \<Rightarrow> ('x, 'r) pub_world \<Rightarrow> string + ('x, 'r) pub_world" where
  "restore_mixed product prior w =
     (case prior of
        Some p \<Rightarrow>
          bindE (update_quant (back_to_ready (\<lambda>i q. i = p \<and> qp_status q \<noteq> Active)) w)
            (promote_quant_publication product p True)
      | None \<Rightarrow>
          bindE (update_quant (back_to_ready (\<lambda>i q. qp_product q = product \<and> qp_status q = Active)) w)
            (\<lambda>w1. Inr (w1\<lparr> pw_active := dict_pop product (pw_active w1) \<rparr>)))"

definition is_mixed :: "('x, 'r) pub_world \<Rightarrow> string \<Rightarrow> bool" where
  "is_mixed w product \<longleftrightarrow> to_regclass w ''quant_publication_v1'' \<and>
     list_ex (\<lambda>(i, q). qp_product q = product) (pw_quant w)"

definition restore_pointer ::
  "string \<Rightarrow> string option \<Rightarrow> ('x, 'r) pub_world \<Rightarrow> string + ('x, 'r) pub_world" where
  "restore_pointer product prior w =
     (if is_mixed w product then restore_mixed product prior w
      else restore_derived product prior w)"

subsection \<open>The well-formed world\<close>

text \<open>
  What every operation keeps. A current pointer is a validated publication of its product,
  an active pointer an active publication of its product, an active publication is the one
  its product points to, the two kinds of products are disjoint, and the pointers live in
  tables that exist.
\<close>

definition pointer_valid :: "('x, 'r) pub_world \<Rightarrow> string \<Rightarrow> string \<Rightarrow> bool" where
  "pointer_valid w product pub_id \<longleftrightarrow> sec_derived_publication_is_validated w pub_id (Some product)"

definition active_valid :: "('x, 'r) pub_world \<Rightarrow> string \<Rightarrow> string \<Rightarrow> bool" where
  "active_valid w product pub_id \<longleftrightarrow>
     (\<exists>q. dict_get (pw_quant w) pub_id = Some q \<and> qp_product q = product \<and> qp_status q = Active)"

definition quant_products :: "('x, 'r) pub_world \<Rightarrow> string set" where
  "quant_products w = (\<lambda>(i, q). qp_product q) ` set (pw_quant w)"

definition good_world :: "('x, 'r) pub_world \<Rightarrow> bool" where
  "good_world w \<longleftrightarrow>
     dict_ok (pw_derived w) \<and> dict_ok (pw_pointers w) \<and> dict_ok (pw_quant w) \<and> dict_ok (pw_active w) \<and>
     (\<forall>p i. dict_get (pw_pointers w) p = Some i \<longrightarrow> pointer_valid w p i \<and> p \<notin> quant_products w) \<and>
     (\<forall>p i. dict_get (pw_active w) p = Some i \<longrightarrow> active_valid w p i) \<and>
     (\<forall>i q. dict_get (pw_quant w) i = Some q \<longrightarrow> lifecycle_ok q \<and>
        (qp_status q = Active \<longrightarrow> dict_get (pw_active w) (qp_product q) = Some i)) \<and>
     (\<not> to_regclass w ''sec_derived_current_pointers'' \<longrightarrow> pw_pointers w = []) \<and>
     (\<not> to_regclass w ''active_quant_publication_v1'' \<longrightarrow> pw_active w = []) \<and>
     (\<not> to_regclass w ''quant_publication_v1'' \<longrightarrow> pw_quant w = [])"

lemma good_worldI:
  assumes "dict_ok (pw_derived w)" "dict_ok (pw_pointers w)" "dict_ok (pw_quant w)" "dict_ok (pw_active w)"
    and "\<And>p i. dict_get (pw_pointers w) p = Some i \<Longrightarrow> pointer_valid w p i \<and> p \<notin> quant_products w"
    and "\<And>p i. dict_get (pw_active w) p = Some i \<Longrightarrow> active_valid w p i"
    and "\<And>i q. dict_get (pw_quant w) i = Some q \<Longrightarrow> lifecycle_ok q \<and>
        (qp_status q = Active \<longrightarrow> dict_get (pw_active w) (qp_product q) = Some i)"
    and "\<not> to_regclass w ''sec_derived_current_pointers'' \<Longrightarrow> pw_pointers w = []"
    and "\<not> to_regclass w ''active_quant_publication_v1'' \<Longrightarrow> pw_active w = []"
    and "\<not> to_regclass w ''quant_publication_v1'' \<Longrightarrow> pw_quant w = []"
  shows "good_world w"
  unfolding good_world_def using assms by blast

lemma good_worldD:
  assumes "good_world w"
  shows "dict_ok (pw_derived w)" "dict_ok (pw_pointers w)" "dict_ok (pw_quant w)" "dict_ok (pw_active w)"
    and "dict_get (pw_pointers w) p = Some i \<Longrightarrow> pointer_valid w p i"
    and "dict_get (pw_pointers w) p = Some i \<Longrightarrow> p \<notin> quant_products w"
    and "dict_get (pw_active w) p = Some i \<Longrightarrow> active_valid w p i"
    and "dict_get (pw_quant w) i = Some q \<Longrightarrow> lifecycle_ok q"
    and "dict_get (pw_quant w) i = Some q \<Longrightarrow> qp_status q = Active \<Longrightarrow> dict_get (pw_active w) (qp_product q) = Some i"
    and "\<not> to_regclass w ''sec_derived_current_pointers'' \<Longrightarrow> pw_pointers w = []"
    and "\<not> to_regclass w ''active_quant_publication_v1'' \<Longrightarrow> pw_active w = []"
    and "\<not> to_regclass w ''quant_publication_v1'' \<Longrightarrow> pw_quant w = []"
  using assms unfolding good_world_def by blast+

lemma pub_world_simps [simp]:
  "to_regclass (w\<lparr> pw_quant := a \<rparr>) = to_regclass w" "to_regclass (w\<lparr> pw_active := b \<rparr>) = to_regclass w"
  "to_regclass (w\<lparr> pw_pointers := b \<rparr>) = to_regclass w" "to_regclass (w\<lparr> pw_derived := c \<rparr>) = to_regclass w"
  "pointer_valid (w\<lparr> pw_quant := a \<rparr>) = pointer_valid w" "pointer_valid (w\<lparr> pw_active := b \<rparr>) = pointer_valid w"
  "pointer_valid (w\<lparr> pw_pointers := b \<rparr>) = pointer_valid w"
  "active_valid (w\<lparr> pw_active := b \<rparr>) = active_valid w" "active_valid (w\<lparr> pw_pointers := b \<rparr>) = active_valid w"
  "active_valid (w\<lparr> pw_derived := c \<rparr>) = active_valid w"
  "quant_products (w\<lparr> pw_active := b \<rparr>) = quant_products w" "quant_products (w\<lparr> pw_pointers := b \<rparr>) = quant_products w"
  "quant_products (w\<lparr> pw_derived := c \<rparr>) = quant_products w"
  by (simp_all add: to_regclass_def pointer_valid_def active_valid_def quant_products_def
      sec_derived_publication_is_validated_def fun_eq_iff)

lemma pub_world_frame [simp]:
  "to_regclass (w\<lparr> pw_cache := c \<rparr>) = to_regclass w" "to_regclass (w\<lparr> pw_other := x \<rparr>) = to_regclass w"
  "pointer_valid (w\<lparr> pw_cache := c \<rparr>) = pointer_valid w" "pointer_valid (w\<lparr> pw_other := x \<rparr>) = pointer_valid w"
  "active_valid (w\<lparr> pw_cache := c \<rparr>) = active_valid w" "active_valid (w\<lparr> pw_other := x \<rparr>) = active_valid w"
  "quant_products (w\<lparr> pw_cache := c \<rparr>) = quant_products w" "quant_products (w\<lparr> pw_other := x \<rparr>) = quant_products w"
  by (simp_all add: to_regclass_def pointer_valid_def active_valid_def quant_products_def
      sec_derived_publication_is_validated_def fun_eq_iff)

lemma good_world_frame: "good_world (w\<lparr> pw_cache := c, pw_other := x \<rparr>) = good_world w"
  unfolding good_world_def by simp

lemma get_map_rows: "dict_get (map (\<lambda>(i, q). (i, f i q)) d) i = map_option (f i) (dict_get d i)"
  by (induction d) auto

lemma keys_map_rows [simp]: "map fst (map (\<lambda>(i, q). (i, f i q)) d) = map fst d"
  "map (fst \<circ> (\<lambda>(i, q). (i, f i q))) d = map fst d"
  by (induction d) auto

lemma update_quant_Inr:
  "update_quant f w = Inr w' \<longleftrightarrow>
     w' = w\<lparr> pw_quant := map (\<lambda>(i, q). (i, f i q)) (pw_quant w) \<rparr> \<and>
     (\<forall>(i, q) \<in> set (pw_quant w). lifecycle_ok (f i q))"
  by (auto simp: update_quant_def Let_def list_all_iff)

lemma update_quant_total:
  assumes "\<And>i q. (i, q) \<in> set (pw_quant w) \<Longrightarrow> lifecycle_ok (f i q)"
  shows "update_quant f w = Inr (w\<lparr> pw_quant := map (\<lambda>(i, q). (i, f i q)) (pw_quant w) \<rparr>)"
  using assms by (auto simp: update_quant_Inr)

lemma quant_products_map:
  assumes "\<And>i q. qp_product (f i q) = qp_product q"
  shows "quant_products (w\<lparr> pw_quant := map (\<lambda>(i, q). (i, f i q)) (pw_quant w) \<rparr>) = quant_products w"
  by (simp add: quant_products_def image_image case_prod_beta assms)

lemma row_functions [simp]:
  "qp_product (retire p k i q) = qp_product q" "qp_product (activate k i q) = qp_product q"
  "qp_product (back_to_ready P i q) = qp_product q"
  "qp_as_of (retire p k i q) = qp_as_of q" "qp_as_of (activate k i q) = qp_as_of q"
  "qp_as_of (back_to_ready P i q) = qp_as_of q"
  by (simp_all add: retire_def activate_def back_to_ready_def)

lemma row_lifecycle:
  assumes "lifecycle_ok q"
  shows "lifecycle_ok (retire p k i q)" "lifecycle_ok (activate k i q)" "lifecycle_ok (back_to_ready P i q)"
  using assms by (auto simp: lifecycle_ok_def retire_def activate_def back_to_ready_def)

lemma good_world_row:
  "good_world w \<Longrightarrow> (i, q) \<in> set (pw_quant w) \<Longrightarrow> dict_get (pw_quant w) i = Some q \<and> lifecycle_ok q"
  unfolding good_world_def by (metis dict_in_get)

lemma quant_product_iff:
  assumes "good_world w"
  shows "p \<in> quant_products w \<longleftrightarrow> (\<exists>i q. dict_get (pw_quant w) i = Some q \<and> qp_product q = p)"
  using good_world_row [OF assms] by (force simp: quant_products_def dest: dict_get_in)

lemma is_mixed_iff:
  assumes "good_world w"
  shows "is_mixed w p \<longleftrightarrow> p \<in> quant_products w"
proof (cases "to_regclass w ''quant_publication_v1''")
  case True
  then show ?thesis by (force simp: is_mixed_def quant_products_def list_ex_iff)
next
  case False
  then have "pw_quant w = []" using assms by (simp add: good_world_def)
  then show ?thesis using False by (simp add: is_mixed_def quant_products_def)
qed

text \<open>The pointers of a well-formed world.\<close>

lemma get_pointers_good:
  assumes "good_world w"
  shows "dict_get (snapshot_pointers w) p =
    (case dict_get (pw_active w) p of Some i \<Rightarrow> Some i | None \<Rightarrow> dict_get (pw_pointers w) p)"
proof -
  have r: "dict_get (rev d) = dict_get d" if "dict_ok d" for d :: "(string, string) dict"
    using that by (subst map_of_inject_set) (simp_all only: rev_map [symmetric] distinct_rev set_rev)
  have ok: "dict_ok (pw_pointers w)" "dict_ok (pw_active w)"
    and ex: "\<not> to_regclass w ''sec_derived_current_pointers'' \<Longrightarrow> pw_pointers w = []"
    "\<not> to_regclass w ''active_quant_publication_v1'' \<Longrightarrow> pw_active w = []"
    using assms by (simp_all add: good_world_def)
  have "(if to_regclass w ''sec_derived_current_pointers'' then pw_pointers w else []) = pw_pointers w"
    "(if to_regclass w ''active_quant_publication_v1'' then pw_active w else []) = pw_active w"
    using ex by auto
  then show ?thesis
    by (simp only: snapshot_pointers_def dict_get_update r [OF ok(1)] r [OF ok(2)])
      (simp add: map_add_def)
qed

lemma good_active_valid: "good_world w \<Longrightarrow> dict_get (pw_active w) p = Some i \<Longrightarrow> active_valid w p i"
  unfolding good_world_def by blast

lemma good_active_mixed:
  assumes "good_world w" "dict_get (pw_active w) p = Some i"
  shows "p \<in> quant_products w"
  using good_active_valid [OF assms] quant_product_iff [OF assms(1)] by (auto simp: active_valid_def)

lemma good_pointer_not_mixed: "good_world w \<Longrightarrow> dict_get (pw_pointers w) p = Some i \<Longrightarrow> p \<notin> quant_products w"
  unfolding good_world_def by blast

lemma good_pointer_regclass:
  "good_world w \<Longrightarrow> dict_get (pw_pointers w) p = Some i \<Longrightarrow> to_regclass w ''sec_derived_current_pointers''"
  unfolding good_world_def by fastforce

subsection \<open>Promotion keeps the world well formed\<close>

lemma good_set_pointer:
  assumes "good_world w" "pointer_valid w p i" "p \<notin> quant_products w"
    "to_regclass w ''sec_derived_current_pointers''"
  shows "good_world (w\<lparr> pw_pointers := dict_set p i (pw_pointers w) \<rparr>)"
  using assms by (auto simp: good_world_def)

lemma good_pop_pointer: "good_world w \<Longrightarrow> good_world (w\<lparr> pw_pointers := dict_pop p (pw_pointers w) \<rparr>)"
  by (auto simp: good_world_def dict_pop_def [of p "[]"] intro: dict_ok_pop)

text \<open>Two products never share a publication, so the UNIQUE constraint never fires.\<close>

lemma pointer_not_shared:
  assumes "good_world w" "pointer_valid w p i"
  shows "\<not> list_ex (\<lambda>(q, j). q \<noteq> p \<and> j = i) (pw_pointers w)"
proof
  assume "list_ex (\<lambda>(q, j). q \<noteq> p \<and> j = i) (pw_pointers w)"
  then obtain q where q: "(q, i) \<in> set (pw_pointers w)" "q \<noteq> p" by (auto simp: list_ex_iff)
  then have "pointer_valid w q i" using assms(1) unfolding good_world_def by (metis dict_in_get)
  then show False using assms(2) q(2)
    by (auto simp: pointer_valid_def sec_derived_publication_is_validated_def split: option.splits)
qed

lemma set_current_Inr:
  assumes "sec_set_current_derived_publication p i allow w = Inr w'"
  shows "w' = w\<lparr> pw_pointers := dict_set p i (pw_pointers w) \<rparr>" "pointer_valid w p i"
    "\<not> allow \<Longrightarrow> derived_regression w p i = None"
  using assms
  by (auto simp: sec_set_current_derived_publication_def pointer_valid_def split: if_splits option.splits)

lemma set_current_total:
  assumes "good_world w" "pointer_valid w p i"
  shows "sec_set_current_derived_publication p i True w
    = Inr (w\<lparr> pw_pointers := dict_set p i (pw_pointers w) \<rparr>)"
  using assms pointer_not_shared [OF assms]
  by (simp add: sec_set_current_derived_publication_def pointer_valid_def)

text \<open>What a promotion does to the mixed publications.\<close>

definition promoted_rows :: "string \<Rightarrow> string \<Rightarrow> (string, quant_publication) dict \<Rightarrow> (string, quant_publication) dict" where
  "promoted_rows p k d = map (\<lambda>(i, q). (i, activate k i (retire p k i q))) d"

lemma promoted_products:
  "quant_products (w\<lparr> pw_quant := promoted_rows p k (pw_quant w), pw_active := a \<rparr>) = quant_products w"
  by (simp add: promoted_rows_def quant_products_def image_image case_prod_beta)

lemma comp_rows: "(\<lambda>(i, q). (i, f i q)) \<circ> (\<lambda>(i, q). (i, g i q)) = (\<lambda>(i, q). (i, f i (g i q)))"
  by auto

lemma promote_Inr:
  assumes "promote_quant_publication p k allow w = Inr w'"
  shows "\<exists>q. dict_get (pw_quant w) k = Some q \<and> qp_product q = p \<and> (qp_status q = Ready \<or> qp_status q = Active) \<and>
    (\<not> allow \<longrightarrow> quant_regression w p k (qp_as_of q) = None) \<and>
    w' = w\<lparr> pw_quant := promoted_rows p k (pw_quant w), pw_active := dict_set p k (pw_active w) \<rparr>"
  using assms
  by (auto simp: promote_quant_publication_def bindE_Inr_iff update_quant_Inr promoted_rows_def comp_rows
      split: if_splits option.splits)

lemma good_promoted:
  assumes "good_world w" "dict_get (pw_quant w) k = Some q" "qp_product q = p"
    "to_regclass w ''active_quant_publication_v1''" "to_regclass w ''quant_publication_v1''"
  shows "good_world (w\<lparr> pw_quant := promoted_rows p k (pw_quant w), pw_active := dict_set p k (pw_active w) \<rparr>)"
    (is "good_world ?w")
proof -
  have g: "dict_get (promoted_rows p k (pw_quant w)) i = map_option (\<lambda>q. activate k i (retire p k i q)) (dict_get (pw_quant w) i)" for i
    by (simp add: promoted_rows_def get_map_rows)
  have prods: "quant_products ?w = quant_products w"
    using quant_products_map [of "\<lambda>i q. activate k i (retire p k i q)" w]
    by (simp add: promoted_rows_def quant_products_def)
  have ok: "dict_ok (pw_quant ?w)" using assms(1) by (simp add: promoted_rows_def good_world_def)
  have "active_valid ?w r i" if a: "dict_get (pw_active ?w) r = Some i" for r i
  proof (cases "r = p")
    case True
    have "dict_get (pw_quant ?w) k = Some (activate k k (retire p k k q))" by (simp add: g assms(2))
    moreover have "i = k" using a True by simp
    ultimately show ?thesis using True assms(3) by (simp add: active_valid_def activate_def retire_def)
  next
    case False
    then have "active_valid w r i" using a assms(1) by (simp add: good_world_def)
    then show ?thesis using False
      by (auto simp: active_valid_def g activate_def retire_def)
  qed
  moreover have "lifecycle_ok x \<and> (qp_status x = Active \<longrightarrow> dict_get (pw_active ?w) (qp_product x) = Some i)"
    if x: "dict_get (pw_quant ?w) i = Some x" for i x
  proof -
    obtain y where y: "dict_get (pw_quant w) i = Some y" "x = activate k i (retire p k i y)"
      using x by (auto simp: g)
    have l: "lifecycle_ok y" "qp_status y = Active \<longrightarrow> dict_get (pw_active w) (qp_product y) = Some i"
      using assms(1) y(1) unfolding good_world_def by blast+
    have "qp_status x = Active \<longrightarrow> dict_get (pw_active ?w) (qp_product x) = Some i"
    proof (cases "i = k")
      case True
      then show ?thesis using y assms(2,3) by simp
    next
      case False
      then show ?thesis using l(2) y(2) by (auto simp: activate_def retire_def)
    qed
    then show ?thesis using y(2) l(1) row_lifecycle by simp
  qed
  moreover have "pointer_valid ?w r i \<and> r \<notin> quant_products ?w" if "dict_get (pw_pointers ?w) r = Some i" for r i
    using that assms(1) prods by (simp add: good_world_def)
  ultimately show ?thesis
    using assms ok unfolding good_world_def
    by (simp add: to_regclass_def)
qed

lemma promote_good:
  assumes "good_world w" "promote_quant_publication p k allow w = Inr w'"
    "to_regclass w ''active_quant_publication_v1''"
  shows "good_world w'"
proof -
  have "to_regclass w ''quant_publication_v1''"
    using assms(1) promote_Inr [OF assms(2)] unfolding good_world_def by fastforce
  then show ?thesis using promote_Inr [OF assms(2)] good_promoted [OF assms(1)] assms(3) by blast
qed

lemma set_current_good:
  assumes "good_world w" "sec_set_current_derived_publication p i allow w = Inr w'"
    "p \<notin> quant_products w" "to_regclass w ''sec_derived_current_pointers''"
  shows "good_world w'"
  using set_current_Inr [OF assms(2)] good_set_pointer assms by blast

subsection \<open>Restoring a pointer\<close>

definition restored_rows :: "(string \<Rightarrow> quant_publication \<Rightarrow> bool) \<Rightarrow> ('x, 'r) pub_world \<Rightarrow> ('x, 'r) pub_world" where
  "restored_rows which w = w\<lparr> pw_quant := map (\<lambda>(i, q). (i, back_to_ready which i q)) (pw_quant w) \<rparr>"

lemma restored_rows_update:
  assumes "good_world w"
  shows "update_quant (back_to_ready which) w = Inr (restored_rows which w)"
  using good_world_row [OF assms] row_lifecycle
  by (auto simp: restored_rows_def intro: update_quant_total)

lemma restored_rows_fields [simp]:
  "pw_active (restored_rows P w) = pw_active w" "pw_pointers (restored_rows P w) = pw_pointers w"
  "pw_derived (restored_rows P w) = pw_derived w" "to_regclass (restored_rows P w) = to_regclass w"
  "quant_products (restored_rows P w) = quant_products w"
  "pointer_valid (restored_rows P w) = pointer_valid w"
  "dict_get (pw_quant (restored_rows P w)) i = map_option (back_to_ready P i) (dict_get (pw_quant w) i)"
  by (simp_all add: restored_rows_def quant_products_map get_map_rows)

text \<open>Making a publication that is not active writable again.\<close>

lemma good_reopened:
  assumes "good_world w"
  shows "good_world (restored_rows (\<lambda>i q. i = k \<and> qp_status q \<noteq> Active) w)" (is "good_world ?w")
proof -
  have "active_valid ?w r i" if "dict_get (pw_active w) r = Some i" for r i
    using that assms unfolding good_world_def active_valid_def by (fastforce simp: back_to_ready_def)
  moreover have "lifecycle_ok x \<and> (qp_status x = Active \<longrightarrow> dict_get (pw_active w) (qp_product x) = Some i)"
    if x: "dict_get (pw_quant ?w) i = Some x" for i x
  proof -
    obtain y where y: "dict_get (pw_quant w) i = Some y" "x = back_to_ready (\<lambda>i q. i = k \<and> qp_status q \<noteq> Active) i y"
      using x by auto
    have "lifecycle_ok y" "qp_status y = Active \<longrightarrow> dict_get (pw_active w) (qp_product y) = Some i"
      using assms y(1) unfolding good_world_def by blast+
    then show ?thesis using y(2) row_lifecycle by (auto simp: back_to_ready_def lifecycle_ok_def)
  qed
  moreover have "dict_ok (pw_quant ?w)" "pw_quant ?w = [] \<longleftrightarrow> pw_quant w = []"
    using assms by (simp_all add: restored_rows_def good_world_def)
  ultimately show ?thesis
    using assms unfolding good_world_def by simp
qed

text \<open>Dropping the active pointer of a product and making its publication writable again.\<close>

lemma good_deactivated:
  assumes "good_world w"
  shows "good_world ((restored_rows (\<lambda>i q. qp_product q = p \<and> qp_status q = Active) w)
    \<lparr> pw_active := dict_pop p (pw_active w) \<rparr>)" (is "good_world (?u\<lparr> pw_active := _ \<rparr>)")
proof (rule good_worldI)
  note d = good_worldD [OF assms]
  have q: "dict_ok (pw_quant ?u)" "pw_quant ?u = [] \<longleftrightarrow> pw_quant w = []"
    using d(3) by (simp_all add: restored_rows_def)
  show "dict_ok (pw_quant (?u\<lparr> pw_active := dict_pop p (pw_active w) \<rparr>))" using q(1) by simp
  show "active_valid (?u\<lparr> pw_active := dict_pop p (pw_active w) \<rparr>) r i"
    if "dict_get (pw_active (?u\<lparr> pw_active := dict_pop p (pw_active w) \<rparr>)) r = Some i" for r i
  proof -
    have "dict_get (pw_active w) r = Some i" "r \<noteq> p" using that by (auto split: if_splits)
    then show ?thesis using d(7) by (fastforce simp: active_valid_def back_to_ready_def)
  qed
  show "lifecycle_ok x \<and> (qp_status x = Active \<longrightarrow>
      dict_get (pw_active (?u\<lparr> pw_active := dict_pop p (pw_active w) \<rparr>)) (qp_product x) = Some i)"
    if x: "dict_get (pw_quant (?u\<lparr> pw_active := dict_pop p (pw_active w) \<rparr>)) i = Some x" for i x
  proof -
    obtain y where y: "dict_get (pw_quant w) i = Some y"
      "x = back_to_ready (\<lambda>i q. qp_product q = p \<and> qp_status q = Active) i y"
      using x by auto
    show ?thesis using y(2) d(8,9) [OF y(1)] by (auto simp: back_to_ready_def lifecycle_ok_def)
  qed
  show "pw_quant (?u\<lparr> pw_active := dict_pop p (pw_active w) \<rparr>) = []"
    if "\<not> to_regclass (?u\<lparr> pw_active := dict_pop p (pw_active w) \<rparr>) ''quant_publication_v1''"
    using that d(12) q(2) by simp
qed (use good_worldD [OF assms] in \<open>auto simp: dict_pop_def intro: distinct_map_filter\<close>)

lemma mixed_regclass:
  assumes "good_world w" "p \<in> quant_products w"
  shows "to_regclass w ''quant_publication_v1''"
  using assms unfolding good_world_def quant_products_def by fastforce

text \<open>
  The tables of the mixed publications are created together. A restore of a pointer writes
  exactly that pointer and leaves a well-formed world.
\<close>

definition schema_complete :: "('x, 'r) pub_world \<Rightarrow> bool" where
  "schema_complete w \<longleftrightarrow>
     (to_regclass w ''quant_publication_v1'' \<longleftrightarrow> to_regclass w ''active_quant_publication_v1'')"

definition sound_world :: "('x, 'r) pub_world \<Rightarrow> bool" where
  "sound_world w \<longleftrightarrow> good_world w \<and> schema_complete w"

lemma restore_mixed_effect:
  assumes "good_world w" "schema_complete w" "p \<in> quant_products w" "restore_mixed p v w = Inr w'"
  shows "good_world w' \<and> pw_pointers w' = pw_pointers w \<and> to_regclass w' = to_regclass w \<and>
    dict_get (pw_active w') = (dict_get (pw_active w))(p := v)"
proof (cases v)
  case (Some k)
  let ?u = "restored_rows (\<lambda>i q. i = k \<and> qp_status q \<noteq> Active) w"
  have reg: "to_regclass ?u ''active_quant_publication_v1''"
    using assms(2) mixed_regclass [OF assms(1,3)] by (simp add: schema_complete_def)
  have pr: "promote_quant_publication p k True ?u = Inr w'"
    using assms(4) Some by (simp add: restore_mixed_def restored_rows_update [OF assms(1)])
  have "good_world w'" using promote_good [OF good_reopened [OF assms(1)] pr reg] .
  then show ?thesis using promote_Inr [OF pr] Some by auto
next
  case None
  then show ?thesis
    using assms(4) good_deactivated [OF assms(1), of p]
    by (auto simp: restore_mixed_def restored_rows_update [OF assms(1)])
qed

lemma restore_derived_effect:
  assumes "good_world w" "p \<notin> quant_products w" "restore_derived p v w = Inr w'"
  shows "good_world w' \<and> pw_active w' = pw_active w \<and> to_regclass w' = to_regclass w \<and>
    dict_get (pw_pointers w') = (dict_get (pw_pointers w))(p := v)"
proof (cases v)
  case (Some k)
  then have sc: "sec_set_current_derived_publication p k True w = Inr w'"
    and reg: "to_regclass w ''sec_derived_current_pointers''"
    using assms(3) by (auto simp: restore_derived_def split: if_splits)
  have "good_world w'" using set_current_good [OF assms(1) sc assms(2) reg] .
  then show ?thesis using set_current_Inr(1) [OF sc] Some by auto
next
  case None
  then show ?thesis
    using assms(3) good_pop_pointer [OF assms(1)] by (auto simp: restore_derived_def split: if_splits)
qed

lemma restore_pointer_effect:
  assumes "good_world w" "schema_complete w" "restore_pointer p v w = Inr w'"
  shows "good_world w' \<and> to_regclass w' = to_regclass w \<and>
    dict_get (snapshot_pointers w') = (dict_get (snapshot_pointers w))(p := v)"
proof (cases "p \<in> quant_products w")
  case True
  then have "restore_mixed p v w = Inr w'"
    using assms(3) is_mixed_iff [OF assms(1)] by (simp add: restore_pointer_def)
  note r = restore_mixed_effect [OF assms(1,2) True this]
  have "dict_get (pw_pointers w) p = None"
    using True good_pointer_not_mixed [OF assms(1)] by fastforce
  then show ?thesis
    using r by (auto simp: get_pointers_good assms(1) fun_eq_iff split: option.split)
next
  case False
  then have "restore_derived p v w = Inr w'"
    using assms(3) is_mixed_iff [OF assms(1)] by (simp add: restore_pointer_def)
  note r = restore_derived_effect [OF assms(1) False this]
  have "dict_get (pw_active w) p = None"
    using False good_active_mixed [OF assms(1)] by fastforce
  then show ?thesis
    using r by (auto simp: get_pointers_good assms(1) fun_eq_iff split: option.split)
qed

lemma snapshot_pointers_ok: "dict_ok (snapshot_pointers w)"
  unfolding snapshot_pointers_def by (intro dict_ok_update) simp

interpretation chain_pointers: pointer_store snapshot_pointers restore_pointer sound_world
proof
  show "dict_ok (snapshot_pointers w)" for w :: "('x, 'r) pub_world" by (rule snapshot_pointers_ok)
  fix w w' :: "('x, 'r) pub_world" and p v
  assume w: "sound_world w" "restore_pointer p v w = Inr w'"
  note e = restore_pointer_effect [OF w(1) [unfolded sound_world_def, THEN conjunct1]
      w(1) [unfolded sound_world_def, THEN conjunct2] w(2)]
  show "dict_get (snapshot_pointers w') = (dict_get (snapshot_pointers w))(p := v)" using e by blast
  show "sound_world w'" using e w(1) by (simp add: sound_world_def schema_complete_def)
qed

subsection \<open>Every pre-run pointer can be restored\<close>

definition restorable_pointer :: "('x, 'r) pub_world \<Rightarrow> string \<Rightarrow> string option \<Rightarrow> bool" where
  "restorable_pointer w p v \<longleftrightarrow>
     (if p \<in> quant_products w
      then (case v of None \<Rightarrow> True
            | Some k \<Rightarrow> \<exists>q. dict_get (pw_quant w) k = Some q \<and> qp_product q = p)
      else to_regclass w ''sec_derived_current_pointers'' \<and>
           (case v of None \<Rightarrow> True | Some k \<Rightarrow> pointer_valid w p k))"

lemma active_not_shared:
  assumes "good_world w" "dict_get (pw_quant w) k = Some q" "qp_product q = p"
  shows "\<not> list_ex (\<lambda>(r, i). r \<noteq> p \<and> i = k) (pw_active w)"
proof
  assume "list_ex (\<lambda>(r, i). r \<noteq> p \<and> i = k) (pw_active w)"
  then obtain r where r: "(r, k) \<in> set (pw_active w)" "r \<noteq> p" by (auto simp: list_ex_iff)
  then have "dict_get (pw_active w) r = Some k" using good_worldD(4) [OF assms(1)] by simp
  from good_active_valid [OF assms(1) this] show False using assms(2,3) r(2) by (auto simp: active_valid_def)
qed

lemma promote_total:
  assumes "good_world w" "dict_get (pw_quant w) k = Some q" "qp_product q = p"
    "qp_status q = Ready \<or> qp_status q = Active"
  shows "\<exists>w'. promote_quant_publication p k True w = Inr w'"
proof -
  let ?w1 = "w\<lparr> pw_quant := map (\<lambda>(i, q). (i, retire p k i q)) (pw_quant w) \<rparr>"
  let ?w2 = "?w1\<lparr> pw_quant := map (\<lambda>(i, q). (i, activate k i q)) (pw_quant ?w1) \<rparr>"
  have ok: "(i, x) \<in> set (pw_quant w) \<Longrightarrow> lifecycle_ok x" for i x
    using good_world_row [OF assms(1)] by blast
  have u1: "update_quant (retire p k) w = Inr ?w1"
    using ok row_lifecycle by (intro update_quant_total) blast
  have "lifecycle_ok (activate k i x)" if "(i, x) \<in> set (pw_quant ?w1)" for i x
    using that ok row_lifecycle by auto
  then have u2: "update_quant (activate k) ?w1 = Inr ?w2" by (rule update_quant_total)
  have "\<not> list_ex (\<lambda>(r, i). r \<noteq> p \<and> i = k) (pw_active ?w2)"
    using active_not_shared [OF assms(1-3)] by simp
  moreover have "\<not> (qp_status q \<noteq> Ready \<and> qp_status q \<noteq> Active)" using assms(4) by blast
  ultimately show ?thesis
    unfolding promote_quant_publication_def assms(2) option.case u1 bindE_simps u2
    using assms(3) by simp
qed

lemma restore_pointer_total:
  assumes "sound_world w" "restorable_pointer w p v"
  shows "\<exists>w'. restore_pointer p v w = Inr w'"
proof -
  have g: "good_world w" using assms(1) by (simp add: sound_world_def)
  show ?thesis
  proof (cases "p \<in> quant_products w")
    case True
    then have m: "restore_pointer p v w = restore_mixed p v w"
      using is_mixed_iff [OF g] by (simp add: restore_pointer_def)
    show ?thesis
    proof (cases v)
      case None
      then show ?thesis unfolding m by (simp add: restore_mixed_def restored_rows_update [OF g])
    next
      case (Some k)
      then obtain q where q: "dict_get (pw_quant w) k = Some q" "qp_product q = p"
        using assms(2) True by (auto simp: restorable_pointer_def)
      let ?P = "\<lambda>i q. i = k \<and> qp_status q \<noteq> Active"
      have "\<exists>w'. promote_quant_publication p k True (restored_rows ?P w) = Inr w'"
        using q by (intro promote_total [OF good_reopened [OF g], where q = "back_to_ready ?P k q"])
          (auto simp: back_to_ready_def)
      then show ?thesis unfolding m using Some by (simp add: restore_mixed_def restored_rows_update [OF g])
    qed
  next
    case False
    then have "restore_pointer p v w = restore_derived p v w"
      using is_mixed_iff [OF g] by (simp add: restore_pointer_def)
    then show ?thesis
      using assms(2) False set_current_total [OF g]
      by (auto simp: restorable_pointer_def restore_derived_def split: option.splits)
  qed
qed

text \<open>A restore changes the rows of the mixed publications only, and loses none.\<close>

lemma restore_pointer_rows:
  assumes "sound_world w" "restore_pointer p v w = Inr w'"
  shows "pw_derived w' = pw_derived w" "quant_products w' = quant_products w"
    and "pw_relations w' = pw_relations w"
    and "dict_get (pw_quant w) i = Some r \<Longrightarrow> \<exists>r'. dict_get (pw_quant w') i = Some r' \<and>
      qp_product r' = qp_product r \<and> qp_as_of r' = qp_as_of r"
proof -
  have g: "good_world w" using assms(1) by (simp add: sound_world_def)
  have "\<exists>f. (\<forall>i r. qp_product (f i r) = qp_product r \<and> qp_as_of (f i r) = qp_as_of r) \<and> pw_quant w' = map (\<lambda>(i, r). (i, f i r)) (pw_quant w) \<and>
      pw_derived w' = pw_derived w \<and> pw_relations w' = pw_relations w"
  proof (cases "p \<in> quant_products w")
    case True
    then have m: "restore_mixed p v w = Inr w'"
      using assms(2) is_mixed_iff [OF g] by (simp add: restore_pointer_def)
    show ?thesis
    proof (cases v)
      case None
      then show ?thesis using m
        by (auto simp: restore_mixed_def restored_rows_update [OF g] restored_rows_def
            intro!: exI [of _ "back_to_ready (\<lambda>i q. qp_product q = p \<and> qp_status q = Active)"])
    next
      case (Some k)
      let ?P = "\<lambda>i q. i = k \<and> qp_status q \<noteq> Active"
      have "promote_quant_publication p k True (restored_rows ?P w) = Inr w'"
        using m Some by (simp add: restore_mixed_def restored_rows_update [OF g])
      from promote_Inr [OF this] show ?thesis
        by (auto simp: restored_rows_def promoted_rows_def comp_rows
            intro!: exI [of _ "\<lambda>i r. activate k i (retire p k i (back_to_ready ?P i r))"])
    qed
  next
    case False
    then have "restore_derived p v w = Inr w'"
      using assms(2) is_mixed_iff [OF g] by (simp add: restore_pointer_def)
    then have "pw_quant w' = pw_quant w \<and> pw_derived w' = pw_derived w \<and> pw_relations w' = pw_relations w"
      by (auto simp: restore_derived_def dest: set_current_Inr(1) split: if_splits option.splits)
    then show ?thesis by (intro exI [of _ "\<lambda>i r. r"]) (simp add: case_prod_beta)
  qed
  then obtain f where f: "\<And>i r. qp_product (f i r) = qp_product r" "\<And>i r. qp_as_of (f i r) = qp_as_of r"
    "pw_quant w' = map (\<lambda>(i, r). (i, f i r)) (pw_quant w)" "pw_derived w' = pw_derived w"
    "pw_relations w' = pw_relations w" by blast
  show "quant_products w' = quant_products w"
    by (simp add: quant_products_def f(3) image_image case_prod_beta f(1))
  show "\<exists>r'. dict_get (pw_quant w') i = Some r' \<and> qp_product r' = qp_product r \<and> qp_as_of r' = qp_as_of r"
    if "dict_get (pw_quant w) i = Some r" using that by (simp add: f(3) get_map_rows f(1,2))
  show "pw_derived w' = pw_derived w" "pw_relations w' = pw_relations w" by (rule f)+
qed

lemma restore_pointer_keeps:
  assumes "sound_world w" "restore_pointer p v w = Inr w'" "restorable_pointer w q u"
  shows "restorable_pointer w' q u"
proof -
  note r = restore_pointer_rows [OF assms(1,2)]
  have "pointer_valid w' q k = pointer_valid w q k" for k
    by (simp add: pointer_valid_def sec_derived_publication_is_validated_def r(1))
  then show ?thesis
    using assms(3) r(4)
    by (fastforce simp: restorable_pointer_def to_regclass_def r(2,3) split: if_splits option.splits)
qed

interpretation chain_restore:
  complete_pointer_store snapshot_pointers restore_pointer sound_world restorable_pointer
proof
  fix w w' :: "('x, 'r) pub_world" and p i v q u
  show "\<exists>w'. restore_pointer p v w = Inr w'" if "sound_world w" "restorable_pointer w p v"
    using that by (rule restore_pointer_total)
  show "restorable_pointer w' q u"
    if "sound_world w" "restore_pointer p v w = Inr w'" "restorable_pointer w q u"
    using that by (rule restore_pointer_keeps)
  assume w: "sound_world w" "dict_get (snapshot_pointers w) p = Some i"
  then have g: "good_world w" by (simp add: sound_world_def)
  have "(\<exists>q. dict_get (pw_quant w) i = Some q \<and> qp_product q = p) \<and> p \<in> quant_products w \<or>
      pointer_valid w p i \<and> p \<notin> quant_products w \<and> to_regclass w ''sec_derived_current_pointers''"
  proof (cases "dict_get (pw_active w) p")
    case (Some j)
    then show ?thesis
      using w(2) good_active_valid [OF g Some] good_active_mixed [OF g Some]
      by (auto simp: get_pointers_good g active_valid_def)
  next
    case None
    then have "dict_get (pw_pointers w) p = Some i" using w(2) by (simp add: get_pointers_good g)
    then show ?thesis
      using good_worldD(5,6) [OF g] good_pointer_regclass [OF g] by blast
  qed
  then show "restorable_pointer w p (Some i)" "restorable_pointer w p None"
    by (auto simp: restorable_pointer_def)
qed

subsection \<open>The stages\<close>

text \<open>
  What the stages are given: the workers by name, with the \<open>calc_date\<close> argument of the call
  when there is one, and the text of values.
\<close>

record 'w worker_env =
  we_worker :: "string \<Rightarrow> string option \<Rightarrow> 'w \<Rightarrow> 'w \<times> (exn + (string, jval) dict)"
  we_py_str :: "jval \<Rightarrow> string"
  we_show_int :: "int \<Rightarrow> string"

type_synonym 'w stage_result = "'w \<times> (exn + stage_outcome)"

definition invoke :: "'w worker_env \<Rightarrow> stage_context \<Rightarrow> string \<Rightarrow> string \<Rightarrow> 'w \<Rightarrow> 'w stage_result" where
  "invoke we cx worker_name anchor w =
     (let calc_date = (if anchor = ''self'' then None else Some (isoformat (cx_source_day cx)));
          (w', r) = we_worker we worker_name calc_date w
      in (w', bindE r (classify_worker_result (we_py_str we))))"

text \<open>\<open>dict(oc.watermarks)\<close> of a value that is not a dictionary raises.\<close>

definition unit_watermarks :: "stage_outcome \<Rightarrow> exn + (string, jval) dict" where
  "unit_watermarks oc =
     (case oc_watermarks oc of
        None \<Rightarrow> Inr []
      | Some v \<Rightarrow> if \<not> truthy v then Inr []
          else (case v of JObj kvs \<Rightarrow> Inr kvs | _ \<Rightarrow> Inl type_error))"

definition unit_detail :: "stage_outcome \<Rightarrow> jval" where
  "unit_detail oc = JObj (dict_update
     [(''status'', JStr (status_value (oc_status oc))),
      (''reason'', case oc_reason oc of None \<Rightarrow> JNull | Some r \<Rightarrow> JStr r)] (oc_detail oc))"

definition skipped_outcome :: "string \<Rightarrow> (string, jval) dict \<Rightarrow> exn + stage_outcome" where
  "skipped_outcome reason detail =
     (case outcome_skipped reason detail of Inl _ \<Rightarrow> Inl type_error | Inr oc \<Rightarrow> Inr oc)"

definition compose :: "(int \<Rightarrow> string) \<Rightarrow> stage_outcome list \<Rightarrow> exn + stage_outcome" where
  "compose show_int outcomes =
     (if outcomes = [] then skipped_outcome ''dark_no_source'' []
      else bindE (mapE unit_watermarks outcomes) (\<lambda>wms.
        let detail = map (\<lambda>(i, oc). (''unit_'' @ show_int (int i), unit_detail oc)) (enumerate 0 outcomes);
            watermarks = fold (\<lambda>wm d. dict_update d wm) wms []
        in if list_ex (\<lambda>oc. oc_status oc = SUCCEEDED) outcomes
           then Inr (outcome_succeeded ((''units'', JObj detail) #
                  (if watermarks = [] then [] else [(''watermarks'', JObj watermarks)])))
           else skipped_outcome ''dark_no_source'' [(''units'', JObj detail)]))"

text \<open>The list display of several invocations: the first that raises ends the stage.\<close>

fun invoke_all :: "'w worker_env \<Rightarrow> stage_context \<Rightarrow> string list \<Rightarrow> 'w \<Rightarrow> 'w \<times> (exn + stage_outcome list)" where
  "invoke_all we cx [] w = (w, Inr [])"
| "invoke_all we cx (name # names) w =
     (case invoke we cx name ''self'' w of
        (w1, Inl e) \<Rightarrow> (w1, Inl e)
      | (w1, Inr oc) \<Rightarrow>
          (case invoke_all we cx names w1 of
             (w2, Inl e) \<Rightarrow> (w2, Inl e)
           | (w2, Inr ocs) \<Rightarrow> (w2, Inr (oc # ocs))))"

definition composed :: "'w worker_env \<Rightarrow> 'w \<times> (exn + stage_outcome list) \<Rightarrow> 'w stage_result" where
  "composed we wr = (fst wr, bindE (snd wr) (compose (we_show_int we)))"

fun ingest_units :: "'w worker_env \<Rightarrow> stage_context \<Rightarrow> string list \<Rightarrow> 'w \<Rightarrow> 'w \<times> (exn + stage_outcome list)" where
  "ingest_units we cx [] w = (w, Inr [])"
| "ingest_units we cx (name # names) w =
     (let (w1, r) = invoke we cx name ''chain'' w
      in case (case r of
                 Inl e \<Rightarrow> if exn_type e = ''FileNotFoundError''
                          then skipped_outcome ''dark_no_source''
                                 [(''unit'', JStr name), (''reason_detail'', JStr ''source_root_absent'')]
                          else Inl e
               | Inr oc \<Rightarrow> Inr oc) of
           Inl e \<Rightarrow> (w1, Inl e)
         | Inr oc \<Rightarrow>
             (case ingest_units we cx names w1 of
                (w2, Inl e) \<Rightarrow> (w2, Inl e)
              | (w2, Inr ocs) \<Rightarrow> (w2, Inr (oc # ocs))))"

definition stage_ingest :: "'w worker_env \<Rightarrow> stage_context \<Rightarrow> 'w \<Rightarrow> 'w stage_result" where
  "stage_ingest we cx w =
     composed we (ingest_units we cx [''ncen_ingestion'', ''rr1_ingestion'', ''nport_ingestion''] w)"

definition stage_pit_update :: "'w worker_env \<Rightarrow> stage_context \<Rightarrow> 'w \<Rightarrow> 'w stage_result" where
  "stage_pit_update we cx w =
     composed we (invoke_all we cx [''bond_security_master'', ''bond_price_observations''] w)"

definition stage_materialize :: "'w worker_env \<Rightarrow> stage_context \<Rightarrow> 'w \<Rightarrow> 'w stage_result" where
  "stage_materialize we cx w = composed we (invoke_all we cx [''bond_metrics''] w)"

definition stage_mixed_build :: "'w worker_env \<Rightarrow> stage_context \<Rightarrow> 'w \<Rightarrow> 'w stage_result" where
  "stage_mixed_build we cx w = invoke we cx ''mixed_quant_publication'' ''chain'' w"

definition stage_validate :: "('x, 'r) pub_world worker_env \<Rightarrow> stage_context \<Rightarrow>
  ('x, 'r) pub_world \<Rightarrow> ('x, 'r) pub_world stage_result" where
  "stage_validate we cx w =
     (if \<not> to_regclass w ''sec_derived_current_pointers'' then
        (w, skipped_outcome ''dark_no_source'' [(''detail'', JStr ''no_derived_protocol'')])
      else if pw_pointers w = [] then (w, skipped_outcome ''dark_no_source'' [(''pointers'', JInt 0)])
      else (let invalid = filter (\<lambda>(p, i). \<not> sec_derived_publication_is_validated w i (Some p)) (pw_pointers w)
            in if invalid \<noteq> [] then
                 (w, case outcome_failed ''current_pointer_not_validated'' ''terminal''
                          [(''products'', JList (map (JStr \<circ> fst) invalid))] of
                       Inl _ \<Rightarrow> Inl type_error | Inr oc \<Rightarrow> Inr oc)
               else (w, Inr (outcome_succeeded
                      [(''validated_pointers'', JInt (int (length (pw_pointers w))))]))))"

text \<open>Among equally ranked rows the query returns any; the model takes the first.\<close>

definition ready_publication :: "('x, 'r) pub_world \<Rightarrow> date \<Rightarrow> string option" where
  "ready_publication w source_day =
     (let rows = filter (\<lambda>(i, q). qp_product q = PRODUCT \<and> qp_as_of q = source_day \<and>
            (qp_status q = Ready \<or> qp_status q = Active)) (pw_quant w)
      in case filter (\<lambda>(i, q). qp_status q = Active) rows @ rows of
           [] \<Rightarrow> None | (i, q) # _ \<Rightarrow> Some i)"

definition raised_exception :: "string \<Rightarrow> exn" where
  "raised_exception msg = simple_exn OtherException ''RaiseException'' msg"

definition stage_promote :: "('x, 'r) pub_world worker_env \<Rightarrow> stage_context \<Rightarrow>
  ('x, 'r) pub_world \<Rightarrow> ('x, 'r) pub_world stage_result" where
  "stage_promote we cx w =
     (if \<not> to_regclass w ''quant_publication_v1'' then
        (w, skipped_outcome ''dark_no_source'' [(''detail'', JStr ''no_mixed_schema'')])
      else case ready_publication w (cx_source_day cx) of
             None \<Rightarrow> (w, skipped_outcome ''dark_no_source'' [(''product'', JStr PRODUCT)])
           | Some pub_id \<Rightarrow>
               (case promote_quant_publication PRODUCT pub_id False w of
                  Inl msg \<Rightarrow> (w, Inl (raised_exception msg))
                | Inr w' \<Rightarrow> (w', Inr (outcome_succeeded
                    [(''product'', JStr PRODUCT), (''publication_id'', JStr pub_id)]))))"

definition stage_refresh :: "'w worker_env \<Rightarrow> stage_context \<Rightarrow> 'w \<Rightarrow> 'w stage_result" where
  "stage_refresh we cx w =
     composed we (invoke_all we cx [''sec_regulatory_serving'', ''bond_serving''] w)"

definition stage_probe :: "('x, 'r) pub_world worker_env \<Rightarrow> stage_context \<Rightarrow>
  ('x, 'r) pub_world \<Rightarrow> ('x, 'r) pub_world stage_result" where
  "stage_probe we cx w =
     (let counts =
        (if to_regclass w ''sec_derived_current_pointers''
         then [(''derived_pointers'', JInt (int (length (pw_pointers w))))] else []) @
        (if to_regclass w ''active_quant_publication_v1''
         then [(''active_quant_publications'', JInt (int (length (pw_active w))))] else [])
      in (w, Inr (outcome_succeeded [(''pointers'', JObj counts)])))"

definition STAGE_BUILDERS ::
  "(string, ('x, 'r) pub_world worker_env \<Rightarrow> stage_context \<Rightarrow>
     ('x, 'r) pub_world \<Rightarrow> ('x, 'r) pub_world stage_result) dict" where
  "STAGE_BUILDERS =
     [(''ingest'', stage_ingest), (''pit_update'', stage_pit_update),
      (''materialize'', stage_materialize), (''mixed_build'', stage_mixed_build),
      (''validate'', stage_validate), (''promote'', stage_promote),
      (''refresh'', stage_refresh), (''probe'', stage_probe)]"

definition make_stage :: "('x, 'r) pub_world worker_env \<Rightarrow> string \<Rightarrow> ('x, 'r) pub_world stage" where
  "make_stage we name =
     \<lparr> stage_name = name,
       stage_run = (\<lambda>cx w. case dict_get STAGE_BUILDERS name of
          Some f \<Rightarrow> f we cx w
        | None \<Rightarrow> (w, Inl (simple_exn OtherException ''KeyError'' name))),
       stage_required = True \<rparr>"

definition build_stages :: "('x, 'r) pub_world worker_env \<Rightarrow> string list \<Rightarrow> ('x, 'r) pub_world stage list" where
  "build_stages we names =
     map (make_stage we) (filter (\<lambda>n. n \<in> set names) STAGE_ORDER)"

definition build_default_stages :: "('x, 'r) pub_world worker_env \<Rightarrow> ('x, 'r) pub_world stage list" where
  "build_default_stages we = map (make_stage we) STAGE_ORDER"

subsection \<open>Configuration\<close>

text \<open>\<open>s.split(c)\<close>\<close>

fun split_char :: "char \<Rightarrow> string \<Rightarrow> string list" where
  "split_char c [] = [[]]"
| "split_char c (x # xs) =
     (if x = c then [] # split_char c xs
      else (case split_char c xs of [] \<Rightarrow> [[x]] | y # ys \<Rightarrow> (x # y) # ys))"

definition requested_stages :: "string \<Rightarrow> string list" where
  "requested_stages raw = filter (\<lambda>n. n \<noteq> []) (map strip (split_char CHR '','' raw))"

definition configured_stages ::
  "('x, 'r) pub_world worker_env \<Rightarrow> string option \<Rightarrow> py_error + ('x, 'r) pub_world stage list" where
  "configured_stages we setting =
     (let raw = strip (case setting of None \<Rightarrow> [] | Some s \<Rightarrow> s)
      in if raw = [] then Inr (build_default_stages we)
         else (let names = requested_stages raw
               in if \<not> set names \<subseteq> set STAGE_ORDER then Inl ValueError
                  else Inr (build_stages we names)))"

text \<open>\<open>int(s)\<close> for ASCII digits: blanks around, a sign, single underscores between digits.\<close>

definition py_int :: "string \<Rightarrow> int option" where
  "py_int s =
     (let t = strip s;
          (sign, body) = (case t of
             [] \<Rightarrow> (1, [])
           | c # cs \<Rightarrow> if c = CHR ''-'' then (-1, cs) else if c = CHR ''+'' then (1, cs) else (1, t));
          groups = split_char CHR ''_'' body
      in if list_all (\<lambda>g. g \<noteq> []) groups
         then map_option (\<lambda>n. sign * n) (parse_digits 0 (concat groups)) else None)"

definition DEFAULT_STALENESS_THRESHOLD_DAYS :: int where
  "DEFAULT_STALENESS_THRESHOLD_DAYS = 3"

definition staleness_threshold :: "string option \<Rightarrow> int option" where
  "staleness_threshold setting =
     (case setting of
        None \<Rightarrow> Some DEFAULT_STALENESS_THRESHOLD_DAYS
      | Some raw \<Rightarrow>
          if strip raw = [] then Some DEFAULT_STALENESS_THRESHOLD_DAYS
          else (case py_int raw of
                  None \<Rightarrow> Some DEFAULT_STALENESS_THRESHOLD_DAYS
                | Some value \<Rightarrow> if value \<ge> 0 then Some value else None))"

definition REVISION_ENV_VARS :: "string list" where
  "REVISION_ENV_VARS = [''CODE_REVISION'', ''GIT_SHA'', ''SOURCE_COMMIT'', ''RAILWAY_GIT_COMMIT_SHA'']"

text \<open>\<open>git\<close> is what \<open>git rev-parse\<close> printed, None when it could not be run.\<close>

definition code_revision :: "(string \<Rightarrow> string option) \<Rightarrow> string option \<Rightarrow> string" where
  "code_revision getenv git =
     (case filter (\<lambda>v. v \<noteq> []) (concat (map (\<lambda>n. case getenv n of None \<Rightarrow> [] | Some v \<Rightarrow> [v])
              REVISION_ENV_VARS)) of
        v # _ \<Rightarrow> strip v
      | [] \<Rightarrow> (case git of
                 Some out \<Rightarrow> if strip out \<noteq> [] then strip out else ''unknown''
               | None \<Rightarrow> ''unknown''))"

subsection \<open>Source days and watermarks\<close>

definition WATERMARK_SOURCES :: "(string \<times> string) list" where
  "WATERMARK_SOURCES =
     [(''bond_security_observation'', ''as_of''), (''bond_price_observation'', ''as_of''),
      (''ncen_effective_filings'', ''effective_date''), (''rr1_effective_facts'', ''effective_date'')]"

definition latest_step ::
  "(string \<Rightarrow> 'r validated_run list \<Rightarrow> date list) \<Rightarrow> 'r mv_world \<Rightarrow> string \<times> string \<Rightarrow>
   date option \<Rightarrow> date option" where
  "latest_step view_dates c src latest =
     (if \<not> relation_exists c (fst src) then latest
      else case watermark_of view_dates c (fst src) of
             None \<Rightarrow> latest
           | Some d \<Rightarrow>
               (case latest of None \<Rightarrow> Some d | Some l \<Rightarrow> if d > l then Some d else Some l))"

definition discover_source_days ::
  "(string \<Rightarrow> 'r validated_run list \<Rightarrow> date list) \<Rightarrow> ('x, 'r) pub_world \<Rightarrow> date list" where
  "discover_source_days view_dates w =
     (case fold (latest_step view_dates (pw_cache w)) WATERMARK_SOURCES None of
        None \<Rightarrow> [] | Some d \<Rightarrow> [d])"

definition build_watermarks ::
  "(string \<Rightarrow> 'r validated_run list \<Rightarrow> date list) \<Rightarrow> ('x, 'r) pub_world \<Rightarrow> date \<Rightarrow>
   (string, watermark) dict" where
  "build_watermarks view_dates w source_day =
     concat (map (\<lambda>(table, col).
       if \<not> relation_exists (pw_cache w) table then []
       else [(table, case watermark_of view_dates (pw_cache w) table of
                       Some d \<Rightarrow> WStr (isoformat d) | None \<Rightarrow> WOther)]) WATERMARK_SOURCES)"

subsection \<open>The run\<close>

record run_config =
  rc_calc_date :: "string option"
  rc_stages :: "string option"
  rc_threshold :: "string option"
  rc_getenv :: "string \<Rightarrow> string option"
  rc_git :: "string option"
  rc_uuid5 :: "string \<Rightarrow> string"
  rc_show_opt :: "int option \<Rightarrow> string"
  rc_sort_names :: "string list \<Rightarrow> string list"

definition worker_chain_env ::
  "(string \<Rightarrow> 'r validated_run list \<Rightarrow> date list) \<Rightarrow> ('x, 'r) pub_world worker_env \<Rightarrow> run_config \<Rightarrow>
   ('x, 'r) pub_world stage list \<Rightarrow> ('x, 'r) pub_world chain_env" where
  "worker_chain_env view_dates we rc stages =
     \<lparr> env_stages = stages, env_code_revision = code_revision (rc_getenv rc) (rc_git rc),
       env_config_version = ''v1'', env_chain = ''bond_daily_publication'',
       env_watermarks_for = build_watermarks view_dates,
       env_pointers = Some (snapshot_pointers, restore_pointer), env_max_attempts = 3,
       env_classify = default_classify_exception, env_threshold = staleness_threshold (rc_threshold rc),
       env_uuid5 = rc_uuid5 rc, env_show_int = we_show_int we, env_show_opt = rc_show_opt rc,
       env_sort_names = rc_sort_names rc \<rparr>"

datatype run_result =
    Locked
  | NoSourceDays "refresh_report list"
  | Processed string "refresh_report list" nat "string list" "summary list"

text \<open>
  \<open>acquired\<close> is the chain's advisory lock, \<open>mv_acquired\<close> the one of the cache refresh. The
  date of an explicit \<open>calc_date\<close> is parsed before the stages are configured.
\<close>

definition chain_run ::
  "(string \<Rightarrow> 'r validated_run list \<Rightarrow> date list) \<Rightarrow> ('x, 'r) pub_world worker_env \<Rightarrow> run_config \<Rightarrow>
   bool \<Rightarrow> bool \<Rightarrow> (string \<Rightarrow> string option) \<Rightarrow> ('x, 'r) pub_world \<times> chain_db \<Rightarrow>
   (('x, 'r) pub_world \<times> chain_db) \<times> (py_error + run_result)" where
  "chain_run view_dates we rc acquired mv_acquired refuses wdb =
     (if \<not> acquired then (wdb, Inr Locked)
      else (let (w, db) = wdb;
                (cache, reports) = refresh_stale view_dates refuses mv_acquired False None (pw_cache w);
                w1 = w\<lparr> pw_cache := cache \<rparr>
            in case (case rc_calc_date rc of
                       Some t \<Rightarrow> if t \<noteq> [] then (case fromisoformat t of
                                     None \<Rightarrow> Inl ValueError | Some d \<Rightarrow> Inr [d])
                                 else Inr (discover_source_days view_dates w1)
                     | None \<Rightarrow> Inr (discover_source_days view_dates w1)) of
                 Inl err \<Rightarrow> ((w1, db), Inl err)
               | Inr source_days \<Rightarrow>
                   if source_days = [] then ((w1, db), Inr (NoSourceDays reports))
                   else (case configured_stages we (rc_stages rc) of
                           Inl err \<Rightarrow> ((w1, db), Inl err)
                         | Inr stages \<Rightarrow>
                             (case run_chain (worker_chain_env view_dates we rc stages) source_days (w1, db) of
                                (wdb', Inl err) \<Rightarrow> (wdb', Inl err)
                              | (wdb', Inr summaries) \<Rightarrow>
                                  (wdb', Inr (Processed
                                    (if list_ex (\<lambda>s. sm_status s = ''failed'') summaries then ''failed'' else ''ok'')
                                    reports (length summaries)
                                    (concat (map (\<lambda>s. case sm_staleness_alert s of
                                       Some a \<Rightarrow> if a \<noteq> [] then [a] else [] | None \<Rightarrow> []) summaries))
                                    summaries))))))"

end
