(* ===== verification/Chain_Guarantees.thy ===== *)
theory Chain_Guarantees
  imports Chain_Worker "HOL-Library.Sublist"
begin

text \<open>
  What the publication protocol and the daily chain worker guarantee: the pointers stay valid
  over every sequence of protocol operations, ordinary promotions never move a product back
  in data date, a failed run puts every pointer back, and the worker's choice of stages and
  source days.
\<close>

subsection \<open>The protocol as a step relation\<close>

text \<open>
  The flag says whether a deliberate regression is allowed in the step. Derived builders
  prepare and validate publications of products other than \<open>PRODUCT\<close>, the mixed builder opens
  and readies publications of \<open>PRODUCT\<close>; workers may change the rest of the database.
\<close>

inductive pub_step :: "(string \<Rightarrow> string) \<Rightarrow> bool \<Rightarrow> ('x, 'r) pub_world \<Rightarrow> ('x, 'r) pub_world \<Rightarrow> bool"
  for uuid5 :: "string \<Rightarrow> string" and deliberate :: bool where
  prepare: "i \<notin> set (dict_keys (pw_derived w)) \<Longrightarrow> p \<noteq> PRODUCT \<Longrightarrow>
    pub_step uuid5 deliberate w (w\<lparr> pw_derived := pw_derived w @
      [(i, \<lparr> dp_product = p, dp_state = Prepared, dp_as_of = d \<rparr>)] \<rparr>)"
| validate: "dict_get (pw_derived w) i = Some r \<Longrightarrow> dp_state r = Prepared \<Longrightarrow>
    pub_step uuid5 deliberate w (w\<lparr> pw_derived := dict_set i (r\<lparr> dp_state := Validated \<rparr>) (pw_derived w) \<rparr>)"
| set_current: "sec_set_current_derived_publication p i allow w = Inr w' \<Longrightarrow> allow \<longrightarrow> deliberate \<Longrightarrow>
    pub_step uuid5 deliberate w w'"
| open_mixed: "open_publication uuid5 PRODUCT as_of code cfg w = Inr (i, w') \<Longrightarrow>
    pub_step uuid5 deliberate w w'"
| ready: "mark_ready i w = Inr w' \<Longrightarrow> pub_step uuid5 deliberate w w'"
| promote: "promote_quant_publication PRODUCT i allow w = Inr w' \<Longrightarrow> allow \<longrightarrow> deliberate \<Longrightarrow>
    pub_step uuid5 deliberate w w'"
| restore: "restore_pointer p v w = Inr w' \<Longrightarrow> deliberate \<Longrightarrow> pub_step uuid5 deliberate w w'"
| other: "pub_step uuid5 deliberate w (w\<lparr> pw_cache := c, pw_other := x \<rparr>)"

text \<open>The schemas are installed and no publication exists.\<close>

definition fresh_schema :: "('x, 'r) pub_world \<Rightarrow> bool" where
  "fresh_schema w \<longleftrightarrow> {''sec_derived_current_pointers'', ''quant_publication_v1'',
       ''active_quant_publication_v1''} \<subseteq> set (pw_relations w) \<and>
     pw_derived w = [] \<and> pw_pointers w = [] \<and> pw_quant w = [] \<and> pw_active w = []"

inductive pub_reachable :: "(string \<Rightarrow> string) \<Rightarrow> ('x, 'r) pub_world \<Rightarrow> bool"
  for uuid5 :: "string \<Rightarrow> string" where
  start: "fresh_schema w \<Longrightarrow> pub_reachable uuid5 w"
| step: "pub_reachable uuid5 w \<Longrightarrow> pub_step uuid5 deliberate w w' \<Longrightarrow> pub_reachable uuid5 w'"

definition protocol_ok :: "('x, 'r) pub_world \<Rightarrow> bool" where
  "protocol_ok w \<longleftrightarrow> good_world w \<and>
     to_regclass w ''sec_derived_current_pointers'' \<and> to_regclass w ''quant_publication_v1'' \<and>
     to_regclass w ''active_quant_publication_v1'' \<and>
     quant_products w \<subseteq> {PRODUCT} \<and>
     (\<forall>i d. dict_get (pw_derived w) i = Some d \<longrightarrow> dp_product d \<noteq> PRODUCT)"

lemma protocol_sound: "protocol_ok w \<Longrightarrow> sound_world w"
  by (simp add: protocol_ok_def sound_world_def schema_complete_def)

lemma protocol_okD:
  assumes "protocol_ok w"
  shows "good_world w" "to_regclass w ''sec_derived_current_pointers''" "to_regclass w ''quant_publication_v1''"
    "to_regclass w ''active_quant_publication_v1''" "quant_products w \<subseteq> {PRODUCT}"
    "dict_get (pw_derived w) i = Some d \<Longrightarrow> dp_product d \<noteq> PRODUCT"
  using assms unfolding protocol_ok_def by blast+

text \<open>A change of the mixed rows that touches no active row and keeps the products.\<close>

lemma good_update_quant:
  assumes "good_world w" "\<And>i q. qp_product (f i q) = qp_product q"
    and "\<And>i q. qp_status q = Active \<Longrightarrow> f i q = q"
    and "\<And>i q. qp_status (f i q) = Active \<Longrightarrow> qp_status q = Active"
    and "\<And>i q. (i, q) \<in> set (pw_quant w) \<Longrightarrow> lifecycle_ok (f i q)"
  shows "good_world (w\<lparr> pw_quant := map (\<lambda>(i, q). (i, f i q)) (pw_quant w) \<rparr>)" (is "good_world ?w")
proof (rule good_worldI)
  note d = good_worldD [OF assms(1)]
  have prods: "quant_products ?w = quant_products w" using assms(2) by (rule quant_products_map)
  show "dict_ok (pw_quant ?w)" using d(3) by simp
  show "pointer_valid ?w p i \<and> p \<notin> quant_products ?w" if "dict_get (pw_pointers ?w) p = Some i" for p i
    using that d(5,6) prods by simp
  show "active_valid ?w p i" if a: "dict_get (pw_active ?w) p = Some i" for p i
  proof -
    obtain q where "dict_get (pw_quant w) i = Some q" "qp_product q = p" "qp_status q = Active"
      using d(7) [of p i] a by (auto simp: active_valid_def)
    then show ?thesis using assms(3) by (simp add: active_valid_def get_map_rows)
  qed
  show "lifecycle_ok x \<and> (qp_status x = Active \<longrightarrow> dict_get (pw_active ?w) (qp_product x) = Some i)"
    if x: "dict_get (pw_quant ?w) i = Some x" for i x
  proof -
    obtain y where y: "dict_get (pw_quant w) i = Some y" "x = f i y"
      using x by (auto simp: get_map_rows)
    have "qp_status x = Active \<Longrightarrow> dict_get (pw_active w) (qp_product y) = Some i"
      using d(9) [OF y(1)] assms(4) y(2) by blast
    then show ?thesis using assms(5) [OF dict_get_in [OF y(1)]] by (simp add: y(2) assms(2))
  qed
qed (use good_worldD(1,2,4,10,11,12) [OF assms(1)] in simp_all)

lemma open_publication_ok:
  assumes "protocol_ok w" "open_publication uuid5 PRODUCT as_of code cfg w = Inr (i, w')"
  shows "protocol_ok w' \<and> pw_derived w' = pw_derived w \<and> pw_pointers w' = pw_pointers w \<and>
    pw_active w' = pw_active w \<and>
    (\<forall>k q. dict_get (pw_quant w) k = Some q \<longrightarrow> (\<exists>q'. dict_get (pw_quant w') k = Some q' \<and> qp_as_of q' = qp_as_of q))"
proof -
  note p = protocol_okD [OF assms(1)] and d = good_worldD [OF protocol_okD(1) [OF assms(1)]]
  let ?new = "\<lparr> qp_product = PRODUCT, qp_as_of = as_of, qp_code_revision = code,
      qp_config_version = cfg, qp_status = Building, qp_activated = False \<rparr>"
  show ?thesis
  proof (cases "find (\<lambda>(i, q). same_build PRODUCT as_of code cfg q) (pw_quant w)")
    case (Some iq)
    obtain k q where iq: "iq = (k, q)" by (cases iq)
    let ?f = "\<lambda>i r. if i = k then r\<lparr> qp_status := Building \<rparr> else r"
    have st: "qp_status q = Building \<or> qp_status q = Ready" and w': "update_quant ?f w = Inr w'"
      using assms(2) Some iq by (auto simp: open_publication_def Let_def bindE_Inr_iff split: if_splits)
    have kq: "(k, q) \<in> set (pw_quant w)"
      using Some iq by (auto simp: find_Some_iff dest: nth_mem)
    then have q: "dict_get (pw_quant w) k = Some q" using d(3) by simp
    let ?g = "\<lambda>i r. if i = k \<and> qp_status r \<noteq> Active then r\<lparr> qp_status := Building \<rparr> else r"
    have same: "?f j r = ?g j r" if "(j, r) \<in> set (pw_quant w)" for j r
    proof -
      have "dict_get (pw_quant w) j = Some r" using d(3) that by simp
      then show ?thesis using q st by auto
    qed
    have eq: "map (\<lambda>(j, r). (j, ?f j r)) (pw_quant w) = map (\<lambda>(j, r). (j, ?g j r)) (pw_quant w)"
      using same by (intro map_cong) auto
    have w'eq: "w' = w\<lparr> pw_quant := map (\<lambda>(j, r). (j, ?g j r)) (pw_quant w) \<rparr>"
      using w' unfolding update_quant_Inr eq by blast
    have life: "lifecycle_ok (?g j r)" if "(j, r) \<in> set (pw_quant w)" for j r
      using w' that same [OF that] unfolding update_quant_Inr by fastforce
    have "good_world w'"
      unfolding w'eq by (rule good_update_quant [OF p(1)]) (use life in \<open>auto split: if_splits\<close>)
    moreover have "quant_products w' = quant_products w"
      unfolding w'eq by (rule quant_products_map) simp
    ultimately have "protocol_ok w'" using p unfolding protocol_ok_def by (simp add: w'eq)
    then show ?thesis by (auto simp: w'eq get_map_rows)
  next
    case None
    then have fresh: "i \<notin> set (dict_keys (pw_quant w))" and w': "w' = w\<lparr> pw_quant := pw_quant w @ [(i, ?new)] \<rparr>"
      using assms(2) by (auto simp: open_publication_def Let_def split: if_splits)
    have n: "dict_get (pw_quant w) i = None" using fresh by (simp add: dict_get_None_iff)
    have g: "dict_get (pw_quant w') j = (if j = i then Some ?new else dict_get (pw_quant w) j)" for j
      using n by (auto simp: w' map_add_def split: option.split)
    have prods: "quant_products w' = insert PRODUCT (quant_products w)" by (auto simp: w' quant_products_def)
    have "good_world w'"
    proof (rule good_worldI)
      show "dict_ok (pw_quant w')" using d(3) fresh by (simp add: w')
      show "pointer_valid w' r j \<and> r \<notin> quant_products w'" if "dict_get (pw_pointers w') r = Some j" for r j
      proof -
        have r: "dict_get (pw_pointers w) r = Some j" using that by (simp add: w')
        then have "pointer_valid w r j" "r \<notin> quant_products w" using d(5,6) by blast+
        moreover from this(1) have "r \<noteq> PRODUCT"
          using p(6) by (auto simp: pointer_valid_def sec_derived_publication_is_validated_def split: option.splits)
        ultimately show ?thesis using prods by (simp add: w')
      qed
      show "active_valid w' r j" if "dict_get (pw_active w') r = Some j" for r j
      proof -
        have "active_valid w r j" using that d(7) by (simp add: w')
        then show ?thesis using n unfolding active_valid_def g by auto
      qed
      show "lifecycle_ok x \<and> (qp_status x = Active \<longrightarrow> dict_get (pw_active w') (qp_product x) = Some j)"
        if x: "dict_get (pw_quant w') j = Some x" for j x
      proof (cases "j = i")
        case True
        then show ?thesis using x unfolding g by (auto simp: lifecycle_ok_def)
      next
        case False
        then show ?thesis using x d(8,9) unfolding g by (auto simp: w')
      qed
    qed (use d p(3) in \<open>auto simp: w'\<close>)
    then have "protocol_ok w'" using p prods unfolding protocol_ok_def by (simp add: w')
    then show ?thesis using n unfolding g by (auto simp: w')
  qed
qed

lemma pub_step_ok:
  assumes "pub_step uuid5 deliberate w w'" "protocol_ok w"
  shows "protocol_ok w'"
proof -
  note p = protocol_okD [OF assms(2)] and d = good_worldD [OF protocol_okD(1) [OF assms(2)]]
  show ?thesis
    using assms(1)
  proof (cases rule: pub_step.cases)
    case (prepare i r dt)
    let ?new = "\<lparr> dp_product = r, dp_state = Prepared, dp_as_of = dt \<rparr>"
    have n: "dict_get (pw_derived w) i = None" using prepare(2) by (simp add: dict_get_None_iff)
    have g: "dict_get (pw_derived w') j = (if j = i then Some ?new else dict_get (pw_derived w) j)" for j
      using n by (auto simp: prepare(1) map_add_def split: option.split)
    have v: "pointer_valid w' q j" if a: "pointer_valid w q j" for q j
    proof -
      have "j \<noteq> i" using a n by (auto simp: pointer_valid_def sec_derived_publication_is_validated_def)
      then show ?thesis using a by (simp add: pointer_valid_def sec_derived_publication_is_validated_def g)
    qed
    have "good_world w'"
      by (rule good_worldI) (use d v prepare(2) in \<open>auto simp: prepare(1)\<close>)
    then show ?thesis using p prepare(3) unfolding protocol_ok_def g by (auto simp: prepare(1))
  next
    case (validate i r)
    have g: "dict_get (pw_derived w') = (dict_get (pw_derived w))(i \<mapsto> r\<lparr> dp_state := Validated \<rparr>)"
      by (simp add: validate(1))
    have v: "pointer_valid w' q j" if "pointer_valid w q j" for q j
      using that validate(2,3)
      by (auto simp: pointer_valid_def sec_derived_publication_is_validated_def g split: option.splits)
    have "good_world w'"
      by (rule good_worldI) (use d v in \<open>auto simp: validate(1)\<close>)
    moreover have "dp_product r \<noteq> PRODUCT" using p(6) validate(2) by blast
    ultimately show ?thesis using p unfolding protocol_ok_def g by (auto simp: validate(1))
  next
    case (set_current r i allow)
    have "r \<noteq> PRODUCT"
      using set_current_Inr(2) [OF set_current(1)] p(6)
      by (auto simp: pointer_valid_def sec_derived_publication_is_validated_def split: option.splits)
    then have "r \<notin> quant_products w" using p(5) by blast
    from set_current_good [OF p(1) set_current(1) this p(2)] show ?thesis
      using p set_current_Inr(1) [OF set_current(1)] unfolding protocol_ok_def by simp
  next
    case (open_mixed dt code cfg i)
    then show ?thesis using open_publication_ok [OF assms(2)] by blast
  next
    case (ready i)
    let ?f = "\<lambda>j q. if j = i \<and> (qp_status q = Building \<or> qp_status q = Ready) then q\<lparr> qp_status := Ready \<rparr> else q"
    have w': "w' = w\<lparr> pw_quant := map (\<lambda>(j, q). (j, ?f j q)) (pw_quant w) \<rparr>"
      and life: "(j, q) \<in> set (pw_quant w) \<Longrightarrow> lifecycle_ok (?f j q)" for j q
      using ready unfolding mark_ready_def update_quant_Inr by fastforce+
    have "good_world w'"
      unfolding w' by (rule good_update_quant [OF p(1)]) (use life in \<open>auto split: if_splits\<close>)
    moreover have "quant_products w' = quant_products w" unfolding w' by (rule quant_products_map) simp
    ultimately show ?thesis using p unfolding protocol_ok_def by (simp add: w')
  next
    case (promote i allow)
    note w' = promote_Inr [OF promote(1)]
    have "quant_products w' = quant_products w" using w' promoted_products by metis
    then show ?thesis
      using promote_good [OF p(1) promote(1) p(4)] p w' unfolding protocol_ok_def by auto
  next
    case (restore r v)
    have s: "sound_world w" by (rule protocol_sound [OF assms(2)])
    have k: "good_world w'" "to_regclass w' = to_regclass w"
      using restore_pointer_effect [OF p(1) _ restore(1)] s by (simp_all add: sound_world_def)
    have "pw_derived w' = pw_derived w \<and> quant_products w' = quant_products w"
      using restore_pointer_rows [OF s restore(1)] by auto
    then show ?thesis using k p unfolding protocol_ok_def by simp
  next
    case (other c x)
    then show ?thesis using assms(2) by (simp add: protocol_ok_def good_world_frame)
  qed
qed

lemma reachable_ok: "pub_reachable uuid5 w \<Longrightarrow> protocol_ok w"
proof (induction rule: pub_reachable.induct)
  case (start w)
  then show ?case
    unfolding fresh_schema_def protocol_ok_def
    by (auto simp: good_world_def to_regclass_def quant_products_def)
qed (rule pub_step_ok)

text \<open>
  C10: the pointers stay valid over every sequence of protocol operations, ordinary promotions,
  deliberate regressions and compensations included. A current pointer is a validated
  publication of its product, the active pointer is the one active publication of its
  product, no publication serves two products, and the chain's validate stage never finds a
  breach.
\<close>

theorem pointers_always_valid:
  assumes "pub_reachable uuid5 w"
  shows "(\<forall>p i. dict_get (pw_pointers w) p = Some i \<longrightarrow> sec_derived_publication_is_validated w i (Some p)) \<and>
    (\<forall>i q. dict_get (pw_quant w) i = Some q \<longrightarrow>
       (qp_status q = Active \<longleftrightarrow> dict_get (pw_active w) (qp_product q) = Some i)) \<and>
    (\<forall>p r i. dict_get (snapshot_pointers w) p = Some i \<longrightarrow> dict_get (snapshot_pointers w) r = Some i \<longrightarrow>
       (p \<in> quant_products w \<longleftrightarrow> r \<in> quant_products w) \<longrightarrow> p = r) \<and>
    (\<exists>oc. stage_validate we cx w = (w, Inr oc) \<and> oc_status oc \<noteq> FAILED)"
proof (intro conjI)
  note p = protocol_okD [OF reachable_ok [OF assms]] and d = good_worldD [OF protocol_okD(1) [OF reachable_ok [OF assms]]]
  show v: "\<forall>p i. dict_get (pw_pointers w) p = Some i \<longrightarrow> sec_derived_publication_is_validated w i (Some p)"
    using d(5) by (auto simp: pointer_valid_def)
  show "\<forall>i q. dict_get (pw_quant w) i = Some q \<longrightarrow>
       (qp_status q = Active \<longleftrightarrow> dict_get (pw_active w) (qp_product q) = Some i)"
    using d(7,9) by (fastforce simp: active_valid_def)
  show "\<forall>p r i. dict_get (snapshot_pointers w) p = Some i \<longrightarrow> dict_get (snapshot_pointers w) r = Some i \<longrightarrow>
       (p \<in> quant_products w \<longleftrightarrow> r \<in> quant_products w) \<longrightarrow> p = r"
  proof (intro allI impI)
    fix q r i
    assume a: "dict_get (snapshot_pointers w) q = Some i" "dict_get (snapshot_pointers w) r = Some i"
      "q \<in> quant_products w \<longleftrightarrow> r \<in> quant_products w"
    show "q = r"
    proof (cases "q \<in> quant_products w")
      case True
      then show ?thesis using a(3) p(5) by blast
    next
      case False
      then have "dict_get (pw_active w) q = None" "dict_get (pw_active w) r = None"
        using a(3) good_active_mixed [OF p(1)] by (metis option.exhaust)+
      then have "pointer_valid w q i" "pointer_valid w r i"
        using a(1,2) d(5) by (simp_all add: get_pointers_good p(1))
      then show ?thesis
        by (auto simp: pointer_valid_def sec_derived_publication_is_validated_def split: option.splits)
    qed
  qed
  have "filter (\<lambda>(p, i). \<not> sec_derived_publication_is_validated w i (Some p)) (pw_pointers w) = []"
    using v d(2) by (auto simp: filter_empty_conv)
  then show "\<exists>oc. stage_validate we cx w = (w, Inr oc) \<and> oc_status oc \<noteq> FAILED"
    by (auto simp: stage_validate_def skipped_outcome_def outcome_skipped_def outcome_succeeded_def)
qed

subsection \<open>Ordinary promotions never go back in data date\<close>

text \<open>The data date of what a product currently serves.\<close>

definition current_date :: "('x, 'r) pub_world \<Rightarrow> string \<Rightarrow> date option" where
  "current_date w p =
     (case dict_get (pw_active w) p of
        Some i \<Rightarrow> map_option qp_as_of (dict_get (pw_quant w) i)
      | None \<Rightarrow> (case dict_get (pw_pointers w) p of
                   Some i \<Rightarrow> sec_derived_publication_as_of w i | None \<Rightarrow> None))"

text \<open>Every publication of the product records its data date, as the derived builders do.\<close>

definition dated :: "('x, 'r) pub_world \<Rightarrow> string \<Rightarrow> bool" where
  "dated w p \<longleftrightarrow> (\<forall>i d. dict_get (pw_derived w) i = Some d \<longrightarrow> dp_product d = p \<longrightarrow> dp_as_of d \<noteq> None)"

lemma dated_back:
  assumes "\<And>i d. dict_get (pw_derived w) i = Some d \<Longrightarrow>
      \<exists>d'. dict_get (pw_derived w') i = Some d' \<and> dp_product d' = dp_product d \<and> dp_as_of d' = dp_as_of d"
    and "dated w' p"
  shows "dated w p"
  unfolding dated_def
proof (intro allI impI)
  fix i d assume "dict_get (pw_derived w) i = Some d" "dp_product d = p"
  then show "dp_as_of d \<noteq> None" using assms unfolding dated_def by metis
qed

text \<open>What an ordinary step does to the derived publications and to the current dates.\<close>

lemma pub_step_derived:
  assumes "pub_step uuid5 False w w'" "dict_get (pw_derived w) i = Some d"
  shows "\<exists>d'. dict_get (pw_derived w') i = Some d' \<and> dp_product d' = dp_product d \<and> dp_as_of d' = dp_as_of d"
  using assms
proof (cases rule: pub_step.cases)
  case (open_mixed as_of code cfg k)
  then have "pw_derived w' = pw_derived w"
    by (auto simp: open_publication_def Let_def bindE_Inr_iff update_quant_Inr split: option.splits if_splits)
  then show ?thesis using assms(2) by simp
next
  case (promote k allow)
  then show ?thesis using promote_Inr assms(2) by fastforce
qed (use assms(2) in \<open>auto dest: set_current_Inr(1) simp: mark_ready_def update_quant_Inr\<close>)

lemma set_current_date:
  assumes "protocol_ok w" "sec_set_current_derived_publication r i False w = Inr w'"
    and "current_date w p = Some c" "dated w p"
  shows "\<exists>c'. current_date w' p = Some c' \<and> c \<le> c'"
proof -
  note ok = protocol_okD [OF assms(1)] and sc = set_current_Inr [OF assms(2)]
  have same: "sec_derived_publication_as_of w' = sec_derived_publication_as_of w"
    by (simp add: sc(1) sec_derived_publication_as_of_def fun_eq_iff)
  show ?thesis
  proof (cases "r = p \<and> dict_get (pw_active w) p = None")
    case False
    then have "current_date w' p = current_date w p"
      unfolding current_date_def same by (auto simp: sc(1) split: option.split)
    then show ?thesis using assms(3) by simp
  next
    case True
    then obtain j where j: "dict_get (pw_pointers w) p = Some j" "sec_derived_publication_as_of w j = Some c"
      using assms(3) by (auto simp: current_date_def split: option.splits)
    obtain d where d: "dict_get (pw_derived w) i = Some d" "dp_product d = p"
      using sc(2) True by (auto simp: pointer_valid_def sec_derived_publication_is_validated_def split: option.splits)
    then obtain t where t: "sec_derived_publication_as_of w i = Some t"
      using assms(4) by (auto simp: dated_def sec_derived_publication_as_of_def)
    have "c \<le> t"
      using sc(3) True j t by (auto simp: derived_regression_def split: if_splits)
    moreover have "dict_get (pw_pointers w') p = Some i" "dict_get (pw_active w') p = None"
      using True by (simp_all add: sc(1))
    ultimately show ?thesis using t by (simp add: current_date_def same)
  qed
qed

lemma promote_date:
  assumes "protocol_ok w" "promote_quant_publication PRODUCT i False w = Inr w'"
    and "current_date w p = Some c"
  shows "\<exists>c'. current_date w' p = Some c' \<and> c \<le> c'"
proof -
  note ok = protocol_okD [OF assms(1)]
  obtain q where q: "dict_get (pw_quant w) i = Some q" "qp_product q = PRODUCT"
    "quant_regression w PRODUCT i (qp_as_of q) = None"
    "w' = w\<lparr> pw_quant := promoted_rows PRODUCT i (pw_quant w), pw_active := dict_set PRODUCT i (pw_active w) \<rparr>"
    using promote_Inr [OF assms(2)] by blast
  have rows: "map_option qp_as_of (dict_get (pw_quant w') k) = map_option qp_as_of (dict_get (pw_quant w) k)" for k
    by (simp add: q(4) promoted_rows_def get_map_rows option.map_comp comp_def)
  have same: "sec_derived_publication_as_of w' = sec_derived_publication_as_of w"
    by (simp add: q(4) sec_derived_publication_as_of_def fun_eq_iff)
  show ?thesis
  proof (cases "p = PRODUCT")
    case False
    then have "current_date w' p = current_date w p"
      unfolding current_date_def same rows by (simp add: q(4) cong: option.case_cong)
    then show ?thesis using assms(3) by simp
  next
    case True
    have "dict_get (pw_pointers w) PRODUCT = None"
    proof (rule ccontr)
      assume "dict_get (pw_pointers w) PRODUCT \<noteq> None"
      then obtain j where "pointer_valid w PRODUCT j" using good_worldD(5) [OF ok(1)] by blast
      then show False using ok(6)
        by (auto simp: pointer_valid_def sec_derived_publication_is_validated_def split: option.splits)
    qed
    then obtain a where a: "dict_get (pw_active w) PRODUCT = Some a" "map_option qp_as_of (dict_get (pw_quant w) a) = Some c"
      using assms(3) True by (auto simp: current_date_def split: option.splits)
    have "c \<le> qp_as_of q"
      using q(1,3) a by (auto simp: quant_regression_def split: if_splits)
    moreover have "current_date w' p = Some (qp_as_of q)"
      unfolding current_date_def rows True by (simp add: q(1,4))
    ultimately show ?thesis by blast
  qed
qed

lemma pub_step_date:
  assumes "pub_step uuid5 False w w'" "protocol_ok w" "current_date w p = Some c" "dated w p"
  shows "\<exists>c'. current_date w' p = Some c' \<and> c \<le> c'"
proof -
  note ok = protocol_okD [OF assms(2)]
  have keep: "\<exists>c'. current_date w' p = Some c' \<and> c \<le> c'"
    if "pw_pointers w' = pw_pointers w" "pw_active w' = pw_active w"
      "\<And>k q. dict_get (pw_quant w) k = Some q \<Longrightarrow> \<exists>q'. dict_get (pw_quant w') k = Some q' \<and> qp_as_of q' = qp_as_of q"
  proof -
    have der: "sec_derived_publication_as_of w' j = Some c" if "sec_derived_publication_as_of w j = Some c" for j
      using that pub_step_derived [OF assms(1)]
      by (fastforce simp: sec_derived_publication_as_of_def split: option.splits)
    have "current_date w' p = Some c"
    proof (cases "dict_get (pw_active w) p")
      case None
      then show ?thesis using assms(3) der by (auto simp: current_date_def that(1,2) split: option.splits)
    next
      case (Some i)
      then obtain q where "dict_get (pw_quant w) i = Some q" "qp_as_of q = c"
        using assms(3) by (auto simp: current_date_def)
      then show ?thesis using that(3) Some by (fastforce simp: current_date_def that(2))
    qed
    then show ?thesis by simp
  qed
  show ?thesis
    using assms(1)
  proof (cases rule: pub_step.cases)
    case (set_current r i allow)
    then show ?thesis using set_current_date [OF assms(2) _ assms(3,4)] by auto
  next
    case (promote i allow)
    then show ?thesis using promote_date [OF assms(2) _ assms(3)] by auto
  next
    case (open_mixed as_of code cfg i)
    then show ?thesis using open_publication_ok [OF assms(2)] by (intro keep) blast+
  next
    case (ready i)
    then show ?thesis
      by (intro keep) (auto simp: mark_ready_def update_quant_Inr get_map_rows)
  qed (rule keep; simp)+
qed

lemma ordinary_run:
  assumes "(pub_step uuid5 False)\<^sup>*\<^sup>* w w'" "protocol_ok w"
  shows "protocol_ok w' \<and> (dated w' p \<longrightarrow> (\<forall>c. current_date w p = Some c \<longrightarrow>
    (\<exists>c'. current_date w' p = Some c' \<and> c \<le> c')))"
  using assms
proof (induction rule: rtranclp_induct)
  case (step y z)
  have "dated z p \<Longrightarrow> dated y p"
    using pub_step_derived [OF step.hyps(2)] by (rule dated_back)
  then show ?case
    using step.IH [OF step.prems] pub_step_ok [OF step.hyps(2)] pub_step_date [OF step.hyps(2)]
    by (meson order_trans)
qed simp

text \<open>
  C11: ordinary promotions never move a product back in data date. From any reachable state,
  over any number of protocol operations in which nobody asks for a regression explicitly,
  what a product serves is never older than it was, provided the publications of the product
  record their data date.
\<close>

theorem ordinary_promotions_never_regress:
  assumes "pub_reachable uuid5 w" "(pub_step uuid5 False)\<^sup>*\<^sup>* w w'"
    and "current_date w p = Some c" "dated w' p"
  shows "\<exists>c'. current_date w' p = Some c' \<and> c \<le> c'"
  using ordinary_run [OF assms(2) reachable_ok [OF assms(1)], of p] assms(3,4) by blast

text \<open>A product is published for one day, and then again for the next day.\<close>

definition demo_pub :: "string list \<Rightarrow> lifecycle \<Rightarrow> (string, string) dict \<Rightarrow> (unit, unit) pub_world" where
  "demo_pub ids st pointers = \<lparr> pw_relations = [''sec_derived_current_pointers'', ''quant_publication_v1'',
       ''active_quant_publication_v1''],
     pw_derived = map (\<lambda>i. (i, \<lparr> dp_product = ''fund_facts'',
         dp_state = (if i = last ids then st else Validated),
         dp_as_of = Some (Date 2026 7 (if i = ''a'' then 16 else 17)) \<rparr>)) ids,
     pw_pointers = pointers, pw_quant = [], pw_active = [],
     pw_cache = \<lparr> mw_runs = None, mw_state = None, mw_matviews = [], mw_tables = [], mw_views = [] \<rparr>,
     pw_other = () \<rparr>"

lemma demo_steps:
  "pub_step u b (demo_pub [] Prepared []) (demo_pub [''a''] Prepared [])"
  "pub_step u b (demo_pub [''a''] Prepared []) (demo_pub [''a''] Validated [])"
  "pub_step u b (demo_pub [''a''] Validated []) (demo_pub [''a''] Validated [(''fund_facts'', ''a'')])"
  "pub_step u b (demo_pub [''a''] Validated [(''fund_facts'', ''a'')])
     (demo_pub [''a'', ''b''] Prepared [(''fund_facts'', ''a'')])"
  "pub_step u b (demo_pub [''a'', ''b''] Prepared [(''fund_facts'', ''a'')])
     (demo_pub [''a'', ''b''] Validated [(''fund_facts'', ''a'')])"
  "pub_step u b (demo_pub [''a'', ''b''] Validated [(''fund_facts'', ''a'')])
     (demo_pub [''a'', ''b''] Validated [(''fund_facts'', ''b'')])"
  using pub_step.prepare [of "''a''" "demo_pub [] Prepared []" "''fund_facts''" u b "Some (Date 2026 7 16)"]
    pub_step.validate [of "demo_pub [''a''] Prepared []" "''a''" _ u b]
    pub_step.set_current [of "''fund_facts''" "''a''" False "demo_pub [''a''] Validated []" _ b u]
    pub_step.prepare [of "''b''" "demo_pub [''a''] Validated [(''fund_facts'', ''a'')]" "''fund_facts''" u b
      "Some (Date 2026 7 17)"]
    pub_step.validate [of "demo_pub [''a'', ''b''] Prepared [(''fund_facts'', ''a'')]" "''b''" _ u b]
    pub_step.set_current [of "''fund_facts''" "''b''" False
      "demo_pub [''a'', ''b''] Validated [(''fund_facts'', ''a'')]" _ b u]
  by (simp_all add: demo_pub_def PRODUCT_def sec_set_current_derived_publication_def derived_regression_def
      sec_derived_publication_is_validated_def sec_derived_publication_as_of_def less_date_def)

lemma demo_reachable: "pub_reachable u (demo_pub [''a''] Validated [(''fund_facts'', ''a'')])"
proof -
  have "fresh_schema (demo_pub [] Prepared [])" by (simp add: fresh_schema_def demo_pub_def)
  then have "pub_reachable u (demo_pub [] Prepared [])" by (rule pub_reachable.start)
  then show ?thesis using demo_steps(1,2,3) [of u True] by (blast intro: pub_reachable.step)
qed

theorem pointers_always_valid_witness:
  "sec_derived_publication_is_validated (demo_pub [''a''] Validated [(''fund_facts'', ''a'')]) ''a''
     (Some ''fund_facts'')"
  using pointers_always_valid [OF demo_reachable [of id], of undefined undefined] by (simp add: demo_pub_def)

theorem ordinary_promotions_never_regress_witness:
  "\<exists>c'. current_date (demo_pub [''a'', ''b''] Validated [(''fund_facts'', ''b'')]) ''fund_facts'' = Some c' \<and>
     Date 2026 7 16 \<le> c'"
proof (rule ordinary_promotions_never_regress [OF demo_reachable])
  show "(pub_step id False)\<^sup>*\<^sup>* (demo_pub [''a''] Validated [(''fund_facts'', ''a'')])
      (demo_pub [''a'', ''b''] Validated [(''fund_facts'', ''b'')])"
    using demo_steps(4,5,6) [of id False] by (meson rtranclp.rtrancl_into_rtrancl rtranclp.rtrancl_refl)
qed (simp_all add: current_date_def dated_def sec_derived_publication_as_of_def demo_pub_def)

subsection \<open>A failed run puts every pointer back\<close>

text \<open>
  A quiet worker moves no pointer. A polite worker moves pointers only when the engine takes
  its result for a success, and never drops one. Both keep the tables well formed and lose no
  publication.
\<close>

definition keeps_store :: "('x, 'r) pub_world \<Rightarrow> ('x, 'r) pub_world \<Rightarrow> bool" where
  "keeps_store w w' \<longleftrightarrow> sound_world w' \<and>
     (\<forall>p v. restorable_pointer w p v \<longrightarrow> restorable_pointer w' p v)"

definition unit_succeeds :: "('x, 'r) pub_world worker_env \<Rightarrow> (exn + (string, jval) dict) \<Rightarrow> bool" where
  "unit_succeeds we r \<longleftrightarrow> (\<exists>oc. bindE r (classify_worker_result (we_py_str we)) = Inr oc \<and>
     oc_status oc = SUCCEEDED \<and> is_Inr (unit_watermarks oc))"

definition polite :: "('x, 'r) pub_world worker_env \<Rightarrow> string \<Rightarrow> bool" where
  "polite we name \<longleftrightarrow> (\<forall>arg w w' r. sound_world w \<longrightarrow> we_worker we name arg w = (w', r) \<longrightarrow>
     keeps_store w w' \<and>
     (if unit_succeeds we r
      then dom (dict_get (snapshot_pointers w)) \<subseteq> dom (dict_get (snapshot_pointers w'))
      else dict_get (snapshot_pointers w') = dict_get (snapshot_pointers w)))"

definition quiet :: "('x, 'r) pub_world worker_env \<Rightarrow> string \<Rightarrow> bool" where
  "quiet we name \<longleftrightarrow> (\<forall>arg w w' r. sound_world w \<longrightarrow> we_worker we name arg w = (w', r) \<longrightarrow>
     keeps_store w w' \<and> dict_get (snapshot_pointers w') = dict_get (snapshot_pointers w) \<and>
     (\<forall>oc. bindE r (classify_worker_result (we_py_str we)) = Inr oc \<longrightarrow> is_Inr (unit_watermarks oc)))"

definition stage_workers :: "string \<Rightarrow> string list" where
  "stage_workers name =
     (if name = ''ingest'' then [''ncen_ingestion'', ''rr1_ingestion'', ''nport_ingestion'']
      else if name = ''pit_update'' then [''bond_security_master'', ''bond_price_observations'']
      else if name = ''materialize'' then [''bond_metrics'']
      else if name = ''mixed_build'' then [''mixed_quant_publication'']
      else if name = ''refresh'' then [''sec_regulatory_serving'', ''bond_serving'']
      else [])"

text \<open>
  Raw landings move no pointer; in the other stages only the last worker may. This is what
  \<open>pit_update\<close> and \<open>refresh\<close> need for the compensation to be complete.
\<close>

definition stage_workers_ok :: "('x, 'r) pub_world worker_env \<Rightarrow> string \<Rightarrow> bool" where
  "stage_workers_ok we name \<longleftrightarrow>
     (if name = ''ingest'' then \<forall>n \<in> set (stage_workers name). quiet we n
      else stage_workers name \<noteq> [] \<longrightarrow>
        (\<forall>n \<in> set (butlast (stage_workers name)). quiet we n) \<and> polite we (last (stage_workers name)))"

lemma keeps_store_refl: "sound_world w \<Longrightarrow> keeps_store w w"
  by (simp add: keeps_store_def)

lemma keeps_store_trans: "keeps_store w w' \<Longrightarrow> keeps_store w' w'' \<Longrightarrow> keeps_store w w''"
  by (simp add: keeps_store_def)

lemma skipped_outcome_Inr:
  "''reason'' \<notin> set (dict_keys d) \<Longrightarrow> \<exists>oc. skipped_outcome reason d = Inr oc \<and> oc_status oc = SKIPPED \<and>
     oc_watermarks oc = dict_get d ''watermarks''"
  by (simp add: skipped_outcome_def outcome_skipped_def)

lemma compose_status:
  assumes "list_all (\<lambda>oc. is_Inr (unit_watermarks oc)) ocs" "ocs \<noteq> []"
  shows "\<exists>oc. compose show_int ocs = Inr oc \<and>
    (oc_status oc = SUCCEEDED \<longleftrightarrow> list_ex (\<lambda>oc. oc_status oc = SUCCEEDED) ocs)"
proof -
  have "is_Inr (mapE unit_watermarks ocs)" using assms(1) by (intro is_Inr_mapE) (simp add: list_all_iff)
  then obtain wms where "mapE unit_watermarks ocs = Inr wms" by (auto simp: is_Inr_def)
  then show ?thesis
    using assms(2) skipped_outcome_Inr [of "[(''units'', u)]" for u]
    by (auto simp: compose_def Let_def outcome_succeeded_def skipped_outcome_def outcome_skipped_def)
qed

text \<open>What one stage function does, in the form \<open>lawful\<close> asks for.\<close>

definition stage_lawful ::
  "('x, 'r) pub_world \<Rightarrow> ('x, 'r) pub_world \<Rightarrow> (exn + stage_outcome) \<Rightarrow> bool" where
  "stage_lawful w w' r \<longleftrightarrow> keeps_store w w' \<and>
     (if \<exists>oc. r = Inr oc \<and> oc_status oc = SUCCEEDED
      then dom (dict_get (snapshot_pointers w)) \<subseteq> dom (dict_get (snapshot_pointers w'))
      else dict_get (snapshot_pointers w') = dict_get (snapshot_pointers w))"

lemma stage_lawful_still:
  "keeps_store w w' \<Longrightarrow> dict_get (snapshot_pointers w') = dict_get (snapshot_pointers w) \<Longrightarrow> stage_lawful w w' r"
  by (simp add: stage_lawful_def)

lemma invoke_quiet:
  assumes "quiet we n" "sound_world w" "invoke we cx n a w = (w', r)"
  shows "keeps_store w w'" "dict_get (snapshot_pointers w') = dict_get (snapshot_pointers w)"
    "r = Inr oc \<Longrightarrow> is_Inr (unit_watermarks oc)"
  using assms unfolding quiet_def invoke_def Let_def by (auto split: prod.splits)

lemma invoke_polite:
  assumes "polite we n" "sound_world w" "invoke we cx n a w = (w', r)"
  shows "keeps_store w w' \<and> (if \<exists>oc. r = Inr oc \<and> oc_status oc = SUCCEEDED \<and> is_Inr (unit_watermarks oc)
      then dom (dict_get (snapshot_pointers w)) \<subseteq> dom (dict_get (snapshot_pointers w'))
      else dict_get (snapshot_pointers w') = dict_get (snapshot_pointers w))"
  using assms unfolding polite_def unit_succeeds_def invoke_def Let_def
  by (auto split: prod.splits if_splits)

lemma ingest_units_quiet:
  assumes "\<forall>n \<in> set names. quiet we n" "sound_world w" "ingest_units we cx names w = (w', rs)"
  shows "keeps_store w w' \<and> dict_get (snapshot_pointers w') = dict_get (snapshot_pointers w)"
  using assms
proof (induction names arbitrary: w w' rs)
  case Nil
  then show ?case by (simp add: keeps_store_refl)
next
  case (Cons n names)
  obtain w1 r where i: "invoke we cx n ''chain'' w = (w1, r)" by (metis prod.exhaust)
  note q = invoke_quiet [OF _ Cons.prems(2) i]
  have k: "keeps_store w w1" "dict_get (snapshot_pointers w1) = dict_get (snapshot_pointers w)"
    using q Cons.prems(1) by simp_all
  let ?u = "case r of
                 Inl e \<Rightarrow> if exn_type e = ''FileNotFoundError''
                          then skipped_outcome ''dark_no_source''
                                 [(''unit'', JStr n), (''reason_detail'', JStr ''source_root_absent'')]
                          else Inl e
               | Inr oc \<Rightarrow> Inr oc"
  obtain w2 rs2 where rest: "ingest_units we cx names w1 = (w2, rs2)" by (metis prod.exhaust)
  show ?case
  proof (cases ?u)
    case (Inl e)
    then have "w' = w1" using Cons.prems(3) by (simp add: i)
    then show ?thesis using k by simp
  next
    case (Inr oc)
    then have "w' = w2" using Cons.prems(3) by (simp add: i rest split: sum.splits)
    moreover have "keeps_store w1 w2 \<and> dict_get (snapshot_pointers w2) = dict_get (snapshot_pointers w1)"
      using Cons.IH [OF _ _ rest] Cons.prems(1) k(1) by (simp add: keeps_store_def)
    ultimately show ?thesis using k keeps_store_trans by metis
  qed
qed

lemma invoke_all_lawful:
  assumes "\<forall>n \<in> set qs. quiet we n" "polite we l" "sound_world w"
    and "invoke_all we cx (qs @ [l]) w = (w', rs)"
  shows "keeps_store w w' \<and>
    (if \<exists>ocs. rs = Inr ocs \<and> list_all (\<lambda>oc. is_Inr (unit_watermarks oc)) ocs \<and> oc_status (last ocs) = SUCCEEDED
     then dom (dict_get (snapshot_pointers w)) \<subseteq> dom (dict_get (snapshot_pointers w'))
     else dict_get (snapshot_pointers w') = dict_get (snapshot_pointers w)) \<and>
    (\<forall>ocs. rs = Inr ocs \<longrightarrow> ocs \<noteq> [])"
  using assms(1,3,4)
proof (induction qs arbitrary: w w' rs)
  case Nil
  obtain r where i: "invoke we cx l ''self'' w = (w', r)" and rs: "rs = (case r of Inl e \<Rightarrow> Inl e | Inr oc \<Rightarrow> Inr [oc])"
    using Nil.prems(3) by (auto split: prod.splits sum.splits)
  from invoke_polite [OF assms(2) Nil.prems(2) i] show ?case
    by (cases r) (auto simp: rs split: if_splits)
next
  case (Cons n qs)
  obtain w1 r where i: "invoke we cx n ''self'' w = (w1, r)" by (metis prod.exhaust)
  note q = invoke_quiet [OF _ Cons.prems(2) i]
  have k: "keeps_store w w1" "dict_get (snapshot_pointers w1) = dict_get (snapshot_pointers w)"
    using q Cons.prems(1) by simp_all
  obtain w2 rs2 where rest: "invoke_all we cx (qs @ [l]) w1 = (w2, rs2)" by (metis prod.exhaust)
  show ?case
  proof (cases r)
    case (Inl e)
    then have "w' = w1" "rs = Inl e" using Cons.prems(3) by (simp_all add: i)
    then show ?thesis using k by simp
  next
    case (Inr oc)
    have wm: "is_Inr (unit_watermarks oc)" using q(3) Inr Cons.prems(1) by simp
    have rs: "w' = w2" "rs = (case rs2 of Inl e \<Rightarrow> Inl e | Inr ocs \<Rightarrow> Inr (oc # ocs))"
      using Cons.prems(3) by (auto simp: i Inr rest split: sum.splits)
    have s1: "sound_world w1" using k(1) by (simp add: keeps_store_def)
    have ih: "keeps_store w1 w2 \<and>
      (if \<exists>ocs. rs2 = Inr ocs \<and> list_all (\<lambda>oc. is_Inr (unit_watermarks oc)) ocs \<and> oc_status (last ocs) = SUCCEEDED
       then dom (dict_get (snapshot_pointers w1)) \<subseteq> dom (dict_get (snapshot_pointers w2))
       else dict_get (snapshot_pointers w2) = dict_get (snapshot_pointers w1)) \<and>
      (\<forall>ocs. rs2 = Inr ocs \<longrightarrow> ocs \<noteq> [])"
      using Cons.IH [OF _ s1 rest] Cons.prems(1) by simp
    then have "keeps_store w w2" using keeps_store_trans [OF k(1)] by blast
    then show ?thesis using ih wm unfolding rs k(2) by (cases rs2) auto
  qed
qed

lemma composed_lawful:
  assumes "\<forall>n \<in> set (butlast ns). quiet we n" "ns \<noteq> []" "polite we (last ns)" "sound_world w"
    and "composed we (invoke_all we cx ns w) = (w', r)"
  shows "stage_lawful w w' r"
proof -
  obtain rs where inv: "invoke_all we cx (butlast ns @ [last ns]) w = (w', rs)"
    and r: "r = bindE rs (compose (we_show_int we))"
    using assms(2,5) by (cases "invoke_all we cx ns w") (simp add: composed_def)
  note l = invoke_all_lawful [OF assms(1,3,4) inv]
  show ?thesis
  proof (cases rs)
    case (Inl e)
    then show ?thesis using l r by (simp add: stage_lawful_def)
  next
    case (Inr ocs)
    then have ne: "ocs \<noteq> []" using l by blast
    show ?thesis
    proof (cases "list_all (\<lambda>oc. is_Inr (unit_watermarks oc)) ocs")
      case True
      obtain oc where oc: "r = Inr oc" "oc_status oc = SUCCEEDED \<longleftrightarrow> list_ex (\<lambda>oc. oc_status oc = SUCCEEDED) ocs"
        using compose_status [OF True ne] r Inr by auto
      have "oc_status (last ocs) = SUCCEEDED \<Longrightarrow> list_ex (\<lambda>oc. oc_status oc = SUCCEEDED) ocs"
        using ne by (auto simp: list_ex_iff)
      then show ?thesis using l True Inr oc by (auto simp: stage_lawful_def split: if_splits)
    next
      case False
      then have "dict_get (snapshot_pointers w') = dict_get (snapshot_pointers w)"
        using l Inr by (auto split: if_splits)
      then show ?thesis using l by (intro stage_lawful_still) blast+
    qed
  qed
qed

lemma promote_keeps:
  assumes "sound_world w" "promote_quant_publication p i allow w = Inr w'"
  shows "keeps_store w w' \<and> dom (dict_get (snapshot_pointers w)) \<subseteq> dom (dict_get (snapshot_pointers w'))"
proof -
  have g: "good_world w" using assms(1) by (simp add: sound_world_def)
  obtain q where q: "dict_get (pw_quant w) i = Some q" "qp_product q = p"
    "w' = w\<lparr> pw_quant := promoted_rows p i (pw_quant w), pw_active := dict_set p i (pw_active w) \<rparr>"
    using promote_Inr [OF assms(2)] by blast
  have "p \<in> quant_products w" using q(1,2) quant_product_iff [OF g] by blast
  then have reg: "to_regclass w ''active_quant_publication_v1''"
    using mixed_regclass [OF g] assms(1) by (simp add: sound_world_def schema_complete_def)
  have g': "good_world w'" using promote_good [OF g assms(2) reg] .
  have prods: "quant_products w' = quant_products w" unfolding q(3) by (rule promoted_products)
  have "restorable_pointer w' r v" if "restorable_pointer w r v" for r v
    using that unfolding restorable_pointer_def prods
    by (auto simp: q(3) promoted_rows_def get_map_rows split: if_splits option.splits)
  moreover have "sound_world w'" using g' assms(1) by (simp add: sound_world_def schema_complete_def q(3))
  moreover have "dom (dict_get (snapshot_pointers w)) \<subseteq> dom (dict_get (snapshot_pointers w'))"
    by (auto simp: get_pointers_good g g') (auto simp: q(3) split: option.splits if_splits)
  ultimately show ?thesis by (simp add: keeps_store_def)
qed

lemma stage_promote_lawful:
  assumes "sound_world w" "stage_promote we cx w = (w', r)"
  shows "stage_lawful w w' r"
proof (cases "\<exists>i. promote_quant_publication PRODUCT i False w = Inr w' \<and> (\<exists>oc. r = Inr oc \<and> oc_status oc = SUCCEEDED)")
  case True
  then obtain i where "promote_quant_publication PRODUCT i False w = Inr w'" and s: "\<exists>oc. r = Inr oc \<and> oc_status oc = SUCCEEDED"
    by blast
  from promote_keeps [OF assms(1) this(1)] s show ?thesis by (simp add: stage_lawful_def)
next
  case False
  then have "w' = w"
    using assms(2) by (auto simp: stage_promote_def outcome_succeeded_def split: if_splits option.splits sum.splits)
  then show ?thesis using assms(1) by (simp add: stage_lawful_still keeps_store_refl)
qed

lemma invoke_lawful:
  assumes "polite we n" "sound_world w" "invoke we cx n a w = (w', r)"
  shows "stage_lawful w w' r"
  using invoke_polite [OF assms] by (auto simp: stage_lawful_def split: if_splits)

lemma make_stage_lawful:
  assumes "name \<in> set STAGE_ORDER" "stage_workers_ok we name" "sound_world w"
    and "stage_run (make_stage we name) cx w = (w', r)"
  shows "stage_lawful w w' r"
proof -
  have still: "stage_lawful w w r" for r
    using assms(3) by (simp add: stage_lawful_still keeps_store_refl)
  consider "name = ''ingest''" | "name = ''pit_update''" | "name = ''materialize''" | "name = ''mixed_build''"
    | "name = ''validate''" | "name = ''promote''" | "name = ''refresh''" | "name = ''probe''"
    using assms(1) unfolding STAGE_ORDER_def list.set insert_iff empty_iff by (elim disjE) simp_all
  then show ?thesis
  proof cases
    case 1
    then have "composed we (ingest_units we cx (stage_workers ''ingest'') w) = (w', r)"
      using assms(4) by (simp only: make_stage_def STAGE_BUILDERS_def) (simp add: stage_ingest_def stage_workers_def)
    then have "ingest_units we cx (stage_workers ''ingest'') w
      = (w', snd (ingest_units we cx (stage_workers ''ingest'') w))"
      by (metis composed_def fst_conv prod.collapse)
    from ingest_units_quiet [OF _ assms(3) this] show ?thesis
      using assms(2) 1 by (auto simp: stage_workers_ok_def intro: stage_lawful_still)
  next
    case 2
    then have "composed we (invoke_all we cx (stage_workers ''pit_update'') w) = (w', r)"
      using assms(4) by (simp add: make_stage_def STAGE_BUILDERS_def stage_pit_update_def stage_workers_def)
    from composed_lawful [OF _ _ _ assms(3) this] show ?thesis
      using assms(2) 2 by (simp add: stage_workers_ok_def stage_workers_def)
  next
    case 3
    then have "composed we (invoke_all we cx (stage_workers ''materialize'') w) = (w', r)"
      using assms(4) by (simp add: make_stage_def STAGE_BUILDERS_def stage_materialize_def stage_workers_def)
    from composed_lawful [OF _ _ _ assms(3) this] show ?thesis
      using assms(2) 3 by (simp add: stage_workers_ok_def stage_workers_def)
  next
    case 4
    then have "invoke we cx ''mixed_quant_publication'' ''chain'' w = (w', r)"
      using assms(4) by (simp add: make_stage_def STAGE_BUILDERS_def stage_mixed_build_def)
    from invoke_lawful [OF _ assms(3) this] show ?thesis
      using assms(2) 4 by (simp add: stage_workers_ok_def stage_workers_def)
  next
    case 5
    then have "w' = w"
      using assms(4) by (auto simp: make_stage_def STAGE_BUILDERS_def stage_validate_def Let_def split: if_splits)
    then show ?thesis using still by simp
  next
    case 6
    then show ?thesis
      using assms(4) stage_promote_lawful [OF assms(3)] by (simp add: make_stage_def STAGE_BUILDERS_def)
  next
    case 7
    then have "composed we (invoke_all we cx (stage_workers ''refresh'') w) = (w', r)"
      using assms(4) by (simp add: make_stage_def STAGE_BUILDERS_def stage_refresh_def stage_workers_def)
    from composed_lawful [OF _ _ _ assms(3) this] show ?thesis
      using assms(2) 7 by (simp add: stage_workers_ok_def stage_workers_def)
  next
    case 8
    then have "w' = w"
      using assms(4) by (auto simp: make_stage_def STAGE_BUILDERS_def stage_probe_def Let_def)
    then show ?thesis using still by simp
  qed
qed

lemma make_stage_lawful_in_chain:
  assumes "name \<in> set STAGE_ORDER" "stage_workers_ok we name"
  shows "lawful snapshot_pointers sound_world restorable_pointer cx (make_stage we name)"
  unfolding lawful_def
  using make_stage_lawful [OF assms] by (auto simp: stage_lawful_def keeps_store_def split: if_splits)

text \<open>The stages a configuration selects.\<close>

lemma configured_stages_names:
  assumes "configured_stages we setting = Inr stages"
  shows "\<exists>names. stages = map (make_stage we) names \<and> set names \<subseteq> set STAGE_ORDER"
  using assms
  by (auto simp: configured_stages_def build_default_stages_def build_stages_def Let_def split: if_splits)

text \<open>
  C9: a failed run of the worker puts every pointer back. Whatever subset of the stages the
  deployment selects, if in each stage only the last worker moves pointers, and only when it
  succeeds, then after a failed run no compensation has failed and every product, derived or
  mixed, points to what it pointed to before the run.
\<close>

theorem failed_chain_restores_pointers:
  assumes "configured_stages we setting = Inr stages"
    and "\<And>stg. stg \<in> set stages \<Longrightarrow> stage_workers_ok we (stage_name stg)"
    and "run_one_day (worker_chain_env view_dates we rc stages) d (w, db) = ((w', db'), Inr sm)"
    and "completed_summary db (env_run_id (worker_chain_env view_dates we rc stages) d) = None"
    and "load_run_promotions db (env_run_id (worker_chain_env view_dates we rc stages) d) = []"
    and "sm_status sm = ''failed''" "sound_world w"
  shows "sm_compensation_failures sm = [] \<and>
    dict_get (snapshot_pointers w') = dict_get (snapshot_pointers w)"
proof -
  let ?env = "worker_chain_env view_dates we rc stages"
  obtain names where names: "stages = map (make_stage we) names" "set names \<subseteq> set STAGE_ORDER"
    using configured_stages_names [OF assms(1)] by blast
  have e: "env_pointers ?env = Some (snapshot_pointers, restore_pointer)" "env_stages ?env = stages"
    by (simp_all add: worker_chain_env_def)
  have law: "lawful snapshot_pointers sound_world restorable_pointer (day_context ?env d) stg"
    if stg: "stg \<in> set (env_stages ?env)" for stg
  proof -
    obtain n where n: "n \<in> set names" "stg = make_stage we n" using stg names(1) e(2) by auto
    then have "stage_workers_ok we n" using assms(2) [of stg] names(1) by (simp add: make_stage_def)
    then show ?thesis using make_stage_lawful_in_chain n names(2) by blast
  qed
  have "sm_compensation_failures sm = [] \<and>
    dict_get (snapshot_pointers w') = pre_run_pointer snapshot_pointers (env_run_id ?env d) db w"
    by (rule chain_restore.failed_run_compensates [OF e(1) law assms(3,4,6,7)]) (simp_all add: assms(5))
  then show ?thesis by (simp add: pre_run_pointer_def assms(5) fun_eq_iff)
qed

text \<open>A deployment that promotes and then refreshes; the refresh of the views is broken.\<close>

definition broken_refresh :: "(unit, unit) pub_world worker_env" where
  "broken_refresh = \<lparr> we_worker = (\<lambda>n arg w. if n = ''sec_regulatory_serving''
       then (w, Inl (simple_exn OtherException ''ValueError'' ''bad view'')) else (w, Inr [])),
     we_py_str = (\<lambda>j. ''?''), we_show_int = (\<lambda>i. ''n'') \<rparr>"

definition two_builds :: "(unit, unit) pub_world" where
  "two_builds = \<lparr> pw_relations = [''quant_publication_v1'', ''active_quant_publication_v1''],
     pw_derived = [], pw_pointers = [],
     pw_quant = [(''old'', \<lparr> qp_product = PRODUCT, qp_as_of = Date 2026 7 16, qp_code_revision = ''a'',
         qp_config_version = ''v1'', qp_status = Active, qp_activated = True \<rparr>),
       (''new'', \<lparr> qp_product = PRODUCT, qp_as_of = Date 2026 7 17, qp_code_revision = ''a'',
         qp_config_version = ''v1'', qp_status = Ready, qp_activated = False \<rparr>)],
     pw_active = [(PRODUCT, ''old'')],
     pw_cache = \<lparr> mw_runs = None, mw_state = None, mw_matviews = [], mw_tables = [], mw_views = [] \<rparr>, pw_other = () \<rparr>"

definition broken_config :: run_config where
  "broken_config = \<lparr> rc_calc_date = None, rc_stages = Some ''promote,refresh'', rc_threshold = None,
     rc_getenv = (\<lambda>n. None), rc_git = None, rc_uuid5 = (\<lambda>s. s), rc_show_opt = (\<lambda>t. ''n''), rc_sort_names = (\<lambda>ns. ns) \<rparr>"

definition broken_env :: "(unit, unit) pub_world chain_env" where
  "broken_env = worker_chain_env (\<lambda>v r. []) broken_refresh broken_config
     (map (make_stage broken_refresh) [''promote'', ''refresh''])"

lemma broken_stages:
  "configured_stages broken_refresh (Some ''promote,refresh'')
   = Inr (map (make_stage broken_refresh) [''promote'', ''refresh''])"
proof -
  have "strip ''promote,refresh'' = ''promote,refresh''"
    and "requested_stages ''promote,refresh'' = [''promote'', ''refresh'']"
    and "filter (\<lambda>n. n \<in> set [''promote'', ''refresh'']) STAGE_ORDER = [''promote'', ''refresh'']"
    by code_simp+
  moreover have "set [''promote'', ''refresh''] \<subseteq> set STAGE_ORDER"
    by code_simp
  ultimately show ?thesis
    by (simp only: configured_stages_def build_stages_def Let_def option.case) simp
qed

lemma broken_run:
  "case run_one_day broken_env (Date 2026 7 17) (two_builds, empty_db) of
     (_, Inl _) \<Rightarrow> False
   | ((w', db'), Inr sm) \<Rightarrow> sm_status sm = ''failed'' \<and>
       map (\<lambda>(p, a). (p, adv_previous a, adv_current a)) (sm_compensations sm)
         = [(PRODUCT, Some ''old'', Some ''new'')]"
  by code_simp

lemma broken_start:
  "completed_summary empty_db (env_run_id broken_env d) = None"
  "load_run_promotions empty_db (env_run_id broken_env d) = []"
  by simp_all

lemma broken_workers:
  assumes "stg \<in> set (map (make_stage broken_refresh) [''promote'', ''refresh''])"
  shows "stage_workers_ok broken_refresh (stage_name stg)"
  using assms
  by (auto simp: make_stage_def stage_workers_ok_def stage_workers_def quiet_def polite_def
      broken_refresh_def keeps_store_refl)

lemma two_builds_sound: "sound_world two_builds"
  unfolding sound_world_def schema_complete_def good_world_def
  by (simp add: two_builds_def active_valid_def lifecycle_ok_def to_regclass_def PRODUCT_def)

theorem failed_chain_restores_pointers_witness:
  "\<exists>w' db' sm. run_one_day broken_env (Date 2026 7 17) (two_builds, empty_db) = ((w', db'), Inr sm) \<and>
     map fst (sm_compensations sm) = [PRODUCT] \<and> sm_compensation_failures sm = [] \<and>
     dict_get (snapshot_pointers w') PRODUCT = Some ''old''"
proof -
  obtain w' db' sm where r: "run_one_day broken_env (Date 2026 7 17) (two_builds, empty_db) = ((w', db'), Inr sm)"
    and f: "sm_status sm = ''failed''" "map fst (sm_compensations sm) = [PRODUCT]"
    using broken_run by (auto split: prod.splits sum.splits)
  have "dict_get (snapshot_pointers two_builds) PRODUCT = Some ''old''" by code_simp
  with failed_chain_restores_pointers [OF broken_stages broken_workers
      r [unfolded broken_env_def] broken_start [unfolded broken_env_def] f(1) two_builds_sound] f(2)
  show ?thesis using r by auto
qed

subsection \<open>What a run works on\<close>

lemma max_of_Max:
  assumes "xs \<noteq> []"
  shows "max_of xs = Some (Max (set xs))"
proof -
  obtain y ys where "xs = y # ys" using assms by (cases xs) auto
  moreover have "Max (set (y # ys)) = list_max y ys"
    by (intro Max_eqI) (auto simp: list_max_in [simplified] intro: list_max_ge)
  ultimately show ?thesis by (simp add: max_of_def)
qed

lemma max_of_snoc:
  "max_of (xs @ ys) = (case max_of ys of None \<Rightarrow> max_of xs
     | Some d \<Rightarrow> (case max_of xs of None \<Rightarrow> Some d | Some l \<Rightarrow> if d > l then Some d else Some l))"
proof (cases "xs = [] \<or> ys = []")
  case True
  then show ?thesis by (auto simp: max_of_def split: option.split)
next
  case False
  then have "Max (set xs \<union> set ys) = max (Max (set xs)) (Max (set ys))" by (intro Max_Un) auto
  then have "Max (set xs \<union> set ys) = (if Max (set ys) > Max (set xs) then Max (set ys) else Max (set xs))"
    by (metis max.absorb1 max.absorb2 nle_le not_le)
  then show ?thesis using False by (simp add: max_of_Max del: Max_less_iff)
qed

lemma fold_latest:
  assumes "mv_reachable view_dates (c, ps)"
  shows "fold (latest_step view_dates c) srcs (max_of xs)
    = max_of (xs @ concat (map (\<lambda>src. if relation_exists c (fst src) then column_dates view_dates c (fst src) else []) srcs))"
proof (induction srcs arbitrary: xs)
  case (Cons src srcs)
  let ?ds = "if relation_exists c (fst src) then column_dates view_dates c (fst src) else []"
  have "latest_step view_dates c src (max_of xs) = max_of (xs @ ?ds)"
    by (cases "relation_exists c (fst src)") (simp_all add: latest_step_def cached_watermark [OF assms] max_of_snoc [symmetric])
  then show ?case using Cons [of "xs @ ?ds"] by simp
qed simp

text \<open>
  What the chain publishes does not depend on the caches. However the cached views stand,
  the source day it discovers is the latest date over the authoritative relations that exist,
  and with no date at all it discovers nothing.
\<close>

theorem discovery_reads_authoritative_relations:
  assumes "mv_reachable view_dates (pw_cache w, ps)"
  shows "discover_source_days view_dates w =
    (case max_of (concat (map (\<lambda>(table, col).
        if relation_exists (pw_cache w) table then column_dates view_dates (pw_cache w) table else [])
        WATERMARK_SOURCES)) of
       None \<Rightarrow> [] | Some d \<Rightarrow> [d])"
  using fold_latest [OF assms, of WATERMARK_SOURCES "[]"]
  by (simp add: discover_source_days_def max_of_def case_prod_beta' cong: option.case_cong)

theorem discovery_reads_authoritative_relations_witness:
  "let w = demo_pub [] Prepared [];
       w' = w\<lparr> pw_cache := (pw_cache w)\<lparr> mw_tables := [(''bond_price_observation'', [Date 2026 7 16, Date 2026 7 17])] \<rparr> \<rparr>
   in discover_source_days (\<lambda>v r. []) w' = [Date 2026 7 17]"
proof -
  let ?w = "(demo_pub [] Prepared []) \<lparr> pw_cache := (pw_cache (demo_pub [] Prepared []))
    \<lparr> mw_tables := [(''bond_price_observation'', [Date 2026 7 16, Date 2026 7 17])] \<rparr> \<rparr>"
  have "mv_reachable (\<lambda>v r. []) (pw_cache ?w, [])" by (rule mv_reachable.start) (simp add: demo_pub_def)
  moreover have "(case max_of (concat (map (\<lambda>(table, col).
        if relation_exists (pw_cache ?w) table then column_dates (\<lambda>v r. []) (pw_cache ?w) table else [])
        WATERMARK_SOURCES)) of None \<Rightarrow> [] | Some d \<Rightarrow> [d]) = [Date 2026 7 17]"
    by code_simp
  ultimately show ?thesis
    unfolding Let_def by (simp only: discovery_reads_authoritative_relations)
qed

text \<open>
  The stages a deployment selects run in the canonical order, each once, however the
  setting lists them; a setting with an unknown stage is refused, and a blank one selects
  every stage.
\<close>

theorem configured_stages_order:
  "configured_stages we setting =
     (let raw = strip (case setting of None \<Rightarrow> [] | Some s \<Rightarrow> s); names = requested_stages raw in
      if raw = [] then Inr (map (make_stage we) STAGE_ORDER)
      else if \<exists>n \<in> set names. n \<notin> set STAGE_ORDER then Inl ValueError
      else Inr (map (make_stage we) (filter (\<lambda>n. n \<in> set names) STAGE_ORDER))) \<and>
   (\<forall>stages. configured_stages we setting = Inr stages \<longrightarrow>
      subseq (map stage_name stages) STAGE_ORDER \<and> distinct (map stage_name stages))"
proof -
  have n: "stage_name (make_stage we k) = k" for k by (simp add: make_stage_def)
  have d: "distinct STAGE_ORDER" by code_simp
  show ?thesis
    by (auto simp: configured_stages_def build_default_stages_def build_stages_def Let_def n d comp_def
        split: if_splits)
qed

theorem configured_stages_order_witness:
  "\<exists>stages. configured_stages broken_refresh (Some ''promote,refresh'') = Inr stages \<and>
     subseq (map stage_name stages) STAGE_ORDER"
  using configured_stages_order [of broken_refresh "Some ''promote,refresh''"] broken_stages by blast

subsection \<open>A rollback by hand undoes a promotion\<close>

text \<open>A statement the database refuses raises.\<close>

definition exn_result :: "string + 'w \<Rightarrow> exn + 'w" where
  "exn_result r = (case r of Inl msg \<Rightarrow> Inl (raised_exception msg) | Inr w \<Rightarrow> Inr w)"

lemma exn_result_Inr: "exn_result r = Inr w \<longleftrightarrow> r = Inr w"
  by (auto simp: exn_result_def split: sum.splits)

lemma dict_set_back: "dict_get d k = Some v \<Longrightarrow> dict_set k v (dict_set k u d) = d"
  by (induction d) (auto split: if_splits)

text \<open>
  A rollback undoes the promotion it follows. From any reachable state, promoting another
  publication of a product and rolling the product back restores the very same pointers, and
  the ledger names the publication rolled back from and the one restored.
\<close>

theorem rollback_undoes_promotion:
  assumes "pub_reachable uuid5 w" "dict_get (pw_pointers w) p = Some prev"
    and "promote_derived pw_pointers (\<lambda>p i w. exn_result (sec_set_current_derived_publication p i False w))
      p pub run_id (w, db) = Inr ((w1, db1), previous)"
  shows "previous = Some prev \<and>
    (\<exists>db2. rollback_pointer (\<lambda>p i w. exn_result (sec_set_current_derived_publication p i True w)) p run' (w1, db1)
       = Inr ((w, db2), Some pub, prev))"
proof -
  note ok = protocol_okD [OF reachable_ok [OF assms(1)]]
  have sc: "sec_set_current_derived_publication p pub False w = Inr w1" and pv: "previous = Some prev"
    and db1: "db1 = record_promotion run_id ''promote'' p (Some pub) (Some prev) db"
    using assms(2,3) by (auto simp: promote_derived_def bindE_Inr_iff exn_result_Inr Let_def)
  note w1 = set_current_Inr(1) [OF sc]
  have np: "p \<notin> quant_products w"
    using good_worldD(6) [OF ok(1) assms(2)] .
  have g1: "good_world w1" by (rule set_current_good [OF ok(1) sc np ok(2)])
  have "pointer_valid w1 p prev" using good_worldD(5) [OF ok(1) assms(2)] by (simp add: w1)
  from set_current_total [OF g1 this]
  have "sec_set_current_derived_publication p prev True w1 = Inr w"
    by (simp add: w1 dict_set_back [OF assms(2)])
  then show ?thesis
    by (simp add: pv db1 rollback_pointer_def record_promotion_def exn_result_def)
qed

theorem rollback_undoes_promotion_witness:
  "\<exists>db2. rollback_pointer (\<lambda>p i w. exn_result (sec_set_current_derived_publication p i True w)) ''fund_facts'' None
     (demo_pub [''a'', ''b''] Validated [(''fund_facts'', ''b'')],
      record_promotion None ''promote'' ''fund_facts'' (Some ''b'') (Some ''a'') empty_db)
   = Inr ((demo_pub [''a'', ''b''] Validated [(''fund_facts'', ''a'')], db2), Some ''b'', ''a'')"
proof -
  let ?w = "demo_pub [''a'', ''b''] Validated [(''fund_facts'', ''a'')]"
  have r: "pub_reachable id ?w"
    using demo_reachable demo_steps(4,5) [of id True] by (blast intro: pub_reachable.step)
  have "promote_derived pw_pointers (\<lambda>p i w. exn_result (sec_set_current_derived_publication p i False w))
      ''fund_facts'' ''b'' None (?w, empty_db)
    = Inr ((demo_pub [''a'', ''b''] Validated [(''fund_facts'', ''b'')],
        record_promotion None ''promote'' ''fund_facts'' (Some ''b'') (Some ''a'') empty_db), Some ''a'')"
    by (simp add: promote_derived_def Let_def demo_pub_def sec_set_current_derived_publication_def derived_regression_def
        sec_derived_publication_is_validated_def sec_derived_publication_as_of_def less_date_def exn_result_def)
  moreover have "dict_get (pw_pointers ?w) ''fund_facts'' = Some ''a''" by (simp add: demo_pub_def)
  ultimately show ?thesis using rollback_undoes_promotion [OF r] by blast
qed

end
