(* ===== verification/Fund_Identifiers.thy ===== *)
theory Fund_Identifiers
  imports Prelude
begin

text \<open>
  Identifiers and categories of an N-PORT holding, the first half of
  \<open>src/workers/nport_lookthrough.py\<close>: which fund a holding is, which issuer, country and
  sector it counts for. Texts are ASCII. The fund map and the sector map are functions, as
  they come from the database.
\<close>

subsection \<open>Holdings\<close>

record holding =
  h_cusip :: "string option"
  h_isin :: "string option"
  h_issuer_name :: "string option"
  h_asset_class :: "string option"
  h_sector :: "string option"
  h_currency :: "string option"
  h_pct_of_nav :: "real option"
  h_payoff_profile :: "string option"
  h_investment_country :: "string option"

record fund_map =
  fm_cusip :: "string \<Rightarrow> string option"
  fm_isin :: "string \<Rightarrow> string option"

definition SYNTHETIC_PREFIXES :: "string list" where
  "SYNTHETIC_PREFIXES = [''IS:'', ''LE:'', ''H:'', ''CIK:'']"

definition UNIDENTIFIED_PREFIXES :: "string list" where
  "UNIDENTIFIED_PREFIXES = [''LE:'', ''H:'', ''CIK:'']"

definition DERIVATIVE_CLASSES :: "string list" where
  "DERIVATIVE_CLASSES = [''DE'', ''DFE'', ''DFF'', ''DIR'', ''DCO'', ''DCR'', ''DO'']"

definition EQUITY_CATS :: "string list" where
  "EQUITY_CATS = [''EC'', ''EP'']"

definition DERIVATIVE_CATS :: "string list" where
  "DERIVATIVE_CATS = [''DE'', ''DFE'', ''DCR'', ''DIR'', ''DO'']"

subsection \<open>Funds and issuers\<close>

definition embedded_cusip9 :: "string option \<Rightarrow> string option" where
  "embedded_cusip9 isin =
     (case isin of
        None \<Rightarrow> None
      | Some s \<Rightarrow> if length s = 12 \<and> starts_with [''US''] s then Some (slice 2 11 s) else None)"

text \<open>\<open>series = m.get(k)\<close> followed by \<open>if series\<close>\<close>

definition nonempty :: "string option \<Rightarrow> string option" where
  "nonempty x = (case x of None \<Rightarrow> None | Some s \<Rightarrow> if s = [] then None else Some s)"

definition or_else :: "'a option \<Rightarrow> 'a option \<Rightarrow> 'a option" where
  "or_else x y = (case x of None \<Rightarrow> y | Some v \<Rightarrow> Some v)"

definition match_fund :: "fund_map \<Rightarrow> holding \<Rightarrow> string option" where
  "match_fund m h =
     (let cusip = text_or [] (h_cusip h)
      in if starts_with UNIDENTIFIED_PREFIXES cusip then None
         else (let synthetic = starts_with [''IS:''] cusip;
                   isin = (if synthetic then text_or (drop 3 cusip) (h_isin h) else text_or [] (h_isin h));
                   cusip' = (if synthetic then [] else cusip)
               in or_else (if cusip' = [] then None else nonempty (fm_cusip m cusip'))
                  (if isin = [] then None
                   else or_else (nonempty (fm_isin m isin))
                     (case embedded_cusip9 (Some isin) of
                        None \<Rightarrow> None
                      | Some e \<Rightarrow> if e = [] then None else nonempty (fm_cusip m e)))))"

definition issuer_key :: "string option \<Rightarrow> string option \<Rightarrow> string" where
  "issuer_key cusip isin =
     (let c = text_or [] cusip
      in if c \<noteq> [] \<and> \<not> starts_with SYNTHETIC_PREFIXES c then take 6 c
         else if starts_with [''IS:''] c then
           (case embedded_cusip9 (Some (drop 3 c)) of Some e \<Rightarrow> take 6 e | None \<Rightarrow> c)
         else if c \<noteq> [] then c
         else (let i = text_or [] isin
               in if i = [] then ''UNKNOWN''
                  else (case embedded_cusip9 (Some i) of Some e \<Rightarrow> take 6 e | None \<Rightarrow> ''IS:'' @ i)))"

subsection \<open>Countries\<close>

definition ISO_3166_ALPHA2 :: "string list" where
  "ISO_3166_ALPHA2 = [
    ''AD'', ''AE'', ''AF'', ''AG'', ''AI'', ''AL'', ''AM'', ''AO'', ''AQ'', ''AR'', ''AS'', ''AT'',
    ''AU'', ''AW'', ''AX'', ''AZ'', ''BA'', ''BB'', ''BD'', ''BE'', ''BF'', ''BG'', ''BH'', ''BI'',
    ''BJ'', ''BL'', ''BM'', ''BN'', ''BO'', ''BQ'', ''BR'', ''BS'', ''BT'', ''BV'', ''BW'', ''BY'',
    ''BZ'', ''CA'', ''CC'', ''CD'', ''CF'', ''CG'', ''CH'', ''CI'', ''CK'', ''CL'', ''CM'', ''CN'',
    ''CO'', ''CR'', ''CU'', ''CV'', ''CW'', ''CX'', ''CY'', ''CZ'', ''DE'', ''DJ'', ''DK'', ''DM'',
    ''DO'', ''DZ'', ''EC'', ''EE'', ''EG'', ''EH'', ''ER'', ''ES'', ''ET'', ''FI'', ''FJ'', ''FK'',
    ''FM'', ''FO'', ''FR'', ''GA'', ''GB'', ''GD'', ''GE'', ''GF'', ''GG'', ''GH'', ''GI'', ''GL'',
    ''GM'', ''GN'', ''GP'', ''GQ'', ''GR'', ''GS'', ''GT'', ''GU'', ''GW'', ''GY'', ''HK'', ''HM'',
    ''HN'', ''HR'', ''HT'', ''HU'', ''ID'', ''IE'', ''IL'', ''IM'', ''IN'', ''IO'', ''IQ'', ''IR'',
    ''IS'', ''IT'', ''JE'', ''JM'', ''JO'', ''JP'', ''KE'', ''KG'', ''KH'', ''KI'', ''KM'', ''KN'',
    ''KP'', ''KR'', ''KW'', ''KY'', ''KZ'', ''LA'', ''LB'', ''LC'', ''LI'', ''LK'', ''LR'', ''LS'',
    ''LT'', ''LU'', ''LV'', ''LY'', ''MA'', ''MC'', ''MD'', ''ME'', ''MF'', ''MG'', ''MH'', ''MK'',
    ''ML'', ''MM'', ''MN'', ''MO'', ''MP'', ''MQ'', ''MR'', ''MS'', ''MT'', ''MU'', ''MV'', ''MW'',
    ''MX'', ''MY'', ''MZ'', ''NA'', ''NC'', ''NE'', ''NF'', ''NG'', ''NI'', ''NL'', ''NO'', ''NP'',
    ''NR'', ''NU'', ''NZ'', ''OM'', ''PA'', ''PE'', ''PF'', ''PG'', ''PH'', ''PK'', ''PL'', ''PM'',
    ''PN'', ''PR'', ''PS'', ''PT'', ''PW'', ''PY'', ''QA'', ''RE'', ''RO'', ''RS'', ''RU'', ''RW'',
    ''SA'', ''SB'', ''SC'', ''SD'', ''SE'', ''SG'', ''SH'', ''SI'', ''SJ'', ''SK'', ''SL'', ''SM'',
    ''SN'', ''SO'', ''SR'', ''SS'', ''ST'', ''SV'', ''SX'', ''SY'', ''SZ'', ''TC'', ''TD'', ''TF'',
    ''TG'', ''TH'', ''TJ'', ''TK'', ''TL'', ''TM'', ''TN'', ''TO'', ''TR'', ''TT'', ''TV'', ''TW'',
    ''TZ'', ''UA'', ''UG'', ''UM'', ''US'', ''UY'', ''UZ'', ''VA'', ''VC'', ''VE'', ''VG'', ''VI'',
    ''VN'', ''VU'', ''WF'', ''WS'', ''YE'', ''YT'', ''ZA'', ''ZM'', ''ZW'']"

text \<open>The digits of an ISIN: a letter stands for its two-digit number.\<close>

definition isin_char_digits :: "char \<Rightarrow> nat list" where
  "isin_char_digits c =
     (if is_digit c then [ord_of c - 48] else [(ord_of c - 55) div 10, (ord_of c - 55) mod 10])"

text \<open>The loop over the reversed digits, from index \<open>i\<close> on.\<close>

fun luhn_total :: "nat \<Rightarrow> nat list \<Rightarrow> nat" where
  "luhn_total i [] = 0"
| "luhn_total i (d # ds) =
     (let e = (if i mod 2 = 1 then d * 2 else d) in e div 10 + e mod 10 + luhn_total (Suc i) ds)"

definition valid_isin :: "string \<Rightarrow> bool" where
  "valid_isin v \<longleftrightarrow>
     length v = 12 \<and> list_all is_alnum v \<and> take 2 v \<in> set ISO_3166_ALPHA2 \<and>
     luhn_total 0 (rev (concat (map isin_char_digits v))) mod 10 = 0"

definition equity_country_key ::
  "string option \<Rightarrow> string option \<Rightarrow> string option \<Rightarrow> string option \<Rightarrow> string option" where
  "equity_country_key isin asset_class cusip investment_country =
     (if text_or [] asset_class \<notin> set EQUITY_CATS then None
      else (let explicit_country = str_upper (strip (text_or [] investment_country))
            in if explicit_country \<noteq> [] then
                 Some (if explicit_country \<in> set ISO_3166_ALPHA2 then explicit_country else ''UNKNOWN'')
               else (let candidate = str_upper (strip (text_or [] isin));
                         synthetic = str_upper (strip (text_or [] cusip));
                         candidates = candidate # (if starts_with [''IS:''] synthetic then [drop 3 synthetic] else [])
                     in case filter valid_isin candidates of
                          c # _ \<Rightarrow> Some (take 2 c) | [] \<Rightarrow> Some ''UNKNOWN'')))"

definition holding_country :: "holding \<Rightarrow> string option" where
  "holding_country h = equity_country_key (h_isin h) (h_asset_class h) (h_cusip h) (h_investment_country h)"

subsection \<open>Sectors\<close>

definition FI_STRUCTURE_LABELS :: "(string, string) dict" where
  "FI_STRUCTURE_LABELS =
     [(''ABS-MBS'', ''Mortgage-Backed (MBS)''), (''ABS-O'', ''Asset-Backed (ABS)''),
      (''ABS-CBDO'', ''CLO/CDO''), (''LON'', ''Bank Loans''), (''STIV'', ''Short-Term / Cash'')]"

definition DEBT_ISSUER_LABELS :: "(string, string) dict" where
  "DEBT_ISSUER_LABELS =
     [(''CORP'', ''Corporate Debt''), (''UST'', ''U.S. Treasury''), (''USGA'', ''U.S. Agency''),
      (''USGSE'', ''U.S. Agency''), (''MUN'', ''Municipal''), (''NUSS'', ''Sovereign (ex-US)'')]"

definition DEBT_ISSUER_CODES :: "string list" where
  "DEBT_ISSUER_CODES = [''UST'', ''USGA'', ''USGSE'', ''MUN'', ''NUSS'']"

definition sector_label :: "(string \<Rightarrow> string option) \<Rightarrow> holding \<Rightarrow> string" where
  "sector_label sector_map h =
     (let asset = str_upper (strip (text_or [] (h_asset_class h)));
          issuer = str_upper (strip (text_or [] (h_sector h)))
      in if asset \<in> set EQUITY_CATS then
           text_or ''Unclassified''
             (or_else (nonempty (sector_map (issuer_key (h_cusip h) (h_isin h))))
               (let isin = str_upper (strip (text_or [] (h_isin h)))
                in if isin = [] then None else sector_map isin))
         else case dict_get FI_STRUCTURE_LABELS asset of
                Some label \<Rightarrow> label
              | None \<Rightarrow>
                  if asset = ''DBT'' then dict_get_default DEBT_ISSUER_LABELS issuer ''Debt''
                  else if asset \<in> set DERIVATIVE_CATS then ''Derivatives''
                  else if asset = ''RA'' then ''Repo''
                  else if issuer \<in> set DEBT_ISSUER_CODES then dict_get_default DEBT_ISSUER_LABELS issuer ''Other''
                  else ''Other'')"

subsection \<open>The check digit\<close>

definition luhn_digit :: "nat \<Rightarrow> nat \<Rightarrow> nat" where
  "luhn_digit i d = (let e = (if i mod 2 = 1 then d * 2 else d) in e div 10 + e mod 10)"

lemma luhn_total_Cons: "luhn_total i (d # ds) = luhn_digit i d + luhn_total (Suc i) ds"
  by (simp add: luhn_digit_def Let_def)

lemma luhn_total_append: "luhn_total i (xs @ ys) = luhn_total i xs + luhn_total (i + length xs) ys"
  by (induction xs arbitrary: i) (simp_all add: luhn_total_Cons del: luhn_total.simps(2))

lemma luhn_digit_small:
  assumes "d < 10"
  shows "luhn_digit i d = (if i mod 2 = 1 then if d < 5 then 2 * d else 2 * d - 9 else d)"
proof -
  have "d \<in> {0, 1, 2, 3, 4, 5, 6, 7, 8, 9}" using assms by auto
  then show ?thesis by (elim insertE emptyE) (simp_all add: luhn_digit_def Let_def)
qed

text \<open>Doubling permutes the digits, so no two digits contribute the same.\<close>

lemma luhn_digit_inj:
  assumes "a < 10" "b < 10" "luhn_digit i a mod 10 = luhn_digit i b mod 10"
  shows "a = b"
proof -
  have "luhn_digit i a < 10" "luhn_digit i b < 10"
    using assms(1,2) by (auto simp: luhn_digit_small)
  then have "luhn_digit i a = luhn_digit i b" using assms(3) by simp
  moreover have "2 * x \<noteq> 2 * y - 9 \<and> 2 * y - 9 \<noteq> 2 * x" if "\<not> y < 5" for x y :: nat using that by presburger
  ultimately show ?thesis using assms(1,2) by (auto simp: luhn_digit_small split: if_splits)
qed

lemma mod10_cancel: "(r + a) mod 10 = 0 \<Longrightarrow> (r + b) mod 10 = 0 \<Longrightarrow> a mod 10 = b mod 10" for r a b :: nat
proof -
  assume "(r + a) mod 10 = 0" "(r + b) mod 10 = 0"
  then have "(int r + int a) mod 10 = (int r + int b) mod 10" by (metis of_nat_add of_nat_mod of_nat_numeral)
  then have "int a mod 10 = int b mod 10" by (simp add: mod_eq_dvd_iff)
  then show ?thesis by (metis of_nat_eq_iff of_nat_mod of_nat_numeral)
qed

lemma digit_isin_digits: "is_digit c \<Longrightarrow> isin_char_digits c = [ord_of c - 48] \<and> ord_of c - 48 < 10"
  by (auto simp: isin_char_digits_def is_digit_def)

lemma iso_letters: "code \<in> set ISO_3166_ALPHA2 \<Longrightarrow> \<not> list_ex is_digit code"
proof -
  have "list_all (\<lambda>code. \<not> list_ex is_digit code) ISO_3166_ALPHA2" by code_simp
  then show "code \<in> set ISO_3166_ALPHA2 \<Longrightarrow> \<not> list_ex is_digit code" by (simp add: list_all_iff)
qed

text \<open>
  C12: one mistyped digit never goes unnoticed. A valid ISIN in which one digit character is
  replaced by another is refused, wherever the digit stands, and with it the country the
  holding would be counted for.
\<close>

theorem isin_catches_digit_errors:
  assumes "valid_isin v" "i < length v" "is_digit (v ! i)" "is_digit c" "c \<noteq> v ! i"
  shows "\<not> valid_isin (v[i := c])"
proof
  assume w: "valid_isin (v[i := c])"
  let ?D = "\<lambda>s. concat (map isin_char_digits s)"
  let ?pre = "rev (?D (drop (Suc i) v))" and ?post = "rev (?D (take i v))"
  have split: "rev (?D (v[i := x])) = ?pre @ (ord_of x - 48) # ?post" if "is_digit x" for x
    using assms(2) digit_isin_digits [OF that] by (simp add: upd_conv_take_nth_drop)
  have sum: "luhn_total 0 (rev (?D (v[i := x])))
      = luhn_total 0 ?pre + luhn_digit (length ?pre) (ord_of x - 48) + luhn_total (Suc (length ?pre)) ?post"
    if "is_digit x" for x
    unfolding split [OF that] by (simp add: luhn_total_append luhn_total_Cons del: luhn_total.simps(2))
  let ?a = "luhn_digit (length ?pre) (ord_of (v ! i) - 48)" and ?b = "luhn_digit (length ?pre) (ord_of c - 48)"
  let ?r = "luhn_total 0 ?pre + luhn_total (Suc (length ?pre)) ?post"
  have "(?r + ?a) mod 10 = 0" "(?r + ?b) mod 10 = 0"
    using assms(1) w sum [OF assms(3)] sum [OF assms(4)]
    unfolding valid_isin_def list_update_id by (simp_all only: ac_simps)
  then have "?a mod 10 = ?b mod 10" by (rule mod10_cancel)
  then have "ord_of (v ! i) - 48 = ord_of c - 48"
    using luhn_digit_inj digit_isin_digits [OF assms(3)] digit_isin_digits [OF assms(4)] by blast
  then have "ord_of (v ! i) = ord_of c" using assms(3,4) by (auto simp: is_digit_def)
  then show False using ord_of_inj assms(5) by blast
qed

theorem isin_catches_digit_errors_witness:
  "valid_isin ''US0378331005'' \<and> \<not> valid_isin (''US0378331005''[3 := CHR ''8''])"
proof -
  have v: "valid_isin ''US0378331005''" by code_simp
  show ?thesis
    using v isin_catches_digit_errors [OF v, of 3 "CHR ''8''"] by (simp add: is_digit_def ord_of_def)
qed

lemma valid_isin_country: "valid_isin v \<Longrightarrow> take 2 v \<in> set ISO_3166_ALPHA2"
  by (simp add: valid_isin_def)

text \<open>
  C13: an equity counts for a country of the standard or for the explicit unknown bucket, and
  nothing but an equity takes part in the dimension.
\<close>

theorem equity_country_typed:
  "(equity_country_key isin asset_class cusip country = None
      \<longleftrightarrow> text_or [] asset_class \<notin> {''EC'', ''EP''}) \<and>
   equity_country_key isin asset_class cusip country
      \<in> insert None (Some ` (insert ''UNKNOWN'' (set ISO_3166_ALPHA2)))"
  using valid_isin_country [of "str_upper (strip (text_or [] isin))"]
    valid_isin_country [of "drop 3 (str_upper (strip (text_or [] cusip)))"]
  by (auto simp: equity_country_key_def EQUITY_CATS_def Let_def)

text \<open>
  The issuer of a US security is the same whichever of its identifiers the filing carries.
\<close>

lemma issuer_key_of_us_security:
  assumes "length c = 9" "\<not> starts_with SYNTHETIC_PREFIXES c"
  shows "issuer_key (Some c) isin = take 6 c"
    "issuer_key None (Some (''US'' @ c @ [k])) = take 6 c"
    "issuer_key (Some (''IS:US'' @ c @ [k])) isin = take 6 c"
proof -
  have "take 9 (c @ [k]) = c" using assms(1) by simp
  then have e: "embedded_cusip9 (Some (''US'' @ c @ [k])) = Some c"
    using assms(1) by (simp add: embedded_cusip9_def starts_with_def slice_def eval_nat_numeral)
  have "c \<noteq> []" using assms(1) by auto
  then show "issuer_key (Some c) isin = take 6 c" "issuer_key None (Some (''US'' @ c @ [k])) = take 6 c"
    using assms(2) e by (simp_all add: issuer_key_def text_or_def starts_with_def SYNTHETIC_PREFIXES_def)
  show "issuer_key (Some (''IS:US'' @ c @ [k])) isin = take 6 c"
    using e by (simp add: issuer_key_def text_or_def starts_with_def SYNTHETIC_PREFIXES_def)
qed

end
