(* ===== verification/Lookthrough.thy ===== *)
theory Lookthrough
  imports Fund_Identifiers Calendar
begin

text \<open>
  The recursive look-through of a fund, \<open>expand_series\<close> in
  \<open>src/workers/nport_lookthrough.py\<close>. The holdings of a series, the equity roll-ups and the
  maps come from the database and are functions of the environment; the database readers are
  memoised, so within one run they are functions. Weights are reals.
\<close>

subsection \<open>State\<close>

record equity_inputs =
  ei_gross :: real
  ei_net :: real
  ei_countries :: "(string, real) dict"
  ei_signed_weights :: "string \<Rightarrow> real option"
  ei_gross_weights :: "string \<Rightarrow> real option"

record cell =
  cl_label :: "string option"
  cl_direct :: real
  cl_indirect :: real

record exposure_summary =
  su_oldest :: date
  su_direct :: real
  su_indirect :: real
  su_expanded_fund :: real
  su_nondecomposable :: real
  su_deriv_gross :: real
  su_deriv_net :: real
  su_gross_equity :: real
  su_net_equity :: real
  su_unidentified :: real

record lt_state =
  lt_exposures :: "(string \<times> string, cell) dict"
  lt_summary :: exposure_summary
  lt_expanded :: "string list"

record lt_env =
  le_holdings :: "string \<Rightarrow> (date \<times> holding list) option"
  le_fund_map :: fund_map
  le_sector_map :: "string \<Rightarrow> string option"
  le_equity :: "string \<Rightarrow> date \<Rightarrow> equity_inputs option"
  le_max_depth :: int

definition MAX_DEPTH :: int where "MAX_DEPTH = 2"

definition empty_cell :: cell where
  "empty_cell = \<lparr> cl_label = None, cl_direct = 0, cl_indirect = 0 \<rparr>"

definition empty_summary :: "date \<Rightarrow> exposure_summary" where
  "empty_summary d = \<lparr> su_oldest = d, su_direct = 0, su_indirect = 0, su_expanded_fund = 0,
     su_nondecomposable = 0, su_deriv_gross = 0, su_deriv_net = 0, su_gross_equity = 0,
     su_net_equity = 0, su_unidentified = 0 \<rparr>"

subsection \<open>One holding\<close>

text \<open>\<open>cell[side] += pct\<close> in a cell that is created when missing.\<close>

definition add_side :: "int \<Rightarrow> real \<Rightarrow> cell \<Rightarrow> cell" where
  "add_side depth pct c =
     (if depth = 0 then c\<lparr> cl_direct := cl_direct c + pct \<rparr>
      else c\<lparr> cl_indirect := cl_indirect c + pct \<rparr>)"

definition add_cell ::
  "int \<Rightarrow> real \<Rightarrow> (string \<times> string) \<times> string option \<Rightarrow> (string \<times> string, cell) dict \<Rightarrow>
   (string \<times> string, cell) dict" where
  "add_cell depth pct kl exposures =
     (let (key, label) = kl;
          c = add_side depth pct (dict_get_default exposures key empty_cell);
          c' = (if nonempty label \<noteq> None \<and> nonempty (cl_label c) = None then c\<lparr> cl_label := label \<rparr> else c)
      in dict_set key c' exposures)"

definition holding_keys ::
  "lt_env \<Rightarrow> bool \<Rightarrow> holding \<Rightarrow> ((string \<times> string) \<times> string option) list" where
  "holding_keys env has_equity_rollup h =
     [((''issuer'', issuer_key (h_cusip h) (h_isin h)), h_issuer_name h),
      ((''asset_class'', text_or ''UNKNOWN'' (h_asset_class h)), None),
      ((''sector'', sector_label (le_sector_map env) h), None),
      ((''currency'', text_or ''UNKNOWN'' (h_currency h)), None)] @
     (if has_equity_rollup then []
      else case holding_country h of None \<Rightarrow> [] | Some c \<Rightarrow> [((''country'', c), None)])"

definition summary_side :: "int \<Rightarrow> real \<Rightarrow> exposure_summary \<Rightarrow> exposure_summary" where
  "summary_side depth pct su =
     (if depth = 0 then su\<lparr> su_direct := su_direct su + pct \<rparr>
      else su\<lparr> su_indirect := su_indirect su + pct \<rparr>)"

definition summary_classes :: "holding \<Rightarrow> real \<Rightarrow> bool \<Rightarrow> exposure_summary \<Rightarrow> exposure_summary" where
  "summary_classes h pct has_equity_rollup su =
     (let asset = text_or [] (h_asset_class h);
          su1 = (if asset \<in> set DERIVATIVE_CLASSES
                 then su\<lparr> su_deriv_gross := su_deriv_gross su + \<bar>pct\<bar>, su_deriv_net := su_deriv_net su + pct \<rparr>
                 else su);
          su2 = (if \<not> has_equity_rollup \<and> asset \<in> set EQUITY_CATS
                 then su1\<lparr> su_gross_equity := su_gross_equity su1 + \<bar>pct\<bar>, su_net_equity := su_net_equity su1 + pct \<rparr>
                 else su1)
      in if starts_with UNIDENTIFIED_PREFIXES (text_or [] (h_cusip h))
         then su2\<lparr> su_unidentified := su_unidentified su2 + \<bar>pct\<bar> \<rparr> else su2)"

definition accumulate :: "lt_env \<Rightarrow> holding \<Rightarrow> real \<Rightarrow> int \<Rightarrow> bool \<Rightarrow> lt_state \<Rightarrow> lt_state" where
  "accumulate env h pct depth has_equity_rollup st =
     st\<lparr> lt_exposures := fold (add_cell depth pct) (holding_keys env has_equity_rollup h) (lt_exposures st),
        lt_summary := summary_classes h pct has_equity_rollup (summary_side depth pct (lt_summary st)) \<rparr>"

definition expandable_child :: "lt_env \<Rightarrow> int \<Rightarrow> string list \<Rightarrow> holding \<Rightarrow> string option" where
  "expandable_child env depth ancestors h =
     (case match_fund (le_fund_map env) h of
        None \<Rightarrow> None
      | Some child \<Rightarrow>
          if child \<notin> set ancestors \<and> depth < le_max_depth env \<and> le_holdings env child \<noteq> None
          then Some child else None)"

definition equity_input_key :: "holding \<Rightarrow> string" where
  "equity_input_key h =
     (let key = str_upper (strip (text_or [] (h_cusip h)))
      in if starts_with SYNTHETIC_PREFIXES key \<or>
            (length key = 9 \<and> list_all is_alnum key \<and> set key \<noteq> {CHR ''0''})
         then key
         else (let isin = str_upper (strip (text_or [] (h_isin h)))
               in if isin \<noteq> [] then ''IS:'' @ isin else key))"

text \<open>The weight of a holding in its series: the exact one when the roll-up has it.\<close>

definition local_weight :: "equity_inputs option \<Rightarrow> holding \<Rightarrow> real \<Rightarrow> real" where
  "local_weight inputs h raw_pct =
     (case Option.bind inputs (\<lambda>ei. ei_signed_weights ei (equity_input_key h)) of
        Some exact_pct \<Rightarrow> exact_pct
      | None \<Rightarrow>
          (let profile = str_upper (strip (text_or [] (h_payoff_profile h)))
           in if profile = ''SHORT'' then - \<bar>raw_pct\<bar>
              else if profile = ''LONG'' then \<bar>raw_pct\<bar> else raw_pct))"

subsection \<open>The equity roll-up of a series\<close>

text \<open>
  The roll-up of a series counts the wrappers the walk expands; their shares are taken out
  again, and a wrapper whose share is not known exactly makes the walk count holding by
  holding. The state is gross, net and the countries; None means the roll-up is not used.
\<close>

fun strip_wrappers ::
  "equity_inputs \<Rightarrow> holding list \<Rightarrow> string list \<Rightarrow> real \<times> real \<times> (string, real) dict \<Rightarrow>
   (real \<times> real \<times> (string, real) dict) option" where
  "strip_wrappers ei [] seen acc = Some acc"
| "strip_wrappers ei (h # hs) seen (gross, net, countries) =
     (let key = equity_input_key h
      in if key \<in> set seen then strip_wrappers ei hs seen (gross, net, countries)
         else (case (ei_signed_weights ei key, ei_gross_weights ei key, holding_country h) of
                 (Some exact_pct, Some exact_gross, Some country) \<Rightarrow>
                   (case dict_get countries country of
                      None \<Rightarrow> None
                    | Some v \<Rightarrow> strip_wrappers ei hs (key # seen)
                        (gross - exact_gross, net - exact_pct, dict_set country (v - exact_pct) countries))
               | _ \<Rightarrow> None))"

definition expanded_equity_wrappers :: "lt_env \<Rightarrow> int \<Rightarrow> string list \<Rightarrow> holding list \<Rightarrow> holding list" where
  "expanded_equity_wrappers env depth ancestors holdings =
     filter (\<lambda>h. str_upper (strip (text_or [] (h_asset_class h))) \<in> set EQUITY_CATS \<and>
        expandable_child env depth ancestors h \<noteq> None) holdings"

definition equity_rollup ::
  "lt_env \<Rightarrow> int \<Rightarrow> string list \<Rightarrow> holding list \<Rightarrow> equity_inputs option \<Rightarrow>
   (real \<times> real \<times> (string, real) dict) option" where
  "equity_rollup env depth ancestors holdings inputs =
     (case inputs of
        None \<Rightarrow> None
      | Some ei \<Rightarrow> strip_wrappers ei (expanded_equity_wrappers env depth ancestors holdings) []
          (ei_gross ei, ei_net ei, ei_countries ei))"

definition add_country :: "int \<Rightarrow> real \<Rightarrow> string \<times> real \<Rightarrow> (string \<times> string, cell) dict \<Rightarrow> (string \<times> string, cell) dict" where
  "add_country depth weight cp exposures =
     (if \<bar>snd cp\<bar> < 1 / 10 ^ 12 then exposures
      else add_cell depth (snd cp * weight) ((''country'', fst cp), None) exposures)"

definition apply_rollup ::
  "int \<Rightarrow> real \<Rightarrow> (real \<times> real \<times> (string, real) dict) option \<Rightarrow> lt_state \<Rightarrow> lt_state" where
  "apply_rollup depth weight rollup st =
     (case rollup of
        None \<Rightarrow> st
      | Some (gross, net, countries) \<Rightarrow>
          st\<lparr> lt_summary := (lt_summary st)
                \<lparr> su_gross_equity := su_gross_equity (lt_summary st) + gross * \<bar>weight\<bar>,
                  su_net_equity := su_net_equity (lt_summary st) + net * weight \<rparr>,
             lt_exposures := fold (add_country depth weight) countries (lt_exposures st) \<rparr>)"

subsection \<open>The walk\<close>

definition see_report :: "date \<Rightarrow> lt_state \<Rightarrow> lt_state" where
  "see_report rd st =
     (if rd < su_oldest (lt_summary st) then st\<lparr> lt_summary := (lt_summary st)\<lparr> su_oldest := rd \<rparr> \<rparr> else st)"

definition note_expanded :: "int \<Rightarrow> real \<Rightarrow> string \<Rightarrow> lt_state \<Rightarrow> lt_state" where
  "note_expanded depth pct child st =
     st\<lparr> lt_summary := (if depth = 0
           then (lt_summary st)\<lparr> su_expanded_fund := su_expanded_fund (lt_summary st) + pct \<rparr> else lt_summary st),
        lt_expanded := List.insert child (lt_expanded st) \<rparr>"

definition note_fund :: "lt_env \<Rightarrow> holding \<Rightarrow> real \<Rightarrow> lt_state \<Rightarrow> lt_state" where
  "note_fund env h pct st =
     (if match_fund (le_fund_map env) h = None then st
      else st\<lparr> lt_summary := (lt_summary st)
        \<lparr> su_nondecomposable := su_nondecomposable (lt_summary st) + \<bar>pct\<bar> \<rparr> \<rparr>)"

lemma expandable_depth: "expandable_child env depth ancestors h = Some c \<Longrightarrow> depth < le_max_depth env"
  by (auto simp: expandable_child_def split: option.splits if_splits)

text \<open>
  A series without holdings cannot be unpacked; the walk only enters series that have some.
\<close>

function walk :: "lt_env \<Rightarrow> string \<Rightarrow> real \<Rightarrow> int \<Rightarrow> string list \<Rightarrow> lt_state \<Rightarrow> py_error + lt_state"
  and walk_holdings :: "lt_env \<Rightarrow> string \<Rightarrow> real \<Rightarrow> int \<Rightarrow> string list \<Rightarrow> equity_inputs option \<Rightarrow> bool \<Rightarrow>
    holding list \<Rightarrow> lt_state \<Rightarrow> py_error + lt_state" where
  "walk env sid weight depth ancestors st =
     (case le_holdings env sid of
        None \<Rightarrow> Inl TypeError
      | Some (rd, holdings) \<Rightarrow>
          (let inputs = le_equity env sid rd;
               rollup = equity_rollup env depth ancestors holdings inputs
           in walk_holdings env sid weight depth ancestors inputs (rollup \<noteq> None) holdings
                (apply_rollup depth weight rollup (see_report rd st))))"
| "walk_holdings env sid weight depth ancestors inputs use [] st = Inr st"
| "walk_holdings env sid weight depth ancestors inputs use (h # hs) st =
     (case h_pct_of_nav h of
        None \<Rightarrow> walk_holdings env sid weight depth ancestors inputs use hs st
      | Some raw_pct \<Rightarrow>
          (let local_pct = local_weight inputs h raw_pct; pct = local_pct * weight
           in case expandable_child env depth ancestors h of
                Some child \<Rightarrow>
                  (case walk env child (weight * local_pct / 100) (depth + 1) (sid # ancestors)
                          (note_expanded depth pct child st) of
                     Inl e \<Rightarrow> Inl e
                   | Inr st' \<Rightarrow> walk_holdings env sid weight depth ancestors inputs use hs st')
              | None \<Rightarrow> walk_holdings env sid weight depth ancestors inputs use hs
                  (note_fund env h pct (accumulate env h pct depth use st))))"
  by pat_completeness auto

termination
  by (relation "measures
    [\<lambda>x. case x of Inl (env, sid, w, depth, _) \<Rightarrow> nat (le_max_depth env - depth)
        | Inr (env, sid, w, depth, _) \<Rightarrow> nat (le_max_depth env - depth),
     \<lambda>x. case x of Inl _ \<Rightarrow> 1 | Inr _ \<Rightarrow> 0,
     \<lambda>x. case x of Inl _ \<Rightarrow> 0 | Inr (env, sid, w, depth, anc, inputs, use, hs, st) \<Rightarrow> length hs]")
    (auto dest: expandable_depth)

record lt_result =
  re_exposures :: "(string \<times> string, cell) dict"
  re_summary :: exposure_summary
  re_report_date :: date
  re_n_holdings :: nat
  re_n_children_expanded :: nat
  re_sum_pct_total :: real

definition expand_series :: "lt_env \<Rightarrow> string \<Rightarrow> py_error + lt_result" where
  "expand_series env series_id =
     (case le_holdings env series_id of
        None \<Rightarrow> Inl LookupError
      | Some (report_date, root_holdings) \<Rightarrow>
          bindE (walk env series_id 1 0 [series_id]
                   \<lparr> lt_exposures = [], lt_summary = empty_summary report_date, lt_expanded = [] \<rparr>)
            (\<lambda>st. Inr \<lparr> re_exposures = lt_exposures st, re_summary = lt_summary st,
               re_report_date = report_date, re_n_holdings = length root_holdings,
               re_n_children_expanded = length (lt_expanded st),
               re_sum_pct_total = su_direct (lt_summary st) + su_indirect (lt_summary st) \<rparr>))"

subsection \<open>The database reader\<close>

text \<open>
  The latest report of a series at or before the calculation date. The rows stand in the
  order of their key, so the holdings come in the order of the identifier. The columns read
  hold neither the payoff profile nor the investment country.
\<close>

record nport_row =
  nr_series :: string
  nr_report_date :: date
  nr_holding :: holding

definition read_columns :: "holding \<Rightarrow> holding" where
  "read_columns h = h\<lparr> h_payoff_profile := None, h_investment_country := None \<rparr>"

definition db_get_holdings ::
  "nport_row list \<Rightarrow> date \<Rightarrow> date option \<Rightarrow> string \<Rightarrow> (date \<times> holding list) option" where
  "db_get_holdings table calc_date minimum sid =
     (case map nr_report_date (filter (\<lambda>r. nr_series r = sid \<and> nr_report_date r \<le> calc_date) table) of
        [] \<Rightarrow> None
      | d # ds \<Rightarrow>
          (let report_date = list_max d ds
           in if (case minimum of None \<Rightarrow> False | Some m \<Rightarrow> report_date < m) then None
              else Some (report_date, map (read_columns \<circ> nr_holding)
                     (filter (\<lambda>r. nr_series r = sid \<and> nr_report_date r = report_date) table))))"

text \<open>The memo of the reader, shared by all the parents of a shard.\<close>

definition memo_get_holdings ::
  "nport_row list \<Rightarrow> date \<Rightarrow> date option \<Rightarrow> string \<Rightarrow> (string, (date \<times> holding list) option) dict \<Rightarrow>
   (date \<times> holding list) option \<times> (string, (date \<times> holding list) option) dict" where
  "memo_get_holdings table calc_date minimum sid memo =
     (case dict_get memo sid of
        Some r \<Rightarrow> (r, memo)
      | None \<Rightarrow> (let r = db_get_holdings table calc_date minimum sid in (r, dict_set sid r memo)))"

definition memo_ok where
  "memo_ok table calc_date minimum memo \<longleftrightarrow>
     (\<forall>sid r. dict_get memo sid = Some r \<longrightarrow> r = db_get_holdings table calc_date minimum sid)"

text \<open>So within a run the reader is a function, as the walk takes it.\<close>

lemma memo_transparent:
  assumes "memo_ok table calc_date minimum memo"
  shows "fst (memo_get_holdings table calc_date minimum sid memo) = db_get_holdings table calc_date minimum sid"
    and "memo_ok table calc_date minimum (snd (memo_get_holdings table calc_date minimum sid memo))"
  using assms by (auto simp: memo_get_holdings_def memo_ok_def Let_def split: option.split)

lemma read_report_date:
  assumes "db_get_holdings table calc_date minimum sid = Some (d, hs)"
  shows "d \<le> calc_date" and "\<forall>m. minimum = Some m \<longrightarrow> m \<le> d"
    and "\<forall>r \<in> set table. nr_series r = sid \<longrightarrow> nr_report_date r \<le> calc_date \<longrightarrow> nr_report_date r \<le> d"
proof -
  obtain x xs where xs: "map nr_report_date (filter (\<lambda>r. nr_series r = sid \<and> nr_report_date r \<le> calc_date) table) = x # xs"
    and d: "d = list_max x xs" and m: "\<forall>m. minimum = Some m \<longrightarrow> m \<le> d"
    using assms by (auto simp: db_get_holdings_def Let_def not_less split: list.splits if_splits option.splits)
  have s: "set (x # xs) = nr_report_date ` {r \<in> set table. nr_series r = sid \<and> nr_report_date r \<le> calc_date}"
    unfolding xs [symmetric] by auto
  show "d \<le> calc_date" using list_max_in [of x xs] unfolding s d by (elim imageE) simp
  show "\<forall>m. minimum = Some m \<longrightarrow> m \<le> d" by (rule m)
  show "\<forall>r \<in> set table. nr_series r = sid \<longrightarrow> nr_report_date r \<le> calc_date \<longrightarrow> nr_report_date r \<le> d"
    using list_max_ge [of _ x xs] s d by blast
qed

subsection \<open>The walk always returns\<close>

declare walk.simps [simp del] walk_holdings.simps(2) [simp del]

lemma expandable_holdings: "expandable_child env depth ancestors h = Some c \<Longrightarrow> le_holdings env c \<noteq> None"
  by (auto simp: expandable_child_def split: option.splits if_splits)

lemma walk_returns:
  shows "le_holdings env sid \<noteq> None \<Longrightarrow> is_Inr (walk env sid weight depth ancestors st)"
    and "is_Inr (walk_holdings env sid weight depth ancestors inputs use hs st)"
proof (induction env sid weight depth ancestors st and env sid weight depth ancestors inputs use hs st
    rule: walk_walk_holdings.induct)
  case (1 env sid weight depth ancestors st)
  then show ?case by (auto simp: walk.simps Let_def split: option.split)
next
  case (3 env sid weight depth ancestors inputs use h hs st)
  show ?case
  proof (cases "h_pct_of_nav h")
    case None
    then show ?thesis using 3(1) by (simp add: walk_holdings.simps)
  next
    case (Some raw)
    show ?thesis
    proof (cases "expandable_child env depth ancestors h")
      case None
      then show ?thesis using 3(2) [OF Some refl refl None] Some by (simp add: walk_holdings.simps Let_def)
    next
      case (Some child)
      note w = 3(3) [OF \<open>h_pct_of_nav h = Some raw\<close> refl refl Some expandable_holdings [OF Some]]
      then obtain st' where st': "walk env child (weight * local_weight inputs h raw / 100) (depth + 1) (sid # ancestors)
          (note_expanded depth (local_weight inputs h raw * weight) child st) = Inr st'" by blast
      then show ?thesis using 3(4) [OF \<open>h_pct_of_nav h = Some raw\<close> refl refl Some st'] Some st'
          \<open>h_pct_of_nav h = Some raw\<close> by (simp add: walk_holdings.simps Let_def)
    qed
  qed
qed simp_all

lemma expand_series_returns:
  assumes "le_holdings env series_id \<noteq> None"
  shows "\<exists>r. expand_series env series_id = Inr r"
proof -
  obtain rd hs where h: "le_holdings env series_id = Some (rd, hs)" using assms by auto
  have "is_Inr (walk env series_id 1 0 [series_id]
      \<lparr> lt_exposures = [], lt_summary = empty_summary rd, lt_expanded = [] \<rparr>)"
    by (rule walk_returns) (simp add: h)
  then show ?thesis by (auto simp: expand_series_def h)
qed

text \<open>
  The look-through of a fund always ends with a result, however the funds hold each
  other: it fails exactly when the fund itself has no holdings, and then with a lookup error.
\<close>

theorem expand_series_total:
  "if le_holdings env series_id = None then expand_series env series_id = Inl LookupError
   else (\<exists>r. expand_series env series_id = Inr r)"
  using expand_series_returns [of env series_id] by (simp add: expand_series_def)

subsection \<open>What the walk adds up\<close>

text \<open>The weight of the holdings \<open>g\<close> selects, along every path the look-through follows.\<close>

function path_sum :: "lt_env \<Rightarrow> (holding \<Rightarrow> real) \<Rightarrow> string \<Rightarrow> int \<Rightarrow> string list \<Rightarrow> real" where
  "path_sum env g sid depth ancestors =
     (case le_holdings env sid of
        None \<Rightarrow> 0
      | Some (rd, holdings) \<Rightarrow>
          sum_list (map (\<lambda>h. case h_pct_of_nav h of
              None \<Rightarrow> 0
            | Some raw_pct \<Rightarrow>
                (case expandable_child env depth ancestors h of
                   Some child \<Rightarrow> local_weight (le_equity env sid rd) h raw_pct / 100 *
                     path_sum env g child (depth + 1) (sid # ancestors)
                 | None \<Rightarrow> g h * local_weight (le_equity env sid rd) h raw_pct)) holdings))"
  by pat_completeness auto

termination
  by (relation "measure (\<lambda>(env, g, sid, depth, anc). nat (le_max_depth env - depth))")
    (auto dest: expandable_depth)

declare path_sum.simps [simp del]

definition holding_sum :: "lt_env \<Rightarrow> (holding \<Rightarrow> real) \<Rightarrow> string \<Rightarrow> int \<Rightarrow> string list \<Rightarrow> equity_inputs option \<Rightarrow> holding \<Rightarrow> real" where
  "holding_sum env g sid depth ancestors inputs h =
     (case h_pct_of_nav h of
        None \<Rightarrow> 0
      | Some raw_pct \<Rightarrow>
          (case expandable_child env depth ancestors h of
             Some child \<Rightarrow> local_weight inputs h raw_pct / 100 *
               path_sum env g child (depth + 1) (sid # ancestors)
           | None \<Rightarrow> g h * local_weight inputs h raw_pct))"

lemma path_sum_holdings:
  "le_holdings env sid = Some (rd, hs) \<Longrightarrow>
   path_sum env g sid depth ancestors = sum_list (map (holding_sum env g sid depth ancestors (le_equity env sid rd)) hs)"
  by (simp add: path_sum.simps holding_sum_def [abs_def])

text \<open>
  A meter reads a state: a counted holding moves it by its weight, and nothing else in the
  walk moves it. Then a series moves it by its path sum, in proportion to its weight.
\<close>

definition meter :: "lt_env \<Rightarrow> (lt_state \<Rightarrow> real) \<Rightarrow> (holding \<Rightarrow> real) \<Rightarrow> bool" where
  "meter env m g \<longleftrightarrow>
     (\<forall>h pct depth use st. m (accumulate env h pct depth use st) = m st + g h * pct) \<and>
     (\<forall>depth w r st. m (apply_rollup depth w r st) = m st) \<and>
     (\<forall>rd st. m (see_report rd st) = m st) \<and>
     (\<forall>depth pct c st. m (note_expanded depth pct c st) = m st) \<and>
     (\<forall>h pct st. m (note_fund env h pct st) = m st)"

lemma meterD:
  assumes "meter env m g"
  shows "m (accumulate env h pct depth use st) = m st + g h * pct"
    "m (apply_rollup depth w r st) = m st" "m (see_report rd st) = m st"
    "m (note_expanded depth pct c st) = m st" "m (note_fund env h pct st) = m st"
  using assms unfolding meter_def by blast+

lemma walk_meter:
  shows "meter env m g \<Longrightarrow> walk env sid weight depth ancestors st = Inr st' \<Longrightarrow>
      m st' = m st + weight * path_sum env g sid depth ancestors"
    and "meter env m g \<Longrightarrow> walk_holdings env sid weight depth ancestors inputs use hs st = Inr st' \<Longrightarrow>
      m st' = m st + weight * sum_list (map (holding_sum env g sid depth ancestors inputs) hs)"
proof (induction env sid weight depth ancestors st and env sid weight depth ancestors inputs use hs st
    arbitrary: st' and st' rule: walk_walk_holdings.induct)
  case (1 env sid weight depth ancestors st)
  obtain rd hs where h: "le_holdings env sid = Some (rd, hs)"
    using 1(3) by (auto simp: walk.simps split: option.splits)
  let ?in = "le_equity env sid rd"
  let ?ro = "equity_rollup env depth ancestors hs ?in"
  have "walk_holdings env sid weight depth ancestors ?in (?ro \<noteq> None) hs
      (apply_rollup depth weight ?ro (see_report rd st)) = Inr st'"
    using 1(3) h by (simp add: walk.simps Let_def)
  from 1(1) [OF h refl refl refl 1(2) this]
  show ?case by (simp add: meterD [OF 1(2)] path_sum_holdings [OF h])
next
  case (3 env sid weight depth ancestors inputs use h hs st)
  note m = meterD [OF 3(5)] and run = 3(6)
  show ?case
  proof (cases "h_pct_of_nav h")
    case None
    then show ?thesis using 3(1) [OF None 3(5)] run by (simp add: walk_holdings.simps holding_sum_def)
  next
    case (Some raw)
    note raw = this
    let ?l = "local_weight inputs h raw"
    show ?thesis
    proof (cases "expandable_child env depth ancestors h")
      case None
      then show ?thesis using 3(2) [OF raw refl refl None 3(5)] run raw
        by (simp add: walk_holdings.simps Let_def m holding_sum_def algebra_simps)
    next
      case (Some child)
      obtain st1 where w: "walk env child (weight * ?l / 100) (depth + 1) (sid # ancestors)
          (note_expanded depth (?l * weight) child st) = Inr st1"
        and rest: "walk_holdings env sid weight depth ancestors inputs use hs st1 = Inr st'"
        using run raw Some by (auto simp: walk_holdings.simps Let_def split: sum.splits)
      have "m st1 = m st + weight * ?l / 100 * path_sum env g child (depth + 1) (sid # ancestors)"
        using 3(3) [OF raw refl refl Some 3(5) w] by (simp add: m)
      then show ?thesis using 3(4) [OF raw refl refl Some w 3(5) rest] raw Some
        by (simp add: holding_sum_def algebra_simps)
    qed
  qed
qed simp

definition cell_total :: "(string \<times> string, cell) dict \<Rightarrow> string \<times> string \<Rightarrow> real" where
  "cell_total exposures k =
     (case dict_get exposures k of None \<Rightarrow> 0 | Some c \<Rightarrow> cl_direct c + cl_indirect c)"

definition counted :: "lt_env \<Rightarrow> string \<times> string \<Rightarrow> holding \<Rightarrow> real" where
  "counted env k h = (if k \<in> fst ` set (holding_keys env True h) then 1 else 0)"

definition added_cell :: "int \<Rightarrow> real \<Rightarrow> string option \<Rightarrow> cell \<Rightarrow> cell" where
  "added_cell depth pct label old =
     (let c = add_side depth pct old
      in if nonempty label \<noteq> None \<and> nonempty (cl_label c) = None then c\<lparr> cl_label := label \<rparr> else c)"

lemma add_cell_eq:
  "add_cell depth pct (k, label) e = dict_set k (added_cell depth pct label (dict_get_default e k empty_cell)) e"
  by (simp add: add_cell_def added_cell_def Let_def)

lemma added_cell_sides [simp]:
  "cl_direct (added_cell depth pct label c) = cl_direct c + (if depth = 0 then pct else 0)"
  "cl_indirect (added_cell depth pct label c) = cl_indirect c + (if depth = 0 then 0 else pct)"
  by (simp_all add: added_cell_def add_side_def Let_def)

lemma add_cell_total:
  "cell_total (add_cell depth pct kl e) k = cell_total e k + (if fst kl = k then pct else 0)"
  by (cases kl) (auto simp: cell_total_def add_cell_eq dict_get_default_def empty_cell_def split: option.split)

lemma add_cells_total:
  "distinct (map fst kls) \<Longrightarrow>
   cell_total (fold (add_cell depth pct) kls e) k = cell_total e k + (if k \<in> fst ` set kls then pct else 0)"
  by (induction kls arbitrary: e) (auto simp: add_cell_total)

lemma holding_keys_distinct: "distinct (map fst (holding_keys env use h))"
  by (simp add: holding_keys_def split: option.split)

lemma holding_keys_counted:
  assumes "fst k \<noteq> ''country''"
  shows "(if k \<in> fst ` set (holding_keys env use h) then pct else 0) = counted env k h * pct"
  using assms by (auto simp: counted_def holding_keys_def split: option.splits if_splits)

lemma add_country_total:
  "fst k \<noteq> ''country'' \<Longrightarrow> cell_total (fold (add_country depth w) cs e) k = cell_total e k"
  by (induction cs arbitrary: e) (auto simp: add_country_def add_cell_total)

lemmas step_defs = see_report_def note_expanded_def note_fund_def accumulate_def

lemma cell_meter: "fst k \<noteq> ''country'' \<Longrightarrow> meter env (\<lambda>st. cell_total (lt_exposures st) k) (counted env k)"
  unfolding meter_def
  by (simp add: step_defs apply_rollup_def add_country_total add_cells_total holding_keys_distinct
      holding_keys_counted split: option.split)

lemma summary_classes_keeps [simp]:
  "su_direct (summary_classes h pct use su) = su_direct su"
  "su_indirect (summary_classes h pct use su) = su_indirect su"
  "su_oldest (summary_classes h pct use su) = su_oldest su"
  by (simp_all add: summary_classes_def Let_def)

lemma total_meter: "meter env (\<lambda>st. su_direct (lt_summary st) + su_indirect (lt_summary st)) (\<lambda>h. 1)"
  unfolding meter_def
  by (auto simp: step_defs apply_rollup_def summary_side_def split: option.split)

text \<open>A successful expansion is a walk from the empty state.\<close>

lemma expand_seriesE:
  assumes "expand_series env sid = Inr r"
  obtains rd hs st where "le_holdings env sid = Some (rd, hs)"
    "walk env sid 1 0 [sid] \<lparr> lt_exposures = [], lt_summary = empty_summary rd, lt_expanded = [] \<rparr> = Inr st"
    "re_exposures r = lt_exposures st" "re_summary r = lt_summary st" "re_report_date r = rd"
    "re_n_holdings r = length hs" "re_n_children_expanded r = length (lt_expanded st)"
    "re_sum_pct_total r = su_direct (lt_summary st) + su_indirect (lt_summary st)"
  using assms by (auto simp: expand_series_def bindE_Inr_iff split: option.splits)


subsection \<open>Each dimension accounts for the whole fund\<close>

definition dim_sum :: "(cell \<Rightarrow> real) \<Rightarrow> string \<Rightarrow> (string \<times> string, cell) dict \<Rightarrow> real" where
  "dim_sum f axis e = sum_list (map (\<lambda>(k, c). if fst k = axis then f c else 0) e)"

lemma dict_set_sum:
  fixes F :: "'k \<times> 'v \<Rightarrow> real"
  shows "sum_list (map F (dict_set k v d))
    = sum_list (map F d) - (case dict_get d k of None \<Rightarrow> 0 | Some w \<Rightarrow> F (k, w)) + F (k, v)"
  by (induction d) auto

lemma add_cell_dim_sum:
  "dim_sum cl_direct axis (add_cell depth pct kl e)
     = dim_sum cl_direct axis e + (if fst (fst kl) = axis \<and> depth = 0 then pct else 0)"
  "dim_sum cl_indirect axis (add_cell depth pct kl e)
     = dim_sum cl_indirect axis e + (if fst (fst kl) = axis \<and> depth \<noteq> 0 then pct else 0)"
  by (cases kl; auto simp: dim_sum_def add_cell_eq dict_set_sum dict_get_default_def empty_cell_def
      split: option.split)+

lemma add_countries_dim_sum:
  assumes "axis \<noteq> ''country''"
  shows "dim_sum cl_direct axis (fold (add_country depth w) cs e) = dim_sum cl_direct axis e"
    "dim_sum cl_indirect axis (fold (add_country depth w) cs e) = dim_sum cl_indirect axis e"
  using assms by (induction cs arbitrary: e) (auto simp: add_country_def add_cell_dim_sum)

lemma holding_keys_dim_sum:
  assumes "axis \<in> {''issuer'', ''asset_class'', ''sector'', ''currency''}"
  shows "dim_sum cl_direct axis (fold (add_cell depth pct) (holding_keys env use h) e)
      = dim_sum cl_direct axis e + (if depth = 0 then pct else 0)"
    "dim_sum cl_indirect axis (fold (add_cell depth pct) (holding_keys env use h) e)
      = dim_sum cl_indirect axis e + (if depth = 0 then 0 else pct)"
  using assms by (auto simp: holding_keys_def add_cell_dim_sum split: option.split)

lemma dimension_meter:
  assumes "axis \<in> {''issuer'', ''asset_class'', ''sector'', ''currency''}"
  shows "meter env (\<lambda>st. dim_sum cl_direct axis (lt_exposures st) - su_direct (lt_summary st)) (\<lambda>h. 0)"
    "meter env (\<lambda>st. dim_sum cl_indirect axis (lt_exposures st) - su_indirect (lt_summary st)) (\<lambda>h. 0)"
proof -
  have "axis \<noteq> ''country''" using assms by auto
  then show "meter env (\<lambda>st. dim_sum cl_direct axis (lt_exposures st) - su_direct (lt_summary st)) (\<lambda>h. 0)"
    "meter env (\<lambda>st. dim_sum cl_indirect axis (lt_exposures st) - su_indirect (lt_summary st)) (\<lambda>h. 0)"
    unfolding meter_def
    by (simp_all add: step_defs apply_rollup_def summary_side_def add_countries_dim_sum
        holding_keys_dim_sum [OF assms] split: option.split)
qed

lemma path_sum_zero: "path_sum env (\<lambda>h. 0) sid depth ancestors = 0"
proof (induction env "\<lambda>h :: holding. 0 :: real" sid depth ancestors rule: path_sum.induct)
  case (1 env sid depth ancestors)
  show ?case
  proof (cases "le_holdings env sid")
    case (Some rh)
    obtain rd hs where rh: "rh = (rd, hs)" by (cases rh)
    have "holding_sum env (\<lambda>h. 0) sid depth ancestors inputs h = 0" if "h \<in> set hs" for h inputs
      using 1 [OF Some rh [symmetric] that] by (auto simp: holding_sum_def split: option.split)
    then show ?thesis using Some rh by (simp add: path_sum_holdings cong: map_cong)
  qed (simp add: path_sum.simps)
qed

text \<open>
  C15: every dimension accounts for the whole fund. The direct exposures of the issuers add up
  to the direct weight and the indirect ones to the indirect weight, and so do those of the
  asset classes, the sectors and the currencies.
\<close>

theorem dimensions_account_for_the_fund:
  assumes "expand_series env sid = Inr r" "axis \<in> {''issuer'', ''asset_class'', ''sector'', ''currency''}"
  shows "dim_sum cl_direct axis (re_exposures r) = su_direct (re_summary r) \<and>
    dim_sum cl_indirect axis (re_exposures r) = su_indirect (re_summary r)"
proof -
  obtain rd hs st where w: "walk env sid 1 0 [sid]
      \<lparr> lt_exposures = [], lt_summary = empty_summary rd, lt_expanded = [] \<rparr> = Inr st"
    "re_exposures r = lt_exposures st" "re_summary r = lt_summary st"
    using assms(1) by (rule expand_seriesE)
  from walk_meter(1) [OF dimension_meter(1) [OF assms(2)] w(1)]
    walk_meter(1) [OF dimension_meter(2) [OF assms(2)] w(1)]
  show ?thesis by (simp add: w(2,3) path_sum_zero empty_summary_def dim_sum_def)
qed

subsection \<open>A fund that holds itself\<close>

lemma empty_summary_simps [simp]:
  "su_nondecomposable (empty_summary d) = 0" "su_direct (empty_summary d) = 0"
  "su_indirect (empty_summary d) = 0" "su_oldest (empty_summary d) = d"
  by (simp_all add: empty_summary_def)

lemma nondecomposable_steps [simp]:
  "su_nondecomposable (summary_classes h pct use su) = su_nondecomposable su"
  "su_nondecomposable (summary_side depth pct su) = su_nondecomposable su"
  by (simp_all add: summary_classes_def summary_side_def Let_def)

text \<open>
  C16: the cycle guard misses a fund that holds itself one level down. A fund \<open>R\<close> holds \<open>p\<close>
  percent of \<open>C\<close>, and \<open>C\<close> holds \<open>q\<close> percent of itself and \<open>r\<close> percent of something else. The
  share of \<open>C\<close> in itself is a cycle, yet it is expanded once more: the other holding counts
  \<open>1 + q/100\<close> times, and only the square of \<open>q\<close> is reported as not decomposable.
\<close>

theorem self_holding_expanded_again:
  assumes "le_holdings env R = Some (d, [hc])" "le_holdings env C = Some (d', [hself, hx])" "R \<noteq> C"
    and "match_fund (le_fund_map env) hc = Some C" "match_fund (le_fund_map env) hself = Some C"
    and "match_fund (le_fund_map env) hx = None"
    and "le_max_depth env = MAX_DEPTH" "\<And>s rd. le_equity env s rd = None"
    and "h_pct_of_nav hc = Some p" "h_pct_of_nav hself = Some q" "h_pct_of_nav hx = Some r"
    and "\<And>h. h \<in> {hc, hself, hx} \<Longrightarrow> h_payoff_profile h = None"
  shows "\<exists>res. expand_series env R = Inr res \<and> re_n_children_expanded res = 1 \<and>
    su_nondecomposable (re_summary res) = \<bar>p / 100 * (q / 100) * q\<bar> \<and>
    re_sum_pct_total res = p / 100 * (q / 100) * q + p / 100 * (1 + q / 100) * r"
proof -
  have lw: "local_weight None h v = v" if "h \<in> {hc, hself, hx}" for h v
    using assms(12) [OF that] by (simp add: local_weight_def text_or_def strip_def str_upper_def)
  have ex: "expandable_child env depth anc h
      = (if h = hx then None else if C \<notin> set anc \<and> depth < 2 then Some C else None)"
    if "h \<in> {hc, hself, hx}" for h depth anc
    using that assms(2,4-7) by (auto simp: expandable_child_def MAX_DEPTH_def)
  have ne: "hc \<noteq> hx" "hself \<noteq> hx" using assms(4-6) by auto
  have ro: "equity_rollup env depth anc hs None = None" for depth anc hs by (simp add: equity_rollup_def)
  show ?thesis
    using assms(3)
    by (simp add: expand_series_def assms(1,2,4-11) walk.simps walk_holdings.simps Let_def ex lw ne ro
        apply_rollup_def step_defs summary_side_def split: if_splits) (simp add: field_simps)
qed

text \<open>A fund of one fund that holds half of itself and half in a stock.\<close>

definition demo_holding :: "string \<Rightarrow> string \<Rightarrow> real \<Rightarrow> holding" where
  "demo_holding cusip asset pct =
     \<lparr> h_cusip = Some cusip, h_isin = None, h_issuer_name = None, h_asset_class = Some asset, h_sector = None,
       h_currency = Some ''USD'', h_pct_of_nav = Some pct, h_payoff_profile = None, h_investment_country = None \<rparr>"

definition demo_lt_env :: lt_env where
  "demo_lt_env =
     \<lparr> le_holdings = (\<lambda>s. if s = ''R'' then Some (Date 2026 6 30, [demo_holding ''111111111'' ''EC'' 100])
          else if s = ''C'' then Some (Date 2026 5 31, [demo_holding ''111111111'' ''EC'' 50, demo_holding ''037833100'' ''EC'' 50])
          else None),
       le_fund_map = \<lparr> fm_cusip = (\<lambda>c. if c = ''111111111'' then Some ''C'' else None), fm_isin = (\<lambda>i. None) \<rparr>,
       le_sector_map = (\<lambda>k. None), le_equity = (\<lambda>s d. None), le_max_depth = MAX_DEPTH \<rparr>"

lemma demo_match:
  "match_fund (le_fund_map demo_lt_env) (demo_holding ''111111111'' a p) = Some ''C''"
  "match_fund (le_fund_map demo_lt_env) (demo_holding ''037833100'' a p) = None"
  by (simp_all add: match_fund_def demo_lt_env_def demo_holding_def text_or_def starts_with_def
      UNIDENTIFIED_PREFIXES_def Let_def or_else_def nonempty_def)

theorem self_holding_expanded_again_witness:
  "\<exists>res. expand_series demo_lt_env ''R'' = Inr res \<and> re_n_children_expanded res = 1 \<and>
    su_nondecomposable (re_summary res) = 25 \<and> re_sum_pct_total res = 100"
proof -
  have "\<exists>res. expand_series demo_lt_env ''R'' = Inr res \<and> re_n_children_expanded res = 1 \<and>
    su_nondecomposable (re_summary res) = \<bar>100 / 100 * (50 / 100) * 50\<bar> \<and>
    re_sum_pct_total res = 100 / 100 * (50 / 100) * 50 + 100 / 100 * (1 + 50 / 100) * 50"
    by (rule self_holding_expanded_again [where C = "''C''" and d = "Date 2026 6 30" and d' = "Date 2026 5 31"
          and hc = "demo_holding ''111111111'' ''EC'' 100" and hself = "demo_holding ''111111111'' ''EC'' 50"
          and hx = "demo_holding ''037833100'' ''EC'' 50"])
      (auto simp: demo_match, auto simp: demo_lt_env_def demo_holding_def)
  then show ?thesis by simp
qed

lemma demo_keys:
  "holding_keys demo_lt_env True (demo_holding c ''EC'' p)
   = [((''issuer'', issuer_key (Some c) None), None), ((''asset_class'', ''EC''), None),
      ((''sector'', ''Unclassified''), None), ((''currency'', ''USD''), None)]"
proof -
  have e: "str_upper (strip ''EC'') = ''EC''" "str_upper (strip []) = []" by code_simp+
  show ?thesis
    by (simp add: holding_keys_def demo_holding_def demo_lt_env_def text_or_def sector_label_def e
        EQUITY_CATS_def nonempty_def or_else_def)
qed


theorem dimensions_account_for_the_fund_witness:
  "\<exists>r. expand_series demo_lt_env ''R'' = Inr r \<and>
     dim_sum cl_direct ''currency'' (re_exposures r) = su_direct (re_summary r)"
proof -
  obtain r where r: "expand_series demo_lt_env ''R'' = Inr r"
    using expand_series_returns [of demo_lt_env "''R''"] by (auto simp: demo_lt_env_def)
  then show ?thesis using dimensions_account_for_the_fund [OF r, of "''currency''"] by simp
qed

end
