(* ===== verification/Bond_Identity.thy ===== *)
theory Bond_Identity
  imports Calendar
begin

text \<open>
  The vocabulary of the observed bond panel: Python values of unknown type, the states of
  fields, identifiers and categories (\<open>src/bonds/states.py\<close>), the qualification of a CUSIP
  (\<open>src/bonds/identifiers.py\<close>), the debt mapping (\<open>src/bonds/debt_mapping.py\<close>) and the price
  eligibility predicate (\<open>src/bonds/eligibility.py\<close>).
\<close>

subsection \<open>Values\<close>

text \<open>
  A value read from a row. \<open>VFloat\<close> is a finite float, \<open>VOther\<close> any value that is neither a
  text nor a number.
\<close>

datatype pv = VNone | VBool bool | VInt int | VFloat real | VNan | VInf bool | VStr string | VOther

datatype bond_error = BondError string | DriverError string

text \<open>The integers and sums a double can hold are those below this bound in magnitude.\<close>

definition FLOAT_LIMIT :: int where "FLOAT_LIMIT = 2 ^ 1024 - 2 ^ 970"

definition finite_number :: "pv \<Rightarrow> real option" where
  "finite_number v =
     (case v of
        VInt n \<Rightarrow> if \<bar>n\<bar> < FLOAT_LIMIT then Some (of_int n) else None
      | VFloat x \<Rightarrow> Some x
      | _ \<Rightarrow> None)"

text \<open>\<open>isinstance(v, (Real, Decimal)) and not isinstance(v, bool)\<close>\<close>

definition is_numeric :: "pv \<Rightarrow> bool" where
  "is_numeric v = (case v of VInt n \<Rightarrow> True | VFloat x \<Rightarrow> True | VNan \<Rightarrow> True | VInf b \<Rightarrow> True | _ \<Rightarrow> False)"

subsection \<open>States\<close>

datatype field_state = FieldPresent | FieldNull | FieldInvalid | NotInSchema

fun field_state_value :: "field_state \<Rightarrow> string" where
  "field_state_value FieldPresent = ''present''"
| "field_state_value FieldNull = ''null''"
| "field_state_value FieldInvalid = ''invalid''"
| "field_state_value NotInSchema = ''not_in_schema''"

datatype identifier_state = ValidCusip9 | Blank | Placeholder | Synthetic | InvalidFormat

datatype debt_state = DebtLikeEligible | IneligibleNonDebt | AmbiguousCategory | MissingCategory

datatype match_state =
    MatchIneligibleNonDebt | MatchAmbiguousCategory | MatchMissingCategory | InvalidIdentifier
  | OutsideWindowBeforeSource | OutsideWindowAfterCutoff | UnmatchedNoCusip
  | UnmatchedNoPriorObservation | Stale | UnavailableAmbiguous | Matched

text \<open>\<open>MatchState(state.value)\<close>; an eligible category is no match state.\<close>

fun state_for_category :: "debt_state \<Rightarrow> match_state option" where
  "state_for_category IneligibleNonDebt = Some MatchIneligibleNonDebt"
| "state_for_category AmbiguousCategory = Some MatchAmbiguousCategory"
| "state_for_category MissingCategory = Some MatchMissingCategory"
| "state_for_category DebtLikeEligible = None"

subsection \<open>CUSIPs\<close>

definition PLACEHOLDERS :: "string list" where
  "PLACEHOLDERS = [''000000000'', ''XXXXXXXXX'', ''NNNNNNNNN'', ''999999999'', ''N/A'', ''NA'', ''NONE'',
     ''NULL'', ''UNKNOWN'']"

definition CUSIP_SYNTHETIC_PREFIXES :: "string list" where
  "CUSIP_SYNTHETIC_PREFIXES = [''IS:'', ''LE:'', ''H:'', ''CIK:'']"

datatype transformation = Rejected | Identity | TrimUpper

record normalized_cusip =
  nc_original :: pv
  nc_cusip9 :: "string option"
  nc_state :: identifier_state
  nc_transformation :: transformation

definition rejected :: "pv \<Rightarrow> identifier_state \<Rightarrow> normalized_cusip" where
  "rejected v st = \<lparr> nc_original = v, nc_cusip9 = None, nc_state = st, nc_transformation = Rejected \<rparr>"

definition is_ascii :: "string \<Rightarrow> bool" where
  "is_ascii s = list_all (\<lambda>c. ord_of c < 128) s"

definition normalize_cusip9 :: "pv \<Rightarrow> normalized_cusip" where
  "normalize_cusip9 v =
     (case v of
        VNone \<Rightarrow> rejected v Blank
      | VStr s \<Rightarrow>
          (let n = str_upper (strip s)
           in if n = [] then rejected v Blank
              else if n \<in> set PLACEHOLDERS then rejected v Placeholder
              else if starts_with CUSIP_SYNTHETIC_PREFIXES n then rejected v Synthetic
              else if length n \<noteq> 9 \<or> \<not> is_ascii n \<or> \<not> list_all is_alnum n then rejected v InvalidFormat
              else \<lparr> nc_original = v, nc_cusip9 = Some n, nc_state = ValidCusip9,
                     nc_transformation = (if s = n then Identity else TrimUpper) \<rparr>)
      | _ \<Rightarrow> rejected v InvalidFormat)"

abbreviation cusip9_of :: "pv \<Rightarrow> string option" where
  "cusip9_of v \<equiv> nc_cusip9 (normalize_cusip9 v)"

subsection \<open>The debt mapping\<close>

datatype rule = RuleMapping "(string, pv) dict" | RuleSequence "pv list" | RuleOther

type_synonym debt_rules = "((string \<times> string \<times> string) \<times> debt_state) list"

definition decision_of :: "pv \<Rightarrow> debt_state option" where
  "decision_of v =
     (if v = VStr ''eligible_debt'' then Some DebtLikeEligible
      else if v = VStr ''non_debt_excluded'' then Some IneligibleNonDebt else None)"

definition RULE_FIELDS :: "string list" where
  "RULE_FIELDS = [''issuer_category'', ''asset_class'', ''instrument_structure'']"

definition rule_parts :: "rule \<Rightarrow> bond_error + pv list" where
  "rule_parts r =
     (case r of
        RuleMapping m \<Rightarrow>
          if set (dict_keys m) = set (RULE_FIELDS @ [''decision''])
          then Inr (map (\<lambda>k. dict_get_default m k VNone) (RULE_FIELDS @ [''decision'']))
          else Inl (BondError ''invalid_debt_mapping'')
      | RuleSequence vs \<Rightarrow> if length vs = 4 then Inr vs else Inl (BondError ''invalid_debt_mapping'')
      | RuleOther \<Rightarrow> Inl (BondError ''invalid_debt_mapping''))"

definition rule_entry :: "pv list \<Rightarrow> bond_error + (string \<times> string \<times> string) \<times> debt_state" where
  "rule_entry vs =
     (case vs of
        [VStr a, VStr b, VStr c, dec] \<Rightarrow>
          (case decision_of dec of
             Some st \<Rightarrow> if a = [] \<or> b = [] \<or> c = [] then Inl (BondError ''invalid_debt_mapping'')
                        else Inr ((a, b, c), st)
           | None \<Rightarrow> Inl (BondError ''invalid_debt_mapping''))
      | _ \<Rightarrow> Inl (BondError ''invalid_debt_mapping''))"

fun normalize_rule_list :: "rule list \<Rightarrow> (string \<times> string \<times> string) list \<Rightarrow> bond_error + debt_rules" where
  "normalize_rule_list [] seen = Inr []"
| "normalize_rule_list (r # rs) seen =
     bindE (rule_parts r) (\<lambda>vs. bindE (rule_entry vs) (\<lambda>(key, st).
       if key \<in> set seen then Inl (BondError ''duplicate_debt_rule'')
       else bindE (normalize_rule_list rs (key # seen)) (\<lambda>out. Inr ((key, st) # out))))"

definition normalize_rules :: "rule list \<Rightarrow> bond_error + debt_rules" where
  "normalize_rules rules =
     (if rules = [] then Inl (BondError ''invalid_debt_mapping'') else normalize_rule_list rules [])"

definition classify :: "debt_rules \<Rightarrow> pv \<Rightarrow> pv \<Rightarrow> pv \<Rightarrow> debt_state" where
  "classify m issuer_category asset_class instrument_structure =
     (if list_ex (\<lambda>v. v = VNone \<or> v = VStr []) [issuer_category, asset_class, instrument_structure]
      then MissingCategory
      else (case (issuer_category, asset_class, instrument_structure) of
              (VStr a, VStr b, VStr c) \<Rightarrow> dict_get_default m (a, b, c) AmbiguousCategory
            | _ \<Rightarrow> AmbiguousCategory))"

subsection \<open>Price eligibility\<close>

record price_states =
  ps_price_type :: string
  ps_accrued_treatment :: string
  ps_identity_state :: string
  ps_daily_key_state :: string
  ps_price_state :: string

definition price_observation_is_eligible :: "price_states \<Rightarrow> bool" where
  "price_observation_is_eligible p \<longleftrightarrow>
     ps_price_type p \<in> {''trade'', ''evaluated''} \<and> ps_accrued_treatment p \<in> {''clean'', ''dirty''} \<and>
     ps_identity_state p = ''resolved'' \<and> ps_daily_key_state p = ''unique_in_matching_cohort'' \<and>
     ps_price_state p = ''present''"

definition eligibility_reason :: "price_states \<Rightarrow> string option" where
  "eligibility_reason p =
     (if ps_price_type p \<notin> {''trade'', ''evaluated''} then Some ''price_type_not_eligible''
      else if ps_accrued_treatment p \<notin> {''clean'', ''dirty''} then Some ''accrued_treatment_unknown''
      else if ps_identity_state p \<noteq> ''resolved'' then Some ''identity_unresolved''
      else if ps_daily_key_state p \<noteq> ''unique_in_matching_cohort'' then Some ''identity_ambiguous''
      else if ps_price_state p \<noteq> ''present'' then Some ''price_absent'' else None)"

subsection \<open>Qualified identifiers are fixed points\<close>

lemma alnum_not_space: "is_alnum c \<Longrightarrow> \<not> is_space c"
  by (auto simp: is_alnum_def is_digit_def is_upper_def is_lower_def is_space_def ord_of_def)

lemma normalize_cusip9_valid:
  assumes "cusip9_of v = Some c"
  shows "length c = 9" "list_all is_alnum c" "is_ascii c" "str_upper c = c" "strip c = c"
    "c \<notin> set PLACEHOLDERS" "\<not> starts_with CUSIP_SYNTHETIC_PREFIXES c" "nc_state (normalize_cusip9 v) = ValidCusip9"
proof -
  obtain s where s: "v = VStr s" "c = str_upper (strip s)"
    and p: "length c = 9" "list_all is_alnum c" "is_ascii c" "c \<notin> set PLACEHOLDERS"
      "\<not> starts_with CUSIP_SYNTHETIC_PREFIXES c" "nc_state (normalize_cusip9 v) = ValidCusip9"
    using assms by (auto simp: normalize_cusip9_def rejected_def Let_def split: pv.splits if_splits)
  then show "length c = 9" "list_all is_alnum c" "is_ascii c" "str_upper c = c"
    "c \<notin> set PLACEHOLDERS" "\<not> starts_with CUSIP_SYNTHETIC_PREFIXES c" "nc_state (normalize_cusip9 v) = ValidCusip9"
    by simp_all
  have "c \<noteq> []" using p(1) by auto
  then have "hd c \<in> set c" "last c \<in> set c" by simp_all
  then show "strip c = c"
    using p(2) \<open>c \<noteq> []\<close> by (intro strip_cons) (auto simp: list_all_iff alnum_not_space)
qed

lemma normalize_cusip9_fixed:
  assumes "cusip9_of v = Some c"
  shows "normalize_cusip9 (VStr c)
    = \<lparr> nc_original = VStr c, nc_cusip9 = Some c, nc_state = ValidCusip9, nc_transformation = Identity \<rparr>"
proof -
  note n = normalize_cusip9_valid [OF assms]
  have "c \<noteq> []" using n(1) by auto
  then show ?thesis using n by (simp add: normalize_cusip9_def Let_def)
qed

lemma eligibility_reason_None: "eligibility_reason p = None \<longleftrightarrow> price_observation_is_eligible p"
  by (simp add: eligibility_reason_def price_observation_is_eligible_def)

text \<open>The rules of an accepted mapping have distinct keys, so the lookup is unambiguous.\<close>

lemma normalize_rule_list_ok:
  "normalize_rule_list rs seen = Inr m \<Longrightarrow>
   dict_ok m \<and> length m = length rs \<and> set (dict_keys m) \<inter> set seen = {} \<and>
   (\<forall>k st. (k, st) \<in> set m \<longrightarrow> st \<in> {DebtLikeEligible, IneligibleNonDebt})"
proof (induction rs arbitrary: seen m)
  case (Cons r rs)
  obtain vs key st out where o: "rule_entry vs = Inr (key, st)" "key \<notin> set seen"
    "normalize_rule_list rs (key # seen) = Inr out" "m = (key, st) # out"
    using Cons.prems by (auto simp: bindE_Inr_iff split: if_splits prod.splits)
  have "st \<in> {DebtLikeEligible, IneligibleNonDebt}"
    using o(1) by (auto simp: rule_entry_def decision_of_def split: list.splits pv.splits option.splits if_splits)
  then show ?case using Cons.IH [OF o(3)] o(2,4) by auto
qed simp

end
