(* ===== verification/Bond_Matching.thy ===== *)
theory Bond_Matching
  imports Bond_Identity
begin

text \<open>
  Point-in-time matching of fund holdings to the observed bond panel and the metrics of a
  series, \<open>src/bonds/matching.py\<close>. The in-memory SQLite index is the list of its rows, with
  the dates kept as ISO texts and compared as texts, as the code does.
\<close>

subsection \<open>Dates\<close>

definition match_date :: "pv \<Rightarrow> bond_error + date" where
  "match_date v =
     (case v of
        VStr s \<Rightarrow> (case fromisoformat s of Some d \<Rightarrow> Inr d | None \<Rightarrow> Inl (BondError ''invalid_match_date''))
      | _ \<Rightarrow> Inl (BondError ''invalid_match_date''))"

subsection \<open>The observation index\<close>

record observation =
  ob_cusip :: string
  ob_date :: string
  ob_row :: int
  ob_price :: pv
  ob_price_state :: pv
  ob_ytm :: pv
  ob_db_type :: pv
  ob_db_type_state :: pv
  ob_daily_key_state :: pv

text \<open>
  What SQLite keeps of a value: booleans become integers, NaN becomes NULL, and a value it
  cannot bind is an error. In a text column a number becomes a text, which no comparison of
  the code equals; the model keeps it as \<open>VOther\<close>.
\<close>

definition bind_value :: "pv \<Rightarrow> bond_error + pv" where
  "bind_value v =
     (case v of
        VBool b \<Rightarrow> Inr (VInt (if b then 1 else 0))
      | VNan \<Rightarrow> Inr VNone
      | VInt n \<Rightarrow> if - (2 ^ 63) \<le> n \<and> n < 2 ^ 63 then Inr v else Inl (DriverError ''OverflowError'')
      | VOther \<Rightarrow> Inl (DriverError ''unsupported type'')
      | _ \<Rightarrow> Inr v)"

definition bind_text :: "pv \<Rightarrow> bond_error + pv" where
  "bind_text v = bindE (bind_value v) (\<lambda>u. Inr (case u of VStr s \<Rightarrow> VStr s | VNone \<Rightarrow> VNone | _ \<Rightarrow> VOther))"

type_synonym panel_row = "(string, pv) dict"

abbreviation field :: "panel_row \<Rightarrow> string \<Rightarrow> pv" where
  "field r k \<equiv> dict_get_default r k VNone"

text \<open>The body of the loop of \<open>from_rows\<close>: None for a row that is dropped.\<close>

definition panel_observation :: "string list \<Rightarrow> panel_row \<Rightarrow> (string \<times> string \<times> int \<times> panel_row) option" where
  "panel_observation cohort r =
     (case cusip9_of (field r ''normalized_cusip9'') of
        None \<Rightarrow> None
      | Some cusip \<Rightarrow>
          if cusip \<notin> set cohort \<or>
             dict_get_default r ''observation_date_state'' (VStr ''present'') \<noteq> VStr ''present'' then None
          else (case match_date (field r ''observation_date'') of
                  Inl _ \<Rightarrow> None
                | Inr d \<Rightarrow> (case field r ''source_row_number'' of
                              VInt n \<Rightarrow> Some (cusip, isoformat d, n, r) | _ \<Rightarrow> None)))"

definition store_observation :: "string \<times> string \<times> int \<times> panel_row \<Rightarrow> bond_error + observation" where
  "store_observation o4 =
     (let (cusip, observed_on, n, r) = o4 in
      bindE (bind_value (VInt n)) (\<lambda>_.
      bindE (bind_value (field r ''pr'')) (\<lambda>price.
      bindE (bind_text (field r ''pr_state'')) (\<lambda>price_state.
      bindE (bind_value (field r ''ytm'')) (\<lambda>ytm.
      bindE (bind_value (field r ''db_type'')) (\<lambda>db_type.
      bindE (bind_text (dict_get_default r ''db_type_state'' (VStr ''invalid''))) (\<lambda>db_type_state.
      bindE (bind_text (field r ''daily_key_state'')) (\<lambda>daily_key_state.
        Inr \<lparr> ob_cusip = cusip, ob_date = observed_on, ob_row = n, ob_price = price, ob_price_state = price_state,
              ob_ytm = ytm, ob_db_type = db_type, ob_db_type_state = db_type_state,
              ob_daily_key_state = daily_key_state \<rparr>))))))))"

definition observation_key :: "observation \<Rightarrow> string \<times> string \<times> int" where
  "observation_key o1 = (ob_cusip o1, ob_date o1, ob_row o1)"

text \<open>\<open>INSERT INTO observations\<close>: the primary key refuses a second row with the same key.\<close>

fun insert_observations ::
  "(string \<times> string \<times> int \<times> panel_row) list \<Rightarrow> observation list \<Rightarrow> bond_error + observation list" where
  "insert_observations [] table = Inr table"
| "insert_observations (x # xs) table =
     bindE (store_observation x) (\<lambda>o1.
       if observation_key o1 \<in> set (map observation_key table) then Inl (DriverError ''IntegrityError'')
       else insert_observations xs (table @ [o1]))"

definition cohort_of :: "pv list \<Rightarrow> string list" where
  "cohort_of values = concat (map (\<lambda>v. case cusip9_of v of None \<Rightarrow> [] | Some c \<Rightarrow> [c]) values)"

record observation_index =
  ix_universe :: "string list"
  ix_observations :: "observation list"

definition from_rows :: "panel_row list \<Rightarrow> pv list \<Rightarrow> bond_error + observation_index" where
  "from_rows rows cohort_cusips =
     (let kept = concat (map (\<lambda>r. case panel_observation (cohort_of cohort_cusips) r of
                                    None \<Rightarrow> [] | Some x \<Rightarrow> [x]) rows)
      in bindE (insert_observations kept []) (\<lambda>table.
           Inr \<lparr> ix_universe = remdups (map fst kept), ix_observations = table \<rparr>))"

definition is_universe_member :: "observation_index \<Rightarrow> string \<Rightarrow> bool" where
  "is_universe_member ix cusip \<longleftrightarrow> cusip \<in> set (ix_universe ix)"

definition latest_text :: "string list \<Rightarrow> string option" where
  "latest_text ts = (case ts of [] \<Rightarrow> None | t # ts' \<Rightarrow> Some (fold text_max ts' t))"

definition lookup_asof :: "observation_index \<Rightarrow> string \<Rightarrow> date \<Rightarrow> observation list" where
  "lookup_asof ix cusip report_date =
     (case latest_text (map ob_date (filter (\<lambda>o1. ob_cusip o1 = cusip \<and>
          text_le (ob_date o1) (isoformat report_date)) (ix_observations ix))) of
        None \<Rightarrow> []
      | Some latest \<Rightarrow> sort_key ob_row
          (filter (\<lambda>o1. ob_cusip o1 = cusip \<and> ob_date o1 = latest) (ix_observations ix)))"

subsection \<open>Matching a holding\<close>

record bond_holding =
  bh_publication_id :: pv
  bh_source_run_id :: pv
  bh_report_date :: pv
  bh_series_id :: pv
  bh_issuer_category :: pv
  bh_asset_class :: pv
  bh_instrument_structure :: pv
  bh_original_cusip :: pv
  bh_signed_market_value :: pv
  bh_signed_pct_of_nav :: pv
  bh_currency :: pv

record match_result =
  mr_holding :: bond_holding
  mr_state :: match_state
  mr_cusip9 :: "string option"
  mr_observation_date :: "string option"
  mr_observations :: "observation list"
  mr_age_days :: "int option"
  mr_is_144a :: "bool option"

definition match_result_of :: "bond_holding \<Rightarrow> match_state \<Rightarrow> string option \<Rightarrow> match_result" where
  "match_result_of h st cusip =
     \<lparr> mr_holding = h, mr_state = st, mr_cusip9 = cusip, mr_observation_date = None,
       mr_observations = [], mr_age_days = None, mr_is_144a = None \<rparr>"

definition is_144a :: "observation \<Rightarrow> bool option" where
  "is_144a o1 =
     (if ob_db_type_state o1 \<noteq> VStr ''present'' then None
      else case finite_number (ob_db_type o1) of
             None \<Rightarrow> None
           | Some x \<Rightarrow> if x = of_int \<lfloor>x\<rfloor> then Some (\<lfloor>x\<rfloor> = 3) else None)"

definition holding_category :: "debt_rules \<Rightarrow> bond_holding \<Rightarrow> debt_state" where
  "holding_category m h = classify m (bh_issuer_category h) (bh_asset_class h) (bh_instrument_structure h)"

definition match_holding ::
  "bond_holding \<Rightarrow> debt_rules \<Rightarrow> observation_index \<Rightarrow> pv \<Rightarrow> pv \<Rightarrow> bond_error + match_result" where
  "match_holding h m ix global_start cutoff =
     (case state_for_category (holding_category m h) of
        Some st \<Rightarrow> Inr (match_result_of h st None)
      | None \<Rightarrow>
          (case cusip9_of (bh_original_cusip h) of
             None \<Rightarrow> Inr (match_result_of h InvalidIdentifier None)
           | Some cusip \<Rightarrow>
               bindE (match_date (bh_report_date h)) (\<lambda>report_date.
               bindE (match_date global_start) (\<lambda>start.
               if report_date < start then Inr (match_result_of h OutsideWindowBeforeSource (Some cusip))
               else bindE (match_date cutoff) (\<lambda>last_day.
               if report_date > last_day then Inr (match_result_of h OutsideWindowAfterCutoff (Some cusip))
               else if \<not> is_universe_member ix cusip then Inr (match_result_of h UnmatchedNoCusip (Some cusip))
               else (case lookup_asof ix cusip report_date of
                       [] \<Rightarrow> Inr (match_result_of h UnmatchedNoPriorObservation (Some cusip))
                     | row # rows \<Rightarrow>
                         bindE (match_date (VStr (ob_date row))) (\<lambda>observed.
                           let age = toordinal report_date - toordinal observed;
                               res = (match_result_of h Stale (Some cusip))
                                 \<lparr> mr_observation_date := Some (isoformat observed),
                                   mr_observations := row # rows, mr_age_days := Some age \<rparr>
                           in if age \<ge> 31 then Inr res
                              else if rows \<noteq> [] \<or> ob_price_state row \<noteq> VStr ''present'' \<or>
                                      finite_number (ob_price row) = None
                                   then Inr (res\<lparr> mr_state := UnavailableAmbiguous \<rparr>)
                                   else Inr (res\<lparr> mr_state := Matched, mr_is_144a := is_144a row \<rparr>))))))))"

definition match_holdings_asof ::
  "bond_holding list \<Rightarrow> debt_rules \<Rightarrow> observation_index \<Rightarrow> pv \<Rightarrow> pv \<Rightarrow> bond_error + match_result list" where
  "match_holdings_asof holdings m ix global_start cutoff =
     mapE (\<lambda>h. match_holding h m ix global_start cutoff) holdings"

subsection \<open>The order of ISO texts is the order of dates\<close>

lemma zero_pad_inj:
  "zero_pad k a = zero_pad k b \<longleftrightarrow> a = b" if "0 \<le> a" "a < 10 ^ k" "0 \<le> b" "b < 10 ^ k"
  using parse_zero_pad [OF that(1,2), of 0] parse_zero_pad [OF that(3,4), of 0]
  by (metis add_left_cancel option.inject)

lemma ord_digit_char: "ord_of (digit_char n) = 48 + nat (n mod 10)"
proof -
  have "nat (n mod 10) < 10" by (simp add: nat_less_iff)
  then show ?thesis by (simp add: digit_char_def ord_char_of)
qed

lemma div_mod_le:
  fixes a b :: int
  shows "(if a div 10 = b div 10 then a mod 10 \<le> b mod 10 else a div 10 \<le> b div 10) \<longleftrightarrow> a \<le> b"
proof -
  have e: "a = 10 * (a div 10) + a mod 10" "b = 10 * (b div 10) + b mod 10" by simp_all
  have m: "0 \<le> a mod 10" "a mod 10 < 10" "0 \<le> b mod 10" "b mod 10 < 10" by simp_all
  consider "a div 10 = b div 10" | "a div 10 + 1 \<le> b div 10" | "b div 10 + 1 \<le> a div 10" by linarith
  then show ?thesis
  proof cases
    case 1
    then have "a \<le> b \<longleftrightarrow> a mod 10 \<le> b mod 10" using e by linarith
    then show ?thesis using 1 by simp
  next
    case 2
    then have "a \<le> b" using e m by linarith
    then show ?thesis using 2 by simp
  next
    case 3
    then have "b < a" using e m by linarith
    then show ?thesis using 3 by simp
  qed
qed

lemma zero_pad_le:
  "0 \<le> a \<Longrightarrow> a < 10 ^ k \<Longrightarrow> 0 \<le> b \<Longrightarrow> b < 10 ^ k \<Longrightarrow> text_le (zero_pad k a) (zero_pad k b) \<longleftrightarrow> a \<le> b"
proof (induction k arbitrary: a b)
  case (Suc k)
  have q: "0 \<le> a div 10" "a div 10 < 10 ^ k" "0 \<le> b div 10" "b div 10 < 10 ^ k"
    using Suc.prems by (simp_all add: pos_imp_zdiv_nonneg_iff div_less_iff_less_mult mult.commute)
  have "nat (a mod 10) < nat (b mod 10) \<or> nat (a mod 10) = nat (b mod 10) \<longleftrightarrow> a mod 10 \<le> b mod 10"
    by (auto simp: nat_less_iff)
  then have "text_le (zero_pad (Suc k) a) (zero_pad (Suc k) b)
      \<longleftrightarrow> (if a div 10 = b div 10 then a mod 10 \<le> b mod 10 else a div 10 \<le> b div 10)"
    using Suc.IH [OF q] zero_pad_inj [OF q] by (simp add: text_le_append ord_digit_char)
  also have "\<dots> \<longleftrightarrow> a \<le> b" by (rule div_mod_le)
  finally show ?case .
qed simp

definition iso_date :: "date \<Rightarrow> bool" where
  "iso_date d \<longleftrightarrow> valid_date d \<and> 1 \<le> year d \<and> year d \<le> 9999"

lemma iso_text_le:
  assumes "iso_date d" "iso_date e"
  shows "text_le (isoformat d) (isoformat e) \<longleftrightarrow> d \<le> e"
proof -
  have b: "0 \<le> year x \<and> year x < 10 ^ 4 \<and> 0 \<le> month x \<and> month x < 10 ^ 2 \<and> 0 \<le> date.day x \<and> date.day x < 10 ^ 2"
    if "iso_date x" for x
    using that by (auto simp: iso_date_def valid_date_def days_in_month_def split: if_splits)
  note bd = b [OF assms(1)] b [OF assms(2)]
  have y: "text_le (zero_pad 4 (year d)) (zero_pad 4 (year e)) \<longleftrightarrow> year d \<le> year e"
    "zero_pad 4 (year d) = zero_pad 4 (year e) \<longleftrightarrow> year d = year e"
    using bd zero_pad_le zero_pad_inj by blast+
  have m: "text_le (zero_pad 2 (month d)) (zero_pad 2 (month e)) \<longleftrightarrow> month d \<le> month e"
    "zero_pad 2 (month d) = zero_pad 2 (month e) \<longleftrightarrow> month d = month e"
    using bd zero_pad_le zero_pad_inj by blast+
  have dd: "text_le (zero_pad 2 (date.day d)) (zero_pad 2 (date.day e)) \<longleftrightarrow> date.day d \<le> date.day e"
    using bd zero_pad_le by blast
  show ?thesis
    unfolding isoformat_def less_eq_date_def
    by (simp add: text_le_append y m dd del: zero_pad.simps append.simps) auto
qed

lemma fromisoformat_iso: "fromisoformat s = Some d \<Longrightarrow> iso_date d"
  by (auto simp: fromisoformat_def mk_date_def iso_date_def split: if_splits option.splits)

lemma iso_roundtrip: "iso_date d \<Longrightarrow> fromisoformat (isoformat d) = Some d"
  by (simp add: iso_date_def fromisoformat_isoformat)

subsection \<open>The index\<close>

definition index_ok :: "observation_index \<Rightarrow> bool" where
  "index_ok ix \<longleftrightarrow> (\<forall>o1 \<in> set (ix_observations ix). \<exists>d. iso_date d \<and> ob_date o1 = isoformat d)"

lemma match_date_iso: "match_date v = Inr d \<Longrightarrow> iso_date d"
  by (auto simp: match_date_def fromisoformat_iso split: pv.splits option.splits)

lemma panel_observation_iso:
  assumes "panel_observation cohort r = Some x"
  shows "\<exists>d. iso_date d \<and> fst (snd x) = isoformat d"
  using assms by (auto simp: panel_observation_def dest: match_date_iso split: option.splits if_splits sum.splits pv.splits)

lemma store_observation_date: "store_observation x = Inr o1 \<Longrightarrow> ob_date o1 = fst (snd x)"
  by (cases x) (auto simp: store_observation_def bindE_Inr_iff)

lemma insert_observations_dates:
  "insert_observations xs table = Inr table' \<Longrightarrow>
   o1 \<in> set table' \<Longrightarrow> o1 \<in> set table \<or> (\<exists>x \<in> set xs. ob_date o1 = fst (snd x))"
proof (induction xs arbitrary: table)
  case (Cons x xs)
  then obtain o2 where o2: "store_observation x = Inr o2" "insert_observations xs (table @ [o2]) = Inr table'"
    by (auto simp: bindE_Inr_iff split: if_splits)
  from Cons.IH [OF o2(2) Cons.prems(2)] show ?case
    using store_observation_date [OF o2(1)] by auto
qed simp

lemma from_rows_ok:
  assumes "from_rows rows cohort = Inr ix"
  shows "index_ok ix"
proof -
  define kept where "kept = concat (map (\<lambda>r. case panel_observation (cohort_of cohort) r of
      None \<Rightarrow> [] | Some x \<Rightarrow> [x]) rows)"
  have ins: "insert_observations kept [] = Inr (ix_observations ix)"
    using assms by (auto simp: from_rows_def Let_def kept_def bindE_Inr_iff)
  have "\<exists>d. iso_date d \<and> fst (snd x) = isoformat d" if x: "x \<in> set kept" for x
  proof -
    obtain r where "panel_observation (cohort_of cohort) r = Some x"
      using x by (auto simp: kept_def split: option.splits)
    then show ?thesis by (rule panel_observation_iso)
  qed
  then show ?thesis using insert_observations_dates [OF ins] unfolding index_ok_def by fastforce
qed

lemma fold_text_max:
  "fold text_max ts t \<in> set (t # ts) \<and> (\<forall>u \<in> set (t # ts). text_le u (fold text_max ts t))"
proof (induction ts arbitrary: t)
  case (Cons v ts)
  have "text_le t (text_max v t)" "text_le v (text_max v t)" "text_max v t \<in> {t, v}"
    using text_le_total [of v t] by (auto simp: text_max_def)
  moreover have "text_max v t \<in> {t, v} \<union> set ts" "\<forall>u \<in> set ts. text_le u (fold text_max (v # ts) t)"
    "text_le (text_max v t) (fold text_max (v # ts) t)"
    using Cons.IH [of "text_max v t"] \<open>text_max v t \<in> {t, v}\<close> by auto
  ultimately show ?case
    using Cons.IH [of "text_max v t"] text_le_trans [of t "text_max v t"] text_le_trans [of v "text_max v t"] by auto
qed simp

lemma latest_text_Some:
  "latest_text ts = Some m \<Longrightarrow> m \<in> set ts \<and> (\<forall>t \<in> set ts. text_le t m)"
  using fold_text_max by (cases ts) (auto simp: latest_text_def)

lemma lookup_asof_rows:
  assumes "index_ok ix" "iso_date rd" "lookup_asof ix c rd = row # rows"
  shows "\<exists>d. iso_date d \<and> d \<le> rd \<and> ob_date row = isoformat d \<and>
    set (row # rows) = {o1 \<in> set (ix_observations ix). ob_cusip o1 = c \<and> ob_date o1 = isoformat d} \<and>
    (\<forall>o1 \<in> set (ix_observations ix). \<forall>e. ob_cusip o1 = c \<longrightarrow> fromisoformat (ob_date o1) = Some e \<longrightarrow>
       e \<le> rd \<longrightarrow> e \<le> d)"
proof -
  let ?before = "filter (\<lambda>o1. ob_cusip o1 = c \<and> text_le (ob_date o1) (isoformat rd)) (ix_observations ix)"
  obtain m where m: "latest_text (map ob_date ?before) = Some m"
    and rows: "row # rows = sort_key ob_row (filter (\<lambda>o1. ob_cusip o1 = c \<and> ob_date o1 = m) (ix_observations ix))"
    using assms(3) by (auto simp: lookup_asof_def split: option.splits)
  have s: "set (row # rows) = {o1 \<in> set (ix_observations ix). ob_cusip o1 = c \<and> ob_date o1 = m}"
    unfolding rows by simp
  obtain o1 where o1: "o1 \<in> set (ix_observations ix)" "ob_cusip o1 = c" "text_le (ob_date o1) (isoformat rd)" "ob_date o1 = m"
    using latest_text_Some [OF m] by auto
  obtain d where d: "iso_date d" "m = isoformat d" using assms(1) o1 by (auto simp: index_ok_def)
  have "d \<le> rd" using o1(3,4) d iso_text_le [OF d(1) assms(2)] by simp
  moreover have "e \<le> d" if e: "o2 \<in> set (ix_observations ix)" "ob_cusip o2 = c"
      "fromisoformat (ob_date o2) = Some e" "e \<le> rd" for o2 e
  proof -
    obtain e' where e': "iso_date e'" "ob_date o2 = isoformat e'" using assms(1) e(1) by (auto simp: index_ok_def)
    then have "e' = e" using e(3) iso_roundtrip by simp
    then have "text_le (ob_date o2) (isoformat rd)" using e(4) e' iso_text_le [OF e'(1) assms(2)] by simp
    then have "text_le (ob_date o2) m" using latest_text_Some [OF m] e(1,2) by auto
    then show ?thesis using e' d \<open>e' = e\<close> iso_text_le [OF e'(1) d(1)] by simp
  qed
  moreover have "ob_date row = isoformat d" using s d(2) by auto
  ultimately show ?thesis using s d by auto
qed

subsection \<open>A match never looks ahead\<close>

lemma match_holding_observed:
  assumes "match_holding h m ix global_start cutoff = Inr res" "mr_observation_date res = Some t"
  obtains c rd start last_day row rows d where
    "holding_category m h = DebtLikeEligible" "cusip9_of (bh_original_cusip h) = Some c"
    "match_date (bh_report_date h) = Inr rd" "match_date global_start = Inr start" "match_date cutoff = Inr last_day"
    "start \<le> rd" "rd \<le> last_day" "lookup_asof ix c rd = row # rows" "fromisoformat (ob_date row) = Some d"
    "t = isoformat d" "mr_cusip9 res = Some c" "mr_observations res = row # rows"
    "mr_age_days res = Some (toordinal rd - toordinal d)"
    "mr_state res = (if toordinal rd - toordinal d \<ge> 31 then Stale
       else if rows = [] \<and> ob_price_state row = VStr ''present'' \<and> finite_number (ob_price row) \<noteq> None
            then Matched else UnavailableAmbiguous)"
proof -
  have "state_for_category (holding_category m h) = None"
    using assms by (auto simp: match_holding_def match_result_of_def split: option.splits)
  then have cat: "holding_category m h = DebtLikeEligible" by (cases "holding_category m h") auto
  show thesis
    using assms cat that
    by (auto simp: match_holding_def match_result_of_def match_date_def [of "VStr s" for s] Let_def bindE_Inr_iff not_less
        split: option.splits if_splits list.splits)
qed

text \<open>
  C17: matching is point in time. Whatever observation a match reports was made on or before
  the report date of the holding, no later observation of the security on or before that
  date exists in the index, and all its rows of that day are reported with the right age.
  The match counts exactly when the observation is at most thirty days old and is a single
  row with a present and finite price.
\<close>

theorem matching_never_looks_ahead:
  assumes "from_rows rows cohort = Inr ix"
    and "match_holding h m ix global_start cutoff = Inr res" "mr_observation_date res = Some t"
  shows "\<exists>c rd d. cusip9_of (bh_original_cusip h) = Some c \<and> match_date (bh_report_date h) = Inr rd \<and>
    t = isoformat d \<and> d \<le> rd \<and> mr_age_days res = Some (toordinal rd - toordinal d) \<and>
    (\<forall>o1 \<in> set (ix_observations ix). \<forall>e. ob_cusip o1 = c \<longrightarrow> fromisoformat (ob_date o1) = Some e \<longrightarrow>
       e \<le> rd \<longrightarrow> e \<le> d) \<and>
    set (mr_observations res) = {o1 \<in> set (ix_observations ix). ob_cusip o1 = c \<and> ob_date o1 = t} \<and>
    (mr_state res = Matched \<longleftrightarrow> toordinal rd - toordinal d \<le> 30 \<and>
       (\<exists>o1. mr_observations res = [o1] \<and> ob_price_state o1 = VStr ''present'' \<and>
          finite_number (ob_price o1) \<noteq> None))"
proof -
  obtain c rd start last_day row rws d where o: "cusip9_of (bh_original_cusip h) = Some c"
    "match_date (bh_report_date h) = Inr rd" "lookup_asof ix c rd = row # rws" "fromisoformat (ob_date row) = Some d"
    "t = isoformat d" "mr_observations res = row # rws" "mr_age_days res = Some (toordinal rd - toordinal d)"
    "mr_state res = (if toordinal rd - toordinal d \<ge> 31 then Stale
       else if rws = [] \<and> ob_price_state row = VStr ''present'' \<and> finite_number (ob_price row) \<noteq> None
            then Matched else UnavailableAmbiguous)"
    using assms(2,3) by (rule match_holding_observed)
  obtain e where e: "iso_date e" "e \<le> rd" "ob_date row = isoformat e"
    "set (row # rws) = {o1 \<in> set (ix_observations ix). ob_cusip o1 = c \<and> ob_date o1 = isoformat e}"
    "\<forall>o1 \<in> set (ix_observations ix). \<forall>e'. ob_cusip o1 = c \<longrightarrow> fromisoformat (ob_date o1) = Some e' \<longrightarrow>
       e' \<le> rd \<longrightarrow> e' \<le> e"
    using lookup_asof_rows [OF from_rows_ok [OF assms(1)] match_date_iso [OF o(2)] o(3)] by blast
  have "e = d" using o(4) e(1,3) iso_roundtrip by simp
  then show ?thesis using o e(2,4,5) by (intro exI [of _ c] exI [of _ rd] exI [of _ d]) auto
qed

subsection \<open>Weights and amounts\<close>

datatype weight_state = WeightNull | WeightNonNumeric | WeightNonFinite | WeightNegative | WeightValid

fun weight_state_value :: "weight_state \<Rightarrow> string" where
  "weight_state_value WeightNull = ''null''"
| "weight_state_value WeightNonNumeric = ''non_numeric''"
| "weight_state_value WeightNonFinite = ''non_finite''"
| "weight_state_value WeightNegative = ''negative''"
| "weight_state_value WeightValid = ''valid''"

fun match_state_value :: "match_state \<Rightarrow> string" where
  "match_state_value MatchIneligibleNonDebt = ''ineligible_non_debt''"
| "match_state_value MatchAmbiguousCategory = ''ambiguous_category''"
| "match_state_value MatchMissingCategory = ''missing_category''"
| "match_state_value InvalidIdentifier = ''invalid_identifier''"
| "match_state_value OutsideWindowBeforeSource = ''outside_window_before_source''"
| "match_state_value OutsideWindowAfterCutoff = ''outside_window_after_cutoff''"
| "match_state_value UnmatchedNoCusip = ''unmatched_no_cusip''"
| "match_state_value UnmatchedNoPriorObservation = ''unmatched_no_prior_observation''"
| "match_state_value Stale = ''stale''"
| "match_state_value UnavailableAmbiguous = ''unavailable_ambiguous''"
| "match_state_value Matched = ''matched''"

definition classify_weight :: "pv \<Rightarrow> weight_state" where
  "classify_weight v =
     (if v = VNone then WeightNull
      else case finite_number v of
             None \<Rightarrow> if is_numeric v then WeightNonFinite else WeightNonNumeric
           | Some x \<Rightarrow> if x < 0 then WeightNegative else WeightValid)"

definition currency_of :: "pv \<Rightarrow> string option" where
  "currency_of v = (case v of VStr s \<Rightarrow> if strip s \<noteq> [] then Some (strip s) else None | _ \<Rightarrow> None)"

definition numeric_reason :: "pv \<Rightarrow> string option" where
  "numeric_reason v =
     (if \<not> is_numeric v then Some ''non_numeric''
      else if finite_number v \<noteq> None then None else Some ''non_finite'')"

text \<open>A sum that a double cannot hold is infinite.\<close>

definition float_add :: "real \<Rightarrow> real \<Rightarrow> real option" where
  "float_add x y = (if \<bar>x + y\<bar> < of_int FLOAT_LIMIT then Some (x + y) else None)"

record amounts =
  am_totals :: "(string, real) dict"
  am_poisoned :: "string list"

definition add_finite_amount :: "string \<Rightarrow> real \<Rightarrow> amounts \<times> counter \<Rightarrow> amounts \<times> counter" where
  "add_finite_amount currency amount ac =
     (let (a, diagnostics) = ac
      in if currency \<in> set (am_poisoned a) then (a, diagnostics)
         else case float_add (dict_get_default (am_totals a) currency 0) amount of
                None \<Rightarrow> (a\<lparr> am_totals := dict_pop currency (am_totals a),
                             am_poisoned := currency # am_poisoned a \<rparr>,
                         counter_inc ''aggregate_non_finite'' diagnostics)
              | Some t \<Rightarrow> (a\<lparr> am_totals := dict_set currency t (am_totals a) \<rparr>, diagnostics))"

subsection \<open>The metrics of a series\<close>

definition validated_debt_state :: "debt_rules \<Rightarrow> match_result \<Rightarrow> bond_error + match_result \<times> debt_state" where
  "validated_debt_state m r =
     (let st = holding_category m (mr_holding r)
      in case state_for_category st of
           Some expected \<Rightarrow> if mr_state r = expected then Inr (r, st) else Inl (BondError ''inconsistent_category_state'')
         | None \<Rightarrow> if mr_state r \<in> {MatchIneligibleNonDebt, MatchAmbiguousCategory, MatchMissingCategory}
                   then Inl (BondError ''inconsistent_category_state'') else Inr (r, st))"

definition validate_match_categories ::
  "debt_rules \<Rightarrow> match_result list \<Rightarrow> bond_error + (match_result \<times> debt_state) list" where
  "validate_match_categories m rs = mapE (validated_debt_state m) rs"

definition eligible :: "match_result \<times> debt_state \<Rightarrow> bool" where
  "eligible rs \<longleftrightarrow> snd rs = DebtLikeEligible \<and> cusip9_of (bh_original_cusip (mr_holding (fst rs))) \<noteq> None"

record series_sums =
  ss_denominator :: real
  ss_numerator :: real
  ss_non_finite :: bool
  ss_diagnostics :: counter
  ss_market :: counter
  ss_eligible_value :: amounts
  ss_matched_value :: amounts

definition empty_sums :: series_sums where
  "empty_sums = \<lparr> ss_denominator = 0, ss_numerator = 0, ss_non_finite = False, ss_diagnostics = [],
     ss_market = [], ss_eligible_value = \<lparr> am_totals = [], am_poisoned = [] \<rparr>,
     ss_matched_value = \<lparr> am_totals = [], am_poisoned = [] \<rparr> \<rparr>"

definition add_weight :: "match_result \<Rightarrow> series_sums \<Rightarrow> series_sums" where
  "add_weight r s =
     (case classify_weight (bh_signed_pct_of_nav (mr_holding r)) of
        WeightValid \<Rightarrow>
          (case finite_number (bh_signed_pct_of_nav (mr_holding r)) of
             None \<Rightarrow> s
           | Some w \<Rightarrow>
               (let s1 = (case float_add (ss_denominator s) w of
                            None \<Rightarrow> s\<lparr> ss_non_finite := True \<rparr> | Some d \<Rightarrow> s\<lparr> ss_denominator := d \<rparr>)
                in if mr_state r = Matched then
                     (case float_add (ss_numerator s1) w of
                        None \<Rightarrow> s1\<lparr> ss_non_finite := True \<rparr> | Some n \<Rightarrow> s1\<lparr> ss_numerator := n \<rparr>)
                   else s1))
      | st \<Rightarrow> s\<lparr> ss_diagnostics := counter_inc (weight_state_value st) (ss_diagnostics s) \<rparr>)"

definition add_amounts :: "match_result \<Rightarrow> series_sums \<Rightarrow> series_sums" where
  "add_amounts r s =
     (let h = mr_holding r; reason = numeric_reason (bh_signed_market_value h); currency = currency_of (bh_currency h);
          m1 = (case reason of Some k \<Rightarrow> counter_inc k (ss_market s) | None \<Rightarrow> ss_market s);
          m2 = (if currency = None then counter_inc ''missing_currency'' m1 else m1)
      in case (reason, currency, finite_number (bh_signed_market_value h)) of
           (None, Some cur, Some v) \<Rightarrow>
             (let (e, m3) = add_finite_amount cur v (ss_eligible_value s, m2);
                  (mv, m4) = (if mr_state r = Matched then add_finite_amount cur v (ss_matched_value s, m3)
                              else (ss_matched_value s, m3))
              in s\<lparr> ss_market := m4, ss_eligible_value := e, ss_matched_value := mv \<rparr>)
         | _ \<Rightarrow> s\<lparr> ss_market := m2 \<rparr>)"

definition add_row :: "match_result \<times> debt_state \<Rightarrow> series_sums \<Rightarrow> series_sums" where
  "add_row rs s = (if eligible rs then add_amounts (fst rs) (add_weight (fst rs) s) else s)"

record series_metric =
  se_series_id :: pv
  se_report_date :: pv
  se_publication_id :: pv
  se_source_run_id :: pv
  se_state_counts :: counter
  se_denominator_diagnostics :: counter
  se_denominator_weight :: "real option"
  se_numerator_weight :: "real option"
  se_nav_ratio :: "real option"
  se_eligible_value :: "(string, real) dict"
  se_matched_value :: "(string, real) dict"
  se_market_diagnostics :: counter

type_synonym matched_rows = "(match_result \<times> debt_state) list"

definition series_key :: "match_result \<times> debt_state \<Rightarrow> pv \<times> pv" where
  "series_key rs = (bh_series_id (mr_holding (fst rs)), bh_report_date (mr_holding (fst rs)))"

definition lineage :: "match_result \<times> debt_state \<Rightarrow> pv \<times> pv" where
  "lineage rs = (bh_publication_id (mr_holding (fst rs)), bh_source_run_id (mr_holding (fst rs)))"

definition group_rows :: "matched_rows \<Rightarrow> (pv \<times> pv, matched_rows) dict" where
  "group_rows rows = fold (\<lambda>r g. dict_set (series_key r) (dict_get_default g (series_key r) [] @ [r]) g) rows []"

definition series_metric_of :: "(pv \<times> pv) \<times> matched_rows \<Rightarrow> bond_error + series_metric" where
  "series_metric_of kr =
     (let (key, rows) = kr
      in case remdups (map lineage rows) of
           [(publication_id, source_run_id)] \<Rightarrow>
             (let states = fold counter_inc (map (match_state_value \<circ> mr_state \<circ> fst) rows) [];
                  s = fold add_row rows empty_sums;
                  ratio = (if ss_non_finite s then None
                           else if ss_denominator s \<noteq> 0 then Some (ss_numerator s / ss_denominator s) else None);
                  d1 = (if ss_non_finite s then counter_inc ''aggregate_non_finite'' (ss_diagnostics s) else ss_diagnostics s);
                  d2 = (if ratio = None \<and> \<not> ss_non_finite s then counter_inc ''zero_valid_denominator'' d1 else d1)
              in Inr \<lparr> se_series_id = fst key, se_report_date = snd key, se_publication_id = publication_id,
                   se_source_run_id = source_run_id, se_state_counts = states, se_denominator_diagnostics = d2,
                   se_denominator_weight = (if ss_non_finite s then None else Some (ss_denominator s)),
                   se_numerator_weight = (if ss_non_finite s then None else Some (ss_numerator s)),
                   se_nav_ratio = ratio, se_eligible_value = am_totals (ss_eligible_value s),
                   se_matched_value = am_totals (ss_matched_value s), se_market_diagnostics = ss_market s \<rparr>)
         | _ \<Rightarrow> Inl (BondError ''mixed_series_lineage''))"

definition compute_series_metrics :: "debt_rules \<Rightarrow> match_result list \<Rightarrow> bond_error + series_metric list" where
  "compute_series_metrics m matches =
     bindE (validate_match_categories m matches) (\<lambda>validated. mapE series_metric_of (group_rows validated))"

subsection \<open>Across the series\<close>

definition quantile :: "real list \<Rightarrow> real \<Rightarrow> real" where
  "quantile values q =
     (let position = real (length values - 1) * q;
          lower = nat \<lfloor>position\<rfloor>; upper = nat \<lceil>position\<rceil>
      in if lower = upper then values ! lower
         else values ! lower + (values ! upper - values ! lower) * (position - real lower))"

record cross_summary =
  cs_p25 :: "real option"
  cs_median :: "real option"
  cs_p75 :: "real option"
  cs_count :: nat
  cs_excluded :: counter

definition exclusion_reason :: "series_metric \<Rightarrow> string" where
  "exclusion_reason x =
     (if dict_get_default (se_denominator_diagnostics x) ''aggregate_non_finite'' 0 \<noteq> 0
      then ''aggregate_non_finite'' else ''zero_valid_denominator'')"

text \<open>A ratio of finite sums is finite, so the branch of a non-finite ratio is not taken.\<close>

definition compute_cross_series_summary :: "series_metric list \<Rightarrow> cross_summary" where
  "compute_cross_series_summary metrics =
     (let values = sort (concat (map (\<lambda>x. case se_nav_ratio x of None \<Rightarrow> [] | Some r \<Rightarrow> [r]) metrics));
          q = (\<lambda>p. if values = [] then None else Some (quantile values p))
      in \<lparr> cs_p25 = q (1 / 4), cs_median = q (1 / 2), cs_p75 = q (3 / 4), cs_count = length values,
           cs_excluded = fold counter_inc
             (map exclusion_reason (filter (\<lambda>x. se_nav_ratio x = None) metrics)) [] \<rparr>)"

subsection \<open>The matched share is a share\<close>

definition sums_ok :: "series_sums \<Rightarrow> bool" where
  "sums_ok s \<longleftrightarrow> (\<not> ss_non_finite s \<longrightarrow> 0 \<le> ss_numerator s \<and> ss_numerator s \<le> ss_denominator s)"

lemma valid_weight: "classify_weight v = WeightValid \<Longrightarrow> finite_number v = Some w \<Longrightarrow> 0 \<le> w"
  by (auto simp: classify_weight_def split: if_splits option.splits)

lemma add_weight_ok: "sums_ok s \<Longrightarrow> sums_ok (add_weight r s)"
  using valid_weight [of "bh_signed_pct_of_nav (mr_holding r)"]
  by (auto simp: add_weight_def sums_ok_def float_add_def Let_def split: weight_state.splits option.splits)

lemma add_amounts_ok: "sums_ok s \<Longrightarrow> sums_ok (add_amounts r s)"
  by (auto simp: add_amounts_def sums_ok_def Let_def split: option.splits prod.splits)

lemma add_rows_ok: "sums_ok s \<Longrightarrow> sums_ok (fold add_row rows s)"
  by (induction rows arbitrary: s) (auto simp: add_row_def add_weight_ok add_amounts_ok)

lemma ratio_range:
  assumes "series_metric_of kr = Inr x" "se_nav_ratio x = Some q"
  shows "0 \<le> q \<and> q \<le> 1"
proof -
  let ?s = "fold add_row (snd kr) empty_sums"
  have ok: "sums_ok ?s" by (rule add_rows_ok) (simp add: sums_ok_def empty_sums_def)
  have "\<not> ss_non_finite ?s" "ss_denominator ?s \<noteq> 0" "q = ss_numerator ?s / ss_denominator ?s"
    using assms by (auto simp: series_metric_of_def Let_def split: list.splits prod.splits if_splits)
  then show ?thesis using ok by (simp add: sums_ok_def divide_le_eq)
qed

definition counter_sum :: "counter \<Rightarrow> nat" where
  "counter_sum c = sum_list (map snd c)"

lemma counter_inc_sum: "counter_sum (counter_inc k c) = Suc (counter_sum c)"
  by (induction c) (auto simp: counter_sum_def counter_inc_def dict_get_default_def)

lemma counter_incs_sum: "counter_sum (fold counter_inc ks c) = counter_sum c + length ks"
  by (induction ks arbitrary: c) (auto simp: counter_inc_sum)

lemma state_counts_sum:
  "series_metric_of kr = Inr x \<Longrightarrow> counter_sum (se_state_counts x) = length (snd kr)"
  by (auto simp: series_metric_of_def Let_def counter_incs_sum counter_sum_def [of "[]"]
      split: list.splits prod.splits)

lemma state_keys: "series_metric_of kr = Inr x \<Longrightarrow> (se_series_id x, se_report_date x) = fst kr"
  by (auto simp: series_metric_of_def Let_def split: list.splits prod.splits)

definition group_size :: "('k \<times> 'a list) list \<Rightarrow> nat" where
  "group_size g = sum_list (map (length \<circ> snd) g)"

lemma group_step_size:
  "group_size (dict_set k (dict_get_default g k [] @ [r]) g) = Suc (group_size g)"
  by (induction g) (auto simp: group_size_def dict_get_default_def)

lemma group_rows_size: "group_size (group_rows rows) = length rows \<and> dict_ok (group_rows rows)"
proof -
  have "group_size (fold (\<lambda>r g. dict_set (series_key r) (dict_get_default g (series_key r) [] @ [r]) g) rows g)
      = group_size g + length rows \<and>
    (dict_ok g \<longrightarrow> dict_ok (fold (\<lambda>r g. dict_set (series_key r) (dict_get_default g (series_key r) [] @ [r]) g) rows g))"
    for g
    by (induction rows arbitrary: g) (auto simp: group_step_size)
  from this [of "[]"] show ?thesis by (simp add: group_rows_def group_size_def)
qed

lemma metrics_of_groups:
  assumes "compute_series_metrics m matches = Inr metrics"
  obtains groups where "list_all2 (\<lambda>kr x. series_metric_of kr = Inr x) groups metrics"
    "group_size groups = length matches" "dict_ok groups"
proof -
  obtain v where v: "validate_match_categories m matches = Inr v"
    "mapE series_metric_of (group_rows v) = Inr metrics"
    using assms by (auto simp: compute_series_metrics_def bindE_Inr_iff)
  have "length v = length matches" using v(1) mapE_Inr_length by (auto simp: validate_match_categories_def)
  then show thesis using that [of "group_rows v"] v(2) group_rows_size [of v] by (simp add: mapE_Inr_iff)
qed

lemma nav_ratios_range:
  assumes "compute_series_metrics m matches = Inr metrics" "x \<in> set metrics" "se_nav_ratio x = Some q"
  shows "0 \<le> q \<and> q \<le> 1"
proof -
  obtain groups where g: "list_all2 (\<lambda>kr x. series_metric_of kr = Inr x) groups metrics"
    using metrics_of_groups [OF assms(1)] by blast
  obtain i where "i < length metrics" "metrics ! i = x" using assms(2) by (auto simp: in_set_conv_nth)
  then have "series_metric_of (groups ! i) = Inr x" using g by (auto dest: list_all2_nthD2)
  then show ?thesis using ratio_range assms(3) by blast
qed

lemma metrics_totals:
  "list_all2 (\<lambda>kr x. series_metric_of kr = Inr x) groups metrics \<Longrightarrow>
   sum_list (map (counter_sum \<circ> se_state_counts) metrics) = group_size groups \<and>
   map (\<lambda>x. (se_series_id x, se_report_date x)) metrics = map fst groups"
  by (induction rule: list_all2_induct) (auto simp: group_size_def state_counts_sum state_keys [symmetric])

text \<open>
  Every match is counted in exactly one series, and the matched share of a series is a
  share: with no short or missing weight taken into it, it lies between zero and one.
\<close>

theorem series_metrics_sound:
  assumes "compute_series_metrics m matches = Inr metrics"
  shows "sum_list (map (counter_sum \<circ> se_state_counts) metrics) = length matches \<and>
    distinct (map (\<lambda>x. (se_series_id x, se_report_date x)) metrics) \<and>
    (\<forall>x \<in> set metrics. \<forall>q. se_nav_ratio x = Some q \<longrightarrow> 0 \<le> q \<and> q \<le> 1)"
proof -
  obtain groups where g: "list_all2 (\<lambda>kr x. series_metric_of kr = Inr x) groups metrics"
    "group_size groups = length matches" "dict_ok groups"
    using metrics_of_groups [OF assms] by blast
  then show ?thesis using metrics_totals [OF g(1)] nav_ratios_range [OF assms] by simp
qed

subsection \<open>Quantiles of the shares\<close>

definition interpolate :: "real list \<Rightarrow> real \<Rightarrow> real" where
  "interpolate vs t =
     (if nat \<lfloor>t\<rfloor> = nat \<lceil>t\<rceil> then vs ! nat \<lfloor>t\<rfloor>
      else vs ! nat \<lfloor>t\<rfloor> + (vs ! nat \<lceil>t\<rceil> - vs ! nat \<lfloor>t\<rfloor>) * (t - real (nat \<lfloor>t\<rfloor>)))"

lemma quantile_interpolate: "quantile vs q = interpolate vs (real (length vs - 1) * q)"
  by (simp add: quantile_def interpolate_def Let_def)

text \<open>Between two neighbours the interpolation is linear.\<close>

lemma interpolate_segment:
  assumes "real k \<le> t" "t \<le> real k + 1" "k + 1 < length vs"
  shows "interpolate vs t = vs ! k + (vs ! (k + 1) - vs ! k) * (t - real k)"
proof (cases "t = real k \<or> t = real k + 1")
  case True
  then show ?thesis
  proof
    assume "t = real k + 1"
    then have "\<lfloor>t\<rfloor> = int k + 1" "\<lceil>t\<rceil> = int k + 1" by linarith+
    then show ?thesis using \<open>t = real k + 1\<close> by (simp add: interpolate_def nat_add_distrib)
  qed (simp add: interpolate_def)
next
  case False
  then have "\<lfloor>t\<rfloor> = int k" "\<lceil>t\<rceil> = int k + 1" using assms(1,2) by linarith+
  then show ?thesis by (simp add: interpolate_def nat_add_distrib)
qed

lemma interpolate_mono:
  assumes "sorted vs" "0 \<le> s" "s \<le> t" "t \<le> real (length vs - 1)" "vs \<noteq> []"
  shows "interpolate vs s \<le> interpolate vs t"
proof -
  have step: "interpolate vs a \<le> interpolate vs b"
    if "real k \<le> a" "a \<le> b" "b \<le> real k + 1" "k + 1 < length vs" for a b k
  proof -
    have "vs ! k \<le> vs ! (k + 1)" using assms(1) that(4) by (intro sorted_nth_mono) auto
    then have "(vs ! (k + 1) - vs ! k) * (a - real k) \<le> (vs ! (k + 1) - vs ! k) * (b - real k)"
      using that(2) by (intro mult_left_mono) auto
    then show ?thesis using interpolate_segment [of k a] interpolate_segment [of k b] that by simp
  qed
  have nodes: "interpolate vs (real i) \<le> interpolate vs (real j)" if "i \<le> j" "j < length vs" for i j
    using assms(1) that by (simp add: interpolate_def sorted_nth_mono)
  show ?thesis
  proof (cases "\<lfloor>s\<rfloor> = \<lfloor>t\<rfloor>")
    case True
    define k where "k = nat \<lfloor>s\<rfloor>"
    have k: "real k \<le> s" "t < real k + 1" using True assms(2) by (simp_all add: k_def) linarith+
    show ?thesis
    proof (cases "k + 1 < length vs")
      case True
      then show ?thesis using step [of k s t] k assms(3) by simp
    next
      case False
      then have "s = t" using k assms(3,4) by linarith
      then show ?thesis by simp
    qed
  next
    case False
    define i j where "i = nat \<lfloor>s\<rfloor>" and "j = nat \<lfloor>t\<rfloor>"
    have b: "real i \<le> s" "s < real i + 1" "real j \<le> t" "t < real j + 1"
      using assms(2,3) by (simp_all add: i_def j_def)
    have "\<lfloor>s\<rfloor> < \<lfloor>t\<rfloor>" using False assms(3) floor_mono [OF assms(3)] by simp
    then have ij: "i + 1 \<le> j" using assms(2) by (simp add: i_def j_def) linarith
    have "real j \<le> real (length vs - 1)" using b(3) assms(4) by linarith
    then have "j \<le> length vs - 1" by simp
    then have jl: "j < length vs" using assms(5) by (cases vs) auto
    have "interpolate vs s \<le> interpolate vs (real (i + 1))"
      using step [of i s "real i + 1"] b ij jl by (simp add: add.commute)
    also have "\<dots> \<le> interpolate vs (real j)" using nodes [OF ij jl] .
    also have "\<dots> \<le> interpolate vs t"
    proof (cases "j + 1 < length vs")
      case True
      then show ?thesis using step [of j "real j" t] b by simp
    next
      case False
      then have "t = real j" using b assms(4) jl by linarith
      then show ?thesis by simp
    qed
    finally show ?thesis .
  qed
qed

lemma interpolate_range:
  assumes "sorted vs" "0 \<le> t" "t \<le> real (length vs - 1)" "vs \<noteq> []"
  shows "hd vs \<le> interpolate vs t \<and> interpolate vs t \<le> last vs"
proof -
  have "interpolate vs 0 = hd vs" using assms(4) by (simp add: interpolate_def hd_conv_nth)
  moreover have "interpolate vs (real (length vs - 1)) = last vs"
    using assms(4) by (simp add: interpolate_def last_conv_nth)
  ultimately show ?thesis
    using interpolate_mono [OF assms(1) order_refl assms(2,3,4)]
      interpolate_mono [OF assms(1,2,3) order_refl assms(4)] by simp
qed

text \<open>
  The summary across the series is coherent. The three quantiles of the matched share
  are ordered and are shares, and every series is either counted or excluded for a reason.
\<close>

theorem cross_summary_ordered:
  assumes "compute_series_metrics m matches = Inr metrics"
  shows "cs_count (compute_cross_series_summary metrics)
      + counter_sum (cs_excluded (compute_cross_series_summary metrics)) = length metrics \<and>
    (cs_count (compute_cross_series_summary metrics) \<noteq> 0 \<longrightarrow>
      (\<exists>a b c. cs_p25 (compute_cross_series_summary metrics) = Some a \<and>
         cs_median (compute_cross_series_summary metrics) = Some b \<and>
         cs_p75 (compute_cross_series_summary metrics) = Some c \<and> 0 \<le> a \<and> a \<le> b \<and> b \<le> c \<and> c \<le> 1))"
proof -
  define raw where "raw = concat (map (\<lambda>x. case se_nav_ratio x of None \<Rightarrow> [] | Some r \<Rightarrow> [r]) metrics)"
  define vs where "vs = sort raw"
  let ?q = "\<lambda>p. quantile vs p"
  have len: "length raw + length (filter (\<lambda>x. se_nav_ratio x = None) metrics) = length metrics"
    unfolding raw_def by (induction metrics) (auto split: option.split)
  have rng: "0 \<le> v \<and> v \<le> 1" if v: "v \<in> set vs" for v
  proof -
    obtain x where "x \<in> set metrics" "se_nav_ratio x = Some v"
      using v by (auto simp: vs_def raw_def split: option.splits)
    then show ?thesis using nav_ratios_range [OF assms] by blast
  qed
  have ord: "0 \<le> ?q (1/4) \<and> ?q (1/4) \<le> ?q (1/2) \<and> ?q (1/2) \<le> ?q (3/4) \<and> ?q (3/4) \<le> 1" if ne: "vs \<noteq> []"
  proof -
    have s: "sorted vs" by (simp add: vs_def)
    let ?n = "real (length vs - 1)"
    have "hd vs \<le> interpolate vs (?n * (1/4))" "interpolate vs (?n * (3/4)) \<le> last vs"
      using interpolate_range [OF s _ _ ne] by simp_all
    moreover have "interpolate vs (?n * (1/4)) \<le> interpolate vs (?n * (1/2))"
      "interpolate vs (?n * (1/2)) \<le> interpolate vs (?n * (3/4))"
      using s ne by (intro interpolate_mono; simp)+
    ultimately show ?thesis
      using rng [of "hd vs"] rng [of "last vs"] ne by (simp add: quantile_interpolate)
  qed
  have cs: "compute_cross_series_summary metrics
      = \<lparr> cs_p25 = if vs = [] then None else Some (?q (1/4)), cs_median = if vs = [] then None else Some (?q (1/2)),
          cs_p75 = if vs = [] then None else Some (?q (3/4)), cs_count = length vs,
          cs_excluded = fold counter_inc (map exclusion_reason (filter (\<lambda>x. se_nav_ratio x = None) metrics)) [] \<rparr>"
    by (simp add: compute_cross_series_summary_def Let_def vs_def raw_def)
  show ?thesis using ord len by (simp add: cs counter_incs_sum counter_sum_def [of "[]"]) (simp add: vs_def)
qed

subsection \<open>One bond, matched\<close>

definition demo_panel :: "panel_row list" where
  "demo_panel =
     [[(''normalized_cusip9'', VStr ''037833AA1''), (''observation_date'', VStr ''2026-06-20''),
       (''source_row_number'', VInt 1), (''pr'', VFloat 99), (''pr_state'', VStr ''present'')],
      [(''normalized_cusip9'', VStr ''037833AA1''), (''observation_date'', VStr ''2026-07-05''),
       (''source_row_number'', VInt 2), (''pr'', VFloat 98), (''pr_state'', VStr ''present'')]]"

definition demo_bond :: bond_holding where
  "demo_bond =
     \<lparr> bh_publication_id = VNone, bh_source_run_id = VNone, bh_report_date = VStr ''2026-06-30'',
       bh_series_id = VStr ''S1'', bh_issuer_category = VStr ''CORP'', bh_asset_class = VStr ''DBT'',
       bh_instrument_structure = VStr ''BOND'', bh_original_cusip = VStr '' 037833aa1'',
       bh_signed_market_value = VNone, bh_signed_pct_of_nav = VFloat 40, bh_currency = VStr ''USD'' \<rparr>"

definition demo_rules :: debt_rules where
  "demo_rules = [((''CORP'', ''DBT'', ''BOND''), DebtLikeEligible)]"

definition demo_observation :: "string \<Rightarrow> int \<Rightarrow> real \<Rightarrow> observation" where
  "demo_observation observed_on n price =
     \<lparr> ob_cusip = ''037833AA1'', ob_date = observed_on, ob_row = n, ob_price = VFloat price,
       ob_price_state = VStr ''present'', ob_ytm = VNone, ob_db_type = VNone,
       ob_db_type_state = VStr ''invalid'', ob_daily_key_state = VNone \<rparr>"

definition demo_index :: observation_index where
  "demo_index = \<lparr> ix_universe = [''037833AA1''],
     ix_observations = [demo_observation ''2026-06-20'' 1 99, demo_observation ''2026-07-05'' 2 98] \<rparr>"

definition demo_match :: match_result where
  "demo_match = \<lparr> mr_holding = demo_bond, mr_state = Matched, mr_cusip9 = Some ''037833AA1'',
     mr_observation_date = Some ''2026-06-20'', mr_observations = [demo_observation ''2026-06-20'' 1 99],
     mr_age_days = Some 10, mr_is_144a = None \<rparr>"

lemma demo_from_rows: "from_rows demo_panel [VStr ''037833AA1''] = Inr demo_index"
  by code_simp

lemma demo_match_holding:
  "match_holding demo_bond demo_rules demo_index (VStr ''2020-01-01'') (VStr ''2026-12-31'') = Inr demo_match"
  by code_simp

theorem matching_never_looks_ahead_witness:
  "mr_state demo_match = Matched \<and> (\<exists>d. isoformat d = ''2026-06-20'' \<and> d \<le> Date 2026 6 30 \<and>
     (\<forall>o1 \<in> set (ix_observations demo_index). \<forall>e. ob_cusip o1 = ''037833AA1'' \<longrightarrow>
        fromisoformat (ob_date o1) = Some e \<longrightarrow> e \<le> Date 2026 6 30 \<longrightarrow> e \<le> d))"
proof -
  have "cusip9_of (bh_original_cusip demo_bond) = Some ''037833AA1''" by code_simp
  moreover have "match_date (bh_report_date demo_bond) = Inr (Date 2026 6 30)" by code_simp
  moreover have "mr_observation_date demo_match = Some ''2026-06-20''" "mr_state demo_match = Matched"
    by (simp_all add: demo_match_def)
  ultimately show ?thesis using matching_never_looks_ahead [OF demo_from_rows demo_match_holding] by fastforce
qed

lemma demo_metrics:
  "case compute_series_metrics demo_rules [demo_match] of
     Inr [x] \<Rightarrow> se_nav_ratio x = Some 1 | _ \<Rightarrow> False"
  by code_simp

theorem series_metrics_sound_witness:
  "\<exists>x. compute_series_metrics demo_rules [demo_match] = Inr [x] \<and> se_nav_ratio x = Some 1 \<and>
     counter_sum (se_state_counts x) = 1"
proof -
  obtain x where x: "compute_series_metrics demo_rules [demo_match] = Inr [x]" "se_nav_ratio x = Some 1"
    using demo_metrics by (auto split: sum.splits list.splits)
  from series_metrics_sound [OF x(1)] show ?thesis using x by auto
qed

theorem cross_summary_ordered_witness:
  "\<exists>x a b. compute_series_metrics demo_rules [demo_match] = Inr [x] \<and>
     cs_p25 (compute_cross_series_summary [x]) = Some a \<and> cs_median (compute_cross_series_summary [x]) = Some b \<and>
     a \<le> b"
proof -
  obtain x where x: "compute_series_metrics demo_rules [demo_match] = Inr [x]" "se_nav_ratio x = Some 1"
    using demo_metrics by (auto split: sum.splits list.splits)
  moreover have "cs_count (compute_cross_series_summary [x]) = 1"
    using x(2) by (simp add: compute_cross_series_summary_def Let_def)
  ultimately show ?thesis using cross_summary_ordered [OF x(1)] by auto
qed

end
