(* ===== verification/Contract_Basics.thy ===== *)
theory Contract_Basics
  imports Fund_Identifiers Calendar
begin

text \<open>
  The identifier and calendar primitives of the default-event contract
  (\<open>bonds/default_events/contracts.py\<close>): the CUSIP and ISIN check digits, the CUSIP inside an
  ISIN, months, and the timing class of an onset. The theorem at the end of the first part
  compares this ISIN validator with the one of the look-through worker
  (\<open>Fund_Identifiers\<close>).
\<close>

datatype contract_error = ContractError string | CodecError py_error

subsection \<open>Identifiers\<close>

text \<open>\<open>[0-9A-Z*@#]\<close>\<close>

definition cusip_char :: "char \<Rightarrow> bool" where
  "cusip_char c \<longleftrightarrow> is_digit c \<or> is_upper c \<or> c \<in> {CHR ''*'', CHR ''@'', CHR ''#''}"

definition char_value :: "char \<Rightarrow> contract_error + nat" where
  "char_value c =
     (if is_digit c then Inr (ord_of c - 48)
      else if is_upper c then Inr (ord_of c - 65 + 10)
      else if c = CHR ''*'' then Inr 36
      else if c = CHR ''@'' then Inr 37
      else if c = CHR ''#'' then Inr 38
      else Inl (CodecError KeyError))"

text \<open>The loop over the characters, from index \<open>i\<close> on.\<close>

fun cusip_total :: "nat \<Rightarrow> string \<Rightarrow> contract_error + nat" where
  "cusip_total i [] = Inr 0"
| "cusip_total i (c # cs) =
     bindE (char_value c) (\<lambda>v.
     let e = (if i mod 2 = 1 then v * 2 else v)
     in bindE (cusip_total (Suc i) cs) (\<lambda>t. Inr (e div 10 + e mod 10 + t)))"

definition cusip_check_digit :: "string \<Rightarrow> contract_error + char" where
  "cusip_check_digit base8 =
     (if length base8 \<noteq> 8 \<or> \<not> list_all cusip_char base8 then Inl (ContractError ''cusip_base_invalid'')
      else bindE (cusip_total 0 base8) (\<lambda>t. Inr (digit_char (int ((10 - t mod 10) mod 10)))))"

definition is_valid_cusip9 :: "string \<Rightarrow> contract_error + bool" where
  "is_valid_cusip9 v =
     (if length v = 9 \<and> list_all cusip_char (take 8 v) \<and> is_digit (v ! 8)
      then bindE (cusip_check_digit (take 8 v)) (\<lambda>k. Inr (k = v ! 8))
      else Inr False)"

text \<open>\<open>str(int(ch, 36))\<close> as digits.\<close>

definition base36_digits :: "char \<Rightarrow> nat list" where
  "base36_digits c =
     (if is_digit c then [ord_of c - 48] else [(ord_of c - 55) div 10, (ord_of c - 55) mod 10])"

fun isin_total :: "nat \<Rightarrow> nat list \<Rightarrow> nat" where
  "isin_total i [] = 0"
| "isin_total i (d # ds) =
     (let e = (if i mod 2 = 0 then d * 2 else d) in e div 10 + e mod 10 + isin_total (Suc i) ds)"

definition is_valid_isin :: "string \<Rightarrow> bool" where
  "is_valid_isin v \<longleftrightarrow>
     length v = 12 \<and> list_all is_upper (take 2 v) \<and>
     list_all (\<lambda>c. is_digit c \<or> is_upper c) (take 9 (drop 2 v)) \<and> is_digit (v ! 11) \<and>
     (10 - isin_total 0 (rev (concat (map base36_digits (take 11 v)))) mod 10) mod 10 = ord_of (v ! 11) - 48"

definition cusip_from_isin :: "string \<Rightarrow> contract_error + string option" where
  "cusip_from_isin isin =
     (if \<not> is_valid_isin isin \<or> take 2 isin \<notin> {''US'', ''CA''} then Inr None
      else bindE (is_valid_cusip9 (take 9 (drop 2 isin)))
             (\<lambda>ok. Inr (if ok then Some (take 9 (drop 2 isin)) else None)))"

text \<open>The check digits never raise on text of their alphabet.\<close>

lemma char_value_total: "cusip_char c \<Longrightarrow> \<exists>v. char_value c = Inr v"
  by (auto simp: cusip_char_def char_value_def)

lemma cusip_total_total: "list_all cusip_char cs \<Longrightarrow> \<exists>t. cusip_total i cs = Inr t"
proof (induction cs arbitrary: i)
  case (Cons c cs)
  obtain v where "char_value c = Inr v" using Cons.prems char_value_total [of c] by auto
  moreover obtain t where "cusip_total (Suc i) cs = Inr t" using Cons.IH [of "Suc i"] Cons.prems by auto
  ultimately show ?case by (simp add: Let_def)
qed simp

lemma is_valid_cusip9_total: "\<exists>b. is_valid_cusip9 v = Inr b"
proof (cases "length v = 9 \<and> list_all cusip_char (take 8 v) \<and> is_digit (v ! 8)")
  case True
  then obtain t where "cusip_total 0 (take 8 v) = Inr t" using cusip_total_total by blast
  then show ?thesis using True by (simp add: is_valid_cusip9_def cusip_check_digit_def)
qed (auto simp: is_valid_cusip9_def)

lemma cusip_from_isin_total: "\<exists>r. cusip_from_isin v = Inr r"
  using is_valid_cusip9_total [of "take 9 (drop 2 v)"] by (auto simp: cusip_from_isin_def)

lemma cusip_from_isin_valid:
  "cusip_from_isin v = Inr (Some c) \<Longrightarrow> is_valid_cusip9 c = Inr True \<and> is_valid_isin v \<and> c = take 9 (drop 2 v)"
  by (auto simp: cusip_from_isin_def bindE_Inr_iff split: if_splits)

subsection \<open>The two ISIN validators of the repository\<close>

lemma isin_total_luhn: "isin_total i ds = luhn_total (Suc i) ds"
proof (induction ds arbitrary: i)
  case (Cons d ds)
  have "i mod 2 = 0 \<longleftrightarrow> Suc i mod 2 = 1" by presburger
  then show ?case using Cons.IH by simp
qed simp

lemma base36_isin_digits: "base36_digits = isin_char_digits"
  by (simp add: fun_eq_iff base36_digits_def isin_char_digits_def)

lemma complement_mod10: "k < 10 \<Longrightarrow> (10 - t mod 10) mod 10 = k \<longleftrightarrow> (k + t) mod 10 = 0" for k t :: nat
proof -
  assume k: "k < 10"
  obtain m where m: "t mod 10 = m" "m < 10" by simp
  have "(k + t) mod 10 = (k + m) mod 10" unfolding m(1) [symmetric] by (rule mod_add_right_eq [symmetric])
  moreover have "(k + m) mod 10 = (if k + m < 10 then k + m else k + m - 10)"
    using k m(2) by (auto simp: le_mod_geq)
  moreover have "(10 - m) mod 10 = (if m = 0 then 0 else 10 - m)" by simp
  ultimately show ?thesis using k m by auto
qed

lemma iso_upper: "code \<in> set ISO_3166_ALPHA2 \<Longrightarrow> list_all is_upper code"
proof -
  have "list_all (list_all is_upper) ISO_3166_ALPHA2" by code_simp
  then show "code \<in> set ISO_3166_ALPHA2 \<Longrightarrow> list_all is_upper code" by (simp add: list_all_iff)
qed

lemma isin_check_digit:
  assumes "length v = 12" "is_digit (v ! 11)"
  shows "luhn_total 0 (rev (concat (map isin_char_digits v))) mod 10 = 0
    \<longleftrightarrow> (10 - isin_total 0 (rev (concat (map base36_digits (take 11 v)))) mod 10) mod 10 = ord_of (v ! 11) - 48"
proof -
  have v: "v = take 11 v @ [v ! 11]" using assms(1) by (simp add: take_Suc_conv_app_nth [symmetric])
  have k: "isin_char_digits (v ! 11) = [ord_of (v ! 11) - 48]" "ord_of (v ! 11) - 48 < 10"
    using digit_isin_digits [OF assms(2)] by simp_all
  have "rev (concat (map isin_char_digits v))
      = (ord_of (v ! 11) - 48) # rev (concat (map isin_char_digits (take 11 v)))"
    by (subst v) (simp add: k(1))
  then show ?thesis
    using complement_mod10 [OF k(2)] k(2) by (simp add: isin_total_luhn base36_isin_digits)
qed

lemma isin_pattern:
  assumes "length v = 12"
  shows "list_all (\<lambda>c. is_digit c \<or> is_upper c) v
    \<longleftrightarrow> list_all (\<lambda>c. is_digit c \<or> is_upper c) (take 2 v) \<and>
        list_all (\<lambda>c. is_digit c \<or> is_upper c) (take 9 (drop 2 v)) \<and> (is_digit (v ! 11) \<or> is_upper (v ! 11))"
proof -
  have "drop 11 v = [v ! 11]" using assms Cons_nth_drop_Suc [of 11 v] by simp
  moreover have "drop 9 (drop 2 v) = drop 11 v" by simp
  ultimately have "take 9 (drop 2 v) @ [v ! 11] = drop 2 v"
    by (metis append_take_drop_id)
  then have "v = take 2 v @ take 9 (drop 2 v) @ [v ! 11]"
    by (metis append_take_drop_id)
  then have "list_all P v \<longleftrightarrow> list_all P (take 2 v @ take 9 (drop 2 v) @ [v ! 11])" for P
    by (rule arg_cong)
  then show ?thesis by (simp only: list_all_append list.pred_inject simp_thms)
qed

text \<open>
  The look-through worker and the default-event contract have each their own ISIN check,
  with other loops and other parities. On upper-case text that ends in a digit they accept
  the same identifiers, except that the worker also wants a country of ISO 3166: an ISIN that
  passes one and fails the other has a prefix such as XS, or a letter where the check digit
  belongs.
\<close>

theorem isin_validators_agree:
  "valid_isin v \<and> list_all (\<lambda>c. is_digit c \<or> is_upper c) v \<and> is_digit (last v)
     \<longleftrightarrow> is_valid_isin v \<and> take 2 v \<in> set ISO_3166_ALPHA2"
proof (cases "length v = 12 \<and> take 2 v \<in> set ISO_3166_ALPHA2")
  case True
  then have l: "length v = 12" "last v = v ! 11" by (cases "v = []"; simp add: last_conv_nth)+
  have up: "list_all is_upper (take 2 v)" using True iso_upper by blast
  then have "list_all (\<lambda>c. is_digit c \<or> is_upper c) (take 2 v)" by (auto simp: list_all_iff)
  moreover have "list_all (\<lambda>c. is_digit c \<or> is_upper c) v \<Longrightarrow> list_all is_alnum v"
    by (auto simp: list_all_iff is_alnum_def)
  ultimately show ?thesis
    using True l up isin_pattern [OF l(1)] isin_check_digit [OF l(1)]
    by (auto simp: valid_isin_def is_valid_isin_def)
qed (auto simp: valid_isin_def is_valid_isin_def)

subsection \<open>Months\<close>

definition month_key :: "date \<Rightarrow> date" where
  "month_key d = Date (year d) (month d) 1"

text \<open>\<open>date(...)\<close> raises outside the years 1 to 9999.\<close>

definition add_months :: "date \<Rightarrow> int \<Rightarrow> contract_error + date" where
  "add_months m n =
     (let index = year m * 12 + month m - 1 + n
      in case mk_date (index div 12) (index mod 12 + 1) 1 of
           None \<Rightarrow> Inl (CodecError ValueError)
         | Some d \<Rightarrow> Inr d)"

definition month_end :: "date \<Rightarrow> contract_error + date" where
  "month_end m = bindE (add_months (month_key m) 1) (\<lambda>n. Inr (add_days n (-1)))"

definition derive_timing_class :: "date option \<Rightarrow> date \<Rightarrow> contract_error + string" where
  "derive_timing_class lower_exclusive upper_inclusive =
     (case lower_exclusive of
        None \<Rightarrow> Inr ''prevalent''
      | Some l \<Rightarrow>
          if l \<ge> upper_inclusive then Inl (ContractError ''onset_bounds_not_increasing'')
          else (let first_day = add_days l 1
                in Inr (if year first_day = year upper_inclusive \<and> month first_day = month upper_inclusive
                        then ''incident'' else ''interval_uncertain'')))"

lemma add_months_add:
  "add_months m a = Inr n \<Longrightarrow> add_months n b = add_months m (a + b)"
proof -
  assume "add_months m a = Inr n"
  then have "year n * 12 + month n - 1 = year m * 12 + month m - 1 + a"
    by (auto simp: add_months_def mk_date_def Let_def split: if_splits option.splits)
  then show ?thesis by (simp add: add_months_def Let_def algebra_simps)
qed

lemma month_key_valid [simp]: "valid_date d \<Longrightarrow> valid_date (month_key d)"
  by (auto simp: valid_date_def month_key_def days_in_month_def)

lemma add_months_valid: "add_months m n = Inr d \<Longrightarrow> valid_date d \<and> date.day d = 1"
  by (auto simp: add_months_def mk_date_def Let_def split: if_splits option.splits)

end
