(* ===== verification/Evidence_AsOf.thy ===== *)
theory Evidence_AsOf
  imports Contract_Basics
begin

text \<open>
  The evidence of a default event as of a cutoff \<open>K\<close>, and the links from observations to
  securities that may be drawn from it (\<open>bonds/default_events/resolve.py\<close>, first half, with the
  row contract of \<open>EventLink\<close> in \<open>contracts.py\<close>). The rows keep the fields the code reads.
  Identifiers are texts; an aware timestamp is its microsecond count in UTC. The identifier of
  a link is a digest of its other fields: the digests are parameters (\<open>link_hash\<close>).
\<close>

type_synonym uuid = string

datatype resolve_error = ResolveError string "string list" | ContractFault contract_error

datatype timestamp = Aware datetime | Naive datetime

fun utc :: "timestamp \<Rightarrow> resolve_error + datetime" where
  "utc (Aware t) = Inr t"
| "utc (Naive t) = Inl (ResolveError ''knowledge_cutoff:timezone_required'' [])"

definition KNOWLEDGE_MODES :: "string list" where
  "KNOWLEDGE_MODES = [''current_run'', ''historical_reconstruction'']"

definition check_mode :: "string \<Rightarrow> resolve_error + unit" where
  "check_mode mode =
     (if mode \<in> set KNOWLEDGE_MODES then Inr ()
      else Inl (ResolveError (''knowledge_mode:invalid:'' @ mode) []))"

record credit_observation =
  co_id :: uuid
  co_kind :: string
  co_cusip9 :: "string option"
  co_public_available_at :: datetime
  co_first_seen_at :: datetime
  co_revision_kind :: string
  co_supersedes :: "uuid option"
  co_report_date :: "date option"
  co_is_default :: "string option"
  co_arrears :: "string option"
  co_presence :: "(string, string) dict"

record link_body =
  el_package_id :: uuid
  el_observation_id :: uuid
  el_security_id :: uuid
  el_cusip9 :: string
  el_obligor_id :: string
  el_affected_scope :: string
  el_valid_from :: date
  el_valid_to :: "date option"
  el_known_at :: datetime
  el_refs :: "string list"
  el_refs_digest :: string
  el_status :: string
  el_rationale :: string
  el_supersedes :: "uuid option"

record event_link = link_body +
  el_id :: uuid

record adjudication =
  ad_id :: uuid
  ad_subject_kind :: string
  ad_subject_id :: uuid
  ad_status :: string
  ad_supersedes :: "uuid option"
  ad_policy_digest :: string
  ad_reviewer_role :: string
  ad_adjudicated_at :: datetime
  ad_evidence_ids :: "uuid list"
  ad_link_ids :: "uuid list"

definition POLICY_DIGEST :: string where
  "POLICY_DIGEST = ''sha256:f0aea3d0d86daa874c237adf38de634151f18c0ef2cff5ab69e7d67588bc5662''"

definition ADMITTING_STATUSES :: "string list" where
  "ADMITTING_STATUSES = [''accepted_state'', ''accepted_event'']"

definition SCOPE_DECISION_STATUSES :: "string list" where
  "SCOPE_DECISION_STATUSES = ADMITTING_STATUSES"

subsection \<open>What is usable at the cutoff\<close>

text \<open>
  The loop of \<open>stale_observations\<close> and of \<open>stale_links\<close> over the rows: the parents revised by
  a row known by \<open>k\<close>. A second revision of one parent is a fork.
\<close>

fun revised_loop ::
  "string \<Rightarrow> ('a \<Rightarrow> uuid option) \<Rightarrow> ('a \<Rightarrow> datetime) \<Rightarrow> datetime \<Rightarrow> 'a list \<Rightarrow> uuid list
     \<Rightarrow> resolve_error + uuid list" where
  "revised_loop fork supersedes known k [] revised = Inr revised"
| "revised_loop fork supersedes known k (x # xs) revised =
     (case supersedes x of
        None \<Rightarrow> revised_loop fork supersedes known k xs revised
      | Some parent \<Rightarrow>
          if known x > k then revised_loop fork supersedes known k xs revised
          else if parent \<in> set revised then Inl (ResolveError fork [parent])
          else revised_loop fork supersedes known k xs (parent # revised))"

definition stale_observations ::
  "(uuid, credit_observation) dict \<Rightarrow> datetime \<Rightarrow> resolve_error + uuid list" where
  "stale_observations observations k =
     bindE (revised_loop ''observation_revision_fork'' co_supersedes co_public_available_at k (map snd observations) [])
       (\<lambda>revised. Inr (revised @ map fst (filter (\<lambda>(oid, x). co_revision_kind x = ''retraction'') observations)))"

definition stale_links :: "(uuid, event_link) dict \<Rightarrow> datetime \<Rightarrow> resolve_error + uuid list" where
  "stale_links links k =
     revised_loop ''link_revision_fork'' el_supersedes el_known_at k (map snd links) []"

definition usable_observation ::
  "credit_observation \<Rightarrow> datetime \<Rightarrow> string \<Rightarrow> uuid list \<Rightarrow> string option" where
  "usable_observation x k mode stale =
     (if co_public_available_at x > k then Some ''observation_public_after_cutoff''
      else if mode = ''current_run'' \<and> co_first_seen_at x > k then Some ''observation_not_ingested_by_cutoff''
      else if co_id x \<in> set stale then Some ''observation_superseded_or_retracted''
      else None)"

definition adjudication_usable :: "datetime \<Rightarrow> string \<Rightarrow> adjudication \<Rightarrow> bool" where
  "adjudication_usable k mode a \<longleftrightarrow> mode = ''historical_reconstruction'' \<or> ad_adjudicated_at a \<le> k"

definition adjudications_as_of ::
  "adjudication list \<Rightarrow> datetime \<Rightarrow> string \<Rightarrow> (uuid, adjudication) dict" where
  "adjudications_as_of adjudications k mode = index_by ad_id (filter (adjudication_usable k mode) adjudications)"

fun effective_loop ::
  "(uuid, adjudication) dict \<Rightarrow> uuid list \<Rightarrow> adjudication list \<Rightarrow> (uuid, adjudication) dict
     \<Rightarrow> resolve_error + (uuid, adjudication) dict" where
  "effective_loop adjs superseded [] effective = Inr effective"
| "effective_loop adjs superseded (a # as) effective =
     (if ad_id a \<in> set superseded then effective_loop adjs superseded as effective
      else if dict_get effective (ad_subject_id a) \<noteq> None then
        Inl (ResolveError ''adjudication_chain_fork'' [ad_subject_id a])
      else if (case ad_supersedes a of
                 None \<Rightarrow> False
               | Some parent \<Rightarrow> (case dict_get adjs parent of
                     None \<Rightarrow> True
                   | Some b \<Rightarrow> ad_subject_id b \<noteq> ad_subject_id a)) then
        Inl (ResolveError ''adjudication_supersedes_outside_inventory'' [ad_id a])
      else effective_loop adjs superseded as (dict_set (ad_subject_id a) a effective))"

definition superseded_ids :: "(uuid, adjudication) dict \<Rightarrow> uuid list" where
  "superseded_ids adjs = List.map_filter ad_supersedes (map snd adjs)"

definition effective_adjudications ::
  "(uuid, adjudication) dict \<Rightarrow> resolve_error + (uuid, adjudication) dict" where
  "effective_adjudications adjs =
     effective_loop adjs (superseded_ids adjs)
       (sort_by (\<lambda>a b. text_le (ad_id a) (ad_id b)) (map snd adjs)) []"

text \<open>
  The record that supersedes each record: of two records superseding the same one the later
  in the inventory stays.
\<close>

definition children_of :: "(uuid, adjudication) dict \<Rightarrow> (uuid, adjudication) dict" where
  "children_of adjs =
     fold (\<lambda>a d. case ad_supersedes a of None \<Rightarrow> d | Some parent \<Rightarrow> dict_set parent a d) (map snd adjs) []"

function chain_loop ::
  "(uuid, adjudication) dict \<Rightarrow> adjudication \<Rightarrow> adjudication \<Rightarrow> uuid list \<Rightarrow> resolve_error + adjudication" where
  "chain_loop children start head seen =
     (case dict_get children (ad_id head) of
        None \<Rightarrow> Inr head
      | Some nxt \<Rightarrow>
          if ad_id nxt \<in> set seen then Inl (ResolveError ''adjudication_supersession_cycle'' [ad_id start])
          else chain_loop children start nxt (ad_id nxt # seen))"
  by pat_completeness auto

lemma chain_loop_decreases:
  assumes "dict_get children h = Some nxt" "ad_id nxt \<notin> set seen"
  shows "length (filter (\<lambda>a. ad_id a \<notin> set (ad_id nxt # seen)) (map snd children))
    < length (filter (\<lambda>a. ad_id a \<notin> set seen) (map snd children))"
proof -
  let ?xs = "filter (\<lambda>a. ad_id a \<notin> set seen) (map snd children)"
  have "nxt \<in> set (map snd children)" using dict_get_in [OF assms(1)] by force
  then have "nxt \<in> set ?xs" using assms(2) by simp
  then have "length (filter (\<lambda>a. ad_id a \<noteq> ad_id nxt) ?xs) < length ?xs"
    by (rule length_filter_less) simp
  moreover have "filter (\<lambda>a. ad_id a \<notin> set (ad_id nxt # seen)) (map snd children)
      = filter (\<lambda>a. ad_id a \<noteq> ad_id nxt) ?xs"
    by (simp add: conj_commute)
  ultimately show ?thesis by simp
qed

termination chain_loop
proof (relation "measure (\<lambda>(children, start, head, seen).
    length (filter (\<lambda>a. ad_id a \<notin> set seen) (map snd children)))", goal_cases)
  case (2 children start head seen nxt)
  then show ?case using chain_loop_decreases by (simp only: in_measure prod.case)
qed simp

declare chain_loop.simps [simp del]

definition chain_head :: "adjudication \<Rightarrow> (uuid, adjudication) dict \<Rightarrow> resolve_error + adjudication" where
  "chain_head start adjs = chain_loop (children_of adjs) start start [ad_id start]"

subsection \<open>The inputs as of the cutoff\<close>

record as_of =
  ao_k :: datetime
  ao_mode :: string
  ao_obs :: "(uuid, credit_observation) dict"
  ao_stale_obs :: "uuid list"
  ao_links :: "(uuid, event_link) dict"
  ao_stale_links :: "uuid list"
  ao_adjs :: "(uuid, adjudication) dict"

definition build_as_of ::
  "datetime \<Rightarrow> string \<Rightarrow> credit_observation list \<Rightarrow> event_link list \<Rightarrow> adjudication list
     \<Rightarrow> resolve_error + as_of" where
  "build_as_of k mode observations links adjudications =
     (let obs = index_by co_id observations; link_map = index_by el_id links
      in bindE (stale_observations obs k) (\<lambda>stale_obs.
         bindE (stale_links link_map k) (\<lambda>stale.
         Inr \<lparr> ao_k = k, ao_mode = mode, ao_obs = obs, ao_stale_obs = stale_obs, ao_links = link_map,
               ao_stale_links = stale, ao_adjs = adjudications_as_of adjudications k mode \<rparr>)))"

definition observation_problem :: "as_of \<Rightarrow> uuid \<Rightarrow> string option" where
  "observation_problem s oid =
     (case dict_get (ao_obs s) oid of
        None \<Rightarrow> Some ''observation_outside_inventory''
      | Some x \<Rightarrow> usable_observation x (ao_k s) (ao_mode s) (ao_stale_obs s))"

definition link_problem :: "as_of \<Rightarrow> uuid \<Rightarrow> string option" where
  "link_problem s lid =
     (case dict_get (ao_links s) lid of
        None \<Rightarrow> Some ''link_outside_inventory''
      | Some x \<Rightarrow>
          if el_status x \<noteq> ''admitted'' then Some (''link_'' @ el_status x)
          else if lid \<in> set (ao_stale_links s) then Some ''link_superseded''
          else if el_known_at x > ao_k s then Some ''link_known_after_cutoff''
          else observation_problem s (el_observation_id x))"

definition effective_head :: "as_of \<Rightarrow> adjudication \<Rightarrow> resolve_error + adjudication" where
  "effective_head s a = chain_head a (ao_adjs s)"

text \<open>The first problem ends each loop; \<open>self.obs[oid]\<close> is there, for the problem was none.\<close>

fun observation_times :: "as_of \<Rightarrow> uuid list \<Rightarrow> string + datetime list" where
  "observation_times s [] = Inr []"
| "observation_times s (oid # oids) =
     (case observation_problem s oid of
        Some problem \<Rightarrow> Inl problem
      | None \<Rightarrow> bindE (observation_times s oids)
          (\<lambda>ts. Inr (co_public_available_at (the (dict_get (ao_obs s) oid)) # ts)))"

fun link_times :: "as_of \<Rightarrow> uuid list \<Rightarrow> uuid list \<Rightarrow> string + datetime list" where
  "link_times s exempt [] = Inr []"
| "link_times s exempt (lid # lids) =
     (if lid \<in> set exempt then link_times s exempt lids
      else (case link_problem s lid of
        Some problem \<Rightarrow> Inl problem
      | None \<Rightarrow> bindE (link_times s exempt lids)
          (\<lambda>ts. Inr (el_known_at (the (dict_get (ao_links s) lid)) # ts))))"

definition dependency_times :: "as_of \<Rightarrow> adjudication \<Rightarrow> uuid list \<Rightarrow> string + datetime list" where
  "dependency_times s a exempt =
     bindE (observation_times s (ad_evidence_ids a)) (\<lambda>ts.
     bindE (link_times s exempt (ad_link_ids a)) (\<lambda>us. Inr (ts @ us)))"

subsection \<open>Effective records and heads of chains\<close>

lemma effective_loop_Inr:
  "effective_loop adjs superseded as effective = Inr eff \<Longrightarrow>
   dict_get eff s = Some a
     \<longleftrightarrow> dict_get effective s = Some a \<or> a \<in> set as \<and> ad_id a \<notin> set superseded \<and> ad_subject_id a = s"
  by (induction as arbitrary: effective) (auto split: if_splits)

lemma in_superseded_ids: "i \<in> set (superseded_ids adjs) \<longleftrightarrow> (\<exists>b \<in> snd ` set adjs. ad_supersedes b = Some i)"
  by (auto simp: superseded_ids_def List.map_filter_def image_iff split: option.splits) force+

text \<open>
  An accepted inventory has one effective record per subject. Whenever the adjudications
  are not refused, the effective record of a subject is the one record of that subject that no
  record supersedes; in particular two such records of one subject are always refused.
\<close>

theorem effective_adjudications_unique:
  assumes "effective_adjudications adjs = Inr eff"
  shows "dict_get eff s = Some a \<longleftrightarrow>
      a \<in> snd ` set adjs \<and> ad_subject_id a = s \<and> (\<forall>b \<in> snd ` set adjs. ad_supersedes b \<noteq> Some (ad_id a))"
  using effective_loop_Inr [OF assms [unfolded effective_adjudications_def], of s a]
  by (auto simp: in_superseded_ids)

lemma children_of_get:
  "dict_get (children_of adjs) i = Some b \<Longrightarrow> b \<in> snd ` set adjs \<and> ad_supersedes b = Some i"
proof -
  have "dict_get (fold (\<lambda>a d. case ad_supersedes a of None \<Rightarrow> d | Some parent \<Rightarrow> dict_set parent a d) as d) i = Some b \<Longrightarrow>
      dict_get d i = Some b \<or> b \<in> set as \<and> ad_supersedes b = Some i" for as and d :: "(uuid, adjudication) dict"
    by (induction as arbitrary: d) (fastforce split: option.splits if_splits)+
  from this [of "map snd adjs" "[]"] show "dict_get (children_of adjs) i = Some b \<Longrightarrow> ?thesis"
    by (auto simp: children_of_def)
qed

lemma children_of_None:
  "dict_get (children_of adjs) i = None \<longleftrightarrow> (\<forall>b \<in> snd ` set adjs. ad_supersedes b \<noteq> Some i)"
proof -
  have "dict_get (fold (\<lambda>a d. case ad_supersedes a of None \<Rightarrow> d | Some parent \<Rightarrow> dict_set parent a d) as d) i = None
      \<longleftrightarrow> dict_get d i = None \<and> (\<forall>b \<in> set as. ad_supersedes b \<noteq> Some i)" for as and d :: "(uuid, adjudication) dict"
    by (induction as arbitrary: d) (auto split: option.splits)
  from this [of "map snd adjs" "[]"] show ?thesis by (simp add: children_of_def)
qed

text \<open>The head of a chain supersedes the start, step by step, and nothing supersedes it.\<close>

inductive supersedes_via :: "(uuid, adjudication) dict \<Rightarrow> adjudication \<Rightarrow> adjudication \<Rightarrow> bool" for adjs where
  start: "supersedes_via adjs a a"
| step: "supersedes_via adjs a b \<Longrightarrow> c \<in> snd ` set adjs \<Longrightarrow> ad_supersedes c = Some (ad_id b) \<Longrightarrow> supersedes_via adjs a c"

lemma chain_loop_head:
  "chain_loop (children_of adjs) start head seen = Inr h \<Longrightarrow> supersedes_via adjs start head \<Longrightarrow>
   supersedes_via adjs start h \<and> (\<forall>b \<in> snd ` set adjs. ad_supersedes b \<noteq> Some (ad_id h))"
proof (induction "children_of adjs" start head seen rule: chain_loop.induct)
  case (1 start head seen)
  show ?case
  proof (cases "dict_get (children_of adjs) (ad_id head)")
    case None
    then have "h = head" using 1(2) by (simp add: chain_loop.simps [of _ _ head])
    then show ?thesis using 1(3) None children_of_None by blast
  next
    case (Some nxt)
    have "ad_id nxt \<notin> set seen" "chain_loop (children_of adjs) start nxt (ad_id nxt # seen) = Inr h"
      using 1(2) Some by (simp_all add: chain_loop.simps [of _ _ head] split: if_splits)
    moreover have "supersedes_via adjs start nxt"
      using 1(3) children_of_get [OF Some] by (blast intro: supersedes_via.step)
    ultimately show ?thesis using 1(1) [OF Some] by blast
  qed
qed

lemma chain_head_unsuperseded:
  assumes "chain_head start adjs = Inr h"
  shows "supersedes_via adjs start h" "b \<in> snd ` set adjs \<Longrightarrow> ad_supersedes b \<noteq> Some (ad_id h)"
  using chain_loop_head [OF assms [unfolded chain_head_def] supersedes_via.start] by blast+

definition sample_adjudication :: "uuid \<Rightarrow> uuid option \<Rightarrow> adjudication" where
  "sample_adjudication i parent =
     \<lparr> ad_id = i, ad_subject_kind = ''issue_episode'', ad_subject_id = ''subject'', ad_status = ''accepted_event'',
       ad_supersedes = parent, ad_policy_digest = POLICY_DIGEST, ad_reviewer_role = ''human_reviewer'',
       ad_adjudicated_at = 1, ad_evidence_ids = [''doc''], ad_link_ids = [''link''] \<rparr>"

definition sample_inventory :: "(uuid, adjudication) dict" where
  "sample_inventory = index_by ad_id [sample_adjudication ''a2'' (Some ''a1''), sample_adjudication ''a1'' None]"

theorem effective_adjudications_unique_witness:
  "effective_adjudications sample_inventory = Inr [(''subject'', sample_adjudication ''a2'' (Some ''a1''))] \<and>
   (\<forall>b \<in> snd ` set sample_inventory. ad_supersedes b \<noteq> Some ''a2'')"
proof -
  have e: "effective_adjudications sample_inventory = Inr [(''subject'', sample_adjudication ''a2'' (Some ''a1''))]"
    by code_simp
  show ?thesis
    using e effective_adjudications_unique [OF e, of "''subject''" "sample_adjudication ''a2'' (Some ''a1'')"]
    by (simp add: sample_adjudication_def)
qed

end
