(* ===== verification/Evidence_Links.thy ===== *)
theory Evidence_Links
  imports Evidence_AsOf
begin

text \<open>
  Links from observations to securities (\<open>bonds/default_events/resolve.py\<close>, \<open>resolve_links\<close> and
  what it calls): requests with their identity basis, the row contract of \<open>EventLink\<close>, human
  scope decisions, and the resolution of a batch of requests as of a cutoff. The theorems: no
  emitted link depends on a record the cutoff hides; every emitted link is justified; and two
  records superseding the same decision are resolved by their order in the inventory.
\<close>

record link_hash =
  lh_digest :: "string list \<Rightarrow> string"
  lh_id :: "link_body \<Rightarrow> uuid"

record source_package =
  pk_id :: uuid
  pk_family :: string

record link_request =
  rq_observation_id :: uuid
  rq_cusip9 :: string
  rq_security_id :: uuid
  rq_obligor_id :: string
  rq_affected_scope :: string
  rq_basis :: string
  rq_refs :: "string list"
  rq_identity_known_at :: timestamp
  rq_valid_from :: date
  rq_valid_to :: "date option"
  rq_rationale :: string

record link_issue =
  li_observation_id :: uuid
  li_cusip9 :: string
  li_reason :: string
  li_link_id :: "uuid option"
  li_prospective :: "uuid option"

definition issue_text :: "link_issue \<Rightarrow> string" where
  "issue_text i = li_reason i @ '':'' @ li_cusip9 i @ '':'' @ li_observation_id i"

subsection \<open>The row contract of a link\<close>

definition nonblank :: "string \<Rightarrow> bool" where
  "nonblank s \<longleftrightarrow> list_ex (\<lambda>c. \<not> is_space c) s"

definition check_text :: "string \<Rightarrow> string \<Rightarrow> contract_error + unit" where
  "check_text name v =
     (if nonblank v then Inr () else Inl (ContractError (name @ '':nonblank_text_expected'')))"

definition check_enum :: "string \<Rightarrow> string list \<Rightarrow> string \<Rightarrow> contract_error + unit" where
  "check_enum name allowed v =
     (if v \<in> set allowed then Inr () else Inl (ContractError (name @ '':enum_invalid'')))"

definition check_cusip :: "string \<Rightarrow> string \<Rightarrow> contract_error + unit" where
  "check_cusip name v =
     bindE (is_valid_cusip9 v)
       (\<lambda>ok. if ok then Inr () else Inl (ContractError (name @ '':valid_cusip9_expected'')))"

definition sorted_texts :: "string list \<Rightarrow> string list" where
  "sorted_texts values = sort_by text_le (remdups values)"

definition check_texts :: "string \<Rightarrow> string list \<Rightarrow> contract_error + unit" where
  "check_texts name items =
     bindE (mapE (check_text name) items)
       (\<lambda>_. if items = sorted_texts items then Inr ()
            else Inl (ContractError (name @ '':array_must_be_sorted_unique'')))"

definition affected_scopes :: "string list" where
  "affected_scopes = [''exchange_new'', ''exchange_old'', ''issue'', ''issuer_affected_obligation'']"

definition link_statuses :: "string list" where
  "link_statuses = [''admitted'', ''quarantined'', ''rejected'']"

definition link_rules :: "link_body \<Rightarrow> contract_error + unit" where
  "link_rules b =
     (if (case el_valid_to b of None \<Rightarrow> False | Some t \<Rightarrow> t < el_valid_from b) then
        Inl (ContractError ''valid_to:before_valid_from'')
      else if el_status b = ''admitted'' \<and> el_refs b = [] then
        Inl (ContractError ''identity_evidence_refs:required_for_admitted'')
      else Inr ())"

definition check_link :: "link_body \<Rightarrow> contract_error + unit" where
  "check_link b =
     bindE (check_cusip ''cusip9'' (el_cusip9 b)) (\<lambda>_.
     bindE (check_text ''obligor_id'' (el_obligor_id b)) (\<lambda>_.
     bindE (check_enum ''affected_scope'' affected_scopes (el_affected_scope b)) (\<lambda>_.
     bindE (check_texts ''identity_evidence_refs'' (el_refs b)) (\<lambda>_.
     bindE (check_enum ''status'' link_statuses (el_status b)) (\<lambda>_.
     bindE (check_text ''rationale'' (el_rationale b)) (\<lambda>_. link_rules b))))))"

definition create_link :: "link_hash \<Rightarrow> link_body \<Rightarrow> resolve_error + event_link" where
  "create_link h b =
     (case check_link b of
        Inl e \<Rightarrow> Inl (ContractFault e)
      | Inr _ \<Rightarrow> Inr (link_body.extend b (event_link.fields (lh_id h b))))"

definition make_link ::
  "link_hash \<Rightarrow> source_package \<Rightarrow> link_request \<Rightarrow> string \<Rightarrow> datetime \<Rightarrow> string \<Rightarrow> uuid option
     \<Rightarrow> resolve_error + event_link" where
  "make_link h package req status known_at rationale supersedes =
     (let refs = sorted_texts (rq_refs req)
      in create_link h
        \<lparr> el_package_id = pk_id package, el_observation_id = rq_observation_id req,
          el_security_id = rq_security_id req, el_cusip9 = rq_cusip9 req, el_obligor_id = rq_obligor_id req,
          el_affected_scope = rq_affected_scope req, el_valid_from = rq_valid_from req,
          el_valid_to = rq_valid_to req, el_known_at = known_at, el_refs = refs,
          el_refs_digest = lh_digest h refs, el_status = status, el_rationale = rationale,
          el_supersedes = supersedes \<rparr>)"

subsection \<open>Direct proofs of identity\<close>

definition LINK_BASES :: "string list" where
  "LINK_BASES = [''adjudicated_issue_scope'', ''document_stated_cusip'', ''nport_cusip_identity'']"

definition DOCUMENT_SCOPES :: "string list" where
  "DOCUMENT_SCOPES = [''issue'', ''exchange_old'', ''exchange_new'']"

definition ends_with :: "string \<Rightarrow> string \<Rightarrow> bool" where
  "ends_with suffix s \<longleftrightarrow> length suffix \<le> length s \<and> drop (length s - length suffix) s = suffix"

definition direct_status :: "link_request \<Rightarrow> credit_observation \<Rightarrow> string \<times> string" where
  "direct_status req x =
     (if rq_basis req \<notin> set LINK_BASES then (''quarantined'', ''suspected_identity_basis:'' @ rq_basis req)
      else if co_cusip9 x \<noteq> None \<and> co_cusip9 x \<noteq> Some (rq_cusip9 req) then
        (''rejected'', ''cusip_contradicts_observation'')
      else if rq_basis req = ''nport_cusip_identity'' then
        (if co_kind x \<noteq> ''nport_holding'' then (''rejected'', ''nport_identity_requires_nport_holding'')
         else if co_cusip9 x = None then (''quarantined'', ''nport_holding_without_validated_cusip'')
         else if rq_affected_scope req \<noteq> ''issue'' then (''quarantined'', ''nport_identity_scope_must_be_issue'')
         else (''admitted'', ''nport_cusip_identity''))
      else if \<not> ends_with ''_passage'' (co_kind x) then (''rejected'', ''document_basis_requires_passage'')
      else if co_cusip9 x = None then (''quarantined'', ''issuer_level_evidence_without_adjudicated_scope'')
      else if rq_affected_scope req \<notin> set DOCUMENT_SCOPES then
        (''quarantined'', ''issuer_scope_requires_adjudication'')
      else (''admitted'', ''document_stated_cusip''))"

subsection \<open>Human scope decisions\<close>

definition CANDIDATE_IS_NOT_A_DECISION :: string where
  "CANDIDATE_IS_NOT_A_DECISION = ''candidate_is_not_a_decision''"

definition STANDALONE_DECISION_NOT_PERSISTABLE :: string where
  "STANDALONE_DECISION_NOT_PERSISTABLE = ''standalone_decision_not_persistable''"

record scope_outcome =
  so_decision :: "adjudication option"
  so_known_at :: "datetime option"
  so_reason :: string
  so_prospective :: "uuid option"

text \<open>
  What the loop body makes of one citing record: go on with a reason, go on with the reason of
  a standalone decision and its revision, or decide.
\<close>

datatype scope_verdict = Pass string | Standalone "uuid option" | Decide datetime "uuid option"

type_synonym revision_ids = "adjudication \<Rightarrow> datetime \<Rightarrow> resolve_error + uuid"

definition revision_of ::
  "revision_ids option \<Rightarrow> adjudication \<Rightarrow> datetime \<Rightarrow> resolve_error + uuid option" where
  "revision_of revision_id_for a known =
     (case revision_id_for of None \<Rightarrow> Inr None | Some f \<Rightarrow> bindE (f a known) (\<lambda>r. Inr (Some r)))"

definition in_chain :: "event_link \<Rightarrow> adjudication \<Rightarrow> adjudication \<Rightarrow> uuid option \<Rightarrow> bool" where
  "in_chain proposal a head revision \<longleftrightarrow>
     ad_subject_kind a = ''issue_episode'' \<and> ad_id head \<noteq> ad_id a \<and> ad_subject_kind head = ''issue_episode'' \<and>
     (case revision of None \<Rightarrow> False | Some r \<Rightarrow> r \<in> set (ad_link_ids head)) \<and>
     el_id proposal \<notin> set (ad_link_ids head) \<and> el_observation_id proposal \<in> set (ad_evidence_ids head)"

definition decide_with ::
  "event_link \<Rightarrow> as_of \<Rightarrow> revision_ids option \<Rightarrow> adjudication \<Rightarrow> adjudication \<Rightarrow> resolve_error + scope_verdict" where
  "decide_with proposal s revision_id_for a head =
     (case dependency_times s a [el_id proposal] of
        Inl problem \<Rightarrow> Inr (Pass (''scope_dependency_unusable:'' @ problem))
      | Inr ts \<Rightarrow>
          (let known = fold max ts (el_known_at proposal)
           in bindE (revision_of revision_id_for a known) (\<lambda>revision.
             if \<not> in_chain proposal a head revision then Inr (Standalone revision)
             else (case dependency_times s head (el_id proposal # (case revision of None \<Rightarrow> [] | Some r \<Rightarrow> [r])) of
                 Inl problem \<Rightarrow> Inr (Pass (''scope_dependency_unusable:'' @ problem))
               | Inr _ \<Rightarrow>
                   if known > ao_k s then Inr (Pass ''link_known_after_cutoff'')
                   else Inr (Decide known revision)))))"

definition scope_verdict_of ::
  "event_link \<Rightarrow> as_of \<Rightarrow> revision_ids option \<Rightarrow> adjudication \<Rightarrow> resolve_error + scope_verdict" where
  "scope_verdict_of proposal s revision_id_for a =
     (if ao_mode s = ''current_run'' \<and> ad_adjudicated_at a > ao_k s then Inr (Pass ''scope_adjudication_missing'')
      else if ad_status a = ''candidate'' then Inr (Pass CANDIDATE_IS_NOT_A_DECISION)
      else if ad_reviewer_role a \<noteq> ''human_reviewer'' then Inr (Pass ''scope_adjudication_not_human'')
      else if ad_policy_digest a \<noteq> POLICY_DIGEST then Inr (Pass ''scope_adjudication_policy_mismatch'')
      else if ad_status a \<notin> set SCOPE_DECISION_STATUSES then
        Inr (Pass (''scope_adjudication_status_'' @ ad_status a))
      else bindE (effective_head s a) (\<lambda>head.
        if ao_mode s = ''current_run'' \<and> ad_adjudicated_at head > ao_k s then
          Inr (Pass ''scope_adjudication_not_effective'')
        else if ad_status head \<notin> set SCOPE_DECISION_STATUSES \<or> ad_policy_digest head \<noteq> POLICY_DIGEST then
          Inr (Pass ''scope_adjudication_not_effective'')
        else decide_with proposal s revision_id_for a head))"

fun scope_loop ::
  "event_link \<Rightarrow> as_of \<Rightarrow> revision_ids option \<Rightarrow> adjudication list \<Rightarrow> string \<Rightarrow> uuid option
     \<Rightarrow> resolve_error + scope_outcome" where
  "scope_loop proposal s revision_id_for [] reason prospective =
     Inr \<lparr> so_decision = None, so_known_at = None, so_reason = reason, so_prospective = prospective \<rparr>"
| "scope_loop proposal s revision_id_for (a # as) reason prospective =
     bindE (scope_verdict_of proposal s revision_id_for a) (\<lambda>verdict.
       case verdict of
         Pass r \<Rightarrow> scope_loop proposal s revision_id_for as r prospective
       | Standalone revision \<Rightarrow>
           scope_loop proposal s revision_id_for as STANDALONE_DECISION_NOT_PERSISTABLE revision
       | Decide known revision \<Rightarrow>
           Inr \<lparr> so_decision = Some a, so_known_at = Some known, so_reason = ''adjudicated_issue_scope'',
                 so_prospective = revision \<rparr>)"

definition review_le :: "adjudication \<Rightarrow> adjudication \<Rightarrow> bool" where
  "review_le a b \<longleftrightarrow> ad_adjudicated_at a < ad_adjudicated_at b \<or>
     ad_adjudicated_at a = ad_adjudicated_at b \<and> text_le (ad_id a) (ad_id b)"

definition citing_records :: "event_link \<Rightarrow> as_of \<Rightarrow> adjudication list" where
  "citing_records proposal s =
     sort_by review_le
       (filter (\<lambda>a. el_id proposal \<in> set (ad_link_ids a) \<and> el_observation_id proposal \<in> set (ad_evidence_ids a))
          (map snd (ao_adjs s)))"

definition scope_decision ::
  "event_link \<Rightarrow> as_of \<Rightarrow> revision_ids option \<Rightarrow> resolve_error + scope_outcome" where
  "scope_decision proposal s revision_id_for =
     scope_loop proposal s revision_id_for (citing_records proposal s) ''scope_adjudication_missing'' None"

subsection \<open>A batch of requests\<close>

record link_state =
  ls_links :: "(uuid, event_link) dict"
  ls_issues :: "link_issue list"
  ls_stats :: counter

definition emit :: "event_link \<Rightarrow> link_state \<Rightarrow> link_state" where
  "emit x st = st\<lparr> ls_links := dict_set (el_id x) x (ls_links st) \<rparr>"

definition count :: "string \<Rightarrow> link_state \<Rightarrow> link_state" where
  "count key st = st\<lparr> ls_stats := counter_inc key (ls_stats st) \<rparr>"

definition add_issue ::
  "link_request \<Rightarrow> string \<Rightarrow> uuid option \<Rightarrow> uuid option \<Rightarrow> link_state \<Rightarrow> link_state" where
  "add_issue req reason link_id prospective st =
     count (''issue:'' @ takeWhile (\<lambda>c. c \<noteq> CHR '':'') reason)
       (st\<lparr> ls_issues := ls_issues st @
          [\<lparr> li_observation_id = rq_observation_id req, li_cusip9 = rq_cusip9 req, li_reason = reason,
             li_link_id = link_id, li_prospective = prospective \<rparr>] \<rparr>)"

definition scope_revision ::
  "link_hash \<Rightarrow> source_package \<Rightarrow> link_request \<Rightarrow> event_link \<Rightarrow> adjudication \<Rightarrow> datetime
     \<Rightarrow> resolve_error + event_link" where
  "scope_revision h package req proposal a known =
     make_link h package req ''admitted'' known (''adjudicated_issue_scope:'' @ ad_id a) (Some (el_id proposal))"

definition settle_scope ::
  "link_hash \<Rightarrow> source_package \<Rightarrow> link_request \<Rightarrow> event_link \<Rightarrow> scope_outcome \<Rightarrow> link_state
     \<Rightarrow> resolve_error + link_state" where
  "settle_scope h package req proposal outcome st =
     (case (so_decision outcome, so_known_at outcome) of
        (Some a, Some known) \<Rightarrow>
          bindE (scope_revision h package req proposal a known) (\<lambda>admitted.
          Inr (count ''admitted'' (emit admitted st)))
      | _ \<Rightarrow> Inr (add_issue req (so_reason outcome) (Some (el_id proposal)) (so_prospective outcome) st))"

definition resolve_scope ::
  "link_hash \<Rightarrow> source_package \<Rightarrow> as_of \<Rightarrow> link_request \<Rightarrow> credit_observation \<Rightarrow> datetime \<Rightarrow> link_state
     \<Rightarrow> resolve_error + link_state" where
  "resolve_scope h package s req x base_known st =
     (if co_cusip9 x \<noteq> None \<and> co_cusip9 x \<noteq> Some (rq_cusip9 req) then
        bindE (make_link h package req ''rejected'' base_known ''cusip_contradicts_observation'' None) (\<lambda>emitted.
        Inr (add_issue req ''cusip_contradicts_observation'' (Some (el_id emitted)) None (emit emitted st)))
      else
        bindE (make_link h package req ''quarantined'' base_known
                 (''awaiting_adjudicated_scope:'' @ rq_rationale req) None) (\<lambda>proposal.
        let st1 = emit proposal st
        in bindE (scope_decision proposal s
                    (Some (\<lambda>a t. bindE (scope_revision h package req proposal a t) (\<lambda>r. Inr (el_id r)))))
             (\<lambda>outcome. settle_scope h package req proposal outcome st1)))"

definition resolve_direct ::
  "link_hash \<Rightarrow> source_package \<Rightarrow> link_request \<Rightarrow> credit_observation \<Rightarrow> datetime \<Rightarrow> link_state
     \<Rightarrow> resolve_error + link_state" where
  "resolve_direct h package req x base_known st =
     (case direct_status req x of
        (status, reason) \<Rightarrow>
          bindE (make_link h package req status base_known reason None) (\<lambda>emitted.
          let st1 = count status (emit emitted st)
          in Inr (if status \<noteq> ''admitted'' then add_issue req reason (Some (el_id emitted)) None st1 else st1)))"

definition resolve_request ::
  "link_hash \<Rightarrow> source_package \<Rightarrow> as_of \<Rightarrow> link_request \<Rightarrow> link_state \<Rightarrow> resolve_error + link_state" where
  "resolve_request h package s req st0 =
     (let st = count ''requests'' st0; skip = (\<lambda>reason. Inr (add_issue req reason None None st))
      in if is_valid_cusip9 (rq_cusip9 req) \<noteq> Inr True then skip ''cusip9_invalid''
         else (case dict_get (ao_obs s) (rq_observation_id req) of
             None \<Rightarrow> skip ''observation_outside_inventory''
           | Some x \<Rightarrow>
               (case usable_observation x (ao_k s) (ao_mode s) (ao_stale_obs s) of
                  Some unusable \<Rightarrow> skip unusable
                | None \<Rightarrow>
                    bindE (utc (rq_identity_known_at req)) (\<lambda>identity.
                    let base_known = max (co_public_available_at x) identity
                    in if base_known > ao_k s then skip ''link_known_after_cutoff''
                       else if rq_basis req = ''adjudicated_issue_scope''
                       then resolve_scope h package s req x base_known st
                       else resolve_direct h package req x base_known st))))"

fun resolve_requests ::
  "link_hash \<Rightarrow> source_package \<Rightarrow> as_of \<Rightarrow> link_request list \<Rightarrow> link_state \<Rightarrow> resolve_error + link_state" where
  "resolve_requests h package s [] st = Inr st"
| "resolve_requests h package s (req # reqs) st =
     bindE (resolve_request h package s req st) (resolve_requests h package s reqs)"

definition is_decision_failure :: "string \<Rightarrow> bool" where
  "is_decision_failure reason \<longleftrightarrow>
     reason \<in> {CANDIDATE_IS_NOT_A_DECISION, STANDALONE_DECISION_NOT_PERSISTABLE} \<or>
     starts_with [''scope_''] reason \<and> reason \<noteq> ''scope_adjudication_missing''"

text \<open>The order of tuples of texts; \<open>str(None)\<close> is \<open>'None'\<close>.\<close>

fun texts_le :: "string list \<Rightarrow> string list \<Rightarrow> bool" where
  "texts_le [] ys = True"
| "texts_le (x # xs) [] = False"
| "texts_le (x # xs) (y # ys) = (if x = y then texts_le xs ys else text_le x y)"

definition issue_key :: "link_issue \<Rightarrow> string list" where
  "issue_key i =
     [li_cusip9 i, li_observation_id i, li_reason i, (case li_link_id i of None \<Rightarrow> ''None'' | Some l \<Rightarrow> l)]"

record link_resolution =
  lr_links :: "event_link list"
  lr_issues :: "link_issue list"
  lr_stats :: counter

definition resolution_admitted :: "link_resolution \<Rightarrow> event_link list" where
  "resolution_admitted r =
     (let superseded = List.map_filter el_supersedes (lr_links r)
      in filter (\<lambda>x. el_status x = ''admitted'' \<and> el_id x \<notin> set superseded) (lr_links r))"

definition finish_links :: "bool \<Rightarrow> link_state \<Rightarrow> resolve_error + link_resolution" where
  "finish_links strict st =
     (let ordered = sort_by (\<lambda>x y. text_le (el_id x) (el_id y)) (map snd (ls_links st));
          issues = sort_by (\<lambda>i j. texts_le (issue_key i) (issue_key j)) (ls_issues st);
          failed = filter (\<lambda>i. is_decision_failure (li_reason i)) issues
      in if strict \<and> failed \<noteq> [] then Inl (ResolveError ''link_scope_decision_failed'' (map issue_text failed))
         else Inr \<lparr> lr_links = ordered, lr_issues = issues,
                    lr_stats = sort_by (\<lambda>x y. text_le (fst x) (fst y)) (ls_stats st) \<rparr>)"

definition resolve_links ::
  "link_hash \<Rightarrow> link_request list \<Rightarrow> credit_observation list \<Rightarrow> adjudication list \<Rightarrow> source_package
     \<Rightarrow> timestamp \<Rightarrow> string \<Rightarrow> event_link list \<Rightarrow> bool \<Rightarrow> resolve_error + link_resolution" where
  "resolve_links h requests observations adjudications package knowledge_cutoff mode links strict =
     bindE (utc knowledge_cutoff) (\<lambda>k.
     bindE (check_mode mode) (\<lambda>_.
     if pk_family package \<noteq> ''link_batch'' then Inl (ResolveError ''link_package:family_must_be_link_batch'' [])
     else bindE (build_as_of k mode observations links adjudications) (\<lambda>s.
          bindE (resolve_requests h package s requests \<lparr> ls_links = [], ls_issues = [], ls_stats = [] \<rparr>)
            (finish_links strict))))"

subsection \<open>Nothing the cutoff hides decides a link\<close>

abbreviation same_result :: "('a \<Rightarrow> 'b \<Rightarrow> bool) \<Rightarrow> 'e + 'a \<Rightarrow> 'e + 'b \<Rightarrow> bool" where
  "same_result \<equiv> rel_sum (=)"

lemma same_result_bind:
  assumes "same_result R x y" "\<And>a b. R a b \<Longrightarrow> same_result S (f a) (g b)"
  shows "same_result S (bindE x f) (bindE y g)"
  using assms by (cases x; cases y) auto

lemma same_result_eq [simp]: "same_result (=) x y \<longleftrightarrow> x = y"
  by (simp add: sum.rel_eq)

text \<open>Two sets of inputs that agree on everything usable.\<close>

definition same_view :: "as_of \<Rightarrow> as_of \<Rightarrow> bool" where
  "same_view s t \<longleftrightarrow>
     ao_k s = ao_k t \<and> ao_mode s = ao_mode t \<and> ao_adjs s = ao_adjs t \<and>
     (\<forall>oid. (observation_problem s oid = None) = (observation_problem t oid = None)) \<and>
     (\<forall>oid. observation_problem s oid = None \<longrightarrow> dict_get (ao_obs s) oid = dict_get (ao_obs t) oid) \<and>
     (\<forall>lid. (link_problem s lid = None) = (link_problem t lid = None)) \<and>
     (\<forall>lid. link_problem s lid = None \<longrightarrow> dict_get (ao_links s) lid = dict_get (ao_links t) lid)"

definition known_part :: "string + 'a \<Rightarrow> 'a option" where
  "known_part r = (case r of Inl _ \<Rightarrow> None | Inr x \<Rightarrow> Some x)"

lemma known_part_simps [simp]: "known_part (Inl e) = None" "known_part (Inr x) = Some x"
  by (simp_all add: known_part_def)

lemma known_part_bind: "known_part (bindE r f) = Option.bind (known_part r) (\<lambda>x. known_part (f x))"
  by (cases r) simp_all

lemma observation_times_same:
  "same_view s t \<Longrightarrow> known_part (observation_times s oids) = known_part (observation_times t oids)"
proof (induction oids)
  case (Cons oid oids)
  then have "(observation_problem s oid = None) = (observation_problem t oid = None)"
    "observation_problem s oid = None \<longrightarrow> dict_get (ao_obs s) oid = dict_get (ao_obs t) oid"
    by (simp_all add: same_view_def)
  then show ?case using Cons by (auto simp: known_part_bind split: option.split)
qed simp

lemma link_times_same:
  "same_view s t \<Longrightarrow> known_part (link_times s exempt lids) = known_part (link_times t exempt lids)"
proof (induction lids)
  case (Cons lid lids)
  then have "(link_problem s lid = None) = (link_problem t lid = None)"
    "link_problem s lid = None \<longrightarrow> dict_get (ao_links s) lid = dict_get (ao_links t) lid"
    by (simp_all add: same_view_def)
  then show ?case using Cons by (auto simp: known_part_bind split: option.split)
qed simp

lemma dependency_times_same:
  "same_view s t \<Longrightarrow> known_part (dependency_times s a exempt) = known_part (dependency_times t a exempt)"
  by (simp add: dependency_times_def known_part_bind observation_times_same link_times_same)

definition same_verdict :: "scope_verdict \<Rightarrow> scope_verdict \<Rightarrow> bool" where
  "same_verdict v w \<longleftrightarrow> v = w \<or> (\<exists>q r. v = Pass q \<and> w = Pass r)"

lemma same_verdict_simps [simp]: "same_verdict v v" "same_verdict (Pass q) (Pass r)"
  by (simp_all add: same_verdict_def)

lemma decide_with_same:
  assumes "same_view s t"
  shows "same_result same_verdict (decide_with proposal s f a h) (decide_with proposal t f a h)"
proof -
  have k: "ao_k s = ao_k t" using assms by (simp add: same_view_def)
  have d: "known_part (dependency_times s b e) = known_part (dependency_times t b e)" for b e
    using assms by (rule dependency_times_same)
  have late: "same_result same_verdict
      (case dependency_times s b e of Inl problem \<Rightarrow> Inr (Pass (x @ problem)) | Inr _ \<Rightarrow> r)
      (case dependency_times t b e of Inl problem \<Rightarrow> Inr (Pass (x @ problem)) | Inr _ \<Rightarrow> r)"
    for b e x and r :: "resolve_error + scope_verdict"
    using d [of b e] by (cases r) (auto simp: known_part_def split: sum.splits)
  show ?thesis
  proof (cases "dependency_times s a [el_id proposal]")
    case (Inl problem)
    then show ?thesis using d [of a "[el_id proposal]"]
      by (auto simp: decide_with_def known_part_def split: sum.splits)
  next
    case (Inr ts)
    then have "dependency_times t a [el_id proposal] = Inr ts"
      using d [of a "[el_id proposal]"] by (auto simp: known_part_def split: sum.splits)
    then show ?thesis
      unfolding decide_with_def Inr sum.case Let_def k
      by (cases "revision_of f a (fold max ts (el_known_at proposal))") (auto intro!: late)
  qed
qed

lemma scope_verdict_same:
  assumes "same_view s t"
  shows "same_result same_verdict (scope_verdict_of proposal s f a) (scope_verdict_of proposal t f a)"
proof -
  have "effective_head s a = effective_head t a" "ao_k s = ao_k t" "ao_mode s = ao_mode t"
    using assms by (simp_all add: effective_head_def same_view_def)
  then show ?thesis
    using decide_with_same [OF assms, of proposal f a]
    by (cases "effective_head t a") (auto simp: scope_verdict_of_def)
qed

definition same_outcome :: "scope_outcome \<Rightarrow> scope_outcome \<Rightarrow> bool" where
  "same_outcome x y \<longleftrightarrow> so_decision x = so_decision y \<and> so_known_at x = so_known_at y \<and>
     so_prospective x = so_prospective y"

lemma same_outcome_refl [simp]: "same_outcome x x"
  by (simp add: same_outcome_def)

lemma scope_loop_same:
  assumes "same_view s t"
  shows "same_result same_outcome (scope_loop proposal s f as q p) (scope_loop proposal t f as r p)"
proof (induction as arbitrary: q r p)
  case (Cons a as)
  note v = scope_verdict_same [OF assms, of proposal f a]
  show ?case
    unfolding scope_loop.simps
    by (rule same_result_bind [OF v])
       (auto simp: same_verdict_def Cons.IH split: scope_verdict.split)
qed (simp add: same_outcome_def)

lemma scope_decision_same:
  "same_view s t \<Longrightarrow> same_result same_outcome (scope_decision proposal s f) (scope_decision proposal t f)"
  using scope_loop_same by (simp add: scope_decision_def citing_records_def same_view_def)

text \<open>Two states of the batch with the same links; issues and counters may differ.\<close>

definition same_links :: "link_state \<Rightarrow> link_state \<Rightarrow> bool" where
  "same_links x y \<longleftrightarrow> ls_links x = ls_links y"

lemma same_links_steps:
  assumes "same_links x y"
  shows "same_links (count c x) (count d y)" "same_links (add_issue req q i p x) (add_issue req r j p' y)"
    "same_links (emit l x) (emit l y)"
  using assms by (simp_all add: same_links_def count_def add_issue_def emit_def)

lemma settle_scope_same:
  assumes "same_outcome o1 o2" "same_links x y"
  shows "same_result same_links (settle_scope h package req proposal o1 x) (settle_scope h package req proposal o2 y)"
proof -
  have e: "so_decision o1 = so_decision o2" "so_known_at o1 = so_known_at o2"
    using assms(1) by (simp_all add: same_outcome_def)
  have "same_result same_links (bindE w (\<lambda>r. Inr (count c (emit r x)))) (bindE w (\<lambda>r. Inr (count c (emit r y))))" 
    for w :: "resolve_error + event_link" and c
    by (cases w) (simp_all add: same_links_steps assms(2))
  then show ?thesis
    unfolding settle_scope_def e using same_links_steps(2) [OF assms(2)] by (simp split: option.split)
qed

lemma resolve_scope_same:
  assumes v: "same_view s t" and l: "same_links x y"
  shows "same_result same_links (resolve_scope h package s req obs base x) (resolve_scope h package t req obs base y)"
proof (cases "co_cusip9 obs \<noteq> None \<and> co_cusip9 obs \<noteq> Some (rq_cusip9 req)")
  case True
  then show ?thesis
    by (cases "make_link h package req ''rejected'' base ''cusip_contradicts_observation'' None")
       (simp_all add: resolve_scope_def same_links_steps l)
next
  case False
  show ?thesis
    unfolding resolve_scope_def using False
    by (cases "make_link h package req ''quarantined'' base (''awaiting_adjudicated_scope:'' @ rq_rationale req) None")
       (auto simp: Let_def
         intro!: same_result_bind [OF scope_decision_same [OF v]] settle_scope_same same_links_steps l)
qed

lemma resolve_direct_same:
  assumes "same_links x y"
  shows "same_result same_links (resolve_direct h package req obs base x) (resolve_direct h package req obs base y)"
proof -
  obtain status reason where d: "direct_status req obs = (status, reason)" by fastforce
  show ?thesis
    by (cases "make_link h package req status base reason None")
       (simp_all add: resolve_direct_def d Let_def same_links_steps assms)
qed

lemma resolve_request_same:
  assumes v: "same_view s t" and l: "same_links x y"
  shows "same_result same_links (resolve_request h package s req x) (resolve_request h package t req y)"
proof -
  let ?id = "rq_observation_id req"
  have k: "ao_k s = ao_k t" "ao_mode s = ao_mode t"
    and p: "(observation_problem s ?id = None) = (observation_problem t ?id = None)"
    and g: "observation_problem s ?id = None \<Longrightarrow> dict_get (ao_obs s) ?id = dict_get (ao_obs t) ?id"
    using v by (simp_all add: same_view_def)
  have c: "same_links (count ''requests'' x) (count ''requests'' y)" by (rule same_links_steps(1) [OF l])
  note steps = same_links_steps(2) [OF c] resolve_scope_same [OF v c] resolve_direct_same [OF c]
  show ?thesis
  proof (cases "observation_problem s ?id")
    case (Some problem)
    then have "observation_problem t ?id \<noteq> None" using p by simp
    then show ?thesis using Some
      by (auto simp: resolve_request_def observation_problem_def Let_def steps split: option.splits)
  next
    case None
    have Nt: "observation_problem t ?id = None" using None p by simp
    obtain obs where os: "dict_get (ao_obs s) ?id = Some obs"
      using None by (cases "dict_get (ao_obs s) ?id") (simp_all add: observation_problem_def)
    then have ot: "dict_get (ao_obs t) ?id = Some obs" using g [OF None] by simp
    have us: "usable_observation obs (ao_k s) (ao_mode s) (ao_stale_obs s) = None"
      "usable_observation obs (ao_k t) (ao_mode t) (ao_stale_obs t) = None"
      using None Nt os ot by (simp_all add: observation_problem_def)
    note o1 = os ot us [unfolded k]
    show ?thesis
    proof (cases "utc (rq_identity_known_at req)")
      case (Inl e)
      then show ?thesis
        unfolding resolve_request_def Let_def o1(1,2) option.case k o1(3,4) Inl bindE_simps
        using steps(1) by simp
    next
      case (Inr identity)
      then show ?thesis
        unfolding resolve_request_def Let_def o1(1,2) option.case k o1(3,4) Inr bindE_simps
        by (auto intro: steps)
    qed
  qed
qed

lemma resolve_requests_same:
  "same_view s t \<Longrightarrow> same_links x y \<Longrightarrow>
   same_result same_links (resolve_requests h package s reqs x) (resolve_requests h package t reqs y)"
proof (induction reqs arbitrary: x y)
  case (Cons req reqs)
  show ?case
    unfolding resolve_requests.simps
    by (rule same_result_bind [OF resolve_request_same [OF Cons.prems]]) (rule Cons.IH [OF Cons.prems(1)])
qed simp

lemma revised_loop_filter:
  "revised_loop fork par known k (filter (\<lambda>x. known x \<le> k) xs) revised
    = revised_loop fork par known k xs revised"
  by (induction xs arbitrary: revised) (auto split: option.split)

lemma index_by_filter:
  assumes "distinct (map key xs)"
  shows "index_by key (filter P xs) = filter (\<lambda>(i, x). P x) (index_by key xs)"
    and "map snd (index_by key (filter P xs)) = filter P xs"
    and "dict_get (index_by key (filter P xs)) i
      = (case dict_get (index_by key xs) i of None \<Rightarrow> None | Some x \<Rightarrow> if P x then Some x else None)"
proof -
  have d: "distinct (map key (filter P xs))" using assms by (rule distinct_map_filter)
  show "index_by key (filter P xs) = filter (\<lambda>(i, x). P x) (index_by key xs)"
    by (simp add: index_by_distinct assms d filter_map comp_def)
  show "map snd (index_by key (filter P xs)) = filter P xs"
    by (simp add: index_by_distinct d comp_def)
  have "dict_get (map (\<lambda>x. (key x, x)) (filter P xs)) i
      = (case dict_get (map (\<lambda>x. (key x, x)) xs) i of None \<Rightarrow> None | Some x \<Rightarrow> if P x then Some x else None)"
    using assms
  proof (induction xs)
    case (Cons x xs)
    have "dict_get (map (\<lambda>x. (key x, x)) xs) (key x) = None"
      using Cons.prems by (simp add: map_of_eq_None_iff image_image)
    then show ?case using Cons by auto
  qed simp
  then show "dict_get (index_by key (filter P xs)) i
      = (case dict_get (index_by key xs) i of None \<Rightarrow> None | Some x \<Rightarrow> if P x then Some x else None)"
    by (simp add: index_by_distinct assms d)
qed

lemma build_as_of_same:
  assumes d: "distinct (map co_id observations)" "distinct (map el_id links)"
  shows "same_result same_view (build_as_of k mode observations links adjudications)
    (build_as_of k mode (filter (\<lambda>x. co_public_available_at x \<le> k) observations)
       (filter (\<lambda>x. el_known_at x \<le> k) links) (filter (adjudication_usable k mode) adjudications))"
proof -
  let ?public = "\<lambda>x. co_public_available_at x \<le> k" and ?known = "\<lambda>x. el_known_at x \<le> k"
  let ?obs = "index_by co_id observations" and ?obs' = "index_by co_id (filter ?public observations)"
  let ?links = "index_by el_id links" and ?links' = "index_by el_id (filter ?known links)"
  let ?gone = "\<lambda>d. map fst (filter (\<lambda>(oid, x). co_revision_kind x = ''retraction'') d)"
  have adjs: "adjudications_as_of (filter (adjudication_usable k mode) adjudications) k mode
      = adjudications_as_of adjudications k mode"
    by (simp add: adjudications_as_of_def)
  have sl: "stale_links ?links' k = stale_links ?links k"
    unfolding stale_links_def index_by_filter(2) [OF d(2)] revised_loop_filter
    by (simp add: index_by_distinct d(2) comp_def)
  let ?revised = "revised_loop ''observation_revision_fork'' co_supersedes co_public_available_at k observations []"
  have so: "stale_observations ?obs k = bindE ?revised (\<lambda>r. Inr (r @ ?gone ?obs))"
    "stale_observations ?obs' k = bindE ?revised (\<lambda>r. Inr (r @ ?gone ?obs'))"
    by (simp_all add: stale_observations_def index_by_filter(2) [OF d(1)] revised_loop_filter)
       (simp add: index_by_distinct d(1) comp_def)
  have gone: "co_id x \<in> set (?gone ?obs') \<longleftrightarrow> co_id x \<in> set (?gone ?obs)"
    if "dict_get ?obs i = Some x" "?public x" for i x
  proof -
    have x: "x \<in> set observations" using dict_get_index_by [OF that(1)] by simp
    have one: "y = x" if "y \<in> set observations" "co_id y = co_id x" for y
      using d(1) x that by (auto simp: distinct_map inj_on_def)
    have mem: "i \<in> set (?gone (index_by co_id ys))
        \<longleftrightarrow> (\<exists>y \<in> set ys. co_id y = i \<and> co_revision_kind y = ''retraction'')" if "distinct (map co_id ys)" for ys i
      by (auto simp: index_by_distinct that filter_map comp_def)
    have self: "(\<exists>y \<in> A. co_id y = co_id x \<and> co_revision_kind y = ''retraction'')
        \<longleftrightarrow> co_revision_kind x = ''retraction''" if "x \<in> A" "A \<subseteq> set observations" for A
    proof
      assume "\<exists>y \<in> A. co_id y = co_id x \<and> co_revision_kind y = ''retraction''"
      then obtain y where "y \<in> A" "co_id y = co_id x" "co_revision_kind y = ''retraction''" by blast
      moreover have "y = x" by (rule one) (use that calculation in auto)
      ultimately show "co_revision_kind x = ''retraction''" by simp
    qed (use that in blast)
    show ?thesis
      unfolding mem [OF d(1)] mem [OF distinct_map_filter [OF d(1)]]
      using self [OF x] self [of "set (filter ?public observations)"] x \<open>?public x\<close> by simp
  qed
  have "same_view
      \<lparr> ao_k = k, ao_mode = mode, ao_obs = ?obs, ao_stale_obs = r @ ?gone ?obs, ao_links = ?links,
        ao_stale_links = q, ao_adjs = adjs \<rparr>
      \<lparr> ao_k = k, ao_mode = mode, ao_obs = ?obs', ao_stale_obs = r @ ?gone ?obs', ao_links = ?links',
        ao_stale_links = q, ao_adjs = adjs \<rparr>" (is "same_view ?s ?t") for r q adjs
  proof -
    have p: "observation_problem ?t oid = (case dict_get ?obs oid of
          None \<Rightarrow> Some ''observation_outside_inventory''
        | Some x \<Rightarrow> if ?public x then observation_problem ?s oid else Some ''observation_outside_inventory'')" for oid
      using gone [of oid]
      by (auto simp: observation_problem_def index_by_filter(3) [OF d(1)] usable_observation_def split: option.split)
    have late: "observation_problem ?s oid \<noteq> None" if "dict_get ?obs oid = Some x" "\<not> ?public x" for oid x
      using that by (simp add: observation_problem_def usable_observation_def)
    have outside: "observation_problem ?s oid \<noteq> None" if "dict_get ?obs oid = None" for oid
      using that by (simp add: observation_problem_def)
    have o1: "(observation_problem ?s oid = None) = (observation_problem ?t oid = None)" for oid
    proof (cases "dict_get ?obs oid")
      case None
      then show ?thesis using outside unfolding p by simp
    next
      case (Some x)
      then show ?thesis using late [OF Some] unfolding p by auto
    qed
    have o2: "dict_get ?obs oid = dict_get ?obs' oid" if "observation_problem ?s oid = None" for oid
    proof (cases "dict_get ?obs oid")
      case (Some x)
      then show ?thesis using that late [OF Some] by (auto simp: index_by_filter(3) [OF d(1)])
    qed (use that outside in blast)
    have l1: "(link_problem ?s lid = None) = (link_problem ?t lid = None)" for lid
    proof (cases "dict_get ?links lid")
      case (Some x)
      then show ?thesis using o1 [of "el_observation_id x"]
        by (auto simp: link_problem_def index_by_filter(3) [OF d(2)])
    qed (simp add: link_problem_def index_by_filter(3) [OF d(2)])
    have l2: "dict_get ?links lid = dict_get ?links' lid" if "link_problem ?s lid = None" for lid
    proof (cases "dict_get ?links lid")
      case (Some x)
      then show ?thesis using that by (auto simp: link_problem_def index_by_filter(3) [OF d(2)] split: if_splits)
    qed (use that in \<open>simp add: link_problem_def\<close>)
    show ?thesis using o1 o2 l1 l2 by (simp add: same_view_def)
  qed
  then show ?thesis
    by (cases ?revised; cases "stale_links ?links k") (simp_all add: build_as_of_def Let_def so sl adjs)
qed

lemma finish_links_same: "same_links x y \<Longrightarrow> map_sum id lr_links (finish_links False x) = map_sum id lr_links (finish_links False y)"
  by (simp add: finish_links_def same_links_def Let_def)

text \<open>
  C18: links are resolved point in time. The links emitted at a cutoff are those a resolution
  emits that never sees an observation published later, a link known later or, in a current
  run, a review done later: whatever arrives after the cutoff, revisions and retractions
  included, changes neither an emitted row nor whether the batch is refused.
\<close>

theorem links_point_in_time:
  assumes "distinct (map co_id observations)" "distinct (map el_id links)"
  shows "map_sum id lr_links
      (resolve_links h requests observations adjudications package (Aware k) mode links False)
    = map_sum id lr_links
      (resolve_links h requests (filter (\<lambda>x. co_public_available_at x \<le> k) observations)
        (filter (adjudication_usable k mode) adjudications) package (Aware k) mode
        (filter (\<lambda>x. el_known_at x \<le> k) links) False)"
proof -
  let ?st = "\<lparr> ls_links = [], ls_issues = [], ls_stats = [] \<rparr> :: link_state"
  let ?run = "\<lambda>r. bindE r (\<lambda>s. bindE (resolve_requests h package s requests ?st) (finish_links False))"
  let ?late = "build_as_of k mode observations links adjudications"
  let ?cut = "build_as_of k mode (filter (\<lambda>x. co_public_available_at x \<le> k) observations)
      (filter (\<lambda>x. el_known_at x \<le> k) links) (filter (adjudication_usable k mode) adjudications)"
  have runs: "map_sum id lr_links (bindE (resolve_requests h package s requests ?st) (finish_links False))
      = map_sum id lr_links (bindE (resolve_requests h package t requests ?st) (finish_links False))"
    if "same_view s t" for s t
  proof -
    have "same_result same_links (resolve_requests h package s requests ?st) (resolve_requests h package t requests ?st)"
      by (rule resolve_requests_same [OF that]) (simp add: same_links_def)
    then show ?thesis
      using finish_links_same
      by (cases "resolve_requests h package s requests ?st"; cases "resolve_requests h package t requests ?st") auto
  qed
  have "map_sum id lr_links (?run ?late) = map_sum id lr_links (?run ?cut)"
    using build_as_of_same [OF assms, of k mode adjudications] runs
    by (cases ?late; cases ?cut) auto
  then show ?thesis
    by (cases "check_mode mode") (simp_all add: resolve_links_def)
qed

subsection \<open>Every emitted link is justified\<close>

lemma create_link_fields:
  assumes "create_link h b = Inr x"
  shows "el_package_id x = el_package_id b" "el_observation_id x = el_observation_id b"
    "el_cusip9 x = el_cusip9 b" "el_known_at x = el_known_at b" "el_refs x = el_refs b"
    "el_status x = el_status b" "el_supersedes x = el_supersedes b" "el_id x = lh_id h b" "check_link b = Inr ()"
  using assms
  by (cases b; auto simp: create_link_def link_body.defs event_link.defs split: sum.splits)+

lemma make_link_fields:
  assumes "make_link h package req status known rationale supersedes = Inr x"
  shows "el_package_id x = pk_id package" "el_observation_id x = rq_observation_id req"
    "el_cusip9 x = rq_cusip9 req" "el_known_at x = known" "el_status x = status" "el_supersedes x = supersedes"
    "is_valid_cusip9 (el_cusip9 x) = Inr True" "status = ''admitted'' \<Longrightarrow> el_refs x \<noteq> []"
  using assms create_link_fields
  by (auto simp: make_link_def Let_def check_link_def check_cusip_def link_rules_def bindE_Inr_iff
      dest!: create_link_fields split: if_splits option.splits)

text \<open>A human decision admits the link: the record and the head of its chain, as the code wants them.\<close>

definition scope_approved ::
  "(uuid, adjudication) dict \<Rightarrow> event_link \<Rightarrow> adjudication \<Rightarrow> adjudication \<Rightarrow> bool" where
  "scope_approved adjs x d head \<longleftrightarrow>
     d \<in> snd ` set adjs \<and> chain_head d adjs = Inr head \<and> ad_id head \<noteq> ad_id d \<and>
     ad_reviewer_role d = ''human_reviewer'' \<and> ad_policy_digest d = POLICY_DIGEST \<and> ad_policy_digest head = POLICY_DIGEST \<and>
     ad_status d \<in> set ADMITTING_STATUSES \<and> ad_status head \<in> set ADMITTING_STATUSES \<and>
     ad_subject_kind d = ''issue_episode'' \<and> ad_subject_kind head = ''issue_episode'' \<and>
     el_observation_id x \<in> set (ad_evidence_ids d) \<inter> set (ad_evidence_ids head) \<and>
     el_id x \<in> set (ad_link_ids head) \<and>
     (\<exists>p. el_supersedes x = Some p \<and> p \<in> set (ad_link_ids d) \<and> p \<notin> set (ad_link_ids head))"

definition justified :: "source_package \<Rightarrow> as_of \<Rightarrow> link_request list \<Rightarrow> event_link \<Rightarrow> bool" where
  "justified package s requests x \<longleftrightarrow>
     (\<exists>req \<in> set requests. \<exists>obs. dict_get (ao_obs s) (el_observation_id x) = Some obs \<and>
        observation_problem s (el_observation_id x) = None \<and>
        rq_observation_id req = el_observation_id x \<and> rq_cusip9 req = el_cusip9 x \<and> el_package_id x = pk_id package \<and>
        co_public_available_at obs \<le> el_known_at x \<and> el_known_at x \<le> ao_k s \<and>
        is_valid_cusip9 (el_cusip9 x) = Inr True \<and>
        (el_status x = ''admitted'' \<longrightarrow> el_refs x \<noteq> [] \<and>
           (co_cusip9 obs = Some (el_cusip9 x) \<and> rq_basis req \<in> {''nport_cusip_identity'', ''document_stated_cusip''} \<or>
            rq_basis req = ''adjudicated_issue_scope'' \<and> (\<exists>d head. scope_approved (ao_adjs s) x d head))))"

lemma direct_status_admitted:
  "direct_status req obs = (''admitted'', why) \<Longrightarrow>
   co_cusip9 obs = Some (rq_cusip9 req) \<and>
   (rq_basis req \<in> {''nport_cusip_identity'', ''document_stated_cusip''} \<or> rq_basis req = ''adjudicated_issue_scope'')"
  by (auto simp: direct_status_def LINK_BASES_def split: if_splits)

lemma scope_loop_decided:
  "scope_loop proposal s f as q p = Inr out \<Longrightarrow> so_decision out = Some a \<Longrightarrow>
   a \<in> set as \<and> (\<exists>known rvn. so_known_at out = Some known \<and> scope_verdict_of proposal s f a = Inr (Decide known rvn))"
proof (induction as arbitrary: q p)
  case (Cons b as)
  obtain v where v: "scope_verdict_of proposal s f b = Inr v"
    using Cons.prems(1) by (auto simp: bindE_Inr_iff)
  show ?case using Cons v by (cases v) auto
qed auto

lemma fold_max_ge: "t \<le> fold max ts t" for t :: "'a::linorder"
  by (induction ts arbitrary: t) (auto intro: order_trans [OF max.cobounded2])

lemma decide_withD:
  assumes "decide_with proposal s f a head = Inr (Decide known rvn)"
  shows "in_chain proposal a head rvn" "revision_of f a known = Inr rvn" "el_known_at proposal \<le> known" "known \<le> ao_k s"
proof -
  obtain ts where t: "dependency_times s a [el_id proposal] = Inr ts"
    using assms by (cases "dependency_times s a [el_id proposal]") (simp_all add: decide_with_def)
  let ?known = "fold max ts (el_known_at proposal)"
  obtain r where r: "revision_of f a ?known = Inr r"
    using assms by (cases "revision_of f a ?known") (simp_all add: decide_with_def t)
  have c: "in_chain proposal a head r"
    using assms by (cases "in_chain proposal a head r") (simp_all add: decide_with_def t r)
  obtain us where "dependency_times s head (el_id proposal # (case r of None \<Rightarrow> [] | Some r \<Rightarrow> [r])) = Inr us"
    using assms
    by (cases "dependency_times s head (el_id proposal # (case r of None \<Rightarrow> [] | Some r \<Rightarrow> [r]))")
       (simp_all add: decide_with_def t r c)
  then have "known = ?known \<and> rvn = r \<and> known \<le> ao_k s"
    using assms by (auto simp: decide_with_def t r c Let_def split: if_splits)
  then show "in_chain proposal a head rvn" "revision_of f a known = Inr rvn" "el_known_at proposal \<le> known" "known \<le> ao_k s"
    using c r fold_max_ge by simp_all
qed

lemma scope_verdictD:
  assumes "scope_verdict_of proposal s f a = Inr (Decide known rvn)"
  obtains head where "effective_head s a = Inr head" "ad_reviewer_role a = ''human_reviewer''"
    "ad_policy_digest a = POLICY_DIGEST" "ad_policy_digest head = POLICY_DIGEST"
    "ad_status a \<in> set ADMITTING_STATUSES" "ad_status head \<in> set ADMITTING_STATUSES"
    "decide_with proposal s f a head = Inr (Decide known rvn)"
  using assms
  by (auto simp: scope_verdict_of_def bindE_Inr_iff SCOPE_DECISION_STATUSES_def split: if_splits)

definition links_justified :: "source_package \<Rightarrow> as_of \<Rightarrow> link_request list \<Rightarrow> link_state \<Rightarrow> bool" where
  "links_justified package s requests st \<longleftrightarrow> (\<forall>x \<in> snd ` set (ls_links st). justified package s requests x)"

lemma links_justified_steps:
  assumes "links_justified package s requests st"
  shows "links_justified package s requests (count c st)" "links_justified package s requests (add_issue req q i p st)"
    "justified package s requests x \<Longrightarrow> links_justified package s requests (emit x st)"
  using assms set_dict_set_subset [of "el_id x" x "ls_links st"]
  by (auto simp: links_justified_def count_def add_issue_def emit_def)

lemma settle_scope_justified:
  assumes "settle_scope h package req proposal out st = Inr st'" "links_justified package s requests st"
    and "scope_decision proposal s
      (Some (\<lambda>a t. bindE (scope_revision h package req proposal a t) (\<lambda>r. Inr (el_id r)))) = Inr out"
    and "req \<in> set requests" "rq_basis req = ''adjudicated_issue_scope''"
    and "dict_get (ao_obs s) (rq_observation_id req) = Some obs" "observation_problem s (rq_observation_id req) = None"
    and "el_observation_id proposal = rq_observation_id req" "co_public_available_at obs \<le> el_known_at proposal"
  shows "links_justified package s requests st'"
proof (cases "so_decision out")
  case None
  then show ?thesis using assms(1,2) by (auto simp: settle_scope_def links_justified_steps)
next
  case (Some a)
  let ?f = "Some (\<lambda>a t. bindE (scope_revision h package req proposal a t) (\<lambda>r. Inr (el_id r)))"
  obtain known rvn where k: "so_known_at out = Some known" "scope_verdict_of proposal s ?f a = Inr (Decide known rvn)"
    and mem: "a \<in> set (citing_records proposal s)"
    using scope_loop_decided [OF assms(3) [unfolded scope_decision_def] Some] by auto
  obtain head where hd: "effective_head s a = Inr head" "ad_reviewer_role a = ''human_reviewer''"
    "ad_policy_digest a = POLICY_DIGEST" "ad_policy_digest head = POLICY_DIGEST"
    "ad_status a \<in> set ADMITTING_STATUSES" "ad_status head \<in> set ADMITTING_STATUSES"
    "decide_with proposal s ?f a head = Inr (Decide known rvn)"
    using k(2) by (rule scope_verdictD)
  note d = decide_withD [OF hd(7)]
  obtain x where x: "scope_revision h package req proposal a known = Inr x" "rvn = Some (el_id x)"
    using d(2) by (auto simp: revision_of_def bindE_Inr_iff)
  note m = make_link_fields [OF x(1) [unfolded scope_revision_def]]
  have st': "st' = count ''admitted'' (emit x st)"
    using assms(1) by (simp add: settle_scope_def Some k(1) x(1))
  have "scope_approved (ao_adjs s) x a head"
    using mem hd d(1) assms(8) unfolding scope_approved_def in_chain_def x(2)
    by (auto simp: citing_records_def m(2,6) effective_head_def)
  then have "justified package s requests x"
    unfolding justified_def using assms(4-9) d(3,4) m by (intro bexI [of _ req]) auto
  then show ?thesis using assms(2) by (simp add: st' links_justified_steps)
qed

lemma resolve_request_justified:
  assumes "resolve_request h package s req st = Inr st'" "links_justified package s requests st" "req \<in> set requests"
  shows "links_justified package s requests st'"
proof -
  let ?id = "rq_observation_id req" and ?st = "count ''requests'' st"
  note j = links_justified_steps [OF links_justified_steps(1) [OF assms(2), of "''requests''"]]
  have plain: "?thesis" if "st' = add_issue req q i p ?st" for q i p using that j by simp
  show ?thesis
  proof (cases "is_valid_cusip9 (rq_cusip9 req) = Inr True \<and> observation_problem s ?id = None")
    case False
    then show ?thesis using assms(1) plain
      by (auto simp: resolve_request_def observation_problem_def Let_def split: option.splits if_splits)
  next
    case True
    then obtain obs where o1: "dict_get (ao_obs s) ?id = Some obs"
      by (cases "dict_get (ao_obs s) ?id") (auto simp: observation_problem_def)
    then have u: "usable_observation obs (ao_k s) (ao_mode s) (ao_stale_obs s) = None"
      using True by (simp add: observation_problem_def)
    obtain identity where i: "utc (rq_identity_known_at req) = Inr identity"
      using assms(1) True o1 u by (cases "utc (rq_identity_known_at req)") (simp_all add: resolve_request_def Let_def)
    let ?base = "max (co_public_available_at obs) identity"
    have emitted: "justified package s requests x"
      if "make_link h package req status ?base why None = Inr x" "\<not> ao_k s < ?base"
        "status = ''admitted'' \<Longrightarrow> co_cusip9 obs = Some (rq_cusip9 req) \<and>
           rq_basis req \<in> {''nport_cusip_identity'', ''document_stated_cusip''}" for x status why
      using make_link_fields [OF that(1)] that(2,3) o1 True assms(3) unfolding justified_def
      by (intro bexI [of _ req]) auto
    consider (late) "ao_k s < ?base" | (scope) "\<not> ao_k s < ?base" "rq_basis req = ''adjudicated_issue_scope''"
      | (direct) "\<not> ao_k s < ?base" "rq_basis req \<noteq> ''adjudicated_issue_scope''" by blast
    then show ?thesis
    proof cases
      case late
      then show ?thesis using assms(1) True o1 u i j(2) by (auto simp: resolve_request_def Let_def)
    next
      case scope
      then have run: "resolve_scope h package s req obs ?base ?st = Inr st'"
        using assms(1) True o1 u i by (simp add: resolve_request_def Let_def)
      show ?thesis
      proof (cases "co_cusip9 obs \<noteq> None \<and> co_cusip9 obs \<noteq> Some (rq_cusip9 req)")
        case True
        then obtain x where x: "make_link h package req ''rejected'' ?base ''cusip_contradicts_observation'' None = Inr x"
          "st' = add_issue req ''cusip_contradicts_observation'' (Some (el_id x)) None (emit x ?st)"
          using run by (auto simp: resolve_scope_def bindE_Inr_iff)
        have "justified package s requests x" by (rule emitted [OF x(1) scope(1)]) simp
        then show ?thesis using j(3) links_justified_steps(2) x(2) by blast
      next
        case False
        then obtain proposal out where p: "make_link h package req ''quarantined'' ?base
              (''awaiting_adjudicated_scope:'' @ rq_rationale req) None = Inr proposal"
            "scope_decision proposal s
              (Some (\<lambda>a t. bindE (scope_revision h package req proposal a t) (\<lambda>r. Inr (el_id r)))) = Inr out"
            "settle_scope h package req proposal out (emit proposal ?st) = Inr st'"
          using run by (auto simp: resolve_scope_def bindE_Inr_iff Let_def)
        note m = make_link_fields [OF p(1)]
        show ?thesis
          by (rule settle_scope_justified [OF p(3) _ p(2) assms(3) scope(2) o1])
             (use True m j(3) emitted [OF p(1) scope(1)] in auto)
      qed
    next
      case direct
      then have run: "resolve_direct h package req obs ?base ?st = Inr st'"
        using assms(1) True o1 u i by (simp add: resolve_request_def Let_def)
      obtain status why where ds: "direct_status req obs = (status, why)" by fastforce
      obtain x where x: "make_link h package req status ?base why None = Inr x"
        using run by (auto simp: resolve_direct_def ds bindE_Inr_iff)
      have "justified package s requests x"
        by (rule emitted [OF x direct(1)]) (use ds direct_status_admitted direct(2) in blast)
      then show ?thesis using run x j(3)
        by (auto simp: resolve_direct_def ds Let_def links_justified_steps split: if_splits)
    qed
  qed
qed

lemma resolve_requests_justified:
  "resolve_requests h package s reqs st = Inr st' \<Longrightarrow> links_justified package s requests st \<Longrightarrow>
   set reqs \<subseteq> set requests \<Longrightarrow> links_justified package s requests st'"
proof (induction reqs arbitrary: st)
  case (Cons req reqs)
  then obtain st1 where "resolve_request h package s req st = Inr st1"
    "resolve_requests h package s reqs st1 = Inr st'"
    by (auto simp: bindE_Inr_iff)
  then show ?case using Cons resolve_request_justified by auto
qed simp

text \<open>
  C19: every emitted link is justified. It answers a request about an observation of the
  inventory that is public by the time the link is known, and the link is known by the
  cutoff. An admitted link has identity evidence and a valid CUSIP, and either the
  observation itself states that very CUSIP or a human reviewer decided the scope inside an
  episode's chain: the decision cites the quarantined proposal and the document, and the head
  of its chain accepts the episode citing this revision and no longer the proposal.
\<close>

theorem emitted_links_justified:
  assumes "resolve_links h requests observations adjudications package (Aware k) mode links strict = Inr r"
    and "x \<in> set (lr_links r)"
  shows "\<exists>req \<in> set requests. \<exists>obs \<in> set observations.
    rq_observation_id req = co_id obs \<and> el_observation_id x = co_id obs \<and> rq_cusip9 req = el_cusip9 x \<and>
    el_package_id x = pk_id package \<and> co_public_available_at obs \<le> el_known_at x \<and> el_known_at x \<le> k \<and>
    (el_status x = ''admitted'' \<longrightarrow> el_refs x \<noteq> [] \<and> is_valid_cusip9 (el_cusip9 x) = Inr True \<and>
       (co_cusip9 obs = Some (el_cusip9 x) \<and> rq_basis req \<in> {''nport_cusip_identity'', ''document_stated_cusip''} \<or>
        rq_basis req = ''adjudicated_issue_scope'' \<and>
        (\<exists>d head. scope_approved (adjudications_as_of adjudications k mode) x d head)))"
proof -
  obtain s st where s: "build_as_of k mode observations links adjudications = Inr s"
    and run: "resolve_requests h package s requests \<lparr> ls_links = [], ls_issues = [], ls_stats = [] \<rparr> = Inr st"
    and r: "finish_links strict st = Inr r"
    using assms(1) by (auto simp: resolve_links_def bindE_Inr_iff split: if_splits)
  have "x \<in> snd ` set (ls_links st)"
    using assms(2) r by (auto simp: finish_links_def Let_def split: if_splits)
  moreover have "links_justified package s requests st"
    by (rule resolve_requests_justified [OF run]) (simp_all add: links_justified_def)
  ultimately have "justified package s requests x" unfolding links_justified_def by blast
  moreover have "ao_k s = k" "ao_obs s = index_by co_id observations"
    "ao_adjs s = adjudications_as_of adjudications k mode"
    using s by (auto simp: build_as_of_def Let_def bindE_Inr_iff)
  ultimately obtain req obs where "req \<in> set requests" "dict_get (index_by co_id observations) (el_observation_id x) = Some obs"
    "rq_observation_id req = el_observation_id x" "rq_cusip9 req = el_cusip9 x" "el_package_id x = pk_id package"
    "co_public_available_at obs \<le> el_known_at x" "el_known_at x \<le> k" "is_valid_cusip9 (el_cusip9 x) = Inr True"
    "el_status x = ''admitted'' \<longrightarrow> el_refs x \<noteq> [] \<and>
       (co_cusip9 obs = Some (el_cusip9 x) \<and> rq_basis req \<in> {''nport_cusip_identity'', ''document_stated_cusip''} \<or>
        rq_basis req = ''adjudicated_issue_scope'' \<and>
        (\<exists>d head. scope_approved (adjudications_as_of adjudications k mode) x d head))"
    unfolding justified_def by auto
  moreover from this(2) have "obs \<in> set observations" "co_id obs = el_observation_id x"
    using dict_get_index_by by fast+
  ultimately show ?thesis by (intro bexI [of _ req] bexI [of _ obs]) simp_all
qed

subsection \<open>A forked chain\<close>

lemma chain_head_step:
  "dict_get (children_of adjs) (ad_id a) = Some b \<Longrightarrow> dict_get (children_of adjs) (ad_id b) = None \<Longrightarrow>
   ad_id b \<noteq> ad_id a \<Longrightarrow> chain_head a adjs = Inr b"
  by (simp add: chain_head_def chain_loop.simps)

text \<open>
  C20: a fork is decided by the order of the inventory. Two records that supersede the same
  decision make the adjudication chain malformed, and \<open>effective_adjudications\<close> refuses the
  inventory. The head that \<open>resolve_links\<close> asks for is not refused: it is whichever of the two
  records the inventory lists last, so an acceptance and a retraction of the same decision
  admit the link or not depending on how the inputs are ordered.
\<close>

theorem forked_chain_head_by_order:
  assumes "distinct [ad_id d, ad_id a, ad_id b]" "ad_supersedes d = None"
    and "ad_supersedes a = Some (ad_id d)" "ad_supersedes b = Some (ad_id d)"
    and "ad_subject_id a = ad_subject_id d" "ad_subject_id b = ad_subject_id d"
  shows "chain_head d (index_by ad_id [d, a, b]) = Inr b \<and> chain_head d (index_by ad_id [d, b, a]) = Inr a \<and>
    (\<forall>adjs \<in> {[d, a, b], [d, b, a]}. effective_adjudications (index_by ad_id adjs)
        = Inl (ResolveError ''adjudication_chain_fork'' [ad_subject_id d]))"
proof -
  have children: "children_of (index_by ad_id [d, a, b]) = [(ad_id d, b)]"
    "children_of (index_by ad_id [d, b, a]) = [(ad_id d, a)]"
    using assms(1-4) by (auto simp: children_of_def index_by_def)
  have heads: "chain_head d (index_by ad_id [d, a, b]) = Inr b" "chain_head d (index_by ad_id [d, b, a]) = Inr a"
    using assms(1) children by (auto intro!: chain_head_step)
  have "effective_adjudications (index_by ad_id adjs) = Inl (ResolveError ''adjudication_chain_fork'' [ad_subject_id d])"
    if "adjs = [d, a, b] \<or> adjs = [d, b, a]" for adjs
    using that assms
    by (auto simp: effective_adjudications_def index_by_def superseded_ids_def List.map_filter_def sort_by_def)
  then show ?thesis using heads by simp
qed

subsection \<open>A document, a proposal and its decision\<close>

definition demo_hash :: link_hash where
  "demo_hash = \<lparr> lh_digest = (\<lambda>refs. concat refs), lh_id = (\<lambda>b. ''link-'' @ el_status b) \<rparr>"

definition demo_observation :: "uuid \<Rightarrow> datetime \<Rightarrow> uuid option \<Rightarrow> credit_observation" where
  "demo_observation i t parent =
     \<lparr> co_id = i, co_kind = ''edgar_passage'', co_cusip9 = None, co_public_available_at = t, co_first_seen_at = t,
       co_revision_kind = (if parent = None then ''original'' else ''retraction''), co_supersedes = parent,
       co_report_date = None, co_is_default = None, co_arrears = None, co_presence = [] \<rparr>"

definition demo_request :: link_request where
  "demo_request =
     \<lparr> rq_observation_id = ''doc'', rq_cusip9 = ''037833100'', rq_security_id = ''sec'', rq_obligor_id = ''obligor'',
       rq_affected_scope = ''issuer_affected_obligation'', rq_basis = ''adjudicated_issue_scope'',
       rq_refs = [''indenture''], rq_identity_known_at = Aware 15, rq_valid_from = Date 2020 1 1, rq_valid_to = None,
       rq_rationale = ''default notice'' \<rparr>"

definition demo_adjudication :: "uuid \<Rightarrow> string \<Rightarrow> uuid option \<Rightarrow> datetime \<Rightarrow> uuid \<Rightarrow> adjudication" where
  "demo_adjudication i status parent t link =
     \<lparr> ad_id = i, ad_subject_kind = ''issue_episode'', ad_subject_id = ''episode'', ad_status = status,
       ad_supersedes = parent, ad_policy_digest = POLICY_DIGEST, ad_reviewer_role = ''human_reviewer'',
       ad_adjudicated_at = t, ad_evidence_ids = [''doc''], ad_link_ids = [link] \<rparr>"

definition demo_inventory :: "adjudication list" where
  "demo_inventory =
     [demo_adjudication ''a1'' ''accepted_event'' None 30 ''link-quarantined'',
      demo_adjudication ''a2'' ''accepted_event'' (Some ''a1'') 40 ''link-admitted'']"

definition demo_documents :: "credit_observation list" where
  "demo_documents = [demo_observation ''doc'' 10 None, demo_observation ''withdrawn'' 200 (Some ''doc'')]"

definition demo_resolve :: "adjudication list \<Rightarrow> resolve_error + link_resolution" where
  "demo_resolve adjudications =
     resolve_links demo_hash [demo_request] demo_documents adjudications
       \<lparr> pk_id = ''pkg'', pk_family = ''link_batch'' \<rparr> (Aware 100) ''current_run'' [] False"

lemma demo_resolve_links:
  "map_sum id (\<lambda>r. map (\<lambda>x. (el_id x, el_status x, el_known_at x)) (lr_links r)) (demo_resolve demo_inventory)
    = Inr [(''link-admitted'', ''admitted'', 15), (''link-quarantined'', ''quarantined'', 15)]"
  by code_simp

theorem links_point_in_time_witness:
  "map_sum id lr_links (demo_resolve demo_inventory)
    = map_sum id lr_links
      (resolve_links demo_hash [demo_request] (filter (\<lambda>x. co_public_available_at x \<le> 100) demo_documents)
        (filter (adjudication_usable 100 ''current_run'') demo_inventory)
        \<lparr> pk_id = ''pkg'', pk_family = ''link_batch'' \<rparr> (Aware 100) ''current_run''
        (filter (\<lambda>x. el_known_at x \<le> 100) []) False) \<and>
   filter (\<lambda>x. co_public_available_at x \<le> 100) demo_documents \<noteq> demo_documents"
proof
  show "filter (\<lambda>x. co_public_available_at x \<le> 100) demo_documents \<noteq> demo_documents"
    by (simp add: demo_documents_def demo_observation_def)
  have "distinct (map co_id demo_documents)" by (simp add: demo_documents_def demo_observation_def)
  then show "map_sum id lr_links (demo_resolve demo_inventory)
    = map_sum id lr_links
      (resolve_links demo_hash [demo_request] (filter (\<lambda>x. co_public_available_at x \<le> 100) demo_documents)
        (filter (adjudication_usable 100 ''current_run'') demo_inventory)
        \<lparr> pk_id = ''pkg'', pk_family = ''link_batch'' \<rparr> (Aware 100) ''current_run''
        (filter (\<lambda>x. el_known_at x \<le> 100) []) False)"
    unfolding demo_resolve_def by (rule links_point_in_time) simp
qed

theorem emitted_links_justified_witness:
  "\<exists>r x. demo_resolve demo_inventory = Inr r \<and> x \<in> set (lr_links r) \<and> el_status x = ''admitted'' \<and>
     (\<exists>d head. scope_approved (adjudications_as_of demo_inventory 100 ''current_run'') x d head)"
proof -
  obtain r where r: "demo_resolve demo_inventory = Inr r"
    "map (\<lambda>x. (el_id x, el_status x, el_known_at x)) (lr_links r)
      = [(''link-admitted'', ''admitted'', 15), (''link-quarantined'', ''quarantined'', 15)]"
    using demo_resolve_links by (cases "demo_resolve demo_inventory") simp_all
  have "\<exists>x \<in> set (lr_links r). el_status x = ''admitted''" using r(2) by (auto simp: map_eq_Cons_conv)
  then obtain x where x: "x \<in> set (lr_links r)" "el_status x = ''admitted''" by blast
  have "rq_basis req = ''adjudicated_issue_scope''" if "req \<in> set [demo_request]" for req
    using that by (simp add: demo_request_def)
  then have "\<exists>d head. scope_approved (adjudications_as_of demo_inventory 100 ''current_run'') x d head"
    using emitted_links_justified [OF r(1) [unfolded demo_resolve_def] x(1)] x(2) by auto
  then show ?thesis using r(1) x by blast
qed

text \<open>With a retraction beside the acceptance, the link is admitted in one order only.\<close>

lemma forked_decision_admits_by_order:
  "map_sum id (length \<circ> resolution_admitted)
     (demo_resolve (demo_inventory @ [demo_adjudication ''a3'' ''retracted'' (Some ''a1'') 50 ''link-admitted''])) = Inr 0"
  "map_sum id (length \<circ> resolution_admitted)
     (demo_resolve (demo_adjudication ''a3'' ''retracted'' (Some ''a1'') 50 ''link-admitted'' # demo_inventory)) = Inr 1"
  by code_simp+

theorem forked_chain_head_by_order_witness:
  "chain_head (demo_adjudication ''a1'' ''accepted_event'' None 30 ''link-quarantined'')
     (index_by ad_id (demo_inventory @ [demo_adjudication ''a3'' ''retracted'' (Some ''a1'') 50 ''link-admitted'']))
   = Inr (demo_adjudication ''a3'' ''retracted'' (Some ''a1'') 50 ''link-admitted'')"
  using forked_chain_head_by_order [of "demo_adjudication ''a1'' ''accepted_event'' None 30 ''link-quarantined''"
    "demo_adjudication ''a2'' ''accepted_event'' (Some ''a1'') 40 ''link-admitted''"
    "demo_adjudication ''a3'' ''retracted'' (Some ''a1'') 50 ''link-admitted''"]
  by (simp add: demo_inventory_def demo_adjudication_def)

end
