(* ===== verification/Followup_Intervals.thy ===== *)
theory Followup_Intervals
  imports Contract_Basics
begin

text \<open>
  The calendar intervals of the follow-up (\<open>bonds/default_events/resolve.py\<close>): the interval a
  snapshot covers, runs of months, and the difference, intersection and union of intervals
  open on the left and closed on the right. Each operation is shown to be the operation on the
  sets of days.
\<close>

type_synonym interval = "date \<times> date"

definition outcome_interval :: "date \<Rightarrow> date \<Rightarrow> contract_error + interval option" where
  "outcome_interval m target_month =
     (if month_key m \<ge> month_key target_month then Inr None
      else bindE (month_end (month_key m)) (\<lambda>s.
           bindE (add_months (month_key m) 1) (\<lambda>n.
           bindE (month_end n) (\<lambda>e. Inr (Some (s, e))))))"

text \<open>The runs of consecutive months; the last run grows at its end.\<close>

fun runs_loop :: "date list \<Rightarrow> date list list \<Rightarrow> contract_error + date list list" where
  "runs_loop [] acc = Inr acc"
| "runs_loop (m # ms) acc =
     (if acc = [] then runs_loop ms [[m]]
      else bindE (add_months (last (last acc)) 1) (\<lambda>n.
           if n = m then runs_loop ms (butlast acc @ [last acc @ [m]])
           else runs_loop ms (acc @ [[m]])))"

definition runs :: "date list \<Rightarrow> contract_error + date list list" where
  "runs months = runs_loop (sort (remdups months)) []"

definition cut_hole :: "interval \<Rightarrow> interval \<Rightarrow> interval list" where
  "cut_hole hole part =
     (if snd hole \<le> fst part \<or> fst hole \<ge> snd part then [part]
      else (if fst hole > fst part then [(fst part, fst hole)] else []) @
           (if snd hole < snd part then [(snd hole, snd part)] else []))"

definition interval_le :: "interval \<Rightarrow> interval \<Rightarrow> bool" where
  "interval_le x y \<longleftrightarrow> fst x < fst y \<or> fst x = fst y \<and> snd x \<le> snd y"

definition subtract :: "interval \<Rightarrow> interval list \<Rightarrow> interval list" where
  "subtract window holes =
     sort_by interval_le (fold (\<lambda>hole parts. concat (map (cut_hole hole) parts)) holes [window])"

definition intersect :: "interval \<Rightarrow> interval \<Rightarrow> interval option" where
  "intersect a b =
     (let s = max (fst a) (fst b); e = min (snd a) (snd b) in if s < e then Some (s, e) else None)"

definition merge_interval :: "interval \<Rightarrow> interval list \<Rightarrow> interval list" where
  "merge_interval x merged =
     (if merged \<noteq> [] \<and> fst x \<le> snd (last merged)
      then butlast merged @ [(fst (last merged), max (snd (last merged)) (snd x))]
      else merged @ [x])"

definition union_intervals :: "interval list \<Rightarrow> interval list" where
  "union_intervals intervals = fold merge_interval (sort_by interval_le intervals) []"

definition interval_covered :: "interval \<Rightarrow> interval list \<Rightarrow> bool" where
  "interval_covered target intervals =
     list_ex (\<lambda>(s, e). s \<le> fst target \<and> snd target \<le> e) (union_intervals intervals)"

subsection \<open>The days of an interval\<close>

definition day_in :: "date \<Rightarrow> interval \<Rightarrow> bool" where
  "day_in d x \<longleftrightarrow> fst x < d \<and> d \<le> snd x"

text \<open>How many of the intervals a day lies in.\<close>

definition hits :: "date \<Rightarrow> interval list \<Rightarrow> nat" where
  "hits d xs = length (filter (day_in d) xs)"

lemma hits_simps [simp]:
  "hits d [] = 0" "hits d (x # xs) = (if day_in d x then 1 else 0) + hits d xs"
  "hits d (xs @ ys) = hits d xs + hits d ys"
  by (simp_all add: hits_def)

lemma hits_concat: "hits d (concat xss) = sum_list (map (hits d) xss)"
  by (induction xss) simp_all

lemma hits_zero: "hits d xs = 0 \<longleftrightarrow> (\<forall>x \<in> set xs. \<not> day_in d x)"
  by (induction xs) auto

lemma hits_insort_by: "hits d (insort_by le x xs) = hits d (x # xs)"
  by (induction xs) auto

lemma hits_sort_by [simp]: "hits d (sort_by le xs) = hits d xs"
  by (induction xs) (simp_all add: sort_by_def hits_insort_by)

lemma hits_cut_hole:
  assumes "fst hole \<le> snd hole"
  shows "hits d (cut_hole hole part) = (if day_in d part \<and> \<not> day_in d hole then 1 else 0)"
  using assms by (auto simp: cut_hole_def day_in_def)

lemma hits_subtract:
  assumes "\<forall>hole \<in> set holes. fst hole \<le> snd hole"
  shows "hits d (subtract window holes) = (if day_in d window \<and> hits d holes = 0 then 1 else 0)"
proof -
  have step: "hits d (concat (map (cut_hole hole) parts)) = (if day_in d hole then 0 else hits d parts)"
    if "fst hole \<le> snd hole" for hole parts
    using hits_cut_hole [OF that] by (induction parts) auto
  have "hits d (fold (\<lambda>hole parts. concat (map (cut_hole hole) parts)) holes parts)
      = (if hits d holes = 0 then hits d parts else 0)" for parts
    using assms
  proof (induction holes arbitrary: parts)
    case (Cons hole holes)
    then show ?case by (simp add: step)
  qed simp
  then show ?thesis by (simp add: subtract_def)
qed

text \<open>Each part is nonempty and lies in the window.\<close>

lemma subtract_parts:
  assumes "part \<in> set (subtract window holes)" "fst window < snd window"
  shows "fst window \<le> fst part" "fst part < snd part" "snd part \<le> snd window"
proof -
  have cut: "fst part \<le> fst x \<and> fst x < snd x \<and> snd x \<le> snd part"
    if "x \<in> set (cut_hole hole part)" "fst part < snd part" for x hole part
    using that by (auto simp: cut_hole_def split: if_splits)
  have "\<forall>x \<in> set (fold (\<lambda>hole parts. concat (map (cut_hole hole) parts)) holes parts).
      fst window \<le> fst x \<and> fst x < snd x \<and> snd x \<le> snd window"
    if "\<forall>x \<in> set parts. fst window \<le> fst x \<and> fst x < snd x \<and> snd x \<le> snd window" for parts
    using that
  proof (induction holes arbitrary: parts)
    case (Cons hole holes)
    have "\<forall>x \<in> set (concat (map (cut_hole hole) parts)). fst window \<le> fst x \<and> fst x < snd x \<and> snd x \<le> snd window"
    proof
      fix x assume "x \<in> set (concat (map (cut_hole hole) parts))"
      then obtain p where p: "p \<in> set parts" "x \<in> set (cut_hole hole p)" by auto
      then show "fst window \<le> fst x \<and> fst x < snd x \<and> snd x \<le> snd window"
        using Cons.prems cut [OF p(2)] by force
    qed
    from Cons.IH [OF this] show ?case by simp
  qed simp
  from this [of "[window]"] show "fst window \<le> fst part" "fst part < snd part" "snd part \<le> snd window"
    using assms by (simp_all add: subtract_def)
qed

lemma intersect_Some:
  "intersect a b = Some x \<longleftrightarrow> x = (max (fst a) (fst b), min (snd a) (snd b)) \<and> fst x < snd x"
  by (auto simp: intersect_def Let_def)

lemma day_in_intersect:
  "day_in d a \<Longrightarrow> day_in d b \<Longrightarrow> \<exists>x. intersect a b = Some x \<and> day_in d x"
  by (auto simp: intersect_def day_in_def Let_def min_def max_def)

lemma intersect_day_in: "intersect a b = Some x \<Longrightarrow> day_in d x \<Longrightarrow> day_in d a \<and> day_in d b"
  by (auto simp: intersect_Some day_in_def)

text \<open>The union: every day of a merged interval is a day of an input, when the inputs are sorted.\<close>

lemma merge_interval_days:
  assumes "\<And>y. y \<in> set merged \<Longrightarrow> fst y \<le> fst x" "fst x \<le> snd x" "\<And>y. y \<in> set merged \<Longrightarrow> fst y \<le> snd y"
  shows "(\<exists>y \<in> set (merge_interval x merged). day_in d y) \<longleftrightarrow> day_in d x \<or> (\<exists>y \<in> set merged. day_in d y)"
proof (cases "merged \<noteq> [] \<and> fst x \<le> snd (last merged)")
  case True
  then obtain ms l where m: "merged = ms @ [l]" by (cases merged rule: rev_cases) auto
  have "fst l \<le> fst x" "fst x \<le> snd l" using assms(1) [of l] True m by auto
  then have "day_in d (fst l, max (snd l) (snd x)) \<longleftrightarrow> day_in d l \<or> day_in d x"
    by (auto simp: day_in_def max_def)
  then show ?thesis using True by (auto simp: merge_interval_def m)
qed (auto simp: merge_interval_def)

text \<open>The merged intervals are apart from each other and start where inputs start.\<close>

definition apart :: "interval list \<Rightarrow> bool" where
  "apart xs \<longleftrightarrow> sorted_wrt (\<lambda>x y. snd x < fst y) xs \<and> (\<forall>x \<in> set xs. fst x \<le> snd x)"

lemma merge_interval_apart:
  assumes "apart merged" "fst x \<le> snd x" "\<And>y. y \<in> set merged \<Longrightarrow> fst y \<le> fst x"
  shows "apart (merge_interval x merged)"
    and "fst ` set (merge_interval x merged) \<subseteq> insert (fst x) (fst ` set merged)"
proof -
  have "apart (merge_interval x merged) \<and> fst ` set (merge_interval x merged) \<subseteq> insert (fst x) (fst ` set merged)"
  proof (cases "merged \<noteq> [] \<and> fst x \<le> snd (last merged)")
    case True
    then obtain ms l where m: "merged = ms @ [l]" by (cases merged rule: rev_cases) auto
    have mi: "merge_interval x merged = ms @ [(fst l, max (snd l) (snd x))]"
      using True by (simp add: merge_interval_def m)
    then show ?thesis using assms(1) by (auto simp: apart_def m sorted_wrt_append max_def)
  next
    case False
    then have mi: "merge_interval x merged = merged @ [x]" unfolding merge_interval_def by (simp only: if_False)
    have "snd y < fst x" if "y \<in> set merged" for y
    proof (cases merged rule: rev_cases)
      case (snoc ms l)
      then have "snd l < fst x" using False by auto
      moreover have "y \<in> set ms \<Longrightarrow> snd y < fst l" "fst l \<le> snd l" using assms(1) snoc
        by (auto simp: apart_def sorted_wrt_append)
      ultimately show ?thesis using that snoc by auto
    qed (use that in simp)
    then show ?thesis using assms(1,2) by (auto simp: mi apart_def sorted_wrt_append)
  qed
  then show "apart (merge_interval x merged)"
    "fst ` set (merge_interval x merged) \<subseteq> insert (fst x) (fst ` set merged)" by simp_all
qed

lemma interval_le_order: "interval_le x y \<or> interval_le y x" "interval_le x y \<Longrightarrow> interval_le y z \<Longrightarrow> interval_le x z"
  by (auto simp: interval_le_def)

lemma union_fold:
  assumes "sorted_wrt interval_le xs" "\<forall>x \<in> set xs. fst x \<le> snd x" "apart merged"
    and "\<forall>y \<in> set merged. \<forall>x \<in> set xs. fst y \<le> fst x"
  shows "apart (fold merge_interval xs merged) \<and>
    fst ` set (fold merge_interval xs merged) \<subseteq> fst ` set xs \<union> fst ` set merged \<and>
    (\<forall>d. (\<exists>y \<in> set (fold merge_interval xs merged). day_in d y) \<longleftrightarrow> (\<exists>y \<in> set xs \<union> set merged. day_in d y))"
  using assms
proof (induction xs arbitrary: merged)
  case (Cons x xs)
  have le: "y \<in> set merged \<Longrightarrow> fst y \<le> fst x" for y using Cons.prems(4) by simp
  have x: "fst x \<le> snd x" using Cons.prems(2) by simp
  note a = merge_interval_apart [OF Cons.prems(3) x le]
  have "\<forall>y \<in> set (merge_interval x merged). \<forall>z \<in> set xs. fst y \<le> fst z"
  proof (intro ballI)
    fix y z assume y: "y \<in> set (merge_interval x merged)" "z \<in> set xs"
    have "fst x \<le> fst z" using Cons.prems(1) y(2) by (auto simp: interval_le_def)
    moreover have "fst y = fst x \<or> (\<exists>m \<in> set merged. fst y = fst m)" using a(2) y(1) by auto
    ultimately show "fst y \<le> fst z" using Cons.prems(4) y(2) by auto
  qed
  with Cons.prems a(1) have ih: "apart (fold merge_interval xs (merge_interval x merged)) \<and>
      fst ` set (fold merge_interval xs (merge_interval x merged)) \<subseteq> fst ` set xs \<union> fst ` set (merge_interval x merged) \<and>
      (\<forall>d. (\<exists>y \<in> set (fold merge_interval xs (merge_interval x merged)). day_in d y)
         \<longleftrightarrow> (\<exists>y \<in> set xs \<union> set (merge_interval x merged). day_in d y))"
    by (intro Cons.IH) auto
  have "(\<exists>y \<in> set (merge_interval x merged). day_in d y) \<longleftrightarrow> day_in d x \<or> (\<exists>y \<in> set merged. day_in d y)" for d
    using merge_interval_days [OF le x] Cons.prems(3) by (simp add: apart_def)
  then have days: "(\<exists>y \<in> set xs \<union> set (merge_interval x merged). day_in d y)
      \<longleftrightarrow> (\<exists>y \<in> set (x # xs) \<union> set merged. day_in d y)" for d
    unfolding bex_Un by auto
  have starts: "fst ` set xs \<union> fst ` set (merge_interval x merged) \<subseteq> fst ` set (x # xs) \<union> fst ` set merged"
    using a(2) by auto
  show ?case unfolding fold_simps comp_apply
  proof (intro conjI allI)
    show "apart (fold merge_interval xs (merge_interval x merged))" using ih by blast
    show "fst ` set (fold merge_interval xs (merge_interval x merged)) \<subseteq> fst ` set (x # xs) \<union> fst ` set merged"
      using ih starts by (meson order_trans)
    show "(\<exists>y \<in> set (fold merge_interval xs (merge_interval x merged)). day_in d y)
        \<longleftrightarrow> (\<exists>y \<in> set (x # xs) \<union> set merged. day_in d y)" for d
      using ih days by meson
  qed
qed simp

lemma union_intervals_days:
  assumes "\<forall>x \<in> set xs. fst x \<le> snd x"
  shows "apart (union_intervals xs)" "fst ` set (union_intervals xs) \<subseteq> fst ` set xs"
    "(\<exists>y \<in> set (union_intervals xs). day_in d y) \<longleftrightarrow> (\<exists>y \<in> set xs. day_in d y)"
proof -
  have "sorted_wrt interval_le (sort_by interval_le xs)"
    by (rule sorted_sort_by) (fact interval_le_order(1), fact interval_le_order(2))
  from union_fold [OF this, of "[]"] assms
  show "apart (union_intervals xs)" "fst ` set (union_intervals xs) \<subseteq> fst ` set xs"
    "(\<exists>y \<in> set (union_intervals xs). day_in d y) \<longleftrightarrow> (\<exists>y \<in> set xs. day_in d y)"
    by (simp_all add: union_intervals_def apart_def)
qed

text \<open>
  An interval is covered exactly when each of its days is. The code sorts the intervals,
  merges those that touch and asks for one merged interval around the target; that is the
  same as every calendar day of the target lying in one of the intervals.
\<close>

theorem interval_covered_iff:
  assumes "fst target < snd target" "valid_date (snd target)"
    and "\<forall>x \<in> set intervals. fst x \<le> snd x \<and> valid_date (fst x)"
  shows "interval_covered target intervals
    \<longleftrightarrow> (\<forall>d. valid_date d \<longrightarrow> day_in d target \<longrightarrow> (\<exists>x \<in> set intervals. day_in d x))"
proof -
  let ?us = "union_intervals intervals"
  have ok: "\<forall>x \<in> set intervals. fst x \<le> snd x" using assms(3) by simp
  note u = union_intervals_days [OF ok]
  show ?thesis
  proof
    assume "interval_covered target intervals"
    then obtain x where "x \<in> set ?us" "fst x \<le> fst target" "snd target \<le> snd x"
      by (auto simp: interval_covered_def list_ex_iff)
    then show "\<forall>d. valid_date d \<longrightarrow> day_in d target \<longrightarrow> (\<exists>x \<in> set intervals. day_in d x)"
      using u(3) by (auto simp: day_in_def) (meson le_less_trans order_trans)
  next
    assume all: "\<forall>d. valid_date d \<longrightarrow> day_in d target \<longrightarrow> (\<exists>x \<in> set intervals. day_in d x)"
    then obtain x where x: "x \<in> set ?us" "day_in (snd target) x"
      using assms(1,2) u(3) [of "snd target"] by (auto simp: day_in_def)
    have "fst x \<le> fst target"
    proof (rule ccontr)
      assume "\<not> fst x \<le> fst target"
      moreover have "valid_date (fst x)"
      proof -
        have "fst x \<in> fst ` set intervals" using u(2) x(1) by (meson imageI subsetD)
        then show ?thesis using assms(3) by auto
      qed
      moreover have "fst x < snd target" using x(2) by (simp add: day_in_def)
      ultimately obtain y where y: "y \<in> set ?us" "day_in (fst x) y"
        using all u(3) [of "fst x"] by (auto simp: day_in_def)
      have "x = y \<or> snd x < fst y \<or> snd y < fst x"
        using u(1) x(1) y(1) by (auto simp: apart_def sorted_wrt_iff_nth_less in_set_conv_nth) (metis linorder_neqE_nat)
      then show False using x(2) y(2) by (auto simp: day_in_def)
    qed
    then show "interval_covered target intervals"
      using x by (auto simp: interval_covered_def list_ex_iff day_in_def intro!: bexI [of _ x])
  qed
qed

theorem interval_covered_iff_witness:
  "interval_covered (Date 2020 1 31, Date 2020 3 31) [(Date 2020 2 10, Date 2020 3 31), (Date 2020 1 31, Date 2020 2 10)] \<and>
   (\<exists>x \<in> set [(Date 2020 2 10, Date 2020 3 31), (Date 2020 1 31, Date 2020 2 10)]. day_in (Date 2020 2 29) x)"
proof -
  have c: "interval_covered (Date 2020 1 31, Date 2020 3 31) [(Date 2020 2 10, Date 2020 3 31), (Date 2020 1 31, Date 2020 2 10)]"
    by code_simp
  have ok: "fst (Date 2020 1 31, Date 2020 3 31) < snd (Date 2020 1 31, Date 2020 3 31)"
    "valid_date (snd (Date 2020 1 31, Date 2020 3 31))"
    "\<forall>x \<in> set [(Date 2020 2 10, Date 2020 3 31), (Date 2020 1 31, Date 2020 2 10)]. fst x \<le> snd x \<and> valid_date (fst x)"
    "valid_date (Date 2020 2 29)" "day_in (Date 2020 2 29) (Date 2020 1 31, Date 2020 3 31)"
    by code_simp+
  show ?thesis using c iffD1 [OF interval_covered_iff [OF ok(1-3)]] ok(4,5) by blast
qed

end
