(* ===== verification/Followup.thy ===== *)
theory Followup
  imports Evidence_Links Followup_Intervals
begin

text \<open>
  Follow-up of an issue as of a cutoff (\<open>bonds/default_events/resolve.py\<close>, \<open>build_followup\<close> and
  what it calls): documentary support and its validation, the canonical merge of overlapping
  documents, surveillance between nondefault boundaries, the segments of a window, and the
  spells of the panel grid. A \<open>frozenset\<close> of identifiers is its sorted list. The row contract
  of \<open>FollowUp\<close> is part of the model.
\<close>

record continuity_evidence =
  ce_cusip9 :: string
  ce_start_exclusive :: date
  ce_end_inclusive :: date
  ce_status :: string
  ce_basis :: string
  ce_observation_ids :: "uuid list"
  ce_adjudication_ids :: "uuid list"

record support =
  sp_span :: interval
  sp_status :: string
  sp_basis :: string
  sp_observation_ids :: "uuid list"
  sp_adjudication_ids :: "uuid list"
  sp_known :: datetime

record default_episode =
  de_id :: uuid
  de_cusip9 :: string
  de_onset_lower :: "date option"
  de_onset_upper :: date
  de_resolution :: "date option"
  de_adjudication_ids :: "uuid list"

record validation_receipt =
  vr_verdict :: string
  vr_issued_at :: datetime
  vr_start :: "date option"
  vr_end :: "date option"

definition surveils :: "validation_receipt \<Rightarrow> bool \<Rightarrow> date \<Rightarrow> date \<Rightarrow> bool" where
  "surveils r cusip_in_grid start_exclusive end_inclusive \<longleftrightarrow>
     vr_verdict r = ''qualified'' \<and> cusip_in_grid \<and>
     (case (vr_start r, vr_end r) of
        (Some s, Some e) \<Rightarrow> s \<le> start_exclusive \<and> end_inclusive \<le> e
      | _ \<Rightarrow> False)"

definition DOCUMENT_STATUSES :: "string list" where
  "DOCUMENT_STATUSES = [''nondefault_continuous'', ''repaid'', ''resolved'']"

definition DOCUMENT_BASES :: "string list" where
  "DOCUMENT_BASES = [''continuous_document'', ''issuer_trustee_confirmation'']"

definition BASIS_ORDER :: "string list" where
  "BASIS_ORDER = [''issuer_trustee_confirmation'', ''continuous_document'']"

definition NEGATIVE_STATUSES :: "string list" where
  "NEGATIVE_STATUSES = [''retracted'', ''nonqualifying'', ''disputed'']"

subsection \<open>Documentary support\<close>

definition fail_closed :: "string \<Rightarrow> string \<Rightarrow> string" where
  "fail_closed new old =
     (if new \<in> {CANDIDATE_IS_NOT_A_DECISION, STANDALONE_DECISION_NOT_PERSISTABLE} then new else old)"

text \<open>The loop over the links, with the reason so far.\<close>

fun scope_of_links ::
  "uuid \<Rightarrow> string \<Rightarrow> as_of \<Rightarrow> event_link list \<Rightarrow> string \<Rightarrow> resolve_error + (string + datetime)" where
  "scope_of_links oid cusip9 s [] reason = Inr (Inl reason)"
| "scope_of_links oid cusip9 s (x # xs) reason =
     (if el_observation_id x \<noteq> oid \<or> el_cusip9 x \<noteq> cusip9 then scope_of_links oid cusip9 s xs reason
      else if el_status x = ''quarantined'' \<and> el_id x \<notin> set (ao_stale_links s) then
        bindE (scope_decision x s None) (\<lambda>outcome.
          scope_of_links oid cusip9 s xs (fail_closed (so_reason outcome) reason))
      else if link_problem s (el_id x) \<noteq> None then scope_of_links oid cusip9 s xs reason
      else (case Option.bind (el_supersedes x) (dict_get (ao_links s)) of
          None \<Rightarrow> scope_of_links oid cusip9 s xs reason
        | Some proposal \<Rightarrow>
            if el_status proposal \<noteq> ''quarantined'' then scope_of_links oid cusip9 s xs reason
            else bindE (scope_decision proposal s (Some (\<lambda>a t. Inr (el_id x)))) (\<lambda>outcome.
              case (so_decision outcome, so_known_at outcome) of
                (Some a, Some known) \<Rightarrow> Inr (Inr (max known (el_known_at x)))
              | _ \<Rightarrow> scope_of_links oid cusip9 s xs (fail_closed (so_reason outcome) reason))))"

definition issuer_scope :: "uuid \<Rightarrow> string \<Rightarrow> as_of \<Rightarrow> resolve_error + (string + datetime)" where
  "issuer_scope oid cusip9 s =
     scope_of_links oid cusip9 s (sort_by (\<lambda>x y. text_le (el_id x) (el_id y)) (map snd (ao_links s)))
       ''continuity_scope_not_established''"

definition continuity_decision_problem ::
  "adjudication option \<Rightarrow> continuity_evidence \<Rightarrow> as_of \<Rightarrow> (uuid, default_episode) dict
     \<Rightarrow> resolve_error + string option" where
  "continuity_decision_problem adj ev s episodes =
     (case adj of
        None \<Rightarrow> Inr (Some ''continuity_adjudication_unusable:not_available_human_record'')
      | Some a \<Rightarrow>
          if ad_reviewer_role a \<noteq> ''human_reviewer'' \<or> ad_policy_digest a \<noteq> POLICY_DIGEST then
            Inr (Some ''continuity_adjudication_unusable:not_available_human_record'')
          else if ad_status a = ''candidate'' then Inr (Some CANDIDATE_IS_NOT_A_DECISION)
          else bindE (effective_head s a) (\<lambda>head.
            if ad_id head \<noteq> ad_id a \<or> ad_status a \<in> set NEGATIVE_STATUSES then
              Inr (Some ''continuity_adjudication_unusable:not_effective'')
            else if ad_status a \<notin> set ADMITTING_STATUSES \<or> ad_subject_kind a \<noteq> ''issue_episode'' \<or>
              (case dict_get episodes (ad_subject_id a) of
                 None \<Rightarrow> True
               | Some e \<Rightarrow> de_cusip9 e \<noteq> ce_cusip9 ev \<or> ad_id a \<notin> set (de_adjudication_ids e)) then
              Inr (Some STANDALONE_DECISION_NOT_PERSISTABLE)
            else if set (ad_evidence_ids a) \<inter> set (ce_observation_ids ev) = {} then
              Inr (Some ''continuity_adjudication_unusable:unrelated'')
            else Inr None))"

text \<open>
  The two loops of \<open>_continuity_support\<close>. The inner left value is the reason the document is
  unusable; the observation loop returns its times and whether a passage was among them, the
  adjudication loop the issues it appends, its times and the decisions that count.
\<close>

fun support_observations ::
  "as_of \<Rightarrow> continuity_evidence \<Rightarrow> uuid list \<Rightarrow> resolve_error + (string + datetime list \<times> bool)" where
  "support_observations s ev [] = Inr (Inr ([], False))"
| "support_observations s ev (oid # oids) =
     (case observation_problem s oid of
        Some problem \<Rightarrow> Inr (Inl (''continuity_evidence_unusable:'' @ problem))
      | None \<Rightarrow>
          (let x = the (dict_get (ao_obs s) oid);
               rest = (\<lambda>ts. bindE (support_observations s ev oids) (\<lambda>r.
                 Inr (bindE r (\<lambda>(us, doc).
                   Inr (ts @ co_public_available_at x # us, ends_with ''_passage'' (co_kind x) \<or> doc)))))
           in if co_cusip9 x \<noteq> None \<and> co_cusip9 x \<noteq> Some (ce_cusip9 ev) then
                Inr (Inl ''continuity_scope_mismatch'')
              else if co_cusip9 x = None then
                bindE (issuer_scope oid (ce_cusip9 ev) s) (\<lambda>scope.
                  case scope of Inl reason \<Rightarrow> Inr (Inl reason) | Inr t \<Rightarrow> rest [t])
              else rest []))"

definition review_times :: "as_of \<Rightarrow> adjudication \<Rightarrow> datetime list" where
  "review_times s a = (if ao_mode s = ''current_run'' then [ad_adjudicated_at a] else [])"

fun support_decisions ::
  "as_of \<Rightarrow> continuity_evidence \<Rightarrow> (uuid, default_episode) dict \<Rightarrow> uuid list
     \<Rightarrow> resolve_error + string list \<times> (string + datetime list \<times> uuid list)" where
  "support_decisions s ev episodes [] = Inr ([], Inr ([], []))"
| "support_decisions s ev episodes (aid # aids) =
     bindE (continuity_decision_problem (dict_get (ao_adjs s) aid) ev s episodes) (\<lambda>problem.
       case problem of
         Some p \<Rightarrow>
           if p \<in> {CANDIDATE_IS_NOT_A_DECISION, STANDALONE_DECISION_NOT_PERSISTABLE} then
             bindE (support_decisions s ev episodes aids) (\<lambda>(issues, r).
               Inr ((p @ '':'' @ ce_cusip9 ev) # issues, r))
           else Inr ([], Inl p)
       | None \<Rightarrow>
           (let a = the (dict_get (ao_adjs s) aid)
            in case dependency_times s a [] of
                 Inl p \<Rightarrow> Inr ([], Inl (''continuity_adjudication_unusable:'' @ p))
               | Inr ts \<Rightarrow>
                   bindE (support_decisions s ev episodes aids) (\<lambda>(issues, r).
                     Inr (issues, bindE r (\<lambda>(us, ds). Inr (ts @ review_times s a @ us, aid # ds))))))"

definition continuity_support ::
  "continuity_evidence \<Rightarrow> as_of \<Rightarrow> (uuid, default_episode) dict
     \<Rightarrow> resolve_error + string list \<times> (string + support)" where
  "continuity_support ev s episodes =
     (if ce_status ev \<notin> set DOCUMENT_STATUSES \<or> ce_basis ev \<notin> set DOCUMENT_BASES then
        Inr ([], Inl ''continuity_status_or_basis_invalid'')
      else if \<not> ce_start_exclusive ev < ce_end_inclusive ev then Inr ([], Inl ''continuity_interval_empty'')
      else bindE (support_observations s ev (ce_observation_ids ev)) (\<lambda>observed.
        case observed of
          Inl reason \<Rightarrow> Inr ([], Inl reason)
        | Inr (ts, documentary) \<Rightarrow>
            if \<not> documentary then Inr ([], Inl ''nport_only_is_not_continuous_evidence'')
            else bindE (support_decisions s ev episodes (ce_adjudication_ids ev)) (\<lambda>(issues, decided).
              case decided of
                Inl reason \<Rightarrow> Inr (issues, Inl reason)
              | Inr (us, decisions) \<Rightarrow>
                  (let known = fold max (tl (ts @ us)) (hd (ts @ us))
                   in if known > ao_k s then Inr (issues, Inl ''continuity_known_after_cutoff'')
                      else Inr (issues, Inr
                        \<lparr> sp_span = (ce_start_exclusive ev, ce_end_inclusive ev), sp_status = ce_status ev,
                          sp_basis = ce_basis ev, sp_observation_ids = sorted_texts (ce_observation_ids ev),
                          sp_adjudication_ids = sorted_texts decisions, sp_known = known \<rparr>)))))"

subsection \<open>The canonical merge of documents\<close>

definition union_ids :: "uuid list list \<Rightarrow> uuid list" where
  "union_ids xss = sorted_texts (concat xss)"

definition dispute_winner :: "support list \<Rightarrow> as_of \<Rightarrow> string option" where
  "dispute_winner covering s =
     (let every = union_ids (map sp_observation_ids covering);
          winners = remdups (concat (map (\<lambda>x. map (\<lambda>aid. sp_status x)
            (filter (\<lambda>aid. set every \<subseteq> set (ad_evidence_ids (the (dict_get (ao_adjs s) aid))))
               (sp_adjudication_ids x))) covering))
      in if length winners = 1 then Some (hd winners) else None)"

definition same_support :: "support \<Rightarrow> support \<Rightarrow> bool" where
  "same_support a b \<longleftrightarrow>
     sp_status a = sp_status b \<and> sp_basis a = sp_basis b \<and> sp_observation_ids a = sp_observation_ids b \<and>
     sp_adjudication_ids a = sp_adjudication_ids b \<and> sp_known a = sp_known b"

text \<open>\<open>pairwise(xs)\<close>\<close>

definition pairwise_of :: "'a list \<Rightarrow> ('a \<times> 'a) list" where
  "pairwise_of xs = zip xs (tl xs)"

definition clip :: "interval \<Rightarrow> support list \<Rightarrow> (interval \<times> support) list" where
  "clip window supports =
     List.map_filter (\<lambda>x. map_option (\<lambda>hit. (hit, x)) (intersect window (sp_span x))) supports"

definition cut_points :: "interval \<Rightarrow> (interval \<times> support) list \<Rightarrow> date list" where
  "cut_points window clipped =
     sort (remdups ([fst window, snd window] @ concat (map (\<lambda>(hit, x). [fst hit, snd hit]) clipped)))"

definition covering_of :: "date \<Rightarrow> date \<Rightarrow> (interval \<times> support) list \<Rightarrow> support list" where
  "covering_of lo hi clipped = map snd (filter (\<lambda>(hit, x). fst hit \<le> lo \<and> hi \<le> snd hit) clipped)"

text \<open>The supports that decide an elementary interval; \<open>None\<close> is a dispute.\<close>

definition agreed :: "support list \<Rightarrow> as_of \<Rightarrow> support list option" where
  "agreed covering s =
     (if length (remdups (map sp_status covering)) > 1 then
        map_option (\<lambda>winner. filter (\<lambda>x. sp_status x = winner) covering) (dispute_winner covering s)
      else Some covering)"

definition merge_supports :: "date \<Rightarrow> date \<Rightarrow> support list \<Rightarrow> resolve_error + support" where
  "merge_supports lo hi covering =
     (case find (\<lambda>b. list_ex (\<lambda>x. sp_basis x = b) covering) BASIS_ORDER of
        None \<Rightarrow> Inl (ContractFault (CodecError StopIteration))
      | Some basis \<Rightarrow>
          Inr \<lparr> sp_span = (lo, hi), sp_status = sp_status (hd covering), sp_basis = basis,
                sp_observation_ids = union_ids (map sp_observation_ids covering),
                sp_adjudication_ids = union_ids (map sp_adjudication_ids covering),
                sp_known = fold max (map sp_known (tl covering)) (sp_known (hd covering)) \<rparr>)"

type_synonym piece = "interval \<times> support"

definition append_piece :: "date \<Rightarrow> date \<Rightarrow> support \<Rightarrow> piece list \<Rightarrow> piece list" where
  "append_piece lo hi merged out =
     (if out \<noteq> [] \<and> snd (fst (last out)) = lo \<and> same_support (snd (last out)) merged
      then butlast out @ [((fst (fst (last out)), hi), merged)]
      else out @ [((lo, hi), merged)])"

definition dispute_issue :: "string \<Rightarrow> date \<Rightarrow> date \<Rightarrow> string" where
  "dispute_issue cusip9 lo hi =
     ''continuity_status_dispute:'' @ cusip9 @ '':'' @ isoformat lo @ '':'' @ isoformat hi"

definition piece_step ::
  "(interval \<times> support) list \<Rightarrow> as_of \<Rightarrow> string \<Rightarrow> date \<times> date \<Rightarrow> piece list \<times> string list
     \<Rightarrow> resolve_error + piece list \<times> string list" where
  "piece_step clipped s cusip9 = (\<lambda>(lo, hi) (out, issues).
     let covering = covering_of lo hi clipped
     in if covering = [] then Inr (out, issues)
        else (case agreed covering s of
            None \<Rightarrow> Inr (out, issues @ [dispute_issue cusip9 lo hi])
          | Some chosen \<Rightarrow>
              bindE (merge_supports lo hi chosen) (\<lambda>merged. Inr (append_piece lo hi merged out, issues))))"

definition documentary_pieces ::
  "interval \<Rightarrow> support list \<Rightarrow> as_of \<Rightarrow> string \<Rightarrow> resolve_error + piece list \<times> string list" where
  "documentary_pieces window supports s cusip9 =
     (let clipped = clip window supports
      in foldE (piece_step clipped s cusip9) (pairwise_of (cut_points window clipped)) ([], []))"

subsection \<open>Surveillance\<close>

definition blocking :: "credit_observation \<Rightarrow> bool" where
  "blocking x \<longleftrightarrow> co_is_default x = Some ''Y'' \<or>
     dict_get (co_presence x) ''nport_is_default'' = Some ''invalid'' \<or> co_arrears x = Some ''Y''"

definition holdings_in :: "interval \<Rightarrow> string \<Rightarrow> as_of \<Rightarrow> (date \<times> credit_observation) list" where
  "holdings_in gap cusip9 s =
     List.map_filter (\<lambda>x.
       case co_report_date x of
         None \<Rightarrow> None
       | Some d \<Rightarrow>
           if co_kind x = ''nport_holding'' \<and> co_cusip9 x = Some cusip9 \<and> fst gap \<le> d \<and> d \<le> snd gap \<and>
             observation_problem s (co_id x) = None then Some (d, x) else None)
       (map snd (ao_obs s))"

definition add_ids :: "date \<Rightarrow> uuid list \<Rightarrow> (date, uuid list) dict \<Rightarrow> (date, uuid list) dict" where
  "add_ids d ids m = dict_set d (dict_get_default m d [] @ ids) m"

definition clean_dates :: "(date \<times> credit_observation) list \<Rightarrow> date list \<Rightarrow> (date, uuid list) dict" where
  "clean_dates holdings blocked =
     fold (\<lambda>(d, x). if co_is_default x = Some ''N'' \<and> d \<notin> set blocked then add_ids d [co_id x] else id) holdings []"

definition boundaries ::
  "interval \<Rightarrow> piece list \<Rightarrow> (date, uuid list) dict \<Rightarrow> (date, uuid list) dict" where
  "boundaries gap documented clean =
     fold (\<lambda>(window, x) m.
       if sp_status x = ''nondefault_continuous'' then
         fold (\<lambda>d m. if fst window < d \<and> d \<le> snd window then add_ids d (sp_observation_ids x) m else m)
           [fst gap, snd gap] m
       else m) documented clean"

type_synonym surveilled = "interval \<times> uuid list \<times> datetime"

definition surveillance_piece ::
  "as_of \<Rightarrow> validation_receipt \<Rightarrow> (date \<times> credit_observation) list \<Rightarrow> date list \<Rightarrow> (date, uuid list) dict
     \<Rightarrow> date \<times> date \<Rightarrow> surveilled list" where
  "surveillance_piece s receipt holdings blocked boundary = (\<lambda>(lo, hi).
     if \<not> surveils receipt True lo hi \<or> list_ex (\<lambda>d. lo < d \<and> d \<le> hi) blocked then []
     else (let inside = map (\<lambda>(d, x). co_id x) (filter (\<lambda>(d, x). lo < d \<and> d \<le> hi) holdings);
               ids = sorted_texts (the (dict_get boundary lo) @ the (dict_get boundary hi) @ inside);
               known = fold max (map (\<lambda>i. co_public_available_at (the (dict_get (ao_obs s) i))) ids) (vr_issued_at receipt)
           in if known \<le> ao_k s then [((lo, hi), ids, known)] else []))"

definition blocked_issue :: "string \<Rightarrow> date \<Rightarrow> string" where
  "blocked_issue cusip9 d = ''surveillance_blocked_by_default_evidence:'' @ cusip9 @ '':'' @ isoformat d"

definition surveillance_pieces ::
  "interval \<Rightarrow> string \<Rightarrow> piece list \<Rightarrow> as_of \<Rightarrow> validation_receipt option \<Rightarrow> surveilled list \<times> string list" where
  "surveillance_pieces gap cusip9 documented s receipt =
     (case receipt of
        None \<Rightarrow> ([], [])
      | Some r \<Rightarrow>
          if vr_verdict r \<noteq> ''qualified'' \<or> vr_issued_at r > ao_k s then ([], [])
          else (let holdings = holdings_in gap cusip9 s;
                    blocked = remdups (map fst (filter (\<lambda>(d, x). blocking x) holdings));
                    boundary = boundaries gap documented (clean_dates holdings blocked);
                    dates = sort (map fst boundary)
                in (concat (map (surveillance_piece s r holdings blocked boundary) (pairwise_of dates)),
                    map (blocked_issue cusip9)
                      (filter (\<lambda>d. fst gap < d \<and> surveils r True (add_days d (-1)) d) (sort blocked)))))"

subsection \<open>The segments of a window\<close>

record follow_up =
  fu_security_id :: uuid
  fu_spell_id :: uuid
  fu_segment_id :: uuid
  fu_cusip9 :: string
  fu_start_exclusive :: date
  fu_end_inclusive :: date
  fu_status :: string
  fu_basis :: string
  fu_evidence_ids :: "uuid list"
  fu_adjudication_ids :: "uuid list"
  fu_known_at :: datetime

definition followup_statuses :: "string list" where
  "followup_statuses = [''nondefault_continuous'', ''repaid'', ''resolved'', ''unknown'']"

definition completeness_bases :: "string list" where
  "completeness_bases = [''continuous_document'', ''issuer_trustee_confirmation'', ''none'', ''surveillance_receipt'']"

definition followup_rules :: "follow_up \<Rightarrow> contract_error + unit" where
  "followup_rules f =
     (if fu_start_exclusive f \<ge> fu_end_inclusive f then Inl (ContractError ''followup_interval:not_increasing'')
      else if (fu_status f = ''unknown'') \<noteq> (fu_basis f = ''none'') then
        Inl (ContractError ''completeness_basis:unknown_iff_none'')
      else if fu_status f \<noteq> ''unknown'' \<and> fu_evidence_ids f = [] then Inl (ContractError ''followup:evidence_required'')
      else Inr ())"

definition check_followup :: "follow_up \<Rightarrow> contract_error + unit" where
  "check_followup f =
     bindE (check_cusip ''cusip9'' (fu_cusip9 f)) (\<lambda>_.
     bindE (check_enum ''status'' followup_statuses (fu_status f)) (\<lambda>_.
     bindE (check_enum ''completeness_basis'' completeness_bases (fu_basis f)) (\<lambda>_. followup_rules f)))"

type_synonym uuid_names = "string list \<Rightarrow> uuid"

definition segment_of ::
  "uuid_names \<Rightarrow> string \<Rightarrow> uuid \<Rightarrow> uuid \<Rightarrow> interval \<Rightarrow> string \<Rightarrow> string \<Rightarrow> uuid list \<Rightarrow> uuid list \<Rightarrow> datetime
     \<Rightarrow> resolve_error + follow_up" where
  "segment_of uuid5 cusip9 security spell_id part status basis evidence adjudication_ids known =
     (let f = \<lparr> fu_security_id = security, fu_spell_id = spell_id,
        fu_segment_id = uuid5 [''bond_default_followup_segment'', spell_id, isoformat (fst part), isoformat (snd part), status],
        fu_cusip9 = cusip9, fu_start_exclusive = fst part, fu_end_inclusive = snd part, fu_status = status,
        fu_basis = basis, fu_evidence_ids = sorted_texts evidence, fu_adjudication_ids = sorted_texts adjudication_ids,
        fu_known_at = known \<rparr>
      in case check_followup f of Inl e \<Rightarrow> Inl (ContractFault e) | Inr _ \<Rightarrow> Inr f)"

definition cover_gap ::
  "uuid_names \<Rightarrow> string \<Rightarrow> uuid \<Rightarrow> uuid \<Rightarrow> piece list \<Rightarrow> as_of \<Rightarrow> validation_receipt option \<Rightarrow> interval
     \<Rightarrow> follow_up list \<times> string list \<Rightarrow> resolve_error + follow_up list \<times> string list" where
  "cover_gap uuid5 cusip9 security spell_id documented s receipt gap = (\<lambda>(out, issues).
     case surveillance_pieces gap cusip9 documented s receipt of
       (surveilled, blocked) \<Rightarrow>
         bindE (mapE (\<lambda>(part, ids, known). segment_of uuid5 cusip9 security spell_id part
                  ''nondefault_continuous'' ''surveillance_receipt'' ids [] known) surveilled) (\<lambda>watched.
         bindE (mapE (\<lambda>rest. segment_of uuid5 cusip9 security spell_id rest ''unknown'' ''none'' [] [] (ao_k s))
                  (subtract gap (map fst surveilled))) (\<lambda>unknown.
         Inr (out @ watched @ unknown, issues @ blocked))))"

definition cover_window ::
  "uuid_names \<Rightarrow> string \<Rightarrow> uuid \<Rightarrow> uuid \<Rightarrow> interval \<Rightarrow> support list \<Rightarrow> as_of \<Rightarrow> validation_receipt option
     \<Rightarrow> resolve_error + follow_up list \<times> string list" where
  "cover_window uuid5 cusip9 security spell_id window supports s receipt =
     bindE (documentary_pieces window supports s cusip9) (\<lambda>(documented, issues).
     bindE (mapE (\<lambda>(part, x). segment_of uuid5 cusip9 security spell_id part (sp_status x) (sp_basis x)
              (sp_observation_ids x) (sp_adjudication_ids x) (sp_known x)) documented) (\<lambda>out.
     foldE (cover_gap uuid5 cusip9 security spell_id documented s receipt)
       (subtract window (map fst documented)) (out, issues)))"

subsection \<open>Spells of the panel grid\<close>

record censoring =
  cs_cusip9 :: string
  cs_spell_id :: uuid
  cs_at :: date
  cs_reason :: string

record followup_state =
  fs_followups :: "follow_up list"
  fs_censoring :: "censoring list"
  fs_issues :: "string list"

record followup_input =
  fi_securities :: "(string, uuid) dict"
  fi_episodes :: "default_episode list"
  fi_receipt :: "validation_receipt option"
  fi_aliases :: "(string, uuid) dict"
  fi_target_month :: date

text \<open>\<open>date.min\<close> and \<open>date.max\<close>\<close>

definition date_min :: date where "date_min = Date 1 1 1"

definition date_max :: date where "date_max = Date 9999 12 31"

definition default_hole :: "default_episode \<Rightarrow> interval" where
  "default_hole e =
     ((case de_onset_lower e of None \<Rightarrow> date_min | Some d \<Rightarrow> d),
      (case de_resolution e of None \<Rightarrow> date_max | Some d \<Rightarrow> d))"

definition starts_of :: "(string \<times> date) list \<Rightarrow> date \<Rightarrow> contract_error + (string, date list) dict" where
  "starts_of panel_grid target_month =
     foldE (\<lambda>(cusip9, m) starts.
       bindE (outcome_interval m target_month) (\<lambda>window.
       Inr (case window of
              None \<Rightarrow> starts
            | Some w \<Rightarrow> dict_set cusip9 (dict_get_default starts cusip9 [] @ [month_key m]) starts)))
       panel_grid []"

definition onset_censoring :: "string \<Rightarrow> uuid \<Rightarrow> interval \<Rightarrow> interval list \<Rightarrow> censoring list" where
  "onset_censoring cusip9 spell_id window holes =
     List.map_filter (\<lambda>hole. map_option (\<lambda>hit. \<lparr> cs_cusip9 = cusip9, cs_spell_id = spell_id,
         cs_at = fst hit, cs_reason = ''default_onset'' \<rparr>) (intersect window hole)) holes"

definition contract_step :: "contract_error + 'a \<Rightarrow> resolve_error + 'a" where
  "contract_step r = (case r of Inl e \<Rightarrow> Inl (ContractFault e) | Inr x \<Rightarrow> Inr x)"

text \<open>One run of months: the body of the inner loop. \<open>last_run\<close> is \<open>index + 1 = len(runs)\<close>.\<close>

definition cover_run ::
  "uuid_names \<Rightarrow> followup_input \<Rightarrow> as_of \<Rightarrow> string \<Rightarrow> uuid \<Rightarrow> support list \<Rightarrow> date list \<times> bool \<Rightarrow> followup_state
     \<Rightarrow> resolve_error + followup_state" where
  "cover_run uuid5 inp s cusip9 security supports = (\<lambda>(run, last_run) st.
     let spell_id = uuid5 [''bond_default_followup_spell'', cusip9, isoformat (hd run)]
     in bindE (contract_step (month_end (fi_target_month inp))) (\<lambda>t_end.
        bindE (contract_step (month_end (hd run))) (\<lambda>start.
        bindE (contract_step (bindE (add_months (last run) 1) month_end)) (\<lambda>run_end.
        let window = (start, min run_end t_end)
        in case dict_get (fi_aliases inp) cusip9 of
             Some alias \<Rightarrow>
               Inr (st\<lparr> fs_censoring := fs_censoring st @
                 [\<lparr> cs_cusip9 = cusip9, cs_spell_id = alias, cs_at = start, cs_reason = ''exchange_alias_absorbed'' \<rparr>] \<rparr>)
           | None \<Rightarrow>
               (let holes = map default_hole (filter (\<lambda>e. de_cusip9 e = cusip9) (fi_episodes inp));
                    reason = (if snd window = t_end then ''target_end''
                              else if \<not> last_run then ''reentry_gap'' else ''panel_exit'')
                in bindE (mapE (\<lambda>w. cover_window uuid5 cusip9 security spell_id w supports s (fi_receipt inp))
                           (subtract window holes)) (\<lambda>parts.
                   Inr \<lparr> fs_followups = fs_followups st @ concat (map fst parts),
                         fs_censoring = fs_censoring st @ onset_censoring cusip9 spell_id window holes @
                           [\<lparr> cs_cusip9 = cusip9, cs_spell_id = spell_id, cs_at = snd window, cs_reason = reason \<rparr>],
                         fs_issues = fs_issues st @ concat (map snd parts) \<rparr>))))))"

definition mark_last :: "'a list \<Rightarrow> ('a \<times> bool) list" where
  "mark_last xs = zip xs (map (\<lambda>i. Suc i = length xs) [0..<length xs])"

definition cover_issue ::
  "uuid_names \<Rightarrow> followup_input \<Rightarrow> as_of \<Rightarrow> (string, support list) dict \<Rightarrow> string \<times> date list \<Rightarrow> followup_state
     \<Rightarrow> resolve_error + followup_state" where
  "cover_issue uuid5 inp s supports = (\<lambda>(cusip9, months) st.
     case dict_get (fi_securities inp) cusip9 of
       None \<Rightarrow> Inr (st\<lparr> fs_issues := fs_issues st @ [''security_id_missing:'' @ cusip9] \<rparr>)
     | Some security \<Rightarrow>
         bindE (contract_step (runs months)) (\<lambda>rs.
         foldE (cover_run uuid5 inp s cusip9 security (dict_get_default supports cusip9 [])) (mark_last rs) st))"

text \<open>The supports of each issue, in the order of the evidence, and the issues raised.\<close>

definition collect_supports ::
  "continuity_evidence list \<Rightarrow> as_of \<Rightarrow> (uuid, default_episode) dict
     \<Rightarrow> resolve_error + (string, support list) dict \<times> string list" where
  "collect_supports continuity s episodes =
     foldE (\<lambda>ev (supports, issues).
       bindE (continuity_support ev s episodes) (\<lambda>(more_issues, r).
       Inr (case r of
              Inl reason \<Rightarrow> (supports, issues @ more_issues @ [reason @ '':'' @ ce_cusip9 ev])
            | Inr x \<Rightarrow> (dict_set (ce_cusip9 ev) (dict_get_default supports (ce_cusip9 ev) [] @ [x]) supports,
                        issues @ more_issues)))) continuity ([], [])"

definition followup_key :: "follow_up \<Rightarrow> string list" where
  "followup_key f = [fu_security_id f, fu_spell_id f, fu_segment_id f]"

definition censoring_le :: "censoring \<Rightarrow> censoring \<Rightarrow> bool" where
  "censoring_le x y =
     (if cs_cusip9 x \<noteq> cs_cusip9 y then text_le (cs_cusip9 x) (cs_cusip9 y)
      else if cs_at x \<noteq> cs_at y then cs_at x < cs_at y
      else texts_le [cs_reason x, cs_spell_id x] [cs_reason y, cs_spell_id y])"

definition finish_followup :: "bool \<Rightarrow> followup_state \<Rightarrow> resolve_error + followup_state" where
  "finish_followup strict st =
     (let issues = sorted_texts (fs_issues st)
      in if strict \<and> issues \<noteq> [] then Inl (ResolveError ''followup_resolution_failed'' issues)
         else Inr \<lparr> fs_followups = sort_by (\<lambda>x y. texts_le (followup_key x) (followup_key y)) (fs_followups st),
                    fs_censoring = sort_by censoring_le (fs_censoring st), fs_issues = issues \<rparr>)"

definition build_followup ::
  "uuid_names \<Rightarrow> (string \<times> date) list \<Rightarrow> followup_input \<Rightarrow> credit_observation list \<Rightarrow> continuity_evidence list
     \<Rightarrow> adjudication list \<Rightarrow> event_link list \<Rightarrow> timestamp \<Rightarrow> string \<Rightarrow> bool \<Rightarrow> resolve_error + followup_state" where
  "build_followup uuid5 panel_grid inp observations continuity adjudications links knowledge_cutoff mode strict =
     bindE (utc knowledge_cutoff) (\<lambda>k.
     bindE (check_mode mode) (\<lambda>_.
     bindE (contract_step (month_end (fi_target_month inp))) (\<lambda>t_end.
     bindE (build_as_of k mode observations links adjudications) (\<lambda>s.
     bindE (contract_step (starts_of panel_grid (fi_target_month inp))) (\<lambda>starts.
     bindE (collect_supports continuity s (index_by de_id (fi_episodes inp))) (\<lambda>(supports, issues).
     bindE (foldE (cover_issue uuid5 inp s supports) (sort_by (\<lambda>x y. text_le (fst x) (fst y)) starts)
              \<lparr> fs_followups = [], fs_censoring = [], fs_issues = issues \<rparr>)
       (finish_followup strict)))))))"

subsection \<open>Outcomes\<close>

definition rating_stratum :: "string option \<Rightarrow> string" where
  "rating_stratum bucket =
     (case bucket of
        None \<Rightarrow> ''unknown''
      | Some b \<Rightarrow> if b \<in> {''AAA'', ''AA'', ''A'', ''BBB''} then ''IG''
                 else if b \<in> {''BB'', ''B'', ''CCC'', ''D''} then ''HY'' else ''unknown'')"

text \<open>\<open>percent\<close> is \<open>int(q * 100)\<close>; an empty sequence raises on the last subscript.\<close>

definition nearest_rank :: "int list \<Rightarrow> int \<Rightarrow> py_error + int" where
  "nearest_rank values percent =
     (let ordered = sort values; n = int (length ordered);
          index = max 0 (- (- percent * n div 100) - 1)
      in if ordered = [] then Inl IndexError else Inr (ordered ! nat (min index (n - 1))))"

definition certain_span :: "default_episode \<Rightarrow> interval" where
  "certain_span e = (add_days (de_onset_upper e) (-1), (case de_resolution e of None \<Rightarrow> date_max | Some d \<Rightarrow> d))"

definition onset_window :: "default_episode \<Rightarrow> interval" where
  "onset_window e =
     ((case de_onset_lower e of None \<Rightarrow> date_min | Some d \<Rightarrow> d), add_days (de_onset_upper e) (-1))"

definition interval_outcome :: "interval \<Rightarrow> default_episode list \<Rightarrow> interval list \<Rightarrow> string" where
  "interval_outcome window cusip_episodes segments =
     (if list_ex (\<lambda>e. fst (certain_span e) \<le> fst window \<and> snd window \<le> snd (certain_span e)) cusip_episodes then ''default''
      else if list_ex (\<lambda>e. fst (onset_window e) < snd (onset_window e) \<and> intersect window (onset_window e) \<noteq> None)
        cusip_episodes then ''unknown''
      else if interval_covered window segments then ''nondefault''
      else ''unknown'')"

end
