(* ===== verification/Followup_Tiling.thy ===== *)
theory Followup_Tiling
  imports Followup
begin

text \<open>
  What the follow-up segments of a window are worth (\<open>Followup\<close>): they tile the window, the
  canonical merge of documents does not depend on their order, and nothing is known after the
  cutoff or rests on evidence that is not usable at it. The last part shows a surveillance
  segment that is dated too early.
\<close>

lemma mapE_images:
  "mapE f xs = Inr ys \<Longrightarrow> (\<And>x y. f x = Inr y \<Longrightarrow> g y = h x) \<Longrightarrow> map g ys = map h xs"
  by (induction xs arbitrary: ys) (auto simp: bindE_Inr_iff)

lemma set_map_filter: "set (List.map_filter f xs) = {y. \<exists>x \<in> set xs. f x = Some y}"
  by (auto simp: List.map_filter_def image_iff) force

subsection \<open>Consecutive pairs\<close>

lemma pairwise_of_simps [simp]:
  "pairwise_of [] = []" "pairwise_of [x] = []" "pairwise_of (x # y # xs) = (x, y) # pairwise_of (y # xs)"
  by (simp_all add: pairwise_of_def)

lemma pairwise_of_hits:
  "sorted_wrt (<) (x # xs) \<Longrightarrow> hits d (pairwise_of (x # xs)) = (if x < d \<and> d \<le> last (x # xs) then 1 else 0)"
proof (induction xs arbitrary: x)
  case (Cons y xs)
  have "y \<le> last (y # xs)" using Cons.prems by (cases xs) (auto intro: less_imp_le)
  then show ?case using Cons by (auto simp: day_in_def)
qed auto

lemma pairwise_of_mem:
  "(lo, hi) \<in> set (pairwise_of xs) \<Longrightarrow> lo \<in> set xs \<and> hi \<in> set xs"
  by (auto simp: pairwise_of_def dest: set_zip_leftD set_zip_rightD) (metis list.set_sel(2) set_zip_rightD tl_Nil)

lemma pairwise_of_less: "sorted_wrt (<) xs \<Longrightarrow> (lo, hi) \<in> set (pairwise_of xs) \<Longrightarrow> lo < hi"
  by (induction xs rule: induct_list012) auto

lemma sorted_remdups_strict: "sorted_wrt (<) (sort (remdups xs))" for xs :: "'a::linorder list"
  by (simp add: strict_sorted_iff)

subsection \<open>Documentary pieces\<close>

text \<open>The pieces so far are apart and end by \<open>b\<close>.\<close>

definition pieces_upto :: "date \<Rightarrow> date \<Rightarrow> piece list \<Rightarrow> bool" where
  "pieces_upto a b out \<longleftrightarrow>
     (\<forall>p \<in> set out. a \<le> fst (fst p) \<and> fst (fst p) < snd (fst p) \<and> snd (fst p) \<le> b) \<and>
     (\<forall>d. hits d (map fst out) \<le> 1)"

lemma append_piece_upto:
  assumes "pieces_upto a lo out" "a \<le> lo" "lo < hi"
  shows "pieces_upto a hi (append_piece lo hi m out)"
    and "hits d (map fst (append_piece lo hi m out)) = hits d (map fst out) + (if day_in d (lo, hi) then 1 else 0)"
proof -
  have h: "hits d (map fst (append_piece lo hi m out)) = hits d (map fst out) + (if day_in d (lo, hi) then 1 else 0)" for d
  proof (cases "out \<noteq> [] \<and> snd (fst (last out)) = lo \<and> same_support (snd (last out)) m")
    case True
    then obtain ps p where p: "out = ps @ [p]" by (cases out rule: rev_cases) auto
    then have e: "snd (fst p) = lo" "fst (fst p) < lo" using True assms(1) by (auto simp: pieces_upto_def)
    have ap: "append_piece lo hi m out = ps @ [((fst (fst p), hi), m)]"
      using True by (simp add: append_piece_def p)
    show ?thesis unfolding ap unfolding p using e assms(3) by (auto simp: day_in_def)
  next
    case False
    then have "append_piece lo hi m out = out @ [((lo, hi), m)]"
      unfolding append_piece_def by (simp only: if_False)
    then show ?thesis by simp
  qed
  then show "hits d (map fst (append_piece lo hi m out)) = hits d (map fst out) + (if day_in d (lo, hi) then 1 else 0)" .
  have "hits d (map fst out) = 0" if "day_in d (lo, hi)" for d
    using that assms(1) unfolding hits_zero by (force simp: pieces_upto_def day_in_def)
  then have "hits d (map fst (append_piece lo hi m out)) \<le> 1" for d
    using h [of d] assms(1) by (auto simp: pieces_upto_def)
  moreover have "a \<le> fst (fst q) \<and> fst (fst q) < snd (fst q) \<and> snd (fst q) \<le> hi"
    if "q \<in> set (append_piece lo hi m out)" for q
  proof (cases "out \<noteq> [] \<and> snd (fst (last out)) = lo \<and> same_support (snd (last out)) m")
    case True
    then obtain ps p where p: "out = ps @ [p]" by (cases out rule: rev_cases) auto
    then have "append_piece lo hi m out = ps @ [((fst (fst p), hi), m)]"
      using True by (simp add: append_piece_def)
    then show ?thesis using that assms p True by (auto simp: pieces_upto_def intro: less_imp_le order_trans)
  next
    case False
    then have "append_piece lo hi m out = out @ [((lo, hi), m)]"
      unfolding append_piece_def by (simp only: if_False)
    then show ?thesis using that assms by (auto simp: pieces_upto_def intro: less_imp_le order_trans)
  qed
  ultimately show "pieces_upto a hi (append_piece lo hi m out)" by (simp add: pieces_upto_def)
qed

lemma pieces_upto_mono: "pieces_upto a b out \<Longrightarrow> b \<le> c \<Longrightarrow> pieces_upto a c out"
  by (force simp: pieces_upto_def)

lemma piece_step_upto:
  assumes "piece_step clipped s cusip9 (lo, hi) (out, issues) = Inr (out', issues')"
    and "pieces_upto a lo out" "a \<le> lo" "lo < hi"
  shows "pieces_upto a hi out'"
  using assms append_piece_upto(1) [OF assms(2-4)] pieces_upto_mono [OF assms(2), of hi]
  by (auto simp: piece_step_def Let_def bindE_Inr_iff split: if_splits option.splits)

lemma pieces_fold_upto:
  "sorted_wrt (<) (c # cs) \<Longrightarrow> pieces_upto a c out \<Longrightarrow> a \<le> c \<Longrightarrow>
   foldE (piece_step clipped s cusip9) (pairwise_of (c # cs)) (out, issues) = Inr (out', issues') \<Longrightarrow>
   pieces_upto a (last (c # cs)) out'"
proof (induction cs arbitrary: c out issues)
  case (Cons c' cs)
  obtain out1 issues1 where step: "piece_step clipped s cusip9 (c, c') (out, issues) = Inr (out1, issues1)"
    "foldE (piece_step clipped s cusip9) (pairwise_of (c' # cs)) (out1, issues1) = Inr (out', issues')"
    using Cons.prems(4) by (auto simp: bindE_Inr_iff)
  have "c < c'" using Cons.prems(1) by simp
  then show ?case using Cons.IH [OF _ piece_step_upto [OF step(1) Cons.prems(2,3)] _ step(2)] Cons.prems by simp
qed simp

lemma clip_mem: "(hit, x) \<in> set (clip window supports) \<longleftrightarrow> x \<in> set supports \<and> intersect window (sp_span x) = Some hit"
  by (cases hit) (auto simp: clip_def set_map_filter)

lemma set_cut_points:
  "set (cut_points window clipped)
    = {fst window, snd window} \<union> {c. \<exists>(hit, x) \<in> set clipped. c = fst hit \<or> c = snd hit}"
  unfolding cut_points_def set_sort set_remdups by fastforce

lemma cut_points_ends:
  assumes "fst window < snd window"
  shows "sorted_wrt (<) (cut_points window (clip window supports))"
    and "\<exists>cs. cut_points window (clip window supports) = fst window # cs \<and> last (fst window # cs) = snd window"
proof -
  let ?cs = "cut_points window (clip window supports)"
  show st: "sorted_wrt (<) ?cs" by (simp only: cut_points_def sorted_remdups_strict)
  have range: "fst window \<le> c \<and> c \<le> snd window" if "c \<in> set ?cs" for c
    using that assms unfolding set_cut_points by (auto simp: clip_mem intersect_Some less_imp_le)
  have mem: "fst window \<in> set ?cs" "snd window \<in> set ?cs" by (simp_all add: set_cut_points)
  then obtain x xs where cs: "?cs = x # xs" by (cases ?cs) auto
  have sorted: "sorted (x # xs)" using st strict_sorted_imp_sorted cs by metis
  have last_ge: "y \<le> last (z # zs)" if "sorted (z # zs)" "y \<in> set (z # zs)" for y z and zs :: "date list"
    using that by (induction zs arbitrary: z) auto
  have "last ?cs \<in> set ?cs" using cs by (simp only: last_in_set not_False_eq_True list.distinct)
  moreover have "snd window \<le> last ?cs" using last_ge [OF sorted] mem(2) cs by metis
  moreover have "x \<le> fst window" using mem(1) sorted cs by auto
  ultimately show "\<exists>cs. ?cs = fst window # cs \<and> last (fst window # cs) = snd window"
    using range [of x] range [of "last ?cs"] cs by (auto intro: antisym)
qed

lemma documentary_pieces_upto:
  assumes "documentary_pieces window supports s cusip9 = Inr (ps, issues)" "fst window < snd window"
  shows "pieces_upto (fst window) (snd window) ps"
proof -
  obtain cs where cs: "cut_points window (clip window supports) = fst window # cs" "last (fst window # cs) = snd window"
    using cut_points_ends(2) [OF assms(2)] by blast
  have "sorted_wrt (<) (fst window # cs)" using cut_points_ends(1) [OF assms(2), of supports] cs(1) by simp
  moreover have "pieces_upto (fst window) (fst window) []" by (simp add: pieces_upto_def)
  ultimately have "pieces_upto (fst window) (last (fst window # cs)) ps"
    using assms(1) by (intro pieces_fold_upto) (auto simp: documentary_pieces_def Let_def cs(1))
  then show ?thesis using cs(2) by simp
qed

subsection \<open>Surveillance pieces\<close>

lemma add_ids_keys [simp]: "fst ` set (add_ids d ids m) = insert d (fst ` set m)"
  by (simp add: add_ids_def)

lemma add_ids_ok [simp]: "dict_ok m \<Longrightarrow> dict_ok (add_ids d ids m)"
  by (simp add: add_ids_def)

lemma holdings_in_dates: "(d, x) \<in> set (holdings_in gap cusip9 s) \<Longrightarrow>
  co_report_date x = Some d \<and> fst gap \<le> d \<and> d \<le> snd gap \<and> x \<in> snd ` set (ao_obs s) \<and>
  observation_problem s (co_id x) = None"
  by (force simp: holdings_in_def set_map_filter split: option.splits if_splits)

lemma clean_dates_keys:
  "dict_ok (clean_dates holdings blocked) \<and> fst ` set (clean_dates holdings blocked) \<subseteq> fst ` set holdings"
proof -
  have "dict_ok m \<Longrightarrow> dict_ok (fold (\<lambda>(d, x). if co_is_default x = Some ''N'' \<and> d \<notin> set blocked then add_ids d [co_id x] else id) hs m) \<and>
    fst ` set (fold (\<lambda>(d, x). if co_is_default x = Some ''N'' \<and> d \<notin> set blocked then add_ids d [co_id x] else id) hs m)
      \<subseteq> fst ` set hs \<union> fst ` set m" for hs and m :: "(date, uuid list) dict"
  proof (induction hs arbitrary: m)
    case (Cons h hs)
    obtain d x where h: "h = (d, x)" by (cases h)
    show ?case
    proof (cases "co_is_default x = Some ''N'' \<and> d \<notin> set blocked")
      case True
      then show ?thesis using Cons.IH [of "add_ids d [co_id x] m"] Cons.prems by (auto simp: h)
    next
      case False
      then have "(if co_is_default x = Some ''N'' \<and> d \<notin> set blocked then add_ids d [co_id x] else id) m = m" by auto
      then show ?thesis using Cons.IH [OF Cons.prems] unfolding h fold_simps comp_apply by (simp only: prod.case) auto
    qed
  qed simp
  from this [of "[]" holdings] show ?thesis by (simp add: clean_dates_def)
qed

lemma boundaries_keys:
  assumes "dict_ok clean"
  shows "dict_ok (boundaries gap documented clean) \<and>
    fst ` set (boundaries gap documented clean) \<subseteq> fst ` set clean \<union> {fst gap, snd gap}"
proof -
  let ?in = "\<lambda>window x d m. if fst window < d \<and> d \<le> snd window then add_ids d (sp_observation_ids x) m else m"
  let ?step = "\<lambda>(window, x) m. if sp_status x = ''nondefault_continuous'' then fold (?in window x) [fst gap, snd gap] m else m"
  let ?P = "\<lambda>m. dict_ok m \<and> fst ` set m \<subseteq> fst ` set clean \<union> {fst gap, snd gap}"
  have one: "?P (?step p m)" if "?P m" for p :: "interval \<times> support" and m :: "(date, uuid list) dict"
    using that by (cases p) auto
  have "?P (fold ?step documented clean)"
    by (rule fold_invariant [where Q = "\<lambda>_. True"]) (use assms one in auto)
  then show ?thesis by (simp add: boundaries_def)
qed

lemma surveillance_piece_span:
  "w \<in> set (surveillance_piece s r hs blocked boundary part) \<Longrightarrow> fst w = part"
  by (auto simp: surveillance_piece_def Let_def split: if_splits prod.splits)

lemma surveillance_piece_hits:
  "hits d (map fst (surveillance_piece s r hs blocked boundary part)) \<le> hits d [part]"
  by (auto simp: surveillance_piece_def Let_def split: prod.splits)

lemma pair_pieces:
  assumes "sorted_wrt (<) dates" "\<And>c. c \<in> set dates \<Longrightarrow> fst gap \<le> c \<and> c \<le> snd gap"
    and span: "\<And>part w. w \<in> set (f part) \<Longrightarrow> fst w = part"
    and one: "\<And>part. hits d (map fst (f part)) \<le> hits d [part]"
  defines "ws \<equiv> concat (map f (pairwise_of dates))"
  shows "w \<in> set ws \<Longrightarrow> fst gap \<le> fst (fst w) \<and> fst (fst w) < snd (fst w) \<and> snd (fst w) \<le> snd gap"
    and "hits d (map fst ws) \<le> (if day_in d gap then 1 else 0)"
proof -
  have spans: "fst gap \<le> fst (fst w) \<and> fst (fst w) < snd (fst w) \<and> snd (fst w) \<le> snd gap" if w: "w \<in> set ws" for w
  proof -
    obtain part where p: "part \<in> set (pairwise_of dates)" "w \<in> set (f part)" using w by (auto simp: ws_def)
    then have q: "(fst (fst w), snd (fst w)) \<in> set (pairwise_of dates)" using span [OF p(2)] by simp
    show ?thesis using pairwise_of_mem [OF q] pairwise_of_less [OF assms(1) q] assms(2) by auto
  qed
  show "w \<in> set ws \<Longrightarrow> fst gap \<le> fst (fst w) \<and> fst (fst w) < snd (fst w) \<and> snd (fst w) \<le> snd gap"
    using spans .
  have "hits d (map fst (concat (map f parts))) \<le> hits d parts" for parts
  proof (induction parts)
    case (Cons part parts)
    then show ?case using one [of part] by simp
  qed simp
  then have "hits d (map fst ws) \<le> hits d (pairwise_of dates)" unfolding ws_def .
  also have "\<dots> \<le> 1"
    using assms(1) pairwise_of_hits [of "hd dates" "tl dates" d] by (cases dates) (simp_all only: list.sel pairwise_of_simps hits_simps, auto)
  finally have "hits d (map fst ws) \<le> 1" .
  moreover have "hits d (map fst ws) = 0" if "\<not> day_in d gap"
    using that spans unfolding hits_zero by (force simp: day_in_def)
  ultimately show "hits d (map fst ws) \<le> (if day_in d gap then 1 else 0)" by simp
qed

lemma surveillance_pieces_in_gap:
  assumes sp: "surveillance_pieces gap cusip9 documented s receipt = (ws, issues)" and lt: "fst gap < snd gap"
  shows "w \<in> set ws \<Longrightarrow> fst gap \<le> fst (fst w) \<and> fst (fst w) < snd (fst w) \<and> snd (fst w) \<le> snd gap"
    and "hits d (map fst ws) \<le> (if day_in d gap then 1 else 0)"
proof -
  have "ws = [] \<or> (\<exists>dates f. ws = concat (map f (pairwise_of dates)) \<and> sorted_wrt (<) dates \<and>
      (\<forall>c \<in> set dates. fst gap \<le> c \<and> c \<le> snd gap) \<and>
      (\<forall>part. (\<forall>w \<in> set (f part). fst w = part) \<and> hits d (map fst (f part)) \<le> hits d [part]))"
  proof (cases "ws = []")
    case False
    then obtain r where r: "receipt = Some r" using sp by (cases receipt) (auto simp: surveillance_pieces_def)
    define hs where "hs = holdings_in gap cusip9 s"
    define blocked where "blocked = remdups (map fst (filter (\<lambda>(d, x). blocking x) hs))"
    define b where "b = boundaries gap documented (clean_dates hs blocked)"
    have w: "ws = concat (map (surveillance_piece s r hs blocked b) (pairwise_of (sort (map fst b))))"
      using sp False r by (auto simp: surveillance_pieces_def Let_def hs_def blocked_def b_def split: if_splits)
    have ok: "dict_ok b" "fst ` set b \<subseteq> fst ` set hs \<union> {fst gap, snd gap}"
      using boundaries_keys [of "clean_dates hs blocked" gap documented] clean_dates_keys [of hs blocked]
      unfolding b_def by blast+
    have "sorted_wrt (<) (sort (map fst b))" using ok(1) by (simp add: strict_sorted_iff)
    moreover have "\<forall>c \<in> set (sort (map fst b)). fst gap \<le> c \<and> c \<le> snd gap"
    proof
      fix c assume "c \<in> set (sort (map fst b))"
      then have "c \<in> fst ` set hs \<union> {fst gap, snd gap}" using ok(2) by auto
      then show "fst gap \<le> c \<and> c \<le> snd gap" using holdings_in_dates lt unfolding hs_def by fastforce
    qed
    ultimately show ?thesis using w surveillance_piece_span surveillance_piece_hits by blast
  qed simp
  then have "(\<forall>w \<in> set ws. fst gap \<le> fst (fst w) \<and> fst (fst w) < snd (fst w) \<and> snd (fst w) \<le> snd gap) \<and>
    hits d (map fst ws) \<le> (if day_in d gap then 1 else 0)"
  proof (elim disjE exE conjE)
    fix dates f assume w: "ws = concat (map f (pairwise_of dates))" and st: "sorted_wrt (<) dates"
      and rg: "\<forall>c \<in> set dates. fst gap \<le> c \<and> c \<le> snd gap"
      and fp: "\<forall>part. (\<forall>w \<in> set (f part). fst w = part) \<and> hits d (map fst (f part)) \<le> hits d [part]"
    have "\<And>c. c \<in> set dates \<Longrightarrow> fst gap \<le> c \<and> c \<le> snd gap" using rg by blast
    moreover have "\<And>part w. w \<in> set (f part) \<Longrightarrow> fst w = part" using fp by blast
    moreover have "\<And>part. hits d (map fst (f part)) \<le> hits d [part]" using fp by blast
    ultimately show ?thesis using pair_pieces [OF st, of gap f d] unfolding w by blast
  qed simp
  then show "w \<in> set ws \<Longrightarrow> fst gap \<le> fst (fst w) \<and> fst (fst w) < snd (fst w) \<and> snd (fst w) \<le> snd gap"
    "hits d (map fst ws) \<le> (if day_in d gap then 1 else 0)" by blast+
qed

subsection \<open>The segments of a window\<close>

definition span_of :: "follow_up \<Rightarrow> interval" where
  "span_of f = (fu_start_exclusive f, fu_end_inclusive f)"

lemma segment_of_fields:
  assumes "segment_of uuid5 cusip9 security spell_id part status basis evidence ids known = Inr f"
  shows "span_of f = part" "fu_cusip9 f = cusip9" "fu_known_at f = known" "fu_status f = status" "fu_spell_id f = spell_id"
    "fu_basis f = basis" "fu_evidence_ids f = sorted_texts evidence"
  using assms by (auto simp: segment_of_def span_of_def Let_def split: sum.splits)

lemma cover_gap_hits:
  assumes "cover_gap uuid5 cusip9 security spell_id documented s receipt gap (out, issues) = Inr (out', issues')"
    and lt: "fst gap < snd gap"
  shows "hits d (map span_of out') = hits d (map span_of out) + (if day_in d gap then 1 else 0)"
proof -
  obtain ws blocked where sp: "surveillance_pieces gap cusip9 documented s receipt = (ws, blocked)" by fastforce
  obtain watched unknown where w: "mapE (\<lambda>(part, ids, known). segment_of uuid5 cusip9 security spell_id part
        ''nondefault_continuous'' ''surveillance_receipt'' ids [] known) ws = Inr watched"
      "mapE (\<lambda>rest. segment_of uuid5 cusip9 security spell_id rest ''unknown'' ''none'' [] [] (ao_k s))
        (subtract gap (map fst ws)) = Inr unknown" "out' = out @ watched @ unknown"
    using assms(1) by (auto simp: cover_gap_def sp bindE_Inr_iff)
  have "map span_of watched = map fst ws"
    by (rule mapE_images [OF w(1)]) (auto dest: segment_of_fields(1))
  moreover have "map span_of unknown = map id (subtract gap (map fst ws))"
    by (rule mapE_images [OF w(2)]) (auto dest: segment_of_fields(1))
  moreover have "hits d (subtract gap (map fst ws)) = (if day_in d gap \<and> hits d (map fst ws) = 0 then 1 else 0)"
    by (rule hits_subtract) (use surveillance_pieces_in_gap(1) [OF sp lt] in \<open>force intro: less_imp_le\<close>)
  moreover have "hits d (map fst ws) \<le> (if day_in d gap then 1 else 0)"
    by (rule surveillance_pieces_in_gap(2) [OF sp lt])
  ultimately show ?thesis by (simp add: w(3)) (auto split: if_splits)
qed

lemma cover_gaps_hits:
  "foldE (cover_gap uuid5 cusip9 security spell_id documented s receipt) gaps (out, issues) = Inr (out', issues') \<Longrightarrow>
   (\<And>gap. gap \<in> set gaps \<Longrightarrow> fst gap < snd gap) \<Longrightarrow>
   hits d (map span_of out') = hits d (map span_of out) + hits d gaps"
proof (induction gaps arbitrary: out issues)
  case (Cons gap gaps)
  obtain out1 issues1 where g: "cover_gap uuid5 cusip9 security spell_id documented s receipt gap (out, issues) = Inr (out1, issues1)"
    "foldE (cover_gap uuid5 cusip9 security spell_id documented s receipt) gaps (out1, issues1) = Inr (out', issues')"
    using Cons.prems(1) by (auto simp: bindE_Inr_iff)
  have "hits d (map span_of out') = hits d (map span_of out1) + hits d gaps"
    by (rule Cons.IH [OF g(2)]) (use Cons.prems(2) in simp)
  moreover have "hits d (map span_of out1) = hits d (map span_of out) + (if day_in d gap then 1 else 0)"
    by (rule cover_gap_hits [OF g(1)]) (use Cons.prems(2) in simp)
  ultimately show ?case by simp
qed simp

lemma cover_window_hits:
  assumes "cover_window uuid5 cusip9 security spell_id window supports s receipt = Inr (out, issues)"
    and lt: "fst window < snd window"
  shows "hits d (map span_of out) = (if day_in d window then 1 else 0)"
proof -
  obtain ps is1 out1 where p: "documentary_pieces window supports s cusip9 = Inr (ps, is1)"
    "mapE (\<lambda>(part, x). segment_of uuid5 cusip9 security spell_id part (sp_status x) (sp_basis x)
        (sp_observation_ids x) (sp_adjudication_ids x) (sp_known x)) ps = Inr out1"
    "foldE (cover_gap uuid5 cusip9 security spell_id ps s receipt) (subtract window (map fst ps)) (out1, is1) = Inr (out, issues)"
    using assms(1) by (auto simp: cover_window_def bindE_Inr_iff)
  note up = documentary_pieces_upto [OF p(1) lt]
  have "map span_of out1 = map fst ps"
    by (rule mapE_images [OF p(2)]) (auto dest: segment_of_fields(1))
  moreover have "hits d (map span_of out) = hits d (map span_of out1) + hits d (subtract window (map fst ps))"
    by (rule cover_gaps_hits [OF p(3)]) (rule subtract_parts(2) [OF _ lt])
  moreover have "hits d (subtract window (map fst ps)) = (if day_in d window \<and> hits d (map fst ps) = 0 then 1 else 0)"
    by (rule hits_subtract) (use up in \<open>force simp: pieces_upto_def intro: less_imp_le\<close>)
  moreover have "hits d (map fst ps) \<le> 1" using up by (simp add: pieces_upto_def)
  moreover have "day_in d window" if "hits d (map fst ps) \<noteq> 0"
    using that up unfolding hits_zero by (auto simp: pieces_upto_def day_in_def intro: less_le_trans le_less_trans)
  ultimately show ?thesis by auto
qed

subsection \<open>A window is always covered, by rows of the contract known at the cutoff\<close>

definition support_ok :: "as_of \<Rightarrow> support \<Rightarrow> bool" where
  "support_ok s x \<longleftrightarrow> sp_status x \<in> set DOCUMENT_STATUSES \<and> sp_basis x \<in> set DOCUMENT_BASES \<and>
     sp_observation_ids x \<noteq> [] \<and> sp_known x \<le> ao_k s \<and>
     (\<forall>i \<in> set (sp_observation_ids x). observation_problem s i = None)"

lemma sorted_texts_set [simp]: "set (sorted_texts xs) = set xs"
  by (simp add: sorted_texts_def)

lemma sorted_texts_empty [simp]: "sorted_texts xs = [] \<longleftrightarrow> xs = []"
  by (metis set_empty sorted_texts_set)

lemma fold_max_le: "fold max ts t \<le> k \<longleftrightarrow> t \<le> k \<and> (\<forall>u \<in> set ts. u \<le> k)" for k :: "'a::linorder"
  by (induction ts arbitrary: t) auto

text \<open>Validated documents are such supports.\<close>

lemma support_observations_nonempty:
  "support_observations s ev oids = Inr (Inr (ts, True)) \<Longrightarrow> oids \<noteq> []"
  by (cases oids) auto

lemma support_observations_usable:
  "support_observations s ev oids = Inr (Inr r) \<Longrightarrow> i \<in> set oids \<Longrightarrow> observation_problem s i = None"
proof (induction oids arbitrary: r)
  case (Cons oid oids)
  have usable: "observation_problem s oid = None"
    using Cons.prems(1) by (cases "observation_problem s oid") auto
  have "\<exists>r. support_observations s ev oids = Inr (Inr r)"
  proof (cases "co_cusip9 (the (dict_get (ao_obs s) oid))")
    case None
    obtain scope where "issuer_scope oid (ce_cusip9 ev) s = Inr scope"
      using Cons.prems(1) usable None by (auto simp: Let_def bindE_Inr_iff)
    then show ?thesis using Cons.prems(1) usable None
      by (cases scope) (auto simp: Let_def bindE_Inr_iff)
  qed (use Cons.prems(1) usable in \<open>auto simp: Let_def bindE_Inr_iff split: if_splits\<close>)
  then show ?case using Cons usable by auto
qed simp

lemma continuity_support_ok:
  assumes "continuity_support ev s episodes = Inr (issues, Inr x)"
  shows "support_ok s x" "sp_span x = (ce_start_exclusive ev, ce_end_inclusive ev)" "fst (sp_span x) < snd (sp_span x)"
proof -
  have h: "ce_status ev \<in> set DOCUMENT_STATUSES" "ce_basis ev \<in> set DOCUMENT_BASES" "ce_start_exclusive ev < ce_end_inclusive ev"
    using assms by (auto simp: continuity_support_def split: if_splits)
  obtain observed where o1: "support_observations s ev (ce_observation_ids ev) = Inr observed"
    using assms h by (cases "support_observations s ev (ce_observation_ids ev)") (auto simp: continuity_support_def)
  obtain ts documentary where o2: "observed = Inr (ts, documentary)"
    using assms h o1 by (cases observed) (auto simp: continuity_support_def)
  have doc: "documentary" using assms h o1 o2 by (cases documentary) (auto simp: continuity_support_def)
  obtain is1 decided where d1: "support_decisions s ev episodes (ce_adjudication_ids ev) = Inr (is1, decided)"
    using assms h o1 o2 doc by (cases "support_decisions s ev episodes (ce_adjudication_ids ev)") (auto simp: continuity_support_def)
  obtain us decisions where d2: "decided = Inr (us, decisions)"
    using assms h o1 o2 doc d1 by (cases decided) (auto simp: continuity_support_def)
  have x: "x = \<lparr> sp_span = (ce_start_exclusive ev, ce_end_inclusive ev), sp_status = ce_status ev,
      sp_basis = ce_basis ev, sp_observation_ids = sorted_texts (ce_observation_ids ev),
      sp_adjudication_ids = sorted_texts decisions, sp_known = fold max (tl (ts @ us)) (hd (ts @ us)) \<rparr>"
    "fold max (tl (ts @ us)) (hd (ts @ us)) \<le> ao_k s"
    using assms h o1 o2 doc d1 d2 by (auto simp: continuity_support_def Let_def split: if_splits)
  have "ce_observation_ids ev \<noteq> []"
    using support_observations_nonempty [of s ev "ce_observation_ids ev" ts] o1 o2 doc by simp
  moreover have "observation_problem s i = None" if "i \<in> set (ce_observation_ids ev)" for i
    using support_observations_usable [OF o1 [unfolded o2] that] .
  ultimately show "support_ok s x" "sp_span x = (ce_start_exclusive ev, ce_end_inclusive ev)" "fst (sp_span x) < snd (sp_span x)"
    using h x by (simp_all add: support_ok_def)
qed

lemma dispute_winner_status:
  assumes "dispute_winner covering s = Some w"
  shows "\<exists>x \<in> set covering. sp_status x = w"
proof -
  let ?ws = "remdups (concat (map (\<lambda>x. map (\<lambda>aid. sp_status x)
      (filter (\<lambda>aid. set (union_ids (map sp_observation_ids covering)) \<subseteq> set (ad_evidence_ids (the (dict_get (ao_adjs s) aid))))
         (sp_adjudication_ids x))) covering))"
  have "length ?ws = 1" "w = hd ?ws" using assms by (auto simp: dispute_winner_def Let_def split: if_splits)
  then have "w \<in> set ?ws" by (cases ?ws) auto
  then show ?thesis by auto
qed

lemma agreed_nonempty: "agreed covering s = Some chosen \<Longrightarrow> covering \<noteq> [] \<Longrightarrow> chosen \<noteq> [] \<and> set chosen \<subseteq> set covering"
  using dispute_winner_status [of covering s]
  by (auto simp: agreed_def filter_empty_conv split: if_splits)

lemma merge_supports_ok:
  assumes "covering \<noteq> []" "\<forall>x \<in> set covering. support_ok s x"
  shows "\<exists>m. merge_supports lo hi covering = Inr m \<and> support_ok s m"
proof -
  obtain x xs where c: "covering = x # xs" using assms(1) by (cases covering) auto
  have "sp_basis x \<in> set BASIS_ORDER" using assms(2) c by (auto simp: support_ok_def DOCUMENT_BASES_def BASIS_ORDER_def)
  then obtain b where b: "find (\<lambda>b. list_ex (\<lambda>x. sp_basis x = b) covering) BASIS_ORDER = Some b"
    using c by (cases "find (\<lambda>b. list_ex (\<lambda>x. sp_basis x = b) covering) BASIS_ORDER") (auto simp: find_None_iff)
  then have "b \<in> set BASIS_ORDER" by (auto simp: find_Some_iff in_set_conv_nth)
  then have "b \<in> set DOCUMENT_BASES" by (auto simp: BASIS_ORDER_def DOCUMENT_BASES_def)
  then show ?thesis using assms b c
    by (auto simp: merge_supports_def support_ok_def fold_max_le union_ids_def)
qed

lemma covering_of_subset: "set (covering_of lo hi (clip window supports)) \<subseteq> set supports"
  by (auto simp: covering_of_def clip_mem)

definition pieces_ok :: "as_of \<Rightarrow> piece list \<Rightarrow> bool" where
  "pieces_ok s out \<longleftrightarrow> (\<forall>p \<in> set out. support_ok s (snd p))"

lemma piece_step_ok:
  assumes "\<forall>x \<in> set supports. support_ok s x" "pieces_ok s out"
  shows "\<exists>out' issues'. piece_step (clip window supports) s cusip9 (lo, hi) (out, issues) = Inr (out', issues') \<and> pieces_ok s out'"
proof -
  let ?c = "covering_of lo hi (clip window supports)"
  show ?thesis
  proof (cases "?c = [] \<or> agreed ?c s = None")
    case False
    then obtain chosen where ch: "agreed ?c s = Some chosen" by auto
    then have "chosen \<noteq> []" "\<forall>x \<in> set chosen. support_ok s x"
      using agreed_nonempty [OF ch] False covering_of_subset assms(1) by blast+
    then obtain m where "merge_supports lo hi chosen = Inr m" "support_ok s m" using merge_supports_ok by blast
    then show ?thesis using False ch assms(2)
      by (auto simp: piece_step_def Let_def pieces_ok_def append_piece_def dest: in_set_butlastD)
  qed (use assms(2) in \<open>auto simp: piece_step_def Let_def\<close>)
qed

lemma documentary_pieces_ok:
  assumes "\<forall>x \<in> set supports. support_ok s x"
  shows "\<exists>ps issues. documentary_pieces window supports s cusip9 = Inr (ps, issues) \<and> pieces_ok s ps"
proof -
  have "\<exists>b. foldE (piece_step (clip window supports) s cusip9) cs ([], []) = Inr b \<and> pieces_ok s (fst b)" for cs
  proof (rule is_Inr_foldE)
    fix x :: "date \<times> date" and c :: "piece list \<times> string list"
    assume "pieces_ok s (fst c)"
    moreover obtain lo hi where "x = (lo, hi)" by (cases x)
    moreover obtain out issues where "c = (out, issues)" by (cases c)
    ultimately show "\<exists>d. piece_step (clip window supports) s cusip9 x c = Inr d \<and> pieces_ok s (fst d)"
      using piece_step_ok [OF assms, of out window cusip9 lo hi issues] by auto
  qed (simp add: pieces_ok_def)
  then show ?thesis by (auto simp: documentary_pieces_def Let_def)
qed

lemma segment_of_total:
  assumes "is_valid_cusip9 cusip9 = Inr True" "fst part < snd part"
    and "status \<in> set DOCUMENT_STATUSES \<and> basis \<in> insert ''surveillance_receipt'' (set DOCUMENT_BASES) \<and> evidence \<noteq> [] \<or>
      status = ''unknown'' \<and> basis = ''none''"
  shows "\<exists>f. segment_of uuid5 cusip9 security spell_id part status basis evidence ids known = Inr f"
  using assms(3)
proof (elim disjE conjE)
  assume "status \<in> set DOCUMENT_STATUSES" "basis \<in> insert ''surveillance_receipt'' (set DOCUMENT_BASES)" "evidence \<noteq> []"
  moreover from this have "status \<noteq> ''unknown''" "status \<in> set followup_statuses" "basis \<noteq> ''none''" "basis \<in> set completeness_bases"
    by (auto simp: DOCUMENT_STATUSES_def DOCUMENT_BASES_def followup_statuses_def completeness_bases_def)
  ultimately show ?thesis using assms(1,2)
    by (simp add: segment_of_def Let_def check_followup_def check_cusip_def check_enum_def followup_rules_def)
next
  assume "status = ''unknown''" "basis = ''none''"
  then show ?thesis using assms(1,2)
    by (simp add: segment_of_def Let_def check_followup_def check_cusip_def check_enum_def followup_rules_def
        followup_statuses_def completeness_bases_def)
qed

text \<open>Every boundary date has evidence, all of it usable.\<close>

definition usable_ids :: "as_of \<Rightarrow> uuid list \<Rightarrow> bool" where
  "usable_ids s ids \<longleftrightarrow> ids \<noteq> [] \<and> (\<forall>i \<in> set ids. observation_problem s i = None)"

definition values_ok :: "as_of \<Rightarrow> (date, uuid list) dict \<Rightarrow> bool" where
  "values_ok s m \<longleftrightarrow> (\<forall>ids \<in> snd ` set m. usable_ids s ids)"

lemma values_ok_get: "values_ok s m \<Longrightarrow> dict_get m d = Some ids \<Longrightarrow> usable_ids s ids"
  using dict_get_in [of m d ids] by (force simp: values_ok_def)

lemma values_ok_add:
  assumes "values_ok s m" "usable_ids s ids"
  shows "values_ok s (add_ids d ids m)"
proof -
  have "usable_ids s (dict_get_default m d [] @ ids)"
    using assms(2) values_ok_get [OF assms(1), of d]
    by (cases "dict_get m d") (auto simp: usable_ids_def dict_get_default_def)
  then show ?thesis
    using assms(1) set_dict_set_subset [of d "dict_get_default m d [] @ ids" m]
    by (auto simp: values_ok_def add_ids_def)
qed

lemma clean_dates_ok:
  assumes "\<forall>(d, x) \<in> set holdings. observation_problem s (co_id x) = None"
  shows "values_ok s (clean_dates holdings blocked)"
  unfolding clean_dates_def
  by (rule fold_invariant [where Q = "\<lambda>(d, x). observation_problem s (co_id x) = None"])
     (use assms in \<open>auto simp: values_ok_add usable_ids_def\<close>, simp add: values_ok_def)

lemma boundaries_ok:
  assumes "values_ok s clean" "pieces_ok s documented"
  shows "values_ok s (boundaries gap documented clean)"
  unfolding boundaries_def
  by (rule fold_invariant [where Q = "\<lambda>p. support_ok s (snd p)"])
     (use assms in \<open>auto simp: pieces_ok_def support_ok_def values_ok_add usable_ids_def\<close>)

lemma surveillance_pieces_evidence:
  assumes "surveillance_pieces gap cusip9 documented s receipt = (ws, issues)" "pieces_ok s documented"
    and "(part, ids, known) \<in> set ws"
  shows "usable_ids s ids" "known \<le> ao_k s"
proof -
  obtain r where r: "receipt = Some r" using assms(1,3) by (cases receipt) (auto simp: surveillance_pieces_def)
  define hs where "hs = holdings_in gap cusip9 s"
  define blocked where "blocked = remdups (map fst (filter (\<lambda>(d, x). blocking x) hs))"
  define b where "b = boundaries gap documented (clean_dates hs blocked)"
  have w: "ws = concat (map (surveillance_piece s r hs blocked b) (pairwise_of (sort (map fst b))))"
    using assms(1,3) r by (auto simp: surveillance_pieces_def Let_def hs_def blocked_def b_def split: if_splits)
  obtain lo hi where p: "(lo, hi) \<in> set (pairwise_of (sort (map fst b)))"
    "(part, ids, known) \<in> set (surveillance_piece s r hs blocked b (lo, hi))"
    using assms(3) w by auto
  have hs: "observation_problem s (co_id x) = None" if "(d, x) \<in> set hs" for d x
    using that unfolding hs_def by (simp add: holdings_in_dates)
  have "lo \<in> fst ` set b" "hi \<in> fst ` set b" using pairwise_of_mem [OF p(1)] by auto
  then obtain us vs where g: "dict_get b lo = Some us" "dict_get b hi = Some vs" by (meson dict_get_None_iff not_None_eq)
  have "values_ok s b" unfolding b_def
    by (rule boundaries_ok [OF clean_dates_ok assms(2)]) (use hs in blast)
  then have "usable_ids s us" "usable_ids s vs" using values_ok_get g by blast+
  then show "usable_ids s ids" "known \<le> ao_k s"
    using p(2) g hs by (auto simp: surveillance_piece_def Let_def usable_ids_def split: if_splits)
qed

lemma mapE_total: "(\<And>x. x \<in> set xs \<Longrightarrow> \<exists>y. f x = Inr y) \<Longrightarrow> \<exists>ys. mapE f xs = Inr ys"
  using is_Inr_mapE [of xs f] by (auto simp: is_Inr_def)

lemma mapE_prop: "mapE f xs = Inr ys \<Longrightarrow> y \<in> set ys \<Longrightarrow> (\<And>x z. x \<in> set xs \<Longrightarrow> f x = Inr z \<Longrightarrow> P z) \<Longrightarrow> P y"
  using mapE_Inr_mem by metis

definition row_ok :: "as_of \<Rightarrow> follow_up \<Rightarrow> bool" where
  "row_ok s f \<longleftrightarrow> fu_known_at f \<le> ao_k s \<and> (\<forall>i \<in> set (fu_evidence_ids f). observation_problem s i = None)"

definition rows_ok :: "as_of \<Rightarrow> string \<Rightarrow> follow_up list \<Rightarrow> bool" where
  "rows_ok s cusip9 out \<longleftrightarrow> (\<forall>f \<in> set out. row_ok s f \<and> fu_cusip9 f = cusip9)"

lemma segment_of_row_ok:
  assumes "segment_of uuid5 cusip9 security spell_id part status basis evidence ids known = Inr f"
    and "known \<le> ao_k s" "\<forall>i \<in> set evidence. observation_problem s i = None"
  shows "row_ok s f \<and> fu_cusip9 f = cusip9"
  using segment_of_fields(2,3,7) [OF assms(1)] assms(2,3) by (simp add: row_ok_def)

lemma segments_rows_ok:
  assumes "mapE (\<lambda>x. segment_of uuid5 cusip9 security spell_id (part x) (status x) (basis x) (evidence x) (ids x) (known x)) xs
      = Inr out"
    and "\<And>x. x \<in> set xs \<Longrightarrow> known x \<le> ao_k s \<and> (\<forall>i \<in> set (evidence x). observation_problem s i = None)"
  shows "rows_ok s cusip9 out"
  unfolding rows_ok_def
proof
  fix f assume "f \<in> set out"
  then show "row_ok s f \<and> fu_cusip9 f = cusip9"
    by (rule mapE_prop [OF assms(1)]) (use assms(2) segment_of_row_ok in blast)
qed

lemma rows_ok_append: "rows_ok s cusip9 (xs @ ys) \<longleftrightarrow> rows_ok s cusip9 xs \<and> rows_ok s cusip9 ys"
  by (auto simp: rows_ok_def)

lemma cover_gap_rows:
  assumes "cover_gap uuid5 cusip9 security spell_id documented s receipt gap c = Inr c'" "pieces_ok s documented"
    and "rows_ok s cusip9 (fst c)"
  shows "rows_ok s cusip9 (fst c')"
proof -
  obtain out issues where c: "c = (out, issues)" by fastforce
  obtain ws blocked where sp: "surveillance_pieces gap cusip9 documented s receipt = (ws, blocked)" by fastforce
  obtain watched unknown where w: "mapE (\<lambda>w. segment_of uuid5 cusip9 security spell_id (fst w)
        ''nondefault_continuous'' ''surveillance_receipt'' (fst (snd w)) [] (snd (snd w))) ws = Inr watched"
      "mapE (\<lambda>rest. segment_of uuid5 cusip9 security spell_id rest ''unknown'' ''none'' [] [] (ao_k s))
        (subtract gap (map fst ws)) = Inr unknown" "fst c' = out @ watched @ unknown"
    using assms(1) unfolding cover_gap_def c prod.case sp case_prod_unfold by (auto simp: bindE_Inr_iff)
  have "rows_ok s cusip9 watched"
    by (rule segments_rows_ok [OF w(1)])
       (use surveillance_pieces_evidence [OF sp assms(2)] in \<open>auto simp: usable_ids_def\<close>)
  moreover have "rows_ok s cusip9 unknown" by (rule segments_rows_ok [OF w(2)]) simp
  ultimately show ?thesis using assms(3) c w(3) by (simp add: rows_ok_append)
qed

lemma cover_window_rows:
  assumes "cover_window uuid5 cusip9 security spell_id window supports s receipt = Inr (out, issues)"
    and "\<forall>x \<in> set supports. support_ok s x"
  shows "rows_ok s cusip9 out"
proof -
  obtain ps is1 where p: "documentary_pieces window supports s cusip9 = Inr (ps, is1)" "pieces_ok s ps"
    using documentary_pieces_ok [OF assms(2)] by blast
  then obtain out1 where o1: "mapE (\<lambda>q. segment_of uuid5 cusip9 security spell_id (fst q) (sp_status (snd q)) (sp_basis (snd q))
        (sp_observation_ids (snd q)) (sp_adjudication_ids (snd q)) (sp_known (snd q))) ps = Inr out1"
    "foldE (cover_gap uuid5 cusip9 security spell_id ps s receipt) (subtract window (map fst ps)) (out1, is1) = Inr (out, issues)"
    using assms(1) unfolding cover_window_def p(1) bindE_simps prod.case case_prod_unfold by (auto simp: bindE_Inr_iff)
  have "rows_ok s cusip9 out1"
    by (rule segments_rows_ok [OF o1(1)]) (use p(2) in \<open>auto simp: pieces_ok_def support_ok_def\<close>)
  then have "rows_ok s cusip9 (fst (out1, is1))" by simp
  then have "rows_ok s cusip9 (fst (out, issues))"
    by (rule foldE_invariant [OF o1(2)]) (rule cover_gap_rows [OF _ p(2)])
  then show ?thesis by simp
qed

lemma cover_gap_total:
  assumes "is_valid_cusip9 cusip9 = Inr True" "fst gap < snd gap" "pieces_ok s documented"
  shows "\<exists>c'. cover_gap uuid5 cusip9 security spell_id documented s receipt gap c = Inr c'"
proof -
  obtain out issues where c: "c = (out, issues)" by fastforce
  obtain ws blocked where sp: "surveillance_pieces gap cusip9 documented s receipt = (ws, blocked)" by fastforce
  let ?f = "\<lambda>(part, ids, known). segment_of uuid5 cusip9 security spell_id part
        ''nondefault_continuous'' ''surveillance_receipt'' ids [] known"
  let ?g = "\<lambda>rest. segment_of uuid5 cusip9 security spell_id rest ''unknown'' ''none'' [] [] (ao_k s)"
  have "\<exists>watched. mapE ?f ws = Inr watched"
  proof (rule mapE_total)
    fix w assume w: "w \<in> set ws"
    obtain part ids known where e: "w = (part, ids, known)" by (cases w)
    show "\<exists>y. ?f w = Inr y"
      using surveillance_pieces_in_gap(1) [OF sp assms(2) w] surveillance_pieces_evidence(1) [OF sp assms(3), of part ids known] w e
      by (simp add: segment_of_total [OF assms(1)] DOCUMENT_STATUSES_def usable_ids_def)
  qed
  then obtain watched where w: "mapE ?f ws = Inr watched" ..
  have "\<exists>unknown. mapE ?g (subtract gap (map fst ws)) = Inr unknown"
    by (rule mapE_total) (simp add: segment_of_total [OF assms(1)] subtract_parts(2) [OF _ assms(2)])
  then obtain unknown where u: "mapE ?g (subtract gap (map fst ws)) = Inr unknown" ..
  have "cover_gap uuid5 cusip9 security spell_id documented s receipt gap c
      = Inr (out @ watched @ unknown, issues @ blocked)"
    unfolding cover_gap_def c prod.case sp w u bindE_simps by (rule refl)
  then show ?thesis by blast
qed

lemma cover_window_total:
  assumes "is_valid_cusip9 cusip9 = Inr True" "fst window < snd window" "\<forall>x \<in> set supports. support_ok s x"
  shows "\<exists>out issues. cover_window uuid5 cusip9 security spell_id window supports s receipt = Inr (out, issues)"
proof -
  obtain ps is1 where p: "documentary_pieces window supports s cusip9 = Inr (ps, is1)" "pieces_ok s ps"
    using documentary_pieces_ok [OF assms(3)] by blast
  note up = documentary_pieces_upto [OF p(1) assms(2)]
  let ?f = "\<lambda>(part, x). segment_of uuid5 cusip9 security spell_id part (sp_status x) (sp_basis x)
      (sp_observation_ids x) (sp_adjudication_ids x) (sp_known x)"
  have "\<exists>out1. mapE ?f ps = Inr out1"
  proof (rule mapE_total)
    fix q :: piece assume q: "q \<in> set ps"
    then have "fst (fst q) < snd (fst q)" "support_ok s (snd q)"
      using up p(2) by (auto simp: pieces_upto_def pieces_ok_def)
    then show "\<exists>y. ?f q = Inr y"
      by (cases q) (simp add: segment_of_total [OF assms(1)] support_ok_def)
  qed
  then obtain out1 where o1: "mapE ?f ps = Inr out1" ..
  have "\<exists>c. foldE (cover_gap uuid5 cusip9 security spell_id ps s receipt) (subtract window (map fst ps)) (out1, is1) = Inr c \<and> True"
    by (rule is_Inr_foldE) (use cover_gap_total [OF assms(1) subtract_parts(2) [OF _ assms(2)] p(2)] in blast)+
  then show ?thesis by (auto simp: cover_window_def p(1) o1)
qed

text \<open>
  A window is always covered, once. For validated documents and an issue with a valid
  CUSIP the follow-up of a nonempty window never raises; every calendar day of the window is
  in exactly one segment and no segment reaches outside, however the documents overlap,
  conflict or leave gaps and whatever is surveilled; and no segment is known after the cutoff.
\<close>

theorem cover_window_tiles:
  assumes "is_valid_cusip9 cusip9 = Inr True" "fst window < snd window" "\<forall>x \<in> set supports. support_ok s x"
  shows "\<exists>out issues. cover_window uuid5 cusip9 security spell_id window supports s receipt = Inr (out, issues) \<and>
    (\<forall>d. length (filter (\<lambda>f. fu_start_exclusive f < d \<and> d \<le> fu_end_inclusive f) out)
       = (if fst window < d \<and> d \<le> snd window then 1 else 0)) \<and>
    (\<forall>f \<in> set out. fu_known_at f \<le> ao_k s)"
proof -
  obtain out issues where c: "cover_window uuid5 cusip9 security spell_id window supports s receipt = Inr (out, issues)"
    using cover_window_total [OF assms] by blast
  then show ?thesis
    using cover_window_hits [OF c assms(2)] cover_window_rows [OF c assms(3)]
    by (auto simp: rows_ok_def row_ok_def hits_def span_of_def day_in_def filter_map comp_def)
qed

subsection \<open>The order of the documents does not matter\<close>

lemma sorted_texts_cong:
  assumes "set xs = set ys"
  shows "sorted_texts xs = sorted_texts ys"
proof -
  have st: "sorted_wrt text_le (sorted_texts zs)" for zs
    unfolding sorted_texts_def by (rule sorted_sort_by) (fact text_le_total, fact text_le_trans)
  show ?thesis
    by (rule sorted_wrt_unique [OF st st])
       (use assms text_le_antisym in \<open>simp_all add: sorted_texts_def\<close>)
qed

lemma union_ids_cong: "set xss = set yss \<Longrightarrow> union_ids xss = union_ids yss"
  unfolding union_ids_def by (rule sorted_texts_cong) simp

lemma length_remdups_cong: "set xs = set ys \<Longrightarrow> length (remdups xs) = length (remdups ys)"
  by (simp add: length_remdups_card_conv)

lemma dispute_winner_cong:
  assumes "set xs = set ys"
  shows "dispute_winner xs s = dispute_winner ys s"
proof -
  let ?every = "union_ids (map sp_observation_ids xs)"
  let ?votes = "\<lambda>x. map (\<lambda>aid. sp_status x)
      (filter (\<lambda>aid. set ?every \<subseteq> set (ad_evidence_ids (the (dict_get (ao_adjs s) aid)))) (sp_adjudication_ids x))"
  have every: "union_ids (map sp_observation_ids ys) = ?every" by (rule union_ids_cong) (simp add: assms)
  have votes: "set (concat (map ?votes xs)) = set (concat (map ?votes ys))" using assms by auto
  have ex_of_one: "\<exists>w. w \<in> set us" if "length (remdups us) = 1" for us :: "string list"
    using that by (cases us) auto
  have only: "remdups us = [w]" if "length (remdups us) = 1" "w \<in> set us" for us and w :: string
  proof -
    obtain v where v: "remdups us = [v]" using \<open>length (remdups us) = 1\<close> by (auto simp: length_Suc_conv)
    then have "set us = {v}" using set_remdups [of us] by simp
    then show ?thesis using v \<open>w \<in> set us\<close> by simp
  qed
  have "(if length (remdups (concat (map ?votes xs))) = 1 then Some (hd (remdups (concat (map ?votes xs)))) else None)
      = (if length (remdups (concat (map ?votes ys))) = 1 then Some (hd (remdups (concat (map ?votes ys)))) else None)"
  proof (cases "length (remdups (concat (map ?votes xs))) = 1")
    case True
    then obtain w where w: "w \<in> set (concat (map ?votes xs))"
      using ex_of_one by blast
    have w': "w \<in> set (concat (map ?votes ys))" using w unfolding votes .
    have True': "length (remdups (concat (map ?votes ys))) = 1"
      using True unfolding length_remdups_cong [OF votes] .
    show ?thesis unfolding only [OF True w] only [OF True' w'] by (rule refl)
  next
    case False
    then show ?thesis using length_remdups_cong [OF votes] by simp
  qed
  then show ?thesis by (simp only: dispute_winner_def Let_def every)
qed

text \<open>The chosen supports have one status and depend on the set of documents only.\<close>

lemma agreed_cong:
  assumes "set xs = set ys"
  shows "map_option set (agreed xs s) = map_option set (agreed ys s)"
proof -
  have "length (remdups (map sp_status xs)) = length (remdups (map sp_status ys))"
    by (rule length_remdups_cong) (simp add: assms)
  then show ?thesis using assms dispute_winner_cong [OF assms, of s]
    by (cases "dispute_winner ys s") (simp_all add: agreed_def)
qed

lemma agreed_one_status:
  assumes "agreed xs s = Some chosen" "x \<in> set chosen" "y \<in> set chosen"
  shows "sp_status x = sp_status y"
proof (cases "length (remdups (map sp_status xs)) > 1")
  case True
  then show ?thesis using assms by (auto simp: agreed_def)
next
  case False
  then have card: "card (set (map sp_status xs)) \<le> Suc 0"
    by (simp only: length_remdups_card_conv not_less One_nat_def)
  have chosen: "chosen = xs" using assms(1) False by (simp only: agreed_def if_False option.inject)
  have "sp_status x \<in> set (map sp_status xs)" "sp_status y \<in> set (map sp_status xs)"
    using assms(2,3) by (simp_all add: chosen)
  then show ?thesis using iffD1 [OF card_le_Suc0_iff_eq [OF finite_set] card] by blast
qed

lemma fold_max_tl: "xs \<noteq> [] \<Longrightarrow> fold max (map f (tl xs)) (f (hd xs)) = Max (f ` set xs)" for f :: "'a \<Rightarrow> 'b::linorder"
proof (cases xs)
  case (Cons y ys)
  have "fold max (map f ys) (f y) = Max (insert (f y) (f ` set ys))"
    using Max.set_eq_fold [of "f y" "map f ys"] by simp
  then show ?thesis by (simp add: Cons)
qed simp

lemma merge_supports_cong:
  assumes "set xs = set ys" "xs \<noteq> []" "\<And>x y. x \<in> set xs \<Longrightarrow> y \<in> set xs \<Longrightarrow> sp_status x = sp_status y"
  shows "merge_supports lo hi xs = merge_supports lo hi ys"
proof -
  have ne: "ys \<noteq> []" using assms(1,2) by auto
  have "list_ex P xs = list_ex P ys" for P using assms(1) by (simp add: list_ex_iff)
  moreover have "sp_status (hd xs) = sp_status (hd ys)"
    using assms(3) [OF hd_in_set [OF assms(2)], of "hd ys"] hd_in_set [OF ne] unfolding assms(1) by blast
  moreover have "union_ids (map sp_observation_ids xs) = union_ids (map sp_observation_ids ys)"
    "union_ids (map sp_adjudication_ids xs) = union_ids (map sp_adjudication_ids ys)"
    using assms(1) by (auto intro!: union_ids_cong)
  ultimately show ?thesis
    using fold_max_tl [OF assms(2), of sp_known] fold_max_tl [OF ne, of sp_known] assms(1)
    by (simp add: merge_supports_def split: option.split)
qed

lemma piece_step_cong:
  assumes "set xs = set ys"
  shows "piece_step xs s cusip9 = piece_step ys s cusip9"
proof (intro ext)
  fix part :: "date \<times> date" and c :: "piece list \<times> string list"
  obtain lo hi where part: "part = (lo, hi)" by (cases part)
  obtain out issues where c: "c = (out, issues)" by (cases c)
  have sets: "set (covering_of lo hi xs) = set (covering_of lo hi ys)" using assms by (simp add: covering_of_def)
  then have empty: "covering_of lo hi xs = [] \<longleftrightarrow> covering_of lo hi ys = []" by (metis set_empty)
  show "piece_step xs s cusip9 part c = piece_step ys s cusip9 part c"
  proof (cases "covering_of lo hi xs = [] \<or> agreed (covering_of lo hi xs) s = None")
    case True
    then show ?thesis using empty agreed_cong [OF sets, of s]
      by (auto simp: piece_step_def part c Let_def split: option.splits)
  next
    case False
    then obtain chosen where x: "agreed (covering_of lo hi xs) s = Some chosen" by auto
    then obtain chosen' where y: "agreed (covering_of lo hi ys) s = Some chosen'" "set chosen = set chosen'"
      using agreed_cong [OF sets, of s] by (cases "agreed (covering_of lo hi ys) s") auto
    have "chosen \<noteq> []" using agreed_nonempty [OF x] False by blast
    then have "merge_supports lo hi chosen = merge_supports lo hi chosen'"
      by (rule merge_supports_cong [OF y(2)]) (rule agreed_one_status [OF x])
    then show ?thesis using False empty x y(1) by (simp add: piece_step_def part c Let_def)
  qed
qed

text \<open>
  C23: the merge of the documents is canonical. Whatever the order of the continuity evidence
  and however often a document is repeated, the pieces, their merged dependencies and the
  disputes reported are the same.
\<close>

theorem documentary_pieces_order_independent:
  assumes "set supports = set supports'"
  shows "documentary_pieces window supports s cusip9 = documentary_pieces window supports' s cusip9"
proof -
  have clips: "set (clip window supports) = set (clip window supports')"
    using assms by (auto simp: clip_mem)
  then have "set (cut_points window (clip window supports)) = set (cut_points window (clip window supports'))"
    by (simp add: set_cut_points)
  moreover have "sorted_wrt (<) (cut_points window clipped)" for clipped
    by (simp only: cut_points_def sorted_remdups_strict)
  ultimately have "cut_points window (clip window supports) = cut_points window (clip window supports')"
    by (metis strict_sorted_equal)
  then show ?thesis using piece_step_cong [OF clips] by (simp add: documentary_pieces_def Let_def)
qed

subsection \<open>A followed issue\<close>

text \<open>
  The issuer document of the links' example, read as nondefault until February and, for five
  days, as repaid by a second document; a clean holding in March and a receipt over the year.
\<close>

definition watched_holding :: credit_observation where
  "watched_holding = \<lparr> co_id = ''holding'', co_kind = ''nport_holding'', co_cusip9 = Some ''037833100'',
     co_public_available_at = 9, co_first_seen_at = 9, co_revision_kind = ''original'', co_supersedes = None,
     co_report_date = Some (Date 2020 3 31), co_is_default = Some ''N'', co_arrears = None, co_presence = [] \<rparr>"

definition watched_evidence :: continuity_evidence where
  "watched_evidence = \<lparr> ce_cusip9 = ''037833100'', ce_start_exclusive = Date 2020 1 15, ce_end_inclusive = Date 2020 2 20,
     ce_status = ''nondefault_continuous'', ce_basis = ''continuous_document'', ce_observation_ids = [''doc''],
     ce_adjudication_ids = [] \<rparr>"

definition watched_support :: "uuid \<Rightarrow> interval \<Rightarrow> string \<Rightarrow> datetime \<Rightarrow> support" where
  "watched_support i part status t = \<lparr> sp_span = part, sp_status = status, sp_basis = ''continuous_document'',
     sp_observation_ids = [i], sp_adjudication_ids = [], sp_known = t \<rparr>"

definition watched_supports :: "support list" where
  "watched_supports =
     [watched_support ''doc'' (Date 2020 1 15, Date 2020 2 20) ''nondefault_continuous'' 15,
      watched_support ''note'' (Date 2020 2 10, Date 2020 2 15) ''repaid'' 11]"

definition watch_receipt :: validation_receipt where
  "watch_receipt = \<lparr> vr_verdict = ''qualified'', vr_issued_at = 12,
     vr_start = Some (Date 2020 1 1), vr_end = Some (Date 2020 12 31) \<rparr>"

definition watched_as_of :: as_of where
  "watched_as_of = projr (build_as_of 100 ''current_run''
     [demo_observation ''doc'' 10 None, demo_observation ''note'' 11 None, watched_holding] [] [])"

text \<open>The links that the link resolver emits for the document, and the follow-up built on them.\<close>

definition watch_link :: "string \<Rightarrow> string \<Rightarrow> uuid option \<Rightarrow> event_link" where
  "watch_link status rationale parent = \<lparr> el_package_id = ''pkg'', el_observation_id = ''doc'', el_security_id = ''sec'',
     el_cusip9 = ''037833100'', el_obligor_id = ''obligor'', el_affected_scope = ''issuer_affected_obligation'',
     el_valid_from = Date 2020 1 1, el_valid_to = None, el_known_at = 15, el_refs = [''indenture''],
     el_refs_digest = ''indenture'', el_status = status, el_rationale = rationale, el_supersedes = parent,
     el_id = ''link-'' @ status \<rparr>"

definition watch_links :: "event_link list" where
  "watch_links = [watch_link ''admitted'' ''adjudicated_issue_scope:a1'' (Some ''link-quarantined''),
     watch_link ''quarantined'' ''awaiting_adjudicated_scope:default notice'' None]"

lemma watch_links_emitted: "map_sum id lr_links (demo_resolve demo_inventory) = Inr watch_links"
  by code_simp

definition watched_state :: as_of where
  "watched_state = projr (build_as_of 100 ''current_run'' (demo_documents @ [watched_holding]) watch_links demo_inventory)"

lemma watched_steps:
  "map_sum id ao_k (build_as_of 100 ''current_run'' (demo_documents @ [watched_holding]) watch_links demo_inventory) = Inr 100"
  "continuity_support watched_evidence watched_state []
    = Inr ([], Inr (watched_support ''doc'' (Date 2020 1 15, Date 2020 2 20) ''nondefault_continuous'' 15))"
  "map_sum id (map_prod (map (\<lambda>(part, x). (part, sp_known x))) id)
      (documentary_pieces (Date 2020 1 31, Date 2020 3 31)
        [watched_support ''doc'' (Date 2020 1 15, Date 2020 2 20) ''nondefault_continuous'' 15] watched_state ''037833100'')
    = Inr ([((Date 2020 1 31, Date 2020 2 20), 15)], [])"
  "surveillance_pieces (Date 2020 2 20, Date 2020 3 31) ''037833100''
      [((Date 2020 1 31, Date 2020 2 20), watched_support ''doc'' (Date 2020 1 31, Date 2020 2 20) ''nondefault_continuous'' 15)]
      watched_state (Some watch_receipt)
    = ([((Date 2020 2 20, Date 2020 3 31), [''doc'', ''holding''], 12)], [])"
  by code_simp+

theorem cover_window_tiles_witness:
  "\<exists>out issues. cover_window concat ''037833100'' ''sec'' ''spell'' (Date 2020 1 31, Date 2020 3 31)
      watched_supports watched_as_of (Some watch_receipt) = Inr (out, issues) \<and>
    length (filter (\<lambda>f. fu_start_exclusive f < Date 2020 2 12 \<and> Date 2020 2 12 \<le> fu_end_inclusive f) out) = 1"
proof -
  have ok: "is_valid_cusip9 ''037833100'' = Inr True"
    "fst (Date 2020 1 31, Date 2020 3 31) < snd (Date 2020 1 31, Date 2020 3 31)"
    "\<forall>x \<in> set watched_supports. support_ok watched_as_of x"
    "fst (Date 2020 1 31, Date 2020 3 31) < Date 2020 2 12" "Date 2020 2 12 \<le> snd (Date 2020 1 31, Date 2020 3 31)"
    by code_simp+
  obtain out issues where c: "cover_window concat ''037833100'' ''sec'' ''spell'' (Date 2020 1 31, Date 2020 3 31)
      watched_supports watched_as_of (Some watch_receipt) = Inr (out, issues)"
    and n: "\<forall>d. length (filter (\<lambda>f. fu_start_exclusive f < d \<and> d \<le> fu_end_inclusive f) out)
       = (if fst (Date 2020 1 31, Date 2020 3 31) < d \<and> d \<le> snd (Date 2020 1 31, Date 2020 3 31) then 1 else 0)"
    using cover_window_tiles [OF ok(1,2,3), of concat "''sec''" "''spell''" "Some watch_receipt"] by blast
  have "length (filter (\<lambda>f. fu_start_exclusive f < Date 2020 2 12 \<and> Date 2020 2 12 \<le> fu_end_inclusive f) out) = 1"
    unfolding n [rule_format] using ok(4,5) by (simp only: if_True simp_thms)
  with c show ?thesis by blast
qed

theorem documentary_pieces_order_independent_witness:
  "documentary_pieces (Date 2020 1 31, Date 2020 3 31) watched_supports watched_as_of ''037833100''
    = documentary_pieces (Date 2020 1 31, Date 2020 3 31) (rev watched_supports @ watched_supports) watched_as_of ''037833100'' \<and>
   map_sum id snd (documentary_pieces (Date 2020 1 31, Date 2020 3 31) watched_supports watched_as_of ''037833100'')
     = Inr [''continuity_status_dispute:037833100:2020-02-10:2020-02-15'']"
proof
  show "documentary_pieces (Date 2020 1 31, Date 2020 3 31) watched_supports watched_as_of ''037833100''
    = documentary_pieces (Date 2020 1 31, Date 2020 3 31) (rev watched_supports @ watched_supports) watched_as_of ''037833100''"
    by (rule documentary_pieces_order_independent) simp
  show "map_sum id snd (documentary_pieces (Date 2020 1 31, Date 2020 3 31) watched_supports watched_as_of ''037833100'')
     = Inr [''continuity_status_dispute:037833100:2020-02-10:2020-02-15'']"
    by code_simp
qed


end
