(* ===== verification/Followup_Panel.thy ===== *)
theory Followup_Panel
  imports Followup_Tiling
begin

text \<open>
  The follow-up of a whole panel (\<open>Followup\<close>, \<open>build_followup\<close>): a row of the grid exposes its
  issue to the calendar month after it, runs of rows expose the months in between, and the
  segments of an issue follow each exposed day outside a default exactly once.
\<close>

subsection \<open>Months by number\<close>

definition month_index :: "date \<Rightarrow> int" where
  "month_index d = year d * 12 + month d - 1"

lemma month_index_mono: "valid_date d \<Longrightarrow> valid_date e \<Longrightarrow> d \<le> e \<Longrightarrow> month_index d \<le> month_index e"
  by (auto simp: month_index_def less_eq_date_def valid_date_def)

lemma month_index_key [simp]: "month_index (month_key d) = month_index d"
  by (simp add: month_index_def month_key_def)

lemma day_month_key [simp]: "day (month_key d) = 1"
  by (simp add: month_key_def)

lemma first_days:
  assumes "valid_date d" "valid_date e" "day d = 1" "day e = 1"
  shows "d < e \<longleftrightarrow> month_index d < month_index e" and "d = e \<longleftrightarrow> month_index d = month_index e"
proof -
  have less: "x < y \<longleftrightarrow> month_index x < month_index y"
    if "valid_date x" "valid_date y" "day x = 1" "day y = 1" for x y
    using that unfolding month_index_def less_date_def valid_date_def by presburger
  show "d < e \<longleftrightarrow> month_index d < month_index e" by (rule less [OF assms])
  show "d = e \<longleftrightarrow> month_index d = month_index e"
    using less [OF assms] less [OF assms(2,1,4,3)] by (metis less_irrefl linorder_less_linear)
qed

lemma before_first_day:
  assumes "valid_date d" "valid_date n" "day n = 1"
  shows "d < n \<longleftrightarrow> month_index d < month_index n"
  using assms unfolding month_index_def less_date_def valid_date_def by presburger

lemma add_months_index:
  assumes "add_months m k = Inr n"
  shows "month_index n = month_index m + k" "valid_date n" "day n = 1"
  using assms add_months_valid [OF assms]
  by (auto simp: add_months_def mk_date_def month_index_def Let_def split: if_splits option.splits)

text \<open>A day is by the end of a month when its month is not later.\<close>

lemma month_end_le:
  assumes "month_end m = Inr e"
  shows "valid_date e" and "valid_date d \<Longrightarrow> d \<le> e \<longleftrightarrow> month_index d \<le> month_index m"
proof -
  obtain n where n: "add_months (month_key m) 1 = Inr n" "e = add_days n (-1)"
    using assms by (auto simp: month_end_def bindE_Inr_iff)
  note i = add_months_index [OF n(1)]
  show "valid_date e" by (simp add: n(2))
  show "d \<le> e \<longleftrightarrow> month_index d \<le> month_index m" if d: "valid_date d"
  proof -
    have "d \<le> e \<longleftrightarrow> toordinal d \<le> toordinal n - 1"
      using date_le_iff [OF d, of e] by (simp add: n(2))
    also have "\<dots> \<longleftrightarrow> d < n" using date_less_iff [OF d i(2)] by linarith
    also have "\<dots> \<longleftrightarrow> month_index d < month_index n" by (rule before_first_day [OF d i(2,3)])
    finally show ?thesis using i(1) by simp
  qed
qed

lemma month_end_index:
  assumes "month_end m = Inr e" "valid_date m"
  shows "month_index e = month_index m"
proof (rule antisym)
  show "month_index e \<le> month_index m" using month_end_le [OF assms(1)] by blast
  have "month_key m \<le> e" using month_end_le(2) [OF assms(1), of "month_key m"] assms(2) by simp
  then show "month_index m \<le> month_index e"
    using month_index_mono [of "month_key m" e] month_end_le(1) [OF assms(1)] assms(2) by simp
qed

lemma month_end_less:
  assumes "month_end m = Inr e" "valid_date d"
  shows "e < d \<longleftrightarrow> month_index m < month_index d"
  using month_end_le(2) [OF assms] by (auto simp: not_le [symmetric])

text \<open>The interval of a grid row is the month after it.\<close>

lemma outcome_interval_days:
  assumes "outcome_interval m target_month = Inr r" "valid_date m" "valid_date target_month"
  shows "r = None \<longleftrightarrow> month_index target_month \<le> month_index m"
    and "r = Some w \<Longrightarrow> valid_date d \<Longrightarrow> day_in d w \<longleftrightarrow> month_index d = month_index m + 1"
proof -
  have le: "month_key m \<ge> month_key target_month \<longleftrightarrow> month_index target_month \<le> month_index m"
    using first_days(1) [of "month_key m" "month_key target_month"] assms(2,3) by (simp add: not_less [symmetric])
  show "r = None \<longleftrightarrow> month_index target_month \<le> month_index m"
    using assms(1) le by (auto simp: outcome_interval_def bindE_Inr_iff split: if_splits)
  assume w: "r = Some w" and d: "valid_date d"
  obtain s n e where p: "month_end (month_key m) = Inr s" "add_months (month_key m) 1 = Inr n" "month_end n = Inr e" "w = (s, e)"
    using assms(1) w by (auto simp: outcome_interval_def bindE_Inr_iff split: if_splits)
  have "month_index n = month_index m + 1" using add_months_index(1) [OF p(2)] by simp
  then show "day_in d w \<longleftrightarrow> month_index d = month_index m + 1"
    using month_end_less [OF p(1) d] month_end_le(2) [OF p(3) d] by (auto simp: day_in_def p(4))
qed

subsection \<open>Runs of months\<close>

definition consecutive :: "date list \<Rightarrow> bool" where
  "consecutive run \<longleftrightarrow> run \<noteq> [] \<and> map month_index run = [month_index (hd run)..month_index (last run)]"

definition firsts :: "date list \<Rightarrow> bool" where
  "firsts ms \<longleftrightarrow> (\<forall>m \<in> set ms. valid_date m \<and> day m = 1)"

lemma consecutive_snoc:
  assumes "consecutive run" "month_index m = month_index (last run) + 1"
  shows "consecutive (run @ [m])"
proof -
  have "last run \<in> set run" using assms(1) by (simp add: consecutive_def)
  then have "month_index (last run) \<in> set [month_index (hd run)..month_index (last run)]"
    using assms(1) by (metis consecutive_def image_eqI set_map)
  then have "month_index (hd run) \<le> month_index (last run) + 1" by simp
  then have "[month_index (hd run)..month_index (last run) + 1]
      = [month_index (hd run)..month_index (last run)] @ [month_index (last run) + 1]"
    using upto_rec2 by simp
  then show ?thesis using assms by (simp add: consecutive_def)
qed

lemma runs_loop_runs:
  "runs_loop ms acc = Inr rs \<Longrightarrow> \<forall>run \<in> set acc. consecutive run \<Longrightarrow> firsts (ms @ concat acc) \<Longrightarrow>
   concat rs = concat acc @ ms \<and> (\<forall>run \<in> set rs. consecutive run)"
proof (induction ms arbitrary: acc)
  case (Cons m ms)
  have one: "consecutive [m]" by (simp add: consecutive_def)
  have ext: "concat rs = concat acc @ m # ms \<and> (\<forall>run \<in> set rs. consecutive run)"
    if "runs_loop ms acc' = Inr rs" "\<forall>run \<in> set acc'. consecutive run" "concat acc' = concat acc @ [m]" for acc'
  proof -
    have "firsts (ms @ concat acc')" using Cons.prems(3) that(3) by (simp add: firsts_def)
    from Cons.IH [OF that(1,2) this] show ?thesis by (simp add: that(3))
  qed
  show ?case
  proof (cases acc rule: rev_cases)
    case Nil
    then show ?thesis using ext [of "[[m]]"] Cons.prems(1) one by simp
  next
    case (snoc acc' run)
    obtain n where n: "add_months (last run) 1 = Inr n" using Cons.prems(1) snoc by (auto simp: bindE_Inr_iff)
    show ?thesis
    proof (cases "n = m")
      case True
      have "consecutive (run @ [m])"
        by (rule consecutive_snoc) (use Cons.prems(2) snoc add_months_index(1) [OF n] True in simp_all)
      then show ?thesis using ext [of "acc' @ [run @ [m]]"] Cons.prems(1,2) n True by (simp add: snoc)
    next
      case False
      then show ?thesis using ext [of "acc @ [[m]]"] Cons.prems(1,2) n one by (simp add: snoc)
    qed
  qed
qed simp

lemma runs_runs:
  assumes "runs months = Inr rs" "firsts months"
  shows "concat rs = sort (remdups months)" "run \<in> set rs \<Longrightarrow> consecutive run"
  using runs_loop_runs [of "sort (remdups months)" "[]" rs] assms by (auto simp: runs_def firsts_def)

text \<open>How many of the months the day exposes.\<close>

definition exposing :: "date \<Rightarrow> date list \<Rightarrow> nat" where
  "exposing d ms = length (filter (\<lambda>m. month_index d = month_index m + 1) ms)"

lemma exposing_concat: "exposing d (concat mss) = sum_list (map (exposing d) mss)"
  by (induction mss) (simp_all add: exposing_def)

lemma exposing_indices:
  assumes "distinct (map month_index ms)"
  shows "exposing d ms = (if month_index d - 1 \<in> month_index ` set ms then 1 else 0)"
proof -
  have one: "length (filter (\<lambda>i. k = i + 1) xs) = (if k - 1 \<in> set xs then 1 else 0)" if "distinct xs" for k and xs :: "int list"
    using that by (induction xs) auto
  have "exposing d ms = length (filter (\<lambda>i. month_index d = i + 1) (map month_index ms))"
    by (simp add: exposing_def filter_map comp_def)
  then show ?thesis unfolding one [OF assms] by simp
qed

lemma exposing_distinct:
  assumes "distinct ms" "firsts ms"
  shows "exposing d ms = (if month_index d - 1 \<in> month_index ` set ms then 1 else 0)"
proof (rule exposing_indices)
  have "x = y" if "x \<in> set ms" "y \<in> set ms" "month_index x = month_index y" for x y
    using that first_days(2) [of x y] assms(2) by (simp add: firsts_def)
  then show "distinct (map month_index ms)" using assms(1) by (simp add: distinct_map inj_onI)
qed

lemma exposing_run:
  assumes "consecutive run"
  shows "exposing d run
    = (if month_index (hd run) < month_index d \<and> month_index d \<le> month_index (last run) + 1 then 1 else 0)"
proof -
  have m: "map month_index run = [month_index (hd run)..month_index (last run)]" using assms by (simp add: consecutive_def)
  have "month_index ` set run = set (map month_index run)" by simp
  also have "\<dots> = {month_index (hd run)..month_index (last run)}" by (simp only: m set_upto)
  finally have "month_index ` set run = {month_index (hd run)..month_index (last run)}" .
  moreover have "distinct (map month_index run)" by (simp only: m distinct_upto)
  ultimately show ?thesis by (simp add: exposing_indices)
qed

subsection \<open>The segments of an issue\<close>

definition seg_hits :: "string \<Rightarrow> date \<Rightarrow> follow_up list \<Rightarrow> nat" where
  "seg_hits c d fs = length (filter (\<lambda>f. fu_cusip9 f = c \<and> day_in d (span_of f)) fs)"

lemma seg_hits_simps [simp]:
  "seg_hits c d [] = 0"
  "seg_hits c d (f # fs) = (if fu_cusip9 f = c \<and> day_in d (span_of f) then 1 else 0) + seg_hits c d fs"
  "seg_hits c d (xs @ ys) = seg_hits c d xs + seg_hits c d ys"
  by (simp_all add: seg_hits_def)

lemma seg_hits_sort_by [simp]: "seg_hits c d (sort_by le fs) = seg_hits c d fs"
proof -
  have "seg_hits c d (insort_by le x xs) = seg_hits c d (x # xs)" for x xs
    by (induction xs) auto
  then show ?thesis by (induction fs) (simp_all add: sort_by_def)
qed

lemma seg_hits_rows: "rows_ok s cusip9 fs \<Longrightarrow> seg_hits c d fs = (if cusip9 = c then hits d (map span_of fs) else 0)"
  by (induction fs) (auto simp: rows_ok_def)

text \<open>A measure that each step of a loop raises by a known amount.\<close>

lemma foldE_sum:
  fixes g :: "'a \<Rightarrow> nat"
  assumes "foldE f xs a = Inr b" "P a"
    and "\<And>x c c'. x \<in> set xs \<Longrightarrow> P c \<Longrightarrow> f x c = Inr c' \<Longrightarrow> P c' \<and> g c' = g c + h x"
  shows "P b \<and> g b = g a + sum_list (map h xs)"
  using assms
proof (induction xs arbitrary: a)
  case (Cons x xs)
  obtain c where c: "f x a = Inr c" "foldE f xs c = Inr b" using Cons.prems(1) by (auto simp: bindE_Inr_iff)
  have step: "P c \<and> g c = g a + h x" using Cons.prems(2,3) c(1) by auto
  then have "P b \<and> g b = g c + sum_list (map h xs)" using Cons.IH [OF c(2)] Cons.prems(3) by auto
  then show ?case using step by simp
qed simp

definition in_hole :: "followup_input \<Rightarrow> string \<Rightarrow> date \<Rightarrow> bool" where
  "in_hole inp cusip9 d \<longleftrightarrow> (\<exists>e \<in> set (fi_episodes inp). de_cusip9 e = cusip9 \<and> day_in d (default_hole e))"

definition holes_ok :: "followup_input \<Rightarrow> bool" where
  "holes_ok inp \<longleftrightarrow> (\<forall>e \<in> set (fi_episodes inp). fst (default_hole e) \<le> snd (default_hole e))"

definition state_ok :: "as_of \<Rightarrow> followup_state \<Rightarrow> bool" where
  "state_ok s st \<longleftrightarrow> (\<forall>f \<in> set (fs_followups st). row_ok s f)"

lemma cover_windows_hits:
  assumes "mapE (\<lambda>w. cover_window uuid5 cusip9 security spell_id w supports s receipt) ws = Inr parts"
    and "\<forall>x \<in> set supports. support_ok s x" "\<forall>w \<in> set ws. fst w < snd w"
  shows "seg_hits c d (concat (map fst parts)) = (if cusip9 = c then hits d ws else 0)"
    and "rows_ok s cusip9 (concat (map fst parts))"
proof -
  have "seg_hits c d (concat (map fst parts)) = (if cusip9 = c then hits d ws else 0) \<and>
    rows_ok s cusip9 (concat (map fst parts))"
    using assms(1,3)
  proof (induction ws arbitrary: parts)
    case (Cons w ws)
    obtain out issues ps where p: "cover_window uuid5 cusip9 security spell_id w supports s receipt = Inr (out, issues)"
      "mapE (\<lambda>w. cover_window uuid5 cusip9 security spell_id w supports s receipt) ws = Inr ps" "parts = (out, issues) # ps"
      using Cons.prems(1) by (auto simp: bindE_Inr_iff)
    have "rows_ok s cusip9 out" by (rule cover_window_rows [OF p(1) assms(2)])
    moreover from this have "seg_hits c d out = (if cusip9 = c then if day_in d w then 1 else 0 else 0)"
      using cover_window_hits [OF p(1), of d] Cons.prems(2) by (simp add: seg_hits_rows)
    ultimately show ?case using Cons.IH [OF p(2)] Cons.prems(2) p(3) by (simp add: rows_ok_append)
  qed (simp add: rows_ok_def)
  then show "seg_hits c d (concat (map fst parts)) = (if cusip9 = c then hits d ws else 0)"
    "rows_ok s cusip9 (concat (map fst parts))" by blast+
qed

lemma cover_run_hits:
  assumes step: "cover_run uuid5 inp s cusip9 security supports (run, last_run) st = Inr st'"
    and run: "consecutive run" "firsts run" "month_index (last run) < month_index (fi_target_month inp)"
    and ok: "holes_ok inp" "\<forall>x \<in> set supports. support_ok s x" "valid_date (fi_target_month inp)" "valid_date d"
    and st: "state_ok s st"
  shows "state_ok s st' \<and> seg_hits c d (fs_followups st') = seg_hits c d (fs_followups st) +
    (if cusip9 = c \<and> dict_get (fi_aliases inp) cusip9 = None \<and> \<not> in_hole inp cusip9 d then exposing d run else 0)"
proof (cases "dict_get (fi_aliases inp) cusip9")
  case (Some other)
  then show ?thesis using step st by (auto simp: cover_run_def Let_def bindE_Inr_iff state_ok_def)
next
  case None
  define holes where "holes = map default_hole (filter (\<lambda>e. de_cusip9 e = cusip9) (fi_episodes inp))"
  let ?spell = "uuid5 [''bond_default_followup_spell'', cusip9, isoformat (hd run)]"
  obtain t start n run_end where e: "month_end (fi_target_month inp) = Inr t" "month_end (hd run) = Inr start"
      "add_months (last run) 1 = Inr n" "month_end n = Inr run_end"
    using step by (auto simp: cover_run_def Let_def bindE_Inr_iff contract_step_def split: sum.splits)
  define window where "window = (start, min run_end t)"
  obtain parts where parts: "mapE (\<lambda>w. cover_window uuid5 cusip9 security ?spell w supports s (fi_receipt inp))
        (subtract window holes) = Inr parts"
      "fs_followups st' = fs_followups st @ concat (map fst parts)"
    using step None e by (auto simp: cover_run_def Let_def bindE_Inr_iff contract_step_def holes_def window_def)
  have hd: "valid_date (hd run)" "run \<noteq> []" using run(1,2) by (auto simp: consecutive_def firsts_def)
  then have le: "month_index (hd run) \<le> month_index (last run)"
  proof -
    have "month_index (hd run) \<in> set (map month_index run)" using hd(2) by simp
    then show ?thesis using run(1) by (metis atLeastAtMost_iff consecutive_def set_upto)
  qed
  have n: "month_index n = month_index (last run) + 1" "valid_date n" using add_months_index [OF e(3)] by simp_all
  have day: "day_in x window \<longleftrightarrow> month_index (hd run) < month_index x \<and> month_index x \<le> month_index (last run) + 1"
    if x: "valid_date x" for x
    using month_end_less [OF e(2) x] month_end_le(2) [OF e(4) x] month_end_le(2) [OF e(1) x] n(1) run(3)
    by (auto simp: day_in_def window_def)
  have "start < run_end" "start < t"
    using month_end_less [OF e(2) month_end_le(1) [OF e(4)]] month_end_less [OF e(2) month_end_le(1) [OF e(1)]]
      month_end_index [OF e(4) n(2)] month_end_index [OF e(1) ok(3)] le n(1) run(3) by simp_all
  then have lt: "fst window < snd window" by (simp add: window_def)
  have "\<forall>hole \<in> set holes. fst hole \<le> snd hole" using ok(1) by (auto simp: holes_def holes_ok_def)
  then have sub: "hits d (subtract window holes) = (if day_in d window \<and> hits d holes = 0 then 1 else 0)"
    by (rule hits_subtract)
  have "\<forall>w \<in> set (subtract window holes). fst w < snd w" using subtract_parts(2) [OF _ lt] by blast
  note cw = cover_windows_hits [OF parts(1) ok(2) this]
  have "hits d holes = 0 \<longleftrightarrow> \<not> in_hole inp cusip9 d" by (auto simp: hits_zero holes_def in_hole_def)
  then show ?thesis
    using cw(1) [of c d] cw(2) sub day [OF ok(4)] exposing_run [OF run(1), of d] st None parts(2)
    by (auto simp: state_ok_def rows_ok_def)
qed

lemma mark_last_runs: "map fst (mark_last rs) = rs"
  by (simp add: mark_last_def)

lemma cover_issue_hits:
  assumes step: "cover_issue uuid5 inp s supports (cusip9, months) st = Inr st'"
    and months: "firsts months" "\<forall>m \<in> set months. month_index m < month_index (fi_target_month inp)"
    and ok: "holes_ok inp" "\<forall>x \<in> set (dict_get_default supports cusip9 []). support_ok s x"
      "valid_date (fi_target_month inp)" "valid_date d"
    and st: "state_ok s st"
  shows "state_ok s st' \<and> seg_hits c d (fs_followups st') = seg_hits c d (fs_followups st) +
    (if cusip9 = c \<and> dict_get (fi_securities inp) c \<noteq> None \<and> dict_get (fi_aliases inp) c = None \<and> \<not> in_hole inp c d
       \<and> month_index d - 1 \<in> month_index ` set months then 1 else 0)"
proof (cases "dict_get (fi_securities inp) cusip9")
  case None
  then show ?thesis using step st by (auto simp: cover_issue_def state_ok_def)
next
  case (Some security)
  obtain rs where rs: "runs months = Inr rs"
      "foldE (cover_run uuid5 inp s cusip9 security (dict_get_default supports cusip9 [])) (mark_last rs) st = Inr st'"
    using step Some by (auto simp: cover_issue_def bindE_Inr_iff contract_step_def split: sum.splits)
  define counts where "counts \<longleftrightarrow> cusip9 = c \<and> dict_get (fi_aliases inp) cusip9 = None \<and> \<not> in_hole inp cusip9 d"
  note runs = runs_runs [OF rs(1) months(1)]
  have "state_ok s st' \<and> seg_hits c d (fs_followups st') = seg_hits c d (fs_followups st) +
      sum_list (map (\<lambda>r. if counts then exposing d (fst r) else 0) (mark_last rs))"
  proof (rule foldE_sum [where P = "state_ok s", OF rs(2) st])
    fix r x y assume r: "r \<in> set (mark_last rs)" "state_ok s x"
      "cover_run uuid5 inp s cusip9 security (dict_get_default supports cusip9 []) r x = Inr y"
    obtain run last_run where e: "r = (run, last_run)" by (cases r)
    have "run \<in> set (map fst (mark_last rs))" using r(1) e by force
    then have run: "run \<in> set rs" by (simp only: mark_last_runs)
    then have "set run \<subseteq> set (concat rs)" by auto
    then have sub: "set run \<subseteq> set months" by (simp add: runs(1))
    have "last run \<in> set run" using runs(2) [OF run] by (simp add: consecutive_def)
    then have "firsts run" "month_index (last run) < month_index (fi_target_month inp)"
      using sub months by (auto simp: firsts_def)
    from cover_run_hits [OF r(3) [unfolded e] runs(2) [OF run] this ok r(2), of c]
    show "state_ok s y \<and> seg_hits c d (fs_followups y) = seg_hits c d (fs_followups x) +
        (if counts then exposing d (fst r) else 0)"
      unfolding counts_def e fst_conv .
  qed
  moreover have "sum_list (map (\<lambda>r. if counts then exposing d (fst r) else 0) (mark_last rs))
      = (if counts then exposing d (concat rs) else 0)"
    using arg_cong [OF mark_last_runs [of rs], of "\<lambda>xs. sum_list (map (exposing d) xs)"]
    by (simp add: exposing_concat comp_def)
  moreover have "exposing d (concat rs) = (if month_index d - 1 \<in> month_index ` set months then 1 else 0)"
    using exposing_distinct [of "concat rs" d] months(1) runs(1) by (simp add: firsts_def)
  ultimately show ?thesis using Some by (auto simp: counts_def)
qed

subsection \<open>The whole panel\<close>

definition exposed_months :: "(string \<times> date) list \<Rightarrow> date \<Rightarrow> string \<Rightarrow> int set" where
  "exposed_months grid target c = {i. \<exists>m. (c, m) \<in> set grid \<and> i = month_index m \<and> i < month_index target}"

lemma dict_get_default_set [simp]:
  "dict_get_default (dict_set k v d) c w = (if c = k then v else dict_get_default d c w)"
  by (simp add: dict_get_default_def)

lemma dict_get_default_empty: "dict_get_default [] c w = w"
  by (simp add: dict_get_default_def)

lemma starts_of_months:
  assumes "starts_of grid target = Inr starts" "valid_date target" "\<forall>(c, m) \<in> set grid. valid_date m"
  shows "dict_ok starts"
    and "firsts (dict_get_default starts c [])"
    and "month_index ` set (dict_get_default starts c []) = exposed_months grid target c"
proof -
  let ?f = "\<lambda>(cusip9, m) starts. bindE (outcome_interval m target) (\<lambda>window. Inr (case window of
      None \<Rightarrow> starts | Some w \<Rightarrow> dict_set cusip9 (dict_get_default starts cusip9 [] @ [month_key m]) starts))"
  have "dict_ok starts \<and> (\<forall>c. firsts (dict_get_default starts c []) \<and> month_index ` set (dict_get_default starts c [])
      = month_index ` set (dict_get_default acc c []) \<union> exposed_months grid target c)"
    if "foldE ?f grid acc = Inr starts" "dict_ok acc" "\<forall>c. firsts (dict_get_default acc c [])" for acc
    using that assms(3)
  proof (induction grid arbitrary: acc)
    case (Cons g grid)
    obtain c m where g: "g = (c, m)" by (cases g)
    obtain r acc' where r: "outcome_interval m target = Inr r" "foldE ?f grid acc' = Inr starts"
        "acc' = (case r of None \<Rightarrow> acc | Some w \<Rightarrow> dict_set c (dict_get_default acc c [] @ [month_key m]) acc)"
      using Cons.prems(1) by (auto simp: g bindE_Inr_iff)
    have v: "valid_date m" using Cons.prems(4) g by simp
    have none: "r = None \<longleftrightarrow> month_index target \<le> month_index m" by (rule outcome_interval_days(1) [OF r(1) v assms(2)])
    have acc': "dict_get_default acc' b [] = dict_get_default acc b [] @ (if b = c \<and> r \<noteq> None then [month_key m] else [])" for b
      by (cases r) (simp_all add: r(3) dict_get_default_def)
    have ok': "dict_ok acc'" "\<forall>c. firsts (dict_get_default acc' c [])"
      using Cons.prems(2,3) v by (auto simp: r(3) firsts_def split: option.split if_splits)
    have "exposed_months (g # grid) target b
        = exposed_months grid target b \<union> (if b = c \<and> r \<noteq> None then {month_index m} else {})" for b
      unfolding none by (auto simp: exposed_months_def g)
    then show ?case using Cons.IH [OF r(2) ok'] Cons.prems(4) by (auto simp: acc')
  qed (simp add: exposed_months_def)
  from this [of "[]"] assms(1) show "dict_ok starts" "firsts (dict_get_default starts c [])"
    "month_index ` set (dict_get_default starts c []) = exposed_months grid target c"
    by (simp_all add: starts_of_def dict_get_default_empty firsts_def)
qed

lemma starts_of_total:
  assumes "starts_of grid target = Inr starts" "(c, m) \<in> set grid"
  shows "\<exists>w. outcome_interval m target = Inr w"
proof -
  have "foldE (\<lambda>(cusip9, m) starts. bindE (outcome_interval m target) (f cusip9 m starts)) grid acc = Inr starts \<Longrightarrow>
      \<exists>w. outcome_interval m target = Inr w" for acc and f :: "string \<Rightarrow> date \<Rightarrow> (string, date list) dict \<Rightarrow> _"
    using assms(2) by (induction grid arbitrary: acc) (auto simp: bindE_Inr_iff)
  from this [OF assms(1) [unfolded starts_of_def]] show ?thesis .
qed

lemma collect_supports_ok:
  assumes "collect_supports continuity s episodes = Inr (supports, issues)"
  shows "\<forall>x \<in> set (dict_get_default supports c []). support_ok s x"
proof -
  have "\<forall>c. \<forall>x \<in> set (dict_get_default (fst (supports, issues)) c []). support_ok s x"
  proof (rule foldE_invariant [OF assms [unfolded collect_supports_def]])
    fix ev a b
    assume inv: "\<forall>c. \<forall>x \<in> set (dict_get_default (fst a) c []). support_ok s x"
      and step: "(case a of (supports, issues) \<Rightarrow> bindE (continuity_support ev s episodes) (\<lambda>(more_issues, r).
       Inr (case r of
              Inl reason \<Rightarrow> (supports, issues @ more_issues @ [reason @ '':'' @ ce_cusip9 ev])
            | Inr x \<Rightarrow> (dict_set (ce_cusip9 ev) (dict_get_default supports (ce_cusip9 ev) [] @ [x]) supports,
                        issues @ more_issues)))) = Inr b"
    obtain supports issues where a: "a = (supports, issues)" by (cases a)
    obtain more_issues result where c: "continuity_support ev s episodes = Inr (more_issues, result)"
      using step by (auto simp: a bindE_Inr_iff)
    show "\<forall>c. \<forall>x \<in> set (dict_get_default (fst b) c []). support_ok s x"
      using inv step c continuity_support_ok(1) [of ev s episodes more_issues]
      by (cases result) (auto simp: a split: if_splits)
  qed (simp add: dict_get_default_def)
  then show ?thesis by simp
qed

lemma build_followup_hits:
  assumes build: "build_followup uuid5 grid inp observations continuity adjudications links cutoff mode strict = Inr r"
    and grid: "valid_date (fi_target_month inp)" "\<forall>(c, m) \<in> set grid. valid_date m"
    and ok: "holes_ok inp" "valid_date d"
  shows "\<exists>k s. utc cutoff = Inr k \<and> build_as_of k mode observations links adjudications = Inr s \<and> state_ok s r"
    and "seg_hits c d (fs_followups r)
      = (if month_index d - 1 \<in> exposed_months grid (fi_target_month inp) c \<and> dict_get (fi_securities inp) c \<noteq> None \<and>
           dict_get (fi_aliases inp) c = None \<and> \<not> in_hole inp c d then 1 else 0)"
proof -
  obtain k s starts supports issues st where b: "utc cutoff = Inr k"
      "build_as_of k mode observations links adjudications = Inr s"
      "starts_of grid (fi_target_month inp) = Inr starts"
      "collect_supports continuity s (index_by de_id (fi_episodes inp)) = Inr (supports, issues)"
      "foldE (cover_issue uuid5 inp s supports) (sort_by (\<lambda>x y. text_le (fst x) (fst y)) starts)
         \<lparr> fs_followups = [], fs_censoring = [], fs_issues = issues \<rparr> = Inr st"
      "finish_followup strict st = Inr r"
    using build by (auto simp: build_followup_def bindE_Inr_iff contract_step_def split: sum.splits)
  note starts = starts_of_months [OF b(3) grid]
  define counts where "counts \<longleftrightarrow> dict_get (fi_securities inp) c \<noteq> None \<and> dict_get (fi_aliases inp) c = None \<and> \<not> in_hole inp c d"
  define h where "h = (\<lambda>p. if fst p = c \<and> counts \<and> month_index d - 1 \<in> month_index ` set (snd p) then 1 else 0 :: nat)"
  let ?sorted = "sort_by (\<lambda>x y. text_le (fst x) (fst y)) starts"
  have init: "state_ok s \<lparr> fs_followups = [], fs_censoring = [], fs_issues = issues \<rparr>" by (simp add: state_ok_def)
  have "state_ok s st \<and> seg_hits c d (fs_followups st)
      = seg_hits c d (fs_followups \<lparr> fs_followups = [], fs_censoring = [], fs_issues = issues \<rparr>) + sum_list (map h ?sorted)"
  proof (rule foldE_sum [where P = "state_ok s", OF b(5) init])
    fix p x y assume p: "p \<in> set ?sorted" "state_ok s x" "cover_issue uuid5 inp s supports p x = Inr y"
    obtain cusip9 months where e: "p = (cusip9, months)" by (cases p)
    have "dict_get_default starts cusip9 [] = months"
      using dict_in_get [OF starts(1), of cusip9 months] p(1) e by (simp add: dict_get_default_def)
    then have m: "firsts months" "month_index ` set months = exposed_months grid (fi_target_month inp) cusip9"
      using starts(2,3) [of cusip9] by simp_all
    have "\<forall>m \<in> set months. month_index m < month_index (fi_target_month inp)"
    proof
      fix m assume "m \<in> set months"
      then have "month_index m \<in> exposed_months grid (fi_target_month inp) cusip9" using m(2) by blast
      then show "month_index m < month_index (fi_target_month inp)" by (auto simp: exposed_months_def)
    qed
    from cover_issue_hits [OF p(3) [unfolded e] m(1) this ok(1) collect_supports_ok [OF b(4)] grid(1) ok(2) p(2), of c]
    show "state_ok s y \<and> seg_hits c d (fs_followups y) = seg_hits c d (fs_followups x) + h p"
      by (auto simp: h_def counts_def e)
  qed
  then have st: "state_ok s st" "seg_hits c d (fs_followups st) = sum_list (map h ?sorted)" by simp_all
  have r: "fs_followups r = sort_by (\<lambda>x y. texts_le (followup_key x) (followup_key y)) (fs_followups st)"
    using b(6) by (auto simp: finish_followup_def Let_def split: if_splits)
  show "\<exists>k s. utc cutoff = Inr k \<and> build_as_of k mode observations links adjudications = Inr s \<and> state_ok s r"
    using b(1,2) st(1) by (auto simp: state_ok_def r)
  have dist: "distinct starts" using starts(1) by (simp add: distinct_map)
  have "sum_list (map h ?sorted) = sum h (set starts)"
    using sum_list_distinct_conv_sum_set [of ?sorted h] dist by simp
  also have "\<dots> = (if month_index d - 1 \<in> month_index ` set (dict_get_default starts c []) \<and> counts then 1 else 0)"
  proof (cases "dict_get starts c")
    case None
    then have "\<forall>p \<in> set starts. h p = 0" by (auto simp: h_def dict_get_None_iff)
    then show ?thesis using None by (simp add: dict_get_default_def)
  next
    case (Some months)
    have mem: "(c, months) \<in> set starts" by (rule dict_get_in [OF Some])
    have "\<forall>p \<in> set starts - {(c, months)}. h p = 0"
      using dict_in_get [OF starts(1)] Some by (auto simp: h_def)
    then have "sum h (set starts) = h (c, months)"
      using sum.remove [OF finite_set mem, of h] by simp
    then show ?thesis using Some by (auto simp: h_def dict_get_default_def)
  qed
  finally show "seg_hits c d (fs_followups r)
      = (if month_index d - 1 \<in> exposed_months grid (fi_target_month inp) c \<and> dict_get (fi_securities inp) c \<noteq> None \<and>
           dict_get (fi_aliases inp) c = None \<and> \<not> in_hole inp c d then 1 else 0)"
    using st(2) starts(3) [of c] by (auto simp: r counts_def)
qed

text \<open>
  C21: every exposed day is followed up exactly once, and no other. Take a calendar day and an
  issue. If a row of the grid before the target month exposes the issue to that day, the issue
  has a security, is not an absorbed alias and the day is in no default span of the issue, then
  exactly one segment of the issue holds the day, over all its spells; otherwise none does.
\<close>

theorem followup_of_a_day:
  assumes "build_followup uuid5 grid inp observations continuity adjudications links cutoff mode strict = Inr r"
    and "valid_date (fi_target_month inp)" "\<forall>(c, m) \<in> set grid. valid_date m"
    and "\<forall>e \<in> set (fi_episodes inp). fst (default_hole e) \<le> snd (default_hole e)" "valid_date d"
  shows "length (filter (\<lambda>f. fu_cusip9 f = c \<and> fu_start_exclusive f < d \<and> d \<le> fu_end_inclusive f) (fs_followups r))
    = (if (\<exists>m w. (c, m) \<in> set grid \<and> outcome_interval m (fi_target_month inp) = Inr (Some w) \<and> day_in d w) \<and>
          dict_get (fi_securities inp) c \<noteq> None \<and> dict_get (fi_aliases inp) c = None \<and>
          \<not> (\<exists>e \<in> set (fi_episodes inp). de_cusip9 e = c \<and> day_in d (default_hole e))
       then 1 else 0)"
proof -
  obtain starts where starts: "starts_of grid (fi_target_month inp) = Inr starts"
    using assms(1) by (auto simp: build_followup_def bindE_Inr_iff contract_step_def split: sum.splits)
  have total: "\<exists>w. outcome_interval m (fi_target_month inp) = Inr w" if "(c, m) \<in> set grid" for m
    using starts_of_total [OF starts that] .
  have "month_index d - 1 \<in> exposed_months grid (fi_target_month inp) c
    \<longleftrightarrow> (\<exists>m w. (c, m) \<in> set grid \<and> outcome_interval m (fi_target_month inp) = Inr (Some w) \<and> day_in d w)"
  proof -
    have day: "month_index d - 1 = month_index m \<and> month_index m < month_index (fi_target_month inp)
      \<longleftrightarrow> (\<exists>w. outcome_interval m (fi_target_month inp) = Inr (Some w) \<and> day_in d w)" if m: "(c, m) \<in> set grid" for m
    proof -
      obtain r where r: "outcome_interval m (fi_target_month inp) = Inr r" using total [OF m] by blast
      have v: "valid_date m" using assms(3) m by blast
      show ?thesis
        using outcome_interval_days(1) [OF r v assms(2)] outcome_interval_days(2) [OF r v assms(2) _ assms(5)] r
        by (cases r) auto
    qed
    have "month_index d - 1 \<in> exposed_months grid (fi_target_month inp) c
        \<longleftrightarrow> (\<exists>m. (c, m) \<in> set grid \<and> month_index d - 1 = month_index m \<and> month_index m < month_index (fi_target_month inp))"
      by (auto simp: exposed_months_def)
    also have "\<dots> \<longleftrightarrow> (\<exists>m. (c, m) \<in> set grid \<and> (\<exists>w. outcome_interval m (fi_target_month inp) = Inr (Some w) \<and> day_in d w))"
      using day by meson
    finally show ?thesis by simp
  qed
  then show ?thesis
    using build_followup_hits(2) [OF assms(1-3) _ assms(5), of c] assms(4)
    by (simp add: seg_hits_def holes_ok_def in_hole_def span_of_def day_in_def)
qed

lemma usable_at_cutoff:
  assumes "build_as_of k mode observations links adjudications = Inr s" "observation_problem s i = None"
  shows "\<exists>x \<in> set observations. co_id x = i \<and> co_revision_kind x \<noteq> ''retraction'' \<and> co_public_available_at x \<le> k \<and>
    (mode = ''current_run'' \<longrightarrow> co_first_seen_at x \<le> k)"
proof -
  obtain stale where stale: "stale_observations (index_by co_id observations) k = Inr stale"
      "ao_k s = k" "ao_mode s = mode" "ao_obs s = index_by co_id observations" "ao_stale_obs s = stale"
    using assms(1) by (auto simp: build_as_of_def Let_def bindE_Inr_iff)
  obtain x where x: "dict_get (index_by co_id observations) i = Some x" "usable_observation x k mode stale = None"
    using assms(2) stale(2-5) by (auto simp: observation_problem_def split: option.splits)
  have mem: "x \<in> set observations" "co_id x = i" using dict_get_index_by [OF x(1)] by simp_all
  have u: "co_public_available_at x \<le> k" "mode = ''current_run'' \<Longrightarrow> co_first_seen_at x \<le> k" "co_id x \<notin> set stale"
    using x(2) by (auto simp: usable_observation_def split: if_splits)
  have "co_revision_kind x \<noteq> ''retraction''"
  proof
    assume "co_revision_kind x = ''retraction''"
    then have "co_id x \<in> set (map fst (filter (\<lambda>(oid, x). co_revision_kind x = ''retraction'') (index_by co_id observations)))"
      using dict_get_in [OF x(1)] mem(2) by force
    moreover obtain revised where "stale = revised @ map fst (filter (\<lambda>(oid, x). co_revision_kind x = ''retraction'') (index_by co_id observations))"
      using stale(1) by (auto simp: stale_observations_def bindE_Inr_iff)
    ultimately show False using u(3) by simp
  qed
  then show ?thesis using mem u by blast
qed


subsection \<open>A panel\<close>

definition panel_grid :: "(string \<times> date) list" where
  "panel_grid = [(''037833100'', Date 2020 2 15), (''037833100'', Date 2020 1 31), (''037833100'', Date 2020 3 1)]"

definition panel_input :: followup_input where
  "panel_input = \<lparr> fi_securities = [(''037833100'', ''sec'')],
     fi_episodes = [\<lparr> de_id = ''episode'', de_cusip9 = ''037833100'', de_onset_lower = Some (Date 2020 3 10),
       de_onset_upper = Date 2020 3 11, de_resolution = None, de_adjudication_ids = [] \<rparr>],
     fi_receipt = None, fi_aliases = [], fi_target_month = Date 2020 3 1 \<rparr>"

definition panel_followup :: "resolve_error + followup_state" where
  "panel_followup = build_followup concat panel_grid panel_input (demo_documents @ [watched_holding]) [watched_evidence]
     demo_inventory watch_links (Aware 100) ''current_run'' True"

text \<open>The steps of the follow-up, each evaluated on its own.\<close>

definition panel_support :: support where
  "panel_support = watched_support ''doc'' (Date 2020 1 15, Date 2020 2 20) ''nondefault_continuous'' 15"

lemma panel_steps:
  "month_end (fi_target_month panel_input) = Inr (Date 2020 3 31)"
  "starts_of panel_grid (fi_target_month panel_input) = Inr [(''037833100'', [Date 2020 2 1, Date 2020 1 1])]"
  "map_sum id ao_k (build_as_of 100 ''current_run'' (demo_documents @ [watched_holding]) watch_links demo_inventory) = Inr 100"
  "collect_supports [watched_evidence] watched_state (index_by de_id (fi_episodes panel_input))
    = Inr ([(''037833100'', [panel_support])], [])"
  "runs [Date 2020 2 1, Date 2020 1 1] = Inr [[Date 2020 1 1, Date 2020 2 1]]"
  "month_end (Date 2020 1 1) = Inr (Date 2020 1 31)" "add_months (Date 2020 2 1) 1 = Inr (Date 2020 3 1)"
  "month_end (Date 2020 3 1) = Inr (Date 2020 3 31)"
  "subtract (Date 2020 1 31, Date 2020 3 31) [(Date 2020 3 10, Date 9999 12 31)] = [(Date 2020 1 31, Date 2020 3 10)]"
  "documentary_pieces (Date 2020 1 31, Date 2020 3 10) [panel_support] watched_state ''037833100''
    = Inr ([((Date 2020 1 31, Date 2020 2 20), panel_support\<lparr> sp_span := (Date 2020 1 31, Date 2020 2 20) \<rparr>)], [])"
  "subtract (Date 2020 1 31, Date 2020 3 10) [(Date 2020 1 31, Date 2020 2 20)] = [(Date 2020 2 20, Date 2020 3 10)]"
  "subtract (Date 2020 2 20, Date 2020 3 10) [] = [(Date 2020 2 20, Date 2020 3 10)]"
  by code_simp+

lemma panel_as_of:
  "build_as_of 100 ''current_run'' (demo_documents @ [watched_holding]) watch_links demo_inventory = Inr watched_state"
  using panel_steps(3) unfolding watched_state_def
  by (cases "build_as_of 100 ''current_run'' (demo_documents @ [watched_holding]) watch_links demo_inventory") simp_all

lemma panel_window:
  "\<exists>f1 f2. cover_window concat ''037833100'' ''sec'' spell_id (Date 2020 1 31, Date 2020 3 10) [panel_support] watched_state None
      = Inr ([f1, f2], []) \<and> fu_evidence_ids f1 = [''doc'']"
proof -
  have v: "is_valid_cusip9 ''037833100'' = Inr True" "Date 2020 1 31 < Date 2020 2 20" "Date 2020 2 20 < Date 2020 3 10"
    by code_simp+
  obtain f1 where f1: "segment_of concat ''037833100'' ''sec'' spell_id (Date 2020 1 31, Date 2020 2 20) ''nondefault_continuous''
      ''continuous_document'' [''doc''] [] 15 = Inr f1"
    using segment_of_total [OF v(1), of "(Date 2020 1 31, Date 2020 2 20)"] v(2)
    by (fastforce simp: DOCUMENT_STATUSES_def DOCUMENT_BASES_def)
  obtain f2 where f2: "segment_of concat ''037833100'' ''sec'' spell_id (Date 2020 2 20, Date 2020 3 10) ''unknown'' ''none'' [] []
      (ao_k watched_state) = Inr f2"
    using segment_of_total [OF v(1), of "(Date 2020 2 20, Date 2020 3 10)"] v(3) by fastforce
  have gap: "cover_gap concat ''037833100'' ''sec'' spell_id ps watched_state None (Date 2020 2 20, Date 2020 3 10) ([f1], [])
      = Inr ([f1, f2], [])" for ps
    by (simp add: cover_gap_def surveillance_pieces_def panel_steps(12) f2)
  have fields: "sp_status panel_support = ''nondefault_continuous''" "sp_basis panel_support = ''continuous_document''"
    "sp_observation_ids panel_support = [''doc'']" "sp_adjudication_ids panel_support = []" "sp_known panel_support = 15"
    by (simp_all add: panel_support_def watched_support_def)
  have "fu_evidence_ids f1 = [''doc'']" using segment_of_fields(7) [OF f1] by (simp add: sorted_texts_def sort_by_def)
  then show ?thesis
    using gap [of "[((Date 2020 1 31, Date 2020 2 20), panel_support\<lparr> sp_span := (Date 2020 1 31, Date 2020 2 20) \<rparr>)]"] f1
    by (simp add: cover_window_def panel_steps(10,11) fields)
qed

lemma panel_hypotheses:
  "\<exists>r f. panel_followup = Inr r \<and> f \<in> set (fs_followups r) \<and> fu_evidence_ids f = [''doc'']"
  "valid_date (fi_target_month panel_input)" "\<forall>(c, m) \<in> set panel_grid. valid_date m"
  "\<forall>e \<in> set (fi_episodes panel_input). fst (default_hole e) \<le> snd (default_hole e)"
proof -
  obtain f1 f2 where w: "cover_window concat ''037833100'' ''sec''
      (concat [''bond_default_followup_spell'', ''037833100'', isoformat (Date 2020 1 1)])
      (Date 2020 1 31, Date 2020 3 10) [panel_support] watched_state None = Inr ([f1, f2], [])"
    and ev: "fu_evidence_ids f1 = [''doc'']"
    using panel_window by blast
  have holes: "map default_hole (filter (\<lambda>e. de_cusip9 e = ''037833100'') (fi_episodes panel_input))
      = [(Date 2020 3 10, Date 9999 12 31)]"
    "fi_securities panel_input = [(''037833100'', ''sec'')]" "fi_aliases panel_input = []" "fi_receipt panel_input = None"
    by (simp_all add: panel_input_def default_hole_def date_max_def)
  have run: "\<exists>st. cover_run concat panel_input watched_state ''037833100'' ''sec'' [panel_support] ([Date 2020 1 1, Date 2020 2 1], True)
      \<lparr> fs_followups = [], fs_censoring = [], fs_issues = [] \<rparr> = Inr st \<and> fs_followups st = [f1, f2] \<and> fs_issues st = []"
    unfolding cover_run_def prod.case Let_def
    using w by (simp add: contract_step_def panel_steps(1,6,7,8,9) holes)
  then obtain st where st: "cover_run concat panel_input watched_state ''037833100'' ''sec'' [panel_support] ([Date 2020 1 1, Date 2020 2 1], True)
      \<lparr> fs_followups = [], fs_censoring = [], fs_issues = [] \<rparr> = Inr st" "fs_followups st = [f1, f2]" "fs_issues st = []"
    by blast
  have issue: "cover_issue concat panel_input watched_state [(''037833100'', [panel_support])]
      (''037833100'', [Date 2020 2 1, Date 2020 1 1]) \<lparr> fs_followups = [], fs_censoring = [], fs_issues = [] \<rparr> = Inr st"
    by (simp add: cover_issue_def holes(2) panel_steps(5) contract_step_def mark_last_def st(1) dict_get_default_def)
  have "panel_followup = finish_followup True st"
    unfolding panel_followup_def build_followup_def
    by (simp add: check_mode_def KNOWLEDGE_MODES_def contract_step_def panel_steps(1,2,4) panel_as_of issue sort_by_def)
  then have p: "panel_followup = Inr \<lparr> fs_followups = sort_by (\<lambda>x y. texts_le (followup_key x) (followup_key y)) [f1, f2],
      fs_censoring = sort_by censoring_le (fs_censoring st), fs_issues = [] \<rparr>"
    by (simp add: finish_followup_def Let_def st(2,3) sorted_texts_def sort_by_def [of text_le])
  show "\<exists>r f. panel_followup = Inr r \<and> f \<in> set (fs_followups r) \<and> fu_evidence_ids f = [''doc'']"
    by (rule exI, rule exI [of _ f1], intro conjI, rule p) (simp_all add: ev)
qed code_simp+

theorem followup_of_a_day_witness:
  "\<exists>r. panel_followup = Inr r \<and>
     length (filter (\<lambda>f. fu_cusip9 f = ''037833100'' \<and> fu_start_exclusive f < Date 2020 2 29 \<and>
       Date 2020 2 29 \<le> fu_end_inclusive f) (fs_followups r)) = 1 \<and>
     length (filter (\<lambda>f. fu_cusip9 f = ''037833100'' \<and> fu_start_exclusive f < Date 2020 3 11 \<and>
       Date 2020 3 11 \<le> fu_end_inclusive f) (fs_followups r)) = 0"
proof -
  obtain r where r: "panel_followup = Inr r" using panel_hypotheses(1) by blast
  note day = followup_of_a_day [OF r [unfolded panel_followup_def] panel_hypotheses(2-4), where c = "''037833100''"]
  have v: "valid_date (Date 2020 2 29)" "valid_date (Date 2020 3 11)" by code_simp+
  have e: "\<exists>m w. (''037833100'', m) \<in> set panel_grid \<and> outcome_interval m (fi_target_month panel_input) = Inr (Some w) \<and>
      day_in (Date 2020 2 29) w"
    by (rule exI [of _ "Date 2020 1 31"], rule exI [of _ "(Date 2020 1 31, Date 2020 2 29)"], code_simp)
  have "dict_get (fi_securities panel_input) ''037833100'' \<noteq> None" "dict_get (fi_aliases panel_input) ''037833100'' = None"
    "\<not> (\<exists>e \<in> set (fi_episodes panel_input). de_cusip9 e = ''037833100'' \<and> day_in (Date 2020 2 29) (default_hole e))"
    "\<exists>e \<in> set (fi_episodes panel_input). de_cusip9 e = ''037833100'' \<and> day_in (Date 2020 3 11) (default_hole e)"
    by code_simp+
  note facts = this
  have "length (filter (\<lambda>f. fu_cusip9 f = ''037833100'' \<and> fu_start_exclusive f < Date 2020 2 29 \<and>
       Date 2020 2 29 \<le> fu_end_inclusive f) (fs_followups r)) = 1"
    unfolding day [OF v(1)] using facts(1-3) e by simp
  moreover have "length (filter (\<lambda>f. fu_cusip9 f = ''037833100'' \<and> fu_start_exclusive f < Date 2020 3 11 \<and>
       Date 2020 3 11 \<le> fu_end_inclusive f) (fs_followups r)) = 0"
    unfolding day [OF v(2)] using facts(4) by simp
  ultimately show ?thesis using r by blast
qed


end
