(* ===== verification/Regime_Gate.thy ===== *)
theory Regime_Gate
  imports Price_Series
begin

text \<open>
  The debounced risk-off gate (\<open>src/workers/regime_gate.py\<close>): the alignment of the price
  series on the SPY days, the three daily votes, the growth and inflation quadrant, and the
  latch that only follows a vote held for \<open>gate_confirm\<close> days. The window lengths are natural
  numbers; a mean over an empty window raises.
\<close>

record gate_config =
  gc_confirm :: int
  gc_dd :: real
  gc_trend :: nat
  gc_credit :: nat
  gc_stress :: nat
  gc_growth :: nat
  gc_inflation :: nat

definition gate_defaults :: gate_config where
  "gate_defaults = \<lparr> gc_confirm = 21, gc_dd = 6 / 100, gc_trend = 200, gc_credit = 60, gc_stress = 63,
     gc_growth = 126, gc_inflation = 126 \<rparr>"

definition STRESS_FULL_DD :: real where "STRESS_FULL_DD = 12 / 100"

subsection \<open>The votes of a day\<close>

definition market_stress :: "real list \<Rightarrow> nat \<Rightarrow> real" where
  "market_stress closes_desc window =
     (if length closes_desc < window + 1 then 0
      else (let recent = take (window + 1) closes_desc;
                hi = list_max (hd recent) (tl recent); now = hd recent;
                dd = (if hi > 0 then (hi - now) / hi else 0)
            in min 1 (max 0 (dd / STRESS_FULL_DD))))"

definition below :: "real option \<Rightarrow> real option \<Rightarrow> bool" where
  "below x y = (case (x, y) of (Some a, Some b) \<Rightarrow> a < b | _ \<Rightarrow> False)"

definition gate_votes ::
  "real \<Rightarrow> real option \<Rightarrow> real option \<Rightarrow> real option \<Rightarrow> real \<Rightarrow> real \<Rightarrow> bool \<times> bool \<times> bool \<times> int" where
  "gate_votes spy_close spy_sma ratio ratio_sma stress gate_dd =
     (let trend_down = below (Some spy_close) spy_sma;
          credit_stress = below ratio ratio_sma;
          drawdown_stress = stress * STRESS_FULL_DD \<ge> gate_dd
      in (trend_down, credit_stress, drawdown_stress,
          of_bool trend_down + of_bool credit_stress + of_bool drawdown_stress))"

definition look_return :: "real list \<Rightarrow> nat \<Rightarrow> real option" where
  "look_return win k =
     (if length win \<le> k then None
      else (let now = win ! 0; past = win ! k in if past > 0 then Some (now / past - 1) else None))"

definition quadrant_name :: "bool \<Rightarrow> bool \<Rightarrow> string" where
  "quadrant_name growth_up infl_up =
     (if growth_up \<and> \<not> infl_up then ''recovery''
      else if growth_up \<and> infl_up then ''expansion''
      else if \<not> growth_up \<and> infl_up then ''slowdown''
      else ''contraction'')"

definition macro_quadrant ::
  "real list \<Rightarrow> real list \<Rightarrow> nat \<Rightarrow> nat \<Rightarrow> string option \<times> real option \<times> real option" where
  "macro_quadrant spy_win be_win g_look i_look =
     (case (look_return spy_win g_look, look_return be_win i_look) of
        (Some growth, Some infl) \<Rightarrow> (Some (quadrant_name (growth > 0) (infl > 0)), Some growth, Some infl)
      | _ \<Rightarrow> (None, None, None))"

definition mean_of :: "real list \<Rightarrow> py_error + real" where
  "mean_of xs = (if xs = [] then Inl ZeroDivisionError else Inr (sum_list xs / real (length xs)))"

definition trailing_mean :: "real list \<Rightarrow> nat \<Rightarrow> nat \<Rightarrow> py_error + real option" where
  "trailing_mean values end_exclusive window =
     (if end_exclusive < window then Inr None
      else bindE (mean_of (slice (end_exclusive - window) end_exclusive values)) (\<lambda>m. Inr (Some m)))"

text \<open>The credit mean is there when no ratio of its window is missing.\<close>

definition credit_mean :: "real option list \<Rightarrow> nat \<Rightarrow> nat \<Rightarrow> py_error + real option" where
  "credit_mean ratio t window =
     (if ratio ! t = None \<or> t < window then Inr None
      else (let present = List.map_filter id (slice (t - window) t ratio)
            in if length present = window then bindE (mean_of present) (\<lambda>m. Inr (Some m)) else Inr None))"

record gate_day =
  gd_date :: date
  gd_trend :: bool
  gd_credit :: bool
  gd_drawdown :: bool
  gd_votes :: int
  gd_growth :: "real option"
  gd_inflation :: "real option"
  gd_quadrant :: "string option"
  gd_spy :: real
  gd_ratio :: "real option"
  gd_breakeven :: "real option"
  gd_spy_dd :: real

definition day_quadrant ::
  "gate_config \<Rightarrow> real list \<Rightarrow> real option list \<Rightarrow> nat \<Rightarrow> string option \<times> real option \<times> real option" where
  "day_quadrant cfg spy breakeven t =
     (let spy_q = rev (slice (t - gc_growth cfg) (t + 1) spy);
          be_slice = slice (t - gc_inflation cfg) (t + 1) breakeven
      in if list_ex (\<lambda>b. b = None) be_slice then (None, None, None)
         else macro_quadrant spy_q (rev (map the be_slice)) (gc_growth cfg) (gc_inflation cfg))"

definition gate_day_of ::
  "gate_config \<Rightarrow> date list \<Rightarrow> real list \<Rightarrow> real option list \<Rightarrow> real option list \<Rightarrow> nat \<Rightarrow> py_error + gate_day" where
  "gate_day_of cfg dates spy ratio breakeven t =
     bindE (trailing_mean spy t (gc_trend cfg)) (\<lambda>spy_sma.
     bindE (credit_mean ratio t (gc_credit cfg)) (\<lambda>ratio_sma.
       let stress = market_stress (rev (slice (t - gc_stress cfg) (t + 1) spy)) (gc_stress cfg);
           (trend_v, credit_v, dd_v, votes) = gate_votes (spy ! t) spy_sma (ratio ! t) ratio_sma stress (gc_dd cfg);
           (quad, growth, inflation) = day_quadrant cfg spy breakeven t
       in Inr \<lparr> gd_date = dates ! t, gd_trend = trend_v, gd_credit = credit_v, gd_drawdown = dd_v, gd_votes = votes,
            gd_growth = growth, gd_inflation = inflation, gd_quadrant = quad, gd_spy = spy ! t, gd_ratio = ratio ! t,
            gd_breakeven = breakeven ! t, gd_spy_dd = stress * STRESS_FULL_DD \<rparr>))"

subsection \<open>The latch\<close>

record latch =
  la_state :: risk
  la_prev :: risk
  la_on :: int
  la_off :: int
  la_dwell :: int

record gate_row =
  gr_day :: gate_day
  gr_state :: risk
  gr_flip :: bool
  gr_dwell :: int

text \<open>The streaks and the latched state after one more raw vote.\<close>

definition latch_state :: "int \<Rightarrow> bool \<Rightarrow> latch \<Rightarrow> latch" where
  "latch_state confirm raw_off l =
     (let on = (if raw_off then la_on l + 1 else 0); off = (if raw_off then 0 else la_off l + 1);
          state = (if la_state l = Risk_on \<and> on \<ge> confirm then Risk_off
                   else if la_state l = Risk_off \<and> off \<ge> confirm then Risk_on else la_state l)
      in l\<lparr> la_state := state, la_on := on, la_off := off \<rparr>)"

fun latch_rows :: "int \<Rightarrow> nat \<Rightarrow> latch \<Rightarrow> gate_day list \<Rightarrow> gate_row list" where
  "latch_rows confirm t l [] = []"
| "latch_rows confirm t l (x # xs) =
     (let l' = latch_state confirm (gd_votes x \<ge> 2) l;
          flip = la_state l' \<noteq> la_prev l;
          dwell = (if flip \<or> t = 0 then 1 else la_dwell l + 1)
      in \<lparr> gr_day = x, gr_state = la_state l', gr_flip = flip, gr_dwell = dwell \<rparr>
         # latch_rows confirm (Suc t) (l'\<lparr> la_prev := la_state l', la_dwell := dwell \<rparr>) xs)"

definition latch_start :: latch where
  "latch_start = \<lparr> la_state = Risk_on, la_prev = Risk_on, la_on = 0, la_off = 0, la_dwell = 0 \<rparr>"

definition build_rows ::
  "gate_config \<Rightarrow> date list \<Rightarrow> real list \<Rightarrow> real option list \<Rightarrow> real option list \<Rightarrow> py_error + gate_row list" where
  "build_rows cfg dates spy ratio breakeven =
     (let n = length dates
      in if length spy \<noteq> n \<or> length ratio \<noteq> n \<or> length breakeven \<noteq> n then Inl ValueError
         else bindE (mapE (gate_day_of cfg dates spy ratio breakeven) [0..<n]) (\<lambda>days.
              Inr (latch_rows (gc_confirm cfg) 0 latch_start days)))"

subsection \<open>The aligned series\<close>

type_synonym aligned_day = "date \<times> real \<times> real option \<times> real option"

definition ratio_of :: "real option \<Rightarrow> real option \<Rightarrow> real option" where
  "ratio_of x y = (case (x, y) of (Some a, Some b) \<Rightarrow> if b > 0 then Some (a / b) else None | _ \<Rightarrow> None)"

definition carry :: "(date, real) dict \<Rightarrow> date \<Rightarrow> real option \<Rightarrow> real option" where
  "carry by d prior = (case dict_get by d of None \<Rightarrow> prior | Some x \<Rightarrow> Some x)"

text \<open>The loop over the SPY days; the last closes seen are carried.\<close>

fun align_days ::
  "(date, real) dict \<Rightarrow> (date, real) dict \<Rightarrow> (date, real) dict \<Rightarrow> real option \<times> real option \<times> real option
     \<Rightarrow> price_history \<Rightarrow> aligned_day list" where
  "align_days hyg_by ief_by tip_by lasts [] = []"
| "align_days hyg_by ief_by tip_by (last_hyg, last_ief, last_tip) ((d, px) # xs) =
     (if px = None \<or> the px \<le> 0 then align_days hyg_by ief_by tip_by (last_hyg, last_ief, last_tip) xs
      else (let h = carry hyg_by d last_hyg; i = carry ief_by d last_ief; t = carry tip_by d last_tip
            in (d, the px, ratio_of h i, ratio_of t i) # align_days hyg_by ief_by tip_by (h, i, t) xs))"

definition align ::
  "price_history \<Rightarrow> price_history \<Rightarrow> price_history \<Rightarrow> price_history
     \<Rightarrow> py_error + date list \<times> real list \<times> real option list \<times> real option list" where
  "align spy hyg ief tip =
     (if spy = [] then Inl RuntimeError
      else (let days = align_days (positive_prices hyg) (positive_prices ief) (positive_prices tip)
                         (None, None, None) (sort_key fst spy)
            in Inr (map fst days, map (\<lambda>(d, p, r, b). p) days, map (\<lambda>(d, p, r, b). r) days, map (\<lambda>(d, p, r, b). b) days)))"

text \<open>The rows of a run: the fetch fails on an empty history of SPY, HYG or IEF.\<close>

definition gate_run ::
  "gate_config \<Rightarrow> price_history \<Rightarrow> price_history \<Rightarrow> price_history \<Rightarrow> price_history \<Rightarrow> py_error + gate_row list" where
  "gate_run cfg spy hyg ief tip =
     (if spy = [] \<or> hyg = [] \<or> ief = [] then Inl RuntimeError
      else bindE (align spy hyg ief tip) (\<lambda>(dates, closes, ratio, breakeven). build_rows cfg dates closes ratio breakeven))"

record gate_summary =
  gs_days :: nat
  gs_state :: "risk option"
  gs_votes :: "int option"
  gs_flips :: nat
  gs_last_flip :: "string option"
  gs_dwell :: "int option"
  gs_quadrant :: "string option"
  gs_calc_date :: "string option"

definition gate_summary_of :: "gate_row list \<Rightarrow> gate_summary" where
  "gate_summary_of rows =
     (let flips = filter gr_flip rows
      in if rows = [] then \<lparr> gs_days = 0, gs_state = None, gs_votes = None, gs_flips = 0, gs_last_flip = None,
             gs_dwell = None, gs_quadrant = None, gs_calc_date = None \<rparr>
         else \<lparr> gs_days = length rows, gs_state = Some (gr_state (last rows)),
                gs_votes = Some (gd_votes (gr_day (last rows))), gs_flips = length flips,
                gs_last_flip = (if flips = [] then None else Some (isoformat (gd_date (gr_day (last flips))))),
                gs_dwell = Some (gr_dwell (last rows)), gs_quadrant = gd_quadrant (gr_day (last rows)),
                gs_calc_date = Some (isoformat (gd_date (gr_day (last rows)))) \<rparr>)"

subsection \<open>The latch follows confirmed votes\<close>

text \<open>The vote was \<open>b\<close> on each of the \<open>c\<close> days that end with day \<open>t\<close>.\<close>

definition held :: "int \<Rightarrow> bool \<Rightarrow> bool list \<Rightarrow> nat \<Rightarrow> bool" where
  "held c b votes t \<longleftrightarrow> c \<le> int t + 1 \<and> (\<forall>i \<le> t. int (t - i) < c \<longrightarrow> votes ! i = b)"

text \<open>The length of the run of \<open>b\<close> that ends with day \<open>t\<close>.\<close>

fun run_of :: "bool \<Rightarrow> (nat \<Rightarrow> bool) \<Rightarrow> nat \<Rightarrow> int" where
  "run_of b v 0 = (if v 0 = b then 1 else 0)"
| "run_of b v (Suc t) = (if v (Suc t) = b then run_of b v t + 1 else 0)"

lemma run_of_range: "0 \<le> run_of b v t" "run_of b v t \<le> int t + 1"
  by (induction t) auto

lemma run_of_ge: "1 \<le> c \<Longrightarrow> run_of b v t \<ge> c \<longleftrightarrow> c \<le> int t + 1 \<and> (\<forall>i \<le> t. int (t - i) < c \<longrightarrow> v i = b)"
proof (induction t arbitrary: c)
  case (Suc t)
  show ?case
  proof (cases "v (Suc t) = b \<and> 2 \<le> c")
    case True
    then have "run_of b v (Suc t) \<ge> c \<longleftrightarrow> run_of b v t \<ge> c - 1" by auto
    also have "\<dots> \<longleftrightarrow> c - 1 \<le> int t + 1 \<and> (\<forall>i \<le> t. int (t - i) < c - 1 \<longrightarrow> v i = b)" using Suc.IH [of "c - 1"] True by simp
    also have "\<dots> \<longleftrightarrow> c \<le> int (Suc t) + 1 \<and> (\<forall>i \<le> Suc t. int (Suc t - i) < c \<longrightarrow> v i = b)"
      using True by (auto simp: le_Suc_eq Suc_diff_le)
    finally show ?thesis .
  next
    case False
    then consider "v (Suc t) \<noteq> b" | "v (Suc t) = b" "c = 1" using Suc.prems by fastforce
    then show ?thesis
    proof cases
      case 1
      then show ?thesis using Suc.prems by force
    next
      case 2
      then show ?thesis using run_of_range(1) [of b v t] by (auto simp: le_Suc_eq)
    qed
  qed
qed auto

definition vote_at :: "gate_day list \<Rightarrow> nat \<Rightarrow> bool" where
  "vote_at days i \<longleftrightarrow> gd_votes (days ! i) \<ge> 2"

lemma length_latch_rows [simp]: "length (latch_rows c t l days) = length days"
  by (induction days arbitrary: t l) (simp_all add: Let_def)

lemma latch_rows_days: "map gr_day (latch_rows c t l days) = days"
  by (induction days arbitrary: t l) (simp_all add: Let_def)

lemma latch_rows_take: "latch_rows c t l (take n days) = take n (latch_rows c t l days)"
proof (induction days arbitrary: t l n)
  case (Cons x days)
  then show ?case by (cases n) (simp_all add: Let_def)
qed simp

text \<open>The latch after some days, and the rows it leaves.\<close>

fun latch_after :: "int \<Rightarrow> (nat \<Rightarrow> bool) \<Rightarrow> nat \<Rightarrow> latch" where
  "latch_after c v 0 = latch_start"
| "latch_after c v (Suc t) =
     (let l = latch_after c v t; l' = latch_state c (v t) l
      in l'\<lparr> la_prev := la_state l', la_dwell := (if la_state l' \<noteq> la_prev l \<or> t = 0 then 1 else la_dwell l + 1) \<rparr>)"

lemma latch_rows_nth:
  "i < length days \<Longrightarrow> (\<And>j. j < length days \<Longrightarrow> v (t + j) = vote_at days j) \<Longrightarrow>
   gr_state (latch_rows c t (latch_after c v t) days ! i) = la_state (latch_after c v (Suc (t + i))) \<and>
   gr_flip (latch_rows c t (latch_after c v t) days ! i)
     = (la_state (latch_after c v (Suc (t + i))) \<noteq> la_prev (latch_after c v (t + i))) \<and>
   gr_dwell (latch_rows c t (latch_after c v t) days ! i) = la_dwell (latch_after c v (Suc (t + i)))"
proof (induction days arbitrary: t i)
  case (Cons x days)
  have v: "v t = (gd_votes x \<ge> 2)" using Cons.prems(2) [of 0] by (simp add: vote_at_def)
  have rest: "latch_rows c t (latch_after c v t) (x # days)
      = \<lparr> gr_day = x, gr_state = la_state (latch_after c v (Suc t)),
          gr_flip = (la_state (latch_after c v (Suc t)) \<noteq> la_prev (latch_after c v t)),
          gr_dwell = la_dwell (latch_after c v (Suc t)) \<rparr> # latch_rows c (Suc t) (latch_after c v (Suc t)) days"
    by (simp add: Let_def v)
  show ?case
  proof (cases i)
    case 0
    then show ?thesis unfolding rest by simp
  next
    case (Suc j)
    have "v (Suc t + k) = vote_at days k" if "k < length days" for k
      using Cons.prems(2) [of "Suc k"] that by (simp add: vote_at_def)
    then show ?thesis using Cons.IH [of j "Suc t"] Cons.prems(1) Suc unfolding rest by simp
  qed
qed simp

lemma latch_rows_at:
  assumes "i < length days"
  shows "gr_state (latch_rows c 0 latch_start days ! i) = la_state (latch_after c (vote_at days) (Suc i))"
    "gr_flip (latch_rows c 0 latch_start days ! i)
      = (la_state (latch_after c (vote_at days) (Suc i)) \<noteq> la_prev (latch_after c (vote_at days) i))"
    "gr_dwell (latch_rows c 0 latch_start days ! i) = la_dwell (latch_after c (vote_at days) (Suc i))"
  using latch_rows_nth [of i days "vote_at days" 0 c] assms by simp_all

lemma latch_after_streaks:
  "la_on (latch_after c v (Suc t)) = run_of True v t" "la_off (latch_after c v (Suc t)) = run_of False v t"
  "la_prev (latch_after c v t) = la_state (latch_after c v t)"
proof -
  show "la_prev (latch_after c v t) = la_state (latch_after c v t)"
    by (cases t) (simp_all add: latch_start_def Let_def)
  show "la_on (latch_after c v (Suc t)) = run_of True v t" "la_off (latch_after c v (Suc t)) = run_of False v t"
    by (induction t) (simp_all add: latch_start_def latch_state_def Let_def)
qed

text \<open>One step: a confirmed vote sets the state, otherwise it stays.\<close>

lemma latch_after_step:
  assumes "1 \<le> c"
  shows "la_state (latch_after c v (Suc t))
    = (if run_of True v t \<ge> c then Risk_off else if run_of False v t \<ge> c then Risk_on
       else la_state (latch_after c v t))"
proof -
  have both: "\<not> (run_of True v t \<ge> c \<and> run_of False v t \<ge> c)" using assms by (cases t) auto
  have e: "la_state (latch_after c v (Suc t)) =
      (if la_state (latch_after c v t) = Risk_on \<and> la_on (latch_after c v (Suc t)) \<ge> c then Risk_off
       else if la_state (latch_after c v t) = Risk_off \<and> la_off (latch_after c v (Suc t)) \<ge> c then Risk_on
       else la_state (latch_after c v t))"
    by (simp add: latch_state_def Let_def)
  show ?thesis unfolding e latch_after_streaks using both by (cases "la_state (latch_after c v t)") auto
qed

declare latch_after.simps [simp del] run_of.simps [simp del]

lemma latch_after_off:
  assumes "1 \<le> c"
  shows "la_state (latch_after c v (Suc t)) = Risk_off
    \<longleftrightarrow> (\<exists>s \<le> t. run_of True v s \<ge> c \<and> (\<forall>u. s < u \<and> u \<le> t \<longrightarrow> \<not> run_of False v u \<ge> c))"
proof (induction t)
  case 0
  then show ?case using latch_after_step [OF assms, of v 0] by (simp add: latch_start_def latch_after.simps(1))
next
  case (Suc t)
  note step = latch_after_step [OF assms, of v "Suc t"]
  consider "run_of True v (Suc t) \<ge> c" | "\<not> run_of True v (Suc t) \<ge> c" "run_of False v (Suc t) \<ge> c"
    | "\<not> run_of True v (Suc t) \<ge> c" "\<not> run_of False v (Suc t) \<ge> c" by blast
  then show ?case
  proof cases
    case 1
    then show ?thesis unfolding step by (auto intro!: exI [of _ "Suc t"])
  next
    case 2
    have "\<not> (\<exists>s \<le> Suc t. run_of True v s \<ge> c \<and> (\<forall>u. s < u \<and> u \<le> Suc t \<longrightarrow> \<not> run_of False v u \<ge> c))"
    proof
      assume "\<exists>s \<le> Suc t. run_of True v s \<ge> c \<and> (\<forall>u. s < u \<and> u \<le> Suc t \<longrightarrow> \<not> run_of False v u \<ge> c)"
      then obtain s where "s \<le> Suc t" "run_of True v s \<ge> c" "\<forall>u. s < u \<and> u \<le> Suc t \<longrightarrow> \<not> run_of False v u \<ge> c"
        by blast
      then show False using 2 by (cases "s = Suc t") simp_all
    qed
    then show ?thesis unfolding step using 2 by simp
  next
    case 3
    have "(\<exists>s \<le> Suc t. run_of True v s \<ge> c \<and> (\<forall>u. s < u \<and> u \<le> Suc t \<longrightarrow> \<not> run_of False v u \<ge> c))
      \<longleftrightarrow> (\<exists>s \<le> t. run_of True v s \<ge> c \<and> (\<forall>u. s < u \<and> u \<le> t \<longrightarrow> \<not> run_of False v u \<ge> c))"
      using 3 by (auto simp: le_Suc_eq)
    then show ?thesis unfolding step using 3 Suc.IH by simp
  qed
qed

lemma held_run: "1 \<le> c \<Longrightarrow> t < length votes \<Longrightarrow> held c b votes t \<longleftrightarrow> run_of b (\<lambda>i. votes ! i) t \<ge> c"
  by (simp add: run_of_ge held_def)

lemma run_of_cong: "(\<And>i. i \<le> t \<Longrightarrow> v i = w i) \<Longrightarrow> run_of b v t = run_of b w t"
  by (induction t) (simp_all add: run_of.simps)

text \<open>What \<open>build_rows\<close> returns, in terms of the days and the latch.\<close>

lemma build_rows_InrD:
  assumes "build_rows cfg dates spy ratio breakeven = Inr rows"
  shows "\<exists>days. mapE (gate_day_of cfg dates spy ratio breakeven) [0..<length dates] = Inr days \<and>
    rows = latch_rows (gc_confirm cfg) 0 latch_start days \<and> length days = length dates"
proof -
  obtain days where "mapE (gate_day_of cfg dates spy ratio breakeven) [0..<length dates] = Inr days"
      "rows = latch_rows (gc_confirm cfg) 0 latch_start days"
    using assms by (auto simp: build_rows_def Let_def bindE_Inr_iff split: if_splits)
  then show ?thesis using mapE_Inr_length [of "gate_day_of cfg dates spy ratio breakeven" "[0..<length dates]" days] by simp
qed

definition raw_votes :: "gate_row list \<Rightarrow> bool list" where
  "raw_votes rows = map (\<lambda>r. gd_votes (gr_day r) \<ge> 2) rows"

lemma raw_votes_run:
  assumes "rows = latch_rows c 0 latch_start days" "t < length rows" "1 \<le> c"
  shows "held c b (raw_votes rows) t \<longleftrightarrow> run_of b (vote_at days) t \<ge> c"
proof -
  have votes: "raw_votes rows = map (\<lambda>x. gd_votes x \<ge> 2) days"
    using arg_cong [OF latch_rows_days [of c 0 latch_start days], of "map (\<lambda>x. gd_votes x \<ge> 2)"]
    by (simp add: raw_votes_def assms(1) comp_def)
  have "run_of b (\<lambda>i. raw_votes rows ! i) t = run_of b (vote_at days) t"
    unfolding votes by (rule run_of_cong) (use assms(1,2) in \<open>simp add: vote_at_def\<close>)
  moreover have "t < length (raw_votes rows)" using assms(2) by (simp add: raw_votes_def)
  ultimately show ?thesis using held_run [OF assms(3), of t "raw_votes rows" b] by simp
qed

text \<open>
  C25: the gate is a debounce. On a day of a run the latched state is risk-off exactly when some
  day up to it ended a spell of at least \<open>gate_confirm\<close> raw risk-off votes and no day after that
  ended such a spell of the opposite vote: shorter bursts never move the state.
\<close>

theorem gate_is_debounce:
  assumes "build_rows cfg dates spy ratio breakeven = Inr rows" "1 \<le> gc_confirm cfg" "t < length rows"
  shows "gr_state (rows ! t) = Risk_off
    \<longleftrightarrow> (\<exists>s \<le> t. held (gc_confirm cfg) True (raw_votes rows) s \<and>
           (\<forall>u. s < u \<and> u \<le> t \<longrightarrow> \<not> held (gc_confirm cfg) False (raw_votes rows) u))"
proof -
  obtain days where d: "rows = latch_rows (gc_confirm cfg) 0 latch_start days"
    using build_rows_InrD [OF assms(1)] by blast
  have run: "held (gc_confirm cfg) b (raw_votes rows) u \<longleftrightarrow> run_of b (vote_at days) u \<ge> gc_confirm cfg" if "u \<le> t" for b u
    using raw_votes_run [OF d _ assms(2)] that assms(3) by simp
  have "gr_state (rows ! t) = la_state (latch_after (gc_confirm cfg) (vote_at days) (Suc t))"
    using latch_rows_at(1) [of t days "gc_confirm cfg"] assms(3) d by simp
  then show ?thesis using latch_after_off [OF assms(2), of "vote_at days" t] run by auto
qed

text \<open>A flip to a state comes at the end of a confirmed spell of its vote.\<close>

lemma flip_run:
  assumes "1 \<le> c" "la_state (latch_after c v (Suc t)) \<noteq> la_state (latch_after c v t)"
  shows "run_of (la_state (latch_after c v (Suc t)) = Risk_off) v t \<ge> c"
  using assms(2) unfolding latch_after_step [OF assms(1)] by (auto split: if_splits)

lemma state_between:
  assumes "i \<le> j" "la_state (latch_after c v i) \<noteq> la_state (latch_after c v j)"
  shows "\<exists>k. i \<le> k \<and> k < j \<and> la_state (latch_after c v (Suc k)) = la_state (latch_after c v j) \<and>
    la_state (latch_after c v (Suc k)) \<noteq> la_state (latch_after c v k)"
  using assms
proof (induction j)
  case (Suc j)
  show ?case
  proof (cases "la_state (latch_after c v (Suc j)) = la_state (latch_after c v j)")
    case True
    then have "i \<le> j" using Suc.prems by (metis le_SucE)
    then show ?thesis using Suc True by (metis less_Suc_eq)
  next
    case False
    have "i \<le> j" using Suc.prems by (metis le_SucE)
    then show ?thesis using False by blast
  qed
qed simp

lemma flips_apart:
  assumes "1 \<le> c" "i < j"
    and i: "la_state (latch_after c v (Suc i)) \<noteq> la_state (latch_after c v i)"
    and j: "la_state (latch_after c v (Suc j)) \<noteq> la_state (latch_after c v j)"
  shows "c \<le> int j - int i"
proof -
  let ?s = "\<lambda>t. la_state (latch_after c v t)"
  have last: "\<exists>k. i \<le> k \<and> k < j \<and> ?s (Suc k) = ?s j \<and> ?s (Suc k) \<noteq> ?s k"
  proof (cases "?s (Suc i) = ?s j")
    case True
    then show ?thesis using i assms(2) by auto
  next
    case False
    then show ?thesis using state_between [of "Suc i" j c v] assms(2) by (meson Suc_leD Suc_leI)
  qed
  then obtain k where k: "i \<le> k" "k < j" "?s (Suc k) = ?s j" "?s (Suc k) \<noteq> ?s k" by blast
  have vk: "\<forall>m \<le> k. int (k - m) < c \<longrightarrow> v m = (?s (Suc k) = Risk_off)"
    by (rule conjunct2 [OF iffD1 [OF run_of_ge [OF assms(1)] flip_run [OF assms(1) k(4)]]])
  have "v k = (?s (Suc k) = Risk_off)" by (rule vk [rule_format, OF le_refl]) (use assms(1) in simp)
  have vj: "\<forall>m \<le> j. int (j - m) < c \<longrightarrow> v m = (?s (Suc j) = Risk_off)"
    by (rule conjunct2 [OF iffD1 [OF run_of_ge [OF assms(1)] flip_run [OF assms(1) j]]])
  have ne: "(?s (Suc j) = Risk_off) \<noteq> (?s (Suc k) = Risk_off)" using j unfolding k(3) by (cases "?s (Suc j)"; cases "?s j") auto
  have "\<not> int (j - k) < c"
  proof
    assume "int (j - k) < c"
    from vj [rule_format, OF less_imp_le [OF k(2)] this] have "v k = (?s (Suc j) = Risk_off)" .
    with \<open>v k = (?s (Suc k) = Risk_off)\<close> ne show False by blast
  qed
  then show ?thesis using k(1,2) by linarith
qed

text \<open>
  The gate cannot chatter. Two days on which the latched state flips are at least
  \<open>gate_confirm\<close> days apart, the first flip is not before day \<open>gate_confirm\<close>, and a flip day is
  the end of \<open>gate_confirm\<close> equal votes.
\<close>

theorem gate_flips_apart:
  assumes "build_rows cfg dates spy ratio breakeven = Inr rows" "1 \<le> gc_confirm cfg"
    and "j < length rows" "gr_flip (rows ! j)"
  shows "gc_confirm cfg \<le> int j + 1 \<and>
    held (gc_confirm cfg) (gr_state (rows ! j) = Risk_off) (raw_votes rows) j \<and>
    (\<forall>i < j. gr_flip (rows ! i) \<longrightarrow> gc_confirm cfg \<le> int j - int i)"
proof -
  let ?c = "gc_confirm cfg"
  obtain days where d: "rows = latch_rows ?c 0 latch_start days"
    using build_rows_InrD [OF assms(1)] by blast
  have flip: "gr_flip (rows ! k) \<longleftrightarrow> la_state (latch_after ?c (vote_at days) (Suc k)) \<noteq> la_state (latch_after ?c (vote_at days) k)"
    if "k \<le> j" for k
    using latch_rows_at(2) [of k days ?c] that assms(3) unfolding d latch_after_streaks(3) by simp
  have state: "gr_state (rows ! j) = la_state (latch_after ?c (vote_at days) (Suc j))"
    using latch_rows_at(1) [of j days ?c] assms(3) unfolding d by simp
  have fj: "la_state (latch_after ?c (vote_at days) (Suc j)) \<noteq> la_state (latch_after ?c (vote_at days) j)"
    using flip [of j] assms(4) by simp
  have run: "run_of (gr_state (rows ! j) = Risk_off) (vote_at days) j \<ge> ?c" using flip_run [OF assms(2) fj] by (simp only: state)
  then have "held ?c (gr_state (rows ! j) = Risk_off) (raw_votes rows) j"
    by (simp only: raw_votes_run [OF d assms(3,2)])
  moreover have "?c \<le> int j + 1" using run run_of_range(2) order_trans by blast
  moreover have "?c \<le> int j - int i" if "i < j" "gr_flip (rows ! i)" for i
    by (rule flips_apart [OF assms(2) that(1) _ fj]) (use flip [of i] that in simp)
  ultimately show ?thesis by blast
qed

subsection \<open>Later prices change nothing\<close>

lemma gate_day_take:
  assumes "t < n"
  shows "gate_day_of cfg (take n dates) (take n spy) (take n ratio) (take n breakeven) t
    = gate_day_of cfg dates spy ratio breakeven t"
  using assms by (simp add: gate_day_of_def trailing_mean_def credit_mean_def day_quadrant_def slice_take)

lemma build_rows_take:
  assumes "build_rows cfg dates spy ratio breakeven = Inr rows"
  shows "build_rows cfg (take n dates) (take n spy) (take n ratio) (take n breakeven) = Inr (take n rows)"
proof -
  obtain days where d: "mapE (gate_day_of cfg dates spy ratio breakeven) [0..<length dates] = Inr days"
      "rows = latch_rows (gc_confirm cfg) 0 latch_start days"
    using build_rows_InrD [OF assms] by blast
  have len: "length spy = length dates" "length ratio = length dates" "length breakeven = length dates"
    using assms by (auto simp: build_rows_def Let_def split: if_splits)
  have "take n [0..<length dates] = [0..<length (take n dates)]" by (simp add: take_upt min_def)
  moreover have "mapE (gate_day_of cfg (take n dates) (take n spy) (take n ratio) (take n breakeven)) [0..<length (take n dates)]
      = mapE (gate_day_of cfg dates spy ratio breakeven) [0..<length (take n dates)]"
    by (rule mapE_cong) (simp add: gate_day_take)
  ultimately have "mapE (gate_day_of cfg (take n dates) (take n spy) (take n ratio) (take n breakeven)) [0..<length (take n dates)]
      = Inr (take n days)"
    using mapE_take [OF d(1), of n] by simp
  then show ?thesis by (simp add: build_rows_def Let_def len d(2) latch_rows_take)
qed

lemma align_days_Cons:
  "align_days h i t lasts (p # xs) =
     (if snd p = None \<or> the (snd p) \<le> 0 then align_days h i t lasts xs
      else (fst p, the (snd p), ratio_of (carry h (fst p) (fst lasts)) (carry i (fst p) (fst (snd lasts))),
            ratio_of (carry t (fst p) (snd (snd lasts))) (carry i (fst p) (fst (snd lasts))))
        # align_days h i t (carry h (fst p) (fst lasts), carry i (fst p) (fst (snd lasts)), carry t (fst p) (snd (snd lasts))) xs)"
  by (cases p; cases lasts) (simp add: Let_def)

lemma align_days_dates: "x \<in> set (align_days h i t lasts xs) \<Longrightarrow> fst x \<in> fst ` set xs"
  by (induction xs arbitrary: lasts) (auto simp: align_days_Cons split: if_splits)

lemma align_days_sorted: "sorted (map fst xs) \<Longrightarrow> sorted (map fst (align_days h i t lasts xs))"
proof (induction xs arbitrary: lasts)
  case (Cons p xs)
  have "\<forall>x \<in> set (align_days h i t l xs). fst p \<le> fst x" for l
    using Cons.prems by (auto dest!: align_days_dates)
  then show ?case using Cons by (simp add: align_days_Cons)
qed simp

lemma align_days_until:
  assumes "sorted (map fst xs)"
    and "\<And>d. d \<le> last_day \<Longrightarrow> dict_get h' d = dict_get h d \<and> dict_get i' d = dict_get i d \<and> dict_get t' d = dict_get t d"
  shows "align_days h' i' t' lasts (filter (\<lambda>p. fst p \<le> last_day) xs)
    = filter (\<lambda>x. fst x \<le> last_day) (align_days h i t lasts xs)"
  using assms(1)
proof (induction xs arbitrary: lasts)
  case (Cons p xs)
  show ?case
  proof (cases "fst p \<le> last_day")
    case True
    have "carry h' (fst p) v = carry h (fst p) v" "carry i' (fst p) v = carry i (fst p) v"
      "carry t' (fst p) v = carry t (fst p) v" for v
      using assms(2) [OF True] by (simp_all add: carry_def)
    then show ?thesis using Cons True by (simp add: align_days_Cons)
  next
    case False
    then have none: "\<forall>q \<in> set (p # xs). \<not> fst q \<le> last_day" using Cons.prems by auto
    have "\<forall>x \<in> set (align_days h i t lasts (p # xs)). \<not> fst x \<le> last_day"
      using none align_days_dates [of _ h i t lasts "p # xs"] by (metis imageE)
    then have "filter (\<lambda>x. fst x \<le> last_day) (align_days h i t lasts (p # xs)) = []" by (rule filter_False)
    moreover have "filter (\<lambda>q. fst q \<le> last_day) (p # xs) = []" using none by (rule filter_False)
    moreover have "align_days h' i' t' lasts [] = []" by (cases lasts) simp
    ultimately show ?thesis by (simp only:)
  qed
qed simp

lemma gate_day_of_date:
  assumes "gate_day_of cfg dates spy ratio breakeven t = Inr x"
  shows "gd_date x = dates ! t"
proof -
  obtain a b where ab: "trailing_mean spy t (gc_trend cfg) = Inr a" "credit_mean ratio t (gc_credit cfg) = Inr b"
    using assms by (auto simp: gate_day_of_def bindE_Inr_iff)
  obtain q where q: "day_quadrant cfg spy breakeven t = q" by blast
  show ?thesis
    using assms by (cases q; cases "snd q") (auto simp: gate_day_of_def ab q gate_votes_def Let_def)
qed

lemma build_rows_dates:
  assumes "build_rows cfg dates spy ratio breakeven = Inr rows"
  shows "map (\<lambda>r. gd_date (gr_day r)) rows = dates"
proof -
  obtain days where d: "mapE (gate_day_of cfg dates spy ratio breakeven) [0..<length dates] = Inr days"
      "rows = latch_rows (gc_confirm cfg) 0 latch_start days"
    using build_rows_InrD [OF assms] by blast
  have "map gd_date days = map (\<lambda>t. dates ! t) [0..<length dates]"
    using d(1) unfolding mapE_Inr_iff
    by (auto simp: list_all2_conv_all_nth intro!: nth_equalityI gate_day_of_date)
  then show ?thesis
    using arg_cong [OF latch_rows_days [of "gc_confirm cfg" 0 latch_start days], of "map gd_date"]
    by (simp add: d(2) comp_def map_nth)
qed

text \<open>
  The gate never looks ahead. Cutting every price history at a day leaves exactly the rows
  up to that day: votes, latched state, flips, dwell and quadrant of a day do not depend on any
  later price, missing or late prints included.
\<close>

theorem gate_no_look_ahead:
  assumes "gate_run cfg spy hyg ief tip = Inr rows"
    and "until_day d spy \<noteq> []" "until_day d hyg \<noteq> []" "until_day d ief \<noteq> []"
  shows "gate_run cfg (until_day d spy) (until_day d hyg) (until_day d ief) (until_day d tip)
    = Inr (filter (\<lambda>r. gd_date (gr_day r) \<le> d) rows)"
proof -
  let ?until = "\<lambda>x :: aligned_day. fst x \<le> d"
  define days where "days = align_days (positive_prices hyg) (positive_prices ief) (positive_prices tip)
      (None, None, None) (sort_key fst spy)"
  define cut where "cut = filter ?until days"
  define n where "n = length cut"
  have ne: "spy \<noteq> []" "hyg \<noteq> []" "ief \<noteq> []" using assms(1) by (auto simp: gate_run_def split: if_splits)
  have full: "build_rows cfg (map fst days) (map (\<lambda>(d, p, r, b). p) days) (map (\<lambda>(d, p, r, b). r) days)
      (map (\<lambda>(d, p, r, b). b) days) = Inr rows"
    using assms(1) ne by (simp add: gate_run_def align_def Let_def days_def)
  have sorted: "sorted (map fst days)" unfolding days_def by (rule align_days_sorted) simp
  have "align_days (positive_prices (until_day d hyg)) (positive_prices (until_day d ief)) (positive_prices (until_day d tip))
      (None, None, None) (sort_key fst (until_day d spy)) = cut"
    unfolding until_day_def filter_sort [symmetric] cut_def days_def
    by (rule align_days_until) (simp_all add: positive_prices_until [of "\<lambda>e. e \<le> d"])
  then have "gate_run cfg (until_day d spy) (until_day d hyg) (until_day d ief) (until_day d tip)
      = build_rows cfg (map fst cut) (map (\<lambda>(d, p, r, b). p) cut) (map (\<lambda>(d, p, r, b). r) cut) (map (\<lambda>(d, p, r, b). b) cut)"
    using assms(2-4) by (simp add: gate_run_def align_def Let_def)
  also have "cut = take n days" unfolding cut_def n_def using filter_sorted_take [OF sorted, of d] .
  then have "build_rows cfg (map fst cut) (map (\<lambda>(d, p, r, b). p) cut) (map (\<lambda>(d, p, r, b). r) cut) (map (\<lambda>(d, p, r, b). b) cut)
      = Inr (take n rows)"
    using build_rows_take [OF full, of n] by (simp add: take_map)
  also have "take n rows = filter (\<lambda>r. gd_date (gr_day r) \<le> d) rows"
  proof -
    have dates: "map (\<lambda>r. gd_date (gr_day r)) rows = map fst days" by (rule build_rows_dates [OF full])
    have "length (filter (\<lambda>r. gd_date (gr_day r) \<le> d) rows) = length (filter (\<lambda>e. e \<le> d) (map (\<lambda>r. gd_date (gr_day r)) rows))"
      by (simp add: filter_map comp_def)
    also have "\<dots> = n" unfolding dates by (simp add: filter_map comp_def n_def cut_def)
    finally show ?thesis
      using filter_sorted_take [of "\<lambda>r. gd_date (gr_day r)" rows d] sorted dates by simp
  qed
  finally show ?thesis .
qed

subsection \<open>The gate at concrete prices\<close>

text \<open>A gate over windows of one day that confirms a vote after two, and three falling days.\<close>

definition short_gate :: gate_config where
  "short_gate = \<lparr> gc_confirm = 2, gc_dd = 6 / 100, gc_trend = 1, gc_credit = 1, gc_stress = 1, gc_growth = 1, gc_inflation = 1 \<rparr>"

definition falling_days :: "date list" where "falling_days = [Date 2024 1 2, Date 2024 1 3, Date 2024 1 4]"

definition falling_spy :: price_history where
  "falling_spy = zip falling_days [Some 100, Some 90, Some 80]"

definition falling_hyg :: price_history where "falling_hyg = [(Date 2024 1 2, Some 70)]"

definition falling_ief :: price_history where "falling_ief = [(Date 2024 1 2, Some 100)]"

lemmas gate_eval = short_gate_def build_rows_def gate_day_of_def trailing_mean_def credit_mean_def day_quadrant_def mean_of_def
  market_stress_def gate_votes_def below_def slice_def STRESS_FULL_DD_def upt_rec eval_nat_numeral

lemma falling_rows:
  "\<exists>rows. build_rows short_gate falling_days [100, 90, 80] [Some (7 / 10), Some (7 / 10), Some (7 / 10)] [None, None, None] = Inr rows \<and>
     length rows = 3 \<and> gr_state (rows ! 2) = Risk_off \<and> gr_flip (rows ! 2)"
  by (simp add: gate_eval falling_days_def latch_start_def latch_state_def map_filter_simps)

lemma falling_align:
  "align falling_spy falling_hyg falling_ief [] = Inr (falling_days, [100, 90, 80], [Some (7 / 10), Some (7 / 10), Some (7 / 10)], [None, None, None])"
  by (simp add: align_def Let_def falling_spy_def falling_days_def falling_hyg_def falling_ief_def positive_prices_def carry_def
     ratio_of_def less_eq_date_def dict_update_def)

lemma falling_run: "gate_run short_gate falling_spy falling_hyg falling_ief []
    = build_rows short_gate falling_days [100, 90, 80] [Some (7 / 10), Some (7 / 10), Some (7 / 10)] [None, None, None]"
  unfolding gate_run_def falling_align by (simp add: falling_spy_def falling_days_def falling_hyg_def falling_ief_def)

theorem gate_is_debounce_witness:
  "\<exists>rows. build_rows short_gate falling_days [100, 90, 80] [Some (7 / 10), Some (7 / 10), Some (7 / 10)] [None, None, None] = Inr rows \<and>
     gr_state (rows ! 2) = Risk_off \<and>
     (\<exists>s \<le> 2. held 2 True (raw_votes rows) s)"
proof -
  obtain rows where r: "build_rows short_gate falling_days [100, 90, 80] [Some (7 / 10), Some (7 / 10), Some (7 / 10)] [None, None, None] = Inr rows"
    "length rows = 3" "gr_state (rows ! 2) = Risk_off" using falling_rows by blast
  have "\<exists>s \<le> 2. held (gc_confirm short_gate) True (raw_votes rows) s"
  proof -
    have "1 \<le> gc_confirm short_gate" "2 < length rows" using r(2) by (simp_all add: short_gate_def)
    from iffD1 [OF gate_is_debounce [OF r(1) this] r(3)] show ?thesis by blast
  qed
  moreover have "gc_confirm short_gate = 2" by (simp add: short_gate_def)
  ultimately show ?thesis using r(1,3) by metis
qed

theorem gate_flips_apart_witness:
  "\<exists>rows. build_rows short_gate falling_days [100, 90, 80] [Some (7 / 10), Some (7 / 10), Some (7 / 10)] [None, None, None] = Inr rows \<and>
     gr_flip (rows ! 2) \<and> held 2 (gr_state (rows ! 2) = Risk_off) (raw_votes rows) 2"
proof -
  obtain rows where r: "build_rows short_gate falling_days [100, 90, 80] [Some (7 / 10), Some (7 / 10), Some (7 / 10)] [None, None, None] = Inr rows"
    "length rows = 3" "gr_flip (rows ! 2)" using falling_rows by blast
  then show ?thesis using gate_flips_apart [OF r(1), of 2] by (simp add: short_gate_def)
qed

theorem gate_no_look_ahead_witness:
  "\<exists>rows. gate_run short_gate falling_spy falling_hyg falling_ief [] = Inr rows \<and>
     gate_run short_gate (until_day (Date 2024 1 3) falling_spy) (until_day (Date 2024 1 3) falling_hyg)
       (until_day (Date 2024 1 3) falling_ief) (until_day (Date 2024 1 3) [])
     = Inr (filter (\<lambda>r. gd_date (gr_day r) \<le> Date 2024 1 3) rows)"
proof -
  obtain rows where r: "gate_run short_gate falling_spy falling_hyg falling_ief [] = Inr rows"
    using falling_rows falling_run by auto
  show ?thesis
    using r gate_no_look_ahead [OF r, of "Date 2024 1 3"]
    by (simp add: until_day_def falling_spy_def falling_days_def falling_hyg_def falling_ief_def less_eq_date_def)
qed
end
