(* ===== verification/Credit_Regime.thy ===== *)
theory Credit_Regime
  imports Price_Series
begin

text \<open>
  The binary credit detector (\<open>src/workers/credit_regime.py\<close>): the percentile bands of the
  HYG/IEF ratio over the previous observations, the asymmetric hysteresis between them, the
  graded stress score and the daily rows. The bands and ramp ends that the code reads from the
  environment are parameters; \<open>round\<close> is decimal rounding, ties to even.
\<close>

definition MIN_OBS :: nat where "MIN_OBS = 252"

definition WINDOW_MAX :: nat where "WINDOW_MAX = 1260"

definition PCTL :: real where "PCTL = 20 / 100"

record credit_config =
  cc_entry :: real
  cc_exit :: real
  cc_calm :: real
  cc_panic :: real

definition credit_defaults :: credit_config where
  "credit_defaults = \<lparr> cc_entry = PCTL, cc_exit = PCTL, cc_calm = 50 / 100, cc_panic = 5 / 100 \<rparr>"

subsection \<open>The pure engine\<close>

definition percentile :: "real list \<Rightarrow> real \<Rightarrow> py_error + real option" where
  "percentile window q =
     (let n = length window
      in if n < MIN_OBS then Inr None
         else bindE (py_nth (sort window) (min (int n - 1) (real_int (q * (real n - 1))))) (\<lambda>x. Inr (Some x)))"

definition percentile_20 :: "real list \<Rightarrow> py_error + real option" where
  "percentile_20 window = percentile window PCTL"

definition next_state :: "risk \<Rightarrow> real \<Rightarrow> real option \<Rightarrow> real option \<Rightarrow> risk" where
  "next_state prev_state ratio p_entry p_exit =
     (if prev_state = Risk_off then
        (case p_exit of None \<Rightarrow> Risk_on | Some p \<Rightarrow> if ratio \<ge> p then Risk_on else Risk_off)
      else (case p_entry of None \<Rightarrow> Risk_on | Some p \<Rightarrow> if ratio < p then Risk_off else Risk_on))"

definition stress_score :: "credit_config \<Rightarrow> real \<Rightarrow> real list \<Rightarrow> real option" where
  "stress_score cfg ratio window =
     (let n = length window; width = cc_calm cfg - cc_panic cfg
      in if n < MIN_OBS then None
         else if width \<le> 0 then Some 0
         else (let rank = real (length (filter (\<lambda>v. v \<le> ratio) window)) / real n;
                   frac = (cc_calm cfg - rank) / width
               in Some (100 * min 1 (max 0 frac))))"

record credit_row =
  cr_date :: date
  cr_state :: risk
  cr_hyg :: real
  cr_ief :: real
  cr_ratio :: real
  cr_p20 :: "real option"
  cr_p_exit :: "real option"
  cr_stress :: "real option"
  cr_n_window :: nat
  cr_flip :: bool

type_synonym aligned_pair = "date \<times> real \<times> real"

definition credit_aligned :: "price_history \<Rightarrow> price_history \<Rightarrow> aligned_pair list" where
  "credit_aligned hyg ief =
     (let ief_map = positive_prices ief
      in sort_key fst (concat (map (\<lambda>(d, v). case (v, dict_get ief_map d) of
           (Some p, Some i) \<Rightarrow> if p > 0 then [(d, p, i)] else [] | _ \<Rightarrow> []) hyg)))"

definition pair_ratio :: "aligned_pair \<Rightarrow> real" where
  "pair_ratio x = (case x of (d, h, i) \<Rightarrow> h / i)"

definition credit_row_of :: "credit_config \<Rightarrow> real list \<Rightarrow> risk \<Rightarrow> aligned_pair \<Rightarrow> py_error + credit_row" where
  "credit_row_of cfg window prev_state x =
     (case x of (d, hyg_close, ief_close) \<Rightarrow>
        bindE (percentile window (cc_entry cfg)) (\<lambda>p_entry.
        bindE (percentile window (cc_exit cfg)) (\<lambda>p_exit.
          let ratio = pair_ratio x;
              state = next_state prev_state ratio p_entry p_exit
          in Inr \<lparr> cr_date = d, cr_state = state, cr_hyg = round_to 6 hyg_close, cr_ief = round_to 6 ief_close,
               cr_ratio = round_to 8 ratio, cr_p20 = map_option (round_to 8) p_entry,
               cr_p_exit = map_option (round_to 8) p_exit,
               cr_stress = map_option (round_to 3) (stress_score cfg ratio window),
               cr_n_window = length window, cr_flip = (state \<noteq> prev_state) \<rparr>)))"

text \<open>The ratio of the day enters the window after the day is judged.\<close>

definition push_ratio :: "real \<Rightarrow> real list \<Rightarrow> real list" where
  "push_ratio ratio window =
     (let w = window @ [ratio] in if length w > WINDOW_MAX then tl w else w)"

fun credit_rows :: "credit_config \<Rightarrow> real list \<Rightarrow> risk \<Rightarrow> aligned_pair list \<Rightarrow> py_error + credit_row list" where
  "credit_rows cfg window prev_state [] = Inr []"
| "credit_rows cfg window prev_state (x # xs) =
     bindE (credit_row_of cfg window prev_state x) (\<lambda>row.
     bindE (credit_rows cfg (push_ratio (pair_ratio x) window) (cr_state row) xs) (\<lambda>rows. Inr (row # rows)))"

definition compute_regime :: "credit_config \<Rightarrow> price_history \<Rightarrow> price_history \<Rightarrow> py_error + credit_row list" where
  "compute_regime cfg hyg ief = credit_rows cfg [] Risk_on (credit_aligned hyg ief)"

record credit_summary =
  cs_days :: nat
  cs_state :: risk
  cs_stress :: "real option"
  cs_entry :: real
  cs_exit :: real
  cs_flips :: nat
  cs_last_flip :: "string option"
  cs_calc_date :: string

definition credit_summary_of :: "credit_config \<Rightarrow> credit_row list \<Rightarrow> credit_summary" where
  "credit_summary_of cfg rows =
     (let flips = filter cr_flip rows
      in \<lparr> cs_days = length rows, cs_state = cr_state (last rows), cs_stress = cr_stress (last rows),
           cs_entry = cc_entry cfg, cs_exit = cc_exit cfg, cs_flips = length flips,
           cs_last_flip = (if flips = [] then None else Some (isoformat (cr_date (last flips)))),
           cs_calc_date = isoformat (cr_date (last rows)) \<rparr>)"

text \<open>A run: both histories and their join must be nonempty.\<close>

definition credit_run ::
  "credit_config \<Rightarrow> price_history \<Rightarrow> price_history \<Rightarrow> py_error + credit_row list \<times> credit_summary" where
  "credit_run cfg hyg ief =
     (if hyg = [] \<or> ief = [] then Inl RuntimeError
      else bindE (compute_regime cfg hyg ief) (\<lambda>rows.
             if rows = [] then Inl RuntimeError else Inr (rows, credit_summary_of cfg rows)))"

subsection \<open>The bands\<close>

lemma real_int_index:
  assumes "0 \<le> q" "q \<le> 1" "0 < n"
  shows "min (int n - 1) (real_int (q * (real n - 1))) = \<lfloor>q * (real n - 1)\<rfloor>"
    and "0 \<le> \<lfloor>q * (real n - 1)\<rfloor>" and "\<lfloor>q * (real n - 1)\<rfloor> < int n"
proof -
  have nn: "0 \<le> q * (real n - 1)" using assms by simp
  have "q * (real n - 1) \<le> 1 * (real n - 1)" by (rule mult_right_mono) (use assms in simp_all)
  then have "real_of_int \<lfloor>q * (real n - 1)\<rfloor> \<le> real_of_int (int n - 1)" by simp linarith
  then have le: "\<lfloor>q * (real n - 1)\<rfloor> \<le> int n - 1" by (simp only: of_int_le_iff)
  show "min (int n - 1) (real_int (q * (real n - 1))) = \<lfloor>q * (real n - 1)\<rfloor>"
    using nn le by (simp add: real_int_def min_def)
  show "0 \<le> \<lfloor>q * (real n - 1)\<rfloor>" using nn by simp
  show "\<lfloor>q * (real n - 1)\<rfloor> < int n" using le by linarith
qed

text \<open>With a fraction between 0 and 1 the percentile never raises: it is an order statistic.\<close>

lemma percentile_value:
  assumes "0 \<le> q" "q \<le> 1"
  shows "percentile window q = Inr (if length window < MIN_OBS then None
    else Some (sort window ! nat \<lfloor>q * (real (length window) - 1)\<rfloor>))"
proof (cases "length window < MIN_OBS")
  case False
  then have "0 < length window" unfolding MIN_OBS_def by linarith
  note i = real_int_index [OF assms this]
  show ?thesis using False i by (simp add: percentile_def Let_def py_nth_def)
qed (simp add: percentile_def)

lemma band_mono:
  assumes "0 \<le> q" "q \<le> q'" "q' \<le> 1" "xs \<noteq> []"
  shows "sort xs ! nat \<lfloor>q * (real (length xs) - 1)\<rfloor> \<le> sort xs ! nat \<lfloor>q' * (real (length xs) - 1)\<rfloor>"
proof (rule sorted_nth_mono)
  have len: "0 < length xs" "1 \<le> real (length xs)" using assms(4) by (simp_all add: Suc_le_eq)
  have "q * (real (length xs) - 1) \<le> q' * (real (length xs) - 1)"
    by (rule mult_right_mono) (use assms(2) len in simp_all)
  then show "nat \<lfloor>q * (real (length xs) - 1)\<rfloor> \<le> nat \<lfloor>q' * (real (length xs) - 1)\<rfloor>" by (simp add: floor_mono nat_mono)
  show "nat \<lfloor>q' * (real (length xs) - 1)\<rfloor> < length (sort xs)"
    using real_int_index(2,3) [of q' "length xs"] assms len by (simp add: nat_less_iff)
qed simp

subsection \<open>The window\<close>

definition last_n :: "nat \<Rightarrow> 'a list \<Rightarrow> 'a list" where
  "last_n k xs = drop (length xs - k) xs"

lemma push_ratio_last_n: "push_ratio x (last_n WINDOW_MAX xs) = last_n WINDOW_MAX (xs @ [x])"
proof (cases "length xs < WINDOW_MAX")
  case False
  then have "Suc (length xs) - WINDOW_MAX = Suc (length xs - WINDOW_MAX)" by simp
  then show ?thesis using False by (simp add: push_ratio_def last_n_def WINDOW_MAX_def drop_Suc tl_drop)
qed (simp add: push_ratio_def last_n_def WINDOW_MAX_def)

lemma length_last_n: "length (last_n k xs) = min k (length xs)"
  by (simp add: last_n_def)

lemma last_n_short: "length xs \<le> k \<Longrightarrow> last_n k xs = xs"
  by (simp add: last_n_def)

text \<open>What the loop has seen when it reaches day \<open>i\<close>.\<close>

lemma credit_rows_nth:
  assumes "credit_rows cfg (last_n WINDOW_MAX seen) prev_state xs = Inr rows" "i < length xs"
  shows "credit_row_of cfg (last_n WINDOW_MAX (seen @ map pair_ratio (take i xs)))
    (if i = 0 then prev_state else cr_state (rows ! (i - 1))) (xs ! i) = Inr (rows ! i)"
  using assms
proof (induction xs arbitrary: seen prev_state rows i)
  case (Cons x xs)
  obtain row rest where r: "credit_row_of cfg (last_n WINDOW_MAX seen) prev_state x = Inr row"
      "credit_rows cfg (last_n WINDOW_MAX (seen @ [pair_ratio x])) (cr_state row) xs = Inr rest" "rows = row # rest"
    using Cons.prems(1) by (auto simp: bindE_Inr_iff push_ratio_last_n)
  show ?case
  proof (cases i)
    case 0
    then show ?thesis using r by simp
  next
    case (Suc j)
    then have "credit_row_of cfg (last_n WINDOW_MAX ((seen @ [pair_ratio x]) @ map pair_ratio (take j xs)))
        (if j = 0 then cr_state row else cr_state (rest ! (j - 1))) (xs ! j) = Inr (rest ! j)"
      using Cons.IH [OF r(2)] Cons.prems(2) by simp
    then show ?thesis using Suc r(3) by (cases j) simp_all
  qed
qed simp

lemma credit_rows_length: "credit_rows cfg w prev_state xs = Inr rows \<Longrightarrow> length rows = length xs"
  by (induction xs arbitrary: w prev_state rows) (auto simp: bindE_Inr_iff)

text \<open>The row of day \<open>i\<close>: its window, its bands and its state.\<close>

lemma compute_regime_row:
  assumes "compute_regime cfg hyg ief = Inr rows" "i < length rows"
    and "window = last_n WINDOW_MAX (map pair_ratio (take i (credit_aligned hyg ief)))"
  shows "credit_row_of cfg window (if i = 0 then Risk_on else cr_state (rows ! (i - 1))) (credit_aligned hyg ief ! i)
      = Inr (rows ! i)"
    and "length window = min WINDOW_MAX i"
proof -
  have run: "credit_rows cfg (last_n WINDOW_MAX []) Risk_on (credit_aligned hyg ief) = Inr rows"
    using assms(1) by (simp add: compute_regime_def last_n_def)
  have len: "length rows = length (credit_aligned hyg ief)" by (rule credit_rows_length [OF run])
  show "credit_row_of cfg window (if i = 0 then Risk_on else cr_state (rows ! (i - 1))) (credit_aligned hyg ief ! i)
      = Inr (rows ! i)"
    using credit_rows_nth [OF run, of i] assms(2) len by (simp add: assms(3))
  show "length window = min WINDOW_MAX i" using assms(2) len by (simp add: assms(3) length_last_n min_def)
qed

definition band :: "real list \<Rightarrow> real \<Rightarrow> real" where
  "band window q = sort window ! nat \<lfloor>q * (real (length window) - 1)\<rfloor>"

lemma credit_row_of_InrD:
  assumes "credit_row_of cfg window prev_state x = Inr row" "0 \<le> cc_entry cfg" "cc_entry cfg \<le> 1"
    "0 \<le> cc_exit cfg" "cc_exit cfg \<le> 1"
  shows "cr_state row = (if length window < MIN_OBS then Risk_on
      else next_state prev_state (pair_ratio x) (Some (band window (cc_entry cfg))) (Some (band window (cc_exit cfg))))"
    and "cr_date row = fst x" and "cr_n_window row = length window"
    and "cr_stress row = map_option (round_to 3) (stress_score cfg (pair_ratio x) window)"
    and "cr_flip row = (cr_state row \<noteq> prev_state)"
  using assms(1) unfolding percentile_value [OF assms(2,3)] percentile_value [OF assms(4,5)] credit_row_of_def
  by (auto simp: next_state_def band_def Let_def split: prod.splits if_splits risk.splits)

text \<open>
  C26: the credit detector is exactly the two-band rule over the previous five years of ratios.
  The first 252 days are risk-on; afterwards a ratio below the entry band is risk-off, one at or
  above the exit band is risk-on, and between the bands the state of the day before is kept, the
  bands being order statistics of the at most 1260 ratios before the day.
\<close>

theorem credit_state_bands:
  assumes "compute_regime cfg hyg ief = Inr rows" "i < length rows"
    and "0 \<le> cc_entry cfg" "cc_entry cfg \<le> cc_exit cfg" "cc_exit cfg \<le> 1"
    and "window = last_n WINDOW_MAX (map pair_ratio (take i (credit_aligned hyg ief)))"
    and "ratio = pair_ratio (credit_aligned hyg ief ! i)"
  shows "cr_state (rows ! i) =
    (if i < MIN_OBS then Risk_on
     else if ratio < band window (cc_entry cfg) then Risk_off
     else if band window (cc_exit cfg) \<le> ratio then Risk_on
     else cr_state (rows ! (i - 1)))"
proof -
  note row = compute_regime_row [OF assms(1,2,6)]
  have small: "length window < MIN_OBS \<longleftrightarrow> i < MIN_OBS" using row(2) by (auto simp: MIN_OBS_def WINDOW_MAX_def)
  have st: "cr_state (rows ! i) = (if length window < MIN_OBS then Risk_on
      else next_state (if i = 0 then Risk_on else cr_state (rows ! (i - 1))) ratio
        (Some (band window (cc_entry cfg))) (Some (band window (cc_exit cfg))))"
    using credit_row_of_InrD(1) [OF row(1)] assms(3-5) by (simp add: assms(7))
  show ?thesis
  proof (cases "i < MIN_OBS")
    case False
    have le: "band window (cc_entry cfg) \<le> band window (cc_exit cfg)"
      unfolding band_def by (rule band_mono) (use assms(3-5) small False in \<open>auto simp: MIN_OBS_def\<close>)
    have "i \<noteq> 0" using False by (auto simp: MIN_OBS_def)
    then show ?thesis
      using st le False small by (cases "cr_state (rows ! (i - 1))") (auto simp: next_state_def)
  qed (use st small in simp)
qed

subsection \<open>The score\<close>

lemma stress_score_range:
  assumes "stress_score cfg ratio window = Some s"
  shows "0 \<le> s" "s \<le> 100"
  using assms by (auto simp: stress_score_def Let_def split: if_splits)

text \<open>
  With band fractions between 0 and 1 the detector never raises: it returns one row per
  aligned day, in date order, a day's window holds the ratios of the at most 1260 days before it,
  and the published score is missing exactly in the first 252 rows and between 0 and 100 after.
\<close>

theorem credit_regime_bounds:
  assumes "0 \<le> cc_entry cfg" "cc_entry cfg \<le> 1" "0 \<le> cc_exit cfg" "cc_exit cfg \<le> 1"
  shows "\<exists>rows. compute_regime cfg hyg ief = Inr rows \<and> map cr_date rows = map fst (credit_aligned hyg ief) \<and>
    sorted (map cr_date rows) \<and>
    (\<forall>i < length rows. cr_n_window (rows ! i) = min WINDOW_MAX i \<and>
       (case cr_stress (rows ! i) of None \<Rightarrow> i < MIN_OBS | Some s \<Rightarrow> MIN_OBS \<le> i \<and> 0 \<le> s \<and> s \<le> 100))"
proof -
  have step: "is_Inr (credit_row_of cfg w st x)" for w st x
    unfolding credit_row_of_def percentile_value [OF assms(1,2)] percentile_value [OF assms(3,4)]
    by (cases x) (simp add: Let_def)
  have "is_Inr (credit_rows cfg w st xs)" for w st xs
  proof (induction xs arbitrary: w st)
    case (Cons x xs)
    show ?case by (simp del: bindE_simps) (intro is_Inr_bindI step Cons.IH; simp)
  qed simp
  then have "is_Inr (compute_regime cfg hyg ief)" by (simp add: compute_regime_def)
  then obtain rows where rows: "compute_regime cfg hyg ief = Inr rows" by blast
  have len: "length rows = length (credit_aligned hyg ief)"
    using rows credit_rows_length by (simp add: compute_regime_def)
  note facts = credit_row_of_InrD [OF compute_regime_row(1) [OF rows _ refl] assms]
  have dates: "map cr_date rows = map fst (credit_aligned hyg ief)"
    by (rule nth_equalityI) (simp_all add: len facts(2))
  have score: "case cr_stress (rows ! i) of None \<Rightarrow> i < MIN_OBS | Some s \<Rightarrow> MIN_OBS \<le> i \<and> 0 \<le> s \<and> s \<le> 100"
    if i: "i < length rows" for i
  proof -
    let ?w = "last_n WINDOW_MAX (map pair_ratio (take i (credit_aligned hyg ief)))"
    let ?s = "stress_score cfg (pair_ratio (credit_aligned hyg ief ! i)) ?w"
    have "length ?w < MIN_OBS \<longleftrightarrow> i < MIN_OBS"
      using compute_regime_row(2) [OF rows i refl] by (auto simp: MIN_OBS_def WINDOW_MAX_def)
    then have none: "?s = None \<longleftrightarrow> i < MIN_OBS" by (auto simp: stress_score_def Let_def)
    show ?thesis
    proof (cases ?s)
      case None
      then show ?thesis using facts(4) [OF i] none by simp
    next
      case (Some s)
      have "0 \<le> round_to 3 s" "round_to 3 s \<le> 100"
        using stress_score_range [OF Some] round_to_mono [of 0 s 3] round_to_mono [of s 100 3]
          round_to_of_int [of 3 0] round_to_of_int [of 3 100] by simp_all
      then show ?thesis using facts(4) [OF i] none Some by simp
    qed
  qed
  have "sorted (map cr_date rows)" unfolding dates by (simp add: credit_aligned_def Let_def)
  then show ?thesis
    using rows dates score facts(3) compute_regime_row(2) [OF rows _ refl] by (intro exI [of _ rows]) simp
qed

subsection \<open>The detector at concrete prices\<close>

text \<open>A year of a constant ratio, then a day at half of it.\<close>

definition calm_hyg :: price_history where
  "calm_hyg = replicate 252 (Date 2024 1 2, Some 1) @ [(Date 2024 1 3, Some (1 / 2))]"

definition calm_ief :: price_history where
  "calm_ief = [(Date 2024 1 2, Some 1), (Date 2024 1 3, Some 1)]"

lemma calm_aligned: "credit_aligned calm_hyg calm_ief = replicate 252 (Date 2024 1 2, 1, 1) @ [(Date 2024 1 3, 1 / 2, 1)]"
proof -
  have one: "concat (map f (replicate n x)) = replicate n y" if "f x = [y]" for f :: "'a \<Rightarrow> 'b list" and n x y
    using that by (induction n) simp_all
  have ief: "positive_prices calm_ief = [(Date 2024 1 2, 1), (Date 2024 1 3, 1)]"
    by (simp add: positive_prices_def calm_ief_def dict_update_def)
  have "sorted (map fst (replicate n (Date 2024 1 2, a) @ [(Date 2024 1 3, b)]))" for n and a b :: "real \<times> real"
    by (induction n) (auto simp: less_eq_date_def)
  then have "sort_key fst (replicate 252 (Date 2024 1 2, 1 :: real, 1 :: real) @ [(Date 2024 1 3, 1 / 2, 1)])
      = replicate 252 (Date 2024 1 2, 1, 1) @ [(Date 2024 1 3, 1 / 2, 1)]" by (rule sort_key_id_if_sorted)
  then show ?thesis unfolding credit_aligned_def Let_def ief calm_hyg_def by (simp add: one)
qed

lemma calm_rows: "\<exists>rows. compute_regime credit_defaults calm_hyg calm_ief = Inr rows \<and> length rows = 253"
proof -
  have step: "is_Inr (credit_row_of credit_defaults w st x)" for w st x
    using percentile_value [of PCTL w] by (cases x) (simp add: credit_row_of_def credit_defaults_def PCTL_def Let_def)
  have "is_Inr (credit_rows credit_defaults w st xs)" for w st xs
  proof (induction xs arbitrary: w st)
    case (Cons x xs)
    show ?case by (simp del: bindE_simps) (intro is_Inr_bindI step Cons.IH; simp)
  qed simp
  then obtain rows where "credit_rows credit_defaults [] Risk_on (credit_aligned calm_hyg calm_ief) = Inr rows" by blast
  then show ?thesis using credit_rows_length [of credit_defaults "[]" Risk_on "credit_aligned calm_hyg calm_ief" rows]
    by (simp add: compute_regime_def calm_aligned)
qed

theorem credit_state_bands_witness:
  "\<exists>rows. compute_regime credit_defaults calm_hyg calm_ief = Inr rows \<and> cr_state (rows ! 252) = Risk_off"
proof -
  obtain rows where r: "compute_regime credit_defaults calm_hyg calm_ief = Inr rows" "length rows = 253"
    using calm_rows by blast
  have w: "last_n WINDOW_MAX (map pair_ratio (take 252 (credit_aligned calm_hyg calm_ief))) = replicate 252 1"
    by (simp add: calm_aligned pair_ratio_def last_n_short WINDOW_MAX_def)
  have ratio: "pair_ratio (credit_aligned calm_hyg calm_ief ! 252) = 1 / 2"
    by (simp add: calm_aligned pair_ratio_def nth_append)
  have "sort (replicate 252 (1 :: real)) = replicate 252 1" by (rule sort_key_id_if_sorted) simp
  then have "band (replicate 252 1) PCTL = 1"
    unfolding band_def by (simp add: PCTL_def nat_less_iff floor_less_iff)
  then have b: "band (replicate 252 1) (cc_entry credit_defaults) = 1" by (simp add: credit_defaults_def)
  have "252 < length rows" "0 \<le> cc_entry credit_defaults" "cc_entry credit_defaults \<le> cc_exit credit_defaults"
    "cc_exit credit_defaults \<le> 1" using r(2) by (simp_all add: credit_defaults_def PCTL_def)
  from credit_state_bands [OF r(1) this w [symmetric] ratio [symmetric]]
  have "cr_state (rows ! 252) = Risk_off" unfolding b MIN_OBS_def by simp
  with r(1) show ?thesis by blast
qed

theorem credit_regime_bounds_witness:
  "\<exists>rows. compute_regime credit_defaults calm_hyg calm_ief = Inr rows \<and> sorted (map cr_date rows)"
proof -
  have "0 \<le> cc_entry credit_defaults" "cc_entry credit_defaults \<le> 1" "0 \<le> cc_exit credit_defaults"
    "cc_exit credit_defaults \<le> 1" by (simp_all add: credit_defaults_def PCTL_def)
  from credit_regime_bounds [OF this, of calm_hyg calm_ief] show ?thesis by (elim exE conjE) (intro exI conjI)
qed

end
