(* ===== verification/Regime_Composite.thy ===== *)
theory Regime_Composite
  imports Credit_Regime Federal_Holidays "HOL-Library.Product_Lexorder"
begin

text \<open>
  The vote detector (\<open>src/workers/regime_composite.py\<close>): the monthly trend of SPY, the NFCI state
  stamped by its release date, the credit vote read from the rows of the credit detector, and
  their composition. A key \<open>(year, month)\<close> is a pair; pairs are ordered lexicographically.
\<close>

definition SMA_MONTHS :: nat where "SMA_MONTHS = 10"

definition NFCI_ENTER :: real where "NFCI_ENTER = 0"

definition NFCI_EXIT :: real where "NFCI_EXIT = - 5 / 100"

type_synonym month_pair = "int \<times> int"

definition year_month :: "date \<Rightarrow> month_pair" where
  "year_month d = (year d, month d)"

subsection \<open>The trend of a month\<close>

definition month_end_step ::
  "date \<times> real option \<Rightarrow> (month_pair, date \<times> real) dict \<Rightarrow> (month_pair, date \<times> real) dict" where
  "month_end_step x me =
     (case x of (d, px) \<Rightarrow>
        if px = None \<or> the px \<le> 0 then me
        else (case dict_get me (year_month d) of
                None \<Rightarrow> dict_set (year_month d) (d, the px) me
              | Some (last_day, _) \<Rightarrow> if d > last_day then dict_set (year_month d) (d, the px) me else me))"

definition month_end_closes :: "price_history \<Rightarrow> (month_pair, date \<times> real) dict" where
  "month_end_closes spy_daily = fold month_end_step spy_daily []"

text \<open>The signal of a month from the closes of the months before it; \<open>prior[-n:]\<close> is all of \<open>prior\<close> for \<open>n = 0\<close>.\<close>

definition month_trend :: "nat \<Rightarrow> real list \<Rightarrow> py_error + bool" where
  "month_trend sma_months prior =
     (if length prior \<ge> sma_months then
        (let window = (if sma_months = 0 then prior else last_n sma_months prior)
         in if window = [] then Inl IndexError
            else if sma_months = 0 then Inl ZeroDivisionError
            else Inr (last window < sum_list window / real sma_months))
      else Inr False)"

definition trend_active_by_month :: "nat \<Rightarrow> price_history \<Rightarrow> py_error + (month_pair, bool) dict" where
  "trend_active_by_month sma_months spy_daily =
     (let me = month_end_closes spy_daily;
          months = sort (dict_keys me);
          closes = map (\<lambda>m. snd (the (dict_get me m))) months
      in mapE (\<lambda>i. bindE (month_trend sma_months (take i closes)) (\<lambda>a. Inr (months ! i, a))) [0..<length months])"

subsection \<open>The NFCI states\<close>

type_synonym nfci_state = "date \<times> real \<times> bool"

definition nfci_active :: "bool \<Rightarrow> real \<Rightarrow> bool" where
  "nfci_active active v = (if active then v \<ge> NFCI_EXIT else v > NFCI_ENTER)"

fun nfci_walk :: "(date \<Rightarrow> py_error + date) \<Rightarrow> bool \<Rightarrow> (date \<times> real) list \<Rightarrow> py_error + nfci_state list" where
  "nfci_walk release_date active [] = Inr []"
| "nfci_walk release_date active ((d, v) # xs) =
     (let a = nfci_active active v
      in bindE (release_date d) (\<lambda>r. bindE (nfci_walk release_date a xs) (\<lambda>out. Inr ((r, v, a) # out))))"

definition nfci_states :: "(date \<Rightarrow> py_error + date) \<Rightarrow> (date \<times> real) list \<Rightarrow> py_error + nfci_state list" where
  "nfci_states release_date nfci_obs = nfci_walk release_date False (sort_key fst nfci_obs)"

text \<open>The default release rule; a date out of the calendar raises.\<close>

definition official_release :: "date \<Rightarrow> py_error + date" where
  "official_release d = (case nfci_release_date d of None \<Rightarrow> Inl OverflowError | Some r \<Rightarrow> Inr r)"

subsection \<open>The vote of a day\<close>

type_synonym credit_input = "date \<times> real option \<times> real option"

record composite_row =
  co_date :: date
  co_state :: risk
  co_credit_vote :: bool
  co_trend_vote :: bool
  co_nfci_vote :: bool
  co_vote_count :: nat
  co_ratio :: "real option"
  co_p20 :: "real option"
  co_nfci :: "real option"
  co_flip :: bool

text \<open>The pointer loop over the released observations.\<close>

fun advance_nfci :: "date \<Rightarrow> real option \<times> bool \<Rightarrow> nfci_state list \<Rightarrow> (real option \<times> bool) \<times> nfci_state list" where
  "advance_nfci d cur [] = (cur, [])"
| "advance_nfci d cur ((r, v, a) # pending) =
     (if r \<le> d then advance_nfci d (Some v, a) pending else (cur, (r, v, a) # pending))"

definition compose_row ::
  "(month_pair, bool) dict \<Rightarrow> risk \<Rightarrow> real option \<times> bool \<Rightarrow> credit_input \<Rightarrow> composite_row" where
  "compose_row trend_by_month prev_state cur x =
     (case x of (d, ratio, p20) \<Rightarrow>
        let credit_vote = (case (ratio, p20) of (Some r, Some p) \<Rightarrow> r < p | _ \<Rightarrow> False);
            trend_vote = dict_get_default trend_by_month (year_month d) False;
            nfci_vote = snd cur;
            vote_count = of_bool credit_vote + of_bool trend_vote + of_bool nfci_vote;
            state = (if vote_count \<ge> 2 then Risk_off else Risk_on)
        in \<lparr> co_date = d, co_state = state, co_credit_vote = credit_vote, co_trend_vote = trend_vote,
             co_nfci_vote = nfci_vote, co_vote_count = vote_count, co_ratio = map_option (round_to 8) ratio,
             co_p20 = map_option (round_to 8) p20, co_nfci = map_option (round_to 4) (fst cur),
             co_flip = (state \<noteq> prev_state) \<rparr>)"

fun compose_rows ::
  "(month_pair, bool) dict \<Rightarrow> risk \<Rightarrow> real option \<times> bool \<Rightarrow> nfci_state list \<Rightarrow> credit_input list \<Rightarrow> composite_row list" where
  "compose_rows trend_by_month prev_state cur pending [] = []"
| "compose_rows trend_by_month prev_state cur pending (x # xs) =
     (let (cur', pending') = advance_nfci (fst x) cur pending;
          row = compose_row trend_by_month prev_state cur' x
      in row # compose_rows trend_by_month (co_state row) cur' pending' xs)"

definition compose_votes :: "credit_input list \<Rightarrow> (month_pair, bool) dict \<Rightarrow> nfci_state list \<Rightarrow> composite_row list" where
  "compose_votes credit trend_by_month nfci =
     compose_rows trend_by_month Risk_on (None, False) (sort_key fst nfci) (sort_key fst credit)"

text \<open>The rows of a run, from the three inputs; the inputs must not be empty.\<close>

definition composite_of ::
  "credit_input list \<Rightarrow> price_history \<Rightarrow> (date \<times> real) list \<Rightarrow> py_error + composite_row list" where
  "composite_of credit spy nfci =
     (if credit = [] \<or> spy = [] \<or> nfci = [] then Inl RuntimeError
      else bindE (trend_active_by_month SMA_MONTHS spy) (\<lambda>trend.
           bindE (nfci_states official_release nfci) (\<lambda>states. Inr (compose_votes credit trend states))))"

record composite_summary =
  os_days :: nat
  os_state :: risk
  os_votes :: nat
  os_flips :: nat
  os_last_flip :: "string option"
  os_calc_date :: string

definition composite_summary_of :: "composite_row list \<Rightarrow> composite_summary" where
  "composite_summary_of rows =
     (let flips = filter co_flip rows
      in \<lparr> os_days = length rows, os_state = co_state (last rows), os_votes = co_vote_count (last rows),
           os_flips = length flips,
           os_last_flip = (if flips = [] then None else Some (isoformat (co_date (last flips)))),
           os_calc_date = isoformat (co_date (last rows)) \<rparr>)"

text \<open>The rows of the credit detector as the composite reads them back.\<close>

definition fetch_credit :: "credit_row list \<Rightarrow> credit_input list" where
  "fetch_credit rows = sort_key fst (map (\<lambda>r. (cr_date r, Some (cr_ratio r), cr_p20 r)) rows)"

subsection \<open>The pointer loop is an as-of lookup\<close>

definition asof_nfci :: "real option \<times> bool \<Rightarrow> nfci_state list \<Rightarrow> date \<Rightarrow> real option \<times> bool" where
  "asof_nfci cur states d =
     (let seen = filter (\<lambda>s. fst s \<le> d) states
      in if seen = [] then cur else (Some (fst (snd (last seen))), snd (snd (last seen))))"

lemma advance_nfci_asof:
  "sorted (map fst pending) \<Longrightarrow>
   advance_nfci d cur pending = (asof_nfci cur pending d, filter (\<lambda>s. \<not> fst s \<le> d) pending)"
proof (induction d cur pending rule: advance_nfci.induct)
  case (2 d cur r v a pending)
  show ?case
  proof (cases "r \<le> d")
    case True
    then show ?thesis using 2 by (simp add: asof_nfci_def Let_def)
  next
    case False
    then have none: "\<forall>s \<in> set pending. \<not> fst s \<le> d" using 2 by auto
    then have "filter (\<lambda>s. fst s \<le> d) pending = []" "filter (\<lambda>s. \<not> fst s \<le> d) pending = pending"
      by (simp_all add: filter_empty_conv filter_id_conv)
    then show ?thesis using False by (simp add: asof_nfci_def)
  qed
qed (simp add: asof_nfci_def)

lemma asof_nfci_later:
  assumes "d \<le> e" "sorted (map fst states)"
  shows "asof_nfci (asof_nfci cur states d) (filter (\<lambda>s. \<not> fst s \<le> d) states) e = asof_nfci cur states e"
proof -
  have "filter (\<lambda>s. fst s \<le> e) states = filter (\<lambda>s. fst s \<le> d) states @ filter (\<lambda>s. fst s \<le> e) (filter (\<lambda>s. \<not> fst s \<le> d) states)"
    using assms(2)
  proof (induction states)
    case (Cons s states)
    show ?case
    proof (cases "fst s \<le> d")
      case True
      then show ?thesis using Cons assms(1) by simp
    next
      case False
      then have "\<forall>t \<in> set states. \<not> fst t \<le> d" using Cons.prems by auto
      then have "filter (\<lambda>s. fst s \<le> d) states = []" "filter (\<lambda>s. \<not> fst s \<le> d) states = states"
        by (simp_all add: filter_empty_conv filter_id_conv)
      then show ?thesis using False by simp
    qed
  qed simp
  then show ?thesis by (simp add: asof_nfci_def Let_def)
qed

text \<open>The rows when every day looks up the state as of itself.\<close>

fun chain_rows ::
  "(month_pair, bool) dict \<Rightarrow> (date \<Rightarrow> real option \<times> bool) \<Rightarrow> risk \<Rightarrow> credit_input list \<Rightarrow> composite_row list" where
  "chain_rows trend look prev_state [] = []"
| "chain_rows trend look prev_state (x # xs) =
     (let row = compose_row trend prev_state (look (fst x)) x in row # chain_rows trend look (co_state row) xs)"

lemma chain_rows_cong:
  "(\<And>x. x \<in> set xs \<Longrightarrow> look (fst x) = look' (fst x)) \<Longrightarrow> chain_rows trend look st xs = chain_rows trend look' st xs"
  by (induction xs arbitrary: st) (simp_all add: Let_def)

lemma compose_rows_chain:
  "sorted (map fst pending) \<Longrightarrow> sorted (map fst xs) \<Longrightarrow>
   compose_rows trend st cur pending xs = chain_rows trend (asof_nfci cur pending) st xs"
proof (induction xs arbitrary: st cur pending)
  case (Cons x xs)
  let ?rest = "filter (\<lambda>s. \<not> fst s \<le> fst x) pending"
  have "sorted (map fst ?rest)" using Cons.prems(1) by (rule sorted_filter)
  then have "compose_rows trend st' (asof_nfci cur pending (fst x)) ?rest xs
      = chain_rows trend (asof_nfci (asof_nfci cur pending (fst x)) ?rest) st' xs" for st'
    using Cons.IH Cons.prems(2) by simp
  moreover have "chain_rows trend (asof_nfci (asof_nfci cur pending (fst x)) ?rest) st' xs
      = chain_rows trend (asof_nfci cur pending) st' xs" for st'
    by (rule chain_rows_cong) (use Cons.prems in \<open>auto intro!: asof_nfci_later\<close>)
  ultimately show ?case by (simp add: advance_nfci_asof [OF Cons.prems(1)] Let_def)
qed simp

lemma compose_row_date [simp]: "co_date (compose_row trend st cur x) = fst x"
  by (cases x) (simp add: compose_row_def Let_def)

lemma chain_rows_dates: "map co_date (chain_rows trend look st xs) = map fst xs"
  by (induction xs arbitrary: st) (simp_all add: Let_def)

lemma chain_rows_in: "r \<in> set (chain_rows trend look st xs) \<Longrightarrow> co_date r \<in> fst ` set xs"
  using arg_cong [OF chain_rows_dates [of trend look st xs], of set] by (metis image_eqI list.set_map)

text \<open>A row depends on the trend of its own month only.\<close>

lemma compose_row_cong:
  assumes "dict_get trend (year_month (fst x)) = dict_get trend' (year_month (fst x))"
  shows "compose_row trend st cur x = compose_row trend' st cur x"
  using assms by (cases x) (simp add: compose_row_def dict_get_default_def)

lemma chain_rows_until:
  assumes "sorted (map fst xs)"
    and "\<And>x. x \<in> set xs \<Longrightarrow> fst x \<le> last_day \<Longrightarrow>
      look (fst x) = look' (fst x) \<and> dict_get trend (year_month (fst x)) = dict_get trend' (year_month (fst x))"
  shows "chain_rows trend' look' st (filter (\<lambda>x. fst x \<le> last_day) xs)
    = filter (\<lambda>r. co_date r \<le> last_day) (chain_rows trend look st xs)"
  using assms
proof (induction xs arbitrary: st)
  case (Cons x xs)
  show ?case
  proof (cases "fst x \<le> last_day")
    case True
    let ?row = "compose_row trend st (look (fst x)) x"
    have row: "compose_row trend' st (look' (fst x)) x = ?row"
      using Cons.prems(2) [OF list.set_intros(1) True] compose_row_cong [of trend x trend' st "look (fst x)"] by simp
    have "chain_rows trend' look' (co_state ?row) (filter (\<lambda>x. fst x \<le> last_day) xs)
        = filter (\<lambda>r. co_date r \<le> last_day) (chain_rows trend look (co_state ?row) xs)"
      by (rule Cons.IH) (use Cons.prems in auto)
    then show ?thesis using True row by (simp add: Let_def)
  next
    case False
    then have late: "\<forall>y \<in> set (x # xs). \<not> fst y \<le> last_day" using Cons.prems(1) by auto
    have "\<forall>r \<in> set (chain_rows trend look st (x # xs)). \<not> co_date r \<le> last_day"
using late chain_rows_in [of _ trend look st "x # xs"] by (metis imageE)
    then have "filter (\<lambda>r. co_date r \<le> last_day) (chain_rows trend look st (x # xs)) = []" by (rule filter_False)
    moreover have "filter (\<lambda>y. fst y \<le> last_day) (x # xs) = []" using late by (rule filter_False)
    ultimately show ?thesis by (simp only: chain_rows.simps)
  qed
qed simp

subsection \<open>The NFCI state as of a day\<close>

definition released_by :: "date \<Rightarrow> date \<times> real \<Rightarrow> bool" where
  "released_by d x = (case nfci_release_date (fst x) of None \<Rightarrow> False | Some r \<Rightarrow> r \<le> d)"

definition nfci_dates_ok :: "(date \<times> real) list \<Rightarrow> bool" where
  "nfci_dates_ok nfci \<longleftrightarrow> (\<forall>x \<in> set nfci. valid_date (fst x) \<and> 1 \<le> year (fst x) \<and> year (fst x) \<le> 9998)"

definition latch_nfci :: "bool \<Rightarrow> (date \<times> real) list \<Rightarrow> bool" where
  "latch_nfci a xs = fold (\<lambda>x a. nfci_active a (snd x)) xs a"

lemma nfci_walk_last:
  "nfci_walk rel a xs = Inr out \<Longrightarrow> (if out = [] then a else snd (snd (last out))) = latch_nfci a xs"
proof (induction rel a xs arbitrary: out rule: nfci_walk.induct)
  case (2 rel a d v xs)
  obtain r rest where r: "rel d = Inr r" "nfci_walk rel (nfci_active a v) xs = Inr rest"
      "out = (r, v, nfci_active a v) # rest"
    using 2(2) by (auto simp: bindE_Inr_iff Let_def)
  show ?case using 2(1) [OF refl r(2)] r(3) by (cases "rest = []") (simp_all add: latch_nfci_def)
qed (simp add: latch_nfci_def)

lemma nfci_walk_take: "nfci_walk rel a xs = Inr out \<Longrightarrow> nfci_walk rel a (take n xs) = Inr (take n out)"
proof (induction rel a xs arbitrary: out n rule: nfci_walk.induct)
  case (2 rel a d v xs)
  obtain r rest where r: "rel d = Inr r" "nfci_walk rel (nfci_active a v) xs = Inr rest"
      "out = (r, v, nfci_active a v) # rest"
    using 2(2) by (auto simp: bindE_Inr_iff Let_def)
  show ?case using 2(1) [OF refl r(2)] r by (cases n) simp_all
qed simp

lemma nfci_walk_releases: "nfci_walk rel a xs = Inr out \<Longrightarrow> map (\<lambda>s. Inr (fst s)) out = map (\<lambda>x. rel (fst x)) xs"
proof (induction rel a xs arbitrary: out rule: nfci_walk.induct)
  case (2 rel a d v xs)
  obtain r rest where r: "rel d = Inr r" "nfci_walk rel (nfci_active a v) xs = Inr rest"
      "out = (r, v, nfci_active a v) # rest"
    using 2(2) by (auto simp: bindE_Inr_iff Let_def)
  show ?case using 2(1) [OF refl r(2)] r by simp
qed simp

text \<open>The states come out in the order of their release dates.\<close>

lemma nfci_states_facts:
  assumes "nfci_states official_release nfci = Inr states" "nfci_dates_ok nfci"
  shows "length states = length nfci"
    and "i < length nfci \<Longrightarrow> nfci_release_date (fst (sort_key fst nfci ! i)) = Some (fst (states ! i))"
    and "sorted (map fst states)"
proof -
  let ?xs = "sort_key fst nfci"
  have m: "map (\<lambda>s. Inr (fst s)) states = map (\<lambda>x. official_release (fst x)) ?xs"
    by (rule nfci_walk_releases) (use assms(1) in \<open>simp add: nfci_states_def\<close>)
  show len: "length states = length nfci" using arg_cong [OF m, of length] by simp
  show rel: "nfci_release_date (fst (?xs ! i)) = Some (fst (states ! i))" if "i < length nfci" for i
    using arg_cong [OF m, of "\<lambda>l. l ! i"] that len by (simp add: official_release_def split: option.splits)
  have ok: "valid_date (fst (?xs ! i)) \<and> 1 \<le> year (fst (?xs ! i)) \<and> year (fst (?xs ! i)) \<le> 9998" if "i < length nfci" for i
    using assms(2) that nth_mem [of i ?xs] by (simp add: nfci_dates_ok_def)
  show "sorted (map fst states)"
  proof (rule sorted_iff_nth_mono [THEN iffD2], intro allI impI)
    fix i j
    assume ij: "i \<le> j" "j < length (map fst states)"
    have "sorted (map fst ?xs)" by simp
    then have "fst (?xs ! i) \<le> fst (?xs ! j)" using ij len sorted_nth_mono [of "map fst ?xs" i j] by simp
    then have "fst (states ! i) \<le> fst (states ! j)"
      using nfci_release_date_mono [of "fst (?xs ! i)" "fst (?xs ! j)"] ok [of i] ok [of j] rel [of i] rel [of j] ij len
      by simp
    then show "map fst states ! i \<le> map fst states ! j" using ij by simp
  qed
qed

text \<open>The observations released by a day, and the states they leave, are prefixes of all.\<close>

lemma nfci_states_until:
  assumes "nfci_states official_release nfci = Inr states" "nfci_dates_ok nfci"
  shows "nfci_states official_release (filter (released_by d) nfci) = Inr (filter (\<lambda>s. fst s \<le> d) states)"
proof -
  let ?xs = "sort_key fst nfci"
  note facts = nfci_states_facts [OF assms]
  have idx: "map (released_by d) ?xs = map (\<lambda>s. fst s \<le> d) states"
    by (rule nth_equalityI) (simp_all add: facts(1,2) released_by_def)
  define n where "n = length (filter (\<lambda>s. fst s \<le> d) states)"
  have out: "filter (\<lambda>s. fst s \<le> d) states = take n states"
    unfolding n_def by (rule filter_sorted_take [OF facts(3)])
  have same: "length xs = length ys \<Longrightarrow> map P xs = map Q ys \<Longrightarrow> filter Q ys = take k ys \<Longrightarrow> k \<le> length ys \<Longrightarrow> filter P xs = take k xs"
    for P Q and xs :: "'x list" and ys :: "'y list" and k
  proof (induction xs ys arbitrary: k rule: list_induct2)
    case (Cons x xs y ys)
    show ?case
    proof (cases "Q y")
      case True
      then obtain m where m: "k = Suc m" using Cons.prems(2) by (cases k) auto
      then show ?thesis using Cons True by simp
    next
      case False
      then have "k = 0" using Cons.prems(2,3) by (cases k) (auto dest: arg_cong [where f = set] filter_eq_ConsD)
      then have "filter Q ys = []" using Cons.prems(2) False by simp
      then have "\<forall>b \<in> set (map Q ys). \<not> b" by (simp add: filter_empty_conv)
      then have "filter P xs = []" using Cons.prems(1) by (metis (mono_tags, lifting) filter_empty_conv image_eqI list.set_map list.simps(9) list.inject)
      then show ?thesis using False Cons.prems(1) \<open>k = 0\<close> by simp
    qed
  qed simp
  have "filter (released_by d) ?xs = take n ?xs"
    by (rule same [OF _ idx out]) (simp_all add: facts(1) n_def length_filter_le flip: facts(1))
  then have "nfci_walk official_release False (filter (released_by d) ?xs) = Inr (take n states)"
    using nfci_walk_take [of official_release False ?xs states n] assms(1) by (simp add: nfci_states_def)
  then show ?thesis by (simp add: nfci_states_def out filter_sort)
qed

lemma asof_nfci_latch:
  assumes "nfci_states official_release nfci = Inr states" "nfci_dates_ok nfci"
  shows "snd (asof_nfci (None, False) states d) = latch_nfci False (sort_key fst (filter (released_by d) nfci))"
  using nfci_walk_last [OF nfci_states_until [OF assms, of d, unfolded nfci_states_def]]
  by (cases "filter (\<lambda>s. fst s \<le> d) states = []") (simp_all add: asof_nfci_def Let_def)

subsection \<open>The trend of a month looks at earlier months\<close>

definition prints_in :: "month_pair \<Rightarrow> date \<times> real option \<Rightarrow> bool" where
  "prints_in m x \<longleftrightarrow> year_month (fst x) = m \<and> snd x \<noteq> None \<and> the (snd x) > 0"

lemma month_end_step_get:
  "dict_get me m = dict_get me' m \<Longrightarrow> dict_get (month_end_step x me) m = dict_get (month_end_step x me') m"
  by (auto simp: month_end_step_def split: prod.splits option.splits)

lemma month_end_step_other: "\<not> prints_in m x \<Longrightarrow> dict_get (month_end_step x me) m = dict_get me m"
  by (auto simp: month_end_step_def prints_in_def split: prod.splits option.splits)

lemma month_end_fold_filter:
  assumes "\<And>x. x \<in> set spy \<Longrightarrow> prints_in m x \<Longrightarrow> P x" "dict_get me m = dict_get me' m"
  shows "dict_get (fold month_end_step (filter P spy) me) m = dict_get (fold month_end_step spy me') m"
  using assms
proof (induction spy arbitrary: me me')
  case (Cons x spy)
  have more: "\<And>y. y \<in> set spy \<Longrightarrow> prints_in m y \<Longrightarrow> P y" using Cons.prems(1) by simp
  show ?case
  proof (cases "P x")
    case True
    then show ?thesis using Cons.IH [OF more month_end_step_get [OF Cons.prems(2)]] by simp
  next
    case False
    then have "\<not> prints_in m x" using Cons.prems(1) [of x] by (meson list.set_intros(1))
    then have "dict_get me m = dict_get (month_end_step x me') m" using Cons.prems(2) by (simp add: month_end_step_other)
    then show ?thesis using Cons.IH [OF more] False by simp
  qed
qed simp

lemma month_end_filter:
  "(\<And>x. x \<in> set spy \<Longrightarrow> prints_in m x \<Longrightarrow> P x) \<Longrightarrow>
   dict_get (month_end_closes (filter P spy)) m = dict_get (month_end_closes spy) m"
  unfolding month_end_closes_def by (rule month_end_fold_filter) simp_all

lemma month_end_step_ok: "dict_ok me \<Longrightarrow> dict_ok (month_end_step x me)"
  by (auto simp: month_end_step_def split: prod.splits option.splits)

lemma month_end_step_keys: "fst ` set (month_end_step x me) = fst ` set me \<union> {m. prints_in m x}"
proof (cases "prints_in (year_month (fst x)) x")
  case False
  then have "month_end_step x me = me" "{m. prints_in m x} = {}"
    by (auto simp: month_end_step_def prints_in_def split: prod.splits)
  then show ?thesis by (simp only: Un_empty_right)
next
  case True
  then have only: "{m. prints_in m x} = {year_month (fst x)}" by (auto simp: prints_in_def)
  show ?thesis
  proof (cases "dict_get me (year_month (fst x))")
    case None
    then show ?thesis using True only by (cases x) (auto simp: month_end_step_def prints_in_def)
  next
    case (Some v)
    then have "year_month (fst x) \<in> fst ` set me" using dict_get_None_iff [of me "year_month (fst x)"] by fastforce
    then show ?thesis using Some True only by (cases x; cases v) (simp add: month_end_step_def prints_in_def insert_absorb)
  qed
qed

lemma month_end_closes_facts:
  "dict_ok (month_end_closes spy)" "fst ` set (month_end_closes spy) = {m. \<exists>x \<in> set spy. prints_in m x}"
proof -
  have "dict_ok me \<Longrightarrow> dict_ok (fold month_end_step spy me)" for me
    by (induction spy arbitrary: me) (simp_all add: month_end_step_ok)
  then show "dict_ok (month_end_closes spy)" by (simp add: month_end_closes_def)
  have "fst ` set (fold month_end_step spy me) = fst ` set me \<union> {m. \<exists>x \<in> set spy. prints_in m x}" for me
    by (induction spy arbitrary: me) (auto simp: month_end_step_keys)
  then show "fst ` set (month_end_closes spy) = {m. \<exists>x \<in> set spy. prints_in m x}" by (simp add: month_end_closes_def)
qed

text \<open>The closes of the months with a print before a month, oldest first.\<close>

definition prior_closes :: "price_history \<Rightarrow> month_pair \<Rightarrow> real list" where
  "prior_closes spy m =
     (let me = month_end_closes spy
      in map (\<lambda>k. snd (the (dict_get me k))) (sort (filter (\<lambda>k. k < m) (dict_keys me))))"

lemma take_sorted_distinct:
  "sorted xs \<Longrightarrow> distinct xs \<Longrightarrow> i < length xs \<Longrightarrow> take i xs = filter (\<lambda>k. k < xs ! i) (xs :: 'a :: linorder list)"
proof (induction xs arbitrary: i)
  case (Cons x xs)
  show ?case
  proof (cases i)
    case 0
    then have "\<forall>k \<in> set (x # xs). \<not> k < x" using Cons.prems(1) by auto
    then have "filter (\<lambda>k. k < x) (x # xs) = []" by (rule filter_False)
    then show ?thesis using 0 by simp
  next
    case (Suc j)
    then have "x < xs ! j" using Cons.prems by (auto simp: order_less_le)
    then show ?thesis using Cons Suc by simp
  qed
qed simp

lemma trend_active_get:
  assumes "trend_active_by_month n spy = Inr trend"
  shows "if \<exists>x \<in> set spy. prints_in m x
    then \<exists>a. month_trend n (prior_closes spy m) = Inr a \<and> dict_get trend m = Some a
    else dict_get trend m = None"
proof -
  let ?me = "month_end_closes spy"
  let ?months = "sort (dict_keys ?me)"
  let ?close = "\<lambda>k. snd (the (dict_get ?me k))"
  have d: "distinct ?months" using month_end_closes_facts(1) [of spy] by simp
  have mem: "set ?months = {m. \<exists>x \<in> set spy. prints_in m x}" using month_end_closes_facts(2) [of spy] by simp
  have run: "mapE (\<lambda>i. bindE (month_trend n (take i (map ?close ?months))) (\<lambda>a. Inr (?months ! i, a))) [0..<length ?months] = Inr trend"
    using assms by (simp add: trend_active_by_month_def Let_def)
  have len: "length trend = length ?months" using mapE_Inr_length [OF run] by simp
  have item: "\<exists>a. month_trend n (take i (map ?close ?months)) = Inr a \<and> trend ! i = (?months ! i, a)"
    if "i < length ?months" for i
    using list_all2_nthD [OF run [unfolded mapE_Inr_iff], of i] that by (auto simp: bindE_Inr_iff)
  have keys: "map fst trend = ?months"
    by (rule nth_equalityI) (use item len in \<open>force+\<close>)
  show ?thesis
  proof (cases "m \<in> set ?months")
    case True
    then obtain i where i: "i < length ?months" "?months ! i = m" unfolding in_set_conv_nth by blast
    obtain a where a: "month_trend n (take i (map ?close ?months)) = Inr a" "trend ! i = (m, a)" using item [OF i(1)] i(2) by auto
    have "take i ?months = sort (filter (\<lambda>k. k < m) (dict_keys ?me))"
      using take_sorted_distinct [OF _ d i(1)] i(2) by (simp add: filter_sort)
    then have "take i (map ?close ?months) = prior_closes spy m" by (simp add: prior_closes_def Let_def take_map)
    moreover have "(m, a) \<in> set trend" using a(2) i(1) len by (metis nth_mem)
    then have "dict_get trend m = Some a" using d keys by (simp add: map_of_is_SomeI)
    ultimately show ?thesis using a(1) True mem by auto
  next
    case False
    then have "m \<notin> fst ` set trend" using keys by (metis list.set_map)
    then show ?thesis using False mem by (auto simp: dict_get_None_iff)
  qed
qed

lemma year_month_less: "year_month d < year_month e \<Longrightarrow> d < e"
  by (auto simp: year_month_def less_date_def less_prod_def')

text \<open>Once a month has a print, cutting the prices at that day or later leaves its trend.\<close>

lemma prior_closes_until:
  assumes "\<exists>x \<in> set spy. prints_in m x \<and> fst x \<le> d"
  shows "prior_closes (until_day d spy) m = prior_closes spy m"
proof -
  let ?me = "month_end_closes spy" and ?me' = "month_end_closes (until_day d spy)"
  obtain e where e: "year_month e = m" "e \<le> d" using assms by (auto simp: prints_in_def)
  have get: "dict_get ?me' k = dict_get ?me k" if "k < m" for k
    unfolding until_day_def
  proof (rule month_end_filter)
    fix x
    assume "prints_in k x"
    then have "year_month (fst x) < year_month e" using that e(1) by (simp add: prints_in_def)
    then show "fst x \<le> d" using year_month_less e(2) by fastforce
  qed
  have "set (filter (\<lambda>k. k < m) (dict_keys ?me')) = set (filter (\<lambda>k. k < m) (dict_keys ?me))"
    using get dict_get_None_iff [of ?me] dict_get_None_iff [of ?me'] by (auto simp: image_iff) (metis fst_conv image_eqI)+
  then have "sort (filter (\<lambda>k. k < m) (dict_keys ?me')) = sort (filter (\<lambda>k. k < m) (dict_keys ?me))"
    using month_end_closes_facts(1) by (intro sorted_distinct_set_unique) simp_all
  then show ?thesis using get by (simp add: prior_closes_def Let_def)
qed

lemma trend_active_total: "1 \<le> n \<Longrightarrow> is_Inr (trend_active_by_month n spy)"
  unfolding trend_active_by_month_def Let_def
  by (rule is_Inr_mapE) (auto simp: month_trend_def Let_def last_n_def intro!: is_Inr_bindI)

lemma trend_active_until:
  assumes "trend_active_by_month n spy = Inr trend" "trend_active_by_month n (until_day d spy) = Inr trend'"
    and "\<exists>x \<in> set spy. prints_in m x \<and> fst x \<le> d"
  shows "dict_get trend m = dict_get trend' m"
proof -
  obtain x where "x \<in> set spy" "prints_in m x" "fst x \<le> d" using assms(3) by blast
  then have "x \<in> set (until_day d spy)" by (simp add: until_day_def)
  have "\<exists>x \<in> set spy. prints_in m x" "\<exists>x \<in> set (until_day d spy). prints_in m x"
    using \<open>x \<in> set (until_day d spy)\<close> \<open>x \<in> set spy\<close> \<open>prints_in m x\<close> by blast+
  then show ?thesis
    using trend_active_get [OF assms(1), of m] trend_active_get [OF assms(2), of m] prior_closes_until [OF assms(3)]
    by auto
qed

subsection \<open>The rows of a run\<close>

lemma composite_of_InrD:
  assumes "composite_of credit spy nfci = Inr rows" "nfci_dates_ok nfci"
  shows "\<exists>trend states. trend_active_by_month SMA_MONTHS spy = Inr trend \<and> nfci_states official_release nfci = Inr states \<and>
    rows = chain_rows trend (asof_nfci (None, False) states) Risk_on (sort_key fst credit)"
proof -
  obtain trend states where t: "trend_active_by_month SMA_MONTHS spy = Inr trend"
      "nfci_states official_release nfci = Inr states" "rows = compose_votes credit trend states"
    using assms(1) by (auto simp: composite_of_def bindE_Inr_iff split: if_splits)
  have sorted: "sorted (map fst states)" by (rule nfci_states_facts(3) [OF t(2) assms(2)])
  then have "rows = chain_rows trend (asof_nfci (None, False) states) Risk_on (sort_key fst credit)"
    unfolding t(3) compose_votes_def sort_key_id_if_sorted [OF sorted] by (intro compose_rows_chain) simp_all
  then show ?thesis using t(1,2) by blast
qed

lemma chain_rows_nth:
  "i < length xs \<Longrightarrow> chain_rows trend look st xs ! i =
     compose_row trend (if i = 0 then st else co_state (chain_rows trend look st xs ! (i - 1))) (look (fst (xs ! i))) (xs ! i)"
proof (induction xs arbitrary: st i)
  case (Cons x xs)
  show ?case
  proof (cases i)
    case (Suc j)
    then show ?thesis using Cons by (cases j) (simp_all add: Let_def)
  qed (simp add: Let_def)
qed simp

lemma length_chain_rows: "length (chain_rows trend look st xs) = length xs"
  using arg_cong [OF chain_rows_dates [of trend look st xs], of length] by simp

text \<open>The votes as the inputs give them.\<close>

definition nfci_vote_of :: "(date \<times> real) list \<Rightarrow> date \<Rightarrow> bool" where
  "nfci_vote_of nfci d = latch_nfci False (sort_key fst (filter (released_by d) nfci))"

definition trend_vote_of :: "price_history \<Rightarrow> date \<Rightarrow> bool" where
  "trend_vote_of spy d \<longleftrightarrow> (\<exists>x \<in> set spy. prints_in (year_month d) x) \<and>
     SMA_MONTHS \<le> length (prior_closes spy (year_month d)) \<and>
     last (prior_closes spy (year_month d)) < sum_list (last_n SMA_MONTHS (prior_closes spy (year_month d))) / real SMA_MONTHS"

lemma trend_vote_get:
  assumes "trend_active_by_month SMA_MONTHS spy = Inr trend"
  shows "dict_get_default trend (year_month d) False = trend_vote_of spy d"
proof -
  have last: "last (last_n SMA_MONTHS xs) = last xs" if "SMA_MONTHS \<le> length xs" for xs :: "real list"
    using that by (simp add: last_n_def SMA_MONTHS_def)
  have "month_trend SMA_MONTHS xs = Inr (SMA_MONTHS \<le> length xs \<and> last xs < sum_list (last_n SMA_MONTHS xs) / real SMA_MONTHS)"
    for xs
  proof (cases "SMA_MONTHS \<le> length xs")
    case True
    then have "last_n SMA_MONTHS xs \<noteq> []" by (simp add: last_n_def SMA_MONTHS_def)
    then show ?thesis using True last [OF True] by (simp add: month_trend_def SMA_MONTHS_def)
  qed (simp add: month_trend_def)
  then show ?thesis
    using trend_active_get [OF assms, of "year_month d"]
    by (auto simp: dict_get_default_def trend_vote_of_def split: if_splits)
qed

text \<open>
  The state of a day is the two-of-three vote over what is known that day. The NFCI vote is
  the hysteresis state after exactly the observations whose official release date has come, the
  trend vote compares the last close of the months before with the mean of the last ten, and
  two of the three votes make the day risk-off.
\<close>

theorem composite_votes_asof:
  assumes "composite_of credit spy nfci = Inr rows" "nfci_dates_ok nfci" "i < length rows"
    and "sort_key fst credit ! i = (d, ratio, p20)"
  shows "co_date (rows ! i) = d \<and>
    co_nfci_vote (rows ! i) = nfci_vote_of nfci d \<and> co_trend_vote (rows ! i) = trend_vote_of spy d \<and>
    co_credit_vote (rows ! i) = (\<exists>r p. ratio = Some r \<and> p20 = Some p \<and> r < p) \<and>
    (co_state (rows ! i) = Risk_off \<longleftrightarrow>
       2 \<le> (of_bool (co_credit_vote (rows ! i)) + of_bool (co_trend_vote (rows ! i)) + of_bool (co_nfci_vote (rows ! i)) :: nat)) \<and>
    co_flip (rows ! i) = (co_state (rows ! i) \<noteq> (if i = 0 then Risk_on else co_state (rows ! (i - 1))))"
proof -
  obtain trend states where r: "trend_active_by_month SMA_MONTHS spy = Inr trend"
      "nfci_states official_release nfci = Inr states"
      "rows = chain_rows trend (asof_nfci (None, False) states) Risk_on (sort_key fst credit)"
    using composite_of_InrD [OF assms(1,2)] by blast
  have i: "i < length (sort_key fst credit)" using assms(3) by (simp add: r(3) length_chain_rows)
  have row: "rows ! i = compose_row trend (if i = 0 then Risk_on else co_state (rows ! (i - 1)))
      (asof_nfci (None, False) states d) (d, ratio, p20)"
    using chain_rows_nth [OF i, of trend "asof_nfci (None, False) states" Risk_on] by (simp only: assms(4) fst_conv r(3))
  show ?thesis
    unfolding row compose_row_def trend_vote_get [OF r(1), symmetric] nfci_vote_of_def asof_nfci_latch [OF r(2) assms(2), symmetric]
    by (auto simp: Let_def split: option.splits)
qed

text \<open>
  C27: the composite never looks ahead. Cutting the credit rows and the SPY prices at a day and
  the NFCI observations to those released by that day leaves exactly the rows up to that day,
  provided SPY has printed in the month of each such credit day by the cut; the code gives a
  month with no print yet the trend vote of a later print.
\<close>

theorem composite_no_look_ahead:
  assumes "composite_of credit spy nfci = Inr rows" "nfci_dates_ok nfci"
    and "\<forall>x \<in> set credit. fst x \<le> d \<longrightarrow> (\<exists>y \<in> set spy. prints_in (year_month (fst x)) y \<and> fst y \<le> d)"
    and "filter (\<lambda>x. fst x \<le> d) credit \<noteq> []" "filter (released_by d) nfci \<noteq> []"
  shows "composite_of (filter (\<lambda>x. fst x \<le> d) credit) (until_day d spy) (filter (released_by d) nfci)
    = Inr (filter (\<lambda>r. co_date r \<le> d) rows)"
proof -
  obtain trend states where r: "trend_active_by_month SMA_MONTHS spy = Inr trend"
      "nfci_states official_release nfci = Inr states"
      "rows = chain_rows trend (asof_nfci (None, False) states) Risk_on (sort_key fst credit)"
    using composite_of_InrD [OF assms(1,2)] by blast
  let ?states = "filter (\<lambda>s. fst s \<le> d) states"
  have ok: "nfci_dates_ok (filter (released_by d) nfci)" using assms(2) by (auto simp: nfci_dates_ok_def)
  have states: "nfci_states official_release (filter (released_by d) nfci) = Inr ?states"
    by (rule nfci_states_until [OF r(2) assms(2)])
  obtain trend' where trend': "trend_active_by_month SMA_MONTHS (until_day d spy) = Inr trend'"
    using trend_active_total [of SMA_MONTHS "until_day d spy"] by (auto simp: SMA_MONTHS_def)
  obtain x where x: "x \<in> set credit" "fst x \<le> d" using assms(4) by (auto simp: filter_empty_conv)
  then have "until_day d spy \<noteq> []" using assms(3) by (fastforce simp: until_day_def filter_empty_conv)
  then have "is_Inr (composite_of (filter (\<lambda>x. fst x \<le> d) credit) (until_day d spy) (filter (released_by d) nfci))"
    using assms(4,5) trend' states by (simp add: composite_of_def)
  then obtain cut where cut: "composite_of (filter (\<lambda>x. fst x \<le> d) credit) (until_day d spy) (filter (released_by d) nfci) = Inr cut"
    by blast
  have "cut = chain_rows trend' (asof_nfci (None, False) ?states) Risk_on (filter (\<lambda>x. fst x \<le> d) (sort_key fst credit))"
    using composite_of_InrD [OF cut ok] trend' states by (auto simp: filter_sort)
  also have "\<dots> = filter (\<lambda>r. co_date r \<le> d) rows"
    unfolding r(3)
  proof (rule chain_rows_until)
    fix y
    assume y: "y \<in> set (sort_key fst credit)" "fst y \<le> d"
    have "filter (\<lambda>s. fst s \<le> fst y) ?states = filter (\<lambda>s. fst s \<le> fst y) states"
      unfolding filter_filter by (rule filter_cong) (use y(2) in auto)
    then have "asof_nfci (None, False) states (fst y) = asof_nfci (None, False) ?states (fst y)" by (simp add: asof_nfci_def)
    moreover have "dict_get trend (year_month (fst y)) = dict_get trend' (year_month (fst y))"
      by (rule trend_active_until [OF r(1) trend']) (use assms(3) y in auto)
    ultimately show "asof_nfci (None, False) states (fst y) = asof_nfci (None, False) ?states (fst y) \<and>
        dict_get trend (year_month (fst y)) = dict_get trend' (year_month (fst y))" by blast
  qed simp
  finally show ?thesis using cut by simp
qed

subsection \<open>The composite at concrete inputs\<close>

definition two_credit_days :: "credit_input list" where
  "two_credit_days = [(Date 2024 1 17, Some 1, Some 2), (Date 2024 1 18, Some 2, Some 2)]"

definition january_spy :: price_history where "january_spy = [(Date 2024 1 16, Some 100), (Date 2024 1 18, Some 90)]"

definition january_nfci :: "(date \<times> real) list" where
  "january_nfci = [(Date 2024 1 5, 1 / 10), (Date 2024 1 12, - 1)]"

lemma january_releases:
  "nfci_release_date (Date 2024 1 5) = Some (Date 2024 1 10)" "nfci_release_date (Date 2024 1 12) = Some (Date 2024 1 18)"
proof -
  have v: "valid_date (Date 2024 1 5)" "valid_date (Date 2024 1 12)" by code_simp+
  have m: "Date 2024 1 8 = add_days (Date 2024 1 5) ((4 - weekday (Date 2024 1 5)) mod 7 + 3)"
    "Date 2024 1 15 = add_days (Date 2024 1 12) ((4 - weekday (Date 2024 1 12)) mod 7 + 3)" by code_simp+
  have h: "\<not> statutory_holiday (add_days (Date 2024 1 8) 0)" "\<not> statutory_holiday (add_days (Date 2024 1 8) 1)"
    "\<not> statutory_holiday (add_days (Date 2024 1 8) 2)" "statutory_holiday (add_days (Date 2024 1 15) 0)" by code_simp+
  have e: "add_days (Date 2024 1 8) 2 = Date 2024 1 10" "add_days (Date 2024 1 15) 3 = Date 2024 1 18" by code_simp+
  show "nfci_release_date (Date 2024 1 5) = Some (Date 2024 1 10)"
    using nfci_release_monday [OF v(1) _ _ m(1)] h e by simp
  show "nfci_release_date (Date 2024 1 12) = Some (Date 2024 1 18)"
    using nfci_release_monday [OF v(2) _ _ m(2)] h e by simp
qed

lemma january_rows: "\<exists>rows. composite_of two_credit_days january_spy january_nfci = Inr rows \<and> length rows = 2"
proof -
  obtain trend where trend: "trend_active_by_month SMA_MONTHS january_spy = Inr trend"
    using trend_active_total [of SMA_MONTHS january_spy] by (auto simp: SMA_MONTHS_def)
  have "sort_key fst january_nfci = january_nfci" by (simp add: january_nfci_def less_eq_date_def)
  then have "is_Inr (nfci_states official_release january_nfci)"
    by (simp add: nfci_states_def january_nfci_def official_release_def january_releases Let_def)
  then obtain states where states: "nfci_states official_release january_nfci = Inr states" by blast
  have "composite_of two_credit_days january_spy january_nfci = Inr (compose_votes two_credit_days trend states)"
    by (simp add: composite_of_def trend states) (simp add: two_credit_days_def january_spy_def january_nfci_def)
  moreover have "sort_key fst two_credit_days = two_credit_days" by (simp add: two_credit_days_def less_eq_date_def)
  ultimately show ?thesis by (simp add: compose_votes_def two_credit_days_def Let_def split: prod.splits)
qed

lemma january_nfci_ok: "nfci_dates_ok january_nfci"
  by (simp add: nfci_dates_ok_def january_nfci_def valid_date_def days_in_month_def)

theorem composite_votes_asof_witness:
  "\<exists>rows. composite_of two_credit_days january_spy january_nfci = Inr rows \<and>
     co_nfci_vote (rows ! 0) \<and> co_state (rows ! 0) = Risk_off"
proof -
  obtain rows where r: "composite_of two_credit_days january_spy january_nfci = Inr rows" "length rows = 2"
    using january_rows by blast
  have d: "sort_key fst two_credit_days ! 0 = (Date 2024 1 17, Some 1, Some 2)"
    by (simp add: two_credit_days_def less_eq_date_def)
  have "filter (released_by (Date 2024 1 17)) january_nfci = [(Date 2024 1 5, 1 / 10)]"
    by (simp add: january_nfci_def released_by_def january_releases less_eq_date_def)
  then have "nfci_vote_of january_nfci (Date 2024 1 17)"
    by (simp add: nfci_vote_of_def latch_nfci_def nfci_active_def NFCI_ENTER_def)
  then show ?thesis
    using r(1) composite_votes_asof [OF r(1) january_nfci_ok _ d] r(2) by simp
qed

theorem composite_no_look_ahead_witness:
  "\<exists>rows. composite_of two_credit_days january_spy january_nfci = Inr rows \<and>
     composite_of (filter (\<lambda>x. fst x \<le> Date 2024 1 17) two_credit_days) (until_day (Date 2024 1 17) january_spy)
       (filter (released_by (Date 2024 1 17)) january_nfci)
     = Inr (filter (\<lambda>r. co_date r \<le> Date 2024 1 17) rows)"
proof -
  obtain rows where r: "composite_of two_credit_days january_spy january_nfci = Inr rows"
    using january_rows by blast
  have "\<forall>x \<in> set two_credit_days. fst x \<le> Date 2024 1 17 \<longrightarrow>
      (\<exists>y \<in> set january_spy. prints_in (year_month (fst x)) y \<and> fst y \<le> Date 2024 1 17)"
    by (simp add: two_credit_days_def january_spy_def prints_in_def year_month_def less_eq_date_def)
  moreover have "filter (\<lambda>x. fst x \<le> Date 2024 1 17) two_credit_days \<noteq> []"
    "filter (released_by (Date 2024 1 17)) january_nfci \<noteq> []"
    by (simp_all add: two_credit_days_def january_nfci_def released_by_def january_releases less_eq_date_def)
  ultimately show ?thesis using r composite_no_look_ahead [OF r january_nfci_ok] by blast
qed

end
