(* ===== verification/Bond_Cashflows.thy ===== *)
theory Bond_Cashflows
  imports Calendar "HOL-Library.Product_Lexorder"
begin

text \<open>
  The cash-flow motor (\<open>src/bonds/cashflows.py\<close>): the terms of a bond and their validation, day
  counts, the coupon grid stepped back from maturity, the schedule and accrued interest. A
  \<open>BondError\<close> carries its code; \<open>Raised\<close> is an exception of the standard library. The type
  checks of the constructors are the types of the model.
\<close>

datatype frequency = Annual | Semiannual | Quarterly

definition freq_value :: "frequency \<Rightarrow> int" where
  "freq_value f = (case f of Annual \<Rightarrow> 1 | Semiannual \<Rightarrow> 2 | Quarterly \<Rightarrow> 4)"

datatype day_count = Thirty_360_US | Act_Act_ICMA | Act_360 | Act_365F

datatype flow_kind = Coupon | Redemption

datatype motor_error = Bond_error string | Raised py_error

record call_option =
  ca_date :: date
  ca_price :: real

record bond_terms =
  bt_issue :: date
  bt_maturity :: date
  bt_rate :: real
  bt_freq :: frequency
  bt_count :: day_count
  bt_face :: real
  bt_calls :: "call_option list"

fun validate_calls :: "bond_terms \<Rightarrow> date option \<Rightarrow> call_option list \<Rightarrow> motor_error + unit" where
  "validate_calls t previous [] = Inr ()"
| "validate_calls t previous (c # cs) =
     (if ca_price c \<le> 0 then Inl (Bond_error ''non_positive_call_price'')
      else if \<not> (bt_issue t < ca_date c \<and> ca_date c \<le> bt_maturity t) then Inl (Bond_error ''call_outside_life'')
      else if (case previous of None \<Rightarrow> False | Some p \<Rightarrow> ca_date c \<le> p) then Inl (Bond_error ''call_dates_not_increasing'')
      else validate_calls t (Some (ca_date c)) cs)"

definition check_terms :: "bond_terms \<Rightarrow> motor_error + bond_terms" where
  "check_terms t =
     (if bt_face t \<le> 0 then Inl (Bond_error ''non_positive_face'')
      else if bt_maturity t \<le> bt_issue t then Inl (Bond_error ''non_positive_tenor'')
      else if bt_rate t < 0 then Inl (Bond_error ''negative_coupon'')
      else bindE (validate_calls t None (bt_calls t)) (\<lambda>_. Inr t))"

definition is_zero_coupon :: "bond_terms \<Rightarrow> bool" where
  "is_zero_coupon t \<longleftrightarrow> bt_rate t = 0"

record cash_flow =
  cf_date :: date
  cf_amount :: real
  cf_kind :: flow_kind

record schedule =
  sc_terms :: bond_terms
  sc_dates :: "date list"
  sc_flows :: "cash_flow list"

definition schedule_total :: "schedule \<Rightarrow> real" where
  "schedule_total s = sum_list (map cf_amount (sc_flows s))"

record accrued =
  ac_amount :: real
  ac_count :: day_count
  ac_previous :: date
  ac_next :: date
  ac_settlement :: date
  ac_days_accrued :: int
  ac_days_in_period :: int
  ac_year_fraction :: real

subsection \<open>Day counts\<close>

definition last_of_february :: "date \<Rightarrow> bool" where
  "last_of_february d \<longleftrightarrow> month d = 2 \<and> day d = days_in_month (year d) 2"

definition days_between :: "date \<Rightarrow> date \<Rightarrow> int" where
  "days_between start end' = toordinal end' - toordinal start"

definition thirty_360_us_days :: "date \<Rightarrow> date \<Rightarrow> int" where
  "thirty_360_us_days start end' =
     (let start_last_february = last_of_february start;
          d1 = (if start_last_february \<or> day start = 31 then 30 else day start);
          d2 = (if start_last_february \<and> last_of_february end' then 30 else day end');
          d2' = (if d2 = 31 \<and> d1 = 30 then 30 else d2)
      in 360 * (year end' - year start) + 30 * (month end' - month start) + (d2' - d1))"

definition day_count_days :: "date \<Rightarrow> date \<Rightarrow> day_count \<Rightarrow> int" where
  "day_count_days start end' c =
     (case c of Thirty_360_US \<Rightarrow> thirty_360_us_days start end' | _ \<Rightarrow> days_between start end')"

definition year_fraction :: "date \<Rightarrow> date \<Rightarrow> day_count \<Rightarrow> motor_error + real" where
  "year_fraction start end' c =
     (case c of
        Thirty_360_US \<Rightarrow> Inr (real_of_int (thirty_360_us_days start end') / 360)
      | Act_360 \<Rightarrow> Inr (real_of_int (days_between start end') / 360)
      | Act_365F \<Rightarrow> Inr (real_of_int (days_between start end') / 365)
      | Act_Act_ICMA \<Rightarrow> Inl (Bond_error ''year_fraction_requires_coupon_period''))"

definition icma_period_fraction :: "date \<Rightarrow> date \<Rightarrow> date \<Rightarrow> motor_error + real" where
  "icma_period_fraction period_start settlement period_end =
     (let width = days_between period_start period_end
      in if width \<le> 0 then Inl (Bond_error ''non_positive_coupon_period'')
         else Inr (real_of_int (days_between period_start settlement) / real_of_int width))"

subsection \<open>The schedule\<close>

text \<open>The month arithmetic; \<open>date\<close> raises out of the years 1 to 9999.\<close>

definition shift_date :: "date \<Rightarrow> int \<Rightarrow> motor_error + date" where
  "shift_date anchor months =
     (let months_total = year anchor * 12 + (month anchor - 1) + months;
          y = months_total div 12; m = months_total mod 12 + 1
      in case mk_date y m (min (day anchor) (days_in_month y m)) of
           None \<Rightarrow> Inl (Raised ValueError) | Some d \<Rightarrow> Inr d)"

definition coupon_step :: "bond_terms \<Rightarrow> int" where
  "coupon_step t = 12 div freq_value (bt_freq t)"

lemma coupon_step_cases: "coupon_step t \<in> {12, 6, 3}"
  by (cases "bt_freq t") (simp_all add: coupon_step_def freq_value_def)

lemma mk_date_year: "mk_date y m d = Some e \<Longrightarrow> 1 \<le> y"
  by (simp add: mk_date_def split: if_splits)

text \<open>The dates of the loop from step \<open>k\<close> on, latest first, and the date it stops at.\<close>

function coupon_loop :: "bond_terms \<Rightarrow> nat \<Rightarrow> motor_error + date list \<times> date" where
  "coupon_loop t k =
     (case shift_date (bt_maturity t) (- (coupon_step t) * int k) of
        Inl e \<Rightarrow> Inl e
      | Inr candidate \<Rightarrow>
          if candidate \<le> bt_issue t then Inr ([], candidate)
          else (case coupon_loop t (Suc k) of
                  Inl e \<Rightarrow> Inl e
                | Inr (dates, grid_start) \<Rightarrow> Inr (candidate # dates, grid_start)))"
  by pat_completeness auto

termination
proof (relation "measure (\<lambda>(t, k). nat (year (bt_maturity t) * 12 + month (bt_maturity t) - coupon_step t * int k))", simp)
  fix t k candidate
  assume c: "shift_date (bt_maturity t) (- coupon_step t * int k) = Inr candidate"
  let ?n = "year (bt_maturity t) * 12 + (month (bt_maturity t) - 1) + - coupon_step t * int k"
  have "1 \<le> ?n div 12"
    using c by (auto simp: shift_date_def Let_def split: option.splits dest: mk_date_year)
  then have "12 \<le> ?n" by linarith
  moreover have "0 < coupon_step t" using coupon_step_cases [of t] by auto
  ultimately show "((t, Suc k), t, k) \<in> measure (\<lambda>(t, k). nat (year (bt_maturity t) * 12 + month (bt_maturity t) - coupon_step t * int k))"
    by (simp add: algebra_simps)
qed

declare coupon_loop.simps [simp del]

definition coupon_dates :: "bond_terms \<Rightarrow> motor_error + date list" where
  "coupon_dates t =
     (if is_zero_coupon t then Inr []
      else bindE (coupon_loop t 0) (\<lambda>(dates, grid_start).
             if grid_start \<noteq> bt_issue t then Inl (Bond_error ''front_stub_unsupported'') else Inr (rev dates)))"

definition flow_key :: "cash_flow \<Rightarrow> date \<times> int" where
  "flow_key cf = (cf_date cf, if cf_kind cf = Coupon then 0 else 1)"

definition coupon_amount :: "bond_terms \<Rightarrow> real" where
  "coupon_amount t = bt_rate t * bt_face t / real_of_int (freq_value (bt_freq t))"

definition generate_schedule :: "bond_terms \<Rightarrow> motor_error + schedule" where
  "generate_schedule t =
     (let redemption = \<lparr> cf_date = bt_maturity t, cf_amount = bt_face t, cf_kind = Redemption \<rparr>
      in if is_zero_coupon t then Inr \<lparr> sc_terms = t, sc_dates = [], sc_flows = [redemption] \<rparr>
         else bindE (coupon_dates t) (\<lambda>cdates.
                let flows = map (\<lambda>d. \<lparr> cf_date = d, cf_amount = coupon_amount t, cf_kind = Coupon \<rparr>) cdates @ [redemption]
                in Inr \<lparr> sc_terms = t, sc_dates = cdates, sc_flows = sort_key flow_key flows \<rparr>))"

subsection \<open>Accrued interest\<close>

text \<open>The ends of the coupon period around a settlement.\<close>

definition coupon_period :: "bond_terms \<Rightarrow> date list \<Rightarrow> date \<Rightarrow> py_error + date \<times> date" where
  "coupon_period t cdates settlement =
     (let earlier = filter (\<lambda>d. d \<le> settlement) cdates; later = filter (\<lambda>d. d > settlement) cdates
      in if cdates = [] then Inl IndexError
         else if \<not> settlement < hd cdates \<and> earlier = [] then Inl ValueError
         else if later = [] then Inl ValueError
         else Inr (if settlement < hd cdates then bt_issue t else list_max (hd earlier) (tl earlier),
                   list_min (hd later) (tl later)))"

definition accrued_interest :: "bond_terms \<Rightarrow> date \<Rightarrow> motor_error + accrued" where
  "accrued_interest t settlement =
     (if settlement < bt_issue t then Inl (Bond_error ''settlement_before_issue'')
      else if settlement \<ge> bt_maturity t then Inl (Bond_error ''settlement_after_maturity'')
      else if is_zero_coupon t then
        Inr \<lparr> ac_amount = 0, ac_count = bt_count t, ac_previous = bt_issue t, ac_next = bt_maturity t,
          ac_settlement = settlement, ac_days_accrued = days_between (bt_issue t) settlement,
          ac_days_in_period = days_between (bt_issue t) (bt_maturity t), ac_year_fraction = 0 \<rparr>
      else bindE (coupon_dates t) (\<lambda>cdates.
        case coupon_period t cdates settlement of
          Inl e \<Rightarrow> Inl (Raised e)
        | Inr (previous, next_coupon) \<Rightarrow>
            if bt_count t = Act_Act_ICMA then
              bindE (icma_period_fraction previous settlement next_coupon) (\<lambda>fraction.
              Inr \<lparr> ac_amount = coupon_amount t * fraction, ac_count = bt_count t, ac_previous = previous,
                ac_next = next_coupon, ac_settlement = settlement, ac_days_accrued = days_between previous settlement,
                ac_days_in_period = days_between previous next_coupon,
                ac_year_fraction = fraction / real_of_int (freq_value (bt_freq t)) \<rparr>)
            else
              bindE (year_fraction previous settlement (bt_count t)) (\<lambda>partial.
              Inr \<lparr> ac_amount = bt_rate t * bt_face t * partial, ac_count = bt_count t, ac_previous = previous,
                ac_next = next_coupon, ac_settlement = settlement,
                ac_days_accrued = day_count_days previous settlement (bt_count t),
                ac_days_in_period = day_count_days previous next_coupon (bt_count t),
                ac_year_fraction = partial \<rparr>)))"

subsection \<open>The coupon grid\<close>

definition month_number :: "date \<Rightarrow> int" where
  "month_number d = year d * 12 + (month d - 1)"

text \<open>The date \<open>j\<close> coupon periods before maturity, clamped to the end of its month.\<close>

definition grid :: "bond_terms \<Rightarrow> nat \<Rightarrow> date" where
  "grid t j =
     (let n = month_number (bt_maturity t) - coupon_step t * int j; y = n div 12; m = n mod 12 + 1
      in Date y m (min (day (bt_maturity t)) (days_in_month y m)))"

text \<open>Terms the constructor accepts, on dates of the calendar.\<close>

definition sound_terms :: "bond_terms \<Rightarrow> bool" where
  "sound_terms t \<longleftrightarrow> check_terms t = Inr t \<and> valid_date (bt_issue t) \<and> valid_date (bt_maturity t) \<and>
     2 \<le> year (bt_issue t) \<and> year (bt_maturity t) \<le> 9999"

lemma sound_termsD:
  assumes "sound_terms t"
  shows "0 < bt_face t" "bt_issue t < bt_maturity t" "0 \<le> bt_rate t" "valid_date (bt_issue t)" "valid_date (bt_maturity t)"
    "2 \<le> year (bt_issue t)" "year (bt_maturity t) \<le> 9999"
  using assms by (auto simp: sound_terms_def check_terms_def split: if_splits)

lemma days_in_month_pos: "28 \<le> days_in_month y m" "days_in_month y m \<le> 31"
  by (auto simp: days_in_month_def)

lemma coupon_step_pos: "3 \<le> coupon_step t" "coupon_step t \<le> 12"
  using coupon_step_cases [of t] by auto

lemma month_number_Date: "month_number (Date (n div 12) (n mod 12 + 1) d) = n"
  by (simp add: month_number_def)

lemma grid_index [simp]: "month_number (grid t j) = month_number (bt_maturity t) - coupon_step t * int j"
  by (simp add: grid_def Let_def month_number_Date)

lemma grid_valid: "valid_date (bt_maturity t) \<Longrightarrow> valid_date (grid t j)"
  using days_in_month_pos by (auto simp: valid_date_def grid_def Let_def min_def) (smt (verit) days_in_month_pos)

lemma month_number_mono:
  assumes "valid_date c" "valid_date d" "c \<le> d"
  shows "month_number c \<le> month_number d"
  using assms by (auto simp: valid_date_def less_eq_date_def month_number_def)

lemma month_number_less:
  assumes "valid_date c" "valid_date d" "month_number c < month_number d"
  shows "c < d"
  using assms month_number_mono [of d c] by (meson not_le)

lemma grid_less: "valid_date (bt_maturity t) \<Longrightarrow> i < j \<Longrightarrow> grid t j < grid t i"
  using coupon_step_pos [of t] by (intro month_number_less grid_valid) simp_all

lemma grid_0: "valid_date (bt_maturity t) \<Longrightarrow> grid t 0 = bt_maturity t"
  by (cases "bt_maturity t") (auto simp: valid_date_def grid_def month_number_def Let_def min_def)

lemma shift_date_grid:
  assumes "valid_date (bt_maturity t)" "1 \<le> year (grid t j)" "year (grid t j) \<le> 9999"
  shows "shift_date (bt_maturity t) (- (coupon_step t) * int j) = Inr (grid t j)"
proof -
  have n: "year (bt_maturity t) * 12 + (month (bt_maturity t) - 1) + - coupon_step t * int j
      = month_number (bt_maturity t) - coupon_step t * int j" by (simp add: month_number_def)
  have "mk_date (year (grid t j)) (month (grid t j)) (day (grid t j)) = Some (grid t j)"
    using assms grid_valid [OF assms(1), of j] by (cases "grid t j") (simp add: mk_date_def)
  then show ?thesis unfolding shift_date_def Let_def n by (simp add: grid_def Let_def)
qed

text \<open>The first grid date at or before the issue date; the loop stops there.\<close>

definition periods :: "bond_terms \<Rightarrow> nat" where
  "periods t = (LEAST j. grid t j \<le> bt_issue t)"

lemma periods_props:
  assumes "sound_terms t"
  shows "grid t (periods t) \<le> bt_issue t" and "j < periods t \<Longrightarrow> bt_issue t < grid t j"
    and "0 < periods t" and "j \<le> periods t \<Longrightarrow> 1 \<le> year (grid t j) \<and> year (grid t j) \<le> 9999"
proof -
  note t = sound_termsD [OF assms]
  have "month_number (grid t (nat (month_number (bt_maturity t) - month_number (bt_issue t) + 1))) < month_number (bt_issue t)"
    using coupon_step_pos(1) [of t] month_number_mono [OF t(4,5)] t(2)
    by (simp add: less_imp_le) (smt (verit) mult_le_cancel_right1 mult_less_cancel_right2)
  then have "\<exists>j. grid t j \<le> bt_issue t"
    using month_number_less [OF grid_valid [OF t(5)] t(4)] less_imp_le by blast
  then show first: "grid t (periods t) \<le> bt_issue t" unfolding periods_def by (rule LeastI_ex)
  show before: "bt_issue t < grid t j" if "j < periods t" for j
    using not_less_Least [of j "\<lambda>j. grid t j \<le> bt_issue t"] that by (simp add: periods_def)
  show pos: "0 < periods t" using first grid_0 [OF t(5)] t(2) by (cases "periods t") auto
  show "1 \<le> year (grid t j) \<and> year (grid t j) \<le> 9999" if j: "j \<le> periods t"
  proof
    have "grid t j \<le> bt_maturity t"
      using grid_less [OF t(5), of 0 j] grid_0 [OF t(5)] by (cases j) auto
    then show "year (grid t j) \<le> 9999" using t(7) by (auto simp: less_eq_date_def)
    show "1 \<le> year (grid t j)"
    proof (cases "j = periods t")
      case False
      then show ?thesis using before [of j] j t(6) by (auto simp: less_date_def)
    next
      case True
      then have "bt_issue t < grid t (j - 1)" using before [of "j - 1"] pos by simp
      then have "month_number (bt_issue t) \<le> month_number (grid t (j - 1))"
        using month_number_mono [OF t(4) grid_valid [OF t(5)]] less_imp_le by blast
      then have "month_number (bt_issue t) \<le> month_number (grid t j) + 12"
        using True pos coupon_step_pos(2) [of t] by (simp add: of_nat_diff algebra_simps)
      moreover have "1 \<le> month (bt_issue t)" "month (grid t j) \<le> 12"
        using t(4) grid_valid [OF t(5), of j] by (auto simp: valid_date_def)
      ultimately show ?thesis using t(6) unfolding month_number_def by linarith
    qed
  qed
qed

lemma coupon_loop_grid:
  assumes "sound_terms t" "k \<le> periods t"
  shows "coupon_loop t k = Inr (map (grid t) [k..<periods t], grid t (periods t))"
  using assms(2)
proof (induction "periods t - k" arbitrary: k)
  case 0
  then have k: "k = periods t" by simp
  have "shift_date (bt_maturity t) (- (coupon_step t) * int k) = Inr (grid t k)"
    using shift_date_grid [OF sound_termsD(5) [OF assms(1)], of k] periods_props(4) [OF assms(1), of k] k by simp
  then show ?case using periods_props(1) [OF assms(1)] unfolding k by (subst coupon_loop.simps) simp
next
  case (Suc n)
  then have k: "k < periods t" by simp
  have "coupon_loop t (Suc k) = Inr (map (grid t) [Suc k..<periods t], grid t (periods t))"
    by (rule Suc.hyps(1)) (use Suc.hyps(2) k in simp_all)
  then show ?case
    using shift_date_grid [OF sound_termsD(5) [OF assms(1)]] periods_props(2,4) [OF assms(1), of k] k
    by (simp add: coupon_loop.simps [of t k] upt_conv_Cons not_le)
qed

definition on_grid :: "bond_terms \<Rightarrow> bool" where
  "on_grid t \<longleftrightarrow> grid t (periods t) = bt_issue t"

text \<open>
  C31: the coupon dates of a bond. The loop always stops; the dates are exactly the grid dates
  after the issue date, strictly increasing and ending at maturity, when the grid meets the
  issue date, and otherwise the front stub is reported.
\<close>

theorem coupon_dates_grid:
  assumes "sound_terms t" "bt_rate t \<noteq> 0"
  shows "if \<exists>j. grid t j = bt_issue t
    then \<exists>n > 0. grid t n = bt_issue t \<and> coupon_dates t = Inr (rev (map (grid t) [0..<n])) \<and>
      sorted_wrt (<) (rev (map (grid t) [0..<n])) \<and> last (rev (map (grid t) [0..<n])) = bt_maturity t \<and>
      (\<forall>d \<in> set (rev (map (grid t) [0..<n])). bt_issue t < d \<and> d \<le> bt_maturity t)
    else coupon_dates t = Inl (Bond_error ''front_stub_unsupported'')"
proof -
  note t = sound_termsD [OF assms(1)] and p = periods_props [OF assms(1)]
  have run: "coupon_dates t = (if grid t (periods t) = bt_issue t then Inr (rev (map (grid t) [0..<periods t]))
      else Inl (Bond_error ''front_stub_unsupported''))"
    using assms(2) coupon_loop_grid [OF assms(1), of 0] by (simp add: coupon_dates_def is_zero_coupon_def)
  show ?thesis
  proof (cases "grid t (periods t) = bt_issue t")
    case True
    have inc: "sorted_wrt (<) (rev (map (grid t) [0..<periods t]))"
      unfolding sorted_wrt_rev sorted_wrt_map
      by (rule sorted_wrt_mono_rel [OF _ sorted_wrt_upt]) (use grid_less [OF t(5)] in blast)
    have top: "last (rev (map (grid t) [0..<periods t])) = bt_maturity t"
      using p(3) by (simp add: last_rev hd_map grid_0 [OF t(5)])
    have le: "grid t j \<le> bt_maturity t" for j
      using grid_less [OF t(5), of 0 j] grid_0 [OF t(5)] by (cases j) auto
    have "\<forall>d \<in> set (rev (map (grid t) [0..<periods t])). bt_issue t < d \<and> d \<le> bt_maturity t"
      using p(2) le by auto
    moreover have "coupon_dates t = Inr (rev (map (grid t) [0..<periods t]))" using run True by simp
    moreover have "\<exists>j. grid t j = bt_issue t" using True by blast
    ultimately show ?thesis
      unfolding if_P [OF \<open>\<exists>j. grid t j = bt_issue t\<close>]
      by (intro exI [of _ "periods t"] conjI p(3) True inc top)
  next
    case False
    have "grid t j \<noteq> bt_issue t" for j
    proof
      assume j: "grid t j = bt_issue t"
      then have "periods t \<le> j" using p(2) [of j] by (cases "j < periods t") auto
      then show False using j False grid_less [OF t(5), of "periods t" j] p(1) by (cases "j = periods t") auto
    qed
    then show ?thesis using False run by simp
  qed
qed

subsection \<open>The coupon period\<close>

text \<open>The number of the period that holds a settlement: it runs from \<open>grid t (Suc j)\<close> to \<open>grid t j\<close>.\<close>

lemma period_of:
  assumes "sound_terms t" "on_grid t" "bt_issue t \<le> s" "s < bt_maturity t"
  obtains j where "j < periods t" "grid t (Suc j) \<le> s" "s < grid t j"
proof -
  let ?k = "LEAST k. grid t k \<le> s"
  have ex: "grid t (periods t) \<le> s" using assms(2,3) by (simp add: on_grid_def)
  have k: "grid t ?k \<le> s" by (rule LeastI [of "\<lambda>k. grid t k \<le> s", OF ex])
  have "?k \<le> periods t" by (rule Least_le [of "\<lambda>k. grid t k \<le> s", OF ex])
  moreover have "?k \<noteq> 0"
  proof
    assume "?k = 0"
    with k have "grid t 0 \<le> s" by (simp only:)
    then show False using assms(4) by (simp add: grid_0 [OF sound_termsD(5) [OF assms(1)]])
  qed
  then obtain j where j: "?k = Suc j" by (cases ?k) auto
  moreover have "\<not> grid t j \<le> s" by (rule not_less_Least) (simp add: j)
  ultimately show ?thesis using that [of j] k by (metis Suc_le_lessD not_le)
qed

lemma list_max_unique: "m \<in> set xs \<Longrightarrow> (\<And>x. x \<in> set xs \<Longrightarrow> x \<le> m) \<Longrightarrow> list_max (hd xs) (tl xs) = m"
  using list_max_in [of "hd xs" "tl xs"] list_max_ge [of m "hd xs" "tl xs"] by (cases xs) (auto intro: antisym)

lemma list_min_unique: "m \<in> set xs \<Longrightarrow> (\<And>x. x \<in> set xs \<Longrightarrow> m \<le> x) \<Longrightarrow> list_min (hd xs) (tl xs) = m"
  using list_min_in [of "hd xs" "tl xs"] list_min_le [of m "hd xs" "tl xs"] by (cases xs) (auto intro: antisym)

lemma coupon_period_grid:
  assumes "sound_terms t" "on_grid t" "j < periods t" "grid t (Suc j) \<le> s" "s < grid t j"
  shows "coupon_period t (rev (map (grid t) [0..<periods t])) s = Inr (grid t (Suc j), grid t j)"
proof -
  let ?cdates = "rev (map (grid t) [0..<periods t])"
  have mono: "grid t b \<le> grid t a" if "a \<le> b" for a b
    using grid_less [OF sound_termsD(5) [OF assms(1)], of a b] that by (cases "a = b") auto
  have ne: "?cdates \<noteq> []" and hd: "hd ?cdates = grid t (periods t - 1)"
    using assms(3) by (auto simp: hd_rev last_map)
  have later: "list_min (hd (filter (\<lambda>d. d > s) ?cdates)) (tl (filter (\<lambda>d. d > s) ?cdates)) = grid t j"
  proof (rule list_min_unique)
    fix d
    assume "d \<in> set (filter (\<lambda>d. d > s) ?cdates)"
    then obtain i where i: "d = grid t i" "s < grid t i" by auto
    then have "i \<le> j" using mono [of "Suc j" i] assms(4) by (meson leI not_less_eq_eq order_trans leD)
    then show "grid t j \<le> d" using i mono by simp
  qed (use assms in auto)
  have nl: "filter (\<lambda>d. d > s) ?cdates \<noteq> []" using assms(3,5) by (auto simp: filter_empty_conv)
  show ?thesis
  proof (cases "Suc j = periods t")
    case True
    then have "s < hd ?cdates" using hd assms(5) by (metis diff_Suc_1)
    moreover have "bt_issue t = grid t (Suc j)" using True assms(2) by (simp add: on_grid_def)
    ultimately show ?thesis using ne nl later by (simp add: coupon_period_def Let_def)
  next
    case False
    then have n: "Suc j < periods t" using assms(3) by simp
    have "grid t (periods t - 1) \<le> grid t (Suc j)" by (rule mono) (use n in simp)
    then have "grid t (periods t - 1) \<le> s" using assms(4) by (rule order_trans)
    then have hds: "\<not> s < hd ?cdates" using hd by simp
    have mem: "grid t (Suc j) \<in> set (filter (\<lambda>d. d \<le> s) ?cdates)" using n assms(4) by auto
    have "list_max (hd (filter (\<lambda>d. d \<le> s) ?cdates)) (tl (filter (\<lambda>d. d \<le> s) ?cdates)) = grid t (Suc j)"
    proof (rule list_max_unique [OF mem])
      fix d
      assume "d \<in> set (filter (\<lambda>d. d \<le> s) ?cdates)"
      then obtain i where i: "d = grid t i" "grid t i \<le> s" by auto
      then have "Suc j \<le> i" using mono [of i j] assms(5) by (meson leD not_less_eq_eq order_trans)
      then show "d \<le> grid t (Suc j)" using i mono by simp
    qed
    moreover have "filter (\<lambda>d. d \<le> s) ?cdates \<noteq> []" using mem by (metis list.set(1) empty_iff)
    ultimately show ?thesis using hds ne nl later by (simp add: coupon_period_def Let_def)
  qed
qed

text \<open>What the accrual returns inside a period.\<close>

definition accrued_in :: "bond_terms \<Rightarrow> date \<Rightarrow> date \<Rightarrow> date \<Rightarrow> accrued" where
  "accrued_in t previous next_coupon s =
     (let days = day_count_days previous s (bt_count t); width = day_count_days previous next_coupon (bt_count t);
          fraction = (case bt_count t of Act_Act_ICMA \<Rightarrow> real_of_int days / real_of_int width / real_of_int (freq_value (bt_freq t))
            | Act_365F \<Rightarrow> real_of_int days / 365 | _ \<Rightarrow> real_of_int days / 360)
      in \<lparr> ac_amount = bt_rate t * bt_face t * fraction, ac_count = bt_count t, ac_previous = previous, ac_next = next_coupon,
           ac_settlement = s, ac_days_accrued = days, ac_days_in_period = width, ac_year_fraction = fraction \<rparr>)"

lemma days_between_less:
  assumes "valid_date c" "valid_date d" "c < d"
  shows "0 < days_between c d"
  using less_date_toordinal [OF assms] by (simp add: days_between_def)

lemma accrued_interest_in:
  assumes "sound_terms t" "on_grid t" "bt_rate t \<noteq> 0" "bt_issue t \<le> s" "s < bt_maturity t"
  obtains j where "j < periods t" "grid t (Suc j) \<le> s" "s < grid t j"
    "accrued_interest t s = Inr (accrued_in t (grid t (Suc j)) (grid t j) s)"
proof -
  obtain j where j: "j < periods t" "grid t (Suc j) \<le> s" "s < grid t j"
    by (rule period_of [OF assms(1,2,4,5)])
  note v = grid_valid [OF sound_termsD(5) [OF assms(1)]]
  have w: "0 < days_between (grid t (Suc j)) (grid t j)"
    by (rule days_between_less [OF v v grid_less]) (use sound_termsD(5) [OF assms(1)] in auto)
  have "coupon_dates t = Inr (rev (map (grid t) [0..<periods t]))"
    using assms(2,3) coupon_loop_grid [OF assms(1), of 0] by (simp add: coupon_dates_def is_zero_coupon_def on_grid_def)
  then have "accrued_interest t s = Inr (accrued_in t (grid t (Suc j)) (grid t j) s)"
    using assms(3-5) coupon_period_grid [OF assms(1,2) j] w
    by (cases "bt_count t") (simp_all add: accrued_interest_def is_zero_coupon_def accrued_in_def Let_def year_fraction_def
        icma_period_fraction_def day_count_days_def coupon_amount_def not_less not_le)
  then show ?thesis using that j by blast
qed

subsection \<open>Bounds of the accrual\<close>

lemma last_of_february_eq:
  assumes "valid_date d" "valid_date e" "last_of_february d" "last_of_february e" "year d = year e"
  shows "d = e"
  using assms by (simp add: last_of_february_def date.expand)

text \<open>The 30/360 day count does not decrease with the second date.\<close>

lemma thirty_360_mono:
  assumes "valid_date c" "valid_date d" "valid_date e" "c \<le> d" "d \<le> e"
  shows "thirty_360_us_days c d \<le> thirty_360_us_days c e"
proof -
  define d1 where "d1 = (if last_of_february c \<or> day c = 31 then 30 else day c)"
  define adj where "adj x = (let d2 = (if last_of_february c \<and> last_of_february x then 30 else day x)
      in if d2 = 31 \<and> d1 = 30 then 30 else d2)" for x
  have val: "thirty_360_us_days c x = 30 * (month_number x - month_number c) + (adj x - d1)" for x
    by (simp add: thirty_360_us_days_def month_number_def adj_def d1_def Let_def)
  have range: "1 \<le> adj x \<and> adj x \<le> 31" if "valid_date x" for x
    using that days_in_month_pos [of "year x" "month x"] by (simp add: adj_def Let_def valid_date_def)
  have le: "month_number d \<le> month_number e" by (rule month_number_mono [OF assms(2,3,5)])
  show ?thesis
  proof (cases "month_number d = month_number e")
    case False
    then have "30 * month_number d + 30 \<le> 30 * month_number e" using le by simp
    then show ?thesis unfolding val using range [OF assms(2)] range [OF assms(3)] by (simp add: algebra_simps)
  next
    case True
    then have ym: "year d = year e" "month d = month e"
      using assms(2,3) unfolding month_number_def valid_date_def by presburger+
    then have day: "day d \<le> day e" using assms(5) by (simp add: less_eq_date_def)
    have "adj d \<le> adj e"
    proof (cases "last_of_february d")
      case True
      then have "e = d" using ym day assms(3) by (auto simp: last_of_february_def valid_date_def date.expand)
      then show ?thesis by simp
    next
      case ld: False
      show ?thesis
      proof (cases "last_of_february e")
        case True
        then have "day d \<le> 29" using ym assms(2) days_in_month_pos(2) by (auto simp: last_of_february_def valid_date_def days_in_month_def split: if_splits)
        then show ?thesis using ld True day by (simp add: adj_def Let_def)
      next
        case False
        have "day e \<le> 31" using assms(3) days_in_month_pos(2) [of "year e" "month e"] by (simp add: valid_date_def)
        then show ?thesis using ld False day by (simp add: adj_def Let_def)
      qed
    qed
    then show ?thesis unfolding val using True by simp
  qed
qed

lemma thirty_360_refl: "thirty_360_us_days d d = 0"
  by (simp add: thirty_360_us_days_def Let_def)

lemma thirty_360_pos:
  assumes "valid_date c" "valid_date e" "month_number c < month_number e"
  shows "0 < thirty_360_us_days c e"
proof -
  define d1 where "d1 = (if last_of_february c \<or> day c = 31 then 30 else day c)"
  define d2 where "d2 = (let d2 = (if last_of_february c \<and> last_of_february e then 30 else day e)
      in if d2 = 31 \<and> d1 = 30 then 30 else d2)"
  have "thirty_360_us_days c e = 30 * (month_number e - month_number c) + (d2 - d1)"
    by (simp add: thirty_360_us_days_def month_number_def d1_def d2_def Let_def)
  moreover have "d1 \<le> 30"
    using assms(1) days_in_month_pos(2) [of "year c" "month c"] by (auto simp: d1_def valid_date_def)
  moreover have "1 \<le> d2" using assms(2) by (auto simp: d2_def Let_def valid_date_def)
  moreover have "30 * month_number c + 30 \<le> 30 * month_number e" using assms(3) by simp
  ultimately show ?thesis by (simp add: algebra_simps)
qed

text \<open>A regular coupon period counts at most 30 days per month.\<close>

lemma thirty_360_period:
  assumes "valid_date (bt_maturity t)"
  shows "thirty_360_us_days (grid t (Suc j)) (grid t j) \<le> 30 * coupon_step t"
proof -
  let ?c = "grid t (Suc j)" and ?e = "grid t j"
  define d1 where "d1 = (if last_of_february ?c \<or> day ?c = 31 then 30 else day ?c)"
  define d2 where "d2 = (let d2 = (if last_of_february ?c \<and> last_of_february ?e then 30 else day ?e)
      in if d2 = 31 \<and> d1 = 30 then 30 else d2)"
  have val: "thirty_360_us_days ?c ?e = 30 * (month_number ?e - month_number ?c) + (d2 - d1)"
    by (simp add: thirty_360_us_days_def month_number_def d1_def d2_def Let_def)
  have dc: "day ?c = min (day (bt_maturity t)) (days_in_month (year ?c) (month ?c))"
    and de: "day ?e = min (day (bt_maturity t)) (days_in_month (year ?e) (month ?e))"
    by (simp_all add: grid_def Let_def)
  have ve: "day ?e \<le> 31" using de days_in_month_pos(2) [of "year ?e" "month ?e"] by linarith
  have "d2 \<le> d1"
  proof (cases "last_of_february ?c \<or> day ?c = 31")
    case True
    then show ?thesis using ve by (auto simp: d1_def d2_def Let_def)
  next
    case False
    then have d1: "d1 = day ?c" by (simp add: d1_def)
    show ?thesis
    proof (cases "day ?c = day (bt_maturity t)")
      case True
      then show ?thesis using False de by (auto simp: d1 d2_def Let_def)
    next
      case clamped: False
      then have "day ?c = days_in_month (year ?c) (month ?c)" using dc by (simp add: min_def split: if_splits)
      then have "day ?c = 30" using False by (auto simp: last_of_february_def days_in_month_def split: if_splits)
      then show ?thesis using ve by (auto simp: d1 d2_def Let_def)
    qed
  qed
  moreover have "month_number ?e - month_number ?c = coupon_step t" by (simp add: algebra_simps)
  ultimately show ?thesis unfolding val by simp
qed

lemma freq_step: "coupon_step t * freq_value (bt_freq t) = 12"
  by (cases "bt_freq t") (simp_all add: coupon_step_def freq_value_def)

lemma day_count_ordered:
  assumes "valid_date c" "valid_date d" "valid_date e" "c \<le> d" "d \<le> e" "month_number c < month_number e"
  shows "0 \<le> day_count_days c d k" "day_count_days c d k \<le> day_count_days c e k" "0 < day_count_days c e k"
proof -
  have ord: "toordinal x \<le> toordinal y" if "valid_date x" "valid_date y" "x \<le> y" for x y
    using less_date_toordinal [OF that(1,2)] that(3) by (cases "x = y") (simp_all add: less_imp_le)
  have "toordinal c < toordinal e"
    by (rule less_date_toordinal [OF assms(1,3) month_number_less [OF assms(1,3,6)]])
  moreover have "0 \<le> thirty_360_us_days c d"
    using thirty_360_mono [OF assms(1,1,2) order_refl assms(4)] by (simp add: thirty_360_refl)
  ultimately show "0 \<le> day_count_days c d k" "day_count_days c d k \<le> day_count_days c e k" "0 < day_count_days c e k"
    using ord [OF assms(1,2,4)] ord [OF assms(2,3,5)] thirty_360_mono [OF assms(1-5)] thirty_360_pos [OF assms(1,3,6)]
    by (cases k; simp add: day_count_days_def days_between_def)+
qed

lemma accrued_in_period:
  assumes "sound_terms t" "on_grid t" "bt_rate t \<noteq> 0" "valid_date s" "bt_issue t \<le> s" "s < bt_maturity t"
  shows "\<exists>a. accrued_interest t s = Inr a \<and> ac_previous a \<le> s \<and> s < ac_next a \<and>
    (\<exists>j < periods t. ac_previous a = grid t (Suc j) \<and> ac_next a = grid t j) \<and>
    0 \<le> ac_amount a \<and> (s = ac_previous a \<longrightarrow> ac_amount a = 0 \<and> ac_days_accrued a = 0) \<and>
    0 \<le> ac_days_accrued a \<and> ac_days_accrued a \<le> ac_days_in_period a \<and> 0 < ac_days_in_period a \<and>
    (bt_count t \<in> {Thirty_360_US, Act_Act_ICMA} \<longrightarrow> ac_amount a \<le> coupon_amount t)"
proof -
  note t = sound_termsD [OF assms(1)]
  obtain j where j: "j < periods t" "grid t (Suc j) \<le> s" "s < grid t j"
    "accrued_interest t s = Inr (accrued_in t (grid t (Suc j)) (grid t j) s)"
    by (rule accrued_interest_in [OF assms(1-3,5,6)])
  let ?a = "accrued_in t (grid t (Suc j)) (grid t j) s"
  define days where "days = day_count_days (grid t (Suc j)) s (bt_count t)"
  define width where "width = day_count_days (grid t (Suc j)) (grid t j) (bt_count t)"
  note v = grid_valid [OF t(5)]
  have d: "0 \<le> days" "days \<le> width" "0 < width"
    unfolding days_def width_def
    by (rule day_count_ordered [OF v assms(4) v j(2) less_imp_le [OF j(3)]]; use coupon_step_pos [of t] in simp)+
  have zero: "days = 0" if "s = grid t (Suc j)"
    using that by (cases "bt_count t") (simp_all add: days_def day_count_days_def thirty_360_refl days_between_def)
  have facts: "ac_days_accrued ?a = days" "ac_days_in_period ?a = width" "ac_previous ?a = grid t (Suc j)" "ac_next ?a = grid t j"
    by (simp_all add: accrued_in_def Let_def days_def width_def)
  obtain fraction where f: "ac_amount ?a = bt_rate t * bt_face t * fraction" "0 \<le> fraction" "days = 0 \<longrightarrow> fraction = 0"
    "bt_count t \<in> {Thirty_360_US, Act_Act_ICMA} \<longrightarrow> fraction \<le> 1 / real_of_int (freq_value (bt_freq t))"
  proof (cases "bt_count t")
    case Thirty_360_US
    have "days \<le> 30 * coupon_step t"
      using d(2) thirty_360_period [OF t(5), of j] Thirty_360_US by (simp add: width_def day_count_days_def)
    then have "real_of_int days / 360 \<le> 1 / real_of_int (freq_value (bt_freq t))"
      by (cases "bt_freq t") (simp_all add: coupon_step_def freq_value_def)
    then show ?thesis
      using that [of "real_of_int days / 360"] d(1) Thirty_360_US by (simp add: accrued_in_def Let_def days_def)
  next
    case Act_Act_ICMA
    have pos: "0 < real_of_int (freq_value (bt_freq t))" by (cases "bt_freq t") (simp_all add: freq_value_def)
    have "real_of_int days / real_of_int width / real_of_int (freq_value (bt_freq t)) \<le> 1 / real_of_int (freq_value (bt_freq t))"
      by (rule divide_right_mono) (use d pos in simp_all)
    then show ?thesis
      using that [of "real_of_int days / real_of_int width / real_of_int (freq_value (bt_freq t))"] d pos Act_Act_ICMA
      by (simp add: accrued_in_def Let_def days_def width_def)
  next
    case Act_360
    then show ?thesis
      using that [of "real_of_int days / 360"] d(1) by (simp add: accrued_in_def Let_def days_def)
  next
    case Act_365F
    then show ?thesis
      using that [of "real_of_int days / 365"] d(1) by (simp add: accrued_in_def Let_def days_def)
  qed
  have rf: "0 \<le> bt_rate t * bt_face t" using t(1,3) by simp
  have nonneg: "0 \<le> ac_amount ?a" unfolding f(1) using rf f(2) by (rule mult_nonneg_nonneg)
  have none: "s = ac_previous ?a \<longrightarrow> ac_amount ?a = 0 \<and> ac_days_accrued ?a = 0"
    using f(1,3) zero facts(1,3) by (metis mult_zero_right)
  have top: "bt_count t \<in> {Thirty_360_US, Act_Act_ICMA} \<longrightarrow> ac_amount ?a \<le> coupon_amount t"
    using mult_left_mono [OF _ rf, of fraction "1 / real_of_int (freq_value (bt_freq t))"] f(1,4) by (simp add: coupon_amount_def)
  show ?thesis
    by (intro exI [of _ ?a] conjI j(4) nonneg none top exI [of _ j])
      (use j d in \<open>simp_all add: facts\<close>)
qed

text \<open>
  Accrued interest. For a regular coupon bond the accrual of any settlement between issue and
  maturity succeeds, is resolved in the coupon period that holds the settlement, is zero on its
  first day and never negative, and under 30/360 and ACT/ACT ICMA never exceeds a coupon.
\<close>

theorem accrued_interest_bounds:
  assumes "sound_terms t" "on_grid t" "bt_rate t \<noteq> 0" "valid_date s" "bt_issue t \<le> s" "s < bt_maturity t"
  shows "\<exists>a. accrued_interest t s = Inr a \<and> ac_previous a \<le> s \<and> s < ac_next a \<and>
    (\<exists>j < periods t. ac_previous a = grid t (Suc j) \<and> ac_next a = grid t j) \<and>
    0 \<le> ac_amount a \<and> (s = ac_previous a \<longrightarrow> ac_amount a = 0 \<and> ac_days_accrued a = 0) \<and>
    0 \<le> ac_days_accrued a \<and> ac_days_accrued a \<le> ac_days_in_period a \<and> 0 < ac_days_in_period a \<and>
    (bt_count t \<in> {Thirty_360_US, Act_Act_ICMA} \<longrightarrow> ac_amount a \<le> coupon_amount t)"
  using assms by (rule accrued_in_period)

subsection \<open>A concrete bond\<close>

text \<open>A one-year semiannual 5% bond on month ends, callable at its middle coupon.\<close>

definition july_bond :: bond_terms where
  "july_bond = \<lparr> bt_issue = Date 2023 7 31, bt_maturity = Date 2024 7 31, bt_rate = 5 / 100, bt_freq = Semiannual,
     bt_count = Thirty_360_US, bt_face = 100, bt_calls = [\<lparr> ca_date = Date 2024 1 31, ca_price = 101 \<rparr>] \<rparr>"

lemma july_fields [simp]: "bt_issue july_bond = Date 2023 7 31" "bt_maturity july_bond = Date 2024 7 31" "bt_rate july_bond = 5 / 100"
  "bt_freq july_bond = Semiannual" "bt_count july_bond = Thirty_360_US" "bt_face july_bond = 100"
  "bt_calls july_bond = [\<lparr> ca_date = Date 2024 1 31, ca_price = 101 \<rparr>]"
  by (simp_all add: july_bond_def)

lemma july_grid: "grid july_bond 0 = Date 2024 7 31" "grid july_bond (Suc 0) = Date 2024 1 31" "grid july_bond 2 = Date 2023 7 31"
  by (simp_all add: grid_def month_number_def coupon_step_def freq_value_def days_in_month_def Let_def)

lemma july_sound: "sound_terms july_bond"
  by (simp add: sound_terms_def check_terms_def less_eq_date_def less_date_def valid_date_def days_in_month_def)

lemma july_periods: "periods july_bond = 2"
  unfolding periods_def
proof (rule Least_equality)
  show "grid july_bond 2 \<le> bt_issue july_bond" by (simp add: july_grid)
  fix j
  assume j: "grid july_bond j \<le> bt_issue july_bond"
  show "2 \<le> j"
  proof (rule ccontr)
    assume "\<not> 2 \<le> j"
    then have "j = 0 \<or> j = Suc 0" by auto
    then show False using j by (auto simp: july_grid less_eq_date_def)
  qed
qed

lemma july_on_grid: "on_grid july_bond"
  by (simp add: on_grid_def july_periods july_grid)

lemma july_dates: "coupon_dates july_bond = Inr [Date 2024 1 31, Date 2024 7 31]"
  using coupon_loop_grid [OF july_sound, of 0]
  by (simp add: coupon_dates_def is_zero_coupon_def july_periods july_grid upt_rec)

theorem coupon_dates_grid_witness:
  "\<exists>n > 0. grid july_bond n = Date 2023 7 31 \<and> coupon_dates july_bond = Inr (rev (map (grid july_bond) [0..<n]))"
proof -
  have "\<exists>j. grid july_bond j = bt_issue july_bond" using july_grid(3) by (intro exI [of _ 2]) simp
  with coupon_dates_grid [OF july_sound] show ?thesis by (simp only: july_fields if_True) auto
qed

theorem accrued_interest_bounds_witness:
  "\<exists>a. accrued_interest july_bond (Date 2024 3 15) = Inr a \<and> 0 \<le> ac_amount a \<and> ac_amount a \<le> coupon_amount july_bond"
proof -
  have "valid_date (Date 2024 3 15)" "bt_issue july_bond \<le> Date 2024 3 15" "Date 2024 3 15 < bt_maturity july_bond" "bt_rate july_bond \<noteq> 0"
    by (simp_all add: valid_date_def days_in_month_def less_eq_date_def less_date_def)
  with accrued_interest_bounds [OF july_sound july_on_grid, of "Date 2024 3 15"] show ?thesis by auto
qed
end
