(* ===== verification/Bond_Pricing.thy ===== *)
theory Bond_Pricing
  imports Bond_Cashflows
begin

text \<open>
  The pricing and yield motor (\<open>src/bonds/pricing.py\<close>): periodic discounting of the remaining
  flows, the bisection that inverts it, yields to maturity, call and worst, durations, curve
  pricing, Z-spread, carry and rolldown. A power with a real exponent is \<open>powr\<close> on a positive
  base; the code raises its own error before a base is not positive.
\<close>

definition PERIODIC_RATE_FLOOR :: real where "PERIODIC_RATE_FLOOR = - (999 / 1000)"

definition MAX_PERIODIC_RATE :: real where "MAX_PERIODIC_RATE = 10"

definition SPREAD_FLOOR :: real where "SPREAD_FLOOR = - (99 / 100)"

definition SPREAD_CEILING :: real where "SPREAD_CEILING = 10"

definition SOLVER_XTOL :: real where "SOLVER_XTOL = 1 / 10 ^ 14"

definition SOLVER_FTOL :: real where "SOLVER_FTOL = 1 / 10 ^ 10"

definition SOLVER_MAX_ITER :: nat where "SOLVER_MAX_ITER = 200"

definition DEFAULT_YIELD_BUMP :: real where "DEFAULT_YIELD_BUMP = 1 / 10 ^ 4"

definition CURVE_DAYS_PER_YEAR :: real where "CURVE_DAYS_PER_YEAR = 365"

record price_quote =
  pq_clean :: real
  pq_dirty :: real
  pq_accrued :: real

datatype scenario_kind = To_maturity | To_call

record yield_worst =
  yw_ytw :: real
  yw_maturity :: real
  yw_kind :: scenario_kind
  yw_date :: date
  yw_calls :: "(date \<times> real) list"

subsection \<open>The spot curve\<close>

type_synonym curve_node = "real \<times> real"

record spot_curve =
  sp_nodes :: "curve_node list"
  sp_sorted :: "curve_node list"

fun check_tenors :: "real option \<Rightarrow> curve_node list \<Rightarrow> motor_error + unit" where
  "check_tenors previous [] = Inr ()"
| "check_tenors previous ((tenor, r) # ns) =
     (if tenor \<le> 0 then Inl (Bond_error ''non_positive_curve_tenor'')
      else if (case previous of None \<Rightarrow> False | Some p \<Rightarrow> tenor \<le> p) then Inl (Bond_error ''curve_tenor_not_increasing'')
      else check_tenors (Some tenor) ns)"

definition spot_curve_of :: "curve_node list \<Rightarrow> motor_error + spot_curve" where
  "spot_curve_of nodes =
     (if nodes = [] then Inl (Bond_error ''empty_spot_curve'')
      else (let ordered = sort_key fst nodes
            in bindE (check_tenors None ordered) (\<lambda>_. Inr \<lparr> sp_nodes = nodes, sp_sorted = ordered \<rparr>)))"

text \<open>The first segment that holds the tenor.\<close>

fun segment_rate :: "real \<Rightarrow> curve_node list \<Rightarrow> motor_error + real" where
  "segment_rate tenor ((t0, r0) # (t1, r1) # ns) =
     (if t0 \<le> tenor \<and> tenor \<le> t1 then Inr (r0 + (tenor - t0) / (t1 - t0) * (r1 - r0))
      else segment_rate tenor ((t1, r1) # ns))"
| "segment_rate tenor ns = Inl (Bond_error ''curve_interpolation_failed'')"

definition curve_rate :: "spot_curve \<Rightarrow> real \<Rightarrow> motor_error + real" where
  "curve_rate curve tenor =
     (let nodes = sp_sorted curve
      in if nodes = [] then Inl (Raised IndexError)
         else if tenor \<le> fst (hd nodes) then Inr (snd (hd nodes))
         else if tenor \<ge> fst (last nodes) then Inr (snd (last nodes))
         else segment_rate tenor nodes)"

subsection \<open>Discounting\<close>

definition validate_settlement :: "bond_terms \<Rightarrow> date \<Rightarrow> motor_error + unit" where
  "validate_settlement t settlement =
     (if settlement < bt_issue t then Inl (Bond_error ''settlement_before_issue'')
      else if settlement \<ge> bt_maturity t then Inl (Bond_error ''settlement_after_maturity'')
      else Inr ())"

definition accrued_amount :: "bond_terms \<Rightarrow> date \<Rightarrow> motor_error + real" where
  "accrued_amount t settlement =
     (if is_zero_coupon t then bindE (validate_settlement t settlement) (\<lambda>_. Inr 0)
      else bindE (accrued_interest t settlement) (\<lambda>a. Inr (ac_amount a)))"

definition future_flows :: "schedule \<Rightarrow> date \<Rightarrow> cash_flow list" where
  "future_flows sch settlement = filter (\<lambda>cf. cf_date cf > settlement) (sc_flows sch)"

text \<open>The position of a date among the distinct future dates.\<close>

definition position :: "'a list \<Rightarrow> 'a \<Rightarrow> nat" where
  "position xs x = length (takeWhile (\<lambda>y. y \<noteq> x) xs)"

definition frequency_of :: "schedule \<Rightarrow> real" where
  "frequency_of sch = real_of_int (freq_value (bt_freq (sc_terms sch)))"

definition future_flow_exponents :: "schedule \<Rightarrow> date \<Rightarrow> motor_error + (real \<times> real) list" where
  "future_flow_exponents sch settlement =
     (let t = sc_terms sch; m = frequency_of sch
      in bindE (validate_settlement t settlement) (\<lambda>_.
         let future = future_flows sch settlement
         in if future = [] then Inl (Bond_error ''no_future_cashflows'')
            else if is_zero_coupon t then
              bindE (year_fraction settlement (bt_maturity t) (bt_count t)) (\<lambda>tau.
              Inr (map (\<lambda>cf. (cf_amount cf, m * tau)) future))
            else bindE (accrued_interest t settlement) (\<lambda>a.
              if ac_days_in_period a \<le> 0 then Inl (Bond_error ''degenerate_coupon_period'')
              else (let remaining = 1 - real_of_int (ac_days_accrued a) / real_of_int (ac_days_in_period a);
                        dates = sort (remdups (map cf_date future))
                    in Inr (map (\<lambda>cf. (cf_amount cf, remaining + real (position dates (cf_date cf)))) future)))))"

definition present_value :: "(real \<times> real) list \<Rightarrow> real \<Rightarrow> motor_error + real" where
  "present_value pairs periodic_rate =
     (if periodic_rate \<le> - 1 then Inl (Bond_error ''yield_below_periodic_floor'')
      else Inr (sum_list (map (\<lambda>(amount, exponent). amount / (1 + periodic_rate) powr exponent) pairs)))"

definition dirty_price :: "schedule \<Rightarrow> date \<Rightarrow> real \<Rightarrow> motor_error + real" where
  "dirty_price sch settlement ytm =
     bindE (future_flow_exponents sch settlement) (\<lambda>pairs. present_value pairs (ytm / frequency_of sch))"

definition clean_price :: "schedule \<Rightarrow> date \<Rightarrow> real \<Rightarrow> motor_error + real" where
  "clean_price sch settlement ytm =
     bindE (dirty_price sch settlement ytm) (\<lambda>dirty.
     bindE (accrued_amount (sc_terms sch) settlement) (\<lambda>a. Inr (dirty - a)))"

definition price_quote_of :: "schedule \<Rightarrow> date \<Rightarrow> real \<Rightarrow> motor_error + price_quote" where
  "price_quote_of sch settlement ytm =
     bindE (accrued_amount (sc_terms sch) settlement) (\<lambda>a.
     bindE (dirty_price sch settlement ytm) (\<lambda>dirty.
       Inr \<lparr> pq_clean = dirty - a, pq_dirty = dirty, pq_accrued = a \<rparr>))"

subsection \<open>The root finder\<close>

fun bisect :: "(real \<Rightarrow> motor_error + real) \<Rightarrow> real \<Rightarrow> string \<Rightarrow> nat \<Rightarrow> real \<Rightarrow> real \<Rightarrow> motor_error + real" where
  "bisect func target err_prefix 0 a b =
     (let mid = (a + b) / 2
      in bindE (func mid) (\<lambda>v. if \<bar>v - target\<bar> \<le> SOLVER_FTOL then Inr mid
                              else Inl (Bond_error (err_prefix @ ''_no_convergence''))))"
| "bisect func target err_prefix (Suc n) a b =
     (let mid = (a + b) / 2
      in bindE (func mid) (\<lambda>v.
           let g = v - target
           in if g = 0 \<or> b - a < SOLVER_XTOL then Inr mid
              else if g > 0 then bisect func target err_prefix n mid b
              else bisect func target err_prefix n a mid))"

definition solve_decreasing ::
  "(real \<Rightarrow> motor_error + real) \<Rightarrow> real \<Rightarrow> real \<Rightarrow> real \<Rightarrow> string \<Rightarrow> motor_error + real" where
  "solve_decreasing func target lo hi err_prefix =
     bindE (func lo) (\<lambda>v_lo.
     bindE (func hi) (\<lambda>v_hi.
       let g_lo = v_lo - target; g_hi = v_hi - target
       in if g_lo = 0 then Inr lo
          else if g_hi = 0 then Inr hi
          else if g_lo < 0 \<or> g_hi > 0 then Inl (Bond_error (err_prefix @ ''_out_of_bounds''))
          else bisect func target err_prefix SOLVER_MAX_ITER lo hi))"

subsection \<open>Yields\<close>

text \<open>The dirty target of a quoted price.\<close>

definition price_target :: "schedule \<Rightarrow> date \<Rightarrow> real \<Rightarrow> bool \<Rightarrow> motor_error + real" where
  "price_target sch settlement price price_is_clean =
     (if \<not> price_is_clean then Inr price
      else bindE (accrued_amount (sc_terms sch) settlement) (\<lambda>a. Inr (price + a)))"

definition yield_to_maturity :: "schedule \<Rightarrow> date \<Rightarrow> real \<Rightarrow> bool \<Rightarrow> motor_error + real" where
  "yield_to_maturity sch settlement price price_is_clean =
     (if price \<le> 0 then Inl (Bond_error ''non_positive_price'')
      else bindE (future_flow_exponents sch settlement) (\<lambda>pairs.
           bindE (price_target sch settlement price price_is_clean) (\<lambda>target.
             let m = frequency_of sch
             in solve_decreasing (\<lambda>y. present_value pairs (y / m)) target
                  (PERIODIC_RATE_FLOOR * m) (MAX_PERIODIC_RATE * m) ''ytm'')))"

definition current_yield :: "schedule \<Rightarrow> real \<Rightarrow> motor_error + real" where
  "current_yield sch clean_value =
     (if clean_value \<le> 0 then Inl (Bond_error ''non_positive_price'')
      else Inr (bt_rate (sc_terms sch) * bt_face (sc_terms sch) / clean_value))"

definition call_scenario :: "bond_terms \<Rightarrow> call_option \<Rightarrow> motor_error + schedule" where
  "call_scenario t c =
     bindE (generate_schedule t) (\<lambda>base.
       if ca_date c \<notin> set (sc_dates base) then Inl (Bond_error ''call_not_on_coupon_grid'')
       else (let coupons = filter (\<lambda>cf. cf_kind cf = Coupon \<and> cf_date cf \<le> ca_date c) (sc_flows base);
                 redemption = \<lparr> cf_date = ca_date c, cf_amount = ca_price c * bt_face t / 100, cf_kind = Redemption \<rparr>
             in Inr \<lparr> sc_terms = t, sc_dates = filter (\<lambda>d. d \<le> ca_date c) (sc_dates base),
                  sc_flows = sort_key flow_key (coupons @ [redemption]) \<rparr>))"

definition yield_to_call :: "schedule \<Rightarrow> date \<Rightarrow> real \<Rightarrow> call_option \<Rightarrow> bool \<Rightarrow> motor_error + real" where
  "yield_to_call sch settlement price c price_is_clean =
     bindE (call_scenario (sc_terms sch) c) (\<lambda>scenario. yield_to_maturity scenario settlement price price_is_clean)"

type_synonym yield_scenario = "scenario_kind \<times> date \<times> real"

fun call_scenarios :: "bond_terms \<Rightarrow> date \<Rightarrow> real \<Rightarrow> bool \<Rightarrow> call_option list \<Rightarrow> motor_error + yield_scenario list" where
  "call_scenarios t settlement price price_is_clean [] = Inr []"
| "call_scenarios t settlement price price_is_clean (c # cs) =
     (if ca_date c \<le> settlement then call_scenarios t settlement price price_is_clean cs
      else bindE (call_scenario t c) (\<lambda>scenario.
        if list_all (\<lambda>cf. cf_date cf \<le> settlement) (sc_flows scenario) then call_scenarios t settlement price price_is_clean cs
        else bindE (yield_to_maturity scenario settlement price price_is_clean) (\<lambda>ytc.
             bindE (call_scenarios t settlement price price_is_clean cs) (\<lambda>rest. Inr ((To_call, ca_date c, ytc) # rest)))))"

text \<open>\<open>min\<close> with a key keeps the first of the least.\<close>

fun first_least :: "('a \<Rightarrow> real) \<Rightarrow> 'a \<Rightarrow> 'a list \<Rightarrow> 'a" where
  "first_least key x [] = x"
| "first_least key x (y # ys) = first_least key (if key y < key x then y else x) ys"

definition yield_to_worst :: "schedule \<Rightarrow> date \<Rightarrow> real \<Rightarrow> bool \<Rightarrow> motor_error + yield_worst" where
  "yield_to_worst sch settlement price price_is_clean =
     (let t = sc_terms sch
      in bindE (yield_to_maturity sch settlement price price_is_clean) (\<lambda>ytm.
         bindE (call_scenarios t settlement price price_is_clean (bt_calls t)) (\<lambda>calls.
           case first_least (\<lambda>s. snd (snd s)) (To_maturity, bt_maturity t, ytm) calls of (kind, d, y) \<Rightarrow>
             Inr \<lparr> yw_ytw = y, yw_maturity = ytm, yw_kind = kind, yw_date = d,
               yw_calls = map snd calls \<rparr>)))"

subsection \<open>Duration and convexity\<close>

definition modified_duration :: "schedule \<Rightarrow> date \<Rightarrow> real \<Rightarrow> motor_error + real" where
  "modified_duration sch settlement ytm =
     bindE (future_flow_exponents sch settlement) (\<lambda>pairs.
       let m = frequency_of sch; i = ytm / m
       in bindE (present_value pairs i) (\<lambda>pv.
            if pv \<le> 0 then Inl (Bond_error ''non_positive_price'')
            else Inr (sum_list (map (\<lambda>(amount, exponent). exponent * amount / (1 + i) powr exponent) pairs) / (m * pv) / (1 + i))))"

definition effective_duration :: "schedule \<Rightarrow> date \<Rightarrow> real \<Rightarrow> real \<Rightarrow> motor_error + real" where
  "effective_duration sch settlement ytm bump =
     (if bump \<le> 0 then Inl (Bond_error ''non_positive_bump'')
      else bindE (dirty_price sch settlement ytm) (\<lambda>p0.
        if p0 \<le> 0 then Inl (Bond_error ''non_positive_price'')
        else bindE (dirty_price sch settlement (ytm + bump)) (\<lambda>p_up.
             bindE (dirty_price sch settlement (ytm - bump)) (\<lambda>p_dn. Inr ((p_dn - p_up) / (2 * p0 * bump))))))"

definition convexity :: "schedule \<Rightarrow> date \<Rightarrow> real \<Rightarrow> real \<Rightarrow> motor_error + real" where
  "convexity sch settlement ytm bump =
     (if bump \<le> 0 then Inl (Bond_error ''non_positive_bump'')
      else bindE (dirty_price sch settlement ytm) (\<lambda>p0.
        if p0 \<le> 0 then Inl (Bond_error ''non_positive_price'')
        else bindE (dirty_price sch settlement (ytm + bump)) (\<lambda>p_up.
             bindE (dirty_price sch settlement (ytm - bump)) (\<lambda>p_dn. Inr ((p_up + p_dn - 2 * p0) / (p0 * bump * bump))))))"

subsection \<open>The curve\<close>

definition curve_term :: "real \<Rightarrow> date \<Rightarrow> spot_curve \<Rightarrow> real \<Rightarrow> cash_flow \<Rightarrow> motor_error + real" where
  "curve_term m settlement curve spread cf =
     (let tau = real_of_int (days_between settlement (cf_date cf)) / CURVE_DAYS_PER_YEAR
      in bindE (curve_rate curve tau) (\<lambda>z.
           let base = 1 + (z + spread) / m
           in if base \<le> 0 then Inl (Bond_error ''curve_rate_below_floor'')
              else Inr (cf_amount cf / base powr (m * tau))))"

definition curve_price :: "schedule \<Rightarrow> date \<Rightarrow> spot_curve \<Rightarrow> real \<Rightarrow> motor_error + real" where
  "curve_price sch settlement curve spread =
     bindE (validate_settlement (sc_terms sch) settlement) (\<lambda>_.
       let future = future_flows sch settlement
       in if future = [] then Inl (Bond_error ''no_future_cashflows'')
          else bindE (mapE (curve_term (frequency_of sch) settlement curve spread) future) (\<lambda>xs. Inr (sum_list xs)))"

definition curve_clean_price :: "schedule \<Rightarrow> date \<Rightarrow> spot_curve \<Rightarrow> real \<Rightarrow> motor_error + real" where
  "curve_clean_price sch settlement curve spread =
     bindE (curve_price sch settlement curve spread) (\<lambda>p.
     bindE (accrued_amount (sc_terms sch) settlement) (\<lambda>a. Inr (p - a)))"

definition z_spread :: "schedule \<Rightarrow> date \<Rightarrow> real \<Rightarrow> spot_curve \<Rightarrow> bool \<Rightarrow> motor_error + real" where
  "z_spread sch settlement price curve price_is_clean =
     (if price \<le> 0 then Inl (Bond_error ''non_positive_price'')
      else bindE (price_target sch settlement price price_is_clean) (\<lambda>target.
             solve_decreasing (curve_price sch settlement curve) target SPREAD_FLOOR SPREAD_CEILING ''z_spread''))"

definition validate_horizon :: "bond_terms \<Rightarrow> date \<Rightarrow> date \<Rightarrow> motor_error + unit" where
  "validate_horizon t settlement horizon =
     (if horizon \<le> settlement \<or> horizon \<ge> bt_maturity t then Inl (Bond_error ''horizon_out_of_range'') else Inr ())"

definition carry_of :: "schedule \<Rightarrow> date \<Rightarrow> date \<Rightarrow> motor_error + real" where
  "carry_of sch settlement horizon =
     (let t = sc_terms sch
      in bindE (validate_settlement t settlement) (\<lambda>_.
         bindE (validate_horizon t settlement horizon) (\<lambda>_.
           let coupons = sum_list (map cf_amount (filter (\<lambda>cf. cf_kind cf = Coupon \<and> settlement < cf_date cf \<and> cf_date cf \<le> horizon)
                 (sc_flows sch)))
           in bindE (accrued_amount t horizon) (\<lambda>a1.
              bindE (accrued_amount t settlement) (\<lambda>a0. Inr (coupons + a1 - a0))))))"

definition rolldown :: "schedule \<Rightarrow> date \<Rightarrow> date \<Rightarrow> spot_curve \<Rightarrow> motor_error + real" where
  "rolldown sch settlement horizon curve =
     (let t = sc_terms sch
      in bindE (validate_settlement t settlement) (\<lambda>_.
         bindE (validate_horizon t settlement horizon) (\<lambda>_.
         bindE (curve_clean_price sch horizon curve 0) (\<lambda>p1.
         bindE (curve_clean_price sch settlement curve 0) (\<lambda>p0. Inr (p1 - p0))))))"

subsection \<open>The bisection finds the root\<close>

text \<open>A value function on an interval: it does not raise there, is continuous and strictly decreasing.\<close>

definition decreasing_on :: "(real \<Rightarrow> motor_error + real) \<Rightarrow> (real \<Rightarrow> real) \<Rightarrow> real \<Rightarrow> real \<Rightarrow> bool" where
  "decreasing_on func f lo hi \<longleftrightarrow>
     (\<forall>x. lo \<le> x \<and> x \<le> hi \<longrightarrow> func x = Inr (f x) \<and> isCont f x) \<and>
     (\<forall>x y. lo \<le> x \<and> x < y \<and> y \<le> hi \<longrightarrow> f y < f x)"

lemma decreasing_onD:
  assumes "decreasing_on func f lo hi"
  shows "lo \<le> x \<Longrightarrow> x \<le> hi \<Longrightarrow> func x = Inr (f x)" "lo \<le> x \<Longrightarrow> x \<le> hi \<Longrightarrow> isCont f x"
    "lo \<le> x \<Longrightarrow> x < y \<Longrightarrow> y \<le> hi \<Longrightarrow> f y < f x"
  using assms by (auto simp: decreasing_on_def)

lemma root_between:
  assumes "decreasing_on func f lo hi" "lo \<le> a" "a \<le> b" "b \<le> hi" "f b \<le> target" "target \<le> f a"
  shows "\<exists>r. a \<le> r \<and> r \<le> b \<and> f r = target"
  by (rule IVT2) (use assms decreasing_onD(2) [OF assms(1)] in auto)

lemma bisect_root:
  assumes "decreasing_on func f lo hi"
  shows "lo \<le> a \<Longrightarrow> a < b \<Longrightarrow> b \<le> hi \<Longrightarrow> target < f a \<Longrightarrow> f b < target \<Longrightarrow> b - a < SOLVER_XTOL * 2 ^ n \<Longrightarrow>
    \<exists>x r. bisect func target prefix (Suc n) a b = Inr x \<and> a \<le> x \<and> x \<le> b \<and> a \<le> r \<and> r \<le> b \<and> f r = target \<and> \<bar>x - r\<bar> < SOLVER_XTOL"
proof (induction n arbitrary: a b)
  case 0
  let ?mid = "(a + b) / 2"
  have mid: "a < ?mid" "?mid < b" using 0(2) by (auto simp: field_simps)
  have v: "func ?mid = Inr (f ?mid)" by (rule decreasing_onD(1) [OF assms]) (use mid 0 in auto)
  obtain r where r: "a \<le> r" "r \<le> b" "f r = target" using root_between [OF assms, of a b target] 0 by auto
  have w: "b - a < SOLVER_XTOL" using 0(6) by simp
  then have "\<bar>?mid - r\<bar> < SOLVER_XTOL" using r(1,2) mid by linarith
  then show ?case using v r mid w by (intro exI [of _ ?mid] exI [of _ r]) (simp add: Let_def)
next
  case (Suc n)
  let ?mid = "(a + b) / 2"
  have mid: "a < ?mid" "?mid < b" using Suc.prems(2) by (auto simp: field_simps)
  have v: "func ?mid = Inr (f ?mid)" by (rule decreasing_onD(1) [OF assms]) (use mid Suc.prems in auto)
  consider (hit) "f ?mid = target" | (small) "f ?mid \<noteq> target" "b - a < SOLVER_XTOL"
    | (right) "target < f ?mid" "\<not> b - a < SOLVER_XTOL" | (left) "f ?mid < target" "\<not> b - a < SOLVER_XTOL" by linarith
  then show ?case
  proof cases
    case hit
    then show ?thesis using v mid by (intro exI [of _ ?mid]) (simp add: Let_def SOLVER_XTOL_def)
  next
    case small
    obtain r where r: "a \<le> r" "r \<le> b" "f r = target" using root_between [OF assms, of a b target] Suc.prems by auto
    then have "\<bar>?mid - r\<bar> < SOLVER_XTOL" using small(2) mid by linarith
    then show ?thesis using v r mid small by (intro exI [of _ ?mid] exI [of _ r]) (simp add: Let_def)
  next
    case right
    have "b - ?mid < SOLVER_XTOL * 2 ^ n" using Suc.prems(6) by (simp add: field_simps)
    then obtain x r where "bisect func target prefix (Suc n) ?mid b = Inr x" "?mid \<le> x" "x \<le> b" "?mid \<le> r" "r \<le> b"
        "f r = target" "\<bar>x - r\<bar> < SOLVER_XTOL"
      using Suc.IH [of ?mid b] Suc.prems mid right by auto
    then show ?thesis using v mid right by (intro exI [of _ x] exI [of _ r]) (simp add: Let_def)
  next
    case left
    have "?mid - a < SOLVER_XTOL * 2 ^ n" using Suc.prems(6) by (simp add: field_simps)
    then obtain x r where "bisect func target prefix (Suc n) a ?mid = Inr x" "a \<le> x" "x \<le> ?mid" "a \<le> r" "r \<le> ?mid"
        "f r = target" "\<bar>x - r\<bar> < SOLVER_XTOL"
      using Suc.IH [of a ?mid] Suc.prems mid left by auto
    then show ?thesis using v mid left by (intro exI [of _ x] exI [of _ r]) (simp add: Let_def)
  qed
qed

text \<open>The solver reports a target out of the bracket and otherwise returns the root to its tolerance.\<close>

lemma solve_decreasing_root:
  assumes "decreasing_on func f lo hi" "lo < hi" "hi - lo \<le> 50"
  shows "if f lo < target \<or> target < f hi then solve_decreasing func target lo hi prefix = Inl (Bond_error (prefix @ ''_out_of_bounds''))
    else \<exists>x r. solve_decreasing func target lo hi prefix = Inr x \<and> lo \<le> x \<and> x \<le> hi \<and> lo \<le> r \<and> r \<le> hi \<and>
      f r = target \<and> \<bar>x - r\<bar> < SOLVER_XTOL"
proof -
  note v = decreasing_onD [OF assms(1)]
  have ends: "func lo = Inr (f lo)" "func hi = Inr (f hi)" "f hi < f lo" using v(1,3) assms(2) by auto
  consider (lo) "f lo = target" | (hi) "f hi = target" | (above) "f lo < target" | (below) "target < f hi"
    | (inside) "target < f lo" "f hi < target" by linarith
  then show ?thesis
  proof cases
    case lo
    then show ?thesis using ends assms(2) by (auto simp: solve_decreasing_def Let_def SOLVER_XTOL_def intro!: exI [of _ lo])
  next
    case hi
    then show ?thesis using ends assms(2) by (auto simp: solve_decreasing_def Let_def SOLVER_XTOL_def intro!: exI [of _ hi])
  next
    case above
    then show ?thesis using ends by (simp add: solve_decreasing_def Let_def)
  next
    case below
    then show ?thesis using ends by (simp add: solve_decreasing_def Let_def)
  next
    case inside
    have "hi - lo < SOLVER_XTOL * 2 ^ 199" using assms(3) by (simp add: SOLVER_XTOL_def)
    then have "\<exists>x r. bisect func target prefix (Suc 199) lo hi = Inr x \<and> lo \<le> x \<and> x \<le> hi \<and> lo \<le> r \<and> r \<le> hi \<and>
        f r = target \<and> \<bar>x - r\<bar> < SOLVER_XTOL"
      by (rule bisect_root [OF assms(1) order_refl assms(2) order_refl inside])
    moreover have "SOLVER_MAX_ITER = Suc 199" by (simp add: SOLVER_MAX_ITER_def)
    ultimately show ?thesis
      using ends inside by (simp del: bisect.simps add: solve_decreasing_def Let_def)
  qed
qed

subsection \<open>The flows of a regular bond\<close>

text \<open>A fixed-coupon bond whose grid meets its issue date.\<close>

definition regular_bond :: "bond_terms \<Rightarrow> bool" where
  "regular_bond t \<longleftrightarrow> sound_terms t \<and> on_grid t \<and> bt_rate t \<noteq> 0"

lemma regular_bondD:
  assumes "regular_bond t"
  shows "sound_terms t" "on_grid t" "bt_rate t \<noteq> 0" "0 < bt_rate t" "0 < bt_face t" "0 < coupon_amount t"
    "valid_date (bt_maturity t)"
proof -
  show t: "sound_terms t" "on_grid t" "bt_rate t \<noteq> 0" using assms by (simp_all add: regular_bond_def)
  show r: "0 < bt_rate t" "0 < bt_face t" "valid_date (bt_maturity t)" using sound_termsD [OF t(1)] t(3) by simp_all
  show "0 < coupon_amount t" using r by (cases "bt_freq t") (simp_all add: coupon_amount_def freq_value_def)
qed

definition coupon_flow :: "bond_terms \<Rightarrow> date \<Rightarrow> cash_flow" where
  "coupon_flow t d = \<lparr> cf_date = d, cf_amount = coupon_amount t, cf_kind = Coupon \<rparr>"

definition redemption_flow :: "bond_terms \<Rightarrow> cash_flow" where
  "redemption_flow t = \<lparr> cf_date = bt_maturity t, cf_amount = bt_face t, cf_kind = Redemption \<rparr>"

text \<open>The grid dates from step \<open>j\<close> to maturity, earliest first.\<close>

definition grid_dates :: "bond_terms \<Rightarrow> nat \<Rightarrow> date list" where
  "grid_dates t j = rev (map (grid t) [0..<j])"

lemma grid_dates_less: "valid_date (bt_maturity t) \<Longrightarrow> sorted_wrt (<) (grid_dates t j)"
  unfolding grid_dates_def sorted_wrt_rev sorted_wrt_map
  by (rule sorted_wrt_mono_rel [OF _ sorted_wrt_upt]) (use grid_less in blast)

lemma grid_le_maturity: "valid_date (bt_maturity t) \<Longrightarrow> grid t i \<le> bt_maturity t"
  using grid_less [of t 0 i] grid_0 [of t] by (cases i) auto

lemma generate_schedule_regular:
  assumes "regular_bond t"
  shows "generate_schedule t = Inr \<lparr> sc_terms = t, sc_dates = grid_dates t (periods t),
    sc_flows = map (coupon_flow t) (grid_dates t (periods t)) @ [redemption_flow t] \<rparr>"
proof -
  note t = regular_bondD [OF assms]
  have dates: "coupon_dates t = Inr (grid_dates t (periods t))"
    using t(2,3) coupon_loop_grid [OF t(1), of 0] by (simp add: coupon_dates_def is_zero_coupon_def on_grid_def grid_dates_def)
  have coupons: "sorted (map flow_key (map (coupon_flow t) (grid_dates t (periods t))))"
    unfolding map_map comp_def sorted_map
    by (rule sorted_wrt_mono_rel [OF _ grid_dates_less [OF t(7)]]) (auto simp: flow_key_def coupon_flow_def less_eq_prod_def)
  have "sorted (map flow_key (map (coupon_flow t) (grid_dates t (periods t)) @ [redemption_flow t]))"
    using coupons grid_le_maturity [OF t(7)]
    by (auto simp: sorted_append flow_key_def coupon_flow_def redemption_flow_def less_eq_prod_def grid_dates_def order.order_iff_strict)
  then have "sort_key flow_key (map (coupon_flow t) (grid_dates t (periods t)) @ [redemption_flow t])
      = map (coupon_flow t) (grid_dates t (periods t)) @ [redemption_flow t]" by (rule sort_key_id_if_sorted)
  moreover have "(\<lambda>d. \<lparr> cf_date = d, cf_amount = coupon_amount t, cf_kind = Coupon \<rparr>) = coupon_flow t"
    "\<lparr> cf_date = bt_maturity t, cf_amount = bt_face t, cf_kind = Redemption \<rparr> = redemption_flow t"
    by (simp_all add: coupon_flow_def redemption_flow_def fun_eq_iff)
  ultimately show ?thesis
    using dates t(3) by (simp add: generate_schedule_def is_zero_coupon_def Let_def)
qed

lemma grid_dates_after:
  assumes "valid_date (bt_maturity t)" "j < n" "grid t (Suc j) \<le> s" "s < grid t j"
  shows "filter (\<lambda>d. d > s) (grid_dates t n) = grid_dates t (Suc j)"
proof -
  have mono: "grid t b \<le> grid t a" if "a \<le> b" for a b
    using grid_less [OF assms(1), of a b] that by (cases "a = b") auto
  have after: "s < grid t i \<longleftrightarrow> i < Suc j" for i
    using mono [of "Suc j" i] mono [of i j] assms(3,4) by (cases "i < Suc j") (auto simp: not_less)
  have "filter (\<lambda>d. d > s) (grid_dates t n) = rev (map (grid t) (filter (\<lambda>i. i < Suc j) [0..<n]))"
    by (simp add: grid_dates_def rev_filter [symmetric] filter_map comp_def after)
  also have "filter (\<lambda>i. i < Suc j) [0..<n] = [0..<Suc j]"
  proof -
    have "[0..<n] = [0..<Suc j] @ [Suc j..<n]" using assms(2) by (metis Suc_leI le0 upt_add_eq_append le_add_diff_inverse)
    then show ?thesis by (simp del: upt_Suc add: filter_empty_conv)
  qed
  finally show ?thesis by (simp add: grid_dates_def)
qed

lemma position_sorted:
  assumes "distinct xs" "k < length xs"
  shows "position xs (xs ! k) = k"
  using assms
proof (induction xs arbitrary: k)
  case (Cons x xs)
  then show ?case by (cases k) (auto simp: position_def)
qed simp

text \<open>The pairs of amounts and exponents: one coupon per future date, and the redemption on the last.\<close>

definition regular_pairs :: "bond_terms \<Rightarrow> nat \<Rightarrow> real \<Rightarrow> (real \<times> real) list" where
  "regular_pairs t j w = map (\<lambda>k. (coupon_amount t, w + real k)) [0..<Suc j] @ [(bt_face t, w + real j)]"

definition remaining :: "accrued \<Rightarrow> real" where
  "remaining a = 1 - real_of_int (ac_days_accrued a) / real_of_int (ac_days_in_period a)"

lemma future_pairs:
  assumes "regular_bond t" "generate_schedule t = Inr sch" "valid_date s" "bt_issue t \<le> s" "s < bt_maturity t"
  obtains j a where "j < periods t" "grid t (Suc j) \<le> s" "s < grid t j" "accrued_interest t s = Inr a"
    "ac_previous a = grid t (Suc j)" "0 \<le> remaining a" "remaining a \<le> 1" "0 \<le> ac_amount a"
    "future_flow_exponents sch s = Inr (regular_pairs t j (remaining a))"
proof -
  note t = regular_bondD [OF assms(1)]
  obtain a where a: "accrued_interest t s = Inr a" "ac_previous a \<le> s" "s < ac_next a" "0 \<le> ac_amount a"
      "0 \<le> ac_days_accrued a" "ac_days_accrued a \<le> ac_days_in_period a" "0 < ac_days_in_period a"
      "\<exists>j < periods t. ac_previous a = grid t (Suc j) \<and> ac_next a = grid t j"
    using accrued_in_period [OF t(1-3) assms(3-5)] by blast
  obtain j where j: "j < periods t" "grid t (Suc j) \<le> s" "s < grid t j" "ac_previous a = grid t (Suc j)"
    using a(2,3,8) by auto
  have "sch = \<lparr> sc_terms = t, sc_dates = grid_dates t (periods t),
      sc_flows = map (coupon_flow t) (grid_dates t (periods t)) @ [redemption_flow t] \<rparr>"
    using assms(2) unfolding generate_schedule_regular [OF assms(1)] by simp
  then have sch: "sc_terms sch = t" "sc_flows sch = map (coupon_flow t) (grid_dates t (periods t)) @ [redemption_flow t]"
    by simp_all
  have future: "future_flows sch s = map (coupon_flow t) (grid_dates t (Suc j)) @ [redemption_flow t]"
    using grid_dates_after [OF t(7) j(1-3)] assms(5)
    by (simp add: future_flows_def sch(2) filter_map comp_def coupon_flow_def redemption_flow_def)
  have dates: "sort (remdups (map cf_date (future_flows sch s))) = grid_dates t (Suc j)"
  proof (rule sorted_distinct_set_unique)
    have lt: "sorted_wrt (<) (grid_dates t (Suc j))" by (rule grid_dates_less [OF t(7)])
    show "sorted (grid_dates t (Suc j))" "distinct (grid_dates t (Suc j))"
      using lt strict_sorted_iff by auto
    have "grid t 0 \<in> set (grid_dates t (Suc j))" unfolding grid_dates_def set_rev set_map by (rule imageI) auto
    then have "bt_maturity t \<in> set (grid_dates t (Suc j))" by (simp only: grid_0 [OF t(7)])
    then show "set (sort (remdups (map cf_date (future_flows sch s)))) = set (grid_dates t (Suc j))"
      by (simp add: future coupon_flow_def redemption_flow_def image_image insert_absorb)
  qed simp_all
  have dist: "distinct (grid_dates t (Suc j))" using grid_dates_less [OF t(7)] strict_sorted_iff by blast
  have len: "length (grid_dates t (Suc j)) = Suc j" by (simp add: grid_dates_def)
  have gd: "grid_dates t (Suc j) = map (\<lambda>k. grid_dates t (Suc j) ! k) [0..<Suc j]" using map_nth [of "grid_dates t (Suc j)"] len by simp
  have last: "bt_maturity t = grid_dates t (Suc j) ! j"
    using grid_0 [OF t(7)] by (simp add: grid_dates_def rev_nth del: upt_Suc)
  have pos: "position (grid_dates t (Suc j)) (grid_dates t (Suc j) ! k) = k" if "k < Suc j" for k
    by (rule position_sorted [OF dist]) (use that len in simp)
  have coupons: "map (\<lambda>d. (coupon_amount t, remaining a + real (position (grid_dates t (Suc j)) d))) (grid_dates t (Suc j))
      = map (\<lambda>k. (coupon_amount t, remaining a + real k)) [0..<Suc j]"
    by (subst (2) gd) (simp only: map_map comp_def, rule map_cong [OF refl], metis pos atLeastLessThan_iff set_upt)
  have "map (\<lambda>cf. (cf_amount cf, remaining a + real (position (grid_dates t (Suc j)) (cf_date cf)))) (future_flows sch s)
      = regular_pairs t j (remaining a)"
    unfolding future regular_pairs_def
    using coupons pos [of j] by (simp del: upt_Suc add: comp_def coupon_flow_def redemption_flow_def last [symmetric])
  moreover have settle: "validate_settlement t s = Inr ()" using assms(4,5) by (auto simp: validate_settlement_def)
  ultimately have "future_flow_exponents sch s = Inr (regular_pairs t j (remaining a))"
    using settle a(1,7) t(3) future dates
    by (simp add: future_flow_exponents_def sch(1) Let_def is_zero_coupon_def remaining_def)
  moreover have "0 \<le> remaining a" "remaining a \<le> 1" using a(5-7) by (simp_all add: remaining_def)
  ultimately show ?thesis using that j a(1,4) by blast
qed

subsection \<open>The price falls as the yield rises\<close>

definition pv_value :: "(real \<times> real) list \<Rightarrow> real \<Rightarrow> real" where
  "pv_value pairs i = sum_list (map (\<lambda>(amount, exponent). amount / (1 + i) powr exponent) pairs)"

lemma present_value_eq: "- 1 < i \<Longrightarrow> present_value pairs i = Inr (pv_value pairs i)"
  by (simp add: present_value_def pv_value_def)

lemma discount_mono:
  fixes i j amount exponent :: real
  assumes "- 1 < i" "i < j" "0 \<le> amount" "0 \<le> exponent"
  shows "amount / (1 + j) powr exponent \<le> amount / (1 + i) powr exponent"
    and "0 < amount \<Longrightarrow> 0 < exponent \<Longrightarrow> amount / (1 + j) powr exponent < amount / (1 + i) powr exponent"
proof -
  have "1 + i \<noteq> 0" "1 + j \<noteq> 0" using assms(1,2) by linarith+
  then have p: "0 < (1 + i) powr exponent" "0 < (1 + j) powr exponent" by simp_all
  show "amount / (1 + j) powr exponent \<le> amount / (1 + i) powr exponent"
    by (rule divide_left_mono) (use assms p in \<open>auto intro!: powr_mono2 mult_pos_pos\<close>)
  show "amount / (1 + j) powr exponent < amount / (1 + i) powr exponent" if "0 < amount" "0 < exponent"
    by (rule divide_strict_left_mono) (use assms p that in \<open>auto intro!: powr_less_mono2 mult_pos_pos\<close>)
qed

lemma pv_value_mono:
  assumes "- 1 < i" "i < j" "\<forall>p \<in> set pairs. 0 \<le> fst p \<and> 0 \<le> snd p"
  shows "pv_value pairs j \<le> pv_value pairs i"
  using assms(3) unfolding pv_value_def
  by (induction pairs) (auto intro!: add_mono discount_mono(1) [OF assms(1,2)])

lemma pv_value_strict:
  assumes "- 1 < i" "i < j" "\<forall>p \<in> set pairs. 0 \<le> fst p \<and> 0 \<le> snd p" "\<exists>p \<in> set pairs. 0 < fst p \<and> 0 < snd p"
  shows "pv_value pairs j < pv_value pairs i"
proof -
  obtain p where p: "p \<in> set pairs" "0 < fst p" "0 < snd p" using assms(4) by blast
  obtain xs ys where s: "pairs = xs @ p # ys" using split_list [OF p(1)] by blast
  have "pv_value xs j \<le> pv_value xs i" "pv_value ys j \<le> pv_value ys i"
    by (rule pv_value_mono [OF assms(1,2)]; use assms(3) s in auto)+
  moreover have "fst p / (1 + j) powr snd p < fst p / (1 + i) powr snd p"
    by (rule discount_mono(2) [OF assms(1,2)]) (use p in auto)
  ultimately show ?thesis by (simp add: s pv_value_def case_prod_beta)
qed

lemma pv_value_cont: "m \<noteq> 0 \<Longrightarrow> - 1 < y / m \<Longrightarrow> isCont (\<lambda>y. pv_value pairs (y / m)) y"
  unfolding pv_value_def
proof (induction pairs)
  case (Cons p pairs)
  have "isCont (\<lambda>y. fst p / (1 + y / m) powr snd p) y"
    by (intro continuous_intros) (use Cons.prems in auto)
  then show ?case using Cons by (simp add: case_prod_beta)
qed simp

definition yield_floor :: "bond_terms \<Rightarrow> real" where
  "yield_floor t = PERIODIC_RATE_FLOOR * real_of_int (freq_value (bt_freq t))"

definition yield_ceiling :: "bond_terms \<Rightarrow> real" where
  "yield_ceiling t = MAX_PERIODIC_RATE * real_of_int (freq_value (bt_freq t))"

lemma bracket:
  "yield_floor t < yield_ceiling t" "yield_ceiling t - yield_floor t \<le> 50"
  "yield_floor t \<le> y \<Longrightarrow> - 1 < y / real_of_int (freq_value (bt_freq t))"
  by (cases "bt_freq t"; simp add: yield_floor_def yield_ceiling_def PERIODIC_RATE_FLOOR_def MAX_PERIODIC_RATE_def freq_value_def)+

lemma pv_decreasing_on:
  assumes "\<forall>p \<in> set pairs. 0 \<le> fst p \<and> 0 \<le> snd p" "\<exists>p \<in> set pairs. 0 < fst p \<and> 0 < snd p"
    and "m = real_of_int (freq_value (bt_freq t))"
  shows "decreasing_on (\<lambda>y. present_value pairs (y / m)) (\<lambda>y. pv_value pairs (y / m)) (yield_floor t) (yield_ceiling t)"
proof -
  have m: "0 < m" unfolding assms(3) by (cases "bt_freq t") (simp_all add: freq_value_def)
  have low: "- 1 < y / m" if "yield_floor t \<le> y" for y using bracket(3) [OF that] by (simp only: assms(3))
  have "pv_value pairs (z / m) < pv_value pairs (y / m)" if "yield_floor t \<le> y" "y < z" for y z
    by (rule pv_value_strict [OF low [OF that(1)] _ assms(1,2)]) (use that(2) m in \<open>simp add: divide_strict_right_mono\<close>)
  then show ?thesis unfolding decreasing_on_def using low present_value_eq pv_value_cont [OF less_imp_neq [OF m, symmetric]] by blast
qed

text \<open>Some future flow is discounted: not the last day of a period that counts as its end.\<close>

lemma regular_pairs_signs:
  assumes "regular_bond t" "0 \<le> w"
  shows "\<forall>p \<in> set (regular_pairs t j w). 0 \<le> fst p \<and> 0 \<le> snd p"
    and "0 < w \<or> 0 < j \<Longrightarrow> \<exists>p \<in> set (regular_pairs t j w). 0 < fst p \<and> 0 < snd p"
proof -
  show "\<forall>p \<in> set (regular_pairs t j w). 0 \<le> fst p \<and> 0 \<le> snd p"
    using regular_bondD(5,6) [OF assms(1)] assms(2) by (auto simp: regular_pairs_def)
  show "\<exists>p \<in> set (regular_pairs t j w). 0 < fst p \<and> 0 < snd p" if "0 < w \<or> 0 < j"
    using regular_bondD(5) [OF assms(1)] assms(2) that
    by (intro bexI [of _ "(bt_face t, w + real j)"]) (auto simp: regular_pairs_def)
qed

text \<open>What the yield of a settled regular bond rests on.\<close>

definition some_discounting :: "bond_terms \<Rightarrow> date \<Rightarrow> bool" where
  "some_discounting t s \<longleftrightarrow> (\<exists>a. accrued_interest t s = Inr a \<and>
     (ac_days_accrued a < ac_days_in_period a \<or> ac_next a < bt_maturity t))"

lemma regular_settlement:
  assumes "regular_bond t" "generate_schedule t = Inr sch" "valid_date s" "bt_issue t \<le> s" "s < bt_maturity t"
  obtains pairs c where "future_flow_exponents sch s = Inr pairs" "accrued_amount t s = Inr c" "0 \<le> c"
    "\<forall>p \<in> set pairs. 0 \<le> fst p \<and> 0 \<le> snd p" "\<exists>p \<in> set pairs. 0 < fst p"
    "some_discounting t s \<Longrightarrow> \<exists>p \<in> set pairs. 0 < fst p \<and> 0 < snd p"
    "sc_terms sch = t"
proof -
  note t = regular_bondD [OF assms(1)]
  obtain j a where j: "j < periods t" "grid t (Suc j) \<le> s" "s < grid t j" "accrued_interest t s = Inr a"
    "ac_previous a = grid t (Suc j)" "0 \<le> remaining a" "remaining a \<le> 1" "0 \<le> ac_amount a"
    "future_flow_exponents sch s = Inr (regular_pairs t j (remaining a))"
    by (rule future_pairs [OF assms])
  have c: "accrued_amount t s = Inr (ac_amount a)" using t(3) j(4) by (simp add: accrued_amount_def is_zero_coupon_def)
  have terms: "sc_terms sch = t" using assms(2) unfolding generate_schedule_regular [OF assms(1)] by auto
  have pos: "\<exists>p \<in> set (regular_pairs t j (remaining a)). 0 < fst p" using t(5) by (auto simp: regular_pairs_def)
  have disc: "0 < remaining a \<or> 0 < j" if "some_discounting t s"
  proof -
    obtain b i where b: "accrued_interest t s = Inr b" "ac_next b = grid t i" "ac_previous b = grid t (Suc i)" "0 < ac_days_in_period b"
      using accrued_in_period [OF t(1-3) assms(3-5)] by blast
    have ab: "a = b" using b(1) j(4) by simp
    have "i = j"
    proof (rule ccontr)
      assume "i \<noteq> j"
      then have "grid t (Suc i) \<noteq> grid t (Suc j)" using grid_less [OF t(7), of "Suc i" "Suc j"] grid_less [OF t(7), of "Suc j" "Suc i"]
        by (cases "i < j") auto
      then show False using b(3) j(5) ab by simp
    qed
    then have "ac_days_accrued a < ac_days_in_period a \<or> 0 < j"
    proof (cases "j = 0")
      case True
      then have "ac_next b = bt_maturity t" using b(2) \<open>i = j\<close> grid_0 [OF t(7)] by simp
      then show ?thesis using that b(1) ab by (simp add: some_discounting_def)
    qed simp
    then show ?thesis using b(4) ab by (auto simp: remaining_def)
  qed
  show ?thesis
    by (rule that [OF j(9) c j(8) regular_pairs_signs(1) [OF assms(1) j(6)] pos regular_pairs_signs(2) [OF assms(1) j(6) disc] terms])
qed

lemma ytm_decides:
  assumes "regular_bond t" "generate_schedule t = Inr sch" "valid_date s" "bt_issue t \<le> s" "s < bt_maturity t"
    and "some_discounting t s" "0 < price" "price_target sch s price clean = Inr target"
  shows "\<exists>f. (\<forall>y. yield_floor t \<le> y \<longrightarrow> dirty_price sch s y = Inr (f y)) \<and>
    (\<forall>y z. yield_floor t \<le> y \<and> y < z \<and> z \<le> yield_ceiling t \<longrightarrow> f z < f y) \<and>
    (if f (yield_floor t) < target \<or> target < f (yield_ceiling t)
     then yield_to_maturity sch s price clean = Inl (Bond_error ''ytm_out_of_bounds'')
     else \<exists>y r. yield_to_maturity sch s price clean = Inr y \<and> yield_floor t \<le> y \<and> y \<le> yield_ceiling t \<and>
       yield_floor t \<le> r \<and> r \<le> yield_ceiling t \<and> f r = target \<and> \<bar>y - r\<bar> < SOLVER_XTOL)"
proof -
  let ?m = "real_of_int (freq_value (bt_freq t))"
  obtain pairs c where p: "future_flow_exponents sch s = Inr pairs"
    "\<forall>p \<in> set pairs. 0 \<le> fst p \<and> 0 \<le> snd p" "\<exists>p \<in> set pairs. 0 < fst p \<and> 0 < snd p" "sc_terms sch = t"
    using regular_settlement [OF assms(1-5)] assms(6) by metis
  have m: "frequency_of sch = ?m" by (simp add: frequency_of_def p(4))
  have dec: "decreasing_on (\<lambda>y. present_value pairs (y / ?m)) (\<lambda>y. pv_value pairs (y / ?m)) (yield_floor t) (yield_ceiling t)"
    by (rule pv_decreasing_on [OF p(2,3) refl])
  have dirty: "dirty_price sch s y = Inr (pv_value pairs (y / ?m))" if "yield_floor t \<le> y" for y
    using present_value_eq [OF bracket(3) [OF that]] p(1) by (simp add: dirty_price_def m)
  have ytm: "yield_to_maturity sch s price clean
      = solve_decreasing (\<lambda>y. present_value pairs (y / ?m)) target (yield_floor t) (yield_ceiling t) ''ytm''"
    using assms(7,8) p(1) by (simp add: yield_to_maturity_def m yield_floor_def yield_ceiling_def Let_def)
  have code: "''ytm'' @ ''_out_of_bounds'' = ''ytm_out_of_bounds''" by simp
  show ?thesis
    using dirty decreasing_onD(3) [OF dec] solve_decreasing_root [OF dec bracket(1,2), of target "''ytm''", unfolded code]
    unfolding ytm by (intro exI [of _ "\<lambda>y. pv_value pairs (y / ?m)"] conjI) (blast, blast, assumption)
qed



subsection \<open>Par\<close>

lemma annuity:
  fixes i F :: real
  assumes "0 < i"
  shows "(\<Sum>k = 0..j. i * F / (1 + i) ^ Suc k) + F / (1 + i) ^ Suc j = F"
proof (induction j)
  case (Suc j)
  have "i * F / (1 + i) ^ Suc (Suc j) + F / (1 + i) ^ Suc (Suc j) = (1 + i) * F / ((1 + i) * (1 + i) ^ Suc j)"
    by (simp add: add_divide_distrib [symmetric] algebra_simps)
  also have "\<dots> = F / (1 + i) ^ Suc j" using assms by (simp del: power_Suc)
  finally show ?case using Suc by (simp del: power_Suc)
qed (use assms in \<open>simp add: add_divide_distrib [symmetric] field_simps\<close>)

text \<open>
  Par at par. On an issue or coupon date before maturity the dirty price of a fixed-coupon
  bond at the yield equal to its coupon rate is its face value, whatever the day count, the
  frequency and the number of coupons left.
\<close>

theorem par_price_is_face:
  assumes "regular_bond t" "generate_schedule t = Inr sch" "j < periods t"
  shows "dirty_price sch (grid t (Suc j)) (bt_rate t) = Inr (bt_face t)"
proof -
  note t = regular_bondD [OF assms(1)]
  let ?s = "grid t (Suc j)" and ?m = "real_of_int (freq_value (bt_freq t))"
  have s: "valid_date ?s" "?s < bt_maturity t" using grid_valid [OF t(7)] grid_less [OF t(7), of 0 "Suc j"] grid_0 [OF t(7)] by simp_all
  have "bt_issue t \<le> ?s"
  proof (cases "Suc j = periods t")
    case True
    then show ?thesis using t(2) by (simp add: on_grid_def)
  next
    case False
    then show ?thesis using periods_props(2) [OF t(1), of "Suc j"] assms(3) by (simp add: less_imp_le)
  qed
  then obtain k a where k: "k < periods t" "grid t (Suc k) \<le> ?s" "?s < grid t k" "accrued_interest t ?s = Inr a"
    "ac_previous a = grid t (Suc k)" "future_flow_exponents sch ?s = Inr (regular_pairs t k (remaining a))"
    using future_pairs [OF assms(1,2) s(1) _ s(2)] by metis
  have "k = j"
    using k(2,3) grid_less [OF t(7), of "Suc j" k] grid_less [OF t(7), of "Suc k" "Suc j"]
    by (cases k "Suc j" rule: linorder_cases; cases k j rule: linorder_cases) auto
  then have "remaining a = 1"
    using accrued_in_period [OF t(1-3) s(1) \<open>bt_issue t \<le> ?s\<close> s(2)] k(4,5) by (auto simp: remaining_def)
  then have pairs: "future_flow_exponents sch ?s = Inr (regular_pairs t j 1)" using k(6) \<open>k = j\<close> by simp
  have m: "0 < ?m" "frequency_of sch = ?m"
    using assms(2) unfolding generate_schedule_regular [OF assms(1)] by (cases "bt_freq t"; auto simp: frequency_of_def freq_value_def)+
  define i where "i = bt_rate t / ?m"
  have i: "0 < i" "coupon_amount t = i * bt_face t" using t(4) m(1) by (simp_all add: i_def coupon_amount_def)
  have pow: "(1 + i) powr (1 + real n) = (1 + i) ^ Suc n" for n
    using powr_realpow [of "1 + i" "Suc n"] i(1) by (simp add: add.commute)
  have "pv_value (regular_pairs t j 1) i = (\<Sum>n = 0..j. i * bt_face t / (1 + i) ^ Suc n) + bt_face t / (1 + i) ^ Suc j"
  proof -
    have "pv_value (regular_pairs t j 1) i
        = sum_list (map (\<lambda>n. i * bt_face t / (1 + i) ^ Suc n) [0..<Suc j]) + bt_face t / (1 + i) ^ Suc j"
      unfolding pv_value_def regular_pairs_def by (simp del: upt_Suc power_Suc add: pow i(2) comp_def)
    also have "sum_list (map (\<lambda>n. i * bt_face t / (1 + i) ^ Suc n) [0..<Suc j]) = (\<Sum>n = 0..j. i * bt_face t / (1 + i) ^ Suc n)"
      by (simp del: upt_Suc power_Suc add: interv_sum_list_conv_sum_set_nat atLeastLessThanSuc_atLeastAtMost)
    finally show ?thesis .
  qed
  then show ?thesis
    using present_value_eq [of i "regular_pairs t j 1"] annuity [OF i(1)] i(1) pairs m(2) by (simp add: dirty_price_def i_def)
qed

subsection \<open>A settlement that counts as maturity\<close>

text \<open>
  C30: under 30/360 the last day of a coupon period can count as its end. When that happens in the
  last period no flow is discounted any more: every yield gives the price of coupon plus face, and
  the solver answers that price with the lowest rate of its bracket, -99.9% per period, and any
  other price as out of bounds.
\<close>

theorem ytm_of_undiscounted_day:
  assumes "regular_bond t" "generate_schedule t = Inr sch" "valid_date s" "bt_issue t \<le> s" "s < bt_maturity t"
    and "\<not> some_discounting t s" "0 < price" "price_target sch s price clean = Inr target"
  shows "yield_to_maturity sch s price clean
    = (if target = coupon_amount t + bt_face t then Inr (yield_floor t) else Inl (Bond_error ''ytm_out_of_bounds''))"
proof -
  note t = regular_bondD [OF assms(1)]
  let ?m = "real_of_int (freq_value (bt_freq t))"
  obtain j a where j: "j < periods t" "s < grid t j" "accrued_interest t s = Inr a" "ac_previous a = grid t (Suc j)"
    "future_flow_exponents sch s = Inr (regular_pairs t j (remaining a))"
    using future_pairs [OF assms(1-5)] by metis
  obtain b i where b: "accrued_interest t s = Inr b" "ac_next b = grid t i" "0 < ac_days_in_period b"
      "ac_days_accrued b \<le> ac_days_in_period b" "ac_previous b = grid t (Suc i)"
    using accrued_in_period [OF t(1-3) assms(3-5)] by blast
  have ab: "a = b" using b(1) j(3) by simp
  have inj: "grid t x \<noteq> grid t y" if "x < y" for x y using grid_less [OF t(7) that] by auto
  have "i = j" using inj [of "Suc i" "Suc j"] inj [of "Suc j" "Suc i"] b(5) j(4) ab by (cases i j rule: linorder_cases) auto
  have "ac_days_accrued b = ac_days_in_period b" "\<not> ac_next b < bt_maturity t"
    using assms(6) b(1,4) by (auto simp: some_discounting_def not_less)
  then have "remaining a = 0" "j = 0"
    using b(2,3) ab \<open>i = j\<close> grid_less [OF t(7), of 0 j] grid_0 [OF t(7)] by (auto simp: remaining_def)
  then have pairs: "future_flow_exponents sch s = Inr (regular_pairs t 0 0)" using j(5) by simp
  have flat: "present_value (regular_pairs t 0 0) (y / ?m) = Inr (coupon_amount t + bt_face t)" if "yield_floor t \<le> y" for y
    using present_value_eq [OF bracket(3) [OF that]] bracket(3) [OF that] by (simp add: pv_value_def regular_pairs_def)
  have m: "frequency_of sch = ?m"
    using assms(2) unfolding generate_schedule_regular [OF assms(1)] by (auto simp: frequency_of_def)
  have ends: "present_value (regular_pairs t 0 0) (yield_floor t / ?m) = Inr (coupon_amount t + bt_face t)"
    "present_value (regular_pairs t 0 0) (yield_ceiling t / ?m) = Inr (coupon_amount t + bt_face t)"
    using flat [of "yield_floor t"] flat [of "yield_ceiling t"] bracket(1) [of t] by simp_all
  have "yield_to_maturity sch s price clean
      = solve_decreasing (\<lambda>y. present_value (regular_pairs t 0 0) (y / ?m)) target (yield_floor t) (yield_ceiling t) ''ytm''"
    using assms(7,8) pairs by (simp add: yield_to_maturity_def m yield_floor_def yield_ceiling_def Let_def)
  also have "\<dots> = (if target = coupon_amount t + bt_face t then Inr (yield_floor t) else Inl (Bond_error ''ytm_out_of_bounds''))"
    using ends by (simp add: solve_decreasing_def Let_def)
  finally show ?thesis .
qed

subsection \<open>Yield to worst\<close>

lemma first_least_mem: "first_least key x xs \<in> set (x # xs)"
proof (induction xs arbitrary: x)
  case (Cons y ys)
  then show ?case using Cons [of x] Cons [of y] by (auto split: if_splits)
qed simp

lemma first_least_le: "z \<in> set (x # xs) \<Longrightarrow> key (first_least key x xs) \<le> key z"
proof (induction xs arbitrary: x z)
  case (Cons y ys)
  let ?w = "if key y < key x then y else x"
  have "key (first_least key ?w ys) \<le> key ?w" by (rule Cons.IH) simp
  then show ?case using Cons.IH [of z ?w] Cons.prems by (auto split: if_splits)
qed simp

lemma call_scenarios_mem:
  assumes "call_scenarios t s price clean cs = Inr calls" "(kind, d, y) \<in> set calls"
  shows "kind = To_call \<and> s < d \<and> (\<exists>c \<in> set cs. ca_date c = d \<and>
    bindE (call_scenario t c) (\<lambda>scenario. yield_to_maturity scenario s price clean) = Inr y)"
  using assms
proof (induction cs arbitrary: calls)
  case (Cons c cs)
  show ?case
  proof (cases "call_scenarios t s price clean cs = Inr calls")
    case True
    then show ?thesis using Cons.IH [OF True Cons.prems(2)] by auto
  next
    case False
    then obtain scenario ytc rest where r: "\<not> ca_date c \<le> s" "call_scenario t c = Inr scenario"
        "yield_to_maturity scenario s price clean = Inr ytc" "call_scenarios t s price clean cs = Inr rest"
        "calls = (To_call, ca_date c, ytc) # rest"
      using Cons.prems(1) by (auto simp: bindE_Inr_iff split: if_splits)
    show ?thesis
    proof (cases "(kind, d, y) \<in> set rest")
      case True
      then show ?thesis using Cons.IH [OF r(4)] by auto
    next
      case False
      then show ?thesis using r Cons.prems(2) by auto
    qed
  qed
qed simp

text \<open>
  Yield to worst is the least qualified yield. It is at most the yield to maturity and at most
  every reported yield to call, it is one of them, and every reported call lies after settlement
  and carries the yield to its own call.
\<close>

theorem yield_to_worst_is_least:
  assumes "yield_to_worst sch s price clean = Inr w"
  shows "yield_to_maturity sch s price clean = Inr (yw_maturity w) \<and> yw_ytw w \<le> yw_maturity w \<and>
    (\<forall>(d, y) \<in> set (yw_calls w). yw_ytw w \<le> y \<and> s < d \<and>
       (\<exists>c \<in> set (bt_calls (sc_terms sch)). ca_date c = d \<and> yield_to_call sch s price c clean = Inr y)) \<and>
    (if yw_kind w = To_maturity then yw_ytw w = yw_maturity w \<and> yw_date w = bt_maturity (sc_terms sch)
     else (yw_date w, yw_ytw w) \<in> set (yw_calls w))"
proof -
  let ?t = "sc_terms sch"
  obtain ytm calls where r: "yield_to_maturity sch s price clean = Inr ytm"
      "call_scenarios ?t s price clean (bt_calls ?t) = Inr calls"
    using assms by (auto simp: yield_to_worst_def Let_def bindE_Inr_iff)
  let ?x = "(To_maturity, bt_maturity ?t, ytm)"
  obtain kind d y where best: "first_least (\<lambda>s. snd (snd s)) ?x calls = (kind, d, y)" by (metis prod_cases3)
  have w: "w = \<lparr> yw_ytw = y, yw_maturity = ytm, yw_kind = kind, yw_date = d, yw_calls = map snd calls \<rparr>"
    using assms r best by (simp add: yield_to_worst_def Let_def)
  have le: "y \<le> snd (snd z)" if "z \<in> set (?x # calls)" for z
    using first_least_le [OF that, of "\<lambda>s. snd (snd s)"] best by simp
  have mem: "(kind, d, y) \<in> set (?x # calls)" using first_least_mem [of "\<lambda>s. snd (snd s)" ?x calls] best by simp
  have each: "y \<le> y' \<and> s < d' \<and> (\<exists>c \<in> set (bt_calls ?t). ca_date c = d' \<and> yield_to_call sch s price c clean = Inr y')"
    if "(d', y') \<in> set (map snd calls)" for d' y'
  proof -
    have "\<exists>k. (k, d', y') \<in> set calls" using that by auto
    then obtain k where k: "(k, d', y') \<in> set calls" by blast
    show ?thesis using call_scenarios_mem [OF r(2) k] le [of "(k, d', y')"] k by (auto simp: yield_to_call_def)
  qed
  have own: "if kind = To_maturity then y = ytm \<and> d = bt_maturity ?t else (d, y) \<in> set (map snd calls)"
  proof (cases "(kind, d, y) \<in> set calls")
    case True
    then show ?thesis using call_scenarios_mem [OF r(2) True] by force
  qed (use mem in auto)
  have "y \<le> ytm" using le [of ?x] by simp
  moreover have "\<forall>(d', y') \<in> set (map snd calls). y \<le> y' \<and> s < d' \<and>
      (\<exists>c \<in> set (bt_calls ?t). ca_date c = d' \<and> yield_to_call sch s price c clean = Inr y')"
    using each by blast
  ultimately show ?thesis using r(1) own unfolding w yield_worst.simps by blast
qed

subsection \<open>The concrete bond priced\<close>

lemma july_regular: "regular_bond july_bond"
  by (simp add: regular_bond_def july_sound july_on_grid)

definition july_schedule :: schedule where
  "july_schedule = \<lparr> sc_terms = july_bond, sc_dates = [Date 2024 1 31, Date 2024 7 31],
     sc_flows = [coupon_flow july_bond (Date 2024 1 31), coupon_flow july_bond (Date 2024 7 31), redemption_flow july_bond] \<rparr>"

lemma july_generated: "generate_schedule july_bond = Inr july_schedule"
  using generate_schedule_regular [OF july_regular]
  by (simp add: july_schedule_def july_periods grid_dates_def july_grid upt_rec)

lemma july_terms: "sc_terms july_schedule = july_bond"
  by (simp add: july_schedule_def)

lemma july_coupon: "coupon_amount july_bond = 5 / 2"
  by (simp add: coupon_amount_def freq_value_def)

lemma july_facts:
  "valid_date (Date 2024 1 31)" "bt_issue july_bond \<le> Date 2024 1 31" "Date 2024 1 31 < bt_maturity july_bond"
  "valid_date (Date 2024 7 30)" "bt_issue july_bond \<le> Date 2024 7 30" "Date 2024 7 30 < bt_maturity july_bond"
  by (simp_all add: valid_date_def days_in_month_def less_eq_date_def less_date_def)

lemma july_accrued:
  "accrued_interest july_bond (Date 2024 1 31) = Inr (accrued_in july_bond (Date 2024 1 31) (Date 2024 7 31) (Date 2024 1 31))"
  "accrued_interest july_bond (Date 2024 7 30) = Inr (accrued_in july_bond (Date 2024 1 31) (Date 2024 7 31) (Date 2024 7 30))"
  by (simp_all add: accrued_interest_def is_zero_coupon_def july_dates coupon_period_def less_date_def less_eq_date_def
      year_fraction_def accrued_in_def day_count_days_def Let_def)

lemma july_days:
  "ac_days_accrued (accrued_in july_bond (Date 2024 1 31) (Date 2024 7 31) (Date 2024 1 31)) = 0"
  "ac_amount (accrued_in july_bond (Date 2024 1 31) (Date 2024 7 31) (Date 2024 1 31)) = 0"
  "ac_days_in_period (accrued_in july_bond (Date 2024 1 31) (Date 2024 7 31) s) = 180"
  "ac_days_accrued (accrued_in july_bond (Date 2024 1 31) (Date 2024 7 31) (Date 2024 7 30)) = 180"
  "ac_amount (accrued_in july_bond (Date 2024 1 31) (Date 2024 7 31) (Date 2024 7 30)) = 5 / 2"
  "ac_next (accrued_in july_bond (Date 2024 1 31) (Date 2024 7 31) s) = Date 2024 7 31"
  by (simp_all add: accrued_in_def Let_def day_count_days_def thirty_360_us_days_def last_of_february_def)

lemma july_exponents: "future_flow_exponents july_schedule (Date 2024 1 31) = Inr [(5 / 2, 1), (100, 1)]"
  by (simp add: future_flow_exponents_def july_schedule_def validate_settlement_def future_flows_def coupon_flow_def
      redemption_flow_def less_date_def less_eq_date_def is_zero_coupon_def july_accrued july_days Let_def july_coupon position_def)

lemma july_frequency: "frequency_of july_schedule = 2"
  by (simp add: frequency_of_def july_schedule_def freq_value_def)

lemma july_dirty:
  assumes "- 2 < y"
  shows "dirty_price july_schedule (Date 2024 1 31) y = Inr (205 / 2 / (1 + y / 2))"
proof -
  have "present_value [(5 / 2, 1), (100, 1)] i = Inr (205 / 2 / (1 + i))" if "- 1 < i" for i
  proof -
    define h where "h = 1 + i"
    then have "0 < h" using that by simp
    then show ?thesis using that unfolding present_value_def h_def [symmetric] by (simp add: field_simps)
  qed
  from this [of "y / 2"] assms show ?thesis by (simp add: dirty_price_def july_exponents july_frequency)
qed

lemma july_bracket: "yield_floor july_bond = - 1998 / 1000" "yield_ceiling july_bond = 20"
  by (simp_all add: yield_floor_def yield_ceiling_def PERIODIC_RATE_FLOOR_def MAX_PERIODIC_RATE_def freq_value_def)

lemma july_discounting: "some_discounting july_bond (Date 2024 1 31)" "\<not> some_discounting july_bond (Date 2024 7 30)"
  by (simp_all add: some_discounting_def july_accrued july_days)



theorem par_price_is_face_witness: "dirty_price july_schedule (Date 2024 1 31) (5 / 100) = Inr 100"
  using par_price_is_face [OF july_regular july_generated, of 0] by (simp add: july_periods july_grid)

theorem ytm_of_undiscounted_day_witness:
  "yield_to_maturity july_schedule (Date 2024 7 30) 100 True = Inr (- 1998 / 1000)"
proof -
  have "price_target july_schedule (Date 2024 7 30) 100 True = Inr (205 / 2)"
    by (simp add: price_target_def accrued_amount_def july_schedule_def is_zero_coupon_def july_accrued july_days)
  from ytm_of_undiscounted_day [OF july_regular july_generated july_facts(4-6) july_discounting(2) _ this]
  show ?thesis by (simp add: july_coupon july_bracket)
qed

text \<open>At issue, with the call a half-year ahead.\<close>

lemma july_start:
  "valid_date (Date 2023 7 31)" "bt_issue july_bond \<le> Date 2023 7 31" "Date 2023 7 31 < bt_maturity july_bond"
  by (simp_all add: valid_date_def days_in_month_def less_eq_date_def less_date_def)

lemma july_start_accrued:
  "accrued_interest july_bond (Date 2023 7 31) = Inr (accrued_in july_bond (Date 2023 7 31) (Date 2024 1 31) (Date 2023 7 31))"
  "ac_days_accrued (accrued_in july_bond (Date 2023 7 31) (Date 2024 1 31) (Date 2023 7 31)) = 0"
  "ac_days_in_period (accrued_in july_bond (Date 2023 7 31) (Date 2024 1 31) (Date 2023 7 31)) = 180"
  by (simp_all add: accrued_interest_def is_zero_coupon_def july_dates coupon_period_def less_date_def less_eq_date_def
      year_fraction_def accrued_in_def day_count_days_def Let_def thirty_360_us_days_def last_of_february_def)

definition july_call_schedule :: schedule where
  "july_call_schedule = \<lparr> sc_terms = july_bond, sc_dates = [Date 2024 1 31],
     sc_flows = [coupon_flow july_bond (Date 2024 1 31), \<lparr> cf_date = Date 2024 1 31, cf_amount = 101, cf_kind = Redemption \<rparr>] \<rparr>"

lemma july_call_scenario: "call_scenario july_bond \<lparr> ca_date = Date 2024 1 31, ca_price = 101 \<rparr> = Inr july_call_schedule"
  by (simp add: call_scenario_def july_generated july_schedule_def july_call_schedule_def coupon_flow_def redemption_flow_def
      less_eq_date_def flow_key_def less_eq_prod_def)

lemma july_start_exponents:
  "future_flow_exponents july_schedule (Date 2023 7 31) = Inr [(5 / 2, 1), (5 / 2, 2), (100, 2)]"
  "future_flow_exponents july_call_schedule (Date 2023 7 31) = Inr [(5 / 2, 1), (101, 1)]"
  by (simp_all add: future_flow_exponents_def july_schedule_def july_call_schedule_def validate_settlement_def future_flows_def
      coupon_flow_def redemption_flow_def less_date_def less_eq_date_def is_zero_coupon_def july_start_accrued Let_def july_coupon
      position_def)

lemma july_solves:
  assumes "future_flow_exponents sch s = Inr pairs" "frequency_of sch = 2"
    "\<forall>p \<in> set pairs. 0 \<le> fst p \<and> 0 \<le> snd p" "\<exists>p \<in> set pairs. 0 < fst p \<and> 0 < snd p"
    "100 \<le> pv_value pairs (- 999 / 1000)" "pv_value pairs 10 \<le> 100"
  shows "is_Inr (yield_to_maturity sch s 100 False)"
proof -
  have "decreasing_on (\<lambda>y. present_value pairs (y / 2)) (\<lambda>y. pv_value pairs (y / 2)) (- 1998 / 1000) 20"
    using pv_decreasing_on [OF assms(3,4), of 2 july_bond] by (simp add: july_bracket freq_value_def)
  from solve_decreasing_root [OF this, of 100 "''ytm''"] show ?thesis
    using assms(1,2,5,6)
    by (auto simp: yield_to_maturity_def price_target_def Let_def PERIODIC_RATE_FLOOR_def MAX_PERIODIC_RATE_def not_less)
qed

theorem yield_to_worst_is_least_witness:
  "\<exists>w. yield_to_worst july_schedule (Date 2023 7 31) 100 False = Inr w \<and> length (yw_calls w) = 1 \<and> yw_ytw w \<le> yw_maturity w"
proof -
  have f: "frequency_of july_call_schedule = 2" by (simp add: frequency_of_def july_call_schedule_def freq_value_def)
  obtain a where a: "yield_to_maturity july_schedule (Date 2023 7 31) 100 False = Inr a"
    using july_solves [OF july_start_exponents(1) july_frequency] by (auto simp: pv_value_def)
  obtain b where b: "yield_to_maturity july_call_schedule (Date 2023 7 31) 100 False = Inr b"
    using july_solves [OF july_start_exponents(2) f] by (auto simp: pv_value_def)
  have "call_scenarios july_bond (Date 2023 7 31) 100 False (bt_calls july_bond) = Inr [(To_call, Date 2024 1 31, b)]"
    by (simp add: july_call_scenario b less_eq_date_def) (simp add: july_call_schedule_def coupon_flow_def less_eq_date_def)
  then have "\<exists>w. yield_to_worst july_schedule (Date 2023 7 31) 100 False = Inr w \<and> length (yw_calls w) = 1"
    using a by (cases "b < a") (simp_all add: yield_to_worst_def july_terms del: call_scenarios.simps july_fields)
  then obtain w where w: "yield_to_worst july_schedule (Date 2023 7 31) 100 False = Inr w" "length (yw_calls w) = 1" by blast
  then show ?thesis using yield_to_worst_is_least [OF w(1)] by blast
qed
end
