(* ===== verification/Bond_OAS.thy ===== *)
theory Bond_OAS
  imports Bond_Pricing
begin

text \<open>
  The option-adjusted-spread motor (\<open>src/bonds/oas.py\<close>): the Ho-Lee lattice calibrated by forward
  induction, backward induction with optimal call exercise, the spread solved by the bisection of
  the pricing motor, and the adapter that places the flows of a bond on the nodes. Maps from nodes
  to amounts are dictionaries with integer keys.
\<close>

definition RISK_NEUTRAL_PROB :: real where "RISK_NEUTRAL_PROB = 1 / 2"

definition OAS_SPREAD_FLOOR :: real where "OAS_SPREAD_FLOOR = - (1 / 2)"

definition OAS_SPREAD_CEILING :: real where "OAS_SPREAD_CEILING = 2"

definition NODE_ALIGN_TOL :: real where "NODE_ALIGN_TOL = 1 / 10 ^ 9"

subsection \<open>The lattice\<close>

record lattice =
  hl_dt :: real
  hl_sigma :: real
  hl_target_dfs :: "real list"
  hl_drift :: "real list"
  hl_rate_step :: real
  hl_state_prices :: "real list list"

definition steps_of :: "lattice \<Rightarrow> nat" where
  "steps_of l = length (hl_target_dfs l)"

text \<open>One step of the calibration: the drift that reprices the next zero.\<close>

definition drift_of :: "real \<Rightarrow> real \<Rightarrow> real list \<Rightarrow> real \<Rightarrow> real" where
  "drift_of dt rate_step qi target =
     (let denom = sum_list (map (\<lambda>j. qi ! j * exp (- real j * rate_step * dt)) [0..<length qi])
      in - (1 / dt) * ln (target / denom))"

text \<open>The state prices rolled one step: each node pays half down and half up.\<close>

definition roll_prices :: "real \<Rightarrow> real \<Rightarrow> real list \<Rightarrow> real \<Rightarrow> real list" where
  "roll_prices dt rate_step qi a =
     fold (\<lambda>j nxt. let disc = 1 / 2 * qi ! j * exp (- (a + real j * rate_step) * dt);
                       nxt' = nxt[j := nxt ! j + disc]
                   in nxt'[Suc j := nxt' ! Suc j + disc])
       [0..<length qi] (replicate (Suc (length qi)) 0)"

fun calibrate_from :: "real \<Rightarrow> real \<Rightarrow> real list \<Rightarrow> real list \<Rightarrow> real list \<times> real list list" where
  "calibrate_from dt rate_step qi [] = ([], [qi])"
| "calibrate_from dt rate_step qi (target # targets) =
     (let a = drift_of dt rate_step qi target;
          (drift, prices) = calibrate_from dt rate_step (roll_prices dt rate_step qi a) targets
      in (a # drift, qi # prices))"

definition holee_lattice :: "real \<Rightarrow> real \<Rightarrow> real list \<Rightarrow> motor_error + lattice" where
  "holee_lattice dt sigma target_dfs =
     (if dt \<le> 0 then Inl (Bond_error ''non_positive_lattice_step'')
      else if sigma < 0 then Inl (Bond_error ''invalid_volatility'')
      else if target_dfs = [] then Inl (Bond_error ''empty_lattice'')
      else if list_ex (\<lambda>df. df \<le> 0) target_dfs then Inl (Bond_error ''non_positive_discount_factor'')
      else (let rate_step = 2 * sigma * sqrt dt; (drift, prices) = calibrate_from dt rate_step [1] target_dfs
            in Inr \<lparr> hl_dt = dt, hl_sigma = sigma, hl_target_dfs = target_dfs, hl_drift = drift,
                 hl_rate_step = rate_step, hl_state_prices = prices \<rparr>))"

definition short_rate :: "lattice \<Rightarrow> int \<Rightarrow> int \<Rightarrow> motor_error + real" where
  "short_rate l i j =
     (if \<not> (0 \<le> i \<and> i < int (steps_of l)) \<or> \<not> (0 \<le> j \<and> j \<le> i) then Inl (Bond_error ''node_out_of_range'')
      else Inr (hl_drift l ! nat i + real_of_int j * hl_rate_step l))"

definition zero_price :: "lattice \<Rightarrow> int \<Rightarrow> motor_error + real" where
  "zero_price l n =
     (if \<not> (0 \<le> n \<and> n \<le> int (steps_of l)) then Inl (Bond_error ''node_out_of_range'')
      else Inr (sum_list (hl_state_prices l ! nat n)))"

subsection \<open>Backward induction\<close>

type_synonym node_map = "(int, real) dict"

definition validate_nodes :: "lattice \<Rightarrow> node_map \<Rightarrow> node_map \<Rightarrow> motor_error + unit" where
  "validate_nodes l cashflows calls =
     (if list_ex (\<lambda>k. \<not> (0 \<le> k \<and> k \<le> int (steps_of l))) (dict_keys cashflows) then Inl (Bond_error ''cashflow_node_out_of_range'')
      else if list_ex (\<lambda>k. \<not> (0 \<le> k \<and> k \<le> int (steps_of l))) (dict_keys calls) then Inl (Bond_error ''call_node_out_of_range'')
      else Inr ())"

text \<open>The layer at step \<open>k\<close> from the values one step later.\<close>

definition value_layer :: "lattice \<Rightarrow> node_map \<Rightarrow> node_map \<Rightarrow> real \<Rightarrow> nat \<Rightarrow> real list \<Rightarrow> real list" where
  "value_layer l cashflows calls spread k vs =
     map (\<lambda>j. let rate = hl_drift l ! k + real j * hl_rate_step l;
                  cont = exp (- (rate + spread) * hl_dt l) * RISK_NEUTRAL_PROB * (vs ! Suc j + vs ! j);
                  redemption = (case dict_get calls (int k) of None \<Rightarrow> cont | Some c \<Rightarrow> min cont c)
              in dict_get_default cashflows (int k) 0 + redemption) [0..<Suc k]"

fun backward :: "lattice \<Rightarrow> node_map \<Rightarrow> node_map \<Rightarrow> real \<Rightarrow> nat \<Rightarrow> real list \<Rightarrow> real" where
  "backward l cashflows calls spread 0 vs = vs ! 0"
| "backward l cashflows calls spread (Suc k) vs =
     backward l cashflows calls spread k (value_layer l cashflows calls spread k vs)"

definition lattice_value :: "lattice \<Rightarrow> node_map \<Rightarrow> node_map \<Rightarrow> real \<Rightarrow> motor_error + real" where
  "lattice_value l cashflows calls spread =
     bindE (validate_nodes l cashflows calls) (\<lambda>_.
       let n = steps_of l
       in Inr (backward l cashflows calls spread n (replicate (Suc n) (dict_get_default cashflows (int n) 0))))"

definition solve_oas :: "lattice \<Rightarrow> real \<Rightarrow> node_map \<Rightarrow> node_map \<Rightarrow> motor_error + real" where
  "solve_oas l target cashflows calls =
     (if target \<le> 0 then Inl (Bond_error ''non_positive_price'')
      else solve_decreasing (lattice_value l cashflows calls) target OAS_SPREAD_FLOOR OAS_SPREAD_CEILING ''oas'')"

subsection \<open>The adapter\<close>

record lattice_inputs =
  li_lattice :: lattice
  li_cashflows :: node_map
  li_calls :: node_map
  li_node_times :: "real list"

text \<open>The code raises the base to a real power; the model has its value for a positive base.\<close>

definition curve_discount_factor :: "spot_curve \<Rightarrow> real \<Rightarrow> real \<Rightarrow> motor_error + real" where
  "curve_discount_factor curve tau m = bindE (curve_rate curve tau) (\<lambda>z. Inr ((1 + z / m) powr (- m * tau)))"

definition node_index :: "real \<Rightarrow> int \<Rightarrow> real \<Rightarrow> motor_error + int" where
  "node_index dt n_steps tau =
     (let raw = tau / dt; node = half_even raw
      in if node < 1 \<or> node > n_steps \<or> \<bar>raw - of_int node\<bar> > NODE_ALIGN_TOL
         then Inl (Bond_error ''cashflow_off_lattice_node'') else Inr node)"

definition flow_time :: "date \<Rightarrow> date \<Rightarrow> real" where
  "flow_time settlement d = real_of_int (days_between settlement d) / CURVE_DAYS_PER_YEAR"

definition place_flow :: "real \<Rightarrow> int \<Rightarrow> date \<Rightarrow> cash_flow \<Rightarrow> node_map \<Rightarrow> motor_error + node_map" where
  "place_flow dt n_steps settlement cf flows =
     bindE (node_index dt n_steps (flow_time settlement (cf_date cf))) (\<lambda>node.
       Inr (dict_set node (dict_get_default flows node 0 + cf_amount cf) flows))"

definition place_call ::
  "real \<Rightarrow> int \<Rightarrow> date \<Rightarrow> bond_terms \<Rightarrow> date list \<Rightarrow> call_option \<Rightarrow> node_map \<Rightarrow> motor_error + node_map" where
  "place_call dt n_steps settlement t pay_dates c calls =
     (if ca_date c \<le> settlement then Inr calls
      else if ca_date c \<notin> set pay_dates then Inl (Bond_error ''call_not_on_coupon_grid'')
      else bindE (node_index dt n_steps (flow_time settlement (ca_date c))) (\<lambda>node.
             Inr (dict_set node (ca_price c * bt_face t / 100) calls)))"

definition build_lattice :: "schedule \<Rightarrow> date \<Rightarrow> spot_curve \<Rightarrow> real \<Rightarrow> int \<Rightarrow> motor_error + lattice_inputs" where
  "build_lattice sch settlement curve sigma steps_per_period =
     (if steps_per_period < 1 then Inl (Bond_error ''invalid_steps'')
      else bindE (validate_settlement (sc_terms sch) settlement) (\<lambda>_.
        let t = sc_terms sch; m = frequency_of sch; future = future_flows sch settlement
        in if future = [] then Inl (Bond_error ''no_future_cashflows'')
           else (let pay_dates = sort (remdups (map cf_date future));
                     horizon = flow_time settlement (last pay_dates);
                     n_steps = steps_per_period * int (length pay_dates);
                     dt = horizon / of_int n_steps
                 in bindE (foldE (place_flow dt n_steps settlement) future []) (\<lambda>cashflows.
                    bindE (foldE (place_call dt n_steps settlement t pay_dates) (bt_calls t) []) (\<lambda>calls.
                    let node_times = map (\<lambda>k. real k * dt) [0..<Suc (nat n_steps)]
                    in bindE (mapE (\<lambda>k. curve_discount_factor curve (node_times ! k) m) [1..<Suc (nat n_steps)]) (\<lambda>target_dfs.
                       bindE (holee_lattice dt sigma target_dfs) (\<lambda>l.
                       Inr \<lparr> li_lattice = l, li_cashflows = cashflows, li_calls = calls, li_node_times = node_times \<rparr>)))))))"

definition oas_from_price ::
  "schedule \<Rightarrow> date \<Rightarrow> spot_curve \<Rightarrow> real \<Rightarrow> real \<Rightarrow> int \<Rightarrow> bool \<Rightarrow> motor_error + real" where
  "oas_from_price sch settlement curve price sigma steps_per_period price_is_clean =
     (if price \<le> 0 then Inl (Bond_error ''non_positive_price'')
      else bindE (build_lattice sch settlement curve sigma steps_per_period) (\<lambda>inputs.
           bindE (price_target sch settlement price price_is_clean) (\<lambda>target.
             solve_oas (li_lattice inputs) target (li_cashflows inputs) (li_calls inputs))))"

subsection \<open>The rolled state prices\<close>

definition node_discount :: "real \<Rightarrow> real \<Rightarrow> real list \<Rightarrow> real \<Rightarrow> nat \<Rightarrow> real" where
  "node_discount dt rate_step qi a j = 1 / 2 * qi ! j * exp (- (a + real j * rate_step) * dt)"

lemma roll_prices_entries:
  fixes dt rate_step a :: real and qi :: "real list"
  assumes "n \<le> length qi"
  defines "d \<equiv> node_discount dt rate_step qi a"
  defines "r \<equiv> fold (\<lambda>j nxt. let disc = 1 / 2 * qi ! j * exp (- (a + real j * rate_step) * dt); nxt' = nxt[j := nxt ! j + disc]
      in nxt'[Suc j := nxt' ! Suc j + disc]) [0..<n] (replicate (Suc (length qi)) 0)"
  shows "length r = Suc (length qi) \<and>
    (\<forall>j \<le> length qi. r ! j = (if j < n then d j else 0) + (if 0 < j \<and> j \<le> n then d (j - 1) else 0))"
  using assms(1) unfolding r_def
proof (induction n)
  case (Suc n)
  let ?step = "\<lambda>j nxt. let disc = 1 / 2 * qi ! j * exp (- (a + real j * rate_step) * dt); nxt' = nxt[j := nxt ! j + disc]
      in nxt'[Suc j := nxt' ! Suc j + disc]"
  let ?r = "fold ?step [0..<n] (replicate (Suc (length qi)) 0)"
  have ih: "length ?r = Suc (length qi)"
    "\<And>j. j \<le> length qi \<Longrightarrow> ?r ! j = (if j < n then d j else 0) + (if 0 < j \<and> j \<le> n then d (j - 1) else 0)"
    using Suc by auto
  have more: "fold ?step [0..<Suc n] (replicate (Suc (length qi)) 0) = ?r[n := ?r ! n + d n, Suc n := ?r ! Suc n + d n]"
    using Suc.prems ih(1) by (simp add: Let_def d_def node_discount_def)
  define q where "q = ?r"
  have len: "length q = Suc (length qi)" using ih(1) by (simp only: q_def)
  have nth: "q ! j = (if j < n then d j else 0) + (if 0 < j \<and> j \<le> n then d (j - 1) else 0)" if "j \<le> length qi" for j
    using ih(2) [OF that] by (simp only: q_def)
  have n: "n < length qi" using Suc.prems by simp
  have "q[n := q ! n + d n, Suc n := q ! Suc n + d n] ! j
      = (if j < Suc n then d j else 0) + (if 0 < j \<and> j \<le> Suc n then d (j - 1) else 0)" if "j \<le> length qi" for j
  proof -
    consider "j = n" | "j = Suc n" | "j \<noteq> n" "j \<noteq> Suc n" by blast
    then show ?thesis
    proof cases
      case 1
      then show ?thesis using len n nth [of n] by (simp add: nth_list_update)
    next
      case 2
      then show ?thesis using len n nth [of "Suc n"] by (simp add: nth_list_update)
    next
      case 3
      then have "j < n \<or> Suc n < j" by linarith
      with 3 show ?thesis using len n nth [OF that] by (auto simp: nth_list_update)
    qed
  qed
  then show ?case unfolding more q_def [symmetric] using len by simp
qed simp

text \<open>Weighting the rolled prices is weighting each node's discount by its two successors.\<close>

lemma roll_prices_weighted:
  "(\<Sum>j < Suc (length qi). roll_prices dt rate_step qi a ! j * w j)
    = (\<Sum>j < length qi. node_discount dt rate_step qi a j * (w (Suc j) + w j))"
proof -
  let ?d = "node_discount dt rate_step qi a" and ?n = "length qi"
  have e: "roll_prices dt rate_step qi a ! j = (if j < ?n then ?d j else 0) + (if 0 < j then ?d (j - 1) else 0)"
    if "j < Suc ?n" for j
    using roll_prices_entries [of ?n qi a rate_step dt] that by (simp add: roll_prices_def)
  have "(\<Sum>j < Suc ?n. roll_prices dt rate_step qi a ! j * w j)
      = (\<Sum>j < Suc ?n. (if j < ?n then ?d j else 0) * w j + (if 0 < j then ?d (j - 1) else 0) * w j)"
    by (rule sum.cong) (use e in \<open>simp_all add: distrib_right\<close>)
  also have "\<dots> = (\<Sum>j < Suc ?n. (if j < ?n then ?d j else 0) * w j) + (\<Sum>j < Suc ?n. (if 0 < j then ?d (j - 1) else 0) * w j)"
    by (rule sum.distrib)
  also have "(\<Sum>j < Suc ?n. (if j < ?n then ?d j else 0) * w j) = (\<Sum>j < ?n. ?d j * w j)" by simp
  also have "(\<Sum>j < Suc ?n. (if 0 < j then ?d (j - 1) else 0) * w j) = (\<Sum>j < ?n. ?d j * w (Suc j))"
    by (subst sum.lessThan_Suc_shift) simp
  finally show ?thesis by (simp add: sum.distrib [symmetric] distrib_left add.commute)
qed

lemma roll_prices_facts:
  "length (roll_prices dt rate_step qi a) = Suc (length qi)"
  "\<forall>q \<in> set qi. 0 < q \<Longrightarrow> qi \<noteq> [] \<Longrightarrow> \<forall>q \<in> set (roll_prices dt rate_step qi a). 0 < q"
proof -
  let ?d = "node_discount dt rate_step qi a"
  note e = roll_prices_entries [OF order_refl, of qi a rate_step dt, folded roll_prices_def]
  show len: "length (roll_prices dt rate_step qi a) = Suc (length qi)" using e by simp
  show "\<forall>q \<in> set (roll_prices dt rate_step qi a). 0 < q" if "\<forall>q \<in> set qi. 0 < q" "qi \<noteq> []"
  proof
    fix q
    assume "q \<in> set (roll_prices dt rate_step qi a)"
    then obtain j where j: "j \<le> length qi" "q = roll_prices dt rate_step qi a ! j"
      using len by (auto simp: in_set_conv_nth less_Suc_eq_le)
    have pos: "0 < ?d i" if "i < length qi" for i
      using \<open>\<forall>q \<in> set qi. 0 < q\<close> nth_mem [OF that] by (simp add: node_discount_def)
    have "q = (if j < length qi then ?d j else 0) + (if 0 < j then ?d (j - 1) else 0)" using e j by auto
    then show "0 < q" using pos [of j] pos [of "j - 1"] j(1) that(2)
      by (cases "j < length qi"; cases "0 < j") (auto intro: add_pos_pos)
  qed
qed

lemma sum_list_lessThan: "sum_list xs = (\<Sum>j < length xs. xs ! j)"
  by (simp add: sum_list_sum_nth atLeast0LessThan)

lemma roll_prices_reprice:
  assumes "0 < dt" "0 < target" "\<forall>q \<in> set qi. 0 < q" "qi \<noteq> []"
  shows "sum_list (roll_prices dt rate_step qi (drift_of dt rate_step qi target)) = target"
proof -
  let ?a = "drift_of dt rate_step qi target" and ?e = "\<lambda>j. qi ! j * exp (- real j * rate_step * dt)"
  define denom where "denom = (\<Sum>j < length qi. ?e j)"
  have "sum_list (map ?e [0..<length qi]) = denom" by (simp add: sum_list_lessThan denom_def)
  then have a: "?a = - (1 / dt) * ln (target / denom)" by (simp add: drift_of_def)
  have "0 < denom" unfolding denom_def using assms(3,4) by (intro sum_pos) auto
  then have ea: "exp (- ?a * dt) = target / denom" using assms(1,2) by (simp add: a)
  have "sum_list (roll_prices dt rate_step qi ?a) = (\<Sum>j < Suc (length qi). roll_prices dt rate_step qi ?a ! j * 1)"
    by (simp add: sum_list_lessThan roll_prices_facts(1))
  also have "\<dots> = (\<Sum>j < length qi. node_discount dt rate_step qi ?a j * (1 + 1))" by (rule roll_prices_weighted)
  also have "\<dots> = (\<Sum>j < length qi. exp (- ?a * dt) * ?e j)"
    by (rule sum.cong) (simp_all add: node_discount_def exp_add [symmetric] algebra_simps)
  also have "\<dots> = exp (- ?a * dt) * denom" by (simp add: denom_def sum_distrib_left)
  finally show ?thesis using ea \<open>0 < denom\<close> by simp
qed

subsection \<open>The calibrated lattice\<close>

lemma calibrate_chain:
  assumes "calibrate_from dt rate_step qi targets = (drift, prices)"
  shows "length drift = length targets \<and> length prices = Suc (length targets) \<and> prices ! 0 = qi \<and>
    (\<forall>i < length targets. drift ! i = drift_of dt rate_step (prices ! i) (targets ! i) \<and>
       prices ! Suc i = roll_prices dt rate_step (prices ! i) (drift ! i))"
  using assms
proof (induction targets arbitrary: qi drift prices)
  case (Cons target targets)
  obtain drift' prices' where c: "calibrate_from dt rate_step (roll_prices dt rate_step qi (drift_of dt rate_step qi target)) targets = (drift', prices')"
    by fastforce
  then have e: "drift = drift_of dt rate_step qi target # drift'" "prices = qi # prices'" using Cons.prems by (simp_all add: Let_def)
  have ih: "length drift' = length targets" "length prices' = Suc (length targets)"
    "prices' ! 0 = roll_prices dt rate_step qi (drift_of dt rate_step qi target)"
    "\<And>i. i < length targets \<Longrightarrow> drift' ! i = drift_of dt rate_step (prices' ! i) (targets ! i) \<and>
       prices' ! Suc i = roll_prices dt rate_step (prices' ! i) (drift' ! i)"
    using Cons.IH [OF c] by blast+
  have "drift ! i = drift_of dt rate_step (prices ! i) ((target # targets) ! i) \<and>
      prices ! Suc i = roll_prices dt rate_step (prices ! i) (drift ! i)" if "i < Suc (length targets)" for i
    using that ih(3,4) by (cases i) (simp_all add: e)
  then show ?case using ih(1,2) by (simp add: e)
qed simp

definition calibrated :: "lattice \<Rightarrow> bool" where
  "calibrated l \<longleftrightarrow> 0 < hl_dt l \<and> (\<forall>df \<in> set (hl_target_dfs l). 0 < df) \<and> hl_target_dfs l \<noteq> [] \<and>
     calibrate_from (hl_dt l) (hl_rate_step l) [1] (hl_target_dfs l) = (hl_drift l, hl_state_prices l)"

lemma holee_lattice_calibrated:
  assumes "holee_lattice dt sigma target_dfs = Inr l"
  shows "calibrated l" "hl_dt l = dt" "hl_target_dfs l = target_dfs" "hl_rate_step l = 2 * sigma * sqrt dt" "0 \<le> sigma"
  using assms by (auto simp: holee_lattice_def calibrated_def Let_def list_ex_iff not_le split: if_splits prod.splits)

lemma calibratedD:
  assumes "calibrated l"
  shows "0 < hl_dt l" "length (hl_state_prices l) = Suc (steps_of l)" "hl_state_prices l ! 0 = [1]" "0 < steps_of l"
    and "i < steps_of l \<Longrightarrow> 0 < hl_target_dfs l ! i"
    and "i < steps_of l \<Longrightarrow> hl_drift l ! i = drift_of (hl_dt l) (hl_rate_step l) (hl_state_prices l ! i) (hl_target_dfs l ! i)"
    and "i < steps_of l \<Longrightarrow> hl_state_prices l ! Suc i = roll_prices (hl_dt l) (hl_rate_step l) (hl_state_prices l ! i) (hl_drift l ! i)"
proof -
  have "calibrate_from (hl_dt l) (hl_rate_step l) [1] (hl_target_dfs l) = (hl_drift l, hl_state_prices l)"
    using assms by (simp add: calibrated_def)
  note c = calibrate_chain [OF this]
  show "0 < hl_dt l" "0 < steps_of l" using assms by (simp_all add: calibrated_def steps_of_def)
  show "length (hl_state_prices l) = Suc (steps_of l)" "hl_state_prices l ! 0 = [1]" using c by (simp_all add: steps_of_def)
  show "0 < hl_target_dfs l ! i" if "i < steps_of l" using assms nth_mem that by (simp add: calibrated_def steps_of_def)
  show "hl_drift l ! i = drift_of (hl_dt l) (hl_rate_step l) (hl_state_prices l ! i) (hl_target_dfs l ! i)"
    "hl_state_prices l ! Suc i = roll_prices (hl_dt l) (hl_rate_step l) (hl_state_prices l ! i) (hl_drift l ! i)"
    if "i < steps_of l" using c that by (simp_all add: steps_of_def)
qed

lemma state_prices_layer:
  assumes "calibrated l"
  shows "i \<le> steps_of l \<Longrightarrow> length (hl_state_prices l ! i) = Suc i \<and> (\<forall>q \<in> set (hl_state_prices l ! i). 0 < q)"
proof (induction i)
  case 0
  then show ?case using calibratedD(3) [OF assms] by simp
next
  case (Suc i)
  then have ih: "length (hl_state_prices l ! i) = Suc i" "\<forall>q \<in> set (hl_state_prices l ! i). 0 < q" by auto
  then have "hl_state_prices l ! i \<noteq> []" by auto
  then show ?case using roll_prices_facts ih calibratedD(7) [OF assms, of i] Suc.prems by auto
qed

text \<open>The discount factor the tree gives to node \<open>i\<close>.\<close>

definition tree_discount :: "lattice \<Rightarrow> nat \<Rightarrow> real" where
  "tree_discount l i = (if i = 0 then 1 else hl_target_dfs l ! (i - 1))"

lemma tree_reprices:
  assumes "calibrated l" "i \<le> steps_of l"
  shows "sum_list (hl_state_prices l ! i) = tree_discount l i"
proof (cases i)
  case 0
  then show ?thesis using calibratedD(3) [OF assms(1)] by (simp add: tree_discount_def)
next
  case (Suc k)
  then have k: "k < steps_of l" using assms(2) by simp
  have layer: "length (hl_state_prices l ! k) = Suc k" "\<forall>q \<in> set (hl_state_prices l ! k). 0 < q"
    using state_prices_layer [OF assms(1), of k] k by auto
  then have "hl_state_prices l ! k \<noteq> []" by auto
  then show ?thesis
    using calibratedD(6,7) [OF assms(1) k] roll_prices_reprice [OF calibratedD(1) [OF assms(1)] calibratedD(5) [OF assms(1) k] layer(2)]
    by (simp add: Suc tree_discount_def)
qed

subsection \<open>The value of an option-free bond\<close>

abbreviation node_flow :: "node_map \<Rightarrow> nat \<Rightarrow> real" where
  "node_flow cashflows i \<equiv> dict_get_default cashflows (int i) 0"

lemma length_value_layer [simp]: "length (value_layer l cashflows calls spread k vs) = Suc k"
  by (simp add: value_layer_def)

text \<open>Half of what a node discounts over its step.\<close>

definition step_discount :: "lattice \<Rightarrow> nat \<Rightarrow> real \<Rightarrow> nat \<Rightarrow> real" where
  "step_discount l k spread j = exp (- (hl_drift l ! k + real j * hl_rate_step l + spread) * hl_dt l) / 2"

lemma value_layer_nth:
  assumes "j \<le> k"
  shows "value_layer l cashflows calls spread k vs ! j = node_flow cashflows k +
    (case dict_get calls (int k) of None \<Rightarrow> step_discount l k spread j * (vs ! Suc j + vs ! j)
     | Some c \<Rightarrow> min (step_discount l k spread j * (vs ! Suc j + vs ! j)) c)"
proof -
  have "[0..<Suc k] ! j = j" using assms by (simp del: upt_Suc)
  then show ?thesis using assms
    by (cases "dict_get calls (int k)") (simp_all add: value_layer_def step_discount_def RISK_NEUTRAL_PROB_def Let_def del: upt_Suc)
qed

lemma backward_option_free:
  assumes "calibrated l"
  shows "k \<le> steps_of l \<Longrightarrow> length vs = Suc k \<Longrightarrow> backward l cashflows [] spread k vs =
    (\<Sum>i < k. node_flow cashflows i * tree_discount l i * exp (- spread * (real i * hl_dt l))) +
    exp (- spread * (real k * hl_dt l)) * (\<Sum>j < Suc k. hl_state_prices l ! k ! j * vs ! j)"
proof (induction k arbitrary: vs)
  case 0
  then show ?case using calibratedD(3) [OF assms] by simp
next
  case (Suc k)
  let ?q = "hl_state_prices l ! k" and ?dt = "hl_dt l" and ?layer = "value_layer l cashflows [] spread k vs"
  have k: "k < steps_of l" using Suc.prems(1) by simp
  have q: "length ?q = Suc k" using state_prices_layer [OF assms, of k] k by simp
  have next_q: "hl_state_prices l ! Suc k = roll_prices ?dt (hl_rate_step l) ?q (hl_drift l ! k)" by (rule calibratedD(7) [OF assms k])
  have e: "exp (- spread * (real (Suc k) * ?dt)) = exp (- spread * (real k * ?dt)) * exp (- spread * ?dt)"
    by (simp add: exp_add [symmetric] algebra_simps)
  have "(\<Sum>j < Suc k. ?q ! j * ?layer ! j)
      = (\<Sum>j < Suc k. node_flow cashflows k * ?q ! j +
          exp (- spread * ?dt) * (node_discount ?dt (hl_rate_step l) ?q (hl_drift l ! k) j * (vs ! Suc j + vs ! j)))"
  proof (rule sum.cong [OF refl])
    fix j
    assume "j \<in> {..<Suc k}"
    then have "j \<le> k" by simp
    moreover have "?q ! j * step_discount l k spread j
        = exp (- spread * ?dt) * node_discount ?dt (hl_rate_step l) ?q (hl_drift l ! k) j"
      by (simp add: step_discount_def node_discount_def exp_add [symmetric] algebra_simps)
    ultimately show "?q ! j * ?layer ! j = node_flow cashflows k * ?q ! j +
        exp (- spread * ?dt) * (node_discount ?dt (hl_rate_step l) ?q (hl_drift l ! k) j * (vs ! Suc j + vs ! j))"
      by (simp add: value_layer_nth distrib_left [of "?q ! j"] mult.assoc [symmetric])
  qed
  also have "\<dots> = node_flow cashflows k * tree_discount l k +
      exp (- spread * ?dt) * (\<Sum>j < length ?q. node_discount ?dt (hl_rate_step l) ?q (hl_drift l ! k) j * (vs ! Suc j + vs ! j))"
    using tree_reprices [OF assms, of k] k
    by (simp add: sum.distrib sum_distrib_left [symmetric] sum_list_lessThan q del: sum.lessThan_Suc)
  also have "(\<Sum>j < length ?q. node_discount ?dt (hl_rate_step l) ?q (hl_drift l ! k) j * (vs ! Suc j + vs ! j))
      = (\<Sum>j < Suc (Suc k). hl_state_prices l ! Suc k ! j * vs ! j)"
    unfolding next_q roll_prices_weighted [symmetric] by (simp only: q)
  finally have layer: "(\<Sum>j < Suc k. ?q ! j * ?layer ! j) = node_flow cashflows k * tree_discount l k +
      exp (- spread * ?dt) * (\<Sum>j < Suc (Suc k). hl_state_prices l ! Suc k ! j * vs ! j)" .
  have "backward l cashflows [] spread (Suc k) vs = backward l cashflows [] spread k ?layer" by simp
  also have "\<dots> = (\<Sum>i < k. node_flow cashflows i * tree_discount l i * exp (- spread * (real i * ?dt))) +
      exp (- spread * (real k * ?dt)) * (\<Sum>j < Suc k. ?q ! j * ?layer ! j)"
    by (rule Suc.IH) (use k in simp_all)
  finally show ?case unfolding layer e by (simp add: algebra_simps del: sum.lessThan_Suc) (simp add: algebra_simps)
qed

definition nodes_in_range :: "lattice \<Rightarrow> node_map \<Rightarrow> bool" where
  "nodes_in_range l m \<longleftrightarrow> (\<forall>k \<in> set (dict_keys m). 0 \<le> k \<and> k \<le> int (steps_of l))"

lemma validate_nodes_ok [simp]:
  "nodes_in_range l cashflows \<Longrightarrow> nodes_in_range l calls \<Longrightarrow> validate_nodes l cashflows calls = Inr ()"
  by (auto simp: validate_nodes_def nodes_in_range_def list_ex_iff)

lemma option_free_sum:
  assumes "calibrated l" "nodes_in_range l cashflows"
  shows "lattice_value l cashflows [] spread
    = Inr (\<Sum>i \<le> steps_of l. node_flow cashflows i * tree_discount l i * exp (- spread * (real i * hl_dt l)))"
proof -
  let ?n = "steps_of l"
  have q: "length (hl_state_prices l ! ?n) = Suc ?n" using state_prices_layer [OF assms(1), of ?n] by simp
  have "(\<Sum>j < Suc ?n. hl_state_prices l ! ?n ! j * replicate (Suc ?n) (node_flow cashflows ?n) ! j)
      = (\<Sum>j < Suc ?n. hl_state_prices l ! ?n ! j) * node_flow cashflows ?n"
    unfolding sum_distrib_right by (rule sum.cong) (simp_all del: replicate_Suc)
  also have "(\<Sum>j < Suc ?n. hl_state_prices l ! ?n ! j) = tree_discount l ?n"
    using tree_reprices [OF assms(1), of ?n] by (simp add: sum_list_lessThan q del: sum.lessThan_Suc)
  finally show ?thesis
    using backward_option_free [OF assms(1), of ?n "replicate (Suc ?n) (node_flow cashflows ?n)" cashflows spread] assms(2)
    by (simp add: lattice_value_def nodes_in_range_def [of l "[]"] lessThan_Suc_atMost [symmetric] mult_ac Let_def
        del: replicate_Suc sum.lessThan_Suc) simp
qed

subsection \<open>What the issuer's option costs\<close>

lemma layer_compare:
  assumes "\<forall>j \<le> Suc k. us ! j \<le> vs ! j" "j \<le> k"
  shows "value_layer l cashflows calls spread k us ! j \<le> value_layer l cashflows [] spread k vs ! j"
proof -
  have "us ! Suc j + us ! j \<le> vs ! Suc j + vs ! j" using assms by (intro add_mono) auto
  then have "step_discount l k spread j * (us ! Suc j + us ! j) \<le> step_discount l k spread j * (vs ! Suc j + vs ! j)"
    by (rule mult_left_mono) (simp add: step_discount_def)
  then show ?thesis using assms(2) by (auto simp: value_layer_nth min_le_iff_disj split: option.split)
qed

lemma backward_compare:
  "\<forall>j \<le> k. us ! j \<le> vs ! j \<Longrightarrow> backward l cashflows calls spread k us \<le> backward l cashflows [] spread k vs"
proof (induction k arbitrary: us vs)
  case (Suc k)
  show ?case unfolding backward.simps by (rule Suc.IH) (use layer_compare [OF Suc.prems] in blast)
qed simp

subsection \<open>The value as a function of the spread\<close>

definition sound_nodes :: "lattice \<Rightarrow> node_map \<Rightarrow> node_map \<Rightarrow> bool" where
  "sound_nodes l cashflows calls \<longleftrightarrow> nodes_in_range l cashflows \<and> nodes_in_range l calls \<and>
     (\<forall>(k, x) \<in> set cashflows. 0 \<le> x) \<and> (\<forall>(k, x) \<in> set calls. 0 < k \<and> 0 < x) \<and>
     0 < node_flow cashflows (steps_of l)"

lemma sound_nodesD:
  assumes "sound_nodes l cashflows calls"
  shows "nodes_in_range l cashflows" "nodes_in_range l calls" "0 \<le> node_flow cashflows i"
    "dict_get calls k = Some c \<Longrightarrow> 0 < k \<and> 0 < c" "0 < node_flow cashflows (steps_of l)"
proof -
  show "nodes_in_range l cashflows" "nodes_in_range l calls" "0 < node_flow cashflows (steps_of l)"
    using assms by (simp_all add: sound_nodes_def)
  show "0 \<le> node_flow cashflows i"
    using assms by (auto simp: sound_nodes_def dict_get_default_def split: option.split dest!: map_of_SomeD)
  show "0 < k \<and> 0 < c" if "dict_get calls k = Some c"
    using assms map_of_SomeD [OF that] by (auto simp: sound_nodes_def)
qed

lemma layer_positive:
  assumes "sound_nodes l cashflows calls" "\<forall>j \<le> Suc k. 0 < vs ! j" "j \<le> k"
  shows "0 < value_layer l cashflows calls spread k vs ! j"
proof -
  have "0 < step_discount l k spread j * (vs ! Suc j + vs ! j)"
    using assms(2,3) by (intro mult_pos_pos add_pos_pos) (auto simp: step_discount_def)
  then show ?thesis
    using sound_nodesD(3) [OF assms(1), of k] sound_nodesD(4) [OF assms(1), of "int k"] assms(3)
    by (auto simp: value_layer_nth min_def split: option.split intro: add_nonneg_pos)
qed

lemma layer_spread:
  assumes "calibrated l" "sound_nodes l cashflows calls" "s < s'" "\<forall>j \<le> Suc k. 0 < us ! j \<and> us ! j \<le> vs ! j" "j \<le> k"
  shows "value_layer l cashflows calls s' k us ! j \<le> value_layer l cashflows calls s k vs ! j"
    "k = 0 \<Longrightarrow> value_layer l cashflows calls s' k us ! j < value_layer l cashflows calls s k vs ! j"
proof -
  let ?d = "\<lambda>s. step_discount l k s j"
  have d: "?d s' < ?d s" using assms(3) calibratedD(1) [OF assms(1)] by (simp add: step_discount_def)
  have u: "0 < us ! Suc j + us ! j" "us ! Suc j + us ! j \<le> vs ! Suc j + vs ! j"
    using assms(4,5) by (auto intro: add_pos_pos add_mono)
  have "?d s' * (us ! Suc j + us ! j) < ?d s * (us ! Suc j + us ! j)" using d u(1) by (rule mult_strict_right_mono)
  also have "\<dots> \<le> ?d s * (vs ! Suc j + vs ! j)" by (rule mult_left_mono [OF u(2)]) (simp add: step_discount_def)
  finally have lt: "?d s' * (us ! Suc j + us ! j) < ?d s * (vs ! Suc j + vs ! j)" .
  show "value_layer l cashflows calls s' k us ! j \<le> value_layer l cashflows calls s k vs ! j"
    using lt assms(5) by (auto simp: value_layer_nth min_def split: option.split)
  show "value_layer l cashflows calls s' k us ! j < value_layer l cashflows calls s k vs ! j" if "k = 0"
  proof -
    have "dict_get calls (int k) = None" using sound_nodesD(4) [OF assms(2), of "int k"] that by (cases "dict_get calls (int k)") auto
    then show ?thesis using lt assms(5) by (simp add: value_layer_nth)
  qed
qed

lemma backward_spread:
  assumes "calibrated l" "sound_nodes l cashflows calls" "s < s'"
  shows "\<forall>j \<le> Suc k. 0 < us ! j \<and> us ! j \<le> vs ! j \<Longrightarrow>
    backward l cashflows calls s' (Suc k) us < backward l cashflows calls s (Suc k) vs"
proof (induction k arbitrary: us vs)
  case 0
  then show ?case using layer_spread(2) [OF assms 0] by simp
next
  case (Suc k)
  have "backward l cashflows calls s' (Suc k) (value_layer l cashflows calls s' (Suc k) us)
      < backward l cashflows calls s (Suc k) (value_layer l cashflows calls s (Suc k) vs)"
    by (rule Suc.IH) (use layer_positive [OF assms(2)] layer_spread(1) [OF assms Suc.prems] Suc.prems in blast)
  then show ?case by (simp only: backward.simps)
qed

lemma backward_cont:
  assumes "\<forall>j \<le> k. isCont (\<lambda>s. vs s ! j) x"
  shows "isCont (\<lambda>s. backward l cashflows calls s k (vs s)) x"
  using assms
proof (induction k arbitrary: vs)
  case (Suc k)
  have "isCont (\<lambda>s. value_layer l cashflows calls s k (vs s) ! j) x" if "j \<le> k" for j
  proof -
    let ?cont = "\<lambda>s. step_discount l k s j * (vs s ! Suc j + vs s ! j)"
    have c: "isCont ?cont x" unfolding step_discount_def by (intro continuous_intros) (use Suc.prems that in auto)
    show ?thesis using that c by (cases "dict_get calls (int k)") (simp_all add: value_layer_nth continuous_min)
  qed
  then show ?case unfolding backward.simps by (intro Suc.IH) blast
qed simp

lemma value_decreasing:
  assumes "calibrated l" "sound_nodes l cashflows calls"
  shows "decreasing_on (lattice_value l cashflows calls)
    (\<lambda>s. backward l cashflows calls s (steps_of l) (replicate (Suc (steps_of l)) (node_flow cashflows (steps_of l)))) lo hi"
proof -
  note n = sound_nodesD [OF assms(2)]
  obtain k where k: "steps_of l = Suc k" using calibratedD(4) [OF assms(1)] by (cases "steps_of l") auto
  let ?vs = "replicate (Suc (steps_of l)) (node_flow cashflows (steps_of l))"
  have vs: "?vs ! j = node_flow cashflows (steps_of l)" if "j \<le> Suc k" for j
    using that by (simp add: k del: replicate_Suc)
  have "isCont (\<lambda>s. backward l cashflows calls s (steps_of l) ?vs) x" for x by (rule backward_cont) simp
  moreover have "backward l cashflows calls s' (Suc k) ?vs < backward l cashflows calls s (Suc k) ?vs" if "s < s'" for s s'
    by (rule backward_spread [OF assms that]) (use vs n(5) in auto)
  ultimately show ?thesis
    unfolding decreasing_on_def using n(1,2) by (simp add: lattice_value_def Let_def k [symmetric] del: replicate_Suc)
qed

subsection \<open>The flows on the nodes\<close>

lemma node_indexD:
  assumes "node_index dt n_steps tau = Inr node"
  shows "1 \<le> node" "node \<le> n_steps" "node = half_even (tau / dt)" "0 \<le> node"
  using assms by (auto simp: node_index_def Let_def split: if_splits)

lemma dict_default_set:
  "dict_get_default (dict_set k x d) i y = (if i = k then x else dict_get_default d i y)"
  by (simp add: dict_get_default_def dict_simps)

lemma place_flow_step:
  assumes "foldE (place_flow dt n_steps s) (cf # flows) m = Inr m'"
  obtains node where "node_index dt n_steps (flow_time s (cf_date cf)) = Inr node"
    "foldE (place_flow dt n_steps s) flows (dict_set node (dict_get_default m node 0 + cf_amount cf) m) = Inr m'"
  using assms by (auto simp: place_flow_def [of _ _ _ cf] bindE_Inr_iff)

lemma keys_set_dict_set: "set (dict_keys (dict_set k x d)) = insert k (set (dict_keys d))"
  by (simp add: set_keys_dict_set)

lemma place_flows_sum:
  assumes "foldE (place_flow dt (int n) s) flows m = Inr m'"
  shows "(\<Sum>i \<le> n. node_flow m' i * g i) =
      (\<Sum>i \<le> n. node_flow m i * g i) + sum_list (map (\<lambda>cf. cf_amount cf * g (nat (half_even (flow_time s (cf_date cf) / dt)))) flows)"
    and "\<forall>k \<in> set (dict_keys m). 0 \<le> k \<and> k \<le> int n \<Longrightarrow> \<forall>k \<in> set (dict_keys m'). 0 \<le> k \<and> k \<le> int n"
    and "cf \<in> set flows \<Longrightarrow> 1 \<le> half_even (flow_time s (cf_date cf) / dt) \<and> half_even (flow_time s (cf_date cf) / dt) \<le> int n"
  using assms
proof (induction flows arbitrary: m)
  case (Cons cf' flows)
  {
    case 1
    obtain node where node: "node_index dt (int n) (flow_time s (cf_date cf')) = Inr node"
      "foldE (place_flow dt (int n) s) flows (dict_set node (dict_get_default m node 0 + cf_amount cf') m) = Inr m'"
      using place_flow_step [OF 1] .
    let ?m = "dict_set node (dict_get_default m node 0 + cf_amount cf') m"
    note d = node_indexD [OF node(1)]
    have "(\<Sum>i \<le> n. node_flow ?m i * g i) = (\<Sum>i \<le> n. node_flow m i * g i + (if nat node = i then cf_amount cf' * g i else 0))"
      by (rule sum.cong) (use d(1) in \<open>auto simp: dict_default_set algebra_simps\<close>)
    also have "\<dots> = (\<Sum>i \<le> n. node_flow m i * g i) + cf_amount cf' * g (nat node)"
      using d(1,2) nat_le_iff [of node n] by (simp add: sum.distrib)
    finally show ?case using Cons.IH(1) [OF node(2)] by (simp add: d(3))
  next
    case 2
    obtain node where node: "node_index dt (int n) (flow_time s (cf_date cf')) = Inr node"
      "foldE (place_flow dt (int n) s) flows (dict_set node (dict_get_default m node 0 + cf_amount cf') m) = Inr m'"
      using place_flow_step [OF 2(2)] .
    show ?case by (rule Cons.IH(2) [OF _ node(2)]) (use 2(1) node_indexD(1,2) [OF node(1)] in \<open>auto simp: keys_set_dict_set simp del: set_map\<close>)
  next
    case 3
    obtain node where node: "node_index dt (int n) (flow_time s (cf_date cf')) = Inr node"
      "foldE (place_flow dt (int n) s) flows (dict_set node (dict_get_default m node 0 + cf_amount cf') m) = Inr m'"
      using place_flow_step [OF 3(2)] .
    show ?case using Cons.IH(3) [OF _ node(2)] node_indexD [OF node(1)] 3(1) by auto
  }
qed simp_all

lemma no_calls_placed:
  "\<forall>c \<in> set cs. ca_date c \<le> s \<Longrightarrow> foldE (place_call dt n_steps s t pay_dates) cs m = Inr m"
  by (induction cs) (simp_all add: place_call_def)

lemma calls_in_range:
  assumes "foldE (place_call dt (int n) s t pay_dates) cs m = Inr m'" "\<forall>k \<in> set (dict_keys m). 0 \<le> k \<and> k \<le> int n"
  shows "\<forall>k \<in> set (dict_keys m'). 0 \<le> k \<and> k \<le> int n"
  using assms
proof (induction cs arbitrary: m)
  case (Cons c cs)
  then obtain m1 where m1: "place_call dt (int n) s t pay_dates c m = Inr m1"
    "foldE (place_call dt (int n) s t pay_dates) cs m1 = Inr m'" by (auto simp: bindE_Inr_iff)
  have "\<forall>k \<in> set (dict_keys m1). 0 \<le> k \<and> k \<le> int n"
    using m1(1) Cons.prems(2)
    by (auto simp: place_call_def bindE_Inr_iff keys_set_dict_set simp del: set_map dest: node_indexD(2,4) split: if_splits)
  then show ?case by (rule Cons.IH [OF m1(2)])
qed simp

lemma build_latticeD:
  assumes "build_lattice sch s curve sigma steps_per_period = Inr inputs"
  obtains n dt pay_dates where "validate_settlement (sc_terms sch) s = Inr ()" "future_flows sch s \<noteq> []"
    "foldE (place_flow dt (int n) s) (future_flows sch s) [] = Inr (li_cashflows inputs)"
    "foldE (place_call dt (int n) s (sc_terms sch) pay_dates) (bt_calls (sc_terms sch)) [] = Inr (li_calls inputs)"
    "calibrated (li_lattice inputs)" "hl_dt (li_lattice inputs) = dt" "steps_of (li_lattice inputs) = n"
    "\<forall>k. 1 \<le> k \<and> k \<le> n \<longrightarrow> curve_discount_factor curve (real k * dt) (frequency_of sch) = Inr (tree_discount (li_lattice inputs) k)"
proof -
  let ?future = "future_flows sch s" and ?t = "sc_terms sch"
  define pay_dates where "pay_dates = sort (remdups (map cf_date ?future))"
  define n_steps where "n_steps = steps_per_period * int (length pay_dates)"
  define dt where "dt = flow_time s (last pay_dates) / of_int n_steps"
  define times where "times = map (\<lambda>k. real k * dt) [0..<Suc (nat n_steps)]"
  have steps: "1 \<le> steps_per_period" and v: "validate_settlement ?t s = Inr ()" and f: "?future \<noteq> []"
    using assms by (auto simp: build_lattice_def bindE_Inr_iff Let_def split: if_splits)
  obtain cashflows calls dfs l where p: "foldE (place_flow dt n_steps s) ?future [] = Inr cashflows"
    "foldE (place_call dt n_steps s ?t pay_dates) (bt_calls ?t) [] = Inr calls"
    "mapE (\<lambda>k. curve_discount_factor curve (times ! k) (frequency_of sch)) [1..<Suc (nat n_steps)] = Inr dfs"
    "holee_lattice dt sigma dfs = Inr l"
    "inputs = \<lparr> li_lattice = l, li_cashflows = cashflows, li_calls = calls, li_node_times = times \<rparr>"
    using assms steps v f unfolding build_lattice_def Let_def pay_dates_def [symmetric] n_steps_def [symmetric] dt_def [symmetric] times_def [symmetric]
    by (auto simp: bindE_Inr_iff)
  have n: "int (nat n_steps) = n_steps" using steps by (simp add: n_steps_def)
  note l = holee_lattice_calibrated [OF p(4)]
  have len: "length dfs = nat n_steps" using mapE_Inr_length [OF p(3)] by simp
  have df: "curve_discount_factor curve (real k * dt) (frequency_of sch) = Inr (tree_discount l k)" if "1 \<le> k" "k \<le> nat n_steps" for k
  proof -
    have "k - 1 < length [1..<Suc (nat n_steps)]" "[1..<Suc (nat n_steps)] ! (k - 1) = k" using that by (simp_all del: upt_Suc)
    moreover have "times ! k = real k * dt" using that by (simp add: times_def del: upt_Suc)
    moreover note list_all2_nthD [OF p(3) [unfolded mapE_Inr_iff], of "k - 1"]
    moreover have "tree_discount l k = dfs ! (k - 1)" using that by (simp add: tree_discount_def l(3))
    ultimately show ?thesis by (simp del: upt_Suc)
  qed
  show ?thesis
    by (rule that [of dt "nat n_steps" pay_dates]) (use v f p l n len df in \<open>simp_all add: steps_of_def\<close>)
qed

subsection \<open>What the motor promises\<close>

text \<open>
  C34: the lattice against the curve it was calibrated to. Without calls the value by backward
  induction is the closed sum of every node's flow times the target discount factor of the node
  times \<open>exp (- spread * time)\<close>: the volatility and the shape of the tree drop out, and the spread is
  continuously compounded.
\<close>

theorem option_free_value:
  assumes "holee_lattice dt sigma target_dfs = Inr l" "nodes_in_range l cashflows"
  shows "lattice_value l cashflows [] spread = Inr (node_flow cashflows 0 +
    (\<Sum>i < length target_dfs. node_flow cashflows (Suc i) * target_dfs ! i * exp (- spread * (real (Suc i) * dt))))"
proof -
  note l = holee_lattice_calibrated [OF assms(1)]
  have n: "steps_of l = length target_dfs" by (simp add: steps_of_def l(3))
  have "lattice_value l cashflows [] spread
      = Inr (\<Sum>i < Suc (length target_dfs). node_flow cashflows i * tree_discount l i * exp (- spread * (real i * dt)))"
    using option_free_sum [OF l(1) assms(2), of spread] by (simp only: n l(2) lessThan_Suc_atMost)
  then show ?thesis unfolding sum.lessThan_Suc_shift by (simp add: tree_discount_def l(3))
qed

lemma callable_le_option_free:
  assumes "nodes_in_range l cashflows" "nodes_in_range l calls" "lattice_value l cashflows [] spread = Inr w"
  shows "\<exists>v. lattice_value l cashflows calls spread = Inr v \<and> v \<le> w"
  using assms backward_compare [of "steps_of l" _ _ l cashflows calls spread, OF allI [OF impI [OF order_refl]]]
  by (auto simp: lattice_value_def Let_def nodes_in_range_def [of l "[]"] simp del: replicate_Suc)

text \<open>Every flow date is a node time, not only within the tolerance.\<close>

definition on_nodes :: "date \<Rightarrow> real \<Rightarrow> cash_flow list \<Rightarrow> bool" where
  "on_nodes s dt flows \<longleftrightarrow> (\<forall>cf \<in> set flows. real_of_int (half_even (flow_time s (cf_date cf) / dt)) * dt = flow_time s (cf_date cf))"

lemma curve_term_discount:
  assumes "curve_term m s curve 0 cf = Inr x" "curve_discount_factor curve (flow_time s (cf_date cf)) m = Inr d"
  shows "x = cf_amount cf * d"
  using assms
  by (auto simp: curve_term_def curve_discount_factor_def flow_time_def Let_def bindE_Inr_iff powr_minus_divide split: if_splits)

lemma priced_flows:
  assumes "build_lattice sch s curve sigma steps_per_period = Inr inputs"
    and "on_nodes s (hl_dt (li_lattice inputs)) (future_flows sch s)" "curve_price sch s curve 0 = Inr p"
  shows "lattice_value (li_lattice inputs) (li_cashflows inputs) [] 0 = Inr p"
    and "nodes_in_range (li_lattice inputs) (li_cashflows inputs)" "nodes_in_range (li_lattice inputs) (li_calls inputs)"
proof -
  obtain n dt pay_dates where b: "validate_settlement (sc_terms sch) s = Inr ()" "future_flows sch s \<noteq> []"
    "foldE (place_flow dt (int n) s) (future_flows sch s) [] = Inr (li_cashflows inputs)"
    "foldE (place_call dt (int n) s (sc_terms sch) pay_dates) (bt_calls (sc_terms sch)) [] = Inr (li_calls inputs)"
    "calibrated (li_lattice inputs)" "hl_dt (li_lattice inputs) = dt" "steps_of (li_lattice inputs) = n"
    "\<forall>k. 1 \<le> k \<and> k \<le> n \<longrightarrow> curve_discount_factor curve (real k * dt) (frequency_of sch) = Inr (tree_discount (li_lattice inputs) k)"
    by (rule build_latticeD [OF assms(1)])
  let ?l = "li_lattice inputs" and ?node = "\<lambda>cf. nat (half_even (flow_time s (cf_date cf) / dt))"
  obtain xs where xs: "mapE (curve_term (frequency_of sch) s curve 0) (future_flows sch s) = Inr xs" "p = sum_list xs"
    using assms(3) b(1,2) by (auto simp: curve_price_def bindE_Inr_iff Let_def)
  show range: "nodes_in_range ?l (li_cashflows inputs)"
    using place_flows_sum(2) [OF b(3)] by (simp add: nodes_in_range_def b(7))
  show "nodes_in_range ?l (li_calls inputs)"
    using calls_in_range [OF b(4)] by (simp add: nodes_in_range_def b(7))
  have "x = cf_amount cf * tree_discount ?l (?node cf)"
    if cf: "cf \<in> set (future_flows sch s)" and x: "curve_term (frequency_of sch) s curve 0 cf = Inr x" for cf x
  proof -
    have node: "1 \<le> half_even (flow_time s (cf_date cf) / dt)" "half_even (flow_time s (cf_date cf) / dt) \<le> int n"
      using place_flows_sum(3) [OF b(3) cf] by simp_all
    then have "1 \<le> ?node cf" "?node cf \<le> n" by linarith+
    moreover have "real (?node cf) * dt = flow_time s (cf_date cf)"
      using assms(2) cf node(1) by (simp add: on_nodes_def b(6))
    ultimately show ?thesis using b(8) curve_term_discount [OF x] by metis
  qed
  then have "list_all2 (\<lambda>cf x. x = cf_amount cf * tree_discount ?l (?node cf)) (future_flows sch s) xs"
    using xs(1) unfolding mapE_Inr_iff list_all2_conv_all_nth by simp
  then have "xs = map (\<lambda>cf. cf_amount cf * tree_discount ?l (?node cf)) (future_flows sch s)"
    by (auto simp: list_all2_conv_all_nth intro: nth_equalityI)
  then show "lattice_value ?l (li_cashflows inputs) [] 0 = Inr p"
    using option_free_sum [OF b(5) range, of 0] place_flows_sum(1) [OF b(3), of "tree_discount ?l"] xs(2)
    by (simp add: b(7) dict_get_default_def)
qed

text \<open>
  C33: the lattice the adapter builds for a bond whose flow dates are node times, against the closed
  form of the pricing motor. At no spread the issuer's calls never raise the value above the price
  off the curve, and without a call after the settlement the two are the same number, whatever the
  volatility and the number of steps: flows that share a node are added, none is lost.
\<close>

theorem callable_below_curve_price:
  assumes "build_lattice sch s curve sigma steps_per_period = Inr inputs"
    and "on_nodes s (hl_dt (li_lattice inputs)) (future_flows sch s)" "curve_price sch s curve 0 = Inr p"
  shows "\<exists>v. lattice_value (li_lattice inputs) (li_cashflows inputs) (li_calls inputs) 0 = Inr v \<and> v \<le> p \<and>
    ((\<forall>c \<in> set (bt_calls (sc_terms sch)). ca_date c \<le> s) \<longrightarrow> v = p)"
proof -
  note f = priced_flows [OF assms]
  obtain v where v: "lattice_value (li_lattice inputs) (li_cashflows inputs) (li_calls inputs) 0 = Inr v" "v \<le> p"
    using callable_le_option_free [OF f(2,3,1)] by blast
  moreover have "v = p" if "\<forall>c \<in> set (bt_calls (sc_terms sch)). ca_date c \<le> s"
  proof -
    obtain n dt pay_dates where
      "foldE (place_call dt (int n) s (sc_terms sch) pay_dates) (bt_calls (sc_terms sch)) [] = Inr (li_calls inputs)"
      by (rule build_latticeD [OF assms(1)])
    then have "li_calls inputs = []" using no_calls_placed [OF that] by simp
    then show ?thesis using v(1) f(1) by simp
  qed
  ultimately show ?thesis by blast
qed

text \<open>
  C32: the spread solved from a price, for flows that are not negative, a positive last flow and
  positive call prices after the root. A price outside the values at the two ends of the bracket is
  out of bounds; for any other the solve ends within its iterations, never reports a failure to
  converge, and returns the one spread of the bracket at which the lattice, with every call
  exercised optimally, reprices the bond, up to \<open>1e-14\<close>.
\<close>

theorem solve_oas_reprices:
  assumes "holee_lattice dt sigma target_dfs = Inr l" "sound_nodes l cashflows calls" "0 < price"
    and "lattice_value l cashflows calls OAS_SPREAD_FLOOR = Inr high" "lattice_value l cashflows calls OAS_SPREAD_CEILING = Inr low"
  shows "if high < price \<or> price < low then solve_oas l price cashflows calls = Inl (Bond_error ''oas_out_of_bounds'')
    else \<exists>x r. solve_oas l price cashflows calls = Inr x \<and> OAS_SPREAD_FLOOR \<le> x \<and> x \<le> OAS_SPREAD_CEILING \<and>
      \<bar>x - r\<bar> < SOLVER_XTOL \<and>
      (\<forall>z. OAS_SPREAD_FLOOR \<le> z \<and> z \<le> OAS_SPREAD_CEILING \<longrightarrow> (lattice_value l cashflows calls z = Inr price \<longleftrightarrow> z = r))"
proof -
  let ?f = "\<lambda>s. backward l cashflows calls s (steps_of l) (replicate (Suc (steps_of l)) (node_flow cashflows (steps_of l)))"
  note dec = value_decreasing [OF holee_lattice_calibrated(1) [OF assms(1)] assms(2), of OAS_SPREAD_FLOOR OAS_SPREAD_CEILING]
  note d = decreasing_onD [OF dec]
  have bounds: "OAS_SPREAD_FLOOR < OAS_SPREAD_CEILING" "OAS_SPREAD_CEILING - OAS_SPREAD_FLOOR \<le> 50"
    by (simp_all add: OAS_SPREAD_FLOOR_def OAS_SPREAD_CEILING_def)
  have ends: "?f OAS_SPREAD_FLOOR = high" "?f OAS_SPREAD_CEILING = low"
    using d(1) [of OAS_SPREAD_FLOOR] d(1) [of OAS_SPREAD_CEILING] bounds(1) assms(4,5) by simp_all
  have solve: "solve_oas l price cashflows calls
      = solve_decreasing (lattice_value l cashflows calls) price OAS_SPREAD_FLOOR OAS_SPREAD_CEILING ''oas''"
    using assms(3) by (simp add: solve_oas_def)
  have one: "?f z = price \<longleftrightarrow> z = r" if "OAS_SPREAD_FLOOR \<le> z" "z \<le> OAS_SPREAD_CEILING" "OAS_SPREAD_FLOOR \<le> r"
      "r \<le> OAS_SPREAD_CEILING" "?f r = price" for z r
    using d(3) [of z r] d(3) [of r z] that by (cases z r rule: linorder_cases) auto
  have code: "''oas'' @ ''_out_of_bounds'' = ''oas_out_of_bounds''" by simp
  note root = solve_decreasing_root [OF dec bounds, of price "''oas''", unfolded code ends, folded solve]
  show ?thesis
  proof (cases "high < price \<or> price < low")
    case True
    then show ?thesis using root by simp
  next
    case False
    then obtain x r where xr: "solve_oas l price cashflows calls = Inr x" "OAS_SPREAD_FLOOR \<le> x" "x \<le> OAS_SPREAD_CEILING"
      "OAS_SPREAD_FLOOR \<le> r" "r \<le> OAS_SPREAD_CEILING" "?f r = price" "\<bar>x - r\<bar> < SOLVER_XTOL"
      using root by (simp only: if_False) blast
    have "\<forall>z. OAS_SPREAD_FLOOR \<le> z \<and> z \<le> OAS_SPREAD_CEILING \<longrightarrow> (lattice_value l cashflows calls z = Inr price \<longleftrightarrow> z = r)"
      using d(1) one [OF _ _ xr(4,5,6)] by simp
    with False xr show ?thesis by (simp only: if_False) blast
  qed
qed

subsection \<open>Concrete lattices\<close>

lemma holee_lattice_succeeds:
  assumes "0 < dt" "0 \<le> sigma" "target_dfs \<noteq> []" "\<forall>df \<in> set target_dfs. 0 < df"
  shows "\<exists>l. holee_lattice dt sigma target_dfs = Inr l"
  using assms by (auto simp: holee_lattice_def Let_def list_ex_iff not_le split: prod.splits)

lemma two_step_lattice:
  obtains l where "holee_lattice 1 (1 / 100) [9 / 10, 4 / 5] = Inr l"
  using holee_lattice_succeeds [of 1 "1 / 100" "[9 / 10, 4 / 5]"] by auto

lemma one_step_lattice:
  obtains l where "holee_lattice 1 (1 / 100) [1 / 2] = Inr l"
  using holee_lattice_succeeds [of 1 "1 / 100" "[1 / 2]"] by auto

theorem option_free_value_witness:
  "\<exists>l. holee_lattice 1 (1 / 100) [9 / 10, 4 / 5] = Inr l \<and> lattice_value l [(1, 5), (2, 105)] [] 0 = Inr (177 / 2)"
proof -
  obtain l where l: "holee_lattice 1 (1 / 100) [9 / 10, 4 / 5] = Inr l" by (rule two_step_lattice)
  have "nodes_in_range l [(1, 5), (2, 105)]"
    using holee_lattice_calibrated(3) [OF l] by (simp add: nodes_in_range_def steps_of_def)
  then have "lattice_value l [(1, 5), (2, 105)] [] 0 = Inr (177 / 2)"
    by (subst option_free_value [OF l]) (simp_all add: dict_get_default_def)
  with l show ?thesis by blast
qed

lemma one_step_value:
  assumes "holee_lattice 1 (1 / 100) [1 / 2] = Inr l"
  shows "lattice_value l [(1, 100)] [] s = Inr (50 * exp (- s))" "sound_nodes l [(1, 100)] []"
proof -
  note l = holee_lattice_calibrated [OF assms]
  have n: "steps_of l = 1" by (simp add: steps_of_def l(3))
  then have "nodes_in_range l [(1, 100)]" by (simp add: nodes_in_range_def)
  then show "lattice_value l [(1, 100)] [] s = Inr (50 * exp (- s))"
    using option_free_sum [OF l(1), of "[(1, 100)]" s] by (simp add: n l(2,3) dict_get_default_def tree_discount_def numeral_2_eq_2)
  show "sound_nodes l [(1, 100)] []" by (simp add: sound_nodes_def nodes_in_range_def n dict_get_default_def)
qed

theorem solve_oas_reprices_witness:
  "\<exists>l x. holee_lattice 1 (1 / 100) [1 / 2] = Inr l \<and> solve_oas l 50 [(1, 100)] [] = Inr x \<and> \<bar>x\<bar> < SOLVER_XTOL"
proof -
  obtain l where l: "holee_lattice 1 (1 / 100) [1 / 2] = Inr l" by (rule one_step_lattice)
  note v = one_step_value [OF l]
  have ends: "\<not> (50 * exp (- OAS_SPREAD_FLOOR) < 50 \<or> 50 < 50 * exp (- OAS_SPREAD_CEILING))"
    by (simp add: OAS_SPREAD_FLOOR_def OAS_SPREAD_CEILING_def)
  obtain x r where x: "solve_oas l 50 [(1, 100)] [] = Inr x" "\<bar>x - r\<bar> < SOLVER_XTOL"
    "\<forall>z. OAS_SPREAD_FLOOR \<le> z \<and> z \<le> OAS_SPREAD_CEILING \<longrightarrow> (lattice_value l [(1, 100)] [] z = Inr 50 \<longleftrightarrow> z = r)"
    using solve_oas_reprices [OF l v(2) _ v(1) v(1), of 50] ends by (simp only: if_False zero_less_numeral simp_thms) blast
  have "lattice_value l [(1, 100)] [] 0 = Inr 50" using v(1) [of 0] by simp
  then have "0 = r" using x(3) by (simp add: OAS_SPREAD_FLOOR_def OAS_SPREAD_CEILING_def)
  with l x(1,2) show ?thesis by auto
qed

definition zero_curve :: spot_curve where
  "zero_curve = \<lparr> sp_nodes = [(1, 0)], sp_sorted = [(1, 0)] \<rparr>"

lemma zero_curve_rate [simp]: "curve_rate zero_curve tenor = Inr 0"
  by (simp add: curve_rate_def zero_curve_def Let_def)

lemma zero_curve_discount [simp]: "curve_discount_factor zero_curve tau m = Inr 1"
  by (simp add: curve_discount_factor_def)

lemma july_flows:
  "future_flows july_schedule (Date 2024 1 31) = [coupon_flow july_bond (Date 2024 7 31), redemption_flow july_bond]"
  by (simp add: future_flows_def july_schedule_def coupon_flow_def redemption_flow_def less_date_def less_eq_date_def)

lemma july_curve_price: "curve_price july_schedule (Date 2024 1 31) zero_curve 0 = Inr (205 / 2)"
  using july_facts(1-3) by (simp add: curve_price_def validate_settlement_def july_terms july_flows curve_term_def Let_def
      coupon_flow_def redemption_flow_def july_coupon not_less not_le)

lemma july_time: "flow_time (Date 2024 1 31) (Date 2024 7 31) = 182 / 365"
  by (simp add: flow_time_def days_between_def CURVE_DAYS_PER_YEAR_def toordinal_def days_before_month_def is_leap_def)

lemma july_node: "node_index (91 / 365) 2 (182 / 365) = Inr 2"
  using half_even_of_int [of 2] by (simp add: node_index_def NODE_ALIGN_TOL_def Let_def)

lemma july_lattice:
  "\<exists>inputs. build_lattice july_schedule (Date 2024 1 31) zero_curve (1 / 100) 2 = Inr inputs \<and>
    on_nodes (Date 2024 1 31) (hl_dt (li_lattice inputs)) (future_flows july_schedule (Date 2024 1 31))"
proof -
  obtain l where l: "holee_lattice (91 / 365) (1 / 100) [1, 1] = Inr l"
    using holee_lattice_succeeds [of "91 / 365" "1 / 100" "[1, 1]"] by auto
  let ?inputs = "\<lparr> li_lattice = l, li_cashflows = [(2, 205 / 2)], li_calls = [],
    li_node_times = map (\<lambda>k. real k * (91 / 365)) [0..<3] \<rparr>"
  have "build_lattice july_schedule (Date 2024 1 31) zero_curve (1 / 100) 2 = Inr ?inputs"
    using july_facts(1-3) l
    by (simp add: build_lattice_def validate_settlement_def july_terms july_flows coupon_flow_def redemption_flow_def july_coupon
        not_less not_le Let_def place_flow_def place_call_def july_time july_node dict_get_default_def upt_rec)
  moreover have "on_nodes (Date 2024 1 31) (hl_dt l) (future_flows july_schedule (Date 2024 1 31))"
    using half_even_of_int [of 2]
    by (simp add: on_nodes_def july_flows coupon_flow_def redemption_flow_def july_time holee_lattice_calibrated(2) [OF l])
  ultimately show ?thesis by auto
qed

theorem callable_below_curve_price_witness:
  "\<exists>inputs. build_lattice july_schedule (Date 2024 1 31) zero_curve (1 / 100) 2 = Inr inputs \<and>
    lattice_value (li_lattice inputs) (li_cashflows inputs) (li_calls inputs) 0 = Inr (205 / 2)"
proof -
  obtain inputs where i: "build_lattice july_schedule (Date 2024 1 31) zero_curve (1 / 100) 2 = Inr inputs"
    "on_nodes (Date 2024 1 31) (hl_dt (li_lattice inputs)) (future_flows july_schedule (Date 2024 1 31))"
    using july_lattice by blast
  have "\<forall>c \<in> set (bt_calls (sc_terms july_schedule)). ca_date c \<le> Date 2024 1 31" by (simp add: july_terms)
  with i callable_below_curve_price [OF i july_curve_price] show ?thesis by auto
qed

end
