(* ===== verification/Quadrant_Kalman.thy ===== *)
theory Quadrant_Kalman
  imports Quadrant_Snapshot
begin

text \<open>
  Confidence v2 (\<open>src/quadrant_confidence_v2.py\<close>): the causal local-level Kalman filter of an
  axis score, its two-sensor form fused with the market observation, the joint quadrant posterior,
  the publish rule and the status order. An observation is a pair of a score and a data quality,
  each possibly missing; the mean and the variance of the filter are set together, so the model
  keeps them as one optional pair. Floats are reals. The distribution function of the standard
  normal is the parameter \<open>cdf\<close>, as in version 1.
\<close>

definition KALMAN_LAMBDA :: real where "KALMAN_LAMBDA = 10 / 100"
definition TAU_PUBLISH :: real where "TAU_PUBLISH = 60 / 100"
definition DELTA_STICKY :: real where "DELTA_STICKY = 10 / 100"
definition V2_FILTER_HISTORY_MONTHS :: nat where "V2_FILTER_HISTORY_MONTHS = 48"
definition MIN_FILTER_OBSERVATIONS :: nat where "MIN_FILTER_OBSERVATIONS = 24"
definition KALMAN_R_WINDOW :: nat where "KALMAN_R_WINDOW = 36"
definition KALMAN_MIN_DIFFS :: nat where "KALMAN_MIN_DIFFS = 12"
definition KALMAN_R_FLOOR :: real where "KALMAN_R_FLOOR = (10 / 100)\<^sup>2"
definition KALMAN_WARMUP_MAD :: real where "KALMAN_WARMUP_MAD = 35 / 100"

type_synonym score_obs = "real option \<times> real option"

text \<open>The mean, the variance and the measurement noise of a month.\<close>

type_synonym filtered = "real option \<times> real option \<times> real option"

subsection \<open>Measurement noise\<close>

record noise_tracker =
  nt_diffs :: "real list"
  nt_prev :: "real option"

definition fresh_tracker :: noise_tracker where
  "fresh_tracker = \<lparr> nt_diffs = [], nt_prev = None \<rparr>"

text \<open>
  The first differences grow by the new one unless there is a gap before the score. \<open>diffs[-0:]\<close> is
  the whole list. A window of \<open>min_diffs\<close> differences is not empty, as with the module's constants.
\<close>

definition tail_window :: "nat \<Rightarrow> 'a list \<Rightarrow> 'a list" where
  "tail_window n xs = (if n = 0 then xs else drop (length xs - n) xs)"

definition track_diff :: "noise_tracker \<Rightarrow> real \<Rightarrow> noise_tracker" where
  "track_diff t x =
     \<lparr> nt_diffs = (case nt_prev t of None \<Rightarrow> nt_diffs t | Some p \<Rightarrow> nt_diffs t @ [x - p]), nt_prev = Some x \<rparr>"

definition noise_base :: "real \<Rightarrow> nat \<Rightarrow> nat \<Rightarrow> real list \<Rightarrow> real" where
  "noise_base lam r_window min_diffs ds =
     (let window = tail_window r_window ds;
          r = (if length window \<ge> min_diffs
               then (let med = median window; mad = median (map (\<lambda>d. \<bar>d - med\<bar>) window)
                     in (MAD_SCALE * mad)\<^sup>2 / (2 + lam))
               else KALMAN_WARMUP_MAD\<^sup>2 / (2 + lam))
      in max r KALMAN_R_FLOOR)"

definition inflate_noise :: "real \<Rightarrow> real option \<Rightarrow> real" where
  "inflate_noise base q_data =
     (let quality = max (case q_data of None \<Rightarrow> 0 | Some q \<Rightarrow> q) Q_DATA_FLOOR in base / quality\<^sup>2)"

subsection \<open>The filter\<close>

record kalman_state =
  ks_post :: "(real \<times> real) option"
  ks_last_q :: real
  ks_noise :: noise_tracker

definition kalman_start :: kalman_state where
  "kalman_start = \<lparr> ks_post = None, ks_last_q = 0, ks_noise = fresh_tracker \<rparr>"

definition kalman_update :: "real \<Rightarrow> real \<Rightarrow> real \<Rightarrow> (real \<times> real) option \<Rightarrow> real \<times> real" where
  "kalman_update score R Q post =
     (case post of
        None \<Rightarrow> (score, R)
      | Some (m, P) \<Rightarrow>
          (let P_pred = P + Q; gain = P_pred / (P_pred + R)
           in (m + gain * (score - m), (1 - gain) * P_pred)))"

definition kalman_step :: "real \<Rightarrow> nat \<Rightarrow> nat \<Rightarrow> score_obs \<Rightarrow> kalman_state \<Rightarrow> kalman_state \<times> filtered" where
  "kalman_step lam r_window min_diffs ob st =
     (case fst ob of
        None \<Rightarrow>
          (let post = map_option (\<lambda>(m, P). (m, P + ks_last_q st)) (ks_post st)
           in (st\<lparr> ks_post := post, ks_noise := (ks_noise st)\<lparr> nt_prev := None \<rparr> \<rparr>,
               (map_option fst post, map_option snd post, None)))
      | Some score \<Rightarrow>
          (let noise = track_diff (ks_noise st) score;
               R = inflate_noise (noise_base lam r_window min_diffs (nt_diffs noise)) (snd ob);
               Q = lam * R;
               (m, P) = kalman_update score R Q (ks_post st)
           in (\<lparr> ks_post = Some (m, P), ks_last_q = Q, ks_noise = noise \<rparr>, (Some m, Some P, Some R))))"

fun run_steps :: "('o \<Rightarrow> 's \<Rightarrow> 's \<times> 'r) \<Rightarrow> 's \<Rightarrow> 'o list \<Rightarrow> 'r list" where
  "run_steps step st [] = []"
| "run_steps step st (ob # obs) = (let (st', out) = step ob st in out # run_steps step st' obs)"

definition kalman_filter_series :: "score_obs list \<Rightarrow> real \<Rightarrow> nat \<Rightarrow> nat \<Rightarrow> filtered list" where
  "kalman_filter_series observations lam r_window min_diffs =
     run_steps (kalman_step lam r_window min_diffs) kalman_start observations"

subsection \<open>Two sensors\<close>

record fused_state =
  fs_post :: "(real \<times> real) option"
  fs_last_q :: real
  fs_primary :: noise_tracker
  fs_auxiliary :: noise_tracker

definition fused_start :: fused_state where
  "fused_start = \<lparr> fs_post = None, fs_last_q = 0, fs_primary = fresh_tracker, fs_auxiliary = fresh_tracker \<rparr>"

definition auxiliary_noise ::
  "real \<Rightarrow> nat \<Rightarrow> nat \<Rightarrow> score_obs \<Rightarrow> noise_tracker \<Rightarrow> noise_tracker \<times> real option" where
  "auxiliary_noise lam r_window min_diffs aux t =
     (case fst aux of
        None \<Rightarrow> (t\<lparr> nt_prev := None \<rparr>, None)
      | Some x \<Rightarrow>
          (let t' = track_diff t x
           in (t', Some (inflate_noise (noise_base lam r_window min_diffs (nt_diffs t')) (snd aux)))))"

definition auxiliary_update :: "real option \<Rightarrow> real option \<Rightarrow> real \<times> real \<Rightarrow> real \<times> real" where
  "auxiliary_update score R post =
     (case (score, R) of
        (Some a, Some a_R) \<Rightarrow> (let (m, P) = post; gain = P / (P + a_R) in (m + gain * (a - m), (1 - gain) * P))
      | _ \<Rightarrow> post)"

definition fused_step ::
  "real \<Rightarrow> nat \<Rightarrow> nat \<Rightarrow> score_obs \<times> score_obs \<Rightarrow> fused_state \<Rightarrow> fused_state \<times> filtered" where
  "fused_step lam r_window min_diffs ob st =
     (let (primary, aux) = ob;
          (a_noise, a_R) = auxiliary_noise lam r_window min_diffs aux (fs_auxiliary st)
      in case fst primary of
           None \<Rightarrow>
             (let post = map_option (\<lambda>(m, P). (m, P + fs_last_q st)) (fs_post st)
              in (st\<lparr> fs_post := post, fs_primary := (fs_primary st)\<lparr> nt_prev := None \<rparr>, fs_auxiliary := a_noise \<rparr>,
                  (map_option fst post, map_option snd post, None)))
         | Some score \<Rightarrow>
             (let noise = track_diff (fs_primary st) score;
                  R = inflate_noise (noise_base lam r_window min_diffs (nt_diffs noise)) (snd primary);
                  Q = lam * R;
                  (m, P) = auxiliary_update (fst aux) a_R (kalman_update score R Q (fs_post st))
              in (\<lparr> fs_post = Some (m, P), fs_last_q = Q, fs_primary = noise, fs_auxiliary = a_noise \<rparr>,
                  (Some m, Some P, Some R))))"

definition kalman_fused_filter_series ::
  "score_obs list \<Rightarrow> score_obs list \<Rightarrow> real \<Rightarrow> nat \<Rightarrow> nat \<Rightarrow> py_error + filtered list" where
  "kalman_fused_filter_series primary auxiliary lam r_window min_diffs =
     (if length primary \<noteq> length auxiliary then Inl ValueError
      else Inr (run_steps (fused_step lam r_window min_diffs) fused_start (zip primary auxiliary)))"

subsection \<open>Posterior, publication and status\<close>

definition axis_sign_probability :: "(real \<Rightarrow> real) \<Rightarrow> real \<Rightarrow> real \<Rightarrow> real" where
  "axis_sign_probability cdf m P = (if P \<le> 0 then (if m > 0 then 1 else 0) else cdf (m / sqrt P))"

definition sign_pairs :: "(int \<times> int) list" where
  "sign_pairs = [(1, 1), (1, -1), (-1, 1), (-1, -1)]"

text \<open>With both signs given \<open>quadrant_from_signs\<close> is the lookup in its table.\<close>

definition quadrant_posterior :: "real \<Rightarrow> real \<Rightarrow> py_error + (string, real) dict" where
  "quadrant_posterior p_growth_pos p_inflation_pos =
     mapE (\<lambda>(g_sign, i_sign).
       case dict_get quadrant_by_signs (g_sign, i_sign) of
         None \<Rightarrow> Inl KeyError
       | Some q \<Rightarrow> Inr (q, (if g_sign = 1 then p_growth_pos else 1 - p_growth_pos) *
                          (if i_sign = 1 then p_inflation_pos else 1 - p_inflation_pos)))
       sign_pairs"

text \<open>\<open>max(posterior, key=posterior.get)\<close>: the first key with the greatest value.\<close>

fun argmax_from :: "string \<times> real \<Rightarrow> (string, real) dict \<Rightarrow> string \<times> real" where
  "argmax_from best [] = best"
| "argmax_from best (kv # kvs) = argmax_from (if snd best < snd kv then kv else best) kvs"

definition publish_decision ::
  "(string, real) dict \<Rightarrow> string option \<Rightarrow> real \<Rightarrow> real \<Rightarrow> py_error + bool \<times> string option \<times> string \<times> real" where
  "publish_decision posterior prev_published_quadrant tau delta =
     (case posterior of
        [] \<Rightarrow> Inl ValueError
      | kv # kvs \<Rightarrow>
          (let (candidate, max_p) = argmax_from kv kvs
           in if max_p < tau then Inr (False, None, candidate, max_p)
              else Inr (True,
                (case prev_published_quadrant of
                   None \<Rightarrow> Some candidate
                 | Some prev \<Rightarrow>
                     if candidate \<noteq> prev \<and> dict_get_default posterior prev 0 \<ge> max_p - delta
                     then Some prev else Some candidate),
                candidate, max_p)))"

definition resolve_status_v2 :: "bool \<Rightarrow> real \<Rightarrow> bool \<Rightarrow> real \<Rightarrow> bool \<Rightarrow> real option \<Rightarrow> string" where
  "resolve_status_v2 structural_failure coverage critical_source_expired health
     filter_available max_quadrant_posterior =
     (if structural_failure then ''invalid''
      else if coverage < MIN_INPUT_COVERAGE then ''unavailable''
      else if critical_source_expired then ''stale''
      else if health < MIN_SOURCE_HEALTH then ''low_confidence''
      else if \<not> filter_available then ''low_confidence''
      else if (case max_quadrant_posterior of None \<Rightarrow> True | Some p \<Rightarrow> p < TAU_PUBLISH) then ''low_confidence''
      else ''valid'')"

subsection \<open>The posterior of the filter\<close>

lemma length_run_steps [simp]: "length (run_steps step st obs) = length obs"
  by (induction obs arbitrary: st) (auto simp: case_prod_beta)

lemma run_steps_take: "run_steps step st (take n obs) = take n (run_steps step st obs)"
  by (induction obs arbitrary: st n) (auto simp: case_prod_beta take_Cons split: nat.split)

text \<open>Two runs side by side keep a relation of their states, and every pair of results satisfies what a step gives.\<close>

lemma run_steps_rel:
  assumes "R st1 st2" "length obs1 = length obs2"
    and "\<And>i s1 s2. i < length obs1 \<Longrightarrow> R s1 s2 \<Longrightarrow>
      R (fst (step1 (obs1 ! i) s1)) (fst (step2 (obs2 ! i) s2)) \<and> S i (snd (step1 (obs1 ! i) s1)) (snd (step2 (obs2 ! i) s2))"
    and "i < length obs1"
  shows "S i (run_steps step1 st1 obs1 ! i) (run_steps step2 st2 obs2 ! i)"
  using assms
proof (induction obs1 arbitrary: st1 st2 obs2 i S)
  case (Cons ob1 obs1)
  obtain ob2 obs2' where o2: "obs2 = ob2 # obs2'" using Cons.prems(2) by (cases obs2) auto
  have now: "R (fst (step1 ob1 st1)) (fst (step2 ob2 st2))" "S 0 (snd (step1 ob1 st1)) (snd (step2 ob2 st2))"
    using Cons.prems(3) [of 0 st1 st2] Cons.prems(1) by (simp_all add: o2)
  show ?case
  proof (cases i)
    case 0
    then show ?thesis using now(2) by (simp add: o2 case_prod_beta)
  next
    case (Suc k)
    have "S (Suc k) (run_steps step1 (fst (step1 ob1 st1)) obs1 ! k) (run_steps step2 (fst (step2 ob2 st2)) obs2' ! k)"
      by (rule Cons.IH [where S = "\<lambda>i. S (Suc i)"])
        (use now(1) Cons.prems(2,4) Cons.prems(3) [of "Suc _"] Suc in \<open>auto simp: o2\<close>)
    then show ?thesis by (simp add: Suc o2 case_prod_beta)
  qed
qed simp

lemma inflate_noise_pos: "0 < base \<Longrightarrow> 0 < inflate_noise base q"
  by (simp add: inflate_noise_def Let_def Q_DATA_FLOOR_def max_def split: option.split)

lemma noise_base_pos: "0 < noise_base lam w k ds"
  by (simp add: noise_base_def Let_def KALMAN_R_FLOOR_def less_max_iff_disj)

lemma noise_pos [simp]: "0 < inflate_noise (noise_base lam w k ds) q"
  by (rule inflate_noise_pos [OF noise_base_pos])

lemma kalman_gain:
  fixes P R :: real
  assumes "0 < P" "0 < R"
  shows "0 \<le> P / (P + R)" "P / (P + R) < 1" "0 < (1 - P / (P + R)) * P" "(1 - P / (P + R)) * P \<le> R" "(1 - P / (P + R)) * P \<le> P"
    and "(1 - P / (P + R)) * P = P * R / (P + R)"
proof -
  have s: "0 < P + R" using assms by simp
  show "0 \<le> P / (P + R)" "P / (P + R) < 1" using assms by (simp_all add: divide_less_eq)
  show e: "(1 - P / (P + R)) * P = P * R / (P + R)" using s by (simp add: field_simps)
  show "0 < (1 - P / (P + R)) * P" unfolding e using assms by simp
  show "(1 - P / (P + R)) * P \<le> R" unfolding e using assms by (simp add: field_simps)
  show "(1 - P / (P + R)) * P \<le> P" unfolding e using assms by (simp add: field_simps)
qed

lemma kalman_update_facts:
  assumes "0 < R" "0 \<le> Q" "\<And>m P. post = Some (m, P) \<Longrightarrow> 0 < P"
  shows "0 < snd (kalman_update y R Q post)" "snd (kalman_update y R Q post) \<le> R"
    and "lo \<le> y \<Longrightarrow> (\<And>m P. post = Some (m, P) \<Longrightarrow> lo \<le> m) \<Longrightarrow> lo \<le> fst (kalman_update y R Q post)"
    and "y \<le> hi \<Longrightarrow> (\<And>m P. post = Some (m, P) \<Longrightarrow> m \<le> hi) \<Longrightarrow> fst (kalman_update y R Q post) \<le> hi"
proof -
  have "0 < snd (kalman_update y R Q post) \<and> snd (kalman_update y R Q post) \<le> R \<and>
    (lo \<le> y \<and> (\<forall>m P. post = Some (m, P) \<longrightarrow> lo \<le> m) \<longrightarrow> lo \<le> fst (kalman_update y R Q post)) \<and>
    (y \<le> hi \<and> (\<forall>m P. post = Some (m, P) \<longrightarrow> m \<le> hi) \<longrightarrow> fst (kalman_update y R Q post) \<le> hi)"
  proof (cases post)
    case None
    then show ?thesis using assms(1) by (simp add: kalman_update_def)
  next
    case (Some mp)
    obtain m P where mp: "mp = (m, P)" by fastforce
    have P: "0 < P + Q" using assms(2,3) Some mp by (simp add: add_pos_nonneg)
    define g where "g = (P + Q) / (P + Q + R)"
    note k = kalman_gain [OF P assms(1), folded g_def]
    have u: "kalman_update y R Q post = (m + g * (y - m), (1 - g) * (P + Q))"
      by (simp add: kalman_update_def Some mp g_def Let_def)
    have mean: "m + g * (y - m) = (1 - g) * m + g * y" by (simp add: algebra_simps)
    have "lo \<le> (1 - g) * m + g * y" if "lo \<le> m" "lo \<le> y"
      using convex_bound_le [of "- m" "- lo" "- y" "1 - g" g] that k(1,2) by simp
    moreover have "(1 - g) * m + g * y \<le> hi" if "m \<le> hi" "y \<le> hi"
      using convex_bound_le [of m hi y "1 - g" g] that k(1,2) by simp
    ultimately show ?thesis using k(3,4) u mean Some mp by simp
  qed
  then show "0 < snd (kalman_update y R Q post)" "snd (kalman_update y R Q post) \<le> R"
    "lo \<le> y \<Longrightarrow> (\<And>m P. post = Some (m, P) \<Longrightarrow> lo \<le> m) \<Longrightarrow> lo \<le> fst (kalman_update y R Q post)"
    "y \<le> hi \<Longrightarrow> (\<And>m P. post = Some (m, P) \<Longrightarrow> m \<le> hi) \<Longrightarrow> fst (kalman_update y R Q post) \<le> hi"
    by blast+
qed

subsection \<open>One sensor\<close>

definition state_after :: "('o \<Rightarrow> 's \<Rightarrow> 's \<times> 'r) \<Rightarrow> 's \<Rightarrow> 'o list \<Rightarrow> 's" where
  "state_after step st obs = fold (\<lambda>ob s. fst (step ob s)) obs st"

lemma run_steps_nth:
  "t < length obs \<Longrightarrow> run_steps step st obs ! t = snd (step (obs ! t) (state_after step st (take t obs)))"
proof (induction obs arbitrary: st t)
  case (Cons ob obs)
  then show ?case by (cases t) (auto simp: state_after_def case_prod_beta)
qed simp

lemma state_after_Suc:
  "t < length obs \<Longrightarrow> state_after step st (take (Suc t) obs) = fst (step (obs ! t) (state_after step st (take t obs)))"
  by (simp add: state_after_def take_Suc_conv_app_nth)

lemma state_after_invariant:
  assumes "I st" "\<And>ob s. ob \<in> set obs \<Longrightarrow> I s \<Longrightarrow> I (fst (step ob s))"
  shows "I (state_after step st obs)"
  using assms unfolding state_after_def by (induction obs arbitrary: st) auto

text \<open>The states the filter reaches from scores between two bounds.\<close>

definition kalman_ok :: "real \<Rightarrow> real \<Rightarrow> kalman_state \<Rightarrow> bool" where
  "kalman_ok lo hi st \<longleftrightarrow> 0 \<le> ks_last_q st \<and> (\<forall>m P. ks_post st = Some (m, P) \<longrightarrow> 0 < P \<and> lo \<le> m \<and> m \<le> hi)"

lemma kalman_step_ok:
  assumes "0 \<le> lam" "kalman_ok lo hi st" "\<And>y. fst ob = Some y \<Longrightarrow> lo \<le> y \<and> y \<le> hi"
  shows "kalman_ok lo hi (fst (kalman_step lam w k ob st))"
proof (cases "fst ob")
  case None
  then show ?thesis using assms(2) by (auto simp: kalman_step_def kalman_ok_def Let_def add_pos_nonneg)
next
  case (Some y)
  let ?R = "inflate_noise (noise_base lam w k (nt_diffs (track_diff (ks_noise st) y))) (snd ob)"
  obtain m P where u: "kalman_update y ?R (lam * ?R) (ks_post st) = (m, P)" by fastforce
  have q: "0 \<le> lam * ?R" using assms(1) by (simp add: less_imp_le)
  have pos: "0 < P" if "ks_post st = Some (m, P)" for m P using assms(2) that by (simp add: kalman_ok_def)
  note f = kalman_update_facts [where R = ?R and Q = "lam * ?R" and post = "ks_post st" and y = y, OF noise_pos q pos, unfolded u fst_conv snd_conv]
  have "lo \<le> m" by (rule f(3)) (use assms(2) assms(3) [OF Some] in \<open>auto simp: kalman_ok_def\<close>)
  moreover have "m \<le> hi" by (rule f(4)) (use assms(2) assms(3) [OF Some] in \<open>auto simp: kalman_ok_def\<close>)
  ultimately show ?thesis using f(1) q by (simp add: kalman_step_def Some Let_def u kalman_ok_def)
qed

lemma kalman_state_ok:
  assumes "0 \<le> lam" "\<forall>ob \<in> set obs. \<forall>y. fst ob = Some y \<longrightarrow> lo \<le> y \<and> y \<le> hi"
  shows "kalman_ok lo hi (state_after (kalman_step lam w k) kalman_start obs)"
  by (rule state_after_invariant) (use assms kalman_step_ok in \<open>auto simp: kalman_start_def kalman_ok_def [of _ _ "\<lparr> ks_post = None, ks_last_q = 0, ks_noise = fresh_tracker \<rparr>"]\<close>)

lemma kalman_started:
  "ks_post (state_after (kalman_step lam w k) kalman_start obs) = None \<longleftrightarrow> (\<forall>ob \<in> set obs. fst ob = None)"
proof (induction obs rule: rev_induct)
  case (snoc ob obs)
  have "state_after (kalman_step lam w k) kalman_start (obs @ [ob]) = fst (kalman_step lam w k ob (state_after (kalman_step lam w k) kalman_start obs))"
    by (simp add: state_after_def)
  then show ?case using snoc by (cases "fst ob") (auto simp: kalman_step_def [of _ _ _ ob] Let_def case_prod_beta)
qed (simp add: state_after_def kalman_start_def)

lemma kalman_step_out:
  "snd (kalman_step lam w k ob st) = (map_option fst (ks_post (fst (kalman_step lam w k ob st))),
     map_option snd (ks_post (fst (kalman_step lam w k ob st))),
     map_option (\<lambda>y. inflate_noise (noise_base lam w k (nt_diffs (track_diff (ks_noise st) y))) (snd ob)) (fst ob))"
  by (simp add: kalman_step_def Let_def case_prod_beta split: option.split)

lemma kalman_variance_le_noise:
  assumes "0 \<le> lam" "kalman_ok lo hi st" "fst ob = Some y"
  shows "\<exists>m P R. snd (kalman_step lam w k ob st) = (Some m, Some P, Some R) \<and> P \<le> R"
proof -
  let ?R = "inflate_noise (noise_base lam w k (nt_diffs (track_diff (ks_noise st) y))) (snd ob)"
  obtain m P where u: "kalman_update y ?R (lam * ?R) (ks_post st) = (m, P)" by fastforce
  have q: "0 \<le> lam * ?R" using assms(1) by (simp add: less_imp_le)
  have pos: "0 < P" if "ks_post st = Some (m, P)" for m P using assms(2) that by (simp add: kalman_ok_def)
  have "P \<le> ?R" using kalman_update_facts(2) [where R = ?R and Q = "lam * ?R" and post = "ks_post st" and y = y, OF noise_pos q pos] by (simp only: u snd_conv)
  then show ?thesis by (simp add: kalman_step_def assms(3) Let_def u)
qed

lemma kalman_filter_month:
  assumes "0 \<le> lam" "t < length obs" "\<forall>ob \<in> set (take (Suc t) obs). \<forall>y. fst ob = Some y \<longrightarrow> lo \<le> y \<and> y \<le> hi"
  shows "(case kalman_filter_series obs lam w k ! t of
     (Some m, Some P, R) \<Rightarrow> lo \<le> m \<and> m \<le> hi \<and> 0 < P \<and> (\<exists>ob \<in> set (take (Suc t) obs). fst ob \<noteq> None) \<and>
       (case fst (obs ! t) of None \<Rightarrow> R = None | Some y \<Rightarrow> (\<exists>r. R = Some r \<and> P \<le> r))
   | (m, P, R) \<Rightarrow> m = None \<and> P = None \<and> R = None \<and> (\<forall>ob \<in> set (take (Suc t) obs). fst ob = None)) \<and>
   kalman_filter_series (take (Suc t) obs) lam w k ! t = kalman_filter_series obs lam w k ! t"
proof -
  let ?step = "kalman_step lam w k" and ?st = "state_after (kalman_step lam w k) kalman_start (take t obs)"
  let ?st' = "state_after (kalman_step lam w k) kalman_start (take (Suc t) obs)"
  have st': "fst (?step (obs ! t) ?st) = ?st'" by (simp add: state_after_Suc [OF assms(2)])
  have "set (take t obs) \<subseteq> set (take (Suc t) obs)" by (rule set_take_subset_set_take) simp
  then have ok: "kalman_ok lo hi ?st" using assms(3) by (intro kalman_state_ok [OF assms(1)]) blast
  have ok': "kalman_ok lo hi ?st'" by (rule kalman_state_ok [OF assms(1,3)])
  have out: "kalman_filter_series obs lam w k ! t = snd (?step (obs ! t) ?st)"
    by (simp add: kalman_filter_series_def run_steps_nth [OF assms(2)])
  have causal: "kalman_filter_series (take (Suc t) obs) lam w k ! t = kalman_filter_series obs lam w k ! t"
    by (simp add: kalman_filter_series_def run_steps_take)
  note o = kalman_step_out [of lam w k "obs ! t" ?st, unfolded st']
  show ?thesis
  proof (cases "ks_post ?st'")
    case None
    then have none: "\<forall>ob \<in> set (take (Suc t) obs). fst ob = None" by (simp only: kalman_started)
    moreover have "obs ! t \<in> set (take (Suc t) obs)" using assms(2) by (simp add: take_Suc_conv_app_nth)
    ultimately show ?thesis using causal None by (simp add: out o)
  next
    case (Some mp)
    obtain m P where mp: "mp = (m, P)" by fastforce
    have "\<not> (\<forall>ob \<in> set (take (Suc t) obs). fst ob = None)" using Some kalman_started [of lam w k "take (Suc t) obs"] by simp
    moreover have "0 < P" "lo \<le> m" "m \<le> hi" using ok' Some mp by (auto simp: kalman_ok_def)
    moreover have "\<exists>r. inflate_noise (noise_base lam w k (nt_diffs (track_diff (ks_noise ?st) y))) (snd (obs ! t)) = r \<and> P \<le> r"
      if "fst (obs ! t) = Some y" for y
      using kalman_variance_le_noise [OF assms(1) ok that, of w k] that by (simp add: o Some mp)
    ultimately show ?thesis using causal Some mp by (cases "fst (obs ! t)") (auto simp: out o)
  qed
qed

text \<open>
  C40: the filter of an axis. At every month, from the first score on and not before, it has a mean
  and a positive variance; the mean lies between the bounds of the scores seen by then; in a month
  with a score the variance is at most the measurement noise of that month, and a month without
  one reports no noise. Nothing after the month enters.
\<close>

theorem kalman_filter_bounds:
  assumes "0 \<le> lam" "t < length obs" "\<forall>ob \<in> set (take (Suc t) obs). \<forall>y. fst ob = Some y \<longrightarrow> lo \<le> y \<and> y \<le> hi"
  shows "(case kalman_filter_series obs lam w k ! t of
     (Some m, Some P, R) \<Rightarrow> lo \<le> m \<and> m \<le> hi \<and> 0 < P \<and> (\<exists>ob \<in> set (take (Suc t) obs). fst ob \<noteq> None) \<and>
       (case fst (obs ! t) of None \<Rightarrow> R = None | Some y \<Rightarrow> (\<exists>r. R = Some r \<and> P \<le> r))
   | (m, P, R) \<Rightarrow> m = None \<and> P = None \<and> R = None \<and> (\<forall>ob \<in> set (take (Suc t) obs). fst ob = None)) \<and>
   kalman_filter_series (take (Suc t) obs) lam w k ! t = kalman_filter_series obs lam w k ! t"
  using assms by (rule kalman_filter_month)

subsection \<open>Two sensors against one\<close>

definition sharper :: "(real \<times> real) option \<Rightarrow> (real \<times> real) option \<Rightarrow> bool" where
  "sharper single fused \<longleftrightarrow>
     (case (single, fused) of
        (None, None) \<Rightarrow> True
      | (Some (m1, P1), Some (m, P)) \<Rightarrow> 0 < P \<and> P \<le> P1
      | _ \<Rightarrow> False)"

definition fused_rel :: "kalman_state \<Rightarrow> fused_state \<Rightarrow> bool" where
  "fused_rel s1 s2 \<longleftrightarrow> ks_noise s1 = fs_primary s2 \<and> ks_last_q s1 = fs_last_q s2 \<and> 0 \<le> fs_last_q s2 \<and>
     sharper (ks_post s1) (fs_post s2)"

lemma variance_mono:
  fixes P P1 R :: real
  assumes "0 < P" "P \<le> P1" "0 < R"
  shows "(1 - P / (P + R)) * P \<le> (1 - P1 / (P1 + R)) * P1"
proof -
  have "P * R / (P + R) \<le> P1 * R / (P1 + R)"
    using assms by (simp add: frac_le_eq divide_le_0_iff) (simp add: algebra_simps mult_left_mono)
  then show ?thesis using kalman_gain(6) [of P R] kalman_gain(6) [of P1 R] assms by simp
qed

lemma update_sharper:
  assumes "sharper p1 p2" "0 < R" "0 \<le> Q" "kalman_update y R Q p1 = (m1, P1)" "kalman_update y R Q p2 = (m, P)"
  shows "0 < P" "P \<le> P1"
proof -
  have "0 < P \<and> P \<le> P1"
  proof (cases p2)
    case None
    then show ?thesis using assms by (auto simp: sharper_def kalman_update_def split: option.splits)
  next
    case (Some mp)
    obtain m0 P0 m1' P1' where e: "p2 = Some (m0, P0)" "p1 = Some (m1', P1')" "0 < P0" "P0 \<le> P1'"
      using assms(1) Some by (cases mp) (auto simp: sharper_def split: option.splits)
    have P0: "0 < P0 + Q" "P0 + Q \<le> P1' + Q" using e assms(3) by simp_all
    have "P = (1 - (P0 + Q) / (P0 + Q + R)) * (P0 + Q)" "P1 = (1 - (P1' + Q) / (P1' + Q + R)) * (P1' + Q)"
      using assms(4,5) by (auto simp: e(1,2) kalman_update_def Let_def)
    then show ?thesis using variance_mono [OF P0 assms(2)] kalman_gain(3) [OF P0(1) assms(2)] by simp
  qed
  then show "0 < P" "P \<le> P1" by simp_all
qed

lemma auxiliary_update_variance:
  assumes "0 < P" "\<And>r. R = Some r \<Longrightarrow> 0 < r" "auxiliary_update a R (m, P) = (m', P')"
  shows "0 < P'" "P' \<le> P"
  using assms kalman_gain(3,5) [OF assms(1) assms(2)]
  by (auto simp: auxiliary_update_def Let_def split: option.splits)

lemma auxiliary_noise_pos: "snd (auxiliary_noise lam w k aux t) = Some r \<Longrightarrow> 0 < r"
  by (auto simp: auxiliary_noise_def Let_def split: option.splits)

definition sharper_out :: "filtered \<Rightarrow> filtered \<Rightarrow> bool" where
  "sharper_out single fused \<longleftrightarrow> snd (snd single) = snd (snd fused) \<and>
     (case (single, fused) of
        ((None, None, _), (None, None, _)) \<Rightarrow> True
      | ((Some m1, Some P1, _), (Some m, Some P, _)) \<Rightarrow> 0 < P \<and> P \<le> P1
      | _ \<Rightarrow> False)"

lemma fused_step_rel:
  assumes "0 \<le> lam" "fused_rel s1 s2"
  shows "fused_rel (fst (kalman_step lam w k (fst ob) s1)) (fst (fused_step lam w k ob s2))"
    and "sharper_out (snd (kalman_step lam w k (fst ob) s1)) (snd (fused_step lam w k ob s2))"
proof -
  obtain primary aux where ob: "ob = (primary, aux)" by (cases ob)
  obtain a_noise a_R where a: "auxiliary_noise lam w k aux (fs_auxiliary s2) = (a_noise, a_R)" by fastforce
  note r = assms(2) [unfolded fused_rel_def]
  have "fused_rel (fst (kalman_step lam w k primary s1)) (fst (fused_step lam w k ob s2)) \<and>
    sharper_out (snd (kalman_step lam w k primary s1)) (snd (fused_step lam w k ob s2))"
  proof (cases "fst primary")
    case None
    then show ?thesis
      using r by (cases "ks_post s1"; cases "fs_post s2")
        (auto simp: ob a fused_step_def kalman_step_def Let_def fused_rel_def sharper_def sharper_out_def)
  next
    case (Some y)
    let ?R = "inflate_noise (noise_base lam w k (nt_diffs (track_diff (fs_primary s2) y))) (snd primary)"
    have q: "0 \<le> lam * ?R" using assms(1) by (simp add: less_imp_le)
    obtain m1 P1 where u1: "kalman_update y ?R (lam * ?R) (ks_post s1) = (m1, P1)" by fastforce
    obtain m0 P0 where u2: "kalman_update y ?R (lam * ?R) (fs_post s2) = (m0, P0)" by fastforce
    have P0: "0 < P0" "P0 \<le> P1" using update_sharper [OF _ noise_pos q u1 u2] r by blast+
    obtain m P where u: "auxiliary_update (fst aux) a_R (m0, P0) = (m, P)" by fastforce
    have a_pos: "0 < r" if "a_R = Some r" for r using auxiliary_noise_pos [of lam w k aux "fs_auxiliary s2" r] that by (simp add: a)
    have "0 < P" "P \<le> P0" using auxiliary_update_variance [OF P0(1) a_pos u] by simp_all
    then show ?thesis using P0 r u u1 u2 q Some
      by (simp add: ob a fused_step_def kalman_step_def Let_def fused_rel_def sharper_def sharper_out_def)
  qed
  then show "fused_rel (fst (kalman_step lam w k (fst ob) s1)) (fst (fused_step lam w k ob s2))"
    "sharper_out (snd (kalman_step lam w k (fst ob) s1)) (snd (fused_step lam w k ob s2))" by (simp_all add: ob)
qed

lemma fused_start_rel: "fused_rel kalman_start fused_start"
  by (simp add: fused_rel_def kalman_start_def fused_start_def sharper_def)

lemma fused_step_silent:
  assumes "fst (snd ob) = None" "ks_noise s1 = fs_primary s2" "ks_last_q s1 = fs_last_q s2" "ks_post s1 = fs_post s2"
  shows "snd (fused_step lam w k ob s2) = snd (kalman_step lam w k (fst ob) s1)"
    and "ks_noise (fst (kalman_step lam w k (fst ob) s1)) = fs_primary (fst (fused_step lam w k ob s2))"
    and "ks_last_q (fst (kalman_step lam w k (fst ob) s1)) = fs_last_q (fst (fused_step lam w k ob s2))"
    and "ks_post (fst (kalman_step lam w k (fst ob) s1)) = fs_post (fst (fused_step lam w k ob s2))"
  using assms
  by (cases ob; auto simp: fused_step_def kalman_step_def auxiliary_noise_def auxiliary_update_def Let_def
      split: option.split prod.split)+

lemma fused_silent:
  "\<forall>ob \<in> set obs. fst (snd ob) = None \<Longrightarrow> ks_noise s1 = fs_primary s2 \<Longrightarrow> ks_last_q s1 = fs_last_q s2 \<Longrightarrow>
   ks_post s1 = fs_post s2 \<Longrightarrow> run_steps (fused_step lam w k) s2 obs = run_steps (kalman_step lam w k) s1 (map fst obs)"
proof (induction obs arbitrary: s1 s2)
  case (Cons ob obs)
  note f = fused_step_silent [OF _ Cons.prems(2-4), of ob lam w k]
  have "run_steps (fused_step lam w k) (fst (fused_step lam w k ob s2)) obs
      = run_steps (kalman_step lam w k) (fst (kalman_step lam w k (fst ob) s1)) (map fst obs)"
    by (rule Cons.IH) (use Cons.prems(1) f in auto)
  then show ?case using f(1) Cons.prems(1) by (simp add: case_prod_beta)
qed simp

lemma fused_step_missing:
  assumes "fst (fst ob) = None"
  shows "fst (snd (fused_step lam w k ob st)) = map_option fst (fs_post st)"
  using assms by (simp add: fused_step_def Let_def case_prod_beta option.map_comp o_def)

lemma fused_step_out: "fst (snd (fused_step lam w k ob st)) = map_option fst (fs_post (fst (fused_step lam w k ob st)))"
  by (simp add: fused_step_def Let_def case_prod_beta split: option.split)

text \<open>
  C39: the market sensor beside the macro releases of an axis. Month by month the fused filter has a
  state exactly when the filter of the releases alone has one, reports the same measurement noise,
  and its variance is never larger: the market only sharpens. A month without a release keeps the
  mean of the month before, whatever the market printed: it never substitutes. A market series that
  never prints leaves the single-sensor result, and series that do not align are refused.
\<close>

theorem fused_sharpens_never_substitutes:
  assumes "0 \<le> lam"
  shows "(case kalman_fused_filter_series primary auxiliary lam w k of
     Inl e \<Rightarrow> e = ValueError \<and> length primary \<noteq> length auxiliary
   | Inr fused \<Rightarrow> length fused = length primary \<and> length primary = length auxiliary \<and>
       (\<forall>t < length primary. sharper_out (kalman_filter_series primary lam w k ! t) (fused ! t) \<and>
          (fst (primary ! t) = None \<longrightarrow> fst (fused ! t) = (if t = 0 then None else fst (fused ! (t - 1))))) \<and>
       ((\<forall>a \<in> set auxiliary. fst a = None) \<longrightarrow> fused = kalman_filter_series primary lam w k))"
proof (cases "length primary = length auxiliary")
  case True
  let ?obs = "zip primary auxiliary" and ?step = "fused_step lam w k"
  have step: "fused_rel (fst (kalman_step lam w k (primary ! i) s1)) (fst (?step (?obs ! i) s2)) \<and>
      sharper_out (snd (kalman_step lam w k (primary ! i) s1)) (snd (?step (?obs ! i) s2))"
    if "i < length primary" "fused_rel s1 s2" for i s1 s2
    using fused_step_rel [OF assms that(2), of w k "?obs ! i"] that(1) True by simp
  have sharp: "sharper_out (run_steps (kalman_step lam w k) kalman_start primary ! t) (run_steps ?step fused_start ?obs ! t)"
    if "t < length primary" for t
    by (rule run_steps_rel [where R = fused_rel and S = "\<lambda>_. sharper_out"])
      (use fused_start_rel True that step in simp_all)
  have keep: "fst (run_steps ?step fused_start ?obs ! t) = (if t = 0 then None else fst (run_steps ?step fused_start ?obs ! (t - 1)))"
    if t: "t < length primary" "fst (primary ! t) = None" for t
  proof -
    have ob: "fst (fst (?obs ! t)) = None" using t True by simp
    show ?thesis
    proof (cases t)
      case 0
      then show ?thesis using fused_step_missing [OF ob, of lam w k fused_start] t True
        by (simp add: run_steps_nth state_after_def fused_start_def)
    next
      case (Suc n)
      have n: "n < length ?obs" "t < length ?obs" using Suc t True by simp_all
      show ?thesis
        using fused_step_missing [OF ob, of lam w k "state_after ?step fused_start (take t ?obs)"]
          fused_step_out [of lam w k "?obs ! n" "state_after ?step fused_start (take n ?obs)"]
          run_steps_nth [OF n(2), of ?step fused_start] run_steps_nth [OF n(1), of ?step fused_start]
        by (simp add: state_after_Suc [OF n(1)] Suc)
    qed
  qed
  have silent: "run_steps ?step fused_start ?obs = run_steps (kalman_step lam w k) kalman_start primary"
    if "\<forall>a \<in> set auxiliary. fst a = None"
  proof -
    have "run_steps ?step fused_start ?obs = run_steps (kalman_step lam w k) kalman_start (map fst ?obs)"
      by (rule fused_silent) (use that in \<open>fastforce simp: kalman_start_def fused_start_def dest: set_zip_rightD\<close>)+
    then show ?thesis using True by simp
  qed
  show ?thesis
    using True sharp keep silent by (simp add: kalman_fused_filter_series_def kalman_filter_series_def)
qed (simp add: kalman_fused_filter_series_def)

subsection \<open>The publish rule\<close>

lemma argmax_from_mem: "argmax_from best kvs \<in> set (best # kvs)"
  by (induction kvs arbitrary: best) (auto split: if_splits)

lemma argmax_from_ge: "kv \<in> set (best # kvs) \<Longrightarrow> snd kv \<le> snd (argmax_from best kvs)"
proof (induction kvs arbitrary: best kv)
  case (Cons kv' kvs)
  let ?b = "if snd best < snd kv' then kv' else best"
  have "snd ?b \<le> snd (argmax_from ?b kvs)" by (rule Cons.IH) simp
  then show ?case using Cons.prems Cons.IH [of kv ?b] by (auto split: if_splits)
qed simp

text \<open>The posterior of two sign probabilities: four masses that sum to one.\<close>

lemma quadrant_posterior_eq:
  "quadrant_posterior pg pf = Inr [(''expansion'', pg * pf), (''recovery'', pg * (1 - pf)),
     (''slowdown'', (1 - pg) * pf), (''contraction'', (1 - pg) * (1 - pf))]"
  by (simp add: quadrant_posterior_def sign_pairs_def quadrant_by_signs_def)

abbreviation posterior_mass :: "(string, real) dict \<Rightarrow> string \<Rightarrow> real" where
  "posterior_mass post q \<equiv> dict_get_default post q 0"

lemma posterior_masses:
  assumes "quadrant_posterior pg pf = Inr post" "0 \<le> pg" "pg \<le> 1" "0 \<le> pf" "pf \<le> 1"
  shows "q \<noteq> q' \<Longrightarrow> posterior_mass post q + posterior_mass post q' \<le> 1"
    and "kv \<in> set post \<Longrightarrow> posterior_mass post (fst kv) = snd kv"
    and "kv \<in> set post \<Longrightarrow> snd kv \<le> max pg (1 - pg) * max pf (1 - pf)"
    and "\<exists>q. quadrant_from_signs (Some (if pg > 1 / 2 then 1 else - 1)) (Some (if pf > 1 / 2 then 1 else - 1)) = Inr (Some q) \<and>
      (q, max pg (1 - pg) * max pf (1 - pf)) \<in> set post"
proof -
  define e1 e2 e3 e4 where e: "e1 = pg * pf" "e2 = pg * (1 - pf)" "e3 = (1 - pg) * pf" "e4 = (1 - pg) * (1 - pf)"
  have nonneg: "0 \<le> e1" "0 \<le> e2" "0 \<le> e3" "0 \<le> e4" using assms(2-5) by (simp_all add: e)
  have one: "e1 + e2 + e3 + e4 = 1" by (simp add: e algebra_simps)
  have post: "post = [(''expansion'', e1), (''recovery'', e2), (''slowdown'', e3), (''contraction'', e4)]"
    using assms(1) by (simp add: quadrant_posterior_eq e)
  show "posterior_mass post q + posterior_mass post q' \<le> 1" if "q \<noteq> q'"
    using that nonneg one by (auto simp: post dict_get_default_def)
  show "posterior_mass post (fst kv) = snd kv" if "kv \<in> set post"
    using that by (auto simp: post dict_get_default_def)
  show "snd kv \<le> max pg (1 - pg) * max pf (1 - pf)" if "kv \<in> set post"
  proof -
    have "snd kv \<in> {e1, e2, e3, e4}" using that by (auto simp: post)
    then show ?thesis using assms(2-5) by (auto simp: e intro!: mult_mono)
  qed
  show "\<exists>q. quadrant_from_signs (Some (if pg > 1 / 2 then 1 else - 1)) (Some (if pf > 1 / 2 then 1 else - 1)) = Inr (Some q) \<and>
      (q, max pg (1 - pg) * max pf (1 - pf)) \<in> set post"
    by (cases "pg > 1 / 2"; cases "pf > 1 / 2")
      (simp_all add: post e quadrant_from_signs_def quadrant_by_signs_def max_def)
qed

lemma publish_decision_posterior:
  assumes "quadrant_posterior pg pf = Inr post" "0 \<le> pg" "pg \<le> 1" "0 \<le> pf" "pf \<le> 1"
  obtains cand where "cand \<in> set QUADRANTS"
    "publish_decision post prev TAU_PUBLISH DELTA_STICKY =
      (let M = max pg (1 - pg) * max pf (1 - pf)
       in Inr (TAU_PUBLISH \<le> M, if TAU_PUBLISH \<le> M then Some cand else None, cand, M))"
    "TAU_PUBLISH \<le> max pg (1 - pg) * max pf (1 - pf) \<Longrightarrow>
      quadrant_from_signs (Some (if pg > 1 / 2 then 1 else - 1)) (Some (if pf > 1 / 2 then 1 else - 1)) = Inr (Some cand)"
proof -
  note p = posterior_masses [OF assms]
  define M where "M = max pg (1 - pg) * max pf (1 - pf)"
  obtain kv kvs where post: "post = kv # kvs" using assms(1) by (auto simp: quadrant_posterior_eq)
  obtain cand max_p where am: "argmax_from kv kvs = (cand, max_p)" by fastforce
  have mem: "(cand, max_p) \<in> set post" using argmax_from_mem [of kv kvs] by (simp add: am post)
  obtain q where q: "quadrant_from_signs (Some (if pg > 1 / 2 then 1 else - 1)) (Some (if pf > 1 / 2 then 1 else - 1)) = Inr (Some q)"
    "(q, M) \<in> set post" using p(4) unfolding M_def by blast
  have "max_p \<le> M" using p(3) [OF mem] by (simp add: M_def)
  moreover have "M \<le> max_p" using argmax_from_ge [of "(q, M)" kv kvs] q(2) by (simp add: am post)
  ultimately have M: "max_p = M" by simp
  have big: "q' = cand" if "TAU_PUBLISH \<le> M" "M - DELTA_STICKY \<le> posterior_mass post q'" for q'
  proof (rule ccontr)
    assume "q' \<noteq> cand"
    then have "posterior_mass post q' + M \<le> 1" using p(1) [of q' cand] p(2) [OF mem] by (simp add: M)
    then show False using that by (simp add: TAU_PUBLISH_def DELTA_STICKY_def)
  qed
  show thesis
  proof (rule that)
    show "cand \<in> set QUADRANTS" using mem assms(1) by (auto simp: quadrant_posterior_eq QUADRANTS_def)
    show "publish_decision post prev TAU_PUBLISH DELTA_STICKY =
      (let M = max pg (1 - pg) * max pf (1 - pf)
       in Inr (TAU_PUBLISH \<le> M, if TAU_PUBLISH \<le> M then Some cand else None, cand, M))"
      using big am by (auto simp: publish_decision_def post M Let_def M_def [symmetric] split: option.split)
    show "quadrant_from_signs (Some (if pg > 1 / 2 then 1 else - 1)) (Some (if pf > 1 / 2 then 1 else - 1)) = Inr (Some cand)"
      if "TAU_PUBLISH \<le> max pg (1 - pg) * max pf (1 - pf)"
    proof -
      have "q = cand" using big [of q] p(2) [OF q(2)] that by (simp add: M_def DELTA_STICKY_def)
      then show ?thesis using q(1) by simp
    qed
  qed
qed

text \<open>
  C38: the incumbent of the publish rule never matters. With the frozen threshold and stickiness and
  the posterior of two sign probabilities, whatever quadrant was published before, the decision is
  the same: publish exactly when the product of the larger sign probabilities reaches the
  threshold, and then the quadrant of the two signs that are more likely than not. An incumbent
  within the margin of a publishable challenger would need a mass the challenger leaves to nobody.
\<close>

theorem sticky_rule_never_fires:
  assumes "quadrant_posterior pg pf = Inr post" "0 \<le> pg" "pg \<le> 1" "0 \<le> pf" "pf \<le> 1"
  shows "publish_decision post prev TAU_PUBLISH DELTA_STICKY = publish_decision post None TAU_PUBLISH DELTA_STICKY \<and>
    (\<exists>cand. let M = max pg (1 - pg) * max pf (1 - pf)
      in publish_decision post prev TAU_PUBLISH DELTA_STICKY
           = Inr (TAU_PUBLISH \<le> M, if TAU_PUBLISH \<le> M then Some cand else None, cand, M) \<and>
         (TAU_PUBLISH \<le> M \<longrightarrow>
            quadrant_from_signs (Some (if pg > 1 / 2 then 1 else - 1)) (Some (if pf > 1 / 2 then 1 else - 1)) = Inr (Some cand)))"
proof -
  obtain cand where c: "publish_decision post prev TAU_PUBLISH DELTA_STICKY =
      (let M = max pg (1 - pg) * max pf (1 - pf)
       in Inr (TAU_PUBLISH \<le> M, if TAU_PUBLISH \<le> M then Some cand else None, cand, M))"
    "TAU_PUBLISH \<le> max pg (1 - pg) * max pf (1 - pf) \<Longrightarrow>
      quadrant_from_signs (Some (if pg > 1 / 2 then 1 else - 1)) (Some (if pf > 1 / 2 then 1 else - 1)) = Inr (Some cand)"
    by (rule publish_decision_posterior [OF assms, of prev]) blast
  obtain cand' where c': "publish_decision post None TAU_PUBLISH DELTA_STICKY =
      (let M = max pg (1 - pg) * max pf (1 - pf)
       in Inr (TAU_PUBLISH \<le> M, if TAU_PUBLISH \<le> M then Some cand' else None, cand', M))"
    by (rule publish_decision_posterior [OF assms, of None]) blast
  have "cand = cand'" using c(1) c'
    by (cases post) (auto simp: publish_decision_def Let_def quadrant_posterior_eq split: if_splits prod.splits option.splits)
  then show ?thesis using c c' by (simp only: Let_def) blast
qed

theorem sticky_rule_never_fires_witness:
  "publish_decision [(''expansion'', 18 / 25), (''recovery'', 2 / 25), (''slowdown'', 9 / 50), (''contraction'', 1 / 50)]
     (Some ''slowdown'') TAU_PUBLISH DELTA_STICKY = Inr (True, Some ''expansion'', ''expansion'', 18 / 25)"
  using sticky_rule_never_fires [of "4 / 5" "9 / 10"
      "[(''expansion'', 18 / 25), (''recovery'', 2 / 25), (''slowdown'', 9 / 50), (''contraction'', 1 / 50)]" "Some ''slowdown''"]
  by (auto simp: quadrant_posterior_eq TAU_PUBLISH_def Let_def quadrant_from_signs_def quadrant_by_signs_def)

theorem kalman_filter_bounds_witness:
  "\<exists>m P R. kalman_filter_series [(Some 1, Some 1), (None, None), (Some 3, Some 1)] KALMAN_LAMBDA KALMAN_R_WINDOW KALMAN_MIN_DIFFS ! 2
     = (Some m, Some P, Some R) \<and> 1 \<le> m \<and> m \<le> 3 \<and> 0 < P \<and> P \<le> R"
  using kalman_filter_bounds [of KALMAN_LAMBDA 2 "[(Some 1, Some 1), (None, None), (Some 3, Some 1)]" 1 3 KALMAN_R_WINDOW KALMAN_MIN_DIFFS]
  by (auto simp: KALMAN_LAMBDA_def numeral_3_eq_3 numeral_2_eq_2 split: prod.splits option.splits)

theorem fused_sharpens_never_substitutes_witness:
  "\<exists>fused. kalman_fused_filter_series [(Some 1, Some 1), (None, None)] [(Some 2, Some 1), (Some 5, Some 1)] KALMAN_LAMBDA KALMAN_R_WINDOW KALMAN_MIN_DIFFS
     = Inr fused \<and> fst (fused ! 1) = fst (fused ! 0)"
  using fused_sharpens_never_substitutes [of KALMAN_LAMBDA "[(Some 1, Some 1), (None, None)]" "[(Some 2, Some 1), (Some 5, Some 1)]" KALMAN_R_WINDOW KALMAN_MIN_DIFFS]
  by (auto simp: KALMAN_LAMBDA_def less_Suc_eq numeral_2_eq_2 split: sum.splits)

end
