(* ===== verification/Quadrant_V2.thy ===== *)
theory Quadrant_V2
  imports Quadrant_Workers Quadrant_Kalman
begin

text \<open>
  The additive streams of the quadrant: the assembler of confidence v2
  (\<open>src/quadrant_assemble_v2.py\<close>), the market observation of the fused growth axis
  (\<open>src/quadrant_market_observation.py\<close>) and the workers \<open>src/workers/quadrant_macro_v2.py\<close> and
  \<open>src/workers/quadrant_macro_v3.py\<close>. They write the table of version 1 under their own model
  version, so the state, its CHECK constraints and the upsert are those of the snapshot theory. The
  confidence column rounds to four decimals; the model keeps the number itself.
\<close>

definition CONFIDENCE_MODEL_VERSION_V2 :: string where "CONFIDENCE_MODEL_VERSION_V2 = ''confidence_v2.0''"
definition CONFIDENCE_METHOD_V2 :: string where "CONFIDENCE_METHOD_V2 = ''kalman_joint_posterior_v2''"
definition CONFIDENCE_METHOD_V3_FUSED :: string where
  "CONFIDENCE_METHOD_V3_FUSED = ''kalman_fused_joint_posterior_v3''"

subsection \<open>One axis\<close>

record axis_input_v2 =
  v_observations :: "score_obs list"
  v_coverage :: real
  v_freshness :: real
  v_health :: real
  v_auxiliary :: "score_obs list option"

definition bare_diagnostics :: "real option \<Rightarrow> axis_diagnostics" where
  "bare_diagnostics score = \<lparr> d_score = score, d_sign = None, d_internal_sign = None,
     d_candidate_confidence = None, d_margin = None, d_uncertainty_raw = None, d_uncertainty_adjusted = None \<rparr>"

definition filter_axis :: "axis_input_v2 \<Rightarrow> py_error + filtered list" where
  "filter_axis x =
     (case v_auxiliary x of
        Some a \<Rightarrow> kalman_fused_filter_series (v_observations x) a KALMAN_LAMBDA KALMAN_R_WINDOW KALMAN_MIN_DIFFS
      | None \<Rightarrow> Inr (kalman_filter_series (v_observations x) KALMAN_LAMBDA KALMAN_R_WINDOW KALMAN_MIN_DIFFS))"

text \<open>The diagnostics, whether the filter is available, the reason when it is not, and the sign probability.\<close>

definition classify_axis_v2 ::
  "(real \<Rightarrow> real) \<Rightarrow> axis_input_v2 \<Rightarrow> py_error + axis_diagnostics \<times> bool \<times> string option \<times> real option" where
  "classify_axis_v2 cdf x =
     (let obs = v_observations x;
          current_score = (if obs = [] then None else fst (last obs));
          n_obs = length (filter (\<lambda>ob. fst ob \<noteq> None) obs)
      in case current_score of
           None \<Rightarrow> Inr (bare_diagnostics None, False, Some ''no_score'', None)
         | Some score \<Rightarrow>
             if n_obs < MIN_FILTER_OBSERVATIONS
             then Inr (bare_diagnostics (Some score), False, Some ''insufficient_vintages'', None)
             else bindE (filter_axis x) (\<lambda>out.
               let unavailable = Inr (bare_diagnostics (Some score), False, Some ''filter_unavailable'', None)
               in case last out of
                    (Some m, Some P, R) \<Rightarrow>
                      if P \<le> 0 then unavailable
                      else (let p_pos = axis_sign_probability cdf m P;
                                sign = (if m > 0 then 1 else -1);
                                axis_conf = max p_pos (1 - p_pos)
                            in Inr (\<lparr> d_score = Some score, d_sign = Some sign, d_internal_sign = Some sign,
                                      d_candidate_confidence = Some axis_conf, d_margin = Some m,
                                      d_uncertainty_raw = map_option sqrt R,
                                      d_uncertainty_adjusted = Some (sqrt P) \<rparr>, True, None, Some p_pos))
                  | _ \<Rightarrow> unavailable))"

subsection \<open>The snapshot\<close>

record snapshot_input_v2 =
  v_as_of :: date
  v_computed_at :: datetime
  v_previous_snapshot_id :: "string option"
  v_prev_published :: "string option"
  v_growth :: axis_input_v2
  v_inflation :: axis_input_v2
  v_available_ats :: "datetime list"
  v_critical_expiries :: "datetime list"
  v_model_version :: string
  v_vintage_hash :: string
  v_structural_failure :: bool
  v_confidence_method :: string

text \<open>
  The published quadrant, the candidate and the maximal posterior. The sign probabilities are there
  exactly when both filters are available.
\<close>

definition classify_quadrant ::
  "axis_diagnostics \<times> bool \<times> string option \<times> real option \<Rightarrow> axis_diagnostics \<times> bool \<times> string option \<times> real option \<Rightarrow>
   string option \<Rightarrow> py_error + string option \<times> string option \<times> real option" where
  "classify_quadrant g i prev_published =
     (case (g, i) of
        ((_, True, _, Some g_p), (_, True, _, Some i_p)) \<Rightarrow>
          bindE (quadrant_posterior g_p i_p) (\<lambda>posterior.
          bindE (publish_decision posterior prev_published TAU_PUBLISH DELTA_STICKY)
            (\<lambda>(publish, published, candidate, max_p). Inr (published, Some candidate, Some max_p)))
      | ((g_diag, _), (i_diag, _)) \<Rightarrow>
          bindE (quadrant_from_signs (candidate_sign (d_score g_diag)) (candidate_sign (d_score i_diag)))
            (\<lambda>candidate. Inr (None, candidate, None)))"

definition build_snapshot_v2 ::
  "(string \<Rightarrow> string) \<Rightarrow> (real \<Rightarrow> real) \<Rightarrow> snapshot_input_v2 \<Rightarrow> py_error + quadrant_snapshot" where
  "build_snapshot_v2 uuid5 cdf a =
     bindE (classify_axis_v2 cdf (v_growth a)) (\<lambda>g.
     bindE (classify_axis_v2 cdf (v_inflation a)) (\<lambda>i.
     let (g_diag, g_ok, g_reason, g_p) = g;
         (i_diag, i_ok, i_reason, i_p) = i;
         filter_available = (g_ok \<and> i_ok);
         bits = concat (map (\<lambda>r. case r of None \<Rightarrow> [] | Some b \<Rightarrow> [b]) [g_reason, i_reason]);
         reason = (if bits = [] then None else Some (str_join '','' bits))
     in bindE (classify_quadrant g i (v_prev_published a)) (\<lambda>(published, candidate, max_posterior).
        let cov = min (v_coverage (v_growth a)) (v_coverage (v_inflation a));
            fresh = min (v_freshness (v_growth a)) (v_freshness (v_inflation a));
            health = min (v_health (v_growth a)) (v_health (v_inflation a));
            avail = available_at_snapshot (v_computed_at a) (v_available_ats a)
        in case compute_stale_after (v_computed_at a) (v_critical_expiries a) of
             None \<Rightarrow> Inl ValueError
           | Some (data_stale, pipeline_stale, stale) \<Rightarrow>
               (let status0 = resolve_status_v2 (v_structural_failure a) cov (fresh \<le> 0) health filter_available max_posterior;
                    (status, quad) = publish_status status0 published
                in Inr \<lparr> snapshot_id = make_snapshot_id uuid5 (v_model_version a) (v_as_of a)
                           (v_vintage_hash a) (v_previous_snapshot_id a),
                         previous_snapshot_id = v_previous_snapshot_id a,
                         quadrant = quad,
                         candidate_quadrant = candidate,
                         candidate_confidence = (if status \<in> {''unavailable'', ''invalid''} then None else max_posterior),
                         growth = g_diag, inflation = i_diag,
                         s_coverage_quality = cov, s_freshness_quality = fresh, s_source_health_quality = health,
                         transition_pending = (\<not> filter_available), transition_reason = reason,
                         as_of = v_as_of a, available_at = avail, computed_at = v_computed_at a,
                         data_stale_after = data_stale, pipeline_stale_after = pipeline_stale, stale_after = stale,
                         status_at_compute = status, model_version = v_model_version a,
                         confidence_model_version = CONFIDENCE_MODEL_VERSION_V2,
                         confidence_method = v_confidence_method a,
                         source_vintage_hash = v_vintage_hash a \<rparr>))))"

subsection \<open>The chain of the stream\<close>

definition newest_of :: "quadrant_snapshot list \<Rightarrow> quadrant_snapshot option" where
  "newest_of rows = (case rows of [] \<Rightarrow> None | r # rs \<Rightarrow> Some (newest_row r rs))"

text \<open>The predecessor of any status, and the incumbent: the last published quadrant.\<close>

definition load_previous_state_v2 :: "quadrant_db \<Rightarrow> string \<Rightarrow> date \<Rightarrow> string option \<times> string option" where
  "load_previous_state_v2 db mv d =
     (map_option snapshot_id (newest_of (filter (\<lambda>r. model_version r = mv \<and> as_of r < d) (snapshots db))),
      Option.bind (newest_of (filter (\<lambda>r. model_version r = mv \<and> as_of r < d \<and> quadrant r \<noteq> None) (snapshots db))) quadrant)"

definition resume_and_store_v2 ::
  "(string \<Rightarrow> string) \<Rightarrow> (real \<Rightarrow> real) \<Rightarrow> snapshot_input_v2 \<Rightarrow> (string, real) dict \<Rightarrow> (string, real) dict \<Rightarrow>
   quadrant_db \<Rightarrow> py_error + quadrant_db \<times> quadrant_snapshot" where
  "resume_and_store_v2 uuid5 cdf a g_contrib i_contrib db =
     (let (prev_id, prev_published) = load_previous_state_v2 db (v_model_version a) (v_as_of a)
      in bindE (build_snapshot_v2 uuid5 cdf (a\<lparr> v_previous_snapshot_id := prev_id, v_prev_published := prev_published \<rparr>)) (\<lambda>snap.
         bindE (upsert_snapshot db snap
                  (audit_records (snapshot_id snap) [(''growth'', g_contrib), (''inflation'', i_contrib)]))
           (\<lambda>db'. Inr (db', snap))))"

subsection \<open>The market observation\<close>

definition MARKET_GROWTH_TICKER :: string where "MARKET_GROWTH_TICKER = ''SPY''"
definition MARKET_WINDOW_BD :: nat where "MARKET_WINDOW_BD = 126"
definition MARKET_Z_WINDOW_YEARS :: int where "MARKET_Z_WINDOW_YEARS = 10"
definition MIN_MARKET_HISTORY_MONTHS :: nat where "MIN_MARKET_HISTORY_MONTHS = 24"

type_synonym eod_row = "string \<times> date \<times> real option"

text \<open>The positive closes of the ticker in the order of their day and level.\<close>

definition market_sessions :: "eod_row list \<Rightarrow> (date \<times> real) list" where
  "market_sessions rows =
     sort_key fst (sort_key snd (concat (map (\<lambda>(ticker, d, px). case px of
       None \<Rightarrow> [] | Some x \<Rightarrow> if ticker = MARKET_GROWTH_TICKER \<and> x > 0 then [(d, x)] else []) rows)))"

text \<open>The position after the last session up to the day, as \<open>bisect_right\<close> finds it in the sorted dates.\<close>

definition raw_at :: "(date \<times> real) list \<Rightarrow> date \<Rightarrow> real option" where
  "raw_at sessions d =
     (let n = length (takeWhile (\<lambda>s. fst s \<le> d) sessions)
      in if n < MARKET_WINDOW_BD + 1 then None
         else (let past = snd (sessions ! (n - 1 - MARKET_WINDOW_BD))
               in if past > 0 then Some (snd (sessions ! (n - 1)) / past - 1) else None))"

definition market_observation :: "(date \<times> real) list \<Rightarrow> date list \<Rightarrow> date \<Rightarrow> py_error + score_obs" where
  "market_observation sessions month_ends t =
     (case raw_at sessions t of
        None \<Rightarrow> Inr (None, None)
      | Some current \<Rightarrow>
          (case mk_date (year t - MARKET_Z_WINDOW_YEARS) (month t) 1 of
             None \<Rightarrow> Inl ValueError
           | Some cutoff \<Rightarrow>
               (let history = concat (map (\<lambda>m. case raw_at sessions m of
                      None \<Rightarrow> [] | Some r \<Rightarrow> if cutoff \<le> m \<and> m \<le> t then [r] else []) month_ends)
                in if length (remdups history) < MIN_MARKET_HISTORY_MONTHS then Inr (None, None)
                   else bindE (standardize STD_ID history current)
                     (\<lambda>z. Inr (if z \<noteq> None then (z, Some 1) else (None, None))))))"

definition market_growth_observation_series :: "eod_row list \<Rightarrow> date list \<Rightarrow> py_error + score_obs list" where
  "market_growth_observation_series rows month_ends =
     mapE (market_observation (market_sessions rows) month_ends) month_ends"

subsection \<open>The workers\<close>

definition MACRO_MODEL_VERSION_V2 :: string where "MACRO_MODEL_VERSION_V2 = ''macro_quadrant_us_v2.1''"
definition MACRO_MODEL_VERSION_V3 :: string where "MACRO_MODEL_VERSION_V3 = ''macro_quadrant_us_v3.1''"

text \<open>The decision points of the trailing window, the current one last.\<close>

definition walk_back :: "datetime \<Rightarrow> datetime list" where
  "walk_back decision_time = map (\<lambda>k. decision_time - 30 * int k * day_us) (rev [0..<V2_FILTER_HISTORY_MONTHS])"

definition axis_observation :: "vintage list \<Rightarrow> string \<Rightarrow> datetime \<Rightarrow> py_error + score_obs \<times> axis_result" where
  "axis_observation vintages ax t =
     bindE (score_axis vintages ax t) (\<lambda>r.
       let coverage = macro_coverage (ar_z r) (axis_specs ax) (Some (ar_counts r))
       in Inr ((ar_score r, if ar_score r \<noteq> None then Some coverage else None), r))"

definition axis_observations :: "vintage list \<Rightarrow> string \<Rightarrow> datetime \<Rightarrow> py_error + score_obs list \<times> axis_result" where
  "axis_observations vintages ax decision_time =
     bindE (mapE (axis_observation vintages ax) (walk_back decision_time))
       (\<lambda>rs. Inr (map fst rs, snd (last rs)))"

definition macro_axis_input_v2 ::
  "score_obs list \<Rightarrow> axis_result \<Rightarrow> macro_source_spec list \<Rightarrow> score_obs list option \<Rightarrow> axis_input_v2" where
  "macro_axis_input_v2 obs r specs aux =
     \<lparr> v_observations = obs, v_coverage = macro_coverage (ar_z r) specs (Some (ar_counts r)),
       v_freshness = 1, v_health = (if ar_score r \<noteq> None then 1 else 0), v_auxiliary = aux \<rparr>"

definition observations_payload :: "score_obs list \<Rightarrow> pval" where
  "observations_payload obs = PTuple (map (\<lambda>(s, q). PTuple [float_opt s, float_opt q]) obs)"

definition macro_input_v2 ::
  "(pval \<Rightarrow> string) \<Rightarrow> datetime \<Rightarrow> string \<Rightarrow> string \<Rightarrow> score_obs list \<times> axis_result \<Rightarrow> score_obs list \<times> axis_result \<Rightarrow>
   score_obs list option \<Rightarrow> snapshot_input_v2" where
  "macro_input_v2 sha decision_time mv cm g i g_aux =
     (let d = dt_date decision_time; (g_obs, g_now) = g; (i_obs, i_now) = i
      in \<lparr> v_as_of = d, v_computed_at = decision_time, v_previous_snapshot_id = None, v_prev_published = None,
           v_growth = macro_axis_input_v2 g_obs g_now (axis_specs ''growth'') g_aux,
           v_inflation = macro_axis_input_v2 i_obs i_now (axis_specs ''inflation'') None,
           v_available_ats = ar_available_ats g_now @ ar_available_ats i_now,
           v_critical_expiries = ar_expiries g_now @ ar_expiries i_now,
           v_model_version = mv,
           v_vintage_hash = sha (vintage_payload (ar_z g_now) (ar_z i_now) d (ar_counts g_now) (ar_counts i_now)
             ([(''growth_observations'', observations_payload g_obs),
               (''inflation_observations'', observations_payload i_obs)] @
              (case g_aux of None \<Rightarrow> [] | Some aux \<Rightarrow> [(''growth_auxiliary_observations'', observations_payload aux)]))),
           v_structural_failure = False, v_confidence_method = cm \<rparr>)"

text \<open>The query of the v3 worker for the sessions up to the day of the decision.\<close>

definition eod_query :: "eod_row list \<Rightarrow> date \<Rightarrow> eod_row list" where
  "eod_query eod_prices d =
     sort_key (\<lambda>(_, day, _). day) (filter (\<lambda>(ticker, day, px). ticker = MARKET_GROWTH_TICKER \<and> day \<le> d \<and>
       (case px of None \<Rightarrow> False | Some x \<Rightarrow> x > 0)) eod_prices)"

definition market_growth_observations :: "eod_row list \<Rightarrow> datetime \<Rightarrow> py_error + score_obs list" where
  "market_growth_observations eod_prices decision_time =
     market_growth_observation_series (eod_query eod_prices (dt_date decision_time)) (map dt_date (walk_back decision_time))"

definition macro_v2_run_input ::
  "(pval \<Rightarrow> string) \<Rightarrow> datetime \<Rightarrow> vintage list \<Rightarrow> py_error + snapshot_input_v2 \<times> (string, real) dict \<times> (string, real) dict" where
  "macro_v2_run_input sha decision_time vintages =
     bindE (axis_observations vintages ''growth'' decision_time) (\<lambda>g.
     bindE (axis_observations vintages ''inflation'' decision_time) (\<lambda>i.
     bindE (require_critical_expiries (ar_expiries (snd g) @ ar_expiries (snd i))) (\<lambda>_.
       Inr (macro_input_v2 sha decision_time MACRO_MODEL_VERSION_V2 CONFIDENCE_METHOD_V2 g i None,
            ar_contributions (snd g), ar_contributions (snd i)))))"

definition macro_v3_run_input ::
  "(pval \<Rightarrow> string) \<Rightarrow> datetime \<Rightarrow> vintage list \<Rightarrow> eod_row list \<Rightarrow>
   py_error + snapshot_input_v2 \<times> (string, real) dict \<times> (string, real) dict" where
  "macro_v3_run_input sha decision_time vintages eod_prices =
     bindE (axis_observations vintages ''growth'' decision_time) (\<lambda>g.
     bindE (axis_observations vintages ''inflation'' decision_time) (\<lambda>i.
     bindE (market_growth_observations eod_prices decision_time) (\<lambda>aux.
     bindE (require_critical_expiries (ar_expiries (snd g) @ ar_expiries (snd i))) (\<lambda>_.
       Inr (macro_input_v2 sha decision_time MACRO_MODEL_VERSION_V3 CONFIDENCE_METHOD_V3_FUSED g i (Some aux),
            ar_contributions (snd g), ar_contributions (snd i))))))"

definition macro_v2_run ::
  "(string \<Rightarrow> string) \<Rightarrow> (real \<Rightarrow> real) \<Rightarrow> (pval \<Rightarrow> string) \<Rightarrow> bool \<Rightarrow> datetime \<Rightarrow> vintage list \<Rightarrow> quadrant_db \<Rightarrow>
   py_error + quadrant_db \<times> quadrant_snapshot option" where
  "macro_v2_run uuid5 cdf sha got decision_time vintages db =
     (if \<not> got then Inr (db, None)
      else bindE (macro_v2_run_input sha decision_time vintages) (\<lambda>(a, gc, ic).
           bindE (resume_and_store_v2 uuid5 cdf a gc ic db) (\<lambda>(db', s). Inr (db', Some s))))"

definition macro_v3_run ::
  "(string \<Rightarrow> string) \<Rightarrow> (real \<Rightarrow> real) \<Rightarrow> (pval \<Rightarrow> string) \<Rightarrow> bool \<Rightarrow> datetime \<Rightarrow> vintage list \<Rightarrow> eod_row list \<Rightarrow>
   quadrant_db \<Rightarrow> py_error + quadrant_db \<times> quadrant_snapshot option" where
  "macro_v3_run uuid5 cdf sha got decision_time vintages eod_prices db =
     (if \<not> got then Inr (db, None)
      else bindE (macro_v3_run_input sha decision_time vintages eod_prices) (\<lambda>(a, gc, ic).
           bindE (resume_and_store_v2 uuid5 cdf a gc ic db) (\<lambda>(db', s). Inr (db', Some s))))"

subsection \<open>What a classified axis is\<close>

text \<open>What the code relies on of the distribution function of the standard normal.\<close>

definition normal_cdf :: "(real \<Rightarrow> real) \<Rightarrow> bool" where
  "normal_cdf cdf \<longleftrightarrow> mono cdf \<and> cdf 0 = 1 / 2 \<and> (\<forall>x. 0 \<le> cdf x \<and> cdf x \<le> 1)"

lemma normal_cdfD:
  assumes "normal_cdf cdf"
  shows "0 \<le> cdf x" "cdf x \<le> 1" "0 < x \<Longrightarrow> 1 / 2 \<le> cdf x" "x \<le> 0 \<Longrightarrow> cdf x \<le> 1 / 2"
proof -
  show "0 \<le> cdf x" "cdf x \<le> 1" using assms by (simp_all add: normal_cdf_def)
  have m: "cdf a \<le> cdf b" if "a \<le> b" for a b using assms that by (simp add: normal_cdf_def monoD)
  have h: "cdf 0 = 1 / 2" using assms by (simp add: normal_cdf_def)
  show "1 / 2 \<le> cdf x" if "0 < x" using m [of 0 x] that by (simp add: h)
  show "cdf x \<le> 1 / 2" if "x \<le> 0" using m [of x 0] that by (simp add: h)
qed

definition aligned :: "axis_input_v2 \<Rightarrow> bool" where
  "aligned x \<longleftrightarrow> (\<forall>aux. v_auxiliary x = Some aux \<longrightarrow> length aux = length (v_observations x))"

definition current_score :: "axis_input_v2 \<Rightarrow> real option" where
  "current_score x = (if v_observations x = [] then None else fst (last (v_observations x)))"

lemma filter_axis_aligned: "aligned x \<Longrightarrow> \<exists>out. filter_axis x = Inr out \<and> length out = length (v_observations x)"
  by (auto simp: filter_axis_def aligned_def kalman_fused_filter_series_def kalman_filter_series_def split: option.split)

definition axis_ok :: "axis_input_v2 \<Rightarrow> axis_diagnostics \<times> bool \<times> string option \<times> real option \<Rightarrow> bool" where
  "axis_ok x r \<longleftrightarrow>
     (case r of
        (d, True, reason, Some p) \<Rightarrow> reason = None \<and> 0 \<le> p \<and> p \<le> 1 \<and> d_score d = current_score x \<and> current_score x \<noteq> None \<and>
          (\<exists>m. d_sign d = Some (if m > 0 then 1 else -1) \<and> (p > 1 / 2 \<longrightarrow> m > (0 :: real)) \<and> (p < 1 / 2 \<longrightarrow> \<not> m > 0))
      | (d, False, reason, None) \<Rightarrow> reason \<noteq> None \<and> d = bare_diagnostics (current_score x)
      | _ \<Rightarrow> False)"

lemma classify_axis_v2_ok:
  assumes "normal_cdf cdf" "aligned x"
  shows "\<exists>r. classify_axis_v2 cdf x = Inr r \<and> axis_ok x r"
proof (cases "current_score x")
  case None
  then show ?thesis by (simp add: classify_axis_v2_def current_score_def [symmetric] axis_ok_def)
next
  case (Some score)
  show ?thesis
  proof (cases "length (filter (\<lambda>ob. fst ob \<noteq> None) (v_observations x)) < MIN_FILTER_OBSERVATIONS")
    case True
    then show ?thesis by (simp add: classify_axis_v2_def current_score_def [symmetric] Some axis_ok_def)
  next
    case False
    obtain out where out: "filter_axis x = Inr out" using filter_axis_aligned [OF assms(2)] by blast
    obtain om oP oR where l: "last out = (om, oP, oR)" by (cases "last out")
    have c: "classify_axis_v2 cdf x = (case (om, oP, oR) of
        (Some m, Some P, R) \<Rightarrow>
          if P \<le> 0 then Inr (bare_diagnostics (Some score), False, Some ''filter_unavailable'', None)
          else (let p_pos = axis_sign_probability cdf m P;
                    sign = (if m > 0 then 1 else -1);
                    axis_conf = max p_pos (1 - p_pos)
                in Inr (\<lparr> d_score = Some score, d_sign = Some sign, d_internal_sign = Some sign,
                          d_candidate_confidence = Some axis_conf, d_margin = Some m,
                          d_uncertainty_raw = map_option sqrt R,
                          d_uncertainty_adjusted = Some (sqrt P) \<rparr>, True, None, Some p_pos))
      | _ \<Rightarrow> Inr (bare_diagnostics (Some score), False, Some ''filter_unavailable'', None))"
      using False out l Some by (simp add: classify_axis_v2_def current_score_def Let_def)
    show ?thesis
    proof (cases "\<exists>m P. om = Some m \<and> oP = Some P \<and> \<not> P \<le> 0")
      case True
      then obtain m P where mP: "om = Some m" "oP = Some P" "0 < P" by auto
      let ?p = "cdf (m / sqrt P)"
      have "0 < m \<Longrightarrow> 1 / 2 \<le> ?p" using normal_cdfD(3) [OF assms(1), of "m / sqrt P"] mP(3) by simp
      moreover have "m \<le> 0 \<Longrightarrow> ?p \<le> 1 / 2"
        using normal_cdfD(4) [OF assms(1), of "m / sqrt P"] mP(3) by (simp add: divide_le_0_iff)
      ultimately have "?p > 1 / 2 \<Longrightarrow> m > 0" "?p < 1 / 2 \<Longrightarrow> \<not> m > 0" by linarith+
      then show ?thesis
        using mP normal_cdfD(1,2) [OF assms(1), of "m / sqrt P"]
        by (auto simp: c axis_sign_probability_def axis_ok_def Some Let_def intro!: exI [of _ m])
    next
      case False
      then show ?thesis by (cases om; cases oP) (auto simp: c axis_ok_def Some)
    qed
  qed
qed

lemma axis_ok_cases:
  assumes "axis_ok x r"
  obtains (available) d p m where "r = (d, True, None, Some p)" "0 \<le> p" "p \<le> 1" "current_score x \<noteq> None"
      "d_sign d = Some (if m > 0 then 1 else -1)" "p > 1 / 2 \<Longrightarrow> m > (0 :: real)" "p < 1 / 2 \<Longrightarrow> \<not> m > 0"
  | (unavailable) reason where "r = (bare_diagnostics (current_score x), False, Some reason, None)"
proof -
  obtain d ok reason p where r: "r = (d, ok, reason, p)" by (cases r)
  show thesis
  proof (cases ok)
    case True
    obtain q where q: "p = Some q" using assms True by (cases p) (auto simp: axis_ok_def r)
    have "reason = None \<and> 0 \<le> q \<and> q \<le> 1 \<and> d_score d = current_score x \<and> current_score x \<noteq> None \<and>
          (\<exists>m. d_sign d = Some (if m > 0 then 1 else -1) \<and> (q > 1 / 2 \<longrightarrow> m > (0 :: real)) \<and> (q < 1 / 2 \<longrightarrow> \<not> m > 0))"
      using assms True unfolding axis_ok_def r q by simp
    then obtain m where "0 \<le> q" "q \<le> 1" "current_score x \<noteq> None" "reason = None" "d_sign d = Some (if m > 0 then 1 else -1)"
      "q > 1 / 2 \<longrightarrow> m > (0 :: real)" "q < 1 / 2 \<longrightarrow> \<not> m > 0" by metis
    then show thesis using True q r by (intro available [of d q m]) auto
  next
    case False
    then show thesis using assms by (cases p) (auto simp: axis_ok_def r intro: unavailable)
  qed
qed

subsection \<open>The quadrant of two axes\<close>

definition joint :: "real \<Rightarrow> real \<Rightarrow> real" where
  "joint gp ip = max gp (1 - gp) * max ip (1 - ip)"

lemma joint_tau:
  assumes "TAU_PUBLISH \<le> joint gp ip" "0 \<le> gp" "gp \<le> 1" "0 \<le> ip" "ip \<le> 1"
  shows "gp \<noteq> 1 / 2" "ip \<noteq> 1 / 2" "joint gp ip \<le> 1"
proof -
  have le: "joint gp ip \<le> max gp (1 - gp)" "joint gp ip \<le> max ip (1 - ip)"
    unfolding joint_def using assms(2-5) by (auto intro: mult_right_le_one_le mult_left_le_one_le)
  then show "gp \<noteq> 1 / 2" "ip \<noteq> 1 / 2" using assms(1) by (auto simp: TAU_PUBLISH_def)
  show "joint gp ip \<le> 1" using le(1) assms(2,3) by simp
qed

lemma classify_quadrant_ok:
  assumes "axis_ok x g" "axis_ok y i"
  obtains (both) gp ip q where "snd (snd (snd g)) = Some gp" "snd (snd (snd i)) = Some ip" "fst (snd g)" "fst (snd i)"
      "0 \<le> gp" "gp \<le> 1" "0 \<le> ip" "ip \<le> 1" "q \<in> set QUADRANTS"
      "classify_quadrant g i prev = Inr (if TAU_PUBLISH \<le> joint gp ip then Some q else None, Some q, Some (joint gp ip))"
      "TAU_PUBLISH \<le> joint gp ip \<Longrightarrow> quadrant_from_signs (d_sign (fst g)) (d_sign (fst i)) = Inr (Some q)"
  | (missing) cand where "\<not> (fst (snd g) \<and> fst (snd i))" "classify_quadrant g i prev = Inr (None, cand, None)"
      "\<forall>q. cand = Some q \<longrightarrow> q \<in> set QUADRANTS"
proof -
  have miss: thesis if "\<not> (fst (snd g) \<and> fst (snd i))"
  proof -
    obtain cand where c: "quadrant_from_signs (candidate_sign (d_score (fst g))) (candidate_sign (d_score (fst i))) = Inr cand"
      "\<forall>q. cand = Some q \<longrightarrow> q \<in> set QUADRANTS"
      using quadrant_from_signs_ok [OF candidate_sign_ok(1) candidate_sign_ok(1)] by metis
    have "classify_quadrant g i prev = Inr (None, cand, None)"
      using that c(1) by (auto simp: classify_quadrant_def split: prod.split bool.split option.split)
    then show thesis using missing [OF that] c(2) by blast
  qed
  show thesis
    using assms(1)
  proof (cases rule: axis_ok_cases)
    case g: (available gd gp gm)
    show ?thesis
      using assms(2)
    proof (cases rule: axis_ok_cases)
      case i: (available id ip im)
      obtain post where post: "quadrant_posterior gp ip = Inr post" by (simp add: quadrant_posterior_eq)
      obtain q where q: "q \<in> set QUADRANTS" "publish_decision post prev TAU_PUBLISH DELTA_STICKY =
          (let M = max gp (1 - gp) * max ip (1 - ip) in Inr (TAU_PUBLISH \<le> M, if TAU_PUBLISH \<le> M then Some q else None, q, M))"
        "TAU_PUBLISH \<le> max gp (1 - gp) * max ip (1 - ip) \<Longrightarrow>
          quadrant_from_signs (Some (if gp > 1 / 2 then 1 else - 1)) (Some (if ip > 1 / 2 then 1 else - 1)) = Inr (Some q)"
        by (rule publish_decision_posterior [OF post g(2,3) i(2,3), of prev]) blast
      show ?thesis
      proof (rule both [of gp ip q])
        show "classify_quadrant g i prev = Inr (if TAU_PUBLISH \<le> joint gp ip then Some q else None, Some q, Some (joint gp ip))"
          by (simp add: classify_quadrant_def g(1) i(1) post q(2) joint_def Let_def)
        show "quadrant_from_signs (d_sign (fst g)) (d_sign (fst i)) = Inr (Some q)" if t: "TAU_PUBLISH \<le> joint gp ip"
        proof -
          note half = joint_tau [OF t g(2,3) i(2,3)]
          have "(gp > 1 / 2) = (gm > 0)" "(ip > 1 / 2) = (im > 0)" using half g(6,7) i(6,7) by linarith+
          then show ?thesis using q(3) t by (simp add: joint_def g(1,5) i(1,5))
        qed
      qed (use g i q in auto)
    qed (use miss in simp)
  qed (use miss in simp)
qed

subsection \<open>What a built snapshot of the stream is\<close>

definition gates_pass :: "snapshot_input_v2 \<Rightarrow> bool" where
  "gates_pass a \<longleftrightarrow> \<not> v_structural_failure a \<and>
     MIN_INPUT_COVERAGE \<le> min (v_coverage (v_growth a)) (v_coverage (v_inflation a)) \<and>
     0 < min (v_freshness (v_growth a)) (v_freshness (v_inflation a)) \<and>
     MIN_SOURCE_HEALTH \<le> min (v_health (v_growth a)) (v_health (v_inflation a))"

lemma resolve_status_v2_valid:
  "resolve_status_v2 f c e h av M = ''valid'' \<longleftrightarrow>
     \<not> f \<and> MIN_INPUT_COVERAGE \<le> c \<and> \<not> e \<and> MIN_SOURCE_HEALTH \<le> h \<and> av \<and> (\<exists>m. M = Some m \<and> TAU_PUBLISH \<le> m)"
  by (auto simp: resolve_status_v2_def not_less split: option.splits)

lemma resolve_status_v2_domain:
  "resolve_status_v2 f c e h av M \<in> {''invalid'', ''unavailable'', ''stale'', ''low_confidence'', ''valid''}"
  by (simp add: resolve_status_v2_def)

definition sound_input_v2 :: "snapshot_input_v2 \<Rightarrow> bool" where
  "sound_input_v2 a \<longleftrightarrow> aligned (v_growth a) \<and> aligned (v_inflation a) \<and> v_critical_expiries a \<noteq> [] \<and>
     (\<forall>x \<in> {v_growth a, v_inflation a}. v_coverage x \<in> {0..1} \<and> v_freshness x \<in> {0..1} \<and> v_health x \<in> {0..1}) \<and>
     (\<forall>t \<in> set (v_available_ats a). t \<le> v_computed_at a) \<and> midnight (v_as_of a) \<le> v_computed_at a \<and>
     v_model_version a \<noteq> [] \<and> v_vintage_hash a \<noteq> []"

lemma build_snapshot_v2_eq:
  assumes "normal_cdf cdf" "sound_input_v2 a"
  obtains g i published cand M s where "classify_axis_v2 cdf (v_growth a) = Inr g" "axis_ok (v_growth a) g"
    "classify_axis_v2 cdf (v_inflation a) = Inr i" "axis_ok (v_inflation a) i"
    "classify_quadrant g i (v_prev_published a) = Inr (published, cand, M)"
    "build_snapshot_v2 uuid5 cdf a = Inr s" "growth s = fst g" "inflation s = fst i"
    "candidate_quadrant s = cand" "transition_pending s \<longleftrightarrow> \<not> (fst (snd g) \<and> fst (snd i))"
    "(status_at_compute s, quadrant s) = publish_status (resolve_status_v2 (v_structural_failure a)
       (min (v_coverage (v_growth a)) (v_coverage (v_inflation a)))
       (min (v_freshness (v_growth a)) (v_freshness (v_inflation a)) \<le> 0)
       (min (v_health (v_growth a)) (v_health (v_inflation a))) (fst (snd g) \<and> fst (snd i)) M) published"
    "candidate_confidence s = (if status_at_compute s \<in> {''unavailable'', ''invalid''} then None else M)"
    "ck_no_confidence s" "ck_ranges s" "ck_times s" "ck_nonempty s"
proof -
  note a = assms(2) [unfolded sound_input_v2_def]
  obtain g where g: "classify_axis_v2 cdf (v_growth a) = Inr g" "axis_ok (v_growth a) g"
    using classify_axis_v2_ok [OF assms(1)] a by blast
  obtain i where i: "classify_axis_v2 cdf (v_inflation a) = Inr i" "axis_ok (v_inflation a) i"
    using classify_axis_v2_ok [OF assms(1)] a by blast
  obtain published cand M where q: "classify_quadrant g i (v_prev_published a) = Inr (published, cand, M)"
    by (rule classify_quadrant_ok [OF g(2) i(2), of "v_prev_published a"])
  obtain e es where es: "v_critical_expiries a = e # es" using a by (cases "v_critical_expiries a") auto
  then obtain d p st where st: "compute_stale_after (v_computed_at a) (v_critical_expiries a) = Some (d, p, st)"
    by (simp add: compute_stale_after_def Let_def)
  define status0 where "status0 = resolve_status_v2 (v_structural_failure a)
       (min (v_coverage (v_growth a)) (v_coverage (v_inflation a)))
       (min (v_freshness (v_growth a)) (v_freshness (v_inflation a)) \<le> 0)
       (min (v_health (v_growth a)) (v_health (v_inflation a))) (fst (snd g) \<and> fst (snd i)) M"
  obtain status quad where pub: "publish_status status0 published = (status, quad)" by fastforce
  have avail: "available_at_snapshot (v_computed_at a) (v_available_ats a) = v_computed_at a"
  proof -
    have "available_at_snapshot (v_computed_at a) (v_available_ats a) \<le> v_computed_at a"
      using a by (auto simp: available_at_snapshot_def intro!: list_max_least)
    then show ?thesis using available_at_snapshot_upper(1) by (metis order_antisym)
  qed
  obtain gd g_ok gr gp where gt: "g = (gd, g_ok, gr, gp)" by (cases g)
  obtain idg i_ok ir ip where it: "i = (idg, i_ok, ir, ip)" by (cases i)
  note pub' = pub [unfolded status0_def gt it, simplified]
  show thesis
  proof (rule that [OF g i q])
    show "build_snapshot_v2 uuid5 cdf a = Inr
      \<lparr> snapshot_id = make_snapshot_id uuid5 (v_model_version a) (v_as_of a) (v_vintage_hash a) (v_previous_snapshot_id a),
        previous_snapshot_id = v_previous_snapshot_id a, quadrant = quad, candidate_quadrant = cand,
        candidate_confidence = (if status \<in> {''unavailable'', ''invalid''} then None else M),
        growth = fst g, inflation = fst i,
        s_coverage_quality = min (v_coverage (v_growth a)) (v_coverage (v_inflation a)),
        s_freshness_quality = min (v_freshness (v_growth a)) (v_freshness (v_inflation a)),
        s_source_health_quality = min (v_health (v_growth a)) (v_health (v_inflation a)),
        transition_pending = (\<not> (fst (snd g) \<and> fst (snd i))),
        transition_reason = (let bits = concat (map (\<lambda>r. case r of None \<Rightarrow> [] | Some b \<Rightarrow> [b]) [fst (snd (snd g)), fst (snd (snd i))])
          in if bits = [] then None else Some (str_join '','' bits)),
        as_of = v_as_of a, available_at = v_computed_at a, computed_at = v_computed_at a,
        data_stale_after = d, pipeline_stale_after = p, stale_after = st,
        status_at_compute = status, model_version = v_model_version a,
        confidence_model_version = CONFIDENCE_MODEL_VERSION_V2, confidence_method = v_confidence_method a,
        source_vintage_hash = v_vintage_hash a \<rparr>"
      using g(1) i(1) q st pub' avail by (simp add: build_snapshot_v2_def gt it Let_def)
  qed (use pub a compute_stale_after_Some(1) [OF st] in
      \<open>auto simp: status0_def ck_no_confidence_def ck_ranges_def ck_times_def ck_nonempty_def gt it\<close>)
qed

lemma snapshot_v2_status:
  assumes "normal_cdf cdf" "sound_input_v2 a"
  obtains s where "build_snapshot_v2 uuid5 cdf a = Inr s"
    "status_at_compute s \<in> set STATUSES"
    "status_at_compute s \<noteq> ''valid'' \<Longrightarrow> quadrant s = None"
    "status_at_compute s = ''valid'' \<longleftrightarrow> gates_pass a \<and> (\<exists>gd gr gp idg ir ip.
       classify_axis_v2 cdf (v_growth a) = Inr (gd, True, gr, Some gp) \<and>
       classify_axis_v2 cdf (v_inflation a) = Inr (idg, True, ir, Some ip) \<and> TAU_PUBLISH \<le> joint gp ip)"
    "status_at_compute s = ''valid'' \<Longrightarrow> \<exists>q M. quadrant s = Some q \<and> candidate_quadrant s = Some q \<and> q \<in> set QUADRANTS \<and>
       candidate_confidence s = Some M \<and> TAU_PUBLISH \<le> M \<and> M \<le> 1 \<and> \<not> transition_pending s \<and>
       quadrant_from_signs (d_sign (growth s)) (d_sign (inflation s)) = Inr (Some q)"
    "\<And>gd gr gp idg ir ip. classify_axis_v2 cdf (v_growth a) = Inr (gd, True, gr, Some gp) \<Longrightarrow>
       classify_axis_v2 cdf (v_inflation a) = Inr (idg, True, ir, Some ip) \<Longrightarrow> status_at_compute s = ''valid'' \<Longrightarrow>
       candidate_confidence s = Some (joint gp ip)"
    "ck_domains s" "ck_no_confidence s" "ck_ranges s" "ck_times s" "ck_nonempty s"
proof (rule build_snapshot_v2_eq [OF assms, of uuid5])
  fix g i published cand M s
  assume g: "classify_axis_v2 cdf (v_growth a) = Inr g" "axis_ok (v_growth a) g"
    and i: "classify_axis_v2 cdf (v_inflation a) = Inr i" "axis_ok (v_inflation a) i"
    and q: "classify_quadrant g i (v_prev_published a) = Inr (published, cand, M)"
    and s: "build_snapshot_v2 uuid5 cdf a = Inr s" "growth s = fst g" "inflation s = fst i"
      "candidate_quadrant s = cand" "transition_pending s \<longleftrightarrow> \<not> (fst (snd g) \<and> fst (snd i))"
    and pub: "(status_at_compute s, quadrant s) = publish_status (resolve_status_v2 (v_structural_failure a)
       (min (v_coverage (v_growth a)) (v_coverage (v_inflation a)))
       (min (v_freshness (v_growth a)) (v_freshness (v_inflation a)) \<le> 0)
       (min (v_health (v_growth a)) (v_health (v_inflation a))) (fst (snd g) \<and> fst (snd i)) M) published"
    and conf: "candidate_confidence s = (if status_at_compute s \<in> {''unavailable'', ''invalid''} then None else M)"
    and checks: "ck_no_confidence s" "ck_ranges s" "ck_times s" "ck_nonempty s"
  define status0 where "status0 = resolve_status_v2 (v_structural_failure a)
       (min (v_coverage (v_growth a)) (v_coverage (v_inflation a)))
       (min (v_freshness (v_growth a)) (v_freshness (v_inflation a)) \<le> 0)
       (min (v_health (v_growth a)) (v_health (v_inflation a))) (fst (snd g) \<and> fst (snd i)) M"
  have valid0: "status0 = ''valid'' \<longleftrightarrow> gates_pass a \<and> fst (snd g) \<and> fst (snd i) \<and> (\<exists>m. M = Some m \<and> TAU_PUBLISH \<le> m)"
    unfolding status0_def resolve_status_v2_valid gates_pass_def by (auto simp: not_le)
  have dom0: "status0 \<in> {''invalid'', ''unavailable'', ''stale'', ''low_confidence'', ''valid''}"
    unfolding status0_def by (rule resolve_status_v2_domain)
  show thesis
    using g(2) i(2)
  proof (cases rule: classify_quadrant_ok [where prev = "v_prev_published a"])
    case (both gp ip x)
    have e: "published = (if TAU_PUBLISH \<le> joint gp ip then Some x else None)" "cand = Some x" "M = Some (joint gp ip)"
      using q both(10) by auto
    have "published \<noteq> None" if "status0 = ''valid''" using that e by (auto simp: valid0)
    note ps = publish_status_cases [OF dom0 this, folded pub [folded status0_def], unfolded fst_conv snd_conv]
    have v: "status_at_compute s = ''valid'' \<longleftrightarrow> gates_pass a \<and> TAU_PUBLISH \<le> joint gp ip"
      using ps(2) valid0 e both(3,4) by auto
    obtain gd gr idg ir where gi: "g = (gd, True, gr, Some gp)" "i = (idg, True, ir, Some ip)"
      using both(1-4) by (cases g; cases i) auto
    have quad: "quadrant s = (if status_at_compute s = ''valid'' then Some x else None)"
      using ps(2,3) v e by auto
    show thesis
    proof (rule that [OF s(1)])
      show "\<exists>q M. quadrant s = Some q \<and> candidate_quadrant s = Some q \<and> q \<in> set QUADRANTS \<and>
       candidate_confidence s = Some M \<and> TAU_PUBLISH \<le> M \<and> M \<le> 1 \<and> \<not> transition_pending s \<and>
       quadrant_from_signs (d_sign (growth s)) (d_sign (inflation s)) = Inr (Some q)" if "status_at_compute s = ''valid''"
        using that v quad e both s conf joint_tau(3) [OF _ both(5-8)] by simp
    qed (use ps v quad e g i gi both s conf checks in \<open>auto simp: ck_domains_def\<close>)
  next
    case (missing cand')
    have e: "published = None" "cand = cand'" "M = None" using q missing(2) by auto
    have nv: "status0 \<noteq> ''valid''" using missing(1) by (auto simp: valid0)
    have "published \<noteq> None" if "status0 = ''valid''" using that nv by simp
    note ps = publish_status_cases [OF dom0 this, folded pub [folded status0_def], unfolded fst_conv snd_conv]
    show thesis
      by (rule that [OF s(1)]) (use ps nv e g i missing s checks in \<open>auto simp: ck_domains_def\<close>)
  qed
qed

text \<open>
  C36: what the assembler of the second model promises of a snapshot. From sound inputs it raises
  nothing; the snapshot is valid exactly when the hard gates pass, both filters are available and
  the joint posterior reaches the publish threshold; a valid one carries a quadrant, which is its
  candidate and the quadrant of the signs its two axes report, with the joint posterior as its
  confidence, and no other one carries a quadrant. The incumbent is not among the inputs that matter.
\<close>

theorem build_snapshot_v2_contract:
  assumes "normal_cdf cdf" "sound_input_v2 a"
  shows "\<exists>s. build_snapshot_v2 uuid5 cdf a = Inr s \<and>
    (status_at_compute s = ''valid'' \<longleftrightarrow> gates_pass a \<and> (\<exists>gd gr gp idg ir ip.
       classify_axis_v2 cdf (v_growth a) = Inr (gd, True, gr, Some gp) \<and>
       classify_axis_v2 cdf (v_inflation a) = Inr (idg, True, ir, Some ip) \<and> TAU_PUBLISH \<le> joint gp ip)) \<and>
    (if status_at_compute s = ''valid''
     then \<exists>q M. quadrant s = Some q \<and> candidate_quadrant s = Some q \<and> candidate_confidence s = Some M \<and>
       TAU_PUBLISH \<le> M \<and> M \<le> 1 \<and> quadrant_from_signs (d_sign (growth s)) (d_sign (inflation s)) = Inr (Some q)
     else quadrant s = None)"
  by (rule snapshot_v2_status [OF assms, of uuid5]) (intro exI conjI, assumption+, auto)


subsection \<open>Point in time\<close>

lemma walk_back_le: "u \<in> set (walk_back t) \<Longrightarrow> u \<le> t"
  by (auto simp: walk_back_def)

lemma axis_observations_known:
  "axis_observations (filter (\<lambda>v. v_available_at v \<le> t) vintages) ax t = axis_observations vintages ax t"
proof -
  have "mapE (axis_observation (filter (\<lambda>v. v_available_at v \<le> t) vintages) ax) (walk_back t)
      = mapE (axis_observation vintages ax) (walk_back t)"
    by (rule mapE_cong) (simp_all add: axis_observation_def score_axis_known walk_back_le)
  then show ?thesis by (simp add: axis_observations_def)
qed

lemma eod_query_known: "eod_query (filter (\<lambda>(ticker, day, px). day \<le> d) eod_prices) d = eod_query eod_prices d"
  unfolding eod_query_def filter_filter by (rule arg_cong [where f = "sort_key _"], rule filter_cong) auto

text \<open>
  C37: the three macro streams are point in time. The whole result of a run, the scores, every month
  of the walk-back window, the market sensor, the identifier and the stored rows, depends only on
  the vintages available by the decision time and, for the fused model, on the sessions up to its
  day: what is published later changes nothing.
\<close>

theorem macro_streams_point_in_time:
  "macro_run uuid5 cdf sha got t (filter (\<lambda>v. v_available_at v \<le> t) vintages) db
     = macro_run uuid5 cdf sha got t vintages db \<and>
   macro_v2_run uuid5 cdf sha got t (filter (\<lambda>v. v_available_at v \<le> t) vintages) db
     = macro_v2_run uuid5 cdf sha got t vintages db \<and>
   macro_v3_run uuid5 cdf sha got t (filter (\<lambda>v. v_available_at v \<le> t) vintages)
       (filter (\<lambda>(ticker, day, px). day \<le> dt_date t) eod_prices) db
     = macro_v3_run uuid5 cdf sha got t vintages eod_prices db"
  by (simp add: macro_run_point_in_time macro_v2_run_def macro_v3_run_def macro_v2_run_input_def macro_v3_run_input_def
      axis_observations_known market_growth_observations_def eod_query_known)

subsection \<open>A moderate decision\<close>

definition step_cdf :: "real \<Rightarrow> real" where
  "step_cdf x = (if x < 0 then 1 / 5 else if x = 0 then 1 / 2 else 4 / 5)"

lemma step_cdf_normal: "normal_cdf step_cdf"
  by (auto simp: normal_cdf_def step_cdf_def mono_def)

definition steady_axis :: axis_input_v2 where
  "steady_axis = \<lparr> v_observations = replicate 24 (Some 1, Some 1), v_coverage = 1, v_freshness = 1, v_health = 1,
     v_auxiliary = None \<rparr>"

lemma steady_classified:
  "\<exists>d. classify_axis_v2 step_cdf steady_axis = Inr (d, True, None, Some (4 / 5))"
proof -
  let ?obs = "replicate 24 (Some 1, Some 1) :: score_obs list"
  let ?out = "kalman_filter_series ?obs KALMAN_LAMBDA KALMAN_R_WINDOW KALMAN_MIN_DIFFS"
  have len: "length ?out = 24" by (simp add: kalman_filter_series_def)
  obtain om oP oR where o: "?out ! 23 = (om, oP, oR)" by (cases "?out ! 23")
  have last: "last ?out = ?out ! 23" using len by (simp add: last_conv_nth flip: length_0_conv)
  have "\<exists>m P. om = Some m \<and> oP = Some P \<and> 1 \<le> m \<and> 0 < P"
    using kalman_filter_month [of KALMAN_LAMBDA 23 ?obs 1 1 KALMAN_R_WINDOW KALMAN_MIN_DIFFS] o
    by (auto simp: KALMAN_LAMBDA_def split: option.splits)
  then obtain m P where mP: "om = Some m" "oP = Some P" "1 \<le> m" "0 < P" by blast
  define z where "z = m / sqrt P"
  have "0 < z" unfolding z_def using mP by (intro divide_pos_pos) simp_all
  then have "step_cdf z = 4 / 5" by (simp add: step_cdf_def)
  then show ?thesis unfolding z_def
    using mP last o by (simp add: classify_axis_v2_def steady_axis_def filter_axis_def MIN_FILTER_OBSERVATIONS_def
        axis_sign_probability_def Let_def)
qed

definition steady_input :: snapshot_input_v2 where
  "steady_input = \<lparr> v_as_of = Date 2026 7 17, v_computed_at = midnight (Date 2026 7 17) + 3600000000,
     v_previous_snapshot_id = None, v_prev_published = None, v_growth = steady_axis, v_inflation = steady_axis,
     v_available_ats = [midnight (Date 2026 7 17)], v_critical_expiries = [0],
     v_model_version = MACRO_MODEL_VERSION_V2, v_vintage_hash = ''h'', v_structural_failure = False,
     v_confidence_method = CONFIDENCE_METHOD_V2 \<rparr>"

lemma steady_sound: "sound_input_v2 steady_input" "gates_pass steady_input"
  by (simp_all add: sound_input_v2_def gates_pass_def steady_input_def steady_axis_def aligned_def
      MACRO_MODEL_VERSION_V2_def MIN_INPUT_COVERAGE_def MIN_SOURCE_HEALTH_def)

lemma steady_axes [simp]: "v_growth steady_input = steady_axis" "v_inflation steady_input = steady_axis"
  by (simp_all add: steady_input_def)

lemma steady_joint: "joint (4 / 5) (4 / 5) = 16 / 25"
  by (simp add: joint_def)

theorem build_snapshot_v2_contract_witness:
  "\<exists>s. build_snapshot_v2 (\<lambda>k. ''id'') step_cdf steady_input = Inr s \<and> status_at_compute s = ''valid'' \<and> quadrant s \<noteq> None"
proof -
  obtain d where d: "classify_axis_v2 step_cdf steady_axis = Inr (d, True, None, Some (4 / 5))"
    using steady_classified by blast
  have "TAU_PUBLISH \<le> joint (4 / 5) (4 / 5)" by (simp add: steady_joint TAU_PUBLISH_def)
  with build_snapshot_v2_contract [OF step_cdf_normal steady_sound(1), of "\<lambda>k. ''id''"] d steady_sound(2)
  show ?thesis by (auto split: if_splits)
qed


end
