(* ===== verification/Spec2Isabelle.thy ===== *)
theory Spec2Isabelle
  imports Prelude Calendar Federal_Holidays Quadrant_Axis Macro_Score Quadrant_Snapshot
    Quadrant_Workers Daily_Chain Effective_Matviews Compensation Chain_Worker Chain_Guarantees
    Fund_Identifiers Lookthrough Bond_Identity Bond_Matching Contract_Basics Evidence_AsOf Evidence_Links
    Followup_Intervals Followup Followup_Tiling Followup_Panel
    Price_Series Regime_Gate Credit_Regime Regime_Composite Bond_Cashflows Bond_Pricing Bond_OAS Quadrant_Kalman Quadrant_V2
begin

text \<open>
  A verification development for the datalake workers (\<open>src/\<close>).
\<close>

end
